(* ===== verification/Matter_Prelude.thy ===== *)
theory Matter_Prelude
  imports Main "HOL-Library.Word"
begin

text \<open>
  Shared ground of the development: the names of the Rust machine integers, the
  error-or-value result and the state-passing computations in which methods taking
  \<open>&mut self\<close> are written, little-endian byte encodings of words with their round-trip
  laws, and two interface locales (byte codecs and guarded state machines) that several
  components instantiate.
\<close>

unbundle bit_operations_syntax

section \<open>Machine integers\<close>

type_synonym byte = "8 word"
type_synonym u8 = "8 word"
type_synonym u16 = "16 word"
type_synonym u32 = "32 word"
type_synonym u64 = "64 word"
type_synonym bytes = "8 word list"

text \<open>Instants and durations are whole milliseconds on one monotonic clock.\<close>

type_synonym instant = nat
type_synonym duration = nat

named_theorems le_simps \<open>little-endian encodings\<close>
named_theorems comp_simps \<open>state-passing computations\<close>
named_theorems comp_elims \<open>inversion of successful computations\<close>

section \<open>Computations on a mutable receiver\<close>

text \<open>
  A Rust method \<open>fn f(&mut self) -> Result<T, E>\<close> is a function from the receiver to the
  result and the receiver afterwards; the receiver is returned on the error path too,
  because Rust keeps the writes made before an early return.
\<close>

type_synonym ('s, 'e, 'a) comp = "'s \<Rightarrow> ('e + 'a) \<times> 's"

definition ok :: "'a \<Rightarrow> ('s, 'e, 'a) comp" where
  "ok x s = (Inr x, s)"

definition err :: "'e \<Rightarrow> ('s, 'e, 'a) comp" where
  "err e s = (Inl e, s)"

definition andthen :: "('s, 'e, 'a) comp \<Rightarrow> ('a \<Rightarrow> ('s, 'e, 'b) comp) \<Rightarrow> ('s, 'e, 'b) comp" where
  "andthen m f s = (case m s of (Inl e, s') \<Rightarrow> (Inl e, s') | (Inr x, s') \<Rightarrow> f x s')"

lemma ok_apply [simp]: "ok x s = (Inr x, s)"
  by (simp add: ok_def)

lemma err_apply [simp]: "err e s = (Inl e, s)"
  by (simp add: err_def)

lemma andthen_Inr [comp_simps]: "m s = (Inr x, s') \<Longrightarrow> andthen m f s = f x s'"
  by (simp add: andthen_def)

lemma andthen_Inl [comp_simps]: "m s = (Inl e, s') \<Longrightarrow> andthen m f s = (Inl e, s')"
  by (simp add: andthen_def)

lemma fst_andthen_Inl: "fst (m s) = Inl e \<Longrightarrow> fst (andthen m f s) = Inl e"
  by (cases "m s") (simp add: andthen_def)

lemma andthen_ok [simp]: "andthen (ok x) f = f x"
  by (rule ext) (simp add: andthen_def)

lemma andthen_err [simp]: "andthen (err e) f = err e"
  by (rule ext) (simp add: andthen_def)

lemma andthen_eq_Inr [comp_elims]:
  "andthen m f s = (Inr y, s'') \<longleftrightarrow> (\<exists>x s'. m s = (Inr x, s') \<and> f x s' = (Inr y, s''))"
  by (auto simp: andthen_def split: prod.splits sum.splits)

lemma andthen_eq_Inl [comp_elims]:
  "andthen m f s = (Inl e, s'') \<longleftrightarrow>
     m s = (Inl e, s'') \<or> (\<exists>x s'. m s = (Inr x, s') \<and> f x s' = (Inl e, s''))"
  by (auto simp: andthen_def split: prod.splits sum.splits)

text \<open>
  A relation between the receiver before and after that every step of a computation
  respects holds of the whole computation.
\<close>

definition keeps :: "('s \<Rightarrow> 's \<Rightarrow> bool) \<Rightarrow> ('s, 'e, 'a) comp \<Rightarrow> bool" where
  "keeps R m \<longleftrightarrow> (\<forall>s r s'. m s = (r, s') \<longrightarrow> R s s')"

lemma keepsI [intro]: "(\<And>s r s'. m s = (r, s') \<Longrightarrow> R s s') \<Longrightarrow> keeps R m"
  by (auto simp: keeps_def)

lemma keepsD: "keeps R m \<Longrightarrow> m s = (r, s') \<Longrightarrow> R s s'"
  by (auto simp: keeps_def)

lemma keeps_ok: "reflp R \<Longrightarrow> keeps R (ok x)"
  by (auto simp: keeps_def dest: reflpD)

lemma keeps_err: "reflp R \<Longrightarrow> keeps R (err e)"
  by (auto simp: keeps_def dest: reflpD)

lemma keeps_andthen:
  assumes "transp R" "keeps R m" "\<And>x. keeps R (f x)"
  shows "keeps R (andthen m f)"
proof
  fix s r s'
  assume eq: "andthen m f s = (r, s')"
  obtain r1 s1 where m: "m s = (r1, s1)"
    by fastforce
  with assms(2) have R1: "R s s1"
    by (rule keepsD)
  show "R s s'"
  proof (cases r1)
    case (Inl e)
    with m eq R1 show ?thesis by (simp add: andthen_def)
  next
    case (Inr x)
    with m eq have "f x s1 = (r, s')" by (simp add: andthen_def)
    with assms(3) have "R s1 s'" by (rule keepsD)
    with R1 assms(1) show ?thesis by (blast dest: transpD)
  qed
qed

section \<open>Results without a receiver\<close>

text \<open>The \<open>?\<close> operator on a plain \<open>Result\<close>.\<close>

definition try_bind :: "'e + 'a \<Rightarrow> ('a \<Rightarrow> 'e + 'b) \<Rightarrow> 'e + 'b" where
  "try_bind r f = (case r of Inl e \<Rightarrow> Inl e | Inr x \<Rightarrow> f x)"

lemma try_bind_simps [simp]:
  "try_bind (Inl e) f = Inl e"
  "try_bind (Inr x) f = f x"
  by (simp_all add: try_bind_def)

lemma try_bind_eq_Inr [comp_elims]: "try_bind r f = Inr y \<longleftrightarrow> (\<exists>x. r = Inr x \<and> f x = Inr y)"
  by (cases r) auto

lemma try_bind_eq_Inl [comp_elims]:
  "try_bind r f = Inl e \<longleftrightarrow> r = Inl e \<or> (\<exists>x. r = Inr x \<and> f x = Inl e)"
  by (cases r) auto

text \<open>\<open>Option::ok_or\<close>.\<close>

definition ok_or :: "'a option \<Rightarrow> 'e \<Rightarrow> 'e + 'a" where
  "ok_or x e = (case x of None \<Rightarrow> Inl e | Some y \<Rightarrow> Inr y)"

lemma ok_or_simps [simp]:
  "ok_or None e = Inl e"
  "ok_or (Some x) e = Inr x"
  by (simp_all add: ok_or_def)

section \<open>Little-endian byte encodings\<close>

text \<open>
  \<open>to_le_bytes\<close> and \<open>from_le_bytes\<close> of the Rust integers: \<open>to_le n w\<close> is the low \<open>n\<close>
  bytes of \<open>w\<close>, least significant first, and \<open>of_le bs\<close> reads them back.
\<close>

fun nat_le :: "nat \<Rightarrow> nat \<Rightarrow> bytes" where
  "nat_le 0 x = []"
| "nat_le (Suc n) x = word_of_nat (x mod 256) # nat_le n (x div 256)"

fun le_nat :: "bytes \<Rightarrow> nat" where
  "le_nat [] = 0"
| "le_nat (b # bs) = unat b + 256 * le_nat bs"

definition to_le :: "nat \<Rightarrow> 'a::len word \<Rightarrow> bytes" where
  "to_le n w = nat_le n (unat w)"

definition of_le :: "bytes \<Rightarrow> 'a::len word" where
  "of_le bs = word_of_nat (le_nat bs)"

lemma unat_bound: "unat (w :: 'a::len word) < 2 ^ LENGTH('a)"
  by (rule unsigned_less)

lemma unat_ucast_up:
  fixes w :: "'a::len word"
  assumes "LENGTH('a) \<le> LENGTH('b)"
  shows "unat (ucast w :: 'b::len word) = unat w"
proof -
  have "unat w < 2 ^ LENGTH('a)" by (rule unat_bound)
  also have "(2::nat) ^ LENGTH('a) \<le> 2 ^ LENGTH('b)"
    using assms by (intro power_increasing) auto
  finally show ?thesis by (simp add: unsigned_ucast_eq take_bit_nat_eq_self)
qed

lemma nat_le_numeral [le_simps]:
  "nat_le (numeral k) x = word_of_nat (x mod 256) # nat_le (pred_numeral k) (x div 256)"
  by (simp only: numeral_eq_Suc [of k] nat_le.simps)

lemma nat_le_one [simp]: "nat_le 1 x = [word_of_nat (x mod 256)]"
  by (simp add: One_nat_def)

lemma length_nat_le [simp, le_simps]: "length (nat_le n x) = n"
  by (induction n arbitrary: x) auto

lemma length_to_le [simp, le_simps]: "length (to_le n w) = n"
  by (simp add: to_le_def)

lemma le_nat_nat_le: "le_nat (nat_le n x) = x mod 256 ^ n"
proof (induction n arbitrary: x)
  case 0
  then show ?case by simp
next
  case (Suc n)
  have "unat (word_of_nat (x mod 256) :: byte) = x mod 256"
    by (simp add: unat_of_nat)
  with Suc show ?case
    by (simp add: mod_mult2_eq add.commute)
qed

lemma le_nat_bound: "le_nat bs < 256 ^ length bs"
proof (induction bs)
  case Nil
  then show ?case by simp
next
  case (Cons b bs)
  have "unat b < 256"
    using unsigned_less [of b] by simp
  with Cons show ?case by simp
qed

lemma nat_le_le_nat: "length bs = n \<Longrightarrow> nat_le n (le_nat bs) = bs"
proof (induction n arbitrary: bs)
  case 0
  then show ?case by simp
next
  case (Suc n)
  then obtain b bs' where bs: "bs = b # bs'" and len: "length bs' = n"
    by (cases bs) auto
  have "unat b < 256"
    using unsigned_less [of b] by simp
  with bs Suc.IH [OF len] show ?case
    by simp
qed

lemma of_le_to_le:
  assumes "LENGTH('a) \<le> 8 * n"
  shows "of_le (to_le n (w :: 'a::len word)) = w"
proof -
  have "unat w < 2 ^ LENGTH('a)"
    by (rule unsigned_less)
  also have "(2::nat) ^ LENGTH('a) \<le> 2 ^ (8 * n)"
    using assms by (intro power_increasing) auto
  also have "(2::nat) ^ (8 * n) = 256 ^ n"
    by (simp add: power_mult)
  finally show ?thesis
    by (simp add: of_le_def to_le_def le_nat_nat_le)
qed

lemma of_le_to_le_u8 [simp, le_simps]: "of_le (to_le 1 (w :: u8)) = w"
  by (rule of_le_to_le) simp

lemma of_le_to_le_u16 [simp, le_simps]: "of_le (to_le 2 (w :: u16)) = w"
  by (rule of_le_to_le) simp

lemma of_le_to_le_u32 [simp, le_simps]: "of_le (to_le 4 (w :: u32)) = w"
  by (rule of_le_to_le) simp

lemma of_le_to_le_u64 [simp, le_simps]: "of_le (to_le 8 (w :: u64)) = w"
  by (rule of_le_to_le) simp

lemma to_le_of_le:
  assumes "length bs = n" "8 * n \<le> LENGTH('a)"
  shows "to_le n (of_le bs :: 'a::len word) = bs"
proof -
  have "le_nat bs < 256 ^ n"
    using le_nat_bound [of bs] assms(1) by simp
  also have "(256::nat) ^ n = 2 ^ (8 * n)"
    by (simp add: power_mult)
  also have "(2::nat) ^ (8 * n) \<le> 2 ^ LENGTH('a)"
    using assms(2) by (intro power_increasing) auto
  finally show ?thesis
    using assms(1) by (simp add: to_le_def of_le_def unat_of_nat nat_le_le_nat)
qed

text \<open>A narrow encoding of a wide word that happens to fit loses nothing.\<close>

lemma of_le_to_le_fits:
  assumes "unat (w :: 'a::len word) < 256 ^ n"
  shows "of_le (to_le n w) = w"
  using assms by (simp add: of_le_def to_le_def le_nat_nat_le)

lemma unat_of_le:
  assumes "8 * length bs \<le> LENGTH('a)"
  shows "unat (of_le bs :: 'a::len word) = le_nat bs"
proof -
  have "le_nat bs < 256 ^ length bs"
    by (rule le_nat_bound)
  also have "(256::nat) ^ length bs = 2 ^ (8 * length bs)"
    by (simp add: power_mult)
  also have "\<dots> \<le> 2 ^ LENGTH('a)"
    using assms by (intro power_increasing) auto
  finally show ?thesis
    by (simp add: of_le_def unat_of_nat)
qed

lemma le_nat_to_le: "le_nat (to_le n w) = unat w mod 256 ^ n"
  by (simp add: to_le_def le_nat_nat_le)

section \<open>Lists\<close>

lemma take_drop_append3 [simp]:
  "take (length ys) (drop (length xs) (xs @ ys @ zs)) = ys"
  by simp

lemma drop_eq_Cons_nth: "drop n xs = y # ys \<Longrightarrow> n < length xs \<and> xs ! n = y \<and> drop (Suc n) xs = ys"
  by (metis Cons_nth_drop_Suc drop_all leI list.inject list.simps(3))

lemma drop_eq_append:
  assumes "drop n xs = ys @ zs"
  shows "take (length ys) (drop n xs) = ys" and "drop (n + length ys) xs = zs"
proof -
  show "take (length ys) (drop n xs) = ys"
    using assms by simp
  have "drop (n + length ys) xs = drop (length ys) (drop n xs)"
    by (simp add: add.commute)
  with assms show "drop (n + length ys) xs = zs" by simp
qed

section \<open>Interface: byte codecs\<close>

text \<open>
  A codec writes a value as bytes and reads it back from the front of an input, leaving
  what follows; \<open>fits\<close> are the inputs it can address. What its clients rely on is the law
  \<open>decode_encode\<close>; from it follow that encodings determine their values and that no encoding
  is a proper prefix of another, so a concatenation of messages can be split in one way
  only.
\<close>

locale byte_codec =
  fixes enc :: "'a \<Rightarrow> bytes"
    and dec :: "bytes \<Rightarrow> 'e + ('a \<times> bytes)"
    and wf :: "'a \<Rightarrow> bool"
    and fits :: "bytes \<Rightarrow> bool"
  assumes decode_encode: "wf x \<Longrightarrow> fits (enc x @ rest) \<Longrightarrow> dec (enc x @ rest) = Inr (x, rest)"
begin

lemma prefix_free:
  assumes "wf x" "wf y" "fits (enc x @ r)" "enc x @ r = enc y @ r'"
  shows "x = y \<and> r = r'"
proof -
  have "dec (enc y @ r') = Inr (x, r)"
    using decode_encode [OF assms(1,3)] unfolding assms(4) .
  moreover have "dec (enc y @ r') = Inr (y, r')"
    using decode_encode [OF assms(2)] assms(3) unfolding assms(4) .
  ultimately show ?thesis by simp
qed

lemma encode_inject: "wf x \<Longrightarrow> wf y \<Longrightarrow> fits (enc x) \<Longrightarrow> enc x = enc y \<Longrightarrow> x = y"
  using prefix_free [of x y "[]" "[]"] by simp

lemma decode_whole: "wf x \<Longrightarrow> fits (enc x) \<Longrightarrow> dec (enc x) = Inr (x, [])"
  using decode_encode [of x "[]"] by simp

end

section \<open>Interface: guarded state machines\<close>

text \<open>
  A component whose public operations are a step function on its state keeps an invariant
  if every step does; a run is any sequence of operations.
\<close>

locale guarded_machine =
  fixes step :: "'op \<Rightarrow> 's \<Rightarrow> 's"
    and inv :: "'s \<Rightarrow> bool"
  assumes step_inv: "inv s \<Longrightarrow> inv (step op s)"
begin

lemma run_inv: "inv s \<Longrightarrow> inv (fold step ops s)"
  by (induction ops arbitrary: s) (auto intro: step_inv)

text \<open>
  A measure that only the operations satisfying \<open>P\<close> raise above \<open>b\<close>, each by one, is bounded
  along a run by the number of those operations.
\<close>

lemma run_count:
  assumes "inv s" and "\<And>op s. inv s \<Longrightarrow> f (step op s) \<le> max b (f s) + (if P op then 1 else 0 :: nat)"
  shows "f (fold step ops s) \<le> max b (f s) + length (filter P ops)"
  using assms(1)
proof (induction ops arbitrary: s)
  case (Cons op ops)
  have "f (fold step ops (step op s)) \<le> max b (f (step op s)) + length (filter P ops)"
    using Cons step_inv by blast
  with assms(2) [OF Cons.prems, of op] show ?case by (simp split: if_splits)
qed simp

end

end
