(* ===== verification/TLV_Types.thy ===== *)
theory TLV_Types
  imports Matter_Prelude
begin

text \<open>
  Data model of the TLV codec, \<open>crates/matter-codec/src\<close>: the element-type and
  tag-control constants of \<open>element_type.rs\<close> and \<open>tag_control.rs\<close>, the tag forms of
  \<open>tag.rs\<close>, the value tree of \<open>value.rs\<close> and the errors of \<open>error.rs\<close>. Strings are their
  UTF-8 bytes and floats their IEEE bit patterns (the codec only moves the bits), an
  \<open>i64\<close> is a 64-bit word read in two's complement, and the check made by
  \<open>core::str::from_utf8\<close> is written out.
\<close>

section \<open>Element types and tag controls\<close>

definition ET_INT8 :: u8 where [simp]: "ET_INT8 = 0"
definition ET_INT16 :: u8 where [simp]: "ET_INT16 = 1"
definition ET_INT32 :: u8 where [simp]: "ET_INT32 = 2"
definition ET_INT64 :: u8 where [simp]: "ET_INT64 = 3"
definition ET_UINT8 :: u8 where [simp]: "ET_UINT8 = 4"
definition ET_UINT16 :: u8 where [simp]: "ET_UINT16 = 5"
definition ET_UINT32 :: u8 where [simp]: "ET_UINT32 = 6"
definition ET_UINT64 :: u8 where [simp]: "ET_UINT64 = 7"
definition ET_BOOL_FALSE :: u8 where [simp]: "ET_BOOL_FALSE = 8"
definition ET_BOOL_TRUE :: u8 where [simp]: "ET_BOOL_TRUE = 9"
definition ET_FLOAT32 :: u8 where [simp]: "ET_FLOAT32 = 10"
definition ET_FLOAT64 :: u8 where [simp]: "ET_FLOAT64 = 11"
definition ET_UTF8_LEN8 :: u8 where [simp]: "ET_UTF8_LEN8 = 12"
definition ET_UTF8_LEN16 :: u8 where [simp]: "ET_UTF8_LEN16 = 13"
definition ET_UTF8_LEN32 :: u8 where [simp]: "ET_UTF8_LEN32 = 14"
definition ET_UTF8_LEN64 :: u8 where [simp]: "ET_UTF8_LEN64 = 15"
definition ET_BYTES_LEN8 :: u8 where [simp]: "ET_BYTES_LEN8 = 16"
definition ET_BYTES_LEN16 :: u8 where [simp]: "ET_BYTES_LEN16 = 17"
definition ET_BYTES_LEN32 :: u8 where [simp]: "ET_BYTES_LEN32 = 18"
definition ET_BYTES_LEN64 :: u8 where [simp]: "ET_BYTES_LEN64 = 19"
definition ET_NULL :: u8 where [simp]: "ET_NULL = 20"
definition ET_STRUCTURE :: u8 where [simp]: "ET_STRUCTURE = 21"
definition ET_ARRAY :: u8 where [simp]: "ET_ARRAY = 22"
definition ET_LIST :: u8 where [simp]: "ET_LIST = 23"
definition ET_END_OF_CONTAINER :: u8 where [simp]: "ET_END_OF_CONTAINER = 24"
definition ELEMENT_TYPE_MASK :: u8 where [simp]: "ELEMENT_TYPE_MASK = 31"

definition TC_ANONYMOUS :: u8 where [simp]: "TC_ANONYMOUS = 0"
definition TC_CONTEXT :: u8 where [simp]: "TC_CONTEXT = 32"
definition TC_COMMON_PROFILE_2 :: u8 where [simp]: "TC_COMMON_PROFILE_2 = 64"
definition TC_COMMON_PROFILE_4 :: u8 where [simp]: "TC_COMMON_PROFILE_4 = 96"
definition TC_IMPLICIT_PROFILE_2 :: u8 where [simp]: "TC_IMPLICIT_PROFILE_2 = 128"
definition TC_IMPLICIT_PROFILE_4 :: u8 where [simp]: "TC_IMPLICIT_PROFILE_4 = 160"
definition TC_FULLY_QUALIFIED_6 :: u8 where [simp]: "TC_FULLY_QUALIFIED_6 = 192"
definition TC_FULLY_QUALIFIED_8 :: u8 where [simp]: "TC_FULLY_QUALIFIED_8 = 224"
definition TAG_CONTROL_MASK :: u8 where [simp]: "TAG_CONTROL_MASK = 224"

section \<open>Tags, values and errors\<close>

datatype tag =
    Anonymous
  | Context u8
  | CommonProfile u32
  | ImplicitProfile u32
  | FullyQualified (fq_vendor: u16) (fq_profile: u16) (fq_tag: u32)

datatype tlv_value =
    VBool bool
  | VUint u64
  | VInt u64
  | VFloat u32
  | VDouble u64
  | VUtf8 bytes
  | VBytes bytes
  | VStructure "(tag \<times> tlv_value) list"
  | VArray "tlv_value list"
  | VList "(tag \<times> tlv_value) list"
  | VNull

text \<open>The borrowed view of a scalar; \<open>value_from\<close> is \<open>impl From<ValueRef> for Value\<close>.\<close>

datatype tlv_value_ref =
    RBool bool
  | RUint u64
  | RInt u64
  | RFloat u32
  | RDouble u64
  | RUtf8 bytes
  | RBytes bytes
  | RNull

fun value_from :: "tlv_value_ref \<Rightarrow> tlv_value" where
  "value_from (RBool b) = VBool b"
| "value_from (RUint n) = VUint n"
| "value_from (RInt n) = VInt n"
| "value_from (RFloat f) = VFloat f"
| "value_from (RDouble f) = VDouble f"
| "value_from (RUtf8 s) = VUtf8 s"
| "value_from (RBytes b) = VBytes b"
| "value_from RNull = VNull"

datatype container_kind = KStructure | KArray | KList

datatype tlv_element =
    Scalar tag tlv_value
  | ContainerStart tag container_kind
  | ContainerEnd

datatype tlv_element_ref =
    ScalarRef tag tlv_value_ref
  | ContainerStartRef tag container_kind
  | ContainerEndRef

fun element_from :: "tlv_element_ref \<Rightarrow> tlv_element" where
  "element_from (ScalarRef t v) = Scalar t (value_from v)"
| "element_from (ContainerStartRef t k) = ContainerStart t k"
| "element_from ContainerEndRef = ContainerEnd"

text \<open>
  The errors the codec raises. \<open>InvalidUtf8\<close> carries a \<open>Utf8Error\<close> in the source, which
  no code of the crate inspects; it is left out.
\<close>

datatype tlv_error =
    UnexpectedEof
  | InvalidTagControl u8
  | InvalidElementType u8
  | InvalidUtf8
  | IntegerOutOfRange
  | BufferTooSmall
  | LengthOverflow
  | UnexpectedEndOfContainer
  | UnclosedContainer
  | ContainerTooDeep
  | NonAnonymousArrayTag
  | ElementBudgetExceeded
  | InternalSliceConversion
  | TrailingData

section \<open>UTF-8 validity\<close>

text \<open>
  What \<open>core::str::from_utf8\<close> accepts: sequences of one to four bytes, no overlong forms,
  no surrogates, nothing above U+10FFFF (the well-formed byte sequences of the Unicode
  standard).
\<close>

definition utf8_cont :: "byte \<Rightarrow> bool" where
  "utf8_cont b \<longleftrightarrow> 0x80 \<le> b \<and> b \<le> 0xBF"

definition utf8_second3 :: "byte \<Rightarrow> byte \<Rightarrow> bool" where
  "utf8_second3 b0 b1 \<longleftrightarrow>
     (b0 = 0xE0 \<and> 0xA0 \<le> b1 \<and> b1 \<le> 0xBF)
   \<or> (0xE1 \<le> b0 \<and> b0 \<le> 0xEC \<and> utf8_cont b1)
   \<or> (b0 = 0xED \<and> 0x80 \<le> b1 \<and> b1 \<le> 0x9F)
   \<or> (0xEE \<le> b0 \<and> b0 \<le> 0xEF \<and> utf8_cont b1)"

definition utf8_second4 :: "byte \<Rightarrow> byte \<Rightarrow> bool" where
  "utf8_second4 b0 b1 \<longleftrightarrow>
     (b0 = 0xF0 \<and> 0x90 \<le> b1 \<and> b1 \<le> 0xBF)
   \<or> (0xF1 \<le> b0 \<and> b0 \<le> 0xF3 \<and> utf8_cont b1)
   \<or> (b0 = 0xF4 \<and> 0x80 \<le> b1 \<and> b1 \<le> 0x8F)"

fun utf8_valid :: "bytes \<Rightarrow> bool" where
  "utf8_valid [] = True"
| "utf8_valid (b0 # bs) =
     (if b0 < 0x80 then utf8_valid bs
      else if 0xC2 \<le> b0 \<and> b0 \<le> 0xDF
        then (case bs of b1 # r \<Rightarrow> utf8_cont b1 \<and> utf8_valid r | _ \<Rightarrow> False)
      else if 0xE0 \<le> b0 \<and> b0 \<le> 0xEF
        then (case bs of b1 # b2 # r \<Rightarrow> utf8_second3 b0 b1 \<and> utf8_cont b2 \<and> utf8_valid r
              | _ \<Rightarrow> False)
      else (case bs of b1 # b2 # b3 # r \<Rightarrow>
              utf8_second4 b0 b1 \<and> utf8_cont b2 \<and> utf8_cont b3 \<and> utf8_valid r
            | _ \<Rightarrow> False))"

text \<open>The information separator \<open>IS1\<close> that ends the text part of a localized string.\<close>

definition IS1 :: byte where
  "IS1 = 0x1F"

section \<open>Well-formed values\<close>

text \<open>
  \<open>value_depth\<close> counts nested containers. A value is well formed when its strings are
  valid UTF-8 (in Rust a \<open>String\<close> always is) and carry no \<open>IS1\<close> separator (text behind one
  is cut by the reader).
\<close>

fun value_depth :: "tlv_value \<Rightarrow> nat"
  and members_depth :: "(tag \<times> tlv_value) list \<Rightarrow> nat"
  and elements_depth :: "tlv_value list \<Rightarrow> nat" where
  "value_depth (VStructure ms) = Suc (members_depth ms)"
| "value_depth (VArray vs) = Suc (elements_depth vs)"
| "value_depth (VList ms) = Suc (members_depth ms)"
| "value_depth (VBool b) = 0"
| "value_depth (VUint n) = 0"
| "value_depth (VInt n) = 0"
| "value_depth (VFloat f) = 0"
| "value_depth (VDouble f) = 0"
| "value_depth (VUtf8 s) = 0"
| "value_depth (VBytes b) = 0"
| "value_depth VNull = 0"
| "members_depth [] = 0"
| "members_depth ((t, v) # ms) = max (value_depth v) (members_depth ms)"
| "elements_depth [] = 0"
| "elements_depth (v # vs) = max (value_depth v) (elements_depth vs)"

fun value_wf :: "tlv_value \<Rightarrow> bool"
  and members_wf :: "(tag \<times> tlv_value) list \<Rightarrow> bool"
  and elements_wf :: "tlv_value list \<Rightarrow> bool" where
  "value_wf (VUtf8 s) = (utf8_valid s \<and> IS1 \<notin> set s)"
| "value_wf (VStructure ms) = members_wf ms"
| "value_wf (VArray vs) = elements_wf vs"
| "value_wf (VList ms) = members_wf ms"
| "value_wf (VBytes b) = True"
| "value_wf (VBool b) = True"
| "value_wf (VUint n) = True"
| "value_wf (VInt n) = True"
| "value_wf (VFloat f) = True"
| "value_wf (VDouble f) = True"
| "value_wf VNull = True"
| "members_wf [] = True"
| "members_wf ((t, v) # ms) = (value_wf v \<and> members_wf ms)"
| "elements_wf [] = True"
| "elements_wf (v # vs) = (value_wf v \<and> elements_wf vs)"

text \<open>The number of nodes of a value tree, which the element budget of the reader bounds.\<close>

fun value_count :: "tlv_value \<Rightarrow> nat"
  and members_count :: "(tag \<times> tlv_value) list \<Rightarrow> nat"
  and elements_count :: "tlv_value list \<Rightarrow> nat" where
  "value_count (VStructure ms) = Suc (members_count ms)"
| "value_count (VArray vs) = Suc (elements_count vs)"
| "value_count (VList ms) = Suc (members_count ms)"
| "value_count (VUtf8 s) = 1"
| "value_count (VBytes b) = 1"
| "value_count (VBool b) = 1"
| "value_count (VUint n) = 1"
| "value_count (VInt n) = 1"
| "value_count (VFloat f) = 1"
| "value_count (VDouble f) = 1"
| "value_count VNull = 1"
| "members_count [] = 0"
| "members_count ((t, v) # ms) = value_count v + members_count ms"
| "elements_count [] = 0"
| "elements_count (v # vs) = value_count v + elements_count vs"

end
