(* ===== verification/TLV_Writer.thy ===== *)
theory TLV_Writer
  imports TLV_Types
begin

text \<open>
  The streaming encoder of \<open>crates/matter-codec/src/writer.rs\<close>. The writer's state is the
  \<open>Vec<u8>\<close> it appends to. The functions that fill the front of a stack buffer and return
  a byte count (\<open>encode_tag\<close>) return those bytes. A reference encoder \<open>enc\<close>, a pure
  function from a tag and a value to bytes, states what the writer emits; the lemmas show
  that the writer appends exactly that, or fails on a value nested too deeply.
\<close>

definition MAX_DEPTH :: nat where
  "MAX_DEPTH = 32"

section \<open>Tags\<close>

definition encode_tag :: "tag \<Rightarrow> u8 \<Rightarrow> bytes" where
  "encode_tag tag element_type = (case tag of
     Anonymous \<Rightarrow> [TC_ANONYMOUS OR element_type]
   | Context n \<Rightarrow> [TC_CONTEXT OR element_type, n]
   | CommonProfile n \<Rightarrow>
       if n < 2 ^ 16 then (TC_COMMON_PROFILE_2 OR element_type) # to_le 2 n
       else (TC_COMMON_PROFILE_4 OR element_type) # to_le 4 n
   | ImplicitProfile n \<Rightarrow>
       if n < 2 ^ 16 then (TC_IMPLICIT_PROFILE_2 OR element_type) # to_le 2 n
       else (TC_IMPLICIT_PROFILE_4 OR element_type) # to_le 4 n
   | FullyQualified vendor profile t \<Rightarrow>
       if t < 2 ^ 16
       then (TC_FULLY_QUALIFIED_6 OR element_type) # to_le 2 vendor @ to_le 2 profile @ to_le 2 t
       else (TC_FULLY_QUALIFIED_8 OR element_type) # to_le 2 vendor @ to_le 2 profile @ to_le 4 t)"

section \<open>The writer's operations\<close>

type_synonym 'a writer = "(bytes, tlv_error, 'a) comp"

definition extend_from_slice :: "bytes \<Rightarrow> unit writer" where
  "extend_from_slice bs out = (Inr (), out @ bs)"

definition write_tag :: "tag \<Rightarrow> u8 \<Rightarrow> unit writer" where
  "write_tag tag element_type = extend_from_slice (encode_tag tag element_type)"

definition put_scalar :: "tag \<Rightarrow> u8 \<Rightarrow> bytes \<Rightarrow> unit writer" where
  "put_scalar tag element_type payload =
     extend_from_slice (encode_tag tag element_type @ payload)"

definition put_bool :: "tag \<Rightarrow> bool \<Rightarrow> unit writer" where
  "put_bool tag v = put_scalar tag (if v then ET_BOOL_TRUE else ET_BOOL_FALSE) []"

definition put_null :: "tag \<Rightarrow> unit writer" where
  "put_null tag = put_scalar tag ET_NULL []"

definition put_uint :: "tag \<Rightarrow> u64 \<Rightarrow> unit writer" where
  "put_uint tag v =
     (if v < 2 ^ 8 then put_scalar tag ET_UINT8 (to_le 1 v)
      else if v < 2 ^ 16 then put_scalar tag ET_UINT16 (to_le 2 v)
      else if v < 2 ^ 32 then put_scalar tag ET_UINT32 (to_le 4 v)
      else put_scalar tag ET_UINT64 (to_le 8 v))"

text \<open>\<open>i8::try_from(v)\<close> and its siblings succeed when the two's-complement value fits.\<close>

definition fits_signed :: "nat \<Rightarrow> u64 \<Rightarrow> bool" where
  "fits_signed w v \<longleftrightarrow> - (2 ^ (w - 1)) \<le> sint v \<and> sint v < 2 ^ (w - 1)"

definition put_int :: "tag \<Rightarrow> u64 \<Rightarrow> unit writer" where
  "put_int tag v =
     (if fits_signed 8 v then put_scalar tag ET_INT8 (to_le 1 v)
      else if fits_signed 16 v then put_scalar tag ET_INT16 (to_le 2 v)
      else if fits_signed 32 v then put_scalar tag ET_INT32 (to_le 4 v)
      else put_scalar tag ET_INT64 (to_le 8 v))"

definition put_float :: "tag \<Rightarrow> u32 \<Rightarrow> unit writer" where
  "put_float tag v = put_scalar tag ET_FLOAT32 (to_le 4 v)"

definition put_double :: "tag \<Rightarrow> u64 \<Rightarrow> unit writer" where
  "put_double tag v = put_scalar tag ET_FLOAT64 (to_le 8 v)"

definition put_string_payload ::
    "tag \<Rightarrow> bytes \<Rightarrow> u8 \<Rightarrow> u8 \<Rightarrow> u8 \<Rightarrow> u8 \<Rightarrow> unit writer" where
  "put_string_payload tag bs et_len8 et_len16 et_len32 et_len64 =
     (let len = length bs in
      andthen
        (if len < 2 ^ 8 then ok (encode_tag tag et_len8 @ nat_le 1 len)
         else if len < 2 ^ 16 then ok (encode_tag tag et_len16 @ nat_le 2 len)
         else if len < 2 ^ 32 then ok (encode_tag tag et_len32 @ nat_le 4 len)
         else if len < 2 ^ 64 then ok (encode_tag tag et_len64 @ nat_le 8 len)
         else err LengthOverflow)
        (\<lambda>header. andthen (extend_from_slice header) (\<lambda>_. extend_from_slice bs)))"

definition put_utf8 :: "tag \<Rightarrow> bytes \<Rightarrow> unit writer" where
  "put_utf8 tag v = put_string_payload tag v ET_UTF8_LEN8 ET_UTF8_LEN16 ET_UTF8_LEN32 ET_UTF8_LEN64"

definition put_bytes :: "tag \<Rightarrow> bytes \<Rightarrow> unit writer" where
  "put_bytes tag v =
     put_string_payload tag v ET_BYTES_LEN8 ET_BYTES_LEN16 ET_BYTES_LEN32 ET_BYTES_LEN64"

definition put_preencoded :: "tag \<Rightarrow> bytes \<Rightarrow> unit writer" where
  "put_preencoded tag element = (case element of
     [] \<Rightarrow> err UnexpectedEof
   | control # rest \<Rightarrow>
       if control AND TAG_CONTROL_MASK \<noteq> TC_ANONYMOUS
       then err (InvalidTagControl (control AND TAG_CONTROL_MASK))
       else let element_type = control AND ELEMENT_TYPE_MASK in
         if element_type = ET_END_OF_CONTAINER then err (InvalidElementType element_type)
         else andthen (write_tag tag element_type) (\<lambda>_. extend_from_slice rest))"

definition start_structure :: "tag \<Rightarrow> unit writer" where
  "start_structure tag = write_tag tag ET_STRUCTURE"

definition start_array :: "tag \<Rightarrow> unit writer" where
  "start_array tag = write_tag tag ET_ARRAY"

definition start_list :: "tag \<Rightarrow> unit writer" where
  "start_list tag = write_tag tag ET_LIST"

definition end_container :: "unit writer" where
  "end_container = extend_from_slice [ET_END_OF_CONTAINER]"

text \<open>The \<open>for\<close> loops over members and elements are the two auxiliary functions.\<close>

fun write_value_at_depth :: "tag \<Rightarrow> tlv_value \<Rightarrow> nat \<Rightarrow> unit writer"
  and write_members :: "(tag \<times> tlv_value) list \<Rightarrow> nat \<Rightarrow> unit writer"
  and write_elements :: "tlv_value list \<Rightarrow> nat \<Rightarrow> unit writer" where
  "write_value_at_depth tag (VBool v) depth = put_bool tag v"
| "write_value_at_depth tag VNull depth = put_null tag"
| "write_value_at_depth tag (VUint v) depth = put_uint tag v"
| "write_value_at_depth tag (VInt v) depth = put_int tag v"
| "write_value_at_depth tag (VFloat v) depth = put_float tag v"
| "write_value_at_depth tag (VDouble v) depth = put_double tag v"
| "write_value_at_depth tag (VUtf8 v) depth = put_utf8 tag v"
| "write_value_at_depth tag (VBytes v) depth = put_bytes tag v"
| "write_value_at_depth tag (VStructure members) depth =
     (if depth \<ge> MAX_DEPTH then err ContainerTooDeep
      else andthen (start_structure tag) (\<lambda>_.
           andthen (write_members members (depth + 1)) (\<lambda>_. end_container)))"
| "write_value_at_depth tag (VArray elements) depth =
     (if depth \<ge> MAX_DEPTH then err ContainerTooDeep
      else andthen (start_array tag) (\<lambda>_.
           andthen (write_elements elements (depth + 1)) (\<lambda>_. end_container)))"
| "write_value_at_depth tag (VList members) depth =
     (if depth \<ge> MAX_DEPTH then err ContainerTooDeep
      else andthen (start_list tag) (\<lambda>_.
           andthen (write_members members (depth + 1)) (\<lambda>_. end_container)))"
| "write_members [] depth = ok ()"
| "write_members ((t, v) # ms) depth =
     andthen (write_value_at_depth t v depth) (\<lambda>_. write_members ms depth)"
| "write_elements [] depth = ok ()"
| "write_elements (v # vs) depth =
     andthen (write_value_at_depth Anonymous v depth) (\<lambda>_. write_elements vs depth)"

definition write_value :: "tag \<Rightarrow> tlv_value \<Rightarrow> unit writer" where
  "write_value tag v = write_value_at_depth tag v 0"

section \<open>Reference encoder\<close>

text \<open>
  The encoding as a function: \<open>scalar_body\<close> gives the element type and payload of a scalar
  with the minimal width, containers are a header, the members and the end marker.
\<close>

definition uint_body :: "u64 \<Rightarrow> u8 \<times> bytes" where
  "uint_body v =
     (if v < 2 ^ 8 then (ET_UINT8, to_le 1 v) else if v < 2 ^ 16 then (ET_UINT16, to_le 2 v)
      else if v < 2 ^ 32 then (ET_UINT32, to_le 4 v) else (ET_UINT64, to_le 8 v))"

definition int_body :: "u64 \<Rightarrow> u8 \<times> bytes" where
  "int_body v =
     (if fits_signed 8 v then (ET_INT8, to_le 1 v)
      else if fits_signed 16 v then (ET_INT16, to_le 2 v)
      else if fits_signed 32 v then (ET_INT32, to_le 4 v) else (ET_INT64, to_le 8 v))"

text \<open>\<open>base\<close> is the type with an 8-bit length; the wider length types follow it.\<close>

definition string_body :: "u8 \<Rightarrow> bytes \<Rightarrow> u8 \<times> bytes" where
  "string_body base bs =
     (let len = length bs in
      if len < 2 ^ 8 then (base, nat_le 1 len @ bs)
      else if len < 2 ^ 16 then (base + 1, nat_le 2 len @ bs)
      else if len < 2 ^ 32 then (base + 2, nat_le 4 len @ bs)
      else (base + 3, nat_le 8 len @ bs))"

fun value_body :: "tlv_value \<Rightarrow> u8 \<times> bytes"
  and enc_members :: "(tag \<times> tlv_value) list \<Rightarrow> bytes"
  and enc_elements :: "tlv_value list \<Rightarrow> bytes" where
  "value_body (VBool b) = (if b then ET_BOOL_TRUE else ET_BOOL_FALSE, [])"
| "value_body VNull = (ET_NULL, [])"
| "value_body (VUint v) = uint_body v"
| "value_body (VInt v) = int_body v"
| "value_body (VFloat v) = (ET_FLOAT32, to_le 4 v)"
| "value_body (VDouble v) = (ET_FLOAT64, to_le 8 v)"
| "value_body (VUtf8 s) = string_body ET_UTF8_LEN8 s"
| "value_body (VBytes b) = string_body ET_BYTES_LEN8 b"
| "value_body (VStructure ms) = (ET_STRUCTURE, enc_members ms @ [ET_END_OF_CONTAINER])"
| "value_body (VArray vs) = (ET_ARRAY, enc_elements vs @ [ET_END_OF_CONTAINER])"
| "value_body (VList ms) = (ET_LIST, enc_members ms @ [ET_END_OF_CONTAINER])"
| "enc_members [] = []"
| "enc_members ((t, v) # ms) =
     (case value_body v of (et, body) \<Rightarrow> encode_tag t et @ body) @ enc_members ms"
| "enc_elements [] = []"
| "enc_elements (v # vs) =
     (case value_body v of (et, body) \<Rightarrow> encode_tag Anonymous et @ body) @ enc_elements vs"

definition enc :: "tag \<Rightarrow> tlv_value \<Rightarrow> bytes" where
  "enc t v = (case value_body v of (et, body) \<Rightarrow> encode_tag t et @ body)"

lemma enc_members_Cons: "enc_members ((t, v) # ms) = enc t v @ enc_members ms"
  by (simp add: enc_def)

lemma enc_elements_Cons: "enc_elements (v # vs) = enc Anonymous v @ enc_elements vs"
  by (simp add: enc_def)

lemmas enc_simps = enc_members_Cons enc_elements_Cons enc_members.simps(1) enc_elements.simps(1)

text \<open>Every payload fits the widest length field; true of any \<open>Vec\<close> on a 64-bit host.\<close>

fun payloads_fit :: "tlv_value \<Rightarrow> bool"
  and members_fit :: "(tag \<times> tlv_value) list \<Rightarrow> bool"
  and elements_fit :: "tlv_value list \<Rightarrow> bool" where
  "payloads_fit (VUtf8 s) = (length s < 2 ^ 64)"
| "payloads_fit (VBytes b) = (length b < 2 ^ 64)"
| "payloads_fit (VStructure ms) = members_fit ms"
| "payloads_fit (VArray vs) = elements_fit vs"
| "payloads_fit (VList ms) = members_fit ms"
| "payloads_fit (VBool b) = True"
| "payloads_fit VNull = True"
| "payloads_fit (VUint v) = True"
| "payloads_fit (VInt v) = True"
| "payloads_fit (VFloat v) = True"
| "payloads_fit (VDouble v) = True"
| "members_fit [] = True"
| "members_fit ((t, v) # ms) = (payloads_fit v \<and> members_fit ms)"
| "elements_fit [] = True"
| "elements_fit (v # vs) = (payloads_fit v \<and> elements_fit vs)"

lemma extend_apply [simp]: "extend_from_slice bs out = (Inr (), out @ bs)"
  by (simp add: extend_from_slice_def)

lemma put_string_payload_eq:
  "length bs < 2 ^ 64 \<Longrightarrow>
   put_string_payload tag bs b (b + 1) (b + 2) (b + 3) out =
     (Inr (), out @ encode_tag tag (fst (string_body b bs)) @ snd (string_body b bs))"
  by (simp add: put_string_payload_def string_body_def Let_def andthen_def)

lemma put_utf8_eq:
  "length s < 2 ^ 64 \<Longrightarrow> put_utf8 tag s out = (Inr (), out @ enc tag (VUtf8 s))"
  using put_string_payload_eq [of s tag ET_UTF8_LEN8 out]
  by (simp add: put_utf8_def enc_def case_prod_beta)

lemma put_bytes_eq:
  "length s < 2 ^ 64 \<Longrightarrow> put_bytes tag s out = (Inr (), out @ enc tag (VBytes s))"
  using put_string_payload_eq [of s tag ET_BYTES_LEN8 out]
  by (simp add: put_bytes_def enc_def case_prod_beta)

lemma put_uint_eq: "put_uint tag v out = (Inr (), out @ enc tag (VUint v))"
  by (simp add: put_uint_def put_scalar_def enc_def uint_body_def)

lemma put_int_eq: "put_int tag v out = (Inr (), out @ enc tag (VInt v))"
  by (simp add: put_int_def put_scalar_def enc_def int_body_def)

lemma put_plain_eq:
  "put_bool tag b out = (Inr (), out @ enc tag (VBool b))"
  "put_null tag out = (Inr (), out @ enc tag VNull)"
  "put_float tag f out = (Inr (), out @ enc tag (VFloat f))"
  "put_double tag d out = (Inr (), out @ enc tag (VDouble d))"
  by (simp_all add: put_bool_def put_null_def put_float_def put_double_def put_scalar_def enc_def)

lemmas put_eqs = put_utf8_eq put_bytes_eq put_uint_eq put_int_eq put_plain_eq

text \<open>
  The writer appends the reference encoding when the nesting allowance is kept, and reports
  \<open>ContainerTooDeep\<close> otherwise.
\<close>

lemma write_at_depth_eq:
  "payloads_fit v \<Longrightarrow> depth + value_depth v \<le> MAX_DEPTH \<Longrightarrow>
     write_value_at_depth t v depth out = (Inr (), out @ enc t v)"
  "members_fit ms \<Longrightarrow> depth + members_depth ms \<le> MAX_DEPTH \<Longrightarrow>
     write_members ms depth out = (Inr (), out @ enc_members ms)"
  "elements_fit vs \<Longrightarrow> depth + elements_depth vs \<le> MAX_DEPTH \<Longrightarrow>
     write_elements vs depth out = (Inr (), out @ enc_elements vs)"
  by (induction t v depth and ms depth and vs depth arbitrary: out and out and out
      rule: write_value_at_depth_write_members_write_elements.induct)
    (simp_all add: put_eqs andthen_def start_structure_def start_array_def start_list_def
      end_container_def write_tag_def enc_simps, simp_all add: enc_def)

lemma write_at_depth_too_deep:
  "payloads_fit v \<Longrightarrow> depth \<le> MAX_DEPTH \<Longrightarrow> MAX_DEPTH < depth + value_depth v \<Longrightarrow>
     fst (write_value_at_depth t v depth out) = Inl ContainerTooDeep"
  "members_fit ms \<Longrightarrow> depth \<le> MAX_DEPTH \<Longrightarrow> MAX_DEPTH < depth + members_depth ms \<Longrightarrow>
     fst (write_members ms depth out) = Inl ContainerTooDeep"
  "elements_fit vs \<Longrightarrow> depth \<le> MAX_DEPTH \<Longrightarrow> MAX_DEPTH < depth + elements_depth vs \<Longrightarrow>
     fst (write_elements vs depth out) = Inl ContainerTooDeep"
proof (induction t v depth and ms depth and vs depth arbitrary: out and out and out
      rule: write_value_at_depth_write_members_write_elements.induct)
  case (13 t v ms depth)
  then show ?case
    by (cases "MAX_DEPTH < depth + value_depth v")
      (simp_all add: fst_andthen_Inl andthen_Inr [OF write_at_depth_eq(1)])
next
  case (15 v vs depth)
  then show ?case
    by (cases "MAX_DEPTH < depth + value_depth v")
      (simp_all add: fst_andthen_Inl andthen_Inr [OF write_at_depth_eq(1)])
qed (simp_all add: fst_andthen_Inl andthen_Inr [OF extend_apply] start_structure_def
      start_array_def start_list_def write_tag_def)

lemma write_value_eq:
  assumes "payloads_fit v" "value_depth v \<le> MAX_DEPTH"
  shows "write_value t v out = (Inr (), out @ enc t v)"
  using assms by (simp add: write_value_def write_at_depth_eq)

text \<open>No operation of the writer rewrites or drops bytes already emitted.\<close>

definition appends :: "bytes \<Rightarrow> bytes \<Rightarrow> bool" where
  "appends out out' \<longleftrightarrow> (\<exists>more. out' = out @ more)"

lemma appends_refl_trans: "reflp appends" "transp appends"
  by (auto simp: appends_def reflp_def transp_def)

lemma keeps_extend: "keeps appends (extend_from_slice bs)"
  by (auto simp: appends_def)

lemma keeps_put_string_payload: "keeps appends (put_string_payload t bs a b c d)"
  unfolding put_string_payload_def Let_def
  by (intro keeps_andthen appends_refl_trans keeps_extend)
    (simp add: keeps_ok keeps_err appends_refl_trans)

lemmas keeps_put = keeps_extend keeps_put_string_payload

lemma keeps_write:
  "keeps appends (write_value_at_depth t v depth)"
  "keeps appends (write_members ms depth)"
  "keeps appends (write_elements vs depth)"
  by (induction t v depth and ms depth and vs depth
      rule: write_value_at_depth_write_members_write_elements.induct)
    (simp_all add: keeps_put put_bool_def put_null_def put_uint_def put_int_def put_float_def
      put_double_def put_utf8_def put_bytes_def put_scalar_def start_structure_def
      start_array_def start_list_def end_container_def write_tag_def keeps_ok keeps_err
      keeps_andthen appends_refl_trans del: extend_apply ok_apply err_apply)

end
