(* ===== verification/TLV_Reader.thy ===== *)
theory TLV_Reader
  imports TLV_Writer
begin

text \<open>
  The decoder of \<open>crates/matter-codec/src/reader.rs\<close>: the cursor \<open>TlvReader\<close>, the event
  API (\<open>next_ref\<close>, \<open>next\<close>), the tree builder (\<open>read_value\<close>) with its element budget, the
  skipping operations and \<open>finish\<close>. \<open>usize\<close> is 64 bits wide: a 32- or 64-bit length always
  converts, and \<open>checked_add\<close> fails from \<open>2 ^ 64\<close> on. The reader's termination is proved
  here, with the facts that no operation changes the input or moves the cursor back.
\<close>

section \<open>State\<close>

definition DEFAULT_ELEMENT_BUDGET :: nat where
  "DEFAULT_ELEMENT_BUDGET = 2 ^ 20"

record element_span =
  span_start :: nat
  span_body_start :: nat
  span_end :: nat

definition span_full :: "element_span \<Rightarrow> nat \<times> nat" where
  "span_full s = (span_start s, span_end s)"

definition span_body :: "element_span \<Rightarrow> nat \<times> nat" where
  "span_body s = (span_body_start s, span_end s)"

record tlv_reader =
  rd_bytes :: bytes
  rd_pos :: nat
  rd_depth :: nat
  rd_budget :: nat
  rd_last_span :: "element_span option"
  rd_last_was_start :: bool

type_synonym 'a reader = "(tlv_reader, tlv_error, 'a) comp"

definition with_element_budget :: "bytes \<Rightarrow> nat \<Rightarrow> tlv_reader" where
  "with_element_budget bs budget =
     \<lparr>rd_bytes = bs, rd_pos = 0, rd_depth = 0, rd_budget = budget, rd_last_span = None,
      rd_last_was_start = False\<rparr>"

definition reader_new :: "bytes \<Rightarrow> tlv_reader" where
  "reader_new bs =
     \<lparr>rd_bytes = bs, rd_pos = 0, rd_depth = 0, rd_budget = DEFAULT_ELEMENT_BUDGET,
      rd_last_span = None, rd_last_was_start = False\<rparr>"

definition is_empty :: "tlv_reader \<Rightarrow> bool" where
  "is_empty r \<longleftrightarrow> rd_pos r \<ge> length (rd_bytes r)"

definition span_bytes :: "nat \<times> nat \<Rightarrow> tlv_reader \<Rightarrow> bytes" where
  "span_bytes rng r = (case rng of (a, b) \<Rightarrow>
     if a \<le> b \<and> b \<le> length (rd_bytes r) then take (b - a) (drop a (rd_bytes r)) else [])"

section \<open>Reading bytes, tags and scalar bodies\<close>

definition next_byte :: "byte reader" where
  "next_byte r =
     (if rd_pos r < length (rd_bytes r)
      then (Inr (rd_bytes r ! rd_pos r), r\<lparr>rd_pos := rd_pos r + 1\<rparr>)
      else (Inl UnexpectedEof, r))"

definition next_bytes :: "nat \<Rightarrow> bytes reader" where
  "next_bytes n r =
     (if rd_pos r + n \<ge> 2 ^ 64 then (Inl LengthOverflow, r)
      else if rd_pos r + n \<le> length (rd_bytes r)
        then (Inr (take n (drop (rd_pos r) (rd_bytes r))), r\<lparr>rd_pos := rd_pos r + n\<rparr>)
      else (Inl UnexpectedEof, r))"

text \<open>\<open>next_bytes(n)?.try_into()\<close>: the conversion to an array checks the length again.\<close>

definition next_array :: "nat \<Rightarrow> bytes reader" where
  "next_array n = andthen (next_bytes n) (\<lambda>raw.
     if length raw = n then ok raw else err InternalSliceConversion)"

definition read_u16_le :: "u16 reader" where
  "read_u16_le = andthen (next_array 2) (\<lambda>raw. ok (of_le raw))"

definition read_u32_le :: "u32 reader" where
  "read_u32_le = andthen (next_array 4) (\<lambda>raw. ok (of_le raw))"

definition read_u64_le :: "u64 reader" where
  "read_u64_le = andthen (next_array 8) (\<lambda>raw. ok (of_le raw))"

definition read_tag :: "u8 \<Rightarrow> tag reader" where
  "read_tag control =
     (let form = control AND TAG_CONTROL_MASK in
      if form = TC_ANONYMOUS then ok Anonymous
      else if form = TC_CONTEXT then andthen next_byte (\<lambda>n. ok (Context n))
      else if form = TC_COMMON_PROFILE_2 then
        andthen (next_array 2) (\<lambda>raw. ok (CommonProfile (ucast (of_le raw :: u16))))
      else if form = TC_COMMON_PROFILE_4 then
        andthen (next_array 4) (\<lambda>raw. ok (CommonProfile (of_le raw)))
      else if form = TC_IMPLICIT_PROFILE_2 then
        andthen (next_array 2) (\<lambda>raw. ok (ImplicitProfile (ucast (of_le raw :: u16))))
      else if form = TC_IMPLICIT_PROFILE_4 then
        andthen (next_array 4) (\<lambda>raw. ok (ImplicitProfile (of_le raw)))
      else if form = TC_FULLY_QUALIFIED_6 then
        andthen read_u16_le (\<lambda>vendor. andthen read_u16_le (\<lambda>profile.
        andthen read_u16_le (\<lambda>t. ok (FullyQualified vendor profile (ucast t)))))
      else if form = TC_FULLY_QUALIFIED_8 then
        andthen read_u16_le (\<lambda>vendor. andthen read_u16_le (\<lambda>profile.
        andthen read_u32_le (\<lambda>t. ok (FullyQualified vendor profile t))))
      else err (InvalidTagControl form))"

definition read_payload_len :: "u8 \<Rightarrow> nat reader" where
  "read_payload_len elem_type =
     (let w = elem_type AND 3 in
      if w = 0 then andthen next_byte (\<lambda>n. ok (unat n))
      else if w = 1 then andthen read_u16_le (\<lambda>n. ok (unat n))
      else if w = 2 then andthen read_u32_le (\<lambda>n. ok (unat n))
      else andthen read_u64_le (\<lambda>n. ok (unat n)))"

text \<open>The whole payload is validated, then the text is cut before the first \<open>IS1\<close>.\<close>

definition read_utf8_ref :: "nat \<Rightarrow> tlv_value_ref reader" where
  "read_utf8_ref len = andthen (next_bytes len) (\<lambda>s.
     if utf8_valid s then ok (RUtf8 (takeWhile (\<lambda>b. b \<noteq> IS1) s)) else err InvalidUtf8)"

definition read_bytes_ref :: "nat \<Rightarrow> tlv_value_ref reader" where
  "read_bytes_ref len = andthen (next_bytes len) (\<lambda>s. ok (RBytes s))"

definition read_value_body_ref :: "u8 \<Rightarrow> tlv_value_ref reader" where
  "read_value_body_ref elem_type =
     (if elem_type = ET_BOOL_FALSE then ok (RBool False)
      else if elem_type = ET_BOOL_TRUE then ok (RBool True)
      else if elem_type = ET_NULL then ok RNull
      else if elem_type = ET_UINT8 then andthen next_byte (\<lambda>b. ok (RUint (ucast b)))
      else if elem_type = ET_UINT16 then
        andthen (next_array 2) (\<lambda>raw. ok (RUint (ucast (of_le raw :: u16))))
      else if elem_type = ET_UINT32 then
        andthen (next_array 4) (\<lambda>raw. ok (RUint (ucast (of_le raw :: u32))))
      else if elem_type = ET_UINT64 then
        andthen (next_array 8) (\<lambda>raw. ok (RUint (of_le raw)))
      else if elem_type = ET_INT8 then andthen next_byte (\<lambda>b. ok (RInt (scast b)))
      else if elem_type = ET_INT16 then
        andthen (next_array 2) (\<lambda>raw. ok (RInt (scast (of_le raw :: u16))))
      else if elem_type = ET_INT32 then
        andthen (next_array 4) (\<lambda>raw. ok (RInt (scast (of_le raw :: u32))))
      else if elem_type = ET_INT64 then
        andthen (next_array 8) (\<lambda>raw. ok (RInt (of_le raw)))
      else if elem_type = ET_FLOAT32 then
        andthen (next_array 4) (\<lambda>raw. ok (RFloat (of_le raw)))
      else if elem_type = ET_FLOAT64 then
        andthen (next_array 8) (\<lambda>raw. ok (RDouble (of_le raw)))
      else if elem_type \<in> {ET_UTF8_LEN8, ET_UTF8_LEN16, ET_UTF8_LEN32, ET_UTF8_LEN64} then
        andthen (read_payload_len elem_type) read_utf8_ref
      else if elem_type \<in> {ET_BYTES_LEN8, ET_BYTES_LEN16, ET_BYTES_LEN32, ET_BYTES_LEN64} then
        andthen (read_payload_len elem_type) read_bytes_ref
      else err (InvalidElementType elem_type))"

section \<open>Events\<close>

definition set_span :: "nat \<Rightarrow> nat \<Rightarrow> bool \<Rightarrow> tlv_reader \<Rightarrow> tlv_reader" where
  "set_span start body_start was_start r =
     r\<lparr>rd_last_span := Some \<lparr>span_start = start, span_body_start = body_start, span_end = rd_pos r\<rparr>,
       rd_last_was_start := was_start\<rparr>"

definition kind_of :: "u8 \<Rightarrow> container_kind option" where
  "kind_of elem_type =
     (if elem_type = ET_STRUCTURE then Some KStructure
      else if elem_type = ET_ARRAY then Some KArray
      else if elem_type = ET_LIST then Some KList
      else None)"

text \<open>
  The three outcomes of \<open>next_ref\<close>: an end marker, a container's opening, a scalar; each
  records the element's span last.
\<close>

definition next_end :: "nat \<Rightarrow> u8 \<Rightarrow> tlv_element_ref option reader" where
  "next_end start control r =
     (if control AND TAG_CONTROL_MASK \<noteq> TC_ANONYMOUS
      then (Inl (InvalidTagControl (control AND TAG_CONTROL_MASK)), r)
      else if rd_depth r = 0 then (Inl UnexpectedEndOfContainer, r)
      else (Inr (Some ContainerEndRef),
            set_span start (rd_pos r) False (r\<lparr>rd_depth := rd_depth r - 1\<rparr>)))"

definition next_open :: "nat \<Rightarrow> tag \<Rightarrow> container_kind \<Rightarrow> tlv_element_ref option reader" where
  "next_open start tag kind r =
     (if rd_depth r \<ge> MAX_DEPTH then (Inl ContainerTooDeep, r)
      else (Inr (Some (ContainerStartRef tag kind)),
            set_span start (rd_pos r) True (r\<lparr>rd_depth := rd_depth r + 1\<rparr>)))"

definition next_scalar :: "nat \<Rightarrow> tag \<Rightarrow> u8 \<Rightarrow> tlv_element_ref option reader" where
  "next_scalar start tag elem_type r =
     andthen (read_value_body_ref elem_type) (\<lambda>v r2.
       (Inr (Some (ScalarRef tag v)), set_span start (rd_pos r) False r2)) r"

definition next_ref_body :: "nat \<Rightarrow> u8 \<Rightarrow> tlv_element_ref option reader" where
  "next_ref_body start control =
     (let elem_type = control AND ELEMENT_TYPE_MASK in
      if elem_type = ET_END_OF_CONTAINER then next_end start control
      else andthen (read_tag control) (\<lambda>tag.
        case kind_of elem_type of
          Some kind \<Rightarrow> next_open start tag kind
        | None \<Rightarrow> next_scalar start tag elem_type))"

definition next_ref :: "tlv_element_ref option reader" where
  "next_ref r =
     (if is_empty r then (Inr None, r)
      else andthen next_byte (next_ref_body (rd_pos r)) r)"

definition reader_next :: "tlv_element option reader" where
  "reader_next = andthen next_ref (\<lambda>e. ok (map_option element_from e))"

section \<open>No operation moves the cursor back\<close>

definition forward :: "tlv_reader \<Rightarrow> tlv_reader \<Rightarrow> bool" where
  "forward r r' \<longleftrightarrow> rd_bytes r' = rd_bytes r \<and> rd_pos r \<le> rd_pos r' \<and>
     (rd_pos r \<le> length (rd_bytes r) \<longrightarrow> rd_pos r' \<le> length (rd_bytes r))"

lemma forward_refl: "reflp forward"
  by (auto simp: forward_def reflp_def)

lemma forward_trans: "transp forward"
  by (auto simp: forward_def transp_def)

lemma forward_same [simp]: "forward r r"
  by (simp add: forward_def)

lemma forward_set_span [simp]: "forward r (set_span a b c r') \<longleftrightarrow> forward r r'"
  by (simp add: forward_def set_span_def)

lemma keeps_next_byte: "keeps forward next_byte"
  by (auto simp: next_byte_def forward_def split: if_splits)

lemma keeps_next_bytes: "keeps forward (next_bytes n)"
  by (auto simp: next_bytes_def forward_def split: if_splits)

lemma keeps_next_array: "keeps forward (next_array n)"
  by (simp add: next_array_def keeps_andthen forward_trans keeps_next_bytes keeps_ok keeps_err
      forward_refl)

lemmas forward_keeps = keeps_andthen [OF forward_trans] keeps_ok [OF forward_refl]
  keeps_err [OF forward_refl] keeps_next_byte keeps_next_bytes keeps_next_array

lemma keeps_read_words:
  "keeps forward read_u16_le" "keeps forward read_u32_le" "keeps forward read_u64_le"
  by (simp_all add: read_u16_le_def read_u32_le_def read_u64_le_def forward_keeps)

lemma keeps_read_tag: "keeps forward (read_tag control)"
  by (simp add: read_tag_def Let_def forward_keeps keeps_read_words)

lemma keeps_read_payload_len: "keeps forward (read_payload_len et)"
  by (simp add: read_payload_len_def Let_def forward_keeps keeps_read_words)

lemma keeps_read_value_body_ref: "keeps forward (read_value_body_ref et)"
  by (simp add: read_value_body_ref_def read_utf8_ref_def read_bytes_ref_def forward_keeps
      keeps_read_payload_len del: One_nat_def)

lemma keeps_next_end: "keeps forward (next_end start control)"
  by (auto simp: next_end_def forward_def set_span_def split: if_splits)

lemma keeps_next_open: "keeps forward (next_open start tag kind)"
  by (auto simp: next_open_def forward_def set_span_def split: if_splits)

lemma keeps_next_scalar: "keeps forward (next_scalar start tag et)"
proof
  fix r res r'
  assume "next_scalar start tag et r = (res, r')"
  moreover have "keeps forward (andthen (read_value_body_ref et)
      (\<lambda>v r2. (Inr (Some (ScalarRef tag v)), set_span start (rd_pos r) False r2)))"
    by (intro forward_keeps keeps_read_value_body_ref) auto
  ultimately show "forward r r'"
    unfolding next_scalar_def by (blast dest: keepsD)
qed

lemma keeps_next_ref_body: "keeps forward (next_ref_body start control)"
  by (auto simp: next_ref_body_def Let_def intro!: forward_keeps keeps_read_tag keeps_next_end
      keeps_next_open keeps_next_scalar split: option.splits)

lemma next_ref_forward: "next_ref r = (res, r') \<Longrightarrow> forward r r'"
  using keepsD [OF keeps_andthen [OF forward_trans keeps_next_byte keeps_next_ref_body]]
  by (fastforce simp: next_ref_def split: if_splits)

lemma next_ref_progress:
  assumes "next_ref r = (Inr (Some e), r')"
  shows "rd_pos r < rd_pos r'" and "rd_pos r < length (rd_bytes r)"
proof -
  from assms have ne: "\<not> is_empty r"
    by (auto simp: next_ref_def)
  then show lt: "rd_pos r < length (rd_bytes r)"
    by (simp add: is_empty_def)
  from assms ne lt have
    "next_ref_body (rd_pos r) (rd_bytes r ! rd_pos r) (r\<lparr>rd_pos := rd_pos r + 1\<rparr>) = (Inr (Some e), r')"
    by (simp add: next_ref_def andthen_def next_byte_def)
  then have "forward (r\<lparr>rd_pos := rd_pos r + 1\<rparr>) r'"
    by (rule keepsD [OF keeps_next_ref_body])
  then show "rd_pos r < rd_pos r'"
    by (simp add: forward_def)
qed

section \<open>The tree builder\<close>

text \<open>
  \<open>read_container_body\<close> has one loop for arrays and one for structures and lists; they
  differ in the tag check and in whether the tag is kept, and \<open>container_loop\<close> is both,
  told apart by \<open>kind\<close>. Its state is the vector built so far and the local copy of the
  element budget, which is written back before a nested container is read and when the
  loop ends. An array's vector keeps the (anonymous) tags until \<open>build_container\<close>.
\<close>

fun build_container :: "container_kind \<Rightarrow> (tag \<times> tlv_value) list \<Rightarrow> tlv_value" where
  "build_container KArray ms = VArray (map snd ms)"
| "build_container KList ms = VList ms"
| "build_container KStructure ms = VStructure ms"

definition charge_local :: "bool \<Rightarrow> nat \<Rightarrow> nat" where
  "charge_local CHARGE budget = (if CHARGE then budget - 1 else budget)"

definition store_budget :: "bool \<Rightarrow> nat \<Rightarrow> tlv_reader \<Rightarrow> tlv_reader" where
  "store_budget CHARGE budget r = (if CHARGE then r\<lparr>rd_budget := budget\<rparr> else r)"

function (domintros) container_loop :: "bool \<Rightarrow> container_kind \<Rightarrow> (tag \<times> tlv_value) list \<Rightarrow> nat \<Rightarrow>
    (tag \<times> tlv_value) list reader" where
  "container_loop CHARGE kind ms budget r = (case next_ref r of
     (Inl e, r1) \<Rightarrow> (Inl e, r1)
   | (Inr None, r1) \<Rightarrow> (Inl UnclosedContainer, r1)
   | (Inr (Some ContainerEndRef), r1) \<Rightarrow> (Inr ms, store_budget CHARGE budget r1)
   | (Inr (Some (ScalarRef tag v)), r1) \<Rightarrow>
       if kind = KArray \<and> tag \<noteq> Anonymous then (Inl NonAnonymousArrayTag, r1)
       else if CHARGE \<and> budget = 0 then (Inl ElementBudgetExceeded, r1)
       else container_loop CHARGE kind (ms @ [(tag, value_from v)]) (charge_local CHARGE budget) r1
   | (Inr (Some (ContainerStartRef tag inner_kind)), r1) \<Rightarrow>
       if kind = KArray \<and> tag \<noteq> Anonymous then (Inl NonAnonymousArrayTag, r1)
       else if CHARGE \<and> budget = 0 then (Inl ElementBudgetExceeded, r1)
       else let budget1 = charge_local CHARGE budget;
                r2 = store_budget CHARGE budget1 r1
            in (case container_loop CHARGE inner_kind [] (rd_budget r2) r2 of
                  (Inl e, r3) \<Rightarrow> (Inl e, r3)
                | (Inr inner, r3) \<Rightarrow>
                    container_loop CHARGE kind (ms @ [(tag, build_container inner_kind inner)])
                      (if CHARGE then rd_budget r3 else budget1) r3))"
  by pat_completeness auto

lemma store_budget_simps [simp]:
  "rd_bytes (store_budget c b r) = rd_bytes r" "rd_pos (store_budget c b r) = rd_pos r"
  "rd_depth (store_budget c b r) = rd_depth r"
  "rd_budget (store_budget c b r) = (if c then b else rd_budget r)"
  by (simp_all add: store_budget_def)

lemma forward_store: "forward r r1 \<Longrightarrow> forward (store_budget c b r1) r3 \<Longrightarrow> forward r r3"
  by (auto simp: forward_def)

lemma container_loop_forward_dom:
  "container_loop_dom (CHARGE, kind, ms, budget, r) \<Longrightarrow>
   forward r (snd (container_loop CHARGE kind ms budget r))"
proof (induction CHARGE kind ms budget r rule: container_loop.pinduct)
  case (1 CHARGE kind ms budget r)
  note eq = container_loop.psimps [OF 1(1)]
  obtain res r1 where n: "next_ref r = (res, r1)" by fastforce
  note f = next_ref_forward [OF n]
  consider e where "res = Inl e" | "res = Inr None" | "res = Inr (Some ContainerEndRef)"
    | t v where "res = Inr (Some (ScalarRef t v))"
    | t k where "res = Inr (Some (ContainerStartRef t k))"
    by (metis old.sum.exhaust option.exhaust tlv_element_ref.exhaust)
  then show ?case
  proof cases
    case 1
    with n f show ?thesis by (simp add: eq)
  next
    case 2
    with n f show ?thesis by (simp add: eq)
  next
    case 3
    with n f show ?thesis by (simp add: eq forward_def)
  next
    case (4 t v)
    note IH = "1.IH"(1) [OF n [unfolded 4, symmetric] refl refl refl]
    show ?thesis
    proof (cases "(kind = KArray \<and> t \<noteq> Anonymous) \<or> (CHARGE \<and> budget = 0)")
      case True
      with n f 4 show ?thesis by (auto simp: eq)
    next
      case False
      then have g: "\<not> (kind = KArray \<and> t \<noteq> Anonymous)" "\<not> (CHARGE \<and> budget = 0)" by auto
      from transpD [OF forward_trans f IH [OF g]] n 4 g f show ?thesis by (simp add: eq)
    qed
  next
    case (5 t k)
    note IH1 = "1.IH"(2) [OF n [unfolded 5, symmetric] refl refl refl _ _ refl refl]
    note IH2 = "1.IH"(3) [OF n [unfolded 5, symmetric] refl refl refl _ _ refl refl]
    define r2 where "r2 = store_budget CHARGE (charge_local CHARGE budget) r1"
    obtain res3 r3 where c: "container_loop CHARGE k [] (rd_budget r2) r2 = (res3, r3)" by fastforce
    show ?thesis
    proof (cases "(kind = KArray \<and> t \<noteq> Anonymous) \<or> (CHARGE \<and> budget = 0)")
      case True
      with n f 5 show ?thesis by (auto simp: eq)
    next
      case False
      then have g: "\<not> (kind = KArray \<and> t \<noteq> Anonymous)" "\<not> (CHARGE \<and> budget = 0)" by auto
      have f3: "forward r r3"
        using IH1 [OF g] c f by (auto simp: r2_def intro: forward_store)
      show ?thesis
      proof (cases res3)
        case (Inl e)
        with n 5 g c f f3 show ?thesis by (simp add: eq Let_def r2_def)
      next
        case (Inr inner)
        have "forward r3 (snd (container_loop CHARGE kind (ms @ [(t, build_container k inner)])
            (if CHARGE then rd_budget r3 else charge_local CHARGE budget) r3))"
          using IH2 [OF g c [unfolded Inr r2_def, symmetric] refl] .
        with f3 have "forward r (snd (container_loop CHARGE kind
            (ms @ [(t, build_container k inner)]) (if CHARGE then rd_budget r3 else charge_local CHARGE budget) r3))"
          by (rule transpD [OF forward_trans])
        with n 5 c Inr show ?thesis
          by (simp add: eq Let_def r2_def if_not_P [OF g(1)] if_not_P [OF g(2)]
              split del: if_split)
      qed
    qed
  qed
qed

lemma next_ref_measure:
  assumes "next_ref r = (Inr (Some e), r1)" "forward (store_budget c b r1) r3"
  shows "length (rd_bytes r3) - rd_pos r3 < length (rd_bytes r) - rd_pos r"
  using next_ref_forward [OF assms(1)] next_ref_progress [OF assms(1)] assms(2)
  by (auto simp: forward_def)

lemma next_ref_measure1:
  assumes "next_ref r = (Inr (Some e), r1)"
  shows "length (rd_bytes r1) - rd_pos r1 < length (rd_bytes r) - rd_pos r"
  using next_ref_measure [OF assms, of False 0 r1] by (simp add: store_budget_def)

termination container_loop
proof (relation "measure (\<lambda>(_, _, _, _, r). length (rd_bytes r) - rd_pos r)", goal_cases)
  case 1
  show ?case by simp
next
  case 2
  from next_ref_measure1 [OF "2"(1) [unfolded "2"(2-4), symmetric]] show ?case by simp
next
  case 3
  from next_ref_measure1 [OF "3"(1) [unfolded "3"(2-4), symmetric]] show ?case
    by (simp add: "3"(7,8))
next
  case 4
  note f = container_loop_forward_dom [OF "4"(11), folded "4"(9), unfolded snd_conv "4"(8)]
  from next_ref_measure [OF "4"(1) [unfolded "4"(2-4), symmetric] f] show ?case by simp
qed

lemma container_loop_total: "container_loop_dom (CHARGE, kind, ms, budget, r)"
proof (induction CHARGE kind ms budget r rule: container_loop.induct)
  case (1 CHARGE kind ms budget r)
  note scalar = "1.IH"(1) [OF _ refl refl refl]
    and inner = "1.IH"(2) [OF _ refl refl refl _ _ refl refl]
    and rest = "1.IH"(3) [OF _ refl refl refl _ _ refl refl _ refl]
  show ?case
    using scalar inner rest
    by (cases CHARGE) (rule container_loop.domintros; simp; fail)+
qed

lemma container_loop_forward: "container_loop c kind ms b r = (res, r') \<Longrightarrow> forward r r'"
  using container_loop_forward_dom [OF container_loop_total [of c kind ms b r]] by simp

declare container_loop.simps [simp del]

text \<open>The branches of the loop as conditional equations.\<close>

lemma container_loop_error:
  "next_ref r = (Inl e, r1) \<Longrightarrow> container_loop c kind ms b r = (Inl e, r1)"
  by (simp add: container_loop.simps)

lemma container_loop_eof:
  "next_ref r = (Inr None, r1) \<Longrightarrow> container_loop c kind ms b r = (Inl UnclosedContainer, r1)"
  by (simp add: container_loop.simps)

lemma container_loop_close:
  "next_ref r = (Inr (Some ContainerEndRef), r1) \<Longrightarrow>
   container_loop c kind ms b r = (Inr ms, store_budget c b r1)"
  by (simp add: container_loop.simps)

definition child_refused :: "bool \<Rightarrow> container_kind \<Rightarrow> nat \<Rightarrow> tag \<Rightarrow> tlv_error option" where
  "child_refused CHARGE kind budget tag =
     (if kind = KArray \<and> tag \<noteq> Anonymous then Some NonAnonymousArrayTag
      else if CHARGE \<and> budget = 0 then Some ElementBudgetExceeded else None)"

lemma container_loop_refused:
  assumes "next_ref r = (Inr (Some (ScalarRef t v)), r1) \<or>
           next_ref r = (Inr (Some (ContainerStartRef t k)), r1)"
    and "child_refused c kind b t = Some e"
  shows "container_loop c kind ms b r = (Inl e, r1)"
  using assms by (auto simp: container_loop.simps child_refused_def split: if_splits)

lemma container_loop_scalar:
  assumes "next_ref r = (Inr (Some (ScalarRef t v)), r1)" "child_refused c kind b t = None"
  shows "container_loop c kind ms b r =
    container_loop c kind (ms @ [(t, value_from v)]) (charge_local c b) r1"
  using assms container_loop.simps [of c kind ms b r]
  by (auto simp: child_refused_def split: if_splits)

lemma container_loop_open:
  assumes "next_ref r = (Inr (Some (ContainerStartRef t k)), r1)" "child_refused c kind b t = None"
    and "r2 = store_budget c (charge_local c b) r1"
  shows "container_loop c kind ms b r =
    (case container_loop c k [] (rd_budget r2) r2 of
       (Inl e, r3) \<Rightarrow> (Inl e, r3)
     | (Inr inner, r3) \<Rightarrow> container_loop c kind (ms @ [(t, build_container k inner)])
         (if c then rd_budget r3 else charge_local c b) r3)"
proof -
  from assms(2) have "\<not> (kind = KArray \<and> t \<noteq> Anonymous)" "\<not> (c \<and> b = 0)"
    by (auto simp: child_refused_def split: if_splits)
  with assms(1,3) show ?thesis
    by (subst container_loop.simps) (simp only: prod.case sum.case option.case
        tlv_element_ref.case Let_def if_False)
qed

lemma container_loop_induct [case_names error eof close refused scalar nested]:
  assumes error: "\<And>kind ms b r e r1. next_ref r = (Inl e, r1) \<Longrightarrow> P kind ms b r"
    and eof: "\<And>kind ms b r r1. next_ref r = (Inr None, r1) \<Longrightarrow> P kind ms b r"
    and close: "\<And>kind ms b r r1. next_ref r = (Inr (Some ContainerEndRef), r1) \<Longrightarrow> P kind ms b r"
    and refused: "\<And>kind ms b r t v k r1 e. next_ref r = (Inr (Some (ScalarRef t v)), r1) \<or>
        next_ref r = (Inr (Some (ContainerStartRef t k)), r1) \<Longrightarrow>
        child_refused c kind b t = Some e \<Longrightarrow> P kind ms b r"
    and scalar: "\<And>kind ms b r t v r1. next_ref r = (Inr (Some (ScalarRef t v)), r1) \<Longrightarrow>
        child_refused c kind b t = None \<Longrightarrow>
        P kind (ms @ [(t, value_from v)]) (charge_local c b) r1 \<Longrightarrow> P kind ms b r"
    and opens: "\<And>kind ms b r t k r1 r2. next_ref r = (Inr (Some (ContainerStartRef t k)), r1) \<Longrightarrow>
        child_refused c kind b t = None \<Longrightarrow> r2 = store_budget c (charge_local c b) r1 \<Longrightarrow>
        P k [] (rd_budget r2) r2 \<Longrightarrow>
        (\<And>inner r3. container_loop c k [] (rd_budget r2) r2 = (Inr inner, r3) \<Longrightarrow>
           P kind (ms @ [(t, build_container k inner)])
             (if c then rd_budget r3 else charge_local c b) r3) \<Longrightarrow>
        P kind ms b r"
  shows "P kind ms b r"
proof (induction "length (rd_bytes r) - rd_pos r" arbitrary: kind ms b r rule: less_induct)
  case less
  obtain res r1 where n: "next_ref r = (res, r1)" by fastforce
  consider e where "res = Inl e" | "res = Inr None" | "res = Inr (Some ContainerEndRef)"
    | t v where "res = Inr (Some (ScalarRef t v))"
    | t k where "res = Inr (Some (ContainerStartRef t k))"
    by (metis old.sum.exhaust option.exhaust tlv_element_ref.exhaust)
  then show ?case
  proof cases
    case (4 t v)
    note n4 = n [unfolded 4]
    show ?thesis
    proof (cases "child_refused c kind b t")
      case None
      from scalar [OF n4 this less [OF next_ref_measure1 [OF n4]]] show ?thesis .
    next
      case (Some e)
      with n4 show ?thesis by (blast intro: refused)
    qed
  next
    case (5 t k)
    note n5 = n [unfolded 5]
    show ?thesis
    proof (cases "child_refused c kind b t")
      case None
      define r2 where "r2 = store_budget c (charge_local c b) r1"
      note m = next_ref_measure [OF n5, of c "charge_local c b", folded r2_def]
      show ?thesis
        by (rule opens [OF n5 None r2_def]) (blast intro: less m forward_same container_loop_forward)+
    next
      case (Some e)
      with n5 show ?thesis by (blast intro: refused)
    qed
  qed (use n in \<open>auto intro: error eof close\<close>)
qed

definition read_container_body :: "bool \<Rightarrow> container_kind \<Rightarrow> tlv_value reader" where
  "read_container_body CHARGE kind r =
     andthen (container_loop CHARGE kind [] (rd_budget r))
       (\<lambda>ms. ok (build_container kind ms)) r"

definition charge_element :: "unit reader" where
  "charge_element r =
     (if rd_budget r = 0 then (Inl ElementBudgetExceeded, r)
      else (Inr (), r\<lparr>rd_budget := rd_budget r - 1\<rparr>))"

definition read_value_inner :: "bool \<Rightarrow> (tag \<times> tlv_value) reader" where
  "read_value_inner CHARGE = andthen next_ref (\<lambda>e. case e of
     Some (ScalarRef tag v) \<Rightarrow>
       andthen (if CHARGE then charge_element else ok ()) (\<lambda>_. ok (tag, value_from v))
   | Some (ContainerStartRef tag kind) \<Rightarrow>
       andthen (if CHARGE then charge_element else ok ()) (\<lambda>_.
       andthen (read_container_body CHARGE kind) (\<lambda>v. ok (tag, v)))
   | Some ContainerEndRef \<Rightarrow> err UnexpectedEndOfContainer
   | None \<Rightarrow> err UnexpectedEof)"

definition read_value :: "(tag \<times> tlv_value) reader" where
  "read_value r =
     (let remaining_input = length (rd_bytes r) - rd_pos r in
      if remaining_input \<le> rd_budget r then read_value_inner False r
      else read_value_inner True r)"

section \<open>Skipping\<close>

definition skip_value_body :: "u8 \<Rightarrow> unit reader" where
  "skip_value_body elem_type =
     (let fixed = (\<lambda>n. andthen (next_bytes n) (\<lambda>_. ok ())) in
      if elem_type \<in> {ET_BOOL_FALSE, ET_BOOL_TRUE, ET_NULL} then fixed 0
      else if elem_type \<in> {ET_UINT8, ET_INT8} then fixed 1
      else if elem_type \<in> {ET_UINT16, ET_INT16} then fixed 2
      else if elem_type \<in> {ET_UINT32, ET_INT32, ET_FLOAT32} then fixed 4
      else if elem_type \<in> {ET_UINT64, ET_INT64, ET_FLOAT64} then fixed 8
      else if elem_type \<in> {ET_UTF8_LEN8, ET_UTF8_LEN16, ET_UTF8_LEN32, ET_UTF8_LEN64,
                          ET_BYTES_LEN8, ET_BYTES_LEN16, ET_BYTES_LEN32, ET_BYTES_LEN64} then
        andthen (read_payload_len elem_type) (\<lambda>len. andthen (next_bytes len) (\<lambda>_. ok ()))
      else err (InvalidElementType elem_type))"

text \<open>
  One turn of the loop of \<open>skip_container_body\<close> after the control byte: the new local
  depth, given the old one.
\<close>

definition skip_child :: "nat \<Rightarrow> u8 \<Rightarrow> nat reader" where
  "skip_child depth control =
     (let elem_type = control AND ELEMENT_TYPE_MASK in
      if elem_type = ET_END_OF_CONTAINER then
        (if control AND TAG_CONTROL_MASK \<noteq> TC_ANONYMOUS
         then err (InvalidTagControl (control AND TAG_CONTROL_MASK))
         else (\<lambda>r. if depth = 1 \<and> rd_depth r = 0 then (Inl UnexpectedEndOfContainer, r)
                   else (Inr (depth - 1), r)))
      else andthen (read_tag control) (\<lambda>_.
        if elem_type \<in> {ET_STRUCTURE, ET_ARRAY, ET_LIST} then
          (\<lambda>r. if rd_depth r + depth > MAX_DEPTH then (Inl ContainerTooDeep, r)
                else (Inr (depth + 1), r))
        else andthen (skip_value_body elem_type) (\<lambda>_. ok depth)))"

lemma keeps_skip_value_body: "keeps forward (skip_value_body et)"
  by (simp add: skip_value_body_def Let_def forward_keeps keeps_read_payload_len)

lemma keeps_skip_child: "keeps forward (skip_child depth control)"
proof -
  have "keeps forward (\<lambda>r. if depth = 1 \<and> rd_depth r = 0 then (Inl UnexpectedEndOfContainer, r)
      else (Inr (depth - 1), r))"
    and "keeps forward (\<lambda>r. if rd_depth r + depth > MAX_DEPTH then (Inl ContainerTooDeep, r)
      else (Inr (depth + 1), r))"
    by (auto split: if_splits)
  then show ?thesis
    unfolding skip_child_def Let_def
    by (auto intro!: forward_keeps keeps_read_tag keeps_skip_value_body)
qed

function skip_loop :: "nat \<Rightarrow> unit reader" where
  "skip_loop depth r =
     (if depth = 0 then (Inr (), r)
      else if is_empty r then (Inl UnclosedContainer, r)
      else (case andthen next_byte (skip_child depth) r of
              (Inl e, r1) \<Rightarrow> (Inl e, r1)
            | (Inr depth1, r1) \<Rightarrow> skip_loop depth1 r1))"
  by pat_completeness auto

lemma skip_turn_measure:
  assumes "\<not> is_empty r" "andthen next_byte (skip_child depth) r = (Inr d, r1)"
  shows "length (rd_bytes r1) - rd_pos r1 < length (rd_bytes r) - rd_pos r"
proof -
  from assms(1) have lt: "rd_pos r < length (rd_bytes r)" by (simp add: is_empty_def)
  with assms(2) have "skip_child depth (rd_bytes r ! rd_pos r) (r\<lparr>rd_pos := rd_pos r + 1\<rparr>) = (Inr d, r1)"
    by (simp add: andthen_def next_byte_def)
  from keepsD [OF keeps_skip_child this] lt show ?thesis by (auto simp: forward_def)
qed

termination skip_loop
  by (relation "measure (\<lambda>(_, r). length (rd_bytes r) - rd_pos r)")
    (auto intro: skip_turn_measure dest: sym)

declare skip_loop.simps [simp del]

definition skip_container_body :: "unit reader" where
  "skip_container_body = andthen (skip_loop 1) (\<lambda>_ r. (Inr (), r\<lparr>rd_depth := rd_depth r - 1\<rparr>))"

definition skip_container :: "unit reader" where
  "skip_container = andthen skip_container_body (\<lambda>_ r.
     (Inr (), (case rd_last_span r of
        Some h \<Rightarrow> r\<lparr>rd_last_span := Some (h\<lparr>span_end := rd_pos r\<rparr>), rd_last_was_start := False\<rparr>
      | None \<Rightarrow> r\<lparr>rd_last_was_start := False\<rparr>)))"

definition skip_container_span :: "element_span reader" where
  "skip_container_span r =
     (if \<not> rd_last_was_start r then (Inl UnexpectedEndOfContainer, r)
      else (case rd_last_span r of
        None \<Rightarrow> (Inl UnexpectedEndOfContainer, r)
      | Some header \<Rightarrow>
          andthen skip_container_body (\<lambda>_ r1.
            let span = header\<lparr>span_end := rd_pos r1\<rparr>
            in (Inr span, r1\<lparr>rd_last_span := Some span, rd_last_was_start := False\<rparr>)) r))"

text \<open>Below the event level only the cursor moves.\<close>

definition only_pos :: "tlv_reader \<Rightarrow> tlv_reader \<Rightarrow> bool" where
  "only_pos r r' \<longleftrightarrow> r' = r\<lparr>rd_pos := rd_pos r'\<rparr>"

lemma only_pos_refl: "reflp only_pos"
  by (auto simp: only_pos_def reflp_def)

lemma only_pos_trans: "transp only_pos"
  by (simp add: transp_def only_pos_def) (metis tlv_reader.surjective tlv_reader.update_convs(2))

lemma only_pos_fields:
  assumes "only_pos r r'"
  shows "rd_bytes r' = rd_bytes r" "rd_depth r' = rd_depth r" "rd_budget r' = rd_budget r"
    "rd_last_span r' = rd_last_span r" "rd_last_was_start r' = rd_last_was_start r"
  using assms unfolding only_pos_def
  by (metis tlv_reader.select_convs tlv_reader.surjective tlv_reader.update_convs(2))+

lemma only_pos_next_byte: "keeps only_pos next_byte"
  by (auto simp: next_byte_def only_pos_def split: if_splits)

lemma only_pos_next_bytes: "keeps only_pos (next_bytes n)"
  by (auto simp: next_bytes_def only_pos_def split: if_splits)

lemma only_pos_next_array: "keeps only_pos (next_array n)"
  by (simp add: next_array_def keeps_andthen only_pos_trans only_pos_next_bytes keeps_ok keeps_err
      only_pos_refl)

lemmas only_pos_keeps = keeps_andthen [OF only_pos_trans] keeps_ok [OF only_pos_refl]
  keeps_err [OF only_pos_refl] only_pos_next_byte only_pos_next_bytes only_pos_next_array

lemma only_pos_read_words:
  "keeps only_pos read_u16_le" "keeps only_pos read_u32_le" "keeps only_pos read_u64_le"
  by (simp_all add: read_u16_le_def read_u32_le_def read_u64_le_def only_pos_keeps)

lemma only_pos_read_tag: "keeps only_pos (read_tag control)"
  by (simp add: read_tag_def Let_def only_pos_keeps only_pos_read_words)

lemma only_pos_read_payload_len: "keeps only_pos (read_payload_len et)"
  by (simp add: read_payload_len_def Let_def only_pos_keeps only_pos_read_words)

lemma only_pos_read_value_body_ref: "keeps only_pos (read_value_body_ref et)"
  by (simp add: read_value_body_ref_def read_utf8_ref_def read_bytes_ref_def only_pos_keeps
      only_pos_read_payload_len del: One_nat_def)

lemma only_pos_skip_value_body: "keeps only_pos (skip_value_body et)"
  by (simp add: skip_value_body_def Let_def only_pos_keeps only_pos_read_payload_len)

lemma only_pos_skip_child: "keeps only_pos (skip_child depth control)"
proof -
  have "keeps only_pos (\<lambda>r. if depth = 1 \<and> rd_depth r = 0 then (Inl UnexpectedEndOfContainer, r)
      else (Inr (depth - 1), r))"
    and "keeps only_pos (\<lambda>r. if rd_depth r + depth > MAX_DEPTH then (Inl ContainerTooDeep, r)
      else (Inr (depth + 1), r))"
    by (auto simp: only_pos_def split: if_splits)
  then show ?thesis
    unfolding skip_child_def Let_def
    by (auto intro!: only_pos_keeps only_pos_read_tag only_pos_skip_value_body)
qed

lemma only_pos_skip_loop: "skip_loop depth r = (res, r') \<Longrightarrow> only_pos r r'"
proof (induction depth r rule: skip_loop.induct)
  case (1 depth r)
  obtain t r1 where t: "andthen next_byte (skip_child depth) r = (t, r1)" by fastforce
  have o: "only_pos r r1"
    by (rule keepsD [OF only_pos_keeps(1) [OF only_pos_next_byte only_pos_skip_child] t])
  show ?case
  proof (cases "depth = 0 \<or> is_empty r")
    case True
    with 1(2) show ?thesis
      by (auto simp: skip_loop.simps [of depth r] only_pos_def split: if_splits)
  next
    case False
    then have g: "depth \<noteq> 0" "\<not> is_empty r" by auto
    show ?thesis
    proof (cases t)
      case (Inl e)
      with 1(2) g t o show ?thesis by (simp add: skip_loop.simps [of depth r])
    next
      case (Inr d)
      with 1(2) g t have "skip_loop d r1 = (res, r')" by (simp add: skip_loop.simps [of depth r])
      from 1(1) [OF g t [unfolded Inr, symmetric] refl this] o show ?thesis
        by (blast intro: transpD [OF only_pos_trans])
    qed
  qed
qed

lemma skip_container_body_depth:
  "skip_container_body r = (Inr (), r') \<Longrightarrow> rd_depth r' = rd_depth r - 1"
  by (auto simp: skip_container_body_def andthen_eq_Inr dest!: only_pos_skip_loop only_pos_fields(2))

section \<open>Finishing\<close>

function finish_reader :: "unit reader" where
  "finish_reader r =
     (if rd_depth r > 0 then
        (case skip_container_body r of
           (Inl e, r1) \<Rightarrow> (Inl e, r1)
         | (Inr _, r1) \<Rightarrow> finish_reader (r1\<lparr>rd_last_was_start := False\<rparr>))
      else if is_empty r then (Inr (), r) else (Inl TrailingData, r))"
  by pat_completeness auto

termination finish_reader
  by (relation "measure rd_depth") (auto dest!: sym [of "(_, _)"] skip_container_body_depth)

declare finish_reader.simps [simp del]

end
