(* ===== verification/TLV_Roundtrip.thy ===== *)
theory TLV_Roundtrip
  imports TLV_Reader
begin

text \<open>
  The encoder and the decoder of the TLV codec together: what the reader does on the bytes
  the writer emitted, tag by tag, scalar by scalar and then for whole value trees.
\<close>

section \<open>The reader on a known input\<close>

definition remaining :: "tlv_reader \<Rightarrow> bytes" where
  "remaining r = drop (rd_pos r) (rd_bytes r)"

definition advance :: "nat \<Rightarrow> tlv_reader \<Rightarrow> tlv_reader" where
  "advance n r = r\<lparr>rd_pos := rd_pos r + n\<rparr>"

definition addressable :: "tlv_reader \<Rightarrow> bool" where
  "addressable r \<longleftrightarrow> length (rd_bytes r) < 2 ^ 64"

lemma remaining_advance [simp]: "remaining (advance n r) = drop n (remaining r)"
  by (simp add: remaining_def advance_def add.commute)

lemma advance_advance [simp]: "advance m (advance n r) = advance (n + m) r"
  by (simp add: advance_def add.assoc)

lemma advance_0 [simp]: "advance 0 r = r"
  by (simp add: advance_def)

lemma advance_fields [simp]:
  "rd_bytes (advance n r) = rd_bytes r" "rd_depth (advance n r) = rd_depth r"
  "rd_budget (advance n r) = rd_budget r" "rd_pos (advance n r) = rd_pos r + n"
  "addressable (advance n r) = addressable r"
  by (simp_all add: advance_def addressable_def)

lemma remaining_append_le:
  "remaining r = xs @ ys \<Longrightarrow> xs \<noteq> [] \<Longrightarrow> rd_pos r + length xs \<le> length (rd_bytes r)"
  by (metis drop_eq_Nil append_is_Nil_conv length_append length_drop le_add1 le_add_diff_inverse
      nat_add_left_cancel_le nat_le_linear remaining_def)

lemma next_byte_at: "remaining r = b # ys \<Longrightarrow> next_byte r = (Inr b, advance 1 r)"
  unfolding remaining_def by (drule drop_eq_Cons_nth) (simp add: next_byte_def advance_def)

lemma next_bytes_at:
  assumes "remaining r = xs @ ys" "addressable r" "length xs = n" "rd_pos r \<le> length (rd_bytes r)"
  shows "next_bytes n r = (Inr xs, advance n r)"
proof -
  have "length (remaining r) = length (rd_bytes r) - rd_pos r"
    by (simp add: remaining_def)
  with assms have le: "rd_pos r + n \<le> length (rd_bytes r)" by simp
  moreover have "take n (drop (rd_pos r) (rd_bytes r)) = xs"
    using assms(1,3) by (simp add: remaining_def)
  ultimately show ?thesis
    using assms(2) by (simp add: next_bytes_def advance_def addressable_def)
qed

definition cursor_ok :: "tlv_reader \<Rightarrow> bool" where
  "cursor_ok r \<longleftrightarrow> addressable r \<and> rd_pos r \<le> length (rd_bytes r)"

lemma cursor_ok_advance: "cursor_ok r \<Longrightarrow> n \<le> length (remaining r) \<Longrightarrow> cursor_ok (advance n r)"
  by (auto simp: cursor_ok_def remaining_def)

lemma next_array_at:
  "remaining r = xs @ ys \<Longrightarrow> cursor_ok r \<Longrightarrow> length xs = n \<Longrightarrow>
   next_array n r = (Inr xs, advance n r)"
  by (simp add: next_array_def andthen_Inr [OF next_bytes_at] cursor_ok_def)

lemma read_u16_at:
  "remaining r = to_le 2 w @ ys \<Longrightarrow> cursor_ok r \<Longrightarrow>
   read_u16_le r = (Inr (of_le (to_le 2 w)), advance 2 r)"
  by (simp add: read_u16_le_def andthen_Inr [OF next_array_at])

lemma read_u32_at:
  "remaining r = to_le 4 w @ ys \<Longrightarrow> cursor_ok r \<Longrightarrow>
   read_u32_le r = (Inr (of_le (to_le 4 w)), advance 4 r)"
  by (simp add: read_u32_le_def andthen_Inr [OF next_array_at])

section \<open>Widths\<close>

lemma unat_word_of_le: "le_nat bs < 2 ^ LENGTH('a) \<Longrightarrow> unat (of_le bs :: 'a::len word) = le_nat bs"
  by (simp add: of_le_def unat_of_nat)

lemma ucast_of_le_fits:
  assumes "unat (w :: 'a::len word) < 256 ^ n" "8 * n \<le> LENGTH('b)"
  shows "ucast (of_le (to_le n w) :: 'b::len word) = w"
proof -
  have "le_nat (to_le n w) = unat w"
    using assms(1) by (simp add: le_nat_to_le)
  moreover have "(256::nat) ^ n \<le> 2 ^ LENGTH('b)"
    using assms(2) power_increasing [of "8 * n" "LENGTH('b)" "2::nat"] by (simp add: power_mult)
  ultimately have "unat (of_le (to_le n w) :: 'b word) = unat w"
    using assms(1) by (simp add: unat_word_of_le)
  then have "word_of_nat (unat (of_le (to_le n w) :: 'b word)) = (word_of_nat (unat w) :: 'a word)"
    by (rule arg_cong)
  then show ?thesis by (simp only: of_nat_unat ucast_id)
qed

lemma scast_ucast_fits:
  fixes v :: u64
  assumes "fits_signed LENGTH('b) v" "LENGTH('b) \<le> 64"
  shows "scast (ucast v :: 'b::len word) = v"
proof -
  have "ucast v = (word_of_int (sint v) :: 'b word)"
    using assms(2) by transfer (simp add: take_bit_signed_take_bit)
  moreover have "sint (word_of_int (sint v) :: 'b word) = sint v"
    using assms(1) by (simp add: fits_signed_def sint_sbintrunc' signed_take_bit_int_eq_self
        del: of_int_sint)
  ultimately show ?thesis by (simp only: scast_eq) (simp only: of_int_sint scast_id)
qed

lemma of_le_to_le_ucast:
  fixes w :: "'a::len word"
  assumes "LENGTH('b) = 8 * n"
  shows "(of_le (to_le n w) :: 'b::len word) = ucast w"
proof -
  have "(256::nat) ^ n = 2 ^ LENGTH('b)"
    by (simp add: assms power_mult)
  then have "unat (of_le (to_le n w) :: 'b word) = unat (ucast w :: 'b word)"
    by (simp add: of_le_def le_nat_to_le unat_of_nat unsigned_ucast_eq take_bit_eq_mod)
  then show ?thesis by (rule word_eq_iff_unsigned [THEN iffD2])
qed

lemma scast_of_le_fits:
  fixes v :: u64
  assumes "fits_signed (8 * n) v" "LENGTH('b) = 8 * n" "8 * n \<le> 64"
  shows "scast (of_le (to_le n v) :: 'b::len word) = v"
  using assms by (simp add: of_le_to_le_ucast scast_ucast_fits)

section \<open>Tags\<close>

lemma control_bits:
  fixes et :: u8
  assumes "et AND 31 = et"
  shows "(c OR et) AND 224 = c AND 224" "(c OR et) AND 31 = (c AND 31) OR et" "et AND 224 = 0"
proof -
  have "et AND 224 = (et AND 31) AND 224" by (simp only: assms)
  also have "\<dots> = 0" by (simp add: and.assoc)
  finally show z: "et AND 224 = 0" .
  then show "(c OR et) AND 224 = c AND 224" by (simp add: bit.conj_disj_distrib2)
  show "(c OR et) AND 31 = (c AND 31) OR et" by (simp add: bit.conj_disj_distrib2 assms)
qed

lemma encode_tag_control:
  assumes "et AND 31 = et"
  shows "encode_tag t et \<noteq> []" "hd (encode_tag t et) AND 31 = et"
  using assms by (auto simp: encode_tag_def control_bits split: tag.splits)

lemma read_tag_at:
  assumes et: "et AND 31 = et" and c: "cursor_ok r"
    and rem: "remaining r = tl (encode_tag t et) @ ys"
  shows "read_tag (hd (encode_tag t et)) r = (Inr t, advance (length (encode_tag t et) - 1) r)"
proof -
  have small: "unat (n :: u32) < 65536" if "n < 65536" for n
    using that by (simp add: word_less_nat_alt)
  have adv: "cursor_ok (advance 2 r)" if "remaining r = to_le 2 a @ zs" for a :: u16 and zs
    using c that by (auto intro: cursor_ok_advance)
  have adv4: "cursor_ok (advance 4 r)"
    if "remaining r = to_le 2 a @ to_le 2 b @ zs" for a b :: u16 and zs
    using c that by (auto intro: cursor_ok_advance)
  show ?thesis
    using rem c
    by (cases t)
      (auto simp: encode_tag_def read_tag_def control_bits [OF et] next_byte_at next_array_at andthen_Inr
        read_u16_at read_u32_at adv adv4 small ucast_of_le_fits cong: if_cong)
qed

section \<open>Scalars\<close>

fun scalar_ref :: "tlv_value \<Rightarrow> tlv_value_ref option" where
  "scalar_ref (VBool b) = Some (RBool b)"
| "scalar_ref (VUint n) = Some (RUint n)"
| "scalar_ref (VInt n) = Some (RInt n)"
| "scalar_ref (VFloat f) = Some (RFloat f)"
| "scalar_ref (VDouble f) = Some (RDouble f)"
| "scalar_ref (VUtf8 s) = Some (RUtf8 s)"
| "scalar_ref (VBytes b) = Some (RBytes b)"
| "scalar_ref VNull = Some RNull"
| "scalar_ref (VStructure ms) = None"
| "scalar_ref (VArray vs) = None"
| "scalar_ref (VList ms) = None"

lemma value_from_scalar_ref: "scalar_ref v = Some w \<Longrightarrow> value_from w = v"
  by (cases v) auto

lemma to_le_one: "to_le (Suc 0) w = [ucast w]"
  by (simp add: to_le_def word_unat_eq_iff unat_of_nat unsigned_ucast_eq take_bit_eq_mod)

lemma ucast_ucast_fits:
  assumes "unat (n :: 'a::len word) < 2 ^ LENGTH('b)"
  shows "ucast (ucast n :: 'b::len word) = n"
proof -
  have "unat (ucast n :: 'b word) = unat n"
    using assms by (simp add: unsigned_ucast_eq take_bit_nat_eq_self)
  then have "word_of_nat (unat (ucast n :: 'b word)) = (word_of_nat (unat n) :: 'a word)"
    by (rule arg_cong)
  then show ?thesis by (simp only: of_nat_unat ucast_id)
qed

lemma uint_body_at:
  assumes "cursor_ok r" "remaining r = snd (uint_body n) @ ys"
  shows "read_value_body_ref (fst (uint_body n)) r =
    (Inr (RUint n), advance (length (snd (uint_body n))) r)"
proof -
  have small: "n < 256 \<Longrightarrow> unat n < 256" "n < 65536 \<Longrightarrow> unat n < 65536"
    "n < 4294967296 \<Longrightarrow> unat n < 4294967296"
    by (simp_all add: word_less_nat_alt)
  show ?thesis
    using assms small
    by (auto simp: uint_body_def read_value_body_ref_def to_le_one next_byte_at next_array_at
        andthen_Inr ucast_ucast_fits ucast_of_le_fits)
qed

lemma int_body_at:
  assumes "cursor_ok r" "remaining r = snd (int_body n) @ ys"
  shows "read_value_body_ref (fst (int_body n)) r =
    (Inr (RInt n), advance (length (snd (int_body n))) r)"
  using assms
  by (auto simp: int_body_def read_value_body_ref_def to_le_one next_byte_at next_array_at
      andthen_Inr scast_ucast_fits scast_of_le_fits)

lemma nat_le_at:
  assumes "n < 2 ^ LENGTH('a)" "LENGTH('a) = 8 * k"
  shows "unat (of_le (nat_le k n) :: 'a::len word) = n"
  using assms by (simp add: of_le_def le_nat_nat_le unat_of_nat power_mult)

lemma string_len_at:
  assumes "cursor_ok r" "length bs < 2 ^ 64" "remaining r = snd (string_body base bs) @ ys"
    and "base \<in> {12, 16}"
  shows "\<exists>n. read_payload_len (fst (string_body base bs)) r = (Inr (length bs), advance n r) \<and>
     length (snd (string_body base bs)) = n + length bs \<and>
     fst (string_body base bs) \<in> {base, base + 1, base + 2, base + 3}"
proof -
  have unat8: "unat (word_of_nat (length bs) :: u8) = length bs" if "length bs < 256"
    using that by (simp add: unat_of_nat)
  show ?thesis
    using assms unat8
    by (auto simp: string_body_def read_payload_len_def read_u16_le_def read_u32_le_def
        read_u64_le_def Let_def next_byte_at next_array_at andthen_Inr nat_le_at
        split: if_splits)
qed

lemma string_body_split: "\<exists>h. snd (string_body base bs) = h @ bs"
  by (simp add: string_body_def Let_def)

lemma string_payload_at:
  assumes "cursor_ok r" "length bs < 2 ^ 64" "remaining r = snd (string_body base bs) @ ys"
    and "base \<in> {12, 16}"
  shows "andthen (read_payload_len (fst (string_body base bs))) next_bytes r =
    (Inr bs, advance (length (snd (string_body base bs))) r)"
proof -
  from string_len_at [OF assms] obtain n where
    n: "read_payload_len (fst (string_body base bs)) r = (Inr (length bs), advance n r)"
    and len: "length (snd (string_body base bs)) = n + length bs" by blast
  obtain h where h: "snd (string_body base bs) = h @ bs"
    using string_body_split by blast
  with len have "length h = n" by simp
  with h assms(3) have "remaining (advance n r) = bs @ ys" by simp
  moreover have "cursor_ok (advance n r)"
    using assms(1,3) len by (intro cursor_ok_advance) simp_all
  ultimately have "next_bytes (length bs) (advance n r) = (Inr bs, advance (length bs) (advance n r))"
    by (intro next_bytes_at) (auto simp: cursor_ok_def)
  with n len show ?thesis by (simp add: andthen_Inr)
qed

lemma andthen_assoc: "andthen (andthen m f) g = andthen m (\<lambda>x. andthen (f x) g)"
  by (rule ext) (simp add: andthen_def split: prod.splits sum.splits)

lemma scalar_body_at:
  assumes "scalar_ref v = Some w" "value_wf v" "payloads_fit v" "cursor_ok r"
    and "remaining r = snd (value_body v) @ ys"
  shows "read_value_body_ref (fst (value_body v)) r = (Inr w, advance (length (snd (value_body v))) r)"
proof (cases v)
  case (VUtf8 s)
  with assms have a: "cursor_ok r" "length s < 2 ^ 64" "remaining r = snd (string_body 12 s) @ ys"
    and w: "w = RUtf8 s" "utf8_valid s" "takeWhile (\<lambda>b. b \<noteq> IS1) s = s"
    by (auto simp: takeWhile_eq_all_conv)
  have "fst (string_body 12 s) \<in> {12, 13, 14, 15}"
    using string_len_at [OF a] by auto
  then have "read_value_body_ref (fst (string_body 12 s)) =
      andthen (andthen (read_payload_len (fst (string_body 12 s))) next_bytes)
        (\<lambda>s. if utf8_valid s then ok (RUtf8 (takeWhile (\<lambda>b. b \<noteq> IS1) s)) else err InvalidUtf8)"
    unfolding andthen_assoc
    by (auto simp: read_value_body_ref_def read_utf8_ref_def [abs_def])
  with string_payload_at [OF a] VUtf8 w show ?thesis
    by (simp add: andthen_Inr)
next
  case (VBytes s)
  with assms have a: "cursor_ok r" "length s < 2 ^ 64" "remaining r = snd (string_body 16 s) @ ys"
    and w: "w = RBytes s" by auto
  have "fst (string_body 16 s) \<in> {16, 17, 18, 19}"
    using string_len_at [OF a] by auto
  then have "read_value_body_ref (fst (string_body 16 s)) =
      andthen (andthen (read_payload_len (fst (string_body 16 s))) next_bytes) (\<lambda>s. ok (RBytes s))"
    unfolding andthen_assoc
    by (auto simp: read_value_body_ref_def read_bytes_ref_def [abs_def])
  with string_payload_at [OF a] VBytes w show ?thesis
    by (simp add: andthen_Inr)
next
  case (VUint n)
  with assms show ?thesis by (simp add: uint_body_at)
next
  case (VInt n)
  with assms show ?thesis by (simp add: int_body_at)
qed (use assms in \<open>auto simp: read_value_body_ref_def andthen_Inr next_array_at\<close>)

lemma scalar_body_types:
  "fst (uint_body n) \<in> {4, 5, 6, 7}" "fst (int_body n) \<in> {0, 1, 2, 3}"
  "fst (string_body b bs) \<in> {b, b + 1, b + 2, b + 3}"
  by (simp_all add: uint_body_def int_body_def string_body_def Let_def)

lemma value_body_type_all:
  "fst (value_body v) AND 31 = fst (value_body v) \<and> fst (value_body v) \<noteq> 24 \<and>
   kind_of (fst (value_body v)) = (case v of VStructure _ \<Rightarrow> Some KStructure
      | VArray _ \<Rightarrow> Some KArray | VList _ \<Rightarrow> Some KList | _ \<Rightarrow> None)"
proof (cases v)
  case (VUint n)
  then show ?thesis using scalar_body_types(1) [of n] by (auto simp: kind_of_def)
next
  case (VInt n)
  then show ?thesis using scalar_body_types(2) [of n] by (auto simp: kind_of_def)
next
  case (VUtf8 s)
  then show ?thesis using scalar_body_types(3) [of 12 s] by (auto simp: kind_of_def)
next
  case (VBytes s)
  then show ?thesis using scalar_body_types(3) [of 16 s] by (auto simp: kind_of_def)
qed (simp_all add: kind_of_def)

lemmas value_body_type = value_body_type_all [THEN conjunct1]
  value_body_type_all [THEN conjunct2, THEN conjunct1]
  value_body_type_all [THEN conjunct2, THEN conjunct2]

section \<open>Events\<close>

definition moved :: "nat \<Rightarrow> tlv_reader \<Rightarrow> tlv_reader \<Rightarrow> bool" where
  "moved n r r' \<longleftrightarrow> rd_bytes r' = rd_bytes r \<and> rd_pos r' = rd_pos r + n"

lemma moved_remaining:
  assumes "moved (length xs) r r'" "remaining r = xs @ ys" "cursor_ok r"
  shows "remaining r' = ys" and "cursor_ok r'"
proof -
  from assms(1) have "remaining r' = remaining (advance (length xs) r)"
    by (simp add: moved_def remaining_def)
  with assms(2) show "remaining r' = ys" by simp
  have "length xs \<le> length (remaining r)" using assms(2) by simp
  with cursor_ok_advance [OF assms(3) this] assms(1) show "cursor_ok r'"
    by (simp add: cursor_ok_def moved_def addressable_def)
qed

lemma moved_add: "moved m r r1 \<Longrightarrow> moved n r1 r2 \<Longrightarrow> moved (m + n) r r2"
  by (simp add: moved_def)

lemma set_span_fields [simp]:
  "rd_bytes (set_span a b c r) = rd_bytes r" "rd_pos (set_span a b c r) = rd_pos r"
  "rd_depth (set_span a b c r) = rd_depth r" "rd_budget (set_span a b c r) = rd_budget r"
  by (simp_all add: set_span_def)

text \<open>The reader at the head of an encoding: the control byte and the tag are consumed.\<close>

lemma next_ref_head_at:
  assumes "et AND 31 = et" "et \<noteq> 24" "cursor_ok r" "remaining r = encode_tag t et @ ys"
  shows "next_ref r =
    (case kind_of et of Some kind \<Rightarrow> next_open (rd_pos r) t kind
     | None \<Rightarrow> next_scalar (rd_pos r) t et) (advance (length (encode_tag t et)) r)"
proof -
  define c where "c = hd (encode_tag t et)"
  have split: "encode_tag t et = c # tl (encode_tag t et)"
    using encode_tag_control(1) [OF assms(1), of t] by (simp add: c_def)
  have ct: "c AND 31 = et"
    using encode_tag_control(2) [OF assms(1), of t] by (simp add: c_def)
  have rem: "remaining r = c # tl (encode_tag t et) @ ys"
    using assms(4) split by (metis append_Cons)
  then have nb: "next_byte r = (Inr c, advance 1 r)" by (rule next_byte_at)
  have ne: "\<not> is_empty r"
    using rem by (auto simp: is_empty_def remaining_def)
  have "cursor_ok (advance 1 r)"
    using assms(3) rem by (intro cursor_ok_advance) simp_all
  moreover have "remaining (advance 1 r) = tl (encode_tag t et) @ ys"
    using rem by simp
  ultimately have "read_tag c (advance 1 r) =
      (Inr t, advance (length (encode_tag t et) - 1) (advance 1 r))"
    unfolding c_def by (rule read_tag_at [OF assms(1)])
  moreover have "1 + (length (encode_tag t et) - 1) = length (encode_tag t et)"
    by (subst (2) split, subst split) simp
  ultimately have "read_tag c (advance 1 r) = (Inr t, advance (length (encode_tag t et)) r)"
    by simp
  with nb ne ct assms(2) show ?thesis
    by (simp add: next_ref_def andthen_Inr next_ref_body_def split: option.splits)
qed

lemma enc_split: "enc t v = encode_tag t (fst (value_body v)) @ snd (value_body v)"
  by (simp add: enc_def case_prod_beta)

lemma next_ref_scalar_at:
  assumes "scalar_ref v = Some w" "value_wf v" "payloads_fit v" "cursor_ok r"
    and "remaining r = enc t v @ ys"
  shows "\<exists>r'. next_ref r = (Inr (Some (ScalarRef t w)), r') \<and> moved (length (enc t v)) r r' \<and>
    rd_depth r' = rd_depth r \<and> rd_budget r' = rd_budget r"
proof -
  let ?h = "encode_tag t (fst (value_body v))"
  have rem: "remaining r = ?h @ snd (value_body v) @ ys"
    using assms(5) by (simp add: enc_split)
  have "kind_of (fst (value_body v)) = None"
    using assms(1) by (cases v) (simp_all add: value_body_type del: value_body.simps)
  then have "next_ref r = next_scalar (rd_pos r) t (fst (value_body v)) (advance (length ?h) r)"
    using next_ref_head_at [OF value_body_type(1,2) assms(4) rem] by simp
  moreover have "cursor_ok (advance (length ?h) r)"
    using assms(4) rem by (intro cursor_ok_advance) simp_all
  then have "read_value_body_ref (fst (value_body v)) (advance (length ?h) r) =
      (Inr w, advance (length (enc t v)) r)"
    using scalar_body_at [OF assms(1-3), of "advance (length ?h) r" ys] rem
    by (simp add: enc_split)
  ultimately show ?thesis
    by (simp add: next_scalar_def andthen_Inr moved_def)
qed

lemma next_ref_open_at:
  assumes "et AND 31 = et" "et \<noteq> 24" "cursor_ok r" "remaining r = encode_tag t et @ ys"
    and "kind_of et = Some kind" "rd_depth r < MAX_DEPTH"
  shows "\<exists>r'. next_ref r = (Inr (Some (ContainerStartRef t kind)), r') \<and>
    moved (length (encode_tag t et)) r r' \<and> rd_depth r' = rd_depth r + 1 \<and>
    rd_budget r' = rd_budget r"
  using next_ref_head_at [OF assms(1-4)] assms(5,6)
  by (simp add: next_open_def moved_def)

lemma next_ref_end_at:
  assumes "cursor_ok r" "remaining r = ET_END_OF_CONTAINER # ys" "rd_depth r > 0"
  shows "\<exists>r'. next_ref r = (Inr (Some ContainerEndRef), r') \<and> moved 1 r r' \<and>
    rd_depth r' = rd_depth r - 1 \<and> rd_budget r' = rd_budget r"
proof -
  have "\<not> is_empty r"
    using assms(2) by (auto simp: is_empty_def remaining_def)
  with assms(3) next_byte_at [OF assms(2)] show ?thesis
    by (simp add: next_ref_def andthen_Inr next_ref_body_def next_end_def moved_def)
qed

section \<open>Value trees\<close>

text \<open>
  \<open>reads_child\<close> says what the container loop does when a child's encoding lies ahead: it
  consumes exactly that encoding and pushes the child. \<open>reads_rest\<close> says what it does when
  the remaining members and the end marker lie ahead.
\<close>

definition reads_child :: "tag \<Rightarrow> tlv_value \<Rightarrow> bool" where
  "reads_child t v \<longleftrightarrow> (\<forall>c kind acc b r ys.
     cursor_ok r \<longrightarrow> remaining r = enc t v @ ys \<longrightarrow> rd_depth r + value_depth v \<le> MAX_DEPTH \<longrightarrow>
     (kind = KArray \<longrightarrow> t = Anonymous) \<longrightarrow> (c \<longrightarrow> value_count v \<le> b) \<longrightarrow>
     (\<exists>r'. container_loop c kind acc b r =
             container_loop c kind (acc @ [(t, v)]) (if c then b - value_count v else b) r' \<and>
           moved (length (enc t v)) r r' \<and> rd_depth r' = rd_depth r \<and>
           (\<not> c \<longrightarrow> rd_budget r' = rd_budget r)))"

definition reads_rest :: "container_kind \<Rightarrow> (tag \<times> tlv_value) list \<Rightarrow> bytes \<Rightarrow> nat \<Rightarrow> nat \<Rightarrow> bool" where
  "reads_rest kind ms body depth count \<longleftrightarrow> (\<forall>c acc b r ys.
     cursor_ok r \<longrightarrow> remaining r = body @ ET_END_OF_CONTAINER # ys \<longrightarrow> rd_depth r > 0 \<longrightarrow>
     rd_depth r + depth \<le> MAX_DEPTH \<longrightarrow> (c \<longrightarrow> count \<le> b) \<longrightarrow>
     (\<exists>r'. container_loop c kind acc b r = (Inr (acc @ ms), r') \<and>
           moved (length body + 1) r r' \<and> rd_depth r' = rd_depth r - 1 \<and>
           rd_budget r' = (if c then b - count else rd_budget r)))"

lemma reads_childD:
  assumes "reads_child t v" "cursor_ok r" "remaining r = enc t v @ ys"
    "rd_depth r + value_depth v \<le> MAX_DEPTH" "kind = KArray \<longrightarrow> t = Anonymous"
    "c \<longrightarrow> value_count v \<le> b"
  shows "\<exists>r'. container_loop c kind acc b r =
             container_loop c kind (acc @ [(t, v)]) (if c then b - value_count v else b) r' \<and>
           moved (length (enc t v)) r r' \<and> rd_depth r' = rd_depth r \<and>
           (\<not> c \<longrightarrow> rd_budget r' = rd_budget r)"
  using assms unfolding reads_child_def by blast

lemma reads_restD:
  assumes "reads_rest kind ms body depth count" "cursor_ok r"
    "remaining r = body @ ET_END_OF_CONTAINER # ys" "rd_depth r > 0"
    "rd_depth r + depth \<le> MAX_DEPTH" "c \<longrightarrow> count \<le> b"
  shows "\<exists>r'. container_loop c kind acc b r = (Inr (acc @ ms), r') \<and>
           moved (length body + 1) r r' \<and> rd_depth r' = rd_depth r - 1 \<and>
           rd_budget r' = (if c then b - count else rd_budget r)"
  using assms unfolding reads_rest_def by blast

lemma reads_child_scalar:
  assumes "scalar_ref v = Some w" "value_wf v" "payloads_fit v" "value_count v = 1"
  shows "reads_child t v"
  unfolding reads_child_def
proof (intro allI impI)
  fix c kind acc b r ys
  assume a: "cursor_ok r" "remaining r = enc t v @ ys" "kind = KArray \<longrightarrow> t = Anonymous"
    "c \<longrightarrow> value_count v \<le> b"
  obtain r' where r': "next_ref r = (Inr (Some (ScalarRef t w)), r')"
    "moved (length (enc t v)) r r'" "rd_depth r' = rd_depth r" "rd_budget r' = rd_budget r"
    using next_ref_scalar_at [OF assms(1-3) a(1,2)] by blast
  have "child_refused c kind b t = None"
    using a(3,4) assms(4) by (auto simp: child_refused_def)
  from container_loop_scalar [OF r'(1) this, of acc] r' value_from_scalar_ref [OF assms(1)] assms(4)
  show "\<exists>r'. container_loop c kind acc b r =
             container_loop c kind (acc @ [(t, v)]) (if c then b - value_count v else b) r' \<and>
           moved (length (enc t v)) r r' \<and> rd_depth r' = rd_depth r \<and>
           (\<not> c \<longrightarrow> rd_budget r' = rd_budget r)"
    by (auto simp: charge_local_def)
qed

lemma reads_child_container:
  assumes "value_body v = (et, body @ [ET_END_OF_CONTAINER])" "kind_of et = Some k"
    and "reads_rest k inner body depth count" "build_container k inner = v"
    and "value_depth v = Suc depth" "value_count v = Suc count"
  shows "reads_child t v"
  unfolding reads_child_def
proof (intro allI impI)
  fix c kind acc b r ys
  assume a: "cursor_ok r" "remaining r = enc t v @ ys" "rd_depth r + value_depth v \<le> MAX_DEPTH"
    "kind = KArray \<longrightarrow> t = Anonymous" "c \<longrightarrow> value_count v \<le> b"
  have et: "et AND 31 = et" "et \<noteq> 24"
    using value_body_type(1,2) [of v] assms(1) by simp_all
  have enc: "enc t v = encode_tag t et @ body @ [ET_END_OF_CONTAINER]"
    using assms(1) by (simp add: enc_def)
  have rem: "remaining r = encode_tag t et @ body @ ET_END_OF_CONTAINER # ys"
    using a(2) enc by simp
  obtain r1 where r1: "next_ref r = (Inr (Some (ContainerStartRef t k)), r1)"
    "moved (length (encode_tag t et)) r r1" "rd_depth r1 = rd_depth r + 1" "rd_budget r1 = rd_budget r"
    using next_ref_open_at [OF et a(1) rem assms(2)] a(3) assms(5) by auto
  have nr: "child_refused c kind b t = None"
    using a(4,5) assms(6) by (auto simp: child_refused_def)
  define r2 where "r2 = store_budget c (charge_local c b) r1"
  note r1rem = moved_remaining [OF r1(2) rem a(1)]
  have at2: "cursor_ok r2" "remaining r2 = body @ ET_END_OF_CONTAINER # ys" "rd_depth r2 > 0"
    "rd_depth r2 + depth \<le> MAX_DEPTH" "c \<longrightarrow> count \<le> rd_budget r2"
    using r1rem r1(3) a(3,5) assms(5,6)
    by (auto simp: r2_def cursor_ok_def addressable_def remaining_def charge_local_def)
  obtain r3 where r3: "container_loop c k [] (rd_budget r2) r2 = (Inr inner, r3)"
    "moved (length body + 1) r2 r3" "rd_depth r3 = rd_depth r2 - 1"
    "rd_budget r3 = (if c then rd_budget r2 - count else rd_budget r2)"
    using reads_restD [OF assms(3) at2, of "[]"] by auto
  have "container_loop c kind acc b r = container_loop c kind (acc @ [(t, v)])
      (if c then b - value_count v else b) r3"
    using container_loop_open [OF r1(1) nr r2_def, of acc] r3(1,4) assms(4,6)
    by (auto simp: r2_def charge_local_def)
  moreover have "moved (length (enc t v)) r r3"
    using r1(2) r3(2) by (simp add: enc moved_def r2_def)
  ultimately show "\<exists>r'. container_loop c kind acc b r =
             container_loop c kind (acc @ [(t, v)]) (if c then b - value_count v else b) r' \<and>
           moved (length (enc t v)) r r' \<and> rd_depth r' = rd_depth r \<and>
           (\<not> c \<longrightarrow> rd_budget r' = rd_budget r)"
    using r3(3,4) r1(3,4) by (auto simp: r2_def)
qed

lemma reads_rest_Nil: "reads_rest kind [] [] depth 0"
  unfolding reads_rest_def
proof (intro allI impI)
  fix c acc b r ys
  assume a: "cursor_ok r" "remaining r = [] @ ET_END_OF_CONTAINER # ys" "rd_depth r > 0"
  obtain r1 where r1: "next_ref r = (Inr (Some ContainerEndRef), r1)" "moved 1 r r1"
    "rd_depth r1 = rd_depth r - 1" "rd_budget r1 = rd_budget r"
    using next_ref_end_at [OF a(1) _ a(3)] a(2) by auto
  then show "\<exists>r'. container_loop c kind acc b r = (Inr (acc @ []), r') \<and>
     moved (length [] + 1) r r' \<and> rd_depth r' = rd_depth r - 1 \<and>
     rd_budget r' = (if c then b - 0 else rd_budget r)"
    by (simp add: container_loop_close moved_def)
qed

lemma reads_rest_Cons:
  assumes "reads_child t v" "reads_rest kind ms body depth count" "kind = KArray \<longrightarrow> t = Anonymous"
  shows "reads_rest kind ((t, v) # ms) (enc t v @ body) (max (value_depth v) depth)
    (value_count v + count)"
  unfolding reads_rest_def
proof (intro allI impI)
  fix c acc b r ys
  assume a: "cursor_ok r" "remaining r = (enc t v @ body) @ ET_END_OF_CONTAINER # ys" "rd_depth r > 0"
    "rd_depth r + max (value_depth v) depth \<le> MAX_DEPTH" "c \<longrightarrow> value_count v + count \<le> b"
  have rem: "remaining r = enc t v @ body @ ET_END_OF_CONTAINER # ys"
    using a(2) by simp
  have d: "rd_depth r + value_depth v \<le> MAX_DEPTH" "c \<longrightarrow> value_count v \<le> b"
    using a(4,5) by auto
  obtain r1 where r1: "container_loop c kind acc b r =
      container_loop c kind (acc @ [(t, v)]) (if c then b - value_count v else b) r1"
    "moved (length (enc t v)) r r1" "rd_depth r1 = rd_depth r" "\<not> c \<longrightarrow> rd_budget r1 = rd_budget r"
    using reads_childD [OF assms(1) a(1) rem d(1) assms(3) d(2), of acc] by blast
  note at1 = moved_remaining [OF r1(2) rem a(1)]
  have "rd_depth r1 > 0" "rd_depth r1 + depth \<le> MAX_DEPTH"
    "c \<longrightarrow> count \<le> (if c then b - value_count v else b)"
    using r1(3) a(3-5) by auto
  from reads_restD [OF assms(2) at1(2,1) this, of "acc @ [(t, v)]"] r1
  show "\<exists>r'. container_loop c kind acc b r = (Inr (acc @ (t, v) # ms), r') \<and>
     moved (length (enc t v @ body) + 1) r r' \<and> rd_depth r' = rd_depth r - 1 \<and>
     rd_budget r' = (if c then b - (value_count v + count) else rd_budget r)"
    by (auto simp: moved_def)
qed

lemma reads_tree:
  "value_wf v \<Longrightarrow> payloads_fit v \<Longrightarrow> reads_child t v"
  "members_wf ms \<Longrightarrow> members_fit ms \<Longrightarrow> kind \<noteq> KArray \<Longrightarrow>
     reads_rest kind ms (enc_members ms) (members_depth ms) (members_count ms)"
  "elements_wf vs \<Longrightarrow> elements_fit vs \<Longrightarrow>
     reads_rest KArray (map (Pair Anonymous) vs) (enc_elements vs) (elements_depth vs)
       (elements_count vs)"
proof (induction v and ms and vs arbitrary: t and kind and kind
    rule: value_body_enc_members_enc_elements.induct)
  case (9 ms)
  then show ?case
    by (intro reads_child_container [of _ ET_STRUCTURE "enc_members ms" KStructure ms])
      (auto simp: kind_of_def)
next
  case (10 vs)
  then show ?case
    by (intro reads_child_container [of _ ET_ARRAY "enc_elements vs" KArray "map (Pair Anonymous) vs"])
      (auto simp: kind_of_def comp_def)
next
  case (11 ms)
  then show ?case
    by (intro reads_child_container [of _ ET_LIST "enc_members ms" KList ms])
      (auto simp: kind_of_def)
next
  case (13 t' v ms)
  then show ?case
    by (auto simp: enc_members_Cons simp del: enc_members.simps intro!: reads_rest_Cons)
next
  case (15 v vs)
  then show ?case
    by (auto simp: enc_elements_Cons simp del: enc_elements.simps intro!: reads_rest_Cons)
qed (auto intro: reads_child_scalar reads_rest_Nil)

lemma container_shape:
  assumes "scalar_ref v = None" "value_wf v" "payloads_fit v"
  shows "\<exists>et body k inner depth count. value_body v = (et, body @ [ET_END_OF_CONTAINER]) \<and>
    kind_of et = Some k \<and> reads_rest k inner body depth count \<and> build_container k inner = v \<and>
    value_depth v = Suc depth \<and> value_count v = Suc count"
proof (cases v)
  case (VStructure ms)
  with assms reads_tree(2) [of ms KStructure] show ?thesis
    by (intro exI [of _ ET_STRUCTURE] exI [of _ "enc_members ms"] exI [of _ KStructure] exI [of _ ms]
        exI [of _ "members_depth ms"] exI [of _ "members_count ms"]) (auto simp: kind_of_def)
next
  case (VArray vs)
  with assms reads_tree(3) [of vs] show ?thesis
    by (intro exI [of _ ET_ARRAY] exI [of _ "enc_elements vs"] exI [of _ KArray]
        exI [of _ "map (Pair Anonymous) vs"] exI [of _ "elements_depth vs"]
        exI [of _ "elements_count vs"]) (auto simp: kind_of_def comp_def)
next
  case (VList ms)
  with assms reads_tree(2) [of ms KList] show ?thesis
    by (intro exI [of _ ET_LIST] exI [of _ "enc_members ms"] exI [of _ KList] exI [of _ ms]
        exI [of _ "members_depth ms"] exI [of _ "members_count ms"]) (auto simp: kind_of_def)
qed (use assms in auto)

text \<open>Reading the encoding of a value yields the value and leaves what follows.\<close>

lemma read_value_inner_at:
  assumes "value_wf v" "payloads_fit v" "cursor_ok r" "remaining r = enc t v @ ys"
    and "rd_depth r + value_depth v \<le> MAX_DEPTH" "c \<longrightarrow> value_count v \<le> rd_budget r"
  shows "\<exists>r'. read_value_inner c r = (Inr (t, v), r') \<and> moved (length (enc t v)) r r' \<and>
    rd_depth r' = rd_depth r \<and> rd_budget r' = (if c then rd_budget r - value_count v else rd_budget r)"
proof (cases "scalar_ref v")
  case (Some w)
  then have "value_count v = 1" by (cases v) auto
  moreover obtain r1 where r1: "next_ref r = (Inr (Some (ScalarRef t w)), r1)"
    "moved (length (enc t v)) r r1" "rd_depth r1 = rd_depth r" "rd_budget r1 = rd_budget r"
    using next_ref_scalar_at [OF Some assms(1-4)] by blast
  ultimately show ?thesis
    using assms(6) value_from_scalar_ref [OF Some]
    by (auto simp: read_value_inner_def andthen_Inr charge_element_def moved_def)
next
  case None
  then obtain et body k inner depth count where
    sh: "value_body v = (et, body @ [ET_END_OF_CONTAINER])" "kind_of et = Some k"
    "reads_rest k inner body depth count" "build_container k inner = v"
    "value_depth v = Suc depth" "value_count v = Suc count"
    using container_shape assms(1,2) by blast
  have et: "et AND 31 = et" "et \<noteq> 24"
    using value_body_type(1,2) [of v] sh(1) by simp_all
  have enc: "enc t v = encode_tag t et @ body @ [ET_END_OF_CONTAINER]"
    using sh(1) by (simp add: enc_def)
  have rem: "remaining r = encode_tag t et @ body @ ET_END_OF_CONTAINER # ys"
    using assms(4) enc by simp
  obtain r1 where r1: "next_ref r = (Inr (Some (ContainerStartRef t k)), r1)"
    "moved (length (encode_tag t et)) r r1" "rd_depth r1 = rd_depth r + 1" "rd_budget r1 = rd_budget r"
    using next_ref_open_at [OF et assms(3) rem sh(2)] assms(5) sh(5) by auto
  define r2 where "r2 = (if c then r1\<lparr>rd_budget := rd_budget r1 - 1\<rparr> else r1)"
  note r1rem = moved_remaining [OF r1(2) rem assms(3)]
  have at2: "cursor_ok r2" "remaining r2 = body @ ET_END_OF_CONTAINER # ys" "rd_depth r2 > 0"
    "rd_depth r2 + depth \<le> MAX_DEPTH" "c \<longrightarrow> count \<le> rd_budget r2"
    using r1rem r1(3,4) assms(5,6) sh(5,6)
    by (auto simp: r2_def cursor_ok_def addressable_def remaining_def)
  obtain r3 where r3: "container_loop c k [] (rd_budget r2) r2 = (Inr inner, r3)"
    "moved (length body + 1) r2 r3" "rd_depth r3 = rd_depth r2 - 1"
    "rd_budget r3 = (if c then rd_budget r2 - count else rd_budget r2)"
    using reads_restD [OF sh(3) at2, of "[]"] by auto
  have "(if c then charge_element else ok ()) r1 = (Inr (), r2)"
    using assms(6) r1(4) sh(6) by (auto simp: charge_element_def r2_def)
  with r1(1) r3(1) sh(4) have "read_value_inner c r = (Inr (t, v), r3)"
    by (simp add: read_value_inner_def andthen_Inr read_container_body_def del: if_split)
  then show ?thesis
    using r1 r3 sh(6) by (auto simp: enc moved_def r2_def)
qed

end
