(* ===== verification/TLV_Safety.thy ===== *)
theory TLV_Safety
  imports TLV_Roundtrip
begin

text \<open>
  What the TLV reader guarantees on arbitrary, possibly hostile input: every tree it builds
  is well formed and within the depth limit and the element budget, the uncharged fast path
  of \<open>read_value\<close> agrees with the charged one, and skipping a container moves the cursor
  exactly where reading it would.
\<close>

section \<open>Events on arbitrary input\<close>

lemma utf8_valid2:
  assumes "\<not> b0 < 0x80" "0xC2 \<le> b0 \<and> b0 \<le> 0xDF"
  shows "utf8_valid (b0 # bs) \<longleftrightarrow> (\<exists>b1 r. bs = b1 # r \<and> utf8_cont b1 \<and> utf8_valid r)"
  using assms by (subst utf8_valid.simps(2)) (simp only: if_True if_False, auto split: list.split)

lemma utf8_valid3:
  assumes "\<not> b0 < 0x80" "\<not> (0xC2 \<le> b0 \<and> b0 \<le> 0xDF)" "0xE0 \<le> b0 \<and> b0 \<le> 0xEF"
  shows "utf8_valid (b0 # bs) \<longleftrightarrow>
    (\<exists>b1 b2 r. bs = b1 # b2 # r \<and> utf8_second3 b0 b1 \<and> utf8_cont b2 \<and> utf8_valid r)"
  using assms by (subst utf8_valid.simps(2)) (simp only: if_True if_False, auto split: list.split)

lemma utf8_valid4:
  assumes "\<not> b0 < 0x80" "\<not> (0xC2 \<le> b0 \<and> b0 \<le> 0xDF)" "\<not> (0xE0 \<le> b0 \<and> b0 \<le> 0xEF)"
  shows "utf8_valid (b0 # bs) \<longleftrightarrow>
    (\<exists>b1 b2 b3 r. bs = b1 # b2 # b3 # r \<and> utf8_second4 b0 b1 \<and> utf8_cont b2 \<and> utf8_cont b3 \<and>
       utf8_valid r)"
  using assms by (subst utf8_valid.simps(2)) (simp only: if_True if_False, auto split: list.split)

lemma utf8_takeWhile: "utf8_valid s \<Longrightarrow> utf8_valid (takeWhile (\<lambda>b. b \<noteq> IS1) s)"
proof (induction s rule: utf8_valid.induct)
  case 1
  then show ?case by simp
next
  case (2 b0 bs)
  have ne: "b \<noteq> IS1" if "0x80 \<le> b" for b :: byte
    using that by (auto simp: IS1_def)
  have cont: "b \<noteq> IS1" if "utf8_cont b" for b
    using that ne by (simp add: utf8_cont_def)
  have second: "b \<noteq> IS1" if "utf8_second3 c b \<or> utf8_second4 c b" for b c
    using that cont by (auto simp: utf8_second3_def utf8_second4_def IS1_def)
  show ?case
  proof (cases "b0 < 0x80")
    case True
    with 2 show ?thesis by auto
  next
    case big: False
    then have b0: "b0 \<noteq> IS1" by (auto simp: IS1_def)
    consider "0xC2 \<le> b0 \<and> b0 \<le> 0xDF" | "\<not> (0xC2 \<le> b0 \<and> b0 \<le> 0xDF)" "0xE0 \<le> b0 \<and> b0 \<le> 0xEF"
      | "\<not> (0xC2 \<le> b0 \<and> b0 \<le> 0xDF)" "\<not> (0xE0 \<le> b0 \<and> b0 \<le> 0xEF)" by blast
    then show ?thesis
    proof cases
      case 1
      then obtain b1 bs' where bs: "bs = b1 # bs'" "utf8_cont b1" "utf8_valid bs'"
        using "2.prems" utf8_valid2 [OF big 1] by auto
      note IH = "2.IH"(2) [OF big 1 bs(1) bs(3)]
      have "takeWhile (\<lambda>b. b \<noteq> IS1) (b0 # bs) = b0 # b1 # takeWhile (\<lambda>b. b \<noteq> IS1) bs'"
        using b0 cont [OF bs(2)] bs(1) by simp
      with IH bs(2) show ?thesis by (simp only: utf8_valid2 [OF big 1]) blast
    next
      case 2
      then obtain b1 b2 bs' where bs: "bs = b1 # b2 # bs'" "utf8_second3 b0 b1" "utf8_cont b2"
        "utf8_valid bs'"
        using "2.prems" utf8_valid3 [OF big 2] by auto
      note IH = "2.IH"(3) [OF big 2 bs(1) refl bs(4)]
      have "takeWhile (\<lambda>b. b \<noteq> IS1) (b0 # bs) = b0 # b1 # b2 # takeWhile (\<lambda>b. b \<noteq> IS1) bs'"
        using b0 second [OF disjI1, OF bs(2)] cont [OF bs(3)] bs(1) by simp
      with IH bs(2,3) show ?thesis by (simp only: utf8_valid3 [OF big 2]) blast
    next
      case 3
      then obtain b1 b2 b3 bs' where bs: "bs = b1 # b2 # b3 # bs'" "utf8_second4 b0 b1"
        "utf8_cont b2" "utf8_cont b3" "utf8_valid bs'"
        using "2.prems" utf8_valid4 [OF big 3] by auto
      note IH = "2.IH"(4) [OF big 3 bs(1) refl refl bs(5)]
      have "takeWhile (\<lambda>b. b \<noteq> IS1) (b0 # bs) = b0 # b1 # b2 # b3 # takeWhile (\<lambda>b. b \<noteq> IS1) bs'"
        using b0 second [OF disjI2, OF bs(2)] cont [OF bs(3)] cont [OF bs(4)] bs(1) by simp
      with IH bs(2-4) show ?thesis by (simp only: utf8_valid4 [OF big 3]) blast
    qed
  qed
qed

definition good_scalar :: "tlv_value \<Rightarrow> bool" where
  "good_scalar v \<longleftrightarrow> value_wf v \<and> payloads_fit v \<and> value_depth v = 0 \<and> value_count v = 1"

lemma next_bytes_len: "next_bytes n r = (Inr s, r') \<Longrightarrow> length s < 2 ^ 64"
  by (auto simp: next_bytes_def split: if_splits)

lemma read_utf8_ref_good: "read_utf8_ref n r = (Inr w, r') \<Longrightarrow> good_scalar (value_from w)"
proof -
  assume "read_utf8_ref n r = (Inr w, r')"
  then obtain s r1 where s: "next_bytes n r = (Inr s, r1)" "utf8_valid s"
    and w: "w = RUtf8 (takeWhile (\<lambda>b. b \<noteq> IS1) s)"
    by (auto simp: read_utf8_ref_def andthen_eq_Inr split: if_splits)
  have "length (takeWhile (\<lambda>b. b \<noteq> IS1) s) < 2 ^ 64"
    using next_bytes_len [OF s(1)] length_takeWhile_le [of "\<lambda>b. b \<noteq> IS1" s] by linarith
  then show ?thesis
    using utf8_takeWhile [OF s(2)] by (auto simp: good_scalar_def w dest: set_takeWhileD)
qed

lemma read_bytes_ref_good: "read_bytes_ref n r = (Inr w, r') \<Longrightarrow> good_scalar (value_from w)"
  by (auto simp: read_bytes_ref_def andthen_eq_Inr good_scalar_def dest: next_bytes_len)

lemma read_value_body_ref_good:
  "read_value_body_ref et r = (Inr w, r') \<Longrightarrow> good_scalar (value_from w)"
  unfolding read_value_body_ref_def
  by (auto simp: andthen_eq_Inr good_scalar_def [of "VBool _"] good_scalar_def [of "VUint _"]
      good_scalar_def [of "VInt _"] good_scalar_def [of "VFloat _"] good_scalar_def [of "VDouble _"]
      good_scalar_def [of VNull] split: if_splits intro: read_utf8_ref_good read_bytes_ref_good)

text \<open>What an event says about the reader before and after it.\<close>

lemma next_ref_body_event:
  assumes "next_ref r = (Inr (Some e), r')"
  obtains control r1 where "next_byte r = (Inr control, r1)" "only_pos r r1"
    "next_ref_body (rd_pos r) control r1 = (Inr (Some e), r')"
  using assms keepsD [OF only_pos_next_byte]
  by (auto simp: next_ref_def andthen_eq_Inr split: if_splits)

lemma next_ref_event:
  assumes "next_ref r = (Inr (Some e), r')"
  shows "rd_budget r' = rd_budget r"
    and "e = ScalarRef t w \<Longrightarrow> rd_depth r' = rd_depth r \<and> good_scalar (value_from w)"
    and "e = ContainerStartRef t k \<Longrightarrow> rd_depth r < MAX_DEPTH \<and> rd_depth r' = rd_depth r + 1"
    and "e = ContainerEndRef \<Longrightarrow> 0 < rd_depth r \<and> rd_depth r' = rd_depth r - 1"
proof -
  obtain control r1 where r1: "only_pos r r1"
    and b: "next_ref_body (rd_pos r) control r1 = (Inr (Some e), r')"
    using next_ref_body_event [OF assms] by blast
  note f1 = only_pos_fields [OF r1]
  have t: "rd_depth r2 = rd_depth r \<and> rd_budget r2 = rd_budget r"
    if "read_tag control r1 = (Inr tg, r2)" for tg r2
    using only_pos_fields [OF keepsD [OF only_pos_read_tag that]] f1 by simp
  have s: "rd_depth r3 = rd_depth r2 \<and> rd_budget r3 = rd_budget r2 \<and> good_scalar (value_from w')"
    if "read_value_body_ref et r2 = (Inr w', r3)" for et r2 w' r3
    using only_pos_fields [OF keepsD [OF only_pos_read_value_body_ref that]]
      read_value_body_ref_good [OF that] by simp
  show "rd_budget r' = rd_budget r"
    and "e = ScalarRef t w \<Longrightarrow> rd_depth r' = rd_depth r \<and> good_scalar (value_from w)"
    and "e = ContainerStartRef t k \<Longrightarrow> rd_depth r < MAX_DEPTH \<and> rd_depth r' = rd_depth r + 1"
    and "e = ContainerEndRef \<Longrightarrow> 0 < rd_depth r \<and> rd_depth r' = rd_depth r - 1"
    using b f1
    by (auto simp: next_ref_body_def Let_def next_end_def next_open_def next_scalar_def
        andthen_eq_Inr split: if_splits option.splits dest!: t s)
qed

lemma next_ref_start_span:
  assumes "next_ref r = (Inr (Some (ContainerStartRef t k)), r')"
  shows "\<exists>body. rd_last_was_start r' \<and> rd_last_span r' =
    Some \<lparr>span_start = rd_pos r, span_body_start = body, span_end = rd_pos r'\<rparr>"
proof -
  obtain control r1 where
    "next_ref_body (rd_pos r) control r1 = (Inr (Some (ContainerStartRef t k)), r')"
    using next_ref_body_event [OF assms] by blast
  then show ?thesis
    by (auto simp: next_ref_body_def Let_def next_end_def next_open_def next_scalar_def set_span_def
        andthen_eq_Inr split: if_splits option.splits)
qed

section \<open>Trees built from arbitrary input\<close>

lemma elements_members:
  "elements_depth (map snd ms) = members_depth ms" "elements_count (map snd ms) = members_count ms"
  "elements_wf (map snd ms) = members_wf ms" "elements_fit (map snd ms) = members_fit ms"
  by (induction ms) auto

lemma build_container_measures [simp]:
  "value_depth (build_container k ms) = Suc (members_depth ms)"
  "value_count (build_container k ms) = Suc (members_count ms)"
  "value_wf (build_container k ms) = members_wf ms"
  "payloads_fit (build_container k ms) = members_fit ms"
  by (cases k; simp add: elements_members)+

definition grown :: "bool \<Rightarrow> nat \<Rightarrow> tlv_reader \<Rightarrow> (tag \<times> tlv_value) list \<Rightarrow> tlv_reader \<Rightarrow> bool" where
  "grown c b r new r' \<longleftrightarrow>
     members_wf new \<and> members_fit new \<and> rd_depth r + members_depth new \<le> MAX_DEPTH \<and>
     0 < rd_depth r \<and> rd_depth r' = rd_depth r - 1 \<and> rd_pos r + members_count new < rd_pos r' \<and>
     rd_budget r' = (if c then b - members_count new else rd_budget r) \<and>
     (c \<longrightarrow> members_count new \<le> b)"

lemma container_loop_tree:
  "container_loop c kind acc b r = (Inr ms, r') \<Longrightarrow> rd_depth r \<le> MAX_DEPTH \<Longrightarrow>
   \<exists>new. ms = acc @ new \<and> grown c b r new r'"
proof (induction kind acc b r arbitrary: ms r' rule: container_loop_induct [where c = c])
  case (error kind acc b r e r1)
  then show ?case by (simp add: container_loop_error)
next
  case (eof kind acc b r r1)
  then show ?case by (simp add: container_loop_eof)
next
  case (close kind acc b r r1)
  with next_ref_event [OF close(1)] next_ref_progress [OF close(1)] show ?case
    by (auto simp: container_loop_close grown_def)
next
  case (refused kind acc b r t v k r1 e)
  then show ?case by (simp add: container_loop_refused)
next
  case (scalar kind acc b r t v r1)
  note ev = next_ref_event(2) [OF scalar(1) refl] next_ref_event(1) [OF scalar(1)]
  have l: "container_loop c kind (acc @ [(t, value_from v)]) (charge_local c b) r1 = (Inr ms, r')"
    using container_loop_scalar [OF scalar(1,2), of acc] scalar(4) by simp
  obtain new where new: "ms = (acc @ [(t, value_from v)]) @ new" "grown c (charge_local c b) r1 new r'"
    using scalar(3) [OF l] scalar(5) ev by auto
  have "grown c b r ((t, value_from v) # new) r'"
    using new(2) ev next_ref_progress(1) [OF scalar(1)] scalar(2)
    by (auto simp: grown_def good_scalar_def charge_local_def child_refused_def split: if_splits)
  with new(1) show ?case by auto
next
  case (nested kind acc b r t k r1 r2)
  note ev = next_ref_event(3) [OF nested(1) refl] next_ref_event(1) [OF nested(1)]
  note eq = container_loop_open [OF nested(1-3), of acc]
  obtain inner r3 where i: "container_loop c k [] (rd_budget r2) r2 = (Inr inner, r3)"
    and l: "container_loop c kind (acc @ [(t, build_container k inner)])
      (if c then rd_budget r3 else charge_local c b) r3 = (Inr ms, r')"
    using nested(6) unfolding eq by (auto split: prod.splits sum.splits)
  have d2: "rd_depth r2 = rd_depth r + 1" "rd_pos r2 = rd_pos r1"
    using ev nested(3) by auto
  have g1: "grown c (rd_budget r2) r2 inner r3"
    using nested(4) [OF i] ev d2 by auto
  then have "rd_depth r3 \<le> MAX_DEPTH" using ev d2 by (simp add: grown_def)
  then obtain new where new: "ms = (acc @ [(t, build_container k inner)]) @ new"
    and g2: "grown c (if c then rd_budget r3 else charge_local c b) r3 new r'"
    using nested(5) [OF i l] by auto
  have "grown c b r ((t, build_container k inner) # new) r'"
    using g1 g2 ev d2 nested(2,3) next_ref_progress(1) [OF nested(1)]
    by (auto simp: grown_def charge_local_def child_refused_def split: if_splits)
  with new show ?case by auto
qed

text \<open>The whole tree builder.\<close>

lemma read_value_inner_tree:
  assumes "read_value_inner c r = (Inr (t, v), r')" "rd_depth r \<le> MAX_DEPTH"
  shows "value_wf v \<and> payloads_fit v \<and> rd_depth r + value_depth v \<le> MAX_DEPTH \<and>
    rd_depth r' = rd_depth r \<and> rd_pos r + value_count v \<le> rd_pos r' \<and>
    (c \<longrightarrow> value_count v \<le> rd_budget r \<and> rd_budget r' = rd_budget r - value_count v) \<and>
    (\<not> c \<longrightarrow> rd_budget r' = rd_budget r)"
proof -
  obtain ev0 r1 where n0: "next_ref r = (Inr ev0, r1)"
    using assms(1) unfolding read_value_inner_def andthen_eq_Inr by blast
  then have "ev0 \<noteq> None \<and> ev0 \<noteq> Some ContainerEndRef"
    using assms(1) by (cases ev0) (auto simp: read_value_inner_def andthen_Inr)
  then obtain e where n: "next_ref r = (Inr (Some e), r1)" and e: "e \<noteq> ContainerEndRef"
    using n0 by (cases ev0) auto
  note ev = next_ref_event [OF n]
  note pr = next_ref_progress(1) [OF n]
  show ?thesis
  proof (cases e)
    case (ScalarRef t' w)
    with assms(1) n ev(1) ev(2) [OF ScalarRef] pr assms(2) show ?thesis
      by (auto simp: read_value_inner_def andthen_def charge_element_def good_scalar_def
          split: if_splits)
  next
    case (ContainerStartRef t' k)
    define r2 where "r2 = (if c then r1\<lparr>rd_budget := rd_budget r1 - 1\<rparr> else r1)"
    have b: "c \<Longrightarrow> rd_budget r1 \<noteq> 0"
      using assms(1) n ContainerStartRef
      by (auto simp: read_value_inner_def andthen_def charge_element_def split: if_splits)
    obtain inner where l: "container_loop c k [] (rd_budget r2) r2 = (Inr inner, r')"
      and v: "v = build_container k inner"
      using assms(1) n ContainerStartRef
      by (auto simp: read_value_inner_def andthen_def charge_element_def r2_def
          read_container_body_def split: if_splits prod.splits sum.splits)
    note ev3 = ev(3) [OF ContainerStartRef]
    have "rd_depth r2 \<le> MAX_DEPTH" using ev3 by (auto simp: r2_def)
    from container_loop_tree [OF l this] ev(1) ev3 pr b show ?thesis
      by (auto simp: grown_def r2_def v)
  qed (use e in simp)
qed

lemma read_value_inner_forward: "keeps forward (read_value_inner c)"
proof -
  have "keeps forward next_ref" "keeps forward charge_element"
    by (auto intro: next_ref_forward simp: charge_element_def forward_def split: if_splits)
  moreover have "keeps forward (read_container_body c k)" for k
  proof
    fix r res r'
    assume "read_container_body c k r = (res, r')"
    then show "forward r r'"
      using container_loop_forward [of c k "[]" "rd_budget r" r]
      by (auto simp: read_container_body_def andthen_def split: prod.splits sum.splits)
  qed
  ultimately show ?thesis
    unfolding read_value_inner_def
    by (auto intro!: forward_keeps split: option.splits tlv_element_ref.splits
        simp del: ok_apply err_apply)
qed

lemma read_value_tree:
  assumes "read_value r = (Inr (t, v), r')" "rd_depth r \<le> MAX_DEPTH" "rd_pos r \<le> length (rd_bytes r)"
  shows "value_wf v \<and> payloads_fit v \<and> rd_depth r + value_depth v \<le> MAX_DEPTH \<and>
    rd_depth r' = rd_depth r \<and> value_count v \<le> rd_budget r"
proof -
  obtain c where c: "read_value_inner c r = (Inr (t, v), r')"
    and f: "\<not> c \<longrightarrow> length (rd_bytes r) - rd_pos r \<le> rd_budget r"
    using assms(1) by (auto simp: read_value_def Let_def split: if_splits)
  from keepsD [OF read_value_inner_forward c] assms(3) have "rd_pos r' \<le> length (rd_bytes r)"
    by (simp add: forward_def)
  with read_value_inner_tree [OF c assms(2)] f assms(3) show ?thesis by (cases c) auto
qed

section \<open>The uncharged fast path\<close>

text \<open>
  Two readers that differ in their budgets only make the same events, and the container
  loop returns the same result charged and uncharged as long as the budget covers the
  bytes that are left.
\<close>

definition set_budget :: "nat \<Rightarrow> tlv_reader \<Rightarrow> tlv_reader" where
  "set_budget b r = r\<lparr>rd_budget := b\<rparr>"

definition budget_blind :: "'a reader \<Rightarrow> bool" where
  "budget_blind m \<longleftrightarrow> (\<forall>r b. m (set_budget b r) = map_prod id (set_budget b) (m r))"

lemma set_budget_fields [simp]:
  "rd_bytes (set_budget b r) = rd_bytes r" "rd_pos (set_budget b r) = rd_pos r"
  "rd_depth (set_budget b r) = rd_depth r" "rd_budget (set_budget b r) = b"
  "is_empty (set_budget b r) = is_empty r"
  by (simp_all add: set_budget_def is_empty_def)

lemma blind_ok: "budget_blind (ok x)"
  by (simp add: budget_blind_def)

lemma blind_err: "budget_blind (err e)"
  by (simp add: budget_blind_def)

lemma blind_andthen: "budget_blind m \<Longrightarrow> (\<And>x. budget_blind (f x)) \<Longrightarrow> budget_blind (andthen m f)"
  by (auto simp: budget_blind_def andthen_def split: prod.splits sum.splits)

lemma blind_next_byte: "budget_blind next_byte"
  by (simp add: budget_blind_def next_byte_def set_budget_def)

lemma blind_next_bytes: "budget_blind (next_bytes n)"
  by (simp add: budget_blind_def next_bytes_def set_budget_def)

lemma blind_next_array: "budget_blind (next_array n)"
  by (simp add: next_array_def blind_andthen blind_ok blind_err blind_next_bytes)

lemmas blind_basic = blind_andthen blind_ok blind_err blind_next_byte blind_next_bytes blind_next_array

lemma blind_read_words:
  "budget_blind read_u16_le" "budget_blind read_u32_le" "budget_blind read_u64_le"
  by (simp_all add: read_u16_le_def read_u32_le_def read_u64_le_def blind_basic)

lemma blind_read_tag: "budget_blind (read_tag control)"
  by (simp add: read_tag_def Let_def blind_basic blind_read_words)

lemma blind_read_payload_len: "budget_blind (read_payload_len et)"
  by (simp add: read_payload_len_def Let_def blind_basic blind_read_words)

lemma blind_read_value_body_ref: "budget_blind (read_value_body_ref et)"
  by (simp add: read_value_body_ref_def read_utf8_ref_def read_bytes_ref_def blind_basic
      blind_read_payload_len del: One_nat_def)

lemma blind_next_end: "budget_blind (next_end a control)"
  by (simp add: budget_blind_def next_end_def set_budget_def set_span_def)

lemma blind_next_open: "budget_blind (next_open a t k)"
  by (simp add: budget_blind_def next_open_def set_budget_def set_span_def)

lemma blind_next_scalar: "budget_blind (next_scalar a t et)"
  using blind_read_value_body_ref [of et]
  by (auto simp: budget_blind_def next_scalar_def andthen_def set_span_def set_budget_def
      split: prod.splits sum.splits)

lemma blind_next_ref: "budget_blind next_ref"
proof -
  have "budget_blind (next_ref_body start control)" for start control
    by (auto simp: next_ref_body_def Let_def intro!: blind_basic blind_read_tag blind_next_end
        blind_next_open blind_next_scalar split: option.splits)
  then have "budget_blind (andthen next_byte (next_ref_body start))" for start
    by (intro blind_basic)
  then show ?thesis
    by (auto simp: budget_blind_def next_ref_def)
qed

lemma next_ref_set_budget: "next_ref r = (res, r1) \<Longrightarrow> next_ref (set_budget b r) = (res, set_budget b r1)"
  using blind_next_ref by (simp add: budget_blind_def)

lemma set_budget_twice [simp]: "set_budget b (set_budget b' r) = set_budget b r"
  by (simp add: set_budget_def)

lemma set_budget_same: "rd_budget r = b \<Longrightarrow> set_budget b r = r"
  by (simp add: set_budget_def)

lemma store_budget_set: "store_budget c b r = (if c then set_budget b r else r)"
  by (simp add: store_budget_def set_budget_def)

lemma container_loop_uncharged:
  "container_loop False kind acc q r = (res, r') \<Longrightarrow> length (rd_bytes r) - rd_pos r \<le> b \<Longrightarrow>
   \<exists>g'. container_loop True kind acc b (set_budget g r) = (res, set_budget g' r') \<and>
     (\<forall>ms. res = Inr ms \<longrightarrow> length (rd_bytes r') - rd_pos r' \<le> g')"
proof (induction kind acc q r arbitrary: b g res r' rule: container_loop_induct [where c = False])
  case (error kind acc q r e r1)
  then show ?case
    using next_ref_set_budget [OF error(1), of g] by (auto simp: container_loop_error)
next
  case (eof kind acc q r r1)
  then show ?case
    using next_ref_set_budget [OF eof(1), of g] by (auto simp: container_loop_eof)
next
  case (close kind acc q r r1)
  then show ?case
    using next_ref_set_budget [OF close(1), of g] next_ref_forward [OF close(1)]
    by (auto simp: container_loop_close forward_def store_budget_set intro!: exI [of _ b])
next
  case (refused kind acc q r t v k r1 e)
  have "child_refused True kind b t = Some e"
    using refused(2) by (auto simp: child_refused_def split: if_splits)
  moreover have "next_ref (set_budget g r) = (Inr (Some (ScalarRef t v)), set_budget g r1) \<or>
      next_ref (set_budget g r) = (Inr (Some (ContainerStartRef t k)), set_budget g r1)"
    using refused(1) next_ref_set_budget by blast
  ultimately show ?case
    using container_loop_refused [OF refused(1,2), of acc] refused(3)
      container_loop_refused [of "set_budget g r" t v "set_budget g r1" k True kind b e acc]
    by auto
next
  case (scalar kind acc q r t v r1)
  have b: "0 < b" "length (rd_bytes r1) - rd_pos r1 \<le> b - 1"
    using next_ref_measure1 [OF scalar(1)] scalar(5) by linarith+
  then have ne: "child_refused True kind b t = None"
    using scalar(2) by (auto simp: child_refused_def split: if_splits)
  have "container_loop False kind (acc @ [(t, value_from v)]) (charge_local False q) r1 = (res, r')"
    using container_loop_scalar [OF scalar(1,2), of acc] scalar(4) by simp
  from scalar(3) [OF this b(2), of g]
  show ?case
    using container_loop_scalar [OF next_ref_set_budget [OF scalar(1)] ne, of acc g]
    by (simp add: charge_local_def)
next
  case (nested kind acc q r t k r1 r2)
  have r2: "r2 = r1" using nested(3) by (simp add: store_budget_set)
  have b: "0 < b" "length (rd_bytes r2) - rd_pos r2 \<le> b - 1"
    using next_ref_measure1 [OF nested(1)] nested(7) unfolding r2 by linarith+
  then have ne: "child_refused True kind b t = None"
    using nested(2) by (auto simp: child_refused_def split: if_splits)
  note eqF = container_loop_open [OF nested(1-3), of acc]
  note eqT = container_loop_open [OF next_ref_set_budget [OF nested(1)] ne refl, of acc g]
  obtain ires r3 where i: "container_loop False k [] (rd_budget r2) r2 = (ires, r3)" by fastforce
  from nested(4) [OF i b(2), of "b - 1"] obtain g3 where
    iT: "container_loop True k [] (b - 1) (set_budget (b - 1) r2) = (ires, set_budget g3 r3)"
    and g3: "\<forall>ms. ires = Inr ms \<longrightarrow> length (rd_bytes r3) - rd_pos r3 \<le> g3" by blast
  show ?case
  proof (cases ires)
    case (Inl e)
    with i iT eqF eqT nested(6) show ?thesis
      by (auto simp: store_budget_set charge_local_def r2)
  next
    case (Inr inner)
    note i' = i [unfolded Inr]
    have "container_loop False kind (acc @ [(t, build_container k inner)])
        (if False then rd_budget r3 else charge_local False q) r3 = (res, r')"
      using eqF i' nested(6) by simp
    from nested(5) [OF i' this] g3 Inr obtain g4 where
      "container_loop True kind (acc @ [(t, build_container k inner)]) g3 (set_budget g3 r3) =
         (res, set_budget g4 r')"
      "\<forall>ms. res = Inr ms \<longrightarrow> length (rd_bytes r') - rd_pos r' \<le> g4" by blast
    with eqT iT Inr show ?thesis
      by (auto simp: store_budget_set charge_local_def r2)
  qed
qed

lemma container_loop_keeps_budget:
  "container_loop False kind acc q r = (res, r') \<Longrightarrow> rd_budget r' = rd_budget r \<or> (\<exists>e. res = Inl e)"
proof (induction kind acc q r arbitrary: res r' rule: container_loop_induct [where c = False])
  case (scalar kind acc q r t v r1)
  then show ?case
    using container_loop_scalar [OF scalar(1,2), of acc] next_ref_event(1) [OF scalar(1)] by auto
next
  case (nested kind acc q r t k r1 r2)
  note eq = container_loop_open [OF nested(1-3), of acc]
  obtain ires r3 where i: "container_loop False k [] (rd_budget r2) r2 = (ires, r3)" by fastforce
  show ?case
  proof (cases ires)
    case (Inl e)
    with i eq nested(6) show ?thesis by auto
  next
    case (Inr inner)
    with i have "container_loop False k [] (rd_budget r2) r2 = (Inr inner, r3)" by simp
    from nested(5) [OF this] nested(4) [OF this] nested(3,6) eq this next_ref_event(1) [OF nested(1)]
    show ?thesis by (auto simp: store_budget_set)
  qed
qed (auto simp: container_loop_error container_loop_eof container_loop_close container_loop_refused
      store_budget_set dest: next_ref_event(1))

lemma read_value_inner_uncharged:
  assumes "read_value_inner False r = (res, r')" "length (rd_bytes r) - rd_pos r \<le> g"
  shows "\<exists>g'. read_value_inner True (set_budget g r) = (res, set_budget g' r') \<and>
    (\<forall>x. res = Inr x \<longrightarrow> length (rd_bytes r') - rd_pos r' \<le> g' \<and> rd_budget r' = rd_budget r)"
proof -
  obtain ev0 r1 where n: "next_ref r = (ev0, r1)" by fastforce
  note nT = next_ref_set_budget [OF n, of g]
  consider e where "ev0 = Inl e" | "ev0 = Inr None" | "ev0 = Inr (Some ContainerEndRef)"
    | t v where "ev0 = Inr (Some (ScalarRef t v))"
    | t k where "ev0 = Inr (Some (ContainerStartRef t k))"
    by (metis old.sum.exhaust option.exhaust tlv_element_ref.exhaust)
  then show ?thesis
  proof cases
    case 1
    with n nT assms(1) show ?thesis by (auto simp: read_value_inner_def andthen_Inl)
  next
    case 2
    with n nT assms(1) show ?thesis by (auto simp: read_value_inner_def andthen_Inr)
  next
    case 3
    with n nT assms(1) show ?thesis by (auto simp: read_value_inner_def andthen_Inr)
  next
    case (4 t v)
    note n4 = n [unfolded 4]
    have "0 < g" "length (rd_bytes r1) - rd_pos r1 \<le> g - 1"
      using next_ref_measure1 [OF n4] assms(2) by linarith+
    with 4 n nT assms(1) next_ref_event(1) [OF n4] show ?thesis
      by (auto simp: read_value_inner_def andthen_def charge_element_def
          simp flip: set_budget_def)
  next
    case (5 t k)
    note n5 = n [unfolded 5]
    have b: "0 < g" "length (rd_bytes r1) - rd_pos r1 \<le> g - 1"
      using next_ref_measure1 [OF n5] assms(2) by linarith+
    obtain ires r3 where i: "container_loop False k [] (rd_budget r1) r1 = (ires, r3)" by fastforce
    from container_loop_uncharged [OF i b(2), of "g - 1"] obtain g' where
      "container_loop True k [] (g - 1) (set_budget (g - 1) r1) = (ires, set_budget g' r3)"
      "\<forall>ms. ires = Inr ms \<longrightarrow> length (rd_bytes r3) - rd_pos r3 \<le> g'" by blast
    with 5 n nT i b(1) assms(1) next_ref_event(1) [OF n5] container_loop_keeps_budget [OF i]
    show ?thesis
      by (cases ires) (auto simp: read_value_inner_def andthen_def charge_element_def
          read_container_body_def simp flip: set_budget_def)
  qed
qed

text \<open>
  Results of up to \<open>n\<close> consecutive reads, ending at the first error; \<open>read_seq read_value\<close>
  is the caller of the public operation, \<open>read_seq (read_value_inner True)\<close> the
  implementation that charges every element.
\<close>

fun read_seq :: "(tag \<times> tlv_value) reader \<Rightarrow> nat \<Rightarrow> tlv_reader \<Rightarrow> (tlv_error + tag \<times> tlv_value) list"
where
  "read_seq m 0 r = []"
| "read_seq m (Suc n) r = (case m r of
     (Inl e, r') \<Rightarrow> [Inl e]
   | (Inr x, r') \<Rightarrow> Inr x # read_seq m n r')"

lemma read_seq_agree:
  assumes "g = rd_budget r \<or>
    (length (rd_bytes r) - rd_pos r \<le> g \<and> length (rd_bytes r) - rd_pos r \<le> rd_budget r)"
  shows "read_seq read_value n r = read_seq (read_value_inner True) n (set_budget g r)"
  using assms
proof (induction n arbitrary: r g)
  case 0
  then show ?case by simp
next
  case (Suc n)
  show ?case
  proof (cases "length (rd_bytes r) - rd_pos r \<le> rd_budget r")
    case True
    obtain res r' where u: "read_value_inner False r = (res, r')" by fastforce
    have "length (rd_bytes r) - rd_pos r \<le> g" using Suc.prems True by auto
    from read_value_inner_uncharged [OF u this] obtain g' where
      c: "read_value_inner True (set_budget g r) = (res, set_budget g' r')"
      and g': "\<forall>x. res = Inr x \<longrightarrow> length (rd_bytes r') - rd_pos r' \<le> g' \<and> rd_budget r' = rd_budget r"
      by blast
    have rv: "read_value r = (res, r')" using True u by (simp add: read_value_def)
    show ?thesis
    proof (cases res)
      case (Inl e)
      with rv c show ?thesis by simp
    next
      case (Inr x)
      have "forward r r'" by (rule keepsD [OF read_value_inner_forward u])
      with g' Inr True have "length (rd_bytes r') - rd_pos r' \<le> g'"
        "length (rd_bytes r') - rd_pos r' \<le> rd_budget r'"
        by (auto simp: forward_def)
      then have "read_seq read_value n r' = read_seq (read_value_inner True) n (set_budget g' r')"
        by (intro Suc.IH) simp
      with rv c Inr show ?thesis by simp
    qed
  next
    case False
    then have "g = rd_budget r" using Suc.prems by auto
    then have s: "set_budget g r = r" by (simp add: set_budget_same)
    have rv: "read_value r = read_value_inner True r" using False by (simp add: read_value_def)
    have "read_seq read_value n r' = read_seq (read_value_inner True) n r'" for r'
      using Suc.IH [of "rd_budget r'" r'] by (simp add: set_budget_same)
    then show ?thesis by (simp add: s rv split: prod.split sum.split)
  qed
qed

section \<open>Skipping agrees with reading\<close>

text \<open>Below the event level a computation depends on the input and the cursor only.\<close>

definition cursor_det :: "'a reader \<Rightarrow> bool" where
  "cursor_det m \<longleftrightarrow> (\<forall>r q res r'. m r = (res, r') \<longrightarrow> rd_bytes r' = rd_bytes r \<and>
     (rd_bytes q = rd_bytes r \<longrightarrow> rd_pos q = rd_pos r \<longrightarrow> m q = (res, q\<lparr>rd_pos := rd_pos r'\<rparr>)))"

lemma cursor_detD:
  assumes "cursor_det m" "m r = (res, r')"
  shows "rd_bytes r' = rd_bytes r"
    and "rd_bytes q = rd_bytes r \<Longrightarrow> rd_pos q = rd_pos r \<Longrightarrow> m q = (res, q\<lparr>rd_pos := rd_pos r'\<rparr>)"
  using assms unfolding cursor_det_def by blast+

lemma det_ok: "cursor_det (ok x)"
  by (simp add: cursor_det_def)

lemma det_err: "cursor_det (err e)"
  by (simp add: cursor_det_def)

lemma det_andthen:
  assumes "cursor_det m" "\<And>x. cursor_det (f x)"
  shows "cursor_det (andthen m f)"
  unfolding cursor_det_def
proof (intro allI impI conjI)
  fix r q :: tlv_reader and res r'
  assume eq: "andthen m f r = (res, r')"
  obtain r1 s1 where m: "m r = (r1, s1)" by fastforce
  note d = cursor_detD [OF assms(1) m]
  show "rd_bytes r' = rd_bytes r"
    using eq m d(1) cursor_detD(1) [OF assms(2)] by (cases r1) (auto simp: andthen_def)
  assume q: "rd_bytes q = rd_bytes r" "rd_pos q = rd_pos r"
  show "andthen m f q = (res, q\<lparr>rd_pos := rd_pos r'\<rparr>)"
  proof (cases r1)
    case (Inl e)
    with eq m d(2) [OF q] show ?thesis by (simp add: andthen_def)
  next
    case (Inr x)
    with eq m have "f x s1 = (res, r')" by (simp add: andthen_def)
    from cursor_detD(2) [OF assms(2) this, of "q\<lparr>rd_pos := rd_pos s1\<rparr>"] d(1) d(2) [OF q] q Inr
    show ?thesis by (simp add: andthen_def)
  qed
qed

lemma det_next_byte: "cursor_det next_byte"
  by (auto simp: cursor_det_def next_byte_def split: if_splits)

lemma det_next_bytes: "cursor_det (next_bytes n)"
  by (auto simp: cursor_det_def next_bytes_def split: if_splits)

lemma det_next_array: "cursor_det (next_array n)"
  by (simp add: next_array_def det_andthen det_ok det_err det_next_bytes)

lemmas det_basic = det_andthen det_ok det_err det_next_byte det_next_bytes det_next_array

lemma det_read_words: "cursor_det read_u16_le" "cursor_det read_u32_le" "cursor_det read_u64_le"
  by (simp_all add: read_u16_le_def read_u32_le_def read_u64_le_def det_basic)

lemma det_read_tag: "cursor_det (read_tag control)"
  by (simp add: read_tag_def Let_def det_basic det_read_words)

lemma det_read_payload_len: "cursor_det (read_payload_len et)"
  by (simp add: read_payload_len_def Let_def det_basic det_read_words)

lemma det_skip_value_body: "cursor_det (skip_value_body et)"
  by (simp add: skip_value_body_def Let_def det_basic det_read_payload_len)

lemma next_byte_as_bytes:
  "next_byte r = (Inr b, r') \<Longrightarrow> cursor_ok r \<Longrightarrow> next_bytes 1 r = (Inr [b], r')"
  by (auto simp: next_byte_def next_bytes_def cursor_ok_def addressable_def take_Suc_conv_app_nth
      split: if_splits simp flip: Cons_nth_drop_Suc)

lemma next_array_as_bytes: "next_array n r = (Inr b, r') \<Longrightarrow> next_bytes n r = (Inr b, r')"
  by (auto simp: next_array_def andthen_eq_Inr split: if_splits)

lemma next_bytes_0: "cursor_ok r \<Longrightarrow> next_bytes 0 r = (Inr [], r)"
  by (simp add: next_bytes_def cursor_ok_def addressable_def)

lemma skip_value_body_at:
  assumes "read_value_body_ref et r = (Inr w, r')" "cursor_ok r"
  shows "skip_value_body et r = (Inr (), r')"
  using assms
  by (auto simp: read_value_body_ref_def skip_value_body_def andthen_eq_Inr read_utf8_ref_def
      read_bytes_ref_def next_bytes_0 Let_def split: if_splits
      dest!: next_byte_as_bytes next_array_as_bytes simp: andthen_Inr)

lemma cursor_ok_forward: "forward r r' \<Longrightarrow> cursor_ok r \<Longrightarrow> cursor_ok r'"
  by (auto simp: forward_def cursor_ok_def addressable_def)

fun local_depth :: "nat \<Rightarrow> tlv_element_ref \<Rightarrow> nat" where
  "local_depth d (ScalarRef t w) = d"
| "local_depth d (ContainerStartRef t k) = d + 1"
| "local_depth d ContainerEndRef = d - 1"

lemma kind_of_iff: "kind_of et \<noteq> None \<longleftrightarrow> et \<in> {ET_STRUCTURE, ET_ARRAY, ET_LIST}"
  by (simp add: kind_of_def)

lemma skip_turn_at:
  assumes n: "next_ref r = (Inr (Some e), r1)" and c: "cursor_ok r"
    and q: "rd_bytes q = rd_bytes r" "rd_pos q = rd_pos r" "rd_depth r = rd_depth q + d - 1"
    and d: "0 < d" "0 < rd_depth q"
  shows "andthen next_byte (skip_child d) q = (Inr (local_depth d e), q\<lparr>rd_pos := rd_pos r1\<rparr>)"
proof -
  obtain control r0 where nb: "next_byte r = (Inr control, r0)" "only_pos r r0"
    and b: "next_ref_body (rd_pos r) control r0 = (Inr (Some e), r1)"
    using next_ref_body_event [OF n] by blast
  define q0 where "q0 = q\<lparr>rd_pos := rd_pos r0\<rparr>"
  have nq: "next_byte q = (Inr control, q0)"
    using cursor_detD(2) [OF det_next_byte nb(1) q(1,2)] by (simp add: q0_def)
  have q0: "rd_bytes q0 = rd_bytes r0" "rd_pos q0 = rd_pos r0"
    using q(1) only_pos_fields(1) [OF nb(2)] by (simp_all add: q0_def)
  have c0: "cursor_ok r0"
    using keepsD [OF keeps_next_byte nb(1)] c by (rule cursor_ok_forward)
  let ?et = "control AND ELEMENT_TYPE_MASK"
  have "skip_child d control q0 = (Inr (local_depth d e), q\<lparr>rd_pos := rd_pos r1\<rparr>)"
  proof (cases "?et = ET_END_OF_CONTAINER")
    case True
    with b d show ?thesis
      by (auto simp: next_ref_body_def next_end_def skip_child_def q0_def split: if_splits)
  next
    case False
    then obtain t r2 where t: "read_tag control r0 = (Inr t, r2)"
      and b2: "(case kind_of ?et of Some kind \<Rightarrow> next_open (rd_pos r) t kind
          | None \<Rightarrow> next_scalar (rd_pos r) t ?et) r2 = (Inr (Some e), r1)"
      using b unfolding next_ref_body_def Let_def if_not_P [OF False] andthen_eq_Inr by blast
    note f2 = only_pos_fields [OF keepsD [OF only_pos_read_tag t]]
    have c2: "cursor_ok r2"
      using keepsD [OF keeps_read_tag t] c0 by (rule cursor_ok_forward)
    define q2 where "q2 = q\<lparr>rd_pos := rd_pos r2\<rparr>"
    have tq: "read_tag control q0 = (Inr t, q2)"
      using cursor_detD(2) [OF det_read_tag t q0] by (simp add: q2_def q0_def)
    have q2: "rd_bytes q2 = rd_bytes r2" "rd_pos q2 = rd_pos r2"
      using q0(1) f2(1) by (simp_all add: q2_def q0_def)
    show ?thesis
    proof (cases "kind_of ?et")
      case None
      with b2 obtain w r3 where w: "read_value_body_ref ?et r2 = (Inr w, r3)"
        and e: "e = ScalarRef t w" "rd_pos r1 = rd_pos r3"
        by (auto simp: next_scalar_def andthen_eq_Inr)
      have "skip_value_body ?et q2 = (Inr (), q2\<lparr>rd_pos := rd_pos r3\<rparr>)"
        using cursor_detD(2) [OF det_skip_value_body skip_value_body_at [OF w c2] q2] .
      moreover have "?et \<notin> {ET_STRUCTURE, ET_ARRAY, ET_LIST}"
        using None kind_of_iff by blast
      ultimately show ?thesis
        using False tq e by (simp add: skip_child_def andthen_Inr q2_def)
    next
      case (Some k)
      with b2 have e: "e = ContainerStartRef t k" "rd_pos r1 = rd_pos r2" "rd_depth r2 < MAX_DEPTH"
        by (auto simp: next_open_def split: if_splits)
      have "\<not> rd_depth q2 + d > MAX_DEPTH"
        using e(3) q(3) d f2(2) only_pos_fields(2) [OF nb(2)] by (simp add: q2_def)
      moreover have "?et \<in> {ET_STRUCTURE, ET_ARRAY, ET_LIST}"
        using Some kind_of_iff by blast
      ultimately show ?thesis
        using False tq e by (auto simp: skip_child_def andthen_Inr q2_def)
    qed
  qed
  with nq show ?thesis by (simp add: andthen_Inr)
qed

lemma skip_loop_turn:
  assumes "next_ref r = (Inr (Some e), r1)" "cursor_ok r"
    and q: "rd_bytes q = rd_bytes r" "rd_pos q = rd_pos r" "rd_depth r = rd_depth q + d - 1"
    and d: "0 < d" "0 < rd_depth q"
  shows "skip_loop d q = skip_loop (local_depth d e) (q\<lparr>rd_pos := rd_pos r1\<rparr>)"
proof -
  have "\<not> is_empty q"
    using next_ref_progress(2) [OF assms(1)] q(1,2) by (simp add: is_empty_def)
  with skip_turn_at [OF assms] d(1) show ?thesis
    by (subst skip_loop.simps) simp
qed

lemma skip_loop_agrees:
  "container_loop c kind acc b r = (Inr ms, r') \<Longrightarrow> cursor_ok r \<Longrightarrow>
   rd_bytes q = rd_bytes r \<Longrightarrow> rd_pos q = rd_pos r \<Longrightarrow> rd_depth r = rd_depth q + d - 1 \<Longrightarrow>
   0 < d \<Longrightarrow> 0 < rd_depth q \<Longrightarrow> skip_loop d q = skip_loop (d - 1) (q\<lparr>rd_pos := rd_pos r'\<rparr>)"
proof (induction kind acc b r arbitrary: ms r' q d rule: container_loop_induct [where c = c])
  case (error kind acc b r e r1)
  then show ?case by (simp add: container_loop_error)
next
  case (eof kind acc b r r1)
  then show ?case by (simp add: container_loop_eof)
next
  case (close kind acc b r r1)
  from skip_loop_turn [OF close(1,3-)] close(2) container_loop_close [OF close(1)] show ?case
    by auto
next
  case (refused kind acc b r t v k r1 e)
  then show ?case by (simp add: container_loop_refused)
next
  case (scalar kind acc b r t v r1)
  have l: "container_loop c kind (acc @ [(t, value_from v)]) (charge_local c b) r1 = (Inr ms, r')"
    using container_loop_scalar [OF scalar(1,2), of acc] scalar(4) by simp
  note f = next_ref_forward [OF scalar(1)]
  note ev = next_ref_event(2) [OF scalar(1) refl]
  have "skip_loop d (q\<lparr>rd_pos := rd_pos r1\<rparr>) =
      skip_loop (d - 1) (q\<lparr>rd_pos := rd_pos r1\<rparr>\<lparr>rd_pos := rd_pos r'\<rparr>)"
    using scalar(5-) ev f cursor_ok_forward [OF f]
    by (intro scalar(3) [OF l]) (auto simp: forward_def)
  with skip_loop_turn [OF scalar(1,5-)] show ?case by simp
next
  case (nested kind acc b r t k r1 r2)
  note f = next_ref_forward [OF nested(1)]
  note ev = next_ref_event(3) [OF nested(1) refl]
  note eq = container_loop_open [OF nested(1-3), of acc]
  obtain inner r3 where i: "container_loop c k [] (rd_budget r2) r2 = (Inr inner, r3)"
    and l: "container_loop c kind (acc @ [(t, build_container k inner)])
      (if c then rd_budget r3 else charge_local c b) r3 = (Inr ms, r')"
    using nested(6) unfolding eq by (auto split: prod.splits sum.splits)
  have r2: "rd_depth r2 = rd_depth r + 1" "rd_pos r2 = rd_pos r1" "rd_bytes r2 = rd_bytes r"
    "cursor_ok r2" "rd_depth r2 \<le> MAX_DEPTH"
    using ev nested(3) f cursor_ok_forward [OF f nested(7)]
    by (auto simp: forward_def cursor_ok_def addressable_def)
  have f3: "forward r2 r3" using container_loop_forward [OF i] .
  have d3: "rd_depth r3 = rd_depth r"
    using container_loop_tree [OF i r2(5)] r2(1) by (auto simp: grown_def)
  have "skip_loop (d + 1) (q\<lparr>rd_pos := rd_pos r1\<rparr>) =
      skip_loop (d + 1 - 1) (q\<lparr>rd_pos := rd_pos r1\<rparr>\<lparr>rd_pos := rd_pos r3\<rparr>)"
    using nested(8-) r2 by (intro nested(4) [OF i]) auto
  moreover have "skip_loop d (q\<lparr>rd_pos := rd_pos r3\<rparr>) =
      skip_loop (d - 1) (q\<lparr>rd_pos := rd_pos r3\<rparr>\<lparr>rd_pos := rd_pos r'\<rparr>)"
    using nested(8-) r2 d3 f3 cursor_ok_forward [OF f3 r2(4)]
    by (intro nested(5) [OF i l]) (auto simp: forward_def)
  ultimately show ?case
    using skip_loop_turn [OF nested(1,7-)] by simp
qed

end
