(* ===== verification/TLV_Properties.thy ===== *)
theory TLV_Properties
  imports TLV_Safety
begin

text \<open>
  The properties of the TLV codec: round trip, the writer's depth limit, the bounds on
  decoded trees, the equivalence of the reader's two paths, skipping and retagging. The
  codec is an instance of the byte-codec interface.
\<close>

section \<open>The codec as an instance of the interface\<close>

definition tlv_encode :: "tag \<times> tlv_value \<Rightarrow> bytes" where
  "tlv_encode tv = snd (write_value (fst tv) (snd tv) [])"

definition tlv_decode :: "bytes \<Rightarrow> tlv_error + ((tag \<times> tlv_value) \<times> bytes)" where
  "tlv_decode bs = (case read_value (reader_new bs) of
     (Inl e, r) \<Rightarrow> Inl e | (Inr tv, r) \<Rightarrow> Inr (tv, remaining r))"

definition tlv_wf :: "tag \<times> tlv_value \<Rightarrow> bool" where
  "tlv_wf tv \<longleftrightarrow> value_wf (snd tv) \<and> payloads_fit (snd tv) \<and>
     value_depth (snd tv) \<le> MAX_DEPTH \<and> value_count (snd tv) \<le> DEFAULT_ELEMENT_BUDGET"

lemma read_value_at:
  assumes "value_wf v" "payloads_fit v" "cursor_ok r" "remaining r = enc t v @ ys"
    and "rd_depth r + value_depth v \<le> MAX_DEPTH" "value_count v \<le> rd_budget r"
  shows "\<exists>r'. read_value r = (Inr (t, v), r') \<and> moved (length (enc t v)) r r' \<and>
    rd_depth r' = rd_depth r"
  using read_value_inner_at [OF assms(1-5), of True] read_value_inner_at [OF assms(1-5), of False]
    assms(6)
  by (auto simp: read_value_def Let_def)

lemma fresh_reader_at:
  assumes "length bs < 2 ^ 64"
  shows "cursor_ok (with_element_budget bs b)" "remaining (with_element_budget bs b) = bs"
    "rd_depth (with_element_budget bs b) = 0" "rd_budget (with_element_budget bs b) = b"
  using assms by (simp_all add: with_element_budget_def cursor_ok_def addressable_def remaining_def)

lemma reader_new_eq: "reader_new bs = with_element_budget bs DEFAULT_ELEMENT_BUDGET"
  by (simp add: reader_new_def with_element_budget_def)

lemma finish_at_top:
  "rd_depth r = 0 \<Longrightarrow> cursor_ok r \<Longrightarrow>
   fst (finish_reader r) = (if remaining r = [] then Inr () else Inl TrailingData)"
  by (subst finish_reader.simps) (auto simp: is_empty_def remaining_def cursor_ok_def)

interpretation tlv: byte_codec tlv_encode tlv_decode tlv_wf "\<lambda>bs. length bs < 2 ^ 64"
proof
  fix tv :: "tag \<times> tlv_value" and rest
  assume wf: "tlv_wf tv" and len: "length (tlv_encode tv @ rest) < 2 ^ 64"
  obtain t v where tv: "tv = (t, v)" by (cases tv)
  have enc: "tlv_encode tv = enc t v"
    using wf by (simp add: tlv_encode_def tlv_wf_def tv write_value_eq)
  let ?r = "reader_new (tlv_encode tv @ rest)"
  have at: "cursor_ok ?r" "remaining ?r = enc t v @ rest" "rd_depth ?r = 0"
    "rd_budget ?r = DEFAULT_ELEMENT_BUDGET"
    using fresh_reader_at [OF len] by (simp_all add: reader_new_eq enc)
  obtain r' where "read_value ?r = (Inr (t, v), r')" "moved (length (enc t v)) ?r r'"
    using read_value_at [of v ?r t rest] at wf by (auto simp: tlv_wf_def tv)
  with moved_remaining(1) [OF _ at(2,1)] show "tlv_decode (tlv_encode tv @ rest) = Inr (tv, rest)"
    by (simp add: tlv_decode_def tv)
qed

section \<open>Properties\<close>

text \<open>
  C1. TLV round trip. When the writer accepts a well-formed value tree, a reader on the
  written bytes followed by any further input, with a budget that covers the tree, returns
  exactly the tag and the tree, stands at the further input, and \<open>finish\<close> accepts if and
  only if there is none.
\<close>

theorem tlv_roundtrip:
  assumes "value_wf v" "payloads_fit v" "write_value t v [] = (Inr (), bs)"
    and "length (bs @ rest) < 2 ^ 64" "value_count v \<le> budget"
  shows "\<exists>r'. read_value (with_element_budget (bs @ rest) budget) = (Inr (t, v), r') \<and>
    remaining r' = rest \<and>
    fst (finish_reader r') = (if rest = [] then Inr () else Inl TrailingData)"
proof -
  have d: "value_depth v \<le> MAX_DEPTH"
    using write_at_depth_too_deep(1) [of v 0 t "[]"] assms(2,3)
    by (auto simp: write_value_def not_le [symmetric])
  with assms(2,3) have bs: "bs = enc t v" by (simp add: write_value_eq)
  note fr = fresh_reader_at [OF assms(4), of budget, unfolded bs]
  obtain r' where r': "read_value (with_element_budget (bs @ rest) budget) = (Inr (t, v), r')"
    "moved (length (enc t v)) (with_element_budget (enc t v @ rest) budget) r'" "rd_depth r' = 0"
    using read_value_at [OF assms(1,2) fr(1,2)] fr(3,4) d assms(5) by (auto simp: bs)
  from moved_remaining [OF r'(2) fr(2,1)] r' finish_at_top [of r'] show ?thesis by auto
qed

definition sample_value :: tlv_value where
  "sample_value = VStructure [(Context 1, VUint 300), (Context 2, VUtf8 [0x48, 0xC3, 0xA9]),
     (FullyQualified 1 2 3, VArray [VBool True, VInt (-2), VNull])]"

lemma sample_value_ok:
  "value_wf sample_value" "payloads_fit sample_value" "value_depth sample_value = 2"
  "value_count sample_value = 7"
  by (simp_all add: sample_value_def IS1_def utf8_cont_def)

theorem tlv_roundtrip_witness:
  "\<exists>bs r'. write_value Anonymous sample_value [] = (Inr (), bs) \<and> length (bs @ [7]) < 2 ^ 64 \<and>
     read_value (with_element_budget (bs @ [7]) 7) = (Inr (Anonymous, sample_value), r') \<and>
     remaining r' = [7]"
proof -
  have w: "write_value Anonymous sample_value [] = (Inr (), enc Anonymous sample_value)"
    using write_value_eq [of sample_value Anonymous "[]"] sample_value_ok by (simp add: MAX_DEPTH_def)
  have l: "length (enc Anonymous sample_value @ [7]) < 2 ^ 64"
    by (simp add: enc_def sample_value_def encode_tag_def uint_body_def int_body_def string_body_def
        fits_signed_def)
  from tlv_roundtrip [OF sample_value_ok(1,2) w l, of 7] sample_value_ok(4) w l show ?thesis by auto
qed

text \<open>
  The writer fails exactly on trees nested deeper than \<open>MAX_DEPTH\<close>, with
  \<open>ContainerTooDeep\<close>, and never touches the bytes emitted before.
\<close>

theorem write_value_depth:
  assumes "payloads_fit v"
  shows "fst (write_value t v out) = (if value_depth v \<le> MAX_DEPTH then Inr () else Inl ContainerTooDeep)
    \<and> take (length out) (snd (write_value t v out)) = out"
proof -
  obtain res out' where w: "write_value t v out = (res, out')" by fastforce
  then have "appends out out'"
    using keepsD [OF keeps_write(1)] by (simp add: write_value_def)
  then have "take (length out) out' = out" by (auto simp: appends_def)
  with w assms write_value_eq [of v t out] write_at_depth_too_deep(1) [of v 0 t out] show ?thesis
    by (auto simp: write_value_def not_le)
qed

theorem write_value_depth_witness:
  "fst (write_value Anonymous (((\<lambda>v. VArray [v]) ^^ 33) VNull) [9]) = Inl ContainerTooDeep"
proof -
  have "payloads_fit (((\<lambda>v. VArray [v]) ^^ 33) VNull)"
    "value_depth (((\<lambda>v. VArray [v]) ^^ 33) VNull) = 33"
    by (simp_all add: eval_nat_numeral)
  with write_value_depth [of "((\<lambda>v. VArray [v]) ^^ 33) VNull" Anonymous "[9]"] show ?thesis
    by (simp add: MAX_DEPTH_def)
qed

text \<open>
  C28. On any input whatever, a tree the reader returns has at most as many elements as the
  budget, nests at most \<open>MAX_DEPTH\<close> deep, holds only valid UTF-8 strings without a separator,
  and can be written back.
\<close>

theorem read_value_bounded:
  assumes "read_value (with_element_budget bs budget) = (Inr (t, v), r')"
  shows "value_count v \<le> budget \<and> value_depth v \<le> MAX_DEPTH \<and> value_wf v \<and>
    fst (write_value t v out) = Inr ()"
proof -
  have "rd_depth (with_element_budget bs budget) \<le> MAX_DEPTH"
    "rd_pos (with_element_budget bs budget) \<le> length (rd_bytes (with_element_budget bs budget))"
    by (simp_all add: with_element_budget_def)
  from read_value_tree [OF assms this] write_value_eq [of v t out] show ?thesis
    by (simp add: with_element_budget_def)
qed

theorem read_value_bounded_witness:
  "\<exists>r'. read_value (with_element_budget [0x15, 0x25, 0x01, 0x2C, 0x01, 0x18] 9) =
      (Inr (Anonymous, VStructure [(Context 1, VUint 300)]), r') \<and>
    value_count (VStructure [(Context 1, VUint 300)]) \<le> 9"
proof -
  have "write_value Anonymous (VStructure [(Context 1, VUint 300)]) [] =
      (Inr (), [0x15, 0x25, 0x01, 0x2C, 0x01, 0x18])"
    by (simp add: write_value_def MAX_DEPTH_def andthen_def start_structure_def write_tag_def
        put_uint_def put_scalar_def encode_tag_def end_container_def to_le_def nat_le_numeral)
  then obtain r' where r: "read_value (with_element_budget [0x15, 0x25, 0x01, 0x2C, 0x01, 0x18] 9) =
      (Inr (Anonymous, VStructure [(Context 1, VUint 300)]), r')"
    using tlv.decode_whole read_value_at [of "VStructure [(Context 1, VUint 300)]"
        "with_element_budget [0x15, 0x25, 0x01, 0x2C, 0x01, 0x18] 9" Anonymous "[]"]
      fresh_reader_at [of "[0x15, 0x25, 0x01, 0x2C, 0x01, 0x18]" 9]
      write_value_eq [of "VStructure [(Context 1, VUint 300)]" Anonymous "[]"]
    by (auto simp: MAX_DEPTH_def)
  from r read_value_bounded [OF r] show ?thesis by blast
qed

text \<open>
  C32. The budget fast path is unobservable: every sequence of reads through \<open>read_value\<close>
  gives the same results, errors included, as the implementation that charges every
  element.
\<close>

theorem read_value_fast_path:
  "read_seq read_value n r = read_seq (read_value_inner True) n r"
  using read_seq_agree [of "rd_budget r" r n] by (simp add: set_budget_same)

text \<open>
  C33. Skipping a container that could be read leaves the cursor and the depth exactly where
  reading it would, and the span it reports covers the element's bytes from its control
  byte on.
\<close>

theorem skip_agrees_with_read:
  assumes "next_ref r = (Inr (Some (ContainerStartRef t k)), r1)" "cursor_ok r"
    and "read_container_body c k r1 = (Inr v, r2)"
  shows "\<exists>span r3. skip_container_span r1 = (Inr span, r3) \<and>
    rd_pos r3 = rd_pos r2 \<and> rd_depth r3 = rd_depth r2 \<and>
    span_bytes (span_full span) r3 = take (rd_pos r2 - rd_pos r) (drop (rd_pos r) (rd_bytes r))"
proof -
  note ev = next_ref_event(3) [OF assms(1) refl]
  note f1 = next_ref_forward [OF assms(1)]
  note c1 = cursor_ok_forward [OF f1 assms(2)]
  obtain ms where l: "container_loop c k [] (rd_budget r1) r1 = (Inr ms, r2)"
    using assms(3) by (auto simp: read_container_body_def andthen_eq_Inr)
  have d: "rd_depth r2 = rd_depth r1 - 1"
    using container_loop_tree [OF l] ev by (auto simp: grown_def)
  have "skip_loop 1 r1 = skip_loop 0 (r1\<lparr>rd_pos := rd_pos r2\<rparr>)"
    using skip_loop_agrees [OF l c1, of r1 1] ev by simp
  then have s: "skip_container_body r1 = (Inr (), r1\<lparr>rd_pos := rd_pos r2, rd_depth := rd_depth r1 - 1\<rparr>)"
    by (simp add: skip_container_body_def andthen_def skip_loop.simps [of 0])
  obtain body where h: "rd_last_was_start r1"
    "rd_last_span r1 = Some \<lparr>span_start = rd_pos r, span_body_start = body, span_end = rd_pos r1\<rparr>"
    using next_ref_start_span [OF assms(1)] by blast
  have "forward r1 r2" using container_loop_forward [OF l] .
  then have "rd_pos r \<le> rd_pos r2" "rd_pos r2 \<le> length (rd_bytes r1)" "rd_bytes r1 = rd_bytes r"
    using f1 c1 by (auto simp: forward_def cursor_ok_def)
  moreover have "skip_container_span r1 =
      (Inr \<lparr>span_start = rd_pos r, span_body_start = body, span_end = rd_pos r2\<rparr>,
       r1\<lparr>rd_pos := rd_pos r2, rd_depth := rd_depth r1 - 1,
          rd_last_span := Some \<lparr>span_start = rd_pos r, span_body_start = body, span_end = rd_pos r2\<rparr>,
          rd_last_was_start := False\<rparr>)"
    using s h by (simp add: skip_container_span_def andthen_Inr Let_def)
  ultimately show ?thesis
    using d by (simp add: span_bytes_def span_full_def)
qed

lemma sample_events:
  fixes r :: tlv_reader
  assumes "r = with_element_budget (enc Anonymous sample_value @ [7]) 0"
  shows "cursor_ok r \<and> (\<exists>r1 v r2. next_ref r = (Inr (Some (ContainerStartRef Anonymous KStructure)), r1) \<and>
    read_container_body False KStructure r1 = (Inr v, r2) \<and> rd_pos r2 = length (enc Anonymous sample_value))"
proof -
  have l: "length (enc Anonymous sample_value @ [7]) < 2 ^ 64"
    by (simp add: enc_def sample_value_def encode_tag_def uint_body_def int_body_def string_body_def
        fits_signed_def)
  note fr = fresh_reader_at [OF l, of 0, folded assms]
  let ?ms = "[(Context 1, VUint 300), (Context 2, VUtf8 [0x48, 0xC3, 0xA9]),
     (FullyQualified 1 2 3, VArray [VBool True, VInt (-2), VNull])]"
  have rem: "remaining r = encode_tag Anonymous ET_STRUCTURE @ enc_members ?ms @ 24 # [7]"
    using fr(2) by (simp add: enc_def sample_value_def del: enc_members.simps)
  obtain r1 where r1: "next_ref r = (Inr (Some (ContainerStartRef Anonymous KStructure)), r1)"
    "moved (length (encode_tag Anonymous ET_STRUCTURE)) r r1" "rd_depth r1 = rd_depth r + 1"
    using next_ref_open_at [OF _ _ fr(1) rem] fr(3)
    by (auto simp: kind_of_def MAX_DEPTH_def simp del: enc_members.simps)
  note at1 = moved_remaining [OF r1(2) rem fr(1)]
  have "reads_rest KStructure ?ms (enc_members ?ms) (members_depth ?ms) (members_count ?ms)"
    using sample_value_ok(1,2) by (intro reads_tree(2)) (simp_all add: sample_value_def)
  from reads_restD [OF this at1(2), of "[7]" False "rd_budget r1" "[]"] at1(1) r1(3) fr(3)
  obtain r2 where "container_loop False KStructure [] (rd_budget r1) r1 = (Inr ?ms, r2)"
    "moved (length (enc_members ?ms) + 1) r1 r2"
    by (auto simp: MAX_DEPTH_def simp del: enc_members.simps)
  with r1 fr assms show ?thesis
    by (auto simp: read_container_body_def andthen_Inr moved_def enc_def sample_value_def
        with_element_budget_def simp del: enc_members.simps)
qed

theorem skip_agrees_with_read_witness:
  "\<exists>r1 span r3. next_ref (with_element_budget (enc Anonymous sample_value @ [7]) 0) =
       (Inr (Some (ContainerStartRef Anonymous KStructure)), r1) \<and>
     skip_container_span r1 = (Inr span, r3) \<and>
     span_bytes (span_full span) r3 = enc Anonymous sample_value"
proof -
  let ?r = "with_element_budget (enc Anonymous sample_value @ [7]) 0"
  obtain r1 v r2 where e: "next_ref ?r = (Inr (Some (ContainerStartRef Anonymous KStructure)), r1)"
    "cursor_ok ?r" "read_container_body False KStructure r1 = (Inr v, r2)"
    "rd_pos r2 = length (enc Anonymous sample_value)"
    using sample_events [OF refl] by blast
  from skip_agrees_with_read [OF e(1-3)] e(1,4) show ?thesis
    by (auto simp: with_element_budget_def)
qed

lemma put_preencoded_enc:
  assumes "payloads_fit v"
  shows "put_preencoded t (enc Anonymous v) out = (Inr (), out @ enc t v)"
proof -
  let ?et = "fst (value_body v)"
  have e: "enc Anonymous v = (TC_ANONYMOUS OR ?et) # snd (value_body v)"
    by (simp add: enc_split encode_tag_def)
  have "?et AND 224 = 0"
    by (rule control_bits(3)) (rule value_body_type(1))
  then show ?thesis
    using value_body_type(1,2) [of v] e
    by (simp add: put_preencoded_def write_tag_def andthen_def enc_split)
qed

text \<open>
  Splicing a pre-encoded element under another tag is the same as writing the element's
  value under that tag: \<open>put_preencoded\<close> re-tags without re-encoding.
\<close>

theorem put_preencoded_retags:
  assumes "payloads_fit v" "write_value Anonymous v [] = (Inr (), element)"
  shows "put_preencoded t element out = write_value t v out"
proof -
  have d: "value_depth v \<le> MAX_DEPTH"
    using write_at_depth_too_deep(1) [of v 0 Anonymous "[]"] assms
    by (auto simp: write_value_def not_le [symmetric])
  have "element = enc Anonymous v"
    using assms(2) write_value_eq [OF assms(1) d, of Anonymous "[]"] by simp
  then show ?thesis
    using write_value_eq [OF assms(1) d, of t out] put_preencoded_enc [OF assms(1)] by simp
qed

theorem put_preencoded_retags_witness:
  "put_preencoded (Context 3) [0x05, 0x2C, 0x01] [1] = write_value (Context 3) (VUint 300) [1]"
  by (rule put_preencoded_retags)
    (simp_all add: write_value_def put_uint_def put_scalar_def encode_tag_def to_le_def nat_le_numeral)

end
