(* ===== verification/Setup_Base38.thy ===== *)
theory Setup_Base38
  imports Matter_Prelude
begin

text \<open>
  The Base38 codec of onboarding QR codes,
  \<open>crates/matter-commissioning/src/setup/base38.rs\<close>, with the error type of
  \<open>setup/mod.rs\<close>. Strings are their UTF-8 bytes. The chunk values stay below
  \<open>38 ^ 5 < 2 ^ 32\<close>, so the \<open>u32\<close>/\<open>u64\<close> arithmetic of the source is exact and written on
  naturals.
\<close>

section \<open>Errors of the setup module\<close>

text \<open>Characters are carried as the offending byte; the field name of \<open>FieldOutOfRange\<close> is a flag.\<close>

datatype manual_field = FVendorId | FProductId

datatype setup_error =
    MissingMtPrefix
  | InvalidBase38Char byte nat
  | Base38ChunkOutOfRange nat
  | QrPayloadWrongLength nat nat
  | QrTrailingBytes nat
  | ManualCodeWrongLength nat
  | ManualCodeNonDigit byte nat
  | ManualCodeBadChecksum
  | FieldOutOfRange manual_field u32
  | DiscriminatorOutOfRange u16
  | ShortDiscriminatorOutOfRange u8
  | PasscodeOutOfRange u32
  | PasscodeDisallowedTrivial u32
  | CommissioningFlowReserved u8
  | QrRequiresVidPid
  | CustomFlowUnsupported

section \<open>Alphabet\<close>

text \<open>\<open>0123456789ABCDEFGHIJKLMNOPQRSTUVWXYZ-.\<close> in ASCII.\<close>

definition ALPHABET :: bytes where
  "ALPHABET =
     [0x30, 0x31, 0x32, 0x33, 0x34, 0x35, 0x36, 0x37, 0x38, 0x39,
      0x41, 0x42, 0x43, 0x44, 0x45, 0x46, 0x47, 0x48, 0x49, 0x4A, 0x4B, 0x4C, 0x4D,
      0x4E, 0x4F, 0x50, 0x51, 0x52, 0x53, 0x54, 0x55, 0x56, 0x57, 0x58, 0x59, 0x5A,
      0x2D, 0x2E]"

text \<open>\<open>iter().position(..)\<close>.\<close>

fun position_of :: "byte \<Rightarrow> bytes \<Rightarrow> nat option" where
  "position_of b [] = None"
| "position_of b (c # cs) = (if c = b then Some 0 else map_option Suc (position_of b cs))"

definition alphabet_index :: "byte \<Rightarrow> nat \<Rightarrow> setup_error + nat" where
  "alphabet_index b pos = ok_or (position_of b ALPHABET) (InvalidBase38Char b pos)"

section \<open>Encoding and decoding\<close>

fun push_chars :: "nat \<Rightarrow> nat \<Rightarrow> bytes" where
  "push_chars v 0 = []"
| "push_chars v (Suc count) = ALPHABET ! (v mod 38) # push_chars (v div 38) count"

text \<open>\<open>as_chunks::<3>\<close>: full chunks of three bytes and the remainder.\<close>

fun base38_encode :: "bytes \<Rightarrow> bytes" where
  "base38_encode (b0 # b1 # b2 # rest) =
     push_chars (unat b0 + 256 * unat b1 + 65536 * unat b2) 5 @ base38_encode rest"
| "base38_encode [] = []"
| "base38_encode [b0] = push_chars (unat b0) 2"
| "base38_encode [b0, b1] = push_chars (unat b0 + 256 * unat b1) 4"

text \<open>The inner loop runs over the chunk in reverse, so the last bad character is reported.\<close>

fun chunk_value :: "nat \<Rightarrow> bytes \<Rightarrow> setup_error + nat" where
  "chunk_value pos [] = Inr 0"
| "chunk_value pos (c # cs) =
     try_bind (chunk_value (pos + 1) cs) (\<lambda>v.
     try_bind (alphabet_index c pos) (\<lambda>idx. Inr (v * 38 + idx)))"

definition byte_count :: "nat \<Rightarrow> nat option" where
  "byte_count n = (if n = 5 then Some 3 else if n = 4 then Some 2 else if n = 2 then Some 1 else None)"

function base38_decode_from :: "nat \<Rightarrow> bytes \<Rightarrow> setup_error + bytes" where
  "base38_decode_from i s =
     (if s = [] then Inr []
      else let n = min 5 (length s); chunk = take n s in
        try_bind (chunk_value i chunk) (\<lambda>v.
        case byte_count n of
          None \<Rightarrow> Inl (InvalidBase38Char 0x3F (i + n - 1))
        | Some count \<Rightarrow>
            if v div 256 ^ count \<noteq> 0 then Inl (Base38ChunkOutOfRange i)
            else try_bind (base38_decode_from (i + n) (drop n s)) (\<lambda>rest.
                 Inr (nat_le count v @ rest))))"
  by pat_completeness auto

termination base38_decode_from
  by (relation "measure (\<lambda>(i, s). length s)") auto

declare base38_decode_from.simps [simp del]

definition base38_decode :: "bytes \<Rightarrow> setup_error + bytes" where
  "base38_decode s = base38_decode_from 0 s"

section \<open>Correctness\<close>

lemma position_of_nth:
  "distinct cs \<Longrightarrow> i < length cs \<Longrightarrow> position_of (cs ! i) cs = Some i"
proof (induction cs arbitrary: i)
  case (Cons c cs)
  then show ?case by (cases i) (auto simp: nth_eq_iff_index_eq)
qed simp

lemma position_of_Some: "position_of b cs = Some i \<Longrightarrow> i < length cs \<and> cs ! i = b"
  by (induction cs arbitrary: i) (auto split: if_splits)

lemma alphabet_facts: "length ALPHABET = 38" "distinct ALPHABET"
  by (simp_all add: ALPHABET_def)

lemma alphabet_index_nth [simp]: "alphabet_index (ALPHABET ! (v mod 38)) pos = Inr (v mod 38)"
  by (simp add: alphabet_index_def position_of_nth alphabet_facts)

lemma alphabet_index_Inr: "alphabet_index b pos = Inr i \<Longrightarrow> i < 38 \<and> ALPHABET ! i = b"
  using position_of_Some [of b ALPHABET i]
  by (cases "position_of b ALPHABET") (auto simp: alphabet_index_def alphabet_facts)

lemma length_push_chars [simp]: "length (push_chars v n) = n"
  by (induction n arbitrary: v) auto

lemma chunk_value_push_chars: "chunk_value pos (push_chars v n) = Inr (v mod 38 ^ n)"
proof (induction n arbitrary: pos v)
  case (Suc n)
  have "v div 38 mod 38 ^ n * 38 + v mod 38 = v mod 38 ^ Suc n"
    by (simp add: mod_mult2_eq)
  with Suc show ?case by simp
qed simp

lemma chunk_value_Inr:
  "chunk_value pos cs = Inr v \<Longrightarrow> v < 38 ^ length cs \<and> push_chars v (length cs) = cs"
proof (induction cs arbitrary: pos v)
  case (Cons c cs)
  then obtain w i where w: "chunk_value (pos + 1) cs = Inr w" "alphabet_index c pos = Inr i"
    "v = w * 38 + i"
    by (auto simp: try_bind_eq_Inr)
  with Cons.IH [OF w(1)] alphabet_index_Inr [OF w(2)] show ?case by simp
qed simp

lemma nat_le_3: "nat_le 3 (unat b0 + 256 * unat b1 + 65536 * unat b2) = [b0, b1, b2]"
  and nat_le_2: "nat_le 2 (unat b0 + 256 * unat b1) = [b0, b1]"
  and nat_le_1': "nat_le 1 (unat b0) = [b0]"
  for b0 b1 b2 :: byte
  using nat_le_le_nat [of "[b0, b1, b2]" 3] nat_le_le_nat [of "[b0, b1]" 2]
    nat_le_le_nat [of "[b0]" 1]
  by (simp_all add: algebra_simps)

lemma byte_bound: "unat (b :: byte) < 256"
  using unsigned_less [of b] by simp

lemma decode_chunk:
  assumes "byte_count n = Some k" "v < 256 ^ k" "(256::nat) ^ k \<le> 38 ^ n" "n = 5 \<or> rest = []"
  shows "base38_decode_from i (push_chars v n @ rest) =
    try_bind (base38_decode_from (i + n) rest) (\<lambda>r. Inr (nat_le k v @ r))"
proof -
  have n: "n > 0" "n \<le> 5" using assms(1) by (auto simp: byte_count_def split: if_splits)
  have m: "min 5 (length (push_chars v n @ rest)) = n" using assms(4) n by auto
  have v: "v mod 38 ^ n = v" "v div 256 ^ k = 0" using assms(2,3) by auto
  have "push_chars v n \<noteq> []" using n(1) length_push_chars [of v n] by force
  with n m v assms(1) show ?thesis
    by (subst base38_decode_from.simps) (auto simp: Let_def chunk_value_push_chars)
qed

lemma base38_decode_encode_from: "base38_decode_from i (base38_encode bs) = Inr bs"
proof (induction bs arbitrary: i rule: base38_encode.induct)
  case (1 b0 b1 b2 rest)
  have "unat b0 + 256 * unat b1 + 65536 * unat b2 < 256 ^ 3"
    using byte_bound [of b0] byte_bound [of b1] byte_bound [of b2] by simp
  with decode_chunk [of 5 3 _ "base38_encode rest" i] 1 show ?case
    by (simp add: byte_count_def nat_le_3)
next
  case (3 b0)
  with decode_chunk [of 2 1 "unat b0" "[]" i] byte_bound [of b0] show ?case
    by (simp add: byte_count_def base38_decode_from.simps [of _ "[]"])
next
  case (4 b0 b1)
  have "unat b0 + 256 * unat b1 < 256 ^ 2"
    using byte_bound [of b0] byte_bound [of b1] by simp
  with decode_chunk [of 4 2 _ "[]" i] show ?case
    by (simp add: byte_count_def base38_decode_from.simps [of _ "[]"] nat_le_2)
qed (simp add: base38_decode_from.simps)

lemma base38_encode_cong_chunk:
  assumes "length bs = 3"
  shows "base38_encode (bs @ rest) = push_chars (le_nat bs) 5 @ base38_encode rest"
proof -
  obtain b0 b1 b2 where "bs = [b0, b1, b2]"
    using assms by (auto simp: numeral_3_eq_3 length_Suc_conv)
  then show ?thesis by (simp add: algebra_simps)
qed

lemma base38_encode_tail:
  "length bs = 1 \<Longrightarrow> base38_encode bs = push_chars (le_nat bs) 2"
  "length bs = 2 \<Longrightarrow> base38_encode bs = push_chars (le_nat bs) 4"
  by (auto simp: length_Suc_conv numeral_2_eq_2)

lemma base38_encode_decode_from: "base38_decode_from i s = Inr bs \<Longrightarrow> base38_encode bs = s"
proof (induction i s arbitrary: bs rule: base38_decode_from.induct)
  case (1 i s)
  show ?case
  proof (cases "s = []")
    case True
    with 1(2) show ?thesis by (simp add: base38_decode_from.simps)
  next
    case False
    define n where "n = min 5 (length s)"
    obtain v k r where v: "chunk_value i (take n s) = Inr v" and k: "byte_count n = Some k"
      and fit: "v div 256 ^ k = 0" and r: "base38_decode_from (i + n) (drop n s) = Inr r"
      and bs: "bs = nat_le k v @ r"
      using 1(2) False
      by (subst (asm) base38_decode_from.simps)
        (auto simp: Let_def n_def try_bind_eq_Inr split: option.splits if_splits)
    have lt: "length (take n s) = n" by (simp add: n_def)
    have IH: "base38_encode r = drop n s"
      using 1(1) [OF False n_def refl k] fit r by simp
    have ch: "push_chars v n = take n s" using chunk_value_Inr [OF v] lt by simp
    have lv: "le_nat (nat_le k v) = v"
      using fit by (simp add: le_nat_nat_le div_eq_0_iff)
    have "n = 5 \<and> k = 3 \<or> n = 4 \<and> k = 2 \<or> n = 2 \<and> k = 1"
      using k by (auto simp: byte_count_def split: if_splits)
    moreover have "drop n s = []" if "n < 5" using that by (simp add: n_def)
    moreover have "r = []" if "drop n s = []"
      using r that by (simp add: base38_decode_from.simps)
    ultimately have "base38_encode bs = push_chars v n @ drop n s"
      using IH lv base38_encode_cong_chunk [of "nat_le 3 v" r] base38_encode_tail [of "nat_le k v"]
      unfolding bs by auto
    with ch show ?thesis by simp
  qed
qed

text \<open>
  Base38 decoding accepts exactly the encodings: a string decodes to some bytes if and
  only if it is the encoding of those bytes. So decoding inverts encoding, and no two
  strings decode to the same payload.
\<close>

theorem base38_decode_iff: "base38_decode s = Inr bs \<longleftrightarrow> s = base38_encode bs"
  using base38_decode_encode_from base38_encode_decode_from by (auto simp: base38_decode_def)

end
