(* ===== verification/Setup_Verhoeff.thy ===== *)
theory Setup_Verhoeff
  imports Matter_Prelude
begin

text \<open>
  The Verhoeff check digit of manual pairing codes,
  \<open>crates/matter-commissioning/src/setup/verhoeff.rs\<close>. Strings are their bytes; the table
  entries, all below ten, are naturals. What makes the scheme detect errors is a group law
  on the digits and a family of permutations; the interface \<open>check_digit_scheme\<close> states it,
  and the source's tables are its instance.
\<close>

section \<open>The scheme\<close>

text \<open>
  \<open>opr\<close> is a group operation on the digits with neutral element zero, \<open>perm i\<close> permutes the
  digits at position \<open>i\<close>, and swapping two neighbours changes their product.
\<close>

locale check_digit_scheme =
  fixes opr :: "nat \<Rightarrow> nat \<Rightarrow> nat"
    and perm :: "nat \<Rightarrow> nat \<Rightarrow> nat"
    and invs :: "nat \<Rightarrow> nat"
  assumes closed: "a < 10 \<Longrightarrow> b < 10 \<Longrightarrow> opr a b < 10"
    and assoc: "a < 10 \<Longrightarrow> b < 10 \<Longrightarrow> c < 10 \<Longrightarrow> opr (opr a b) c = opr a (opr b c)"
    and left_neutral: "a < 10 \<Longrightarrow> opr 0 a = a"
    and right_neutral: "a < 10 \<Longrightarrow> opr a 0 = a"
    and invs_closed: "a < 10 \<Longrightarrow> invs a < 10"
    and left_inverse: "a < 10 \<Longrightarrow> opr (invs a) a = 0"
    and perm_closed: "a < 10 \<Longrightarrow> perm i a < 10"
    and perm_inject: "a < 10 \<Longrightarrow> b < 10 \<Longrightarrow> perm i a = perm i b \<Longrightarrow> a = b"
    and perm_first: "a < 10 \<Longrightarrow> perm 0 a = a"
    and perm_anti: "a < 10 \<Longrightarrow> b < 10 \<Longrightarrow>
      opr (perm i a) (perm (Suc i) b) = opr (perm i b) (perm (Suc i) a) \<Longrightarrow> a = b"
begin

fun checksum :: "nat \<Rightarrow> nat \<Rightarrow> nat list \<Rightarrow> nat" where
  "checksum i c [] = c"
| "checksum i c (d # ds) = checksum (Suc i) (opr c (perm i d)) ds"

lemma left_cancel: "a < 10 \<Longrightarrow> b < 10 \<Longrightarrow> c < 10 \<Longrightarrow> opr a b = opr a c \<Longrightarrow> b = c"
  by (metis assoc invs_closed left_inverse left_neutral)

lemma right_inverse: "a < 10 \<Longrightarrow> opr a (invs a) = 0"
  by (metis assoc invs_closed left_inverse left_cancel right_neutral closed)

lemma right_cancel: "a < 10 \<Longrightarrow> b < 10 \<Longrightarrow> c < 10 \<Longrightarrow> opr b a = opr c a \<Longrightarrow> b = c"
  by (metis assoc invs_closed right_inverse right_neutral)

lemma checksum_closed: "c < 10 \<Longrightarrow> \<forall>d\<in>set ds. d < 10 \<Longrightarrow> checksum i c ds < 10"
  by (induction ds arbitrary: i c) (auto simp: closed perm_closed)

lemma checksum_split:
  "c < 10 \<Longrightarrow> \<forall>d\<in>set ds. d < 10 \<Longrightarrow> checksum i c ds = opr c (checksum i 0 ds)"
proof (induction ds arbitrary: i c)
  case Nil
  then show ?case by (simp add: right_neutral)
next
  case (Cons d ds)
  have p: "perm i d < 10" using Cons.prems by (simp add: perm_closed)
  have s: "checksum (Suc i) 0 ds < 10" using Cons.prems by (simp add: checksum_closed)
  have "checksum i c (d # ds) = opr (opr c (perm i d)) (checksum (Suc i) 0 ds)"
    using Cons.IH [of "opr c (perm i d)" "Suc i"] Cons.prems p by (simp add: closed)
  also have "\<dots> = opr c (opr (perm i d) (checksum (Suc i) 0 ds))"
    using Cons.prems p s by (simp add: assoc)
  also have "opr (perm i d) (checksum (Suc i) 0 ds) = checksum (Suc i) (perm i d) ds"
    using Cons.IH [of "perm i d" "Suc i", symmetric] p Cons.prems by simp
  finally show ?case using p by (simp add: left_neutral)
qed

lemma checksum_append: "checksum i c (xs @ ys) = checksum (i + length xs) (checksum i c xs) ys"
  by (induction xs arbitrary: i c) auto

text \<open>A right factor cancels: what precedes decides whether two codes have the same checksum.\<close>

lemma checksum_cancel:
  assumes "a < 10" "b < 10" "\<forall>d\<in>set ds. d < 10" "checksum i a ds = checksum i b ds"
  shows "a = b"
  using assms checksum_split [of a ds i] checksum_split [of b ds i] checksum_closed [of 0 ds i]
    right_cancel [of "checksum i 0 ds" a b]
  by simp

text \<open>The digit that makes the whole checksum zero, placed at position zero.\<close>

lemma check_digit_verifies:
  assumes "\<forall>d\<in>set ds. d < 10"
  shows "checksum 0 0 (invs (checksum 1 0 ds) # ds) = 0"
proof -
  have c: "checksum 1 0 ds < 10" using assms by (simp add: checksum_closed)
  then have "checksum 0 0 (invs (checksum 1 0 ds) # ds) = checksum 1 (invs (checksum 1 0 ds)) ds"
    by (simp add: perm_first left_neutral invs_closed)
  also have "\<dots> = opr (invs (checksum 1 0 ds)) (checksum 1 0 ds)"
    using assms c by (intro checksum_split) (auto simp: invs_closed)
  finally show ?thesis using c by (simp add: left_inverse)
qed

lemma detects_substitution:
  assumes "\<forall>d\<in>set (xs @ [a, b] @ ys). d < 10"
    and "checksum i 0 (xs @ [a] @ ys) = checksum i 0 (xs @ [b] @ ys)"
  shows "a = b"
proof -
  let ?c = "checksum i 0 xs"
  have c: "?c < 10" using assms(1) by (simp add: checksum_closed)
  have d: "a < 10" "b < 10" "\<forall>d\<in>set ys. d < 10" using assms(1) by auto
  have "checksum (Suc (i + length xs)) (opr ?c (perm (i + length xs) a)) ys =
      checksum (Suc (i + length xs)) (opr ?c (perm (i + length xs) b)) ys"
    using assms(2) by (simp add: checksum_append)
  from checksum_cancel [OF _ _ d(3) this]
  have "opr ?c (perm (i + length xs) a) = opr ?c (perm (i + length xs) b)"
    using c d by (simp add: closed perm_closed)
  then show ?thesis
    using c d by (metis left_cancel perm_closed perm_inject)
qed

lemma detects_transposition:
  assumes "\<forall>d\<in>set (xs @ [a, b] @ ys). d < 10"
    and "checksum i 0 (xs @ [a, b] @ ys) = checksum i 0 (xs @ [b, a] @ ys)"
  shows "a = b"
proof -
  let ?c = "checksum i 0 xs" and ?j = "i + length xs"
  have c: "?c < 10" using assms(1) by (simp add: checksum_closed)
  have d: "a < 10" "b < 10" "\<forall>d\<in>set ys. d < 10" using assms(1) by auto
  have "checksum (Suc (Suc ?j)) (opr (opr ?c (perm ?j a)) (perm (Suc ?j) b)) ys =
      checksum (Suc (Suc ?j)) (opr (opr ?c (perm ?j b)) (perm (Suc ?j) a)) ys"
    using assms(2) by (simp add: checksum_append)
  from checksum_cancel [OF _ _ d(3) this]
  have "opr (opr ?c (perm ?j a)) (perm (Suc ?j) b) = opr (opr ?c (perm ?j b)) (perm (Suc ?j) a)"
    using c d by (simp add: closed perm_closed)
  then have "opr ?c (opr (perm ?j a) (perm (Suc ?j) b)) = opr ?c (opr (perm ?j b) (perm (Suc ?j) a))"
    using c d by (simp add: assoc perm_closed)
  then have "opr (perm ?j a) (perm (Suc ?j) b) = opr (perm ?j b) (perm (Suc ?j) a)"
    using c d by (metis left_cancel perm_closed closed)
  then show ?thesis using d by (simp add: perm_anti)
qed

end

section \<open>The source's tables\<close>

definition verhoeff_D :: "nat list list" where
  "verhoeff_D =
    [[0, 1, 2, 3, 4, 5, 6, 7, 8, 9],
     [1, 2, 3, 4, 0, 6, 7, 8, 9, 5],
     [2, 3, 4, 0, 1, 7, 8, 9, 5, 6],
     [3, 4, 0, 1, 2, 8, 9, 5, 6, 7],
     [4, 0, 1, 2, 3, 9, 5, 6, 7, 8],
     [5, 9, 8, 7, 6, 0, 4, 3, 2, 1],
     [6, 5, 9, 8, 7, 1, 0, 4, 3, 2],
     [7, 6, 5, 9, 8, 2, 1, 0, 4, 3],
     [8, 7, 6, 5, 9, 3, 2, 1, 0, 4],
     [9, 8, 7, 6, 5, 4, 3, 2, 1, 0]]"

definition verhoeff_P :: "nat list list" where
  "verhoeff_P =
    [[0, 1, 2, 3, 4, 5, 6, 7, 8, 9],
     [1, 5, 7, 6, 2, 8, 3, 0, 9, 4],
     [5, 8, 0, 3, 7, 9, 6, 1, 4, 2],
     [8, 9, 1, 6, 0, 4, 3, 5, 2, 7],
     [9, 4, 5, 3, 1, 2, 6, 8, 7, 0],
     [4, 2, 8, 6, 5, 7, 3, 9, 0, 1],
     [2, 7, 9, 3, 8, 0, 6, 4, 1, 5],
     [7, 0, 4, 6, 9, 1, 3, 2, 5, 8]]"

definition verhoeff_INV :: "nat list" where
  "verhoeff_INV = [0, 4, 3, 2, 1, 5, 6, 7, 8, 9]"

definition is_ascii_digit :: "byte \<Rightarrow> bool" where
  "is_ascii_digit b \<longleftrightarrow> 0x30 \<le> b \<and> b \<le> 0x39"

definition ascii_digit_to_u8 :: "byte \<Rightarrow> nat" where
  "ascii_digit_to_u8 b = (if is_ascii_digit b then unat b - 0x30 else 0)"

text \<open>The loop of both functions, from position \<open>i\<close> on; the string comes reversed.\<close>

fun verhoeff_loop :: "nat \<Rightarrow> nat \<Rightarrow> bytes \<Rightarrow> nat" where
  "verhoeff_loop i c [] = c"
| "verhoeff_loop i c (ch # chs) =
     verhoeff_loop (i + 1) (verhoeff_D ! c ! (verhoeff_P ! (i mod 8) ! ascii_digit_to_u8 ch)) chs"

definition check_digit :: "bytes \<Rightarrow> nat" where
  "check_digit digits = verhoeff_INV ! verhoeff_loop 1 0 (rev digits)"

definition verify :: "bytes \<Rightarrow> bool" where
  "verify digits_with_check \<longleftrightarrow> verhoeff_loop 0 0 (rev digits_with_check) = 0"

section \<open>The tables form a check digit scheme\<close>

definition digits10 :: "nat list" where
  "digits10 = [0, 1, 2, 3, 4, 5, 6, 7, 8, 9]"

lemma digits10_all: "list_all Q digits10 \<Longrightarrow> a < 10 \<Longrightarrow> Q a"
  by (simp add: digits10_def list_all_iff) (simp add: less_Suc_eq numeral_eq_Suc; blast)

lemma positions8_all: "list_all Q [0, 1, 2, 3, 4, 5, 6, 7 :: nat] \<Longrightarrow> a < 8 \<Longrightarrow> Q a"
  by (simp add: list_all_iff) (simp add: less_Suc_eq numeral_eq_Suc; blast)

lemma D_closed_table: "list_all (\<lambda>a. list_all (\<lambda>b. verhoeff_D ! a ! b < 10) digits10) digits10"
  by code_simp

lemma D_assoc_table:
  "list_all (\<lambda>a. list_all (\<lambda>b. list_all (\<lambda>c.
     verhoeff_D ! (verhoeff_D ! a ! b) ! c = verhoeff_D ! a ! (verhoeff_D ! b ! c))
     digits10) digits10) digits10"
  by code_simp

lemma D_unit_table: "list_all (\<lambda>a. verhoeff_D ! 0 ! a = a \<and> verhoeff_D ! a ! 0 = a) digits10"
  by code_simp

lemma INV_table:
  "list_all (\<lambda>a. verhoeff_INV ! a < 10 \<and> verhoeff_D ! (verhoeff_INV ! a) ! a = 0) digits10"
  by code_simp

lemma P_table:
  "list_all (\<lambda>i. list_all (\<lambda>a. verhoeff_P ! i ! a < 10 \<and> list_all (\<lambda>b.
     verhoeff_P ! i ! a = verhoeff_P ! i ! b \<longrightarrow> a = b) digits10) digits10) [0, 1, 2, 3, 4, 5, 6, 7]"
  by code_simp

lemma P_first_table: "list_all (\<lambda>a. verhoeff_P ! 0 ! a = a) digits10"
  by code_simp

lemma P_anti_table:
  "list_all (\<lambda>i. list_all (\<lambda>a. list_all (\<lambda>b.
     verhoeff_D ! (verhoeff_P ! i ! a) ! (verhoeff_P ! (Suc i mod 8) ! b) =
     verhoeff_D ! (verhoeff_P ! i ! b) ! (verhoeff_P ! (Suc i mod 8) ! a) \<longrightarrow> a = b)
     digits10) digits10) [0, 1, 2, 3, 4, 5, 6, 7]"
  by code_simp

lemma D_closed: "a < 10 \<Longrightarrow> b < 10 \<Longrightarrow> verhoeff_D ! a ! b < 10"
  using D_closed_table by (blast dest: digits10_all)

lemma D_assoc:
  assumes "a < 10" "b < 10" "c < 10"
  shows "verhoeff_D ! (verhoeff_D ! a ! b) ! c = verhoeff_D ! a ! (verhoeff_D ! b ! c)"
  by (rule digits10_all [OF digits10_all [OF digits10_all [OF D_assoc_table assms(1)] assms(2)]
        assms(3)])

lemma D_unit: "a < 10 \<Longrightarrow> verhoeff_D ! 0 ! a = a \<and> verhoeff_D ! a ! 0 = a"
  using D_unit_table by (rule digits10_all)

lemma INV_inverse: "a < 10 \<Longrightarrow> verhoeff_INV ! a < 10 \<and> verhoeff_D ! (verhoeff_INV ! a) ! a = 0"
  using INV_table by (rule digits10_all)

lemma P_facts:
  assumes "a < 10"
  shows "verhoeff_P ! (i mod 8) ! a < 10"
    and "b < 10 \<Longrightarrow> verhoeff_P ! (i mod 8) ! a = verhoeff_P ! (i mod 8) ! b \<Longrightarrow> a = b"
proof -
  note t = digits10_all [OF positions8_all [OF P_table, of "i mod 8"] assms]
  show "verhoeff_P ! (i mod 8) ! a < 10" using t by simp
  show "b < 10 \<Longrightarrow> verhoeff_P ! (i mod 8) ! a = verhoeff_P ! (i mod 8) ! b \<Longrightarrow> a = b"
    using t digits10_all by auto
qed

lemma P_anti:
  assumes "a < 10" "b < 10"
    and "verhoeff_D ! (verhoeff_P ! (i mod 8) ! a) ! (verhoeff_P ! (Suc i mod 8) ! b) =
      verhoeff_D ! (verhoeff_P ! (i mod 8) ! b) ! (verhoeff_P ! (Suc i mod 8) ! a)"
  shows "a = b"
proof -
  note t = digits10_all [OF digits10_all [OF positions8_all [OF P_anti_table, of "i mod 8"]
        assms(1)] assms(2)]
  have "Suc (i mod 8) mod 8 = Suc i mod 8" by (simp add: mod_Suc_eq)
  with t assms(3) show ?thesis by simp
qed

interpretation verhoeff: check_digit_scheme "\<lambda>a b. verhoeff_D ! a ! b"
  "\<lambda>i a. verhoeff_P ! (i mod 8) ! a" "\<lambda>a. verhoeff_INV ! a"
  by unfold_locales (auto simp: D_closed D_assoc D_unit INV_inverse P_facts(1)
      digits10_all [OF P_first_table] dest: P_facts(2) P_anti)

lemma digit_bound: "ascii_digit_to_u8 b < 10"
  by (auto simp: ascii_digit_to_u8_def is_ascii_digit_def word_le_nat_alt)

lemma loop_checksum: "verhoeff_loop i c chs = verhoeff.checksum i c (map ascii_digit_to_u8 chs)"
  by (induction chs arbitrary: i c) auto

lemma verify_checksum:
  "verify s \<longleftrightarrow> verhoeff.checksum 0 0 (map ascii_digit_to_u8 (rev s)) = 0"
  by (simp add: verify_def loop_checksum)

lemma check_digit_bound: "check_digit s < 10"
  unfolding check_digit_def loop_checksum
  by (rule verhoeff.invs_closed) (auto intro!: verhoeff.checksum_closed simp: digit_bound)

lemma ascii_digit_inject:
  assumes "is_ascii_digit a" "is_ascii_digit b" "ascii_digit_to_u8 a = ascii_digit_to_u8 b"
  shows "a = b"
proof -
  have "unat a = unat b"
    using assms by (auto simp: ascii_digit_to_u8_def is_ascii_digit_def word_le_nat_alt)
  then show ?thesis by (simp add: word_unat_eq_iff)
qed

lemma ascii_of_check_digit:
  "is_ascii_digit (word_of_nat (check_digit s) + 0x30)"
  "ascii_digit_to_u8 (word_of_nat (check_digit s) + 0x30) = check_digit s"
proof -
  have "unat (word_of_nat (check_digit s) + 0x30 :: byte) = check_digit s + 0x30"
    using check_digit_bound [of s] by (simp add: unat_word_ariths unat_of_nat)
  then show "is_ascii_digit (word_of_nat (check_digit s) + 0x30)"
    "ascii_digit_to_u8 (word_of_nat (check_digit s) + 0x30) = check_digit s"
    using check_digit_bound [of s]
    by (auto simp: is_ascii_digit_def ascii_digit_to_u8_def word_le_nat_alt)
qed

lemma verify_check_digit: "verify (s @ [word_of_nat (check_digit s) + 0x30])"
proof -
  have c: "check_digit s = verhoeff_INV ! verhoeff.checksum 1 0 (map ascii_digit_to_u8 (rev s))"
    by (simp add: check_digit_def loop_checksum)
  have "verhoeff.checksum 0 0 (check_digit s # map ascii_digit_to_u8 (rev s)) = 0"
    unfolding c by (rule verhoeff.check_digit_verifies) (auto simp: digit_bound)
  then show ?thesis
    by (simp only: verify_checksum rev_append rev.simps append.simps list.map ascii_of_check_digit)
qed

lemma verify_substitution:
  assumes "is_ascii_digit a" "is_ascii_digit b" "verify (xs @ [a] @ ys)" "verify (xs @ [b] @ ys)"
  shows "a = b"
proof -
  let ?f = "map ascii_digit_to_u8"
  have "verhoeff.checksum 0 0 (?f (rev ys) @ [ascii_digit_to_u8 a] @ ?f (rev xs)) =
      verhoeff.checksum 0 0 (?f (rev ys) @ [ascii_digit_to_u8 b] @ ?f (rev xs))"
    using assms(3,4) by (simp add: verify_checksum)
  then have "ascii_digit_to_u8 a = ascii_digit_to_u8 b"
    by (rule verhoeff.detects_substitution [rotated]) (auto simp: digit_bound)
  with assms(1,2) show ?thesis by (rule ascii_digit_inject)
qed

section \<open>Properties\<close>

text \<open>
  For every string there is exactly one digit that completes it to a verifying code,
  and \<open>check_digit\<close> computes it.
\<close>

theorem check_digit_unique:
  assumes "is_ascii_digit d"
  shows "verify (digits @ [d]) \<longleftrightarrow> d = word_of_nat (check_digit digits) + 0x30"
  using verify_check_digit [of digits] ascii_of_check_digit(1) [of digits] assms
    verify_substitution [of d "word_of_nat (check_digit digits) + 0x30" digits "[]"]
  by auto

theorem check_digit_unique_witness:
  "verify [0x32, 0x33, 0x36, 0x33] \<and> check_digit [0x32, 0x33, 0x36] = 3"
  using check_digit_unique [of "0x33" "[0x32, 0x33, 0x36]"]
  by (simp add: check_digit_def verhoeff_D_def verhoeff_P_def verhoeff_INV_def
      ascii_digit_to_u8_def is_ascii_digit_def)

text \<open>Every change of a single digit of a verifying code is detected.\<close>

theorem single_error_detected:
  assumes "is_ascii_digit a" "is_ascii_digit b" "a \<noteq> b" "verify (xs @ [a] @ ys)"
  shows "\<not> verify (xs @ [b] @ ys)"
  using assms verify_substitution by blast

theorem single_error_detected_witness:
  "verify ([0x32] @ [0x33] @ [0x36, 0x33]) \<and> \<not> verify ([0x32] @ [0x34] @ [0x36, 0x33])"
proof -
  have "verify ([0x32] @ [0x33] @ [0x36, 0x33])"
    by (simp add: verify_def verhoeff_D_def verhoeff_P_def ascii_digit_to_u8_def is_ascii_digit_def)
  with single_error_detected [of "0x33" "0x34" "[0x32]" "[0x36, 0x33]"] show ?thesis
    by (simp add: is_ascii_digit_def)
qed

text \<open>Every exchange of two different neighbouring digits of a verifying code is detected.\<close>

theorem transposition_detected:
  assumes "is_ascii_digit a" "is_ascii_digit b" "a \<noteq> b" "verify (xs @ [a, b] @ ys)"
  shows "\<not> verify (xs @ [b, a] @ ys)"
proof
  assume "verify (xs @ [b, a] @ ys)"
  let ?f = "map ascii_digit_to_u8"
  have "verhoeff.checksum 0 0 (?f (rev ys) @ [ascii_digit_to_u8 a, ascii_digit_to_u8 b] @ ?f (rev xs)) =
      verhoeff.checksum 0 0 (?f (rev ys) @ [ascii_digit_to_u8 b, ascii_digit_to_u8 a] @ ?f (rev xs))"
    using assms(4) \<open>verify (xs @ [b, a] @ ys)\<close> by (simp add: verify_checksum)
  then have "ascii_digit_to_u8 a = ascii_digit_to_u8 b"
    by (rule verhoeff.detects_transposition [rotated]) (auto simp: digit_bound)
  with assms(1-3) show False using ascii_digit_inject by blast
qed

theorem transposition_detected_witness:
  "verify ([0x32] @ [0x33, 0x36] @ [0x33]) \<and> \<not> verify ([0x32] @ [0x36, 0x33] @ [0x33])"
proof -
  have "verify ([0x32] @ [0x33, 0x36] @ [0x33])"
    by (simp add: verify_def verhoeff_D_def verhoeff_P_def ascii_digit_to_u8_def is_ascii_digit_def)
  with transposition_detected [of "0x33" "0x36" "[0x32]" "[0x33]"] show ?thesis
    by (simp add: is_ascii_digit_def)
qed

end
