(* ===== verification/Setup_Payload.thy ===== *)
theory Setup_Payload
  imports Setup_Base38 Setup_Verhoeff
begin

text \<open>
  Onboarding payloads, \<open>crates/matter-commissioning/src/setup\<close>: the payload type and its
  validated fields (\<open>mod.rs\<close>), the 88-bit block of the QR code (\<open>qr_packer.rs\<close>), the manual
  pairing code (\<open>manual_packer.rs\<close>) and the public functions \<open>encode_qr\<close>, \<open>parse_qr\<close>,
  \<open>encode_manual_code\<close>, \<open>parse_manual_code\<close>. Strings are their UTF-8 bytes.
\<close>

section \<open>Fields\<close>

record discriminator =
  disc_value :: u16
  disc_is_short :: bool

definition discriminator_new :: "u16 \<Rightarrow> setup_error + discriminator" where
  "discriminator_new value =
     (if value > 0x0FFF then Inl (DiscriminatorOutOfRange value)
      else Inr \<lparr>disc_value = value, disc_is_short = False\<rparr>)"

definition discriminator_from_short :: "u8 \<Rightarrow> setup_error + discriminator" where
  "discriminator_from_short short =
     (if short > 0x0F then Inl (ShortDiscriminatorOutOfRange short)
      else Inr \<lparr>disc_value = push_bit 8 (ucast short), disc_is_short = True\<rparr>)"

definition disc_short :: "discriminator \<Rightarrow> u8" where
  "disc_short d = ucast (drop_bit 8 (disc_value d) AND 0x0F)"

definition matches_advertised :: "discriminator \<Rightarrow> u16 \<Rightarrow> bool" where
  "matches_advertised d advertised =
     (if disc_is_short d then drop_bit 8 advertised AND 0x0F = ucast (disc_short d)
      else advertised = disc_value d)"

datatype passcode = Passcode (as_u32: u32)

definition DISALLOWED_PASSCODES :: "u32 list" where
  "DISALLOWED_PASSCODES =
     [0, 11111111, 22222222, 33333333, 44444444, 55555555, 66666666, 77777777, 88888888, 99999999,
      12345678, 87654321]"

definition MAX_PASSCODE :: u32 where
  "MAX_PASSCODE = 99999998"

definition passcode_new :: "u32 \<Rightarrow> setup_error + passcode" where
  "passcode_new value =
     (if value \<in> set DISALLOWED_PASSCODES then Inl (PasscodeDisallowedTrivial value)
      else if value > MAX_PASSCODE then Inl (PasscodeOutOfRange value)
      else Inr (Passcode value))"

datatype commissioning_flow = Standard | UserIntent | Custom

definition flow_from_u8 :: "u8 \<Rightarrow> setup_error + commissioning_flow" where
  "flow_from_u8 value =
     (if value = 0 then Inr Standard else if value = 1 then Inr UserIntent
      else if value = 2 then Inr Custom else Inl (CommissioningFlowReserved value))"

fun flow_as_u8 :: "commissioning_flow \<Rightarrow> u8" where
  "flow_as_u8 Standard = 0"
| "flow_as_u8 UserIntent = 1"
| "flow_as_u8 Custom = 2"

text \<open>\<open>DiscoveryCapabilities\<close> keeps every bit (\<open>from_bits_retain\<close>): it is its byte.\<close>

record setup_payload =
  sp_version :: u8
  sp_vendor_id :: "u16 option"
  sp_product_id :: "u16 option"
  sp_flow :: commissioning_flow
  sp_capabilities :: u8
  sp_discriminator :: discriminator
  sp_passcode :: passcode

text \<open>
  The type invariants: what the constructors of \<open>Discriminator\<close> and \<open>Passcode\<close> enforce.
\<close>

definition discriminator_wf :: "discriminator \<Rightarrow> bool" where
  "discriminator_wf d \<longleftrightarrow> disc_value d \<le> 0x0FFF"

definition passcode_wf :: "passcode \<Rightarrow> bool" where
  "passcode_wf p \<longleftrightarrow> as_u32 p \<notin> set DISALLOWED_PASSCODES \<and> as_u32 p \<le> MAX_PASSCODE"

section \<open>The QR block\<close>

definition FIXED_BYTE_LEN :: nat where
  "FIXED_BYTE_LEN = 11"

record bit_buffer =
  bb_bytes :: bytes
  bb_pos :: nat

definition bit_buffer_new :: bit_buffer where
  "bit_buffer_new = \<lparr>bb_bytes = replicate FIXED_BYTE_LEN 0, bb_pos = 0\<rparr>"

definition put_bit :: "u64 \<Rightarrow> nat \<Rightarrow> nat \<Rightarrow> bytes \<Rightarrow> bytes" where
  "put_bit value pos i bs =
     (let bit1 = ucast (drop_bit i value AND 1); k = (pos + i) div 8; off = (pos + i) mod 8
      in bs[k := (bs ! k) OR push_bit off bit1])"

definition bit_push :: "u64 \<times> nat \<Rightarrow> bit_buffer \<Rightarrow> bit_buffer" where
  "bit_push field b = (case field of (value, width) \<Rightarrow>
     \<lparr>bb_bytes = fold (put_bit value (bb_pos b)) [0..<width] (bb_bytes b), bb_pos = bb_pos b + width\<rparr>)"

text \<open>The fields in the order they are pushed, each with its width.\<close>

definition qr_fields :: "setup_payload \<Rightarrow> u16 \<Rightarrow> u16 \<Rightarrow> (u64 \<times> nat) list" where
  "qr_fields p vid pid =
     [(ucast (sp_version p), 3), (ucast vid, 16), (ucast pid, 16),
      (ucast (flow_as_u8 (sp_flow p)), 2), (ucast (sp_capabilities p), 8),
      (ucast (disc_value (sp_discriminator p)), 12), (ucast (as_u32 (sp_passcode p)), 27), (0, 4)]"

definition qr_pack :: "setup_payload \<Rightarrow> setup_error + bytes" where
  "qr_pack p =
     try_bind (ok_or (sp_vendor_id p) QrRequiresVidPid) (\<lambda>vid.
     try_bind (ok_or (sp_product_id p) QrRequiresVidPid) (\<lambda>pid.
     if sp_flow p = Custom then Inl CustomFlowUnsupported
     else Inr (bb_bytes (fold bit_push (qr_fields p vid pid) bit_buffer_new))))"

record bit_reader =
  br_bytes :: bytes
  br_pos :: nat

definition get_bit :: "bit_reader \<Rightarrow> nat \<Rightarrow> u64 \<Rightarrow> u64" where
  "get_bit r i out =
     (let k = (br_pos r + i) div 8; off = (br_pos r + i) mod 8;
          bit1 = ucast (drop_bit off (br_bytes r ! k) AND 1)
      in out OR push_bit i bit1)"

definition bit_read :: "nat \<Rightarrow> bit_reader \<Rightarrow> u64 \<times> bit_reader" where
  "bit_read width r = (fold (get_bit r) [0..<width] 0, r\<lparr>br_pos := br_pos r + width\<rparr>)"

definition qr_unpack :: "bytes \<Rightarrow> setup_error + setup_payload" where
  "qr_unpack bs =
     (let (version, r) = bit_read 3 \<lparr>br_bytes = bs, br_pos = 0\<rparr>;
          (vid, r) = bit_read 16 r;
          (pid, r) = bit_read 16 r;
          (flow_raw, r) = bit_read 2 r;
          (caps_raw, r) = bit_read 8 r;
          (disc_raw, r) = bit_read 12 r;
          (pass_raw, r) = bit_read 27 r;
          (padding, r) = bit_read 4 r
      in try_bind (flow_from_u8 (ucast flow_raw)) (\<lambda>flow.
         try_bind (discriminator_new (ucast disc_raw)) (\<lambda>disc.
         try_bind (passcode_new (ucast pass_raw)) (\<lambda>pass.
         Inr \<lparr>sp_version = ucast version, sp_vendor_id = Some (ucast vid),
              sp_product_id = Some (ucast pid), sp_flow = flow, sp_capabilities = ucast caps_raw,
              sp_discriminator = disc, sp_passcode = pass\<rparr>))))"

definition QR_PREFIX :: bytes where
  "QR_PREFIX = [0x4D, 0x54, 0x3A]"

definition encode_qr :: "setup_payload \<Rightarrow> setup_error + bytes" where
  "encode_qr p = try_bind (qr_pack p) (\<lambda>bs. Inr (QR_PREFIX @ base38_encode bs))"

definition strip_prefix :: "bytes \<Rightarrow> bytes \<Rightarrow> bytes option" where
  "strip_prefix pre s = (if take (length pre) s = pre then Some (drop (length pre) s) else None)"

definition parse_qr :: "bytes \<Rightarrow> setup_error + setup_payload" where
  "parse_qr s =
     try_bind (ok_or (strip_prefix QR_PREFIX s) MissingMtPrefix) (\<lambda>payload.
     try_bind (base38_decode payload) (\<lambda>bs.
     if length bs < FIXED_BYTE_LEN then Inl (QrPayloadWrongLength (length bs) FIXED_BYTE_LEN)
     else if length bs > FIXED_BYTE_LEN then Inl (QrTrailingBytes (length bs - FIXED_BYTE_LEN))
     else qr_unpack bs))"

section \<open>Bits of the buffer\<close>

definition buf_bit :: "bytes \<Rightarrow> nat \<Rightarrow> bool" where
  "buf_bit bs j = bit (bs ! (j div 8)) (j mod 8)"

lemma bit_lsb_of:
  "bit (ucast (drop_bit i (v :: 'a::len word) AND 1) :: 'b::len word) n \<longleftrightarrow> n = 0 \<and> bit v i"
  by (auto simp: bit_simps)

lemma put_bit_buf:
  assumes "pos + i < 8 * length bs" "j < 8 * length bs"
  shows "buf_bit (put_bit v pos i bs) j \<longleftrightarrow> buf_bit bs j \<or> (j = pos + i \<and> bit v i)"
proof -
  have k: "(pos + i) div 8 < length bs" "j div 8 < length bs" using assms by auto
  have eq: "j = pos + i" if "j div 8 = (pos + i) div 8" "j mod 8 = (pos + i) mod 8"
    using that by (metis mult_div_mod_eq)
  have "bit (push_bit ((pos + i) mod 8) (ucast (drop_bit i v AND 1) :: u8)) n \<longleftrightarrow>
      n = (pos + i) mod 8 \<and> bit v i" for n
    unfolding bit_push_bit_iff bit_lsb_of possible_bit_word by auto
  with k eq show ?thesis
    by (auto simp: buf_bit_def put_bit_def Let_def nth_list_update bit_or_iff)
qed

lemma length_put_bit [simp]: "length (put_bit v pos i bs) = length bs"
  by (simp add: put_bit_def Let_def)

lemma length_put_bits [simp]: "length (fold (put_bit v pos) is bs) = length bs"
  by (induction "is" arbitrary: bs) auto

lemma put_bits_buf:
  "pos + w \<le> 8 * length bs \<Longrightarrow> j < 8 * length bs \<Longrightarrow>
   buf_bit (fold (put_bit v pos) [0..<w] bs) j \<longleftrightarrow>
     buf_bit bs j \<or> (pos \<le> j \<and> j < pos + w \<and> bit v (j - pos))"
proof (induction w)
  case (Suc w)
  then show ?case by (auto simp: put_bit_buf not_less le_less less_Suc_eq)
qed auto

fun field_bit :: "nat \<Rightarrow> (u64 \<times> nat) list \<Rightarrow> nat \<Rightarrow> bool" where
  "field_bit pos [] j = False"
| "field_bit pos ((v, w) # fs) j =
     ((pos \<le> j \<and> j < pos + w \<and> bit v (j - pos)) \<or> field_bit (pos + w) fs j)"

lemma bit_push_fields [simp]:
  "bb_bytes (bit_push (v, w) b) = fold (put_bit v (bb_pos b)) [0..<w] (bb_bytes b)"
  "bb_pos (bit_push (v, w) b) = bb_pos b + w"
  by (simp_all add: bit_push_def)

lemma pack_bits_buf:
  "bb_pos b + sum_list (map snd fs) \<le> 8 * length (bb_bytes b) \<Longrightarrow> j < 8 * length (bb_bytes b) \<Longrightarrow>
   buf_bit (bb_bytes (fold bit_push fs b)) j \<longleftrightarrow> buf_bit (bb_bytes b) j \<or> field_bit (bb_pos b) fs j"
proof (induction fs arbitrary: b)
  case (Cons f fs)
  obtain v w where f: "f = (v, w)" by (cases f)
  have "buf_bit (bb_bytes (fold bit_push fs (bit_push f b))) j \<longleftrightarrow>
      buf_bit (bb_bytes (bit_push f b)) j \<or> field_bit (bb_pos (bit_push f b)) fs j"
    using Cons.prems by (intro Cons.IH) (simp_all add: f)
  with Cons.prems show ?case
    by (auto simp: f put_bits_buf)
qed simp

lemma length_pack [simp]: "length (bb_bytes (fold bit_push fs b)) = length (bb_bytes b)"
  by (induction fs arbitrary: b) auto

lemma read_bits:
  assumes "w \<le> 64"
  shows "bit (fold (get_bit r) [0..<w] 0) i \<longleftrightarrow> i < w \<and> buf_bit (br_bytes r) (br_pos r + i)"
  using assms
proof (induction w)
  case (Suc w)
  have "bit (push_bit w (ucast (drop_bit off (x :: byte) AND 1) :: u64)) n \<longleftrightarrow>
      n = w \<and> bit x off" for off x n
    unfolding bit_push_bit_iff bit_lsb_of possible_bit_word using Suc.prems by auto
  with Suc show ?case
    by (auto simp: get_bit_def Let_def bit_or_iff buf_bit_def less_Suc_eq)
qed simp

section \<open>QR round trip\<close>

lemma bit_small:
  assumes "unat (x :: 'a::len word) < 2 ^ w" "bit x i"
  shows "i < w"
proof (rule ccontr)
  assume "\<not> i < w"
  have "take_bit w x = x"
    using assms(1) by (metis take_bit_nat_eq_self unsigned_take_bit_eq word_unat_eq_iff)
  with assms(2) \<open>\<not> i < w\<close> show False by (metis bit_take_bit_iff)
qed

lemma read_field:
  assumes "\<And>i. i < w \<Longrightarrow> buf_bit bs (p + i) = bit v i" "\<And>i. bit v i \<Longrightarrow> i < w" "w \<le> 64"
  shows "bit_read w \<lparr>br_bytes = bs, br_pos = p\<rparr> = (v, \<lparr>br_bytes = bs, br_pos = p + w\<rparr>)"
  unfolding bit_read_def using assms
  by (auto intro!: bit_word_eqI simp: read_bits)

lemma qr_block_bits:
  assumes "j < 88"
  shows "buf_bit (bb_bytes (fold bit_push (qr_fields p vid pid) bit_buffer_new)) j =
    field_bit 0 (qr_fields p vid pid) j"
proof -
  have "buf_bit (replicate 11 (0 :: byte)) j = False"
    using assms by (simp add: buf_bit_def)
  with assms show ?thesis
    using pack_bits_buf [of bit_buffer_new "qr_fields p vid pid" j]
    by (simp add: bit_buffer_new_def FIXED_BYTE_LEN_def qr_fields_def)
qed

definition qr_payload_wf :: "setup_payload \<Rightarrow> bool" where
  "qr_payload_wf p \<longleftrightarrow> sp_version p < 8 \<and> sp_vendor_id p \<noteq> None \<and> sp_product_id p \<noteq> None \<and>
     sp_flow p \<noteq> Custom \<and> discriminator_wf (sp_discriminator p) \<and>
     \<not> disc_is_short (sp_discriminator p) \<and> passcode_wf (sp_passcode p)"

lemma ucast_bit_bound: "bit (ucast (x :: 'a::len word) :: u64) i \<Longrightarrow> bit x i \<and> i < LENGTH('a)"
  by (auto simp: bit_simps dest: bit_imp_le_length)

text \<open>A block is read back field by field when the fields fit their widths.\<close>

definition fields_at :: "bytes \<Rightarrow> nat \<Rightarrow> (u64 \<times> nat) list \<Rightarrow> bool" where
  "fields_at bs p fs \<longleftrightarrow>
     (\<forall>j. p \<le> j \<and> j < p + sum_list (map snd fs) \<longrightarrow> buf_bit bs j = field_bit p fs j)"

definition fits_width :: "u64 \<Rightarrow> nat \<Rightarrow> bool" where
  "fits_width v w \<longleftrightarrow> w \<le> 64 \<and> (\<forall>i. bit v i \<longrightarrow> i < w)"

lemma read_next:
  assumes "fields_at bs p ((v, w) # fs)" "fits_width v w"
  shows "bit_read w \<lparr>br_bytes = bs, br_pos = p\<rparr> = (v, \<lparr>br_bytes = bs, br_pos = p + w\<rparr>)"
    and "fields_at bs (p + w) fs"
proof -
  have "\<not> field_bit q fs j" if "j < q" for q j
    using that by (induction q fs j rule: field_bit.induct) auto
  then have "buf_bit bs (p + i) = bit v i" if "i < w" for i
    using assms(1) that by (auto simp: fields_at_def)
  then show "bit_read w \<lparr>br_bytes = bs, br_pos = p\<rparr> = (v, \<lparr>br_bytes = bs, br_pos = p + w\<rparr>)"
    using assms(2) by (intro read_field) (auto simp: fits_width_def)
  show "fields_at bs (p + w) fs"
    using assms(1) by (auto simp: fields_at_def)
qed

lemma fits_width_ucast:
  "unat (x :: 'a::len word) < 2 ^ w \<Longrightarrow> w \<le> 64 \<Longrightarrow> fits_width (ucast x) w"
  unfolding fits_width_def using bit_small ucast_bit_bound by blast

lemma ucast_u64_same: "LENGTH('a) \<le> 64 \<Longrightarrow> ucast (ucast (x :: 'a::len word) :: u64) = x"
  by (simp add: ucast_up_ucast_id is_up)

lemma qr_unpack_pack:
  assumes wf: "qr_payload_wf p" and v: "sp_vendor_id p = Some vid" "sp_product_id p = Some pid"
  shows "qr_unpack (bb_bytes (fold bit_push (qr_fields p vid pid) bit_buffer_new)) = Inr p"
proof -
  define bs where "bs = bb_bytes (fold bit_push (qr_fields p vid pid) bit_buffer_new)"
  let ?d = "disc_value (sp_discriminator p)" and ?pc = "as_u32 (sp_passcode p)"
  have flow: "flow_as_u8 (sp_flow p) < 4" "flow_from_u8 (flow_as_u8 (sp_flow p)) = Inr (sp_flow p)"
    by (cases "sp_flow p"; simp add: flow_from_u8_def)+
  have fit: "unat (sp_version p) < 2 ^ 3" "unat (flow_as_u8 (sp_flow p)) < 2 ^ 2"
    "unat ?d < 2 ^ 12" "unat ?pc < 2 ^ 27" "unat vid < 2 ^ 16" "unat pid < 2 ^ 16"
    "unat (sp_capabilities p) < 2 ^ 8"
    using wf flow unsigned_less [of vid] unsigned_less [of pid] unsigned_less [of "sp_capabilities p"]
    by (auto simp: qr_payload_wf_def discriminator_wf_def passcode_wf_def MAX_PASSCODE_def
        word_le_nat_alt word_less_nat_alt)
  note fw = fit [THEN fits_width_ucast, simplified]
  have f0: "fields_at bs 0 (qr_fields p vid pid)"
    using qr_block_bits by (simp add: fields_at_def bs_def qr_fields_def)
  note n1 = read_next [OF f0 [unfolded qr_fields_def] fw(1)]
  note n2 = read_next [OF n1(2) fw(5)]
  note n3 = read_next [OF n2(2) fw(6)]
  note n4 = read_next [OF n3(2) fw(2)]
  note n5 = read_next [OF n4(2) fw(7)]
  note n6 = read_next [OF n5(2) fw(3)]
  note n7 = read_next [OF n6(2) fw(4)]
  have "discriminator_new ?d = Inr (sp_discriminator p)" "passcode_new ?pc = Inr (sp_passcode p)"
    using wf by (auto simp: qr_payload_wf_def discriminator_wf_def discriminator_new_def
        passcode_wf_def passcode_new_def not_less)
  with n1(1) n2(1) n3(1) n4(1) n5(1) n6(1) n7(1) flow(2) v show ?thesis
    by (simp add: qr_unpack_def Let_def ucast_u64_same bs_def [symmetric] split: prod.split)
qed

lemma strip_prefix_append [simp]: "strip_prefix pre (pre @ s) = Some s"
  by (simp add: strip_prefix_def)

text \<open>
  What a QR code carries of a payload: the low three bits of the version and the twelve bits of
  the discriminator, but not whether the discriminator is a short one.
\<close>

definition qr_view :: "setup_payload \<Rightarrow> setup_payload" where
  "qr_view p = p\<lparr>sp_version := sp_version p AND 7,
     sp_discriminator := \<lparr>disc_value = disc_value (sp_discriminator p), disc_is_short = False\<rparr>\<rparr>"

lemma and_7_bound: "(v :: u8) AND 7 < 8"
  by (rule order.strict_trans1 [OF word_and_le1]) simp

lemma bit_7_low: "i < 3 \<Longrightarrow> bit (7 :: u8) i"
  by (auto simp: less_Suc_eq numeral_3_eq_3)

lemma and_7_same: "(v :: u8) AND 7 = v \<longleftrightarrow> v < 8"
proof
  assume "v AND 7 = v" then show "v < 8" using and_7_bound [of v] by simp
next
  assume "v < 8"
  then have "bit v i \<Longrightarrow> bit (7 :: u8) i" for i
    using bit_small [of v 3 i] bit_7_low by (simp add: word_less_nat_alt)
  then show "v AND 7 = v" by (intro bit_word_eqI) (auto simp: bit_and_iff)
qed

lemma qr_view_same: "qr_view p = p \<longleftrightarrow> sp_version p < 8 \<and> \<not> disc_is_short (sp_discriminator p)"
  by (cases p, cases "sp_discriminator p") (auto simp: qr_view_def and_7_same)

text \<open>Only the low bits of a value are pushed, so a payload and its view have the same block.\<close>

lemma bit_push_cong:
  assumes "\<And>i. i < w \<Longrightarrow> bit v i = bit v' i"
  shows "bit_push (v, w) b = bit_push (v', w) b"
proof -
  have "put_bit v q i bs = put_bit v' q i bs" if "i < w" for q i bs
    using assms [OF that] by (simp add: put_bit_def and_one_eq mod2_eq_if bit_iff_odd_drop_bit)
  then have "fold (put_bit v (bb_pos b)) [0..<w] (bb_bytes b) = fold (put_bit v' (bb_pos b)) [0..<w] (bb_bytes b)"
    by (intro List.fold_cong) auto
  then show ?thesis by (simp add: bit_push_def)
qed

lemma qr_view_block:
  "fold bit_push (qr_fields (qr_view p) vid pid) b = fold bit_push (qr_fields p vid pid) b"
proof -
  have "bit (ucast (sp_version p AND 7) :: u64) i = bit (ucast (sp_version p) :: u64) i" if "i < 3" for i
    using bit_7_low [OF that] by (auto simp: bit_simps)
  then have "bit_push (ucast (sp_version p AND 7), 3) b = bit_push (ucast (sp_version p), 3) b"
    by (intro bit_push_cong) simp
  then show ?thesis by (simp add: qr_fields_def qr_view_def)
qed

text \<open>
  C34. QR round trip, for every payload with a valid discriminator and passcode: without both ids,
  or for a custom flow, there is no QR string and the error says so. Every other payload has one,
  and parsing it returns the payload with its version cut to three bits and its discriminator as a
  long one: the payload itself exactly if its version is below eight and its discriminator is
  not a short one.
\<close>

theorem qr_roundtrip:
  assumes "discriminator_wf (sp_discriminator p)" "passcode_wf (sp_passcode p)"
  shows "if sp_vendor_id p = None \<or> sp_product_id p = None then encode_qr p = Inl QrRequiresVidPid
    else if sp_flow p = Custom then encode_qr p = Inl CustomFlowUnsupported
    else \<exists>s. encode_qr p = Inr s \<and> parse_qr s = Inr (qr_view p) \<and>
      (parse_qr s = Inr p \<longleftrightarrow> sp_version p < 8 \<and> \<not> disc_is_short (sp_discriminator p))"
proof (cases "sp_vendor_id p = None \<or> sp_product_id p = None \<or> sp_flow p = Custom")
  case True
  then show ?thesis
    by (cases "sp_vendor_id p"; cases "sp_product_id p") (simp_all add: encode_qr_def qr_pack_def)
next
  case False
  then obtain vid pid where v: "sp_vendor_id p = Some vid" "sp_product_id p = Some pid"
    and c: "sp_flow p \<noteq> Custom" by auto
  let ?bs = "bb_bytes (fold bit_push (qr_fields p vid pid) bit_buffer_new)"
  have "qr_payload_wf (qr_view p)"
    using assms v c by (simp add: qr_view_def qr_payload_wf_def discriminator_wf_def and_7_bound)
  then have "qr_unpack ?bs = Inr (qr_view p)"
    using qr_unpack_pack [of "qr_view p" vid pid] v by (simp add: qr_view_block) (simp add: qr_view_def)
  moreover have "length ?bs = FIXED_BYTE_LEN" by (simp add: bit_buffer_new_def)
  moreover have "base38_decode (base38_encode ?bs) = Inr ?bs"
    by (simp add: base38_decode_def base38_decode_encode_from)
  ultimately have "parse_qr (QR_PREFIX @ base38_encode ?bs) = Inr (qr_view p)"
    by (simp add: parse_qr_def)
  with v c show ?thesis by (auto simp: encode_qr_def qr_pack_def qr_view_same)
qed

text \<open>The worked example of the Matter specification, as in the crate's tests.\<close>

definition spec_payload :: setup_payload where
  "spec_payload = \<lparr>sp_version = 0, sp_vendor_id = Some 0xFFF1, sp_product_id = Some 0x8000,
     sp_flow = Standard, sp_capabilities = 2,
     sp_discriminator = \<lparr>disc_value = 0xF00, disc_is_short = False\<rparr>, sp_passcode = Passcode 20202021\<rparr>"

text \<open>A payload that came from a manual code, with the ids filled in.\<close>

definition short_payload :: setup_payload where
  "short_payload = spec_payload\<lparr>sp_discriminator := \<lparr>disc_value = 0xF00, disc_is_short = True\<rparr>\<rparr>"

theorem qr_roundtrip_witness:
  "(\<exists>s. encode_qr spec_payload = Inr s \<and> parse_qr s = Inr spec_payload) \<and>
   (\<exists>s. encode_qr short_payload = Inr s \<and> parse_qr s = Inr spec_payload \<and> spec_payload \<noteq> short_payload)"
proof -
  note defs = spec_payload_def short_payload_def
  have d: "discriminator_wf (sp_discriminator spec_payload)" "discriminator_wf (sp_discriminator short_payload)"
    by (simp_all add: defs discriminator_wf_def)
  have c: "passcode_wf (sp_passcode spec_payload)" "passcode_wf (sp_passcode short_payload)"
    by (simp_all add: defs passcode_wf_def DISALLOWED_PASSCODES_def MAX_PASSCODE_def)
  have "qr_view short_payload = spec_payload" by (simp add: defs qr_view_def)
  with qr_roundtrip [OF d(1) c(1)] qr_roundtrip [OF d(2) c(2)] show ?thesis by (auto simp: defs)
qed

lemma bit_read_bound:
  assumes "w \<le> 64"
  shows "unat (fst (bit_read w r)) < 2 ^ w"
proof -
  have "take_bit w (fst (bit_read w r)) = fst (bit_read w r)"
    by (rule bit_word_eqI) (use assms in \<open>auto simp: bit_take_bit_iff bit_read_def read_bits\<close>)
  then have "unat (fst (bit_read w r)) = take_bit w (unat (fst (bit_read w r)))"
    by (metis unsigned_take_bit_eq)
  then show ?thesis by (metis take_bit_nat_less_exp)
qed

lemma discriminator_new_Inr: "discriminator_new v = Inr d \<Longrightarrow> discriminator_wf d \<and> \<not> disc_is_short d"
  by (auto simp: discriminator_new_def discriminator_wf_def split: if_splits)

lemma passcode_new_Inr: "passcode_new v = Inr c \<Longrightarrow> passcode_wf c"
  by (auto simp: passcode_new_def passcode_wf_def split: if_splits)

text \<open>
  Whatever string is parsed as a QR code, the payload has a passcode that is allowed and
  in range, a 12-bit long discriminator, a 3-bit version and both ids.
\<close>

theorem parse_qr_valid:
  assumes "parse_qr s = Inr p"
  shows "passcode_wf (sp_passcode p) \<and> discriminator_wf (sp_discriminator p) \<and>
    \<not> disc_is_short (sp_discriminator p) \<and> sp_version p < 8 \<and>
    sp_vendor_id p \<noteq> None \<and> sp_product_id p \<noteq> None"
proof -
  obtain bs where u: "qr_unpack bs = Inr p"
    using assms by (auto simp: parse_qr_def try_bind_eq_Inr split: if_splits)
  let ?v = "fst (bit_read 3 \<lparr>br_bytes = bs, br_pos = 0\<rparr>)"
  have "unat ?v < 2 ^ 3" by (rule bit_read_bound) simp
  then have "ucast ?v < (8 :: u8)"
    by (simp add: word_less_nat_alt unsigned_ucast_eq take_bit_nat_eq_self)
  with u show ?thesis
    by (auto simp: qr_unpack_def Let_def try_bind_eq_Inr split: prod.splits
        dest: discriminator_new_Inr passcode_new_Inr)
qed

theorem parse_qr_valid_witness:
  "\<exists>s. parse_qr s = Inr spec_payload \<and> passcode_wf (sp_passcode spec_payload)"
proof -
  have "qr_payload_wf spec_payload"
    by (simp add: spec_payload_def qr_payload_wf_def discriminator_wf_def
        passcode_wf_def DISALLOWED_PASSCODES_def MAX_PASSCODE_def)
  then have "parse_qr (QR_PREFIX @ base38_encode (bb_bytes (fold bit_push
      (qr_fields spec_payload 0xFFF1 0x8000) bit_buffer_new))) = Inr spec_payload"
    using qr_unpack_pack [of spec_payload "0xFFF1" "0x8000"]
    by (simp add: parse_qr_def base38_decode_def base38_decode_encode_from bit_buffer_new_def
        spec_payload_def del: bit_push_fields)
  with parse_qr_valid [OF this] show ?thesis by blast
qed

section \<open>Manual pairing codes\<close>

fun dec_str :: "nat \<Rightarrow> bytes" where
  "dec_str n = (if n < 10 then [word_of_nat n + 0x30]
                else dec_str (n div 10) @ [word_of_nat (n mod 10) + 0x30])"

declare dec_str.simps [simp del]

text \<open>\<open>format!("{n:0w}")\<close>.\<close>

definition fmt_pad :: "nat \<Rightarrow> nat \<Rightarrow> bytes" where
  "fmt_pad w n = replicate (w - length (dec_str n)) 0x30 @ dec_str n"

definition dec_value :: "bytes \<Rightarrow> nat" where
  "dec_value s = foldl (\<lambda>acc c. acc * 10 + ascii_digit_to_u8 c) 0 s"

text \<open>\<open>str::parse::<u32>\<close>: an optional plus sign, at least one digit, no overflow.\<close>

definition parse_u32 :: "bytes \<Rightarrow> u32 option" where
  "parse_u32 s =
     (let ds = (case s of c # cs \<Rightarrow> if c = 0x2B then cs else s | [] \<Rightarrow> []) in
      if ds \<noteq> [] \<and> list_all is_ascii_digit ds \<and> dec_value ds < 2 ^ 32
      then Some (word_of_nat (dec_value ds)) else None)"

definition manual_pack :: "setup_payload \<Rightarrow> bytes" where
  "manual_pack p =
     (let has_vid_pid = (sp_vendor_id p \<noteq> None \<and> sp_product_id p \<noteq> None);
          disc = ucast (disc_value (sp_discriminator p)) :: u32;
          pass = as_u32 (sp_passcode p);
          chunk0 = drop_bit 10 disc OR push_bit 2 (if has_vid_pid then 1 else 0);
          chunk1 = push_bit 6 (disc AND 0x300) OR (pass AND 0x3FFF);
          chunk2 = drop_bit 14 pass;
          s = fmt_pad 1 (unat chunk0) @ fmt_pad 5 (unat chunk1) @ fmt_pad 4 (unat chunk2);
          s = (if has_vid_pid
               then s @ fmt_pad 5 (unat (case sp_vendor_id p of Some v \<Rightarrow> v | None \<Rightarrow> 0))
                      @ fmt_pad 5 (unat (case sp_product_id p of Some v \<Rightarrow> v | None \<Rightarrow> 0))
               else s)
      in s @ [word_of_nat (check_digit s) + 0x30])"

text \<open>The first character that is not a digit, with its position.\<close>

fun first_non_digit :: "nat \<Rightarrow> bytes \<Rightarrow> (byte \<times> nat) option" where
  "first_non_digit i [] = None"
| "first_non_digit i (c # cs) = (if is_ascii_digit c then first_non_digit (i + 1) cs else Some (c, i))"

definition parse_field :: "nat \<Rightarrow> nat \<Rightarrow> bytes \<Rightarrow> setup_error + u32" where
  "parse_field a b s = ok_or (parse_u32 (take (b - a) (drop a s))) (ManualCodeNonDigit 0x3F a)"

definition narrow_u16 :: "manual_field \<Rightarrow> u32 \<Rightarrow> setup_error + u16" where
  "narrow_u16 f v = (if v < 2 ^ 16 then Inr (ucast v) else Inl (FieldOutOfRange f v))"

definition manual_ids :: "bool \<Rightarrow> bytes \<Rightarrow> setup_error + u16 option \<times> u16 option" where
  "manual_ids has_vid_pid s =
     (if has_vid_pid then
        (if length s \<noteq> 21 then Inl (ManualCodeWrongLength (length s))
         else try_bind (parse_field 10 15 s) (\<lambda>vid. try_bind (parse_field 15 20 s) (\<lambda>pid.
              try_bind (narrow_u16 FVendorId vid) (\<lambda>vid. try_bind (narrow_u16 FProductId pid) (\<lambda>pid.
              Inr (Some vid, Some pid))))))
      else if length s \<noteq> 11 then Inl (ManualCodeWrongLength (length s))
      else Inr (None, None))"

definition manual_unpack :: "bytes \<Rightarrow> setup_error + setup_payload" where
  "manual_unpack s =
     (if length s \<noteq> 11 \<and> length s \<noteq> 21 then Inl (ManualCodeWrongLength (length s))
      else case first_non_digit 0 s of Some (c, i) \<Rightarrow> Inl (ManualCodeNonDigit c i)
      | None \<Rightarrow>
        if \<not> verify s then Inl ManualCodeBadChecksum
        else try_bind (parse_field 0 1 s) (\<lambda>chunk0. try_bind (parse_field 1 6 s) (\<lambda>chunk1.
             try_bind (parse_field 6 10 s) (\<lambda>chunk2.
             let has_vid_pid = (drop_bit 2 chunk0 AND 1 = 1);
                 short_upper = chunk0 AND 3;
                 short_lower = drop_bit 14 chunk1 AND 3;
                 short = ucast (push_bit 2 short_upper OR short_lower) :: u8;
                 pass = (chunk1 AND 0x3FFF) OR push_bit 14 (chunk2 AND 0x1FFF)
             in try_bind (manual_ids has_vid_pid s) (\<lambda>(vendor_id, product_id).
                try_bind (discriminator_from_short short) (\<lambda>disc.
                try_bind (passcode_new pass) (\<lambda>pc.
                Inr \<lparr>sp_version = 0, sp_vendor_id = vendor_id, sp_product_id = product_id,
                     sp_flow = Standard, sp_capabilities = 0, sp_discriminator = disc,
                     sp_passcode = pc\<rparr>)))))))"

definition encode_manual_code :: "setup_payload \<Rightarrow> bytes" where
  "encode_manual_code p = manual_pack p"

definition parse_manual_code :: "bytes \<Rightarrow> setup_error + setup_payload" where
  "parse_manual_code s = manual_unpack s"

section \<open>Manual code round trip\<close>

lemma ascii_of_digit:
  assumes "d < 10"
  shows "is_ascii_digit (word_of_nat d + 0x30)" "ascii_digit_to_u8 (word_of_nat d + 0x30) = d"
proof -
  have "unat (word_of_nat d + 0x30 :: byte) = d + 0x30"
    using assms by (simp add: unat_word_ariths unat_of_nat)
  then show "is_ascii_digit (word_of_nat d + 0x30)" "ascii_digit_to_u8 (word_of_nat d + 0x30) = d"
    using assms by (auto simp: is_ascii_digit_def ascii_digit_to_u8_def word_le_nat_alt)
qed

lemma dec_value_append: "dec_value (xs @ [c]) = dec_value xs * 10 + ascii_digit_to_u8 c"
  by (simp add: dec_value_def)

lemma dec_str_digits: "list_all is_ascii_digit (dec_str n)"
  by (induction n rule: dec_str.induct) (subst dec_str.simps, simp add: ascii_of_digit)

lemma dec_str_value: "dec_value (dec_str n) = n"
proof (induction n rule: dec_str.induct)
  case (1 n)
  then show ?case
    by (subst dec_str.simps) (auto simp: dec_value_append ascii_of_digit dec_value_def [of "[_]"])
qed

lemma dec_str_length: "n < 10 ^ w \<Longrightarrow> 0 < w \<Longrightarrow> 0 < length (dec_str n) \<and> length (dec_str n) \<le> w"
proof (induction n arbitrary: w rule: dec_str.induct)
  case (1 n)
  show ?case
  proof (cases "n < 10")
    case True
    with 1(3) show ?thesis by (subst (1 2) dec_str.simps) simp
  next
    case False
    with 1(2) have "1 < w" by (cases w; cases "w - 1") auto
    moreover from this have "n div 10 < 10 ^ (w - 1)"
      using 1(2) by (cases w) (auto simp: less_mult_imp_div_less mult.commute)
    ultimately have "length (dec_str (n div 10)) \<le> w - 1"
      using 1(1) [OF False, of "w - 1"] by simp
    with False \<open>1 < w\<close> show ?thesis by (subst (1 2) dec_str.simps) simp
  qed
qed

lemma dec_value_zeros: "dec_value (replicate k 0x30 @ s) = dec_value s"
proof (induction k)
  case (Suc k)
  have "dec_value (0x30 # xs) = dec_value xs" for xs
    by (simp add: dec_value_def ascii_digit_to_u8_def is_ascii_digit_def)
  with Suc show ?case by simp
qed simp

lemma fmt_pad_facts:
  assumes "n < 10 ^ w" "0 < w"
  shows "length (fmt_pad w n) = w" "list_all is_ascii_digit (fmt_pad w n)" "dec_value (fmt_pad w n) = n"
  using dec_str_length [OF assms] dec_str_digits [of n]
  by (auto simp: fmt_pad_def dec_value_zeros dec_str_value is_ascii_digit_def list_all_iff)

lemma parse_fmt_pad:
  assumes "unat c < 10 ^ w" "0 < w"
  shows "parse_u32 (fmt_pad w (unat c)) = Some c"
proof -
  obtain x xs where x: "fmt_pad w (unat c) = x # xs"
    using fmt_pad_facts(1) [OF assms] assms(2) by (cases "fmt_pad w (unat c)") auto
  then have "x \<noteq> 0x2B"
    using fmt_pad_facts(2) [OF assms] by (auto simp: is_ascii_digit_def)
  then show ?thesis
    using fmt_pad_facts [OF assms] x unsigned_less [of c] by (simp add: parse_u32_def)
qed

lemma first_non_digit_None: "list_all is_ascii_digit s \<Longrightarrow> first_non_digit i s = None"
  by (induction s arbitrary: i) auto

lemma parse_field_at:
  assumes "s = pre @ fmt_pad w (unat c) @ post" "length pre = a" "unat c < 10 ^ w" "0 < w"
  shows "parse_field a (a + w) s = Inr c"
  using assms fmt_pad_facts(1) [OF assms(3,4)] parse_fmt_pad [OF assms(3,4)]
  by (simp add: parse_field_def)

text \<open>The bit layout of the chunks, and that it is undone.\<close>

lemma mask_bits:
  "bit (0x3FFF :: u32) n \<longleftrightarrow> n < 14" "bit (0x1FFF :: u32) n \<longleftrightarrow> n < 13"
  "bit (3 :: u32) n \<longleftrightarrow> n < 2" "bit (0x300 :: u32) n \<longleftrightarrow> n = 8 \<or> n = 9"
proof -
  have m: "(0x3FFF :: u32) = mask 14" "(0x1FFF :: u32) = mask 13" "(3 :: u32) = mask 2"
    "(0x300 :: u32) = push_bit 8 (mask 2)"
    by (simp_all add: mask_eq_exp_minus_1)
  show "bit (0x3FFF :: u32) n \<longleftrightarrow> n < 14" unfolding m(1) bit_mask_iff by auto
  show "bit (0x1FFF :: u32) n \<longleftrightarrow> n < 13" unfolding m(2) bit_mask_iff by auto
  show "bit (3 :: u32) n \<longleftrightarrow> n < 2" unfolding m(3) bit_mask_iff by auto
  show "bit (0x300 :: u32) n \<longleftrightarrow> n = 8 \<or> n = 9"
    unfolding m(4) bit_push_bit_iff bit_mask_iff possible_bit_word by auto
qed

lemma unat_bits_bound:
  assumes "\<And>i. bit (x :: 'a::len word) i \<Longrightarrow> i < w"
  shows "unat x < 2 ^ w"
proof -
  have "take_bit w x = x"
    by (rule bit_word_eqI) (use assms in \<open>auto simp: bit_take_bit_iff\<close>)
  then have "unat x = take_bit w (unat x)"
    by (metis unsigned_take_bit_eq)
  then show ?thesis by (metis take_bit_nat_less_exp)
qed

lemmas chunk_bit_simps = mask_bits bit_and_iff bit_or_iff bit_push_bit_iff bit_drop_bit_eq
  possible_bit_word

lemma chunk_bits:
  fixes disc pass :: u32 and flag :: bool
  assumes "disc \<le> 0xFFF" "pass \<le> MAX_PASSCODE"
  defines "c0 \<equiv> drop_bit 10 disc OR push_bit 2 (if flag then 1 else 0)"
    and "c1 \<equiv> push_bit 6 (disc AND 0x300) OR (pass AND 0x3FFF)"
    and "c2 \<equiv> drop_bit 14 pass"
  shows "unat c0 < 10 ^ 1" "unat c1 < 10 ^ 5" "unat c2 < 10 ^ 4"
    "(drop_bit 2 c0 AND 1 = 1) = flag"
    "push_bit 2 (c0 AND 3) OR (drop_bit 14 c1 AND 3) = drop_bit 8 disc"
    "(c1 AND 0x3FFF) OR push_bit 14 (c2 AND 0x1FFF) = pass"
proof -
  have d: "bit disc i \<Longrightarrow> i < 12" "bit pass i \<Longrightarrow> i < 27" for i
    using assms(1,2) bit_small [of disc 12 i] bit_small [of pass 27 i]
    by (auto simp: MAX_PASSCODE_def word_le_nat_alt)
  have one: "bit (if flag then 1 else 0 :: u32) i \<longleftrightarrow> flag \<and> i = 0" for i
    by (simp add: bit_1_iff)
  show "unat c2 < 10 ^ 4"
    using assms(2) unfolding c2_def MAX_PASSCODE_def word_le_nat_alt unsigned_drop_bit_eq
    by (simp add: drop_bit_eq_div take_bit_eq_mod)
  show "(c1 AND 0x3FFF) OR push_bit 14 (c2 AND 0x1FFF) = pass"
    unfolding c1_def c2_def by (rule bit_word_eqI, unfold chunk_bit_simps) (auto dest: d)
  have "unat c0 < 2 ^ 3"
    unfolding c0_def by (rule unat_bits_bound, unfold chunk_bit_simps one) (auto dest: d)
  then show "unat c0 < 10 ^ 1" by simp
  have "unat c1 < 2 ^ 16"
    unfolding c1_def by (rule unat_bits_bound, unfold chunk_bit_simps) auto
  then show "unat c1 < 10 ^ 5" by simp
  have "bit c0 2 = flag"
    unfolding c0_def chunk_bit_simps one using d(1) [of 12] by auto
  moreover have "(drop_bit 2 c0 AND 1 = 1) = bit c0 2"
    by (simp only: bit_iff_odd_drop_bit and_one_eq odd_iff_mod_2_eq_one)
  ultimately show "(drop_bit 2 c0 AND 1 = 1) = flag" by simp
  show "push_bit 2 (c0 AND 3) OR (drop_bit 14 c1 AND 3) = drop_bit 8 disc"
    unfolding c0_def c1_def by (rule bit_word_eqI, unfold chunk_bit_simps one) (auto dest: d)
qed

text \<open>What a manual code keeps of a payload.\<close>

definition manual_view :: "setup_payload \<Rightarrow> setup_payload" where
  "manual_view p =
     (let both = (sp_vendor_id p \<noteq> None \<and> sp_product_id p \<noteq> None) in
      \<lparr>sp_version = 0,
       sp_vendor_id = (if both then sp_vendor_id p else None),
       sp_product_id = (if both then sp_product_id p else None),
       sp_flow = Standard, sp_capabilities = 0,
       sp_discriminator = \<lparr>disc_value = push_bit 8 (ucast (disc_short (sp_discriminator p))),
                           disc_is_short = True\<rparr>,
       sp_passcode = sp_passcode p\<rparr>)"

lemma short_of_value:
  assumes "disc_value d \<le> 0xFFF"
  shows "ucast (drop_bit 8 (ucast (disc_value d) :: u32)) = disc_short d" "disc_short d \<le> 0x0F"
proof -
  have b: "bit (disc_value d) i \<Longrightarrow> i < 12" for i
    using assms bit_small [of "disc_value d" 12 i] by (auto simp: word_le_nat_alt)
  have m: "(0x0F :: u16) = mask 4" by (simp add: mask_eq_exp_minus_1)
  show "ucast (drop_bit 8 (ucast (disc_value d) :: u32)) = disc_short d"
    unfolding disc_short_def m
    by (rule bit_word_eqI) (auto simp: bit_ucast_iff bit_drop_bit_eq bit_and_iff bit_mask_iff dest: b)
  have "unat (disc_short d) < 2 ^ 4"
    unfolding disc_short_def m
    by (rule unat_bits_bound) (auto simp: bit_ucast_iff bit_and_iff bit_mask_iff)
  then show "disc_short d \<le> 0x0F" by (simp add: word_le_nat_alt)
qed

lemma unat_ucast_u16: "unat (ucast (v :: u16) :: u32) = unat v"
  by (rule unat_ucast_up) simp

lemma narrow_u16_ucast: "narrow_u16 f (ucast (v :: u16)) = Inr v"
proof -
  have "(ucast v :: u32) < 2 ^ 16"
    using unat_bound [of v] by (simp add: word_less_nat_alt unat_ucast_u16)
  then show ?thesis by (simp add: narrow_u16_def ucast_up_ucast_id is_up)
qed

lemma manual_code_parts:
  fixes c0 c1 c2 :: u32 and ids :: "(u16 \<times> u16) option"
  assumes c: "unat c0 < 10 ^ 1" "unat c1 < 10 ^ 5" "unat c2 < 10 ^ 4" and chk: "is_ascii_digit chk"
    and s: "s = fmt_pad 1 (unat c0) @ fmt_pad 5 (unat c1) @ fmt_pad 4 (unat c2) @
      (case ids of None \<Rightarrow> [] | Some (v, q) \<Rightarrow> fmt_pad 5 (unat v) @ fmt_pad 5 (unat q)) @ [chk]"
  shows "length s = (if ids = None then 11 else 21)" "first_non_digit 0 s = None"
    "parse_field 0 1 s = Inr c0" "parse_field 1 6 s = Inr c1" "parse_field 6 10 s = Inr c2"
    "manual_ids (ids \<noteq> None) s = Inr (map_option fst ids, map_option snd ids)"
proof -
  have v5: "unat (v :: u16) < 10 ^ 5" for v
    using unat_bound [of v] by simp
  note pads = fmt_pad_facts [OF c(1)] fmt_pad_facts [OF c(2)] fmt_pad_facts [OF c(3)]
    fmt_pad_facts [OF v5]
  show len: "length s = (if ids = None then 11 else 21)"
    using pads by (auto simp: s split: option.splits)
  have "list_all is_ascii_digit s"
    using pads chk by (simp add: s split: option.splits prod.splits)
  then show "first_non_digit 0 s = None" by (rule first_non_digit_None)
  show "parse_field 0 1 s = Inr c0"
    using parse_field_at [of s "[]" 1 c0 _ 0] c(1) by (simp add: s)
  show "parse_field 1 6 s = Inr c1"
    using parse_field_at [of s "fmt_pad 1 (unat c0)" 5 c1 _ 1] c(2) pads(1) by (simp add: s)
  show "parse_field 6 10 s = Inr c2"
    using parse_field_at [of s "fmt_pad 1 (unat c0) @ fmt_pad 5 (unat c1)" 4 c2 _ 6] c(3) pads(1,4)
    by (simp add: s)
  show "manual_ids (ids \<noteq> None) s = Inr (map_option fst ids, map_option snd ids)"
  proof (cases ids)
    case None
    with len show ?thesis by (simp add: manual_ids_def)
  next
    case (Some vq)
    obtain v q where vq: "vq = (v, q)" by (cases vq)
    let ?pre = "fmt_pad 1 (unat c0) @ fmt_pad 5 (unat c1) @ fmt_pad 4 (unat c2)"
    have "parse_field 10 15 s = Inr (ucast v)"
      using parse_field_at [of s ?pre 5 "ucast v" _ 10] v5 pads Some vq
      by (simp add: s unat_ucast_u16)
    moreover have "parse_field 15 20 s = Inr (ucast q)"
      using parse_field_at [of s "?pre @ fmt_pad 5 (unat v)" 5 "ucast q" _ 15] v5 pads Some vq
      by (simp add: s unat_ucast_u16)
    ultimately show ?thesis
      using Some vq len by (simp add: manual_ids_def narrow_u16_ucast)
  qed
qed

lemma manual_unpack_pack:
  assumes "discriminator_wf (sp_discriminator p)" "passcode_wf (sp_passcode p)"
  shows "parse_manual_code (encode_manual_code p) = Inr (manual_view p)"
proof -
  define flag where "flag = (sp_vendor_id p \<noteq> None \<and> sp_product_id p \<noteq> None)"
  define ids where "ids = (if flag then Some (the (sp_vendor_id p), the (sp_product_id p)) else None)"
  define disc where "disc = (ucast (disc_value (sp_discriminator p)) :: u32)"
  define pass where "pass = as_u32 (sp_passcode p)"
  define c0 where "c0 = drop_bit 10 disc OR push_bit 2 (if flag then 1 else 0)"
  define c1 where "c1 = push_bit 6 (disc AND 0x300) OR (pass AND 0x3FFF)"
  define c2 where "c2 = drop_bit 14 pass"
  define body where "body = fmt_pad 1 (unat c0) @ fmt_pad 5 (unat c1) @ fmt_pad 4 (unat c2) @
    (case ids of None \<Rightarrow> [] | Some (v, q) \<Rightarrow> fmt_pad 5 (unat v) @ fmt_pad 5 (unat q))"
  define chk where "chk = (word_of_nat (check_digit body) + 0x30 :: byte)"
  have flag: "flag = (ids \<noteq> None)" "map_option fst ids = sp_vendor_id (manual_view p)"
    "map_option snd ids = sp_product_id (manual_view p)"
    by (auto simp: ids_def flag_def manual_view_def Let_def)
  have enc: "encode_manual_code p = body @ [chk]"
    by (auto simp: encode_manual_code_def manual_pack_def Let_def body_def chk_def flag_def ids_def
        disc_def pass_def c0_def c1_def c2_def)
  have small: "disc \<le> 0xFFF" "pass \<le> MAX_PASSCODE"
    using assms by (simp_all add: disc_def pass_def discriminator_wf_def passcode_wf_def
        word_le_nat_alt unat_ucast_u16)
  have ch: "unat c0 < 10 ^ 1" "unat c1 < 10 ^ 5" "unat c2 < 10 ^ 4"
    "(drop_bit 2 c0 AND 1 = 1) = flag"
    "push_bit 2 (c0 AND 3) OR (drop_bit 14 c1 AND 3) = drop_bit 8 disc"
    "(c1 AND 0x3FFF) OR push_bit 14 (c2 AND 0x1FFF) = pass"
    unfolding c0_def c1_def c2_def by (rule chunk_bits [OF small])+
  have "is_ascii_digit chk" unfolding chk_def by (rule ascii_of_check_digit)
  note parts = manual_code_parts [OF ch(1-3) this, of "body @ [chk]" ids]
  have ver: "verify (body @ [chk])" unfolding chk_def by (rule verify_check_digit)
  have "discriminator_from_short (ucast (drop_bit 8 disc)) = Inr (sp_discriminator (manual_view p))"
    using short_of_value [of "sp_discriminator p"] assms(1)
    by (simp add: disc_def discriminator_wf_def discriminator_from_short_def manual_view_def Let_def)
  moreover have "passcode_new pass = Inr (sp_passcode p)"
    using assms(2) by (auto simp: passcode_new_def passcode_wf_def pass_def)
  ultimately show ?thesis
    using parts ver ch(4-6) flag
    by (simp add: body_def enc parse_manual_code_def manual_unpack_def Let_def)
      (simp add: manual_view_def Let_def)
qed

text \<open>
  Manual code round trip: for every payload with a valid discriminator and passcode,
  the code parses back to the passcode, the short discriminator and, when both are
  present, the vendor and product id.
\<close>

theorem manual_roundtrip:
  assumes "discriminator_wf (sp_discriminator p)" "passcode_wf (sp_passcode p)"
  shows "parse_manual_code (encode_manual_code p) = Inr (manual_view p)"
  using assms by (rule manual_unpack_pack)

theorem manual_roundtrip_witness:
  "parse_manual_code (encode_manual_code spec_payload) = Inr (manual_view spec_payload)"
  by (rule manual_roundtrip) (simp_all add: spec_payload_def discriminator_wf_def
      passcode_wf_def DISALLOWED_PASSCODES_def MAX_PASSCODE_def)

lemma matches_advertised_short:
  assumes "disc_value d \<le> 0xFFF"
  shows "matches_advertised \<lparr>disc_value = push_bit 8 (ucast (disc_short d)), disc_is_short = True\<rparr> adv
    \<longleftrightarrow> drop_bit 8 adv AND 0x0F = drop_bit 8 (disc_value d)"
proof -
  have m: "(0x0F :: u16) = mask 4" by (simp add: mask_eq_exp_minus_1)
  have b: "bit (disc_value d) i \<Longrightarrow> i < 12" for i
    using assms bit_small [of "disc_value d" 12 i] by (auto simp: word_le_nat_alt)
  have "ucast (disc_short \<lparr>disc_value = push_bit 8 (ucast (disc_short d)), disc_is_short = True\<rparr>) =
      drop_bit 8 (disc_value d)"
    unfolding disc_short_def m
    by (rule bit_word_eqI)
      (auto simp: bit_ucast_iff bit_drop_bit_eq bit_and_iff bit_mask_iff bit_push_bit_iff dest: b)
  then show ?thesis by (simp add: matches_advertised_def)
qed

text \<open>
  The discriminator parsed from a manual code matches an advertised 12-bit value
  exactly when the two agree in their upper four bits; in particular it matches the device
  the code was printed for.
\<close>

theorem manual_code_finds_device:
  assumes "discriminator_wf (sp_discriminator p)" "passcode_wf (sp_passcode p)"
    and "parse_manual_code (encode_manual_code p) = Inr q" "adv \<le> 0xFFF"
  shows "matches_advertised (sp_discriminator q) adv \<longleftrightarrow>
    drop_bit 8 adv = drop_bit 8 (disc_value (sp_discriminator p))"
proof -
  have m: "(0x0F :: u16) = mask 4" by (simp add: mask_eq_exp_minus_1)
  have b: "bit adv i \<Longrightarrow> i < 12" for i
    using assms(4) bit_small [of adv 12 i] by (auto simp: word_le_nat_alt)
  have "drop_bit 8 adv AND 0x0F = drop_bit 8 adv"
    unfolding m by (intro bit_word_eqI)
      (auto simp: bit_drop_bit_eq bit_and_iff bit_mask_iff dest: b)
  moreover have "q = manual_view p"
    using manual_unpack_pack [OF assms(1,2)] assms(3) by simp
  ultimately show ?thesis
    using matches_advertised_short [of "sp_discriminator p" adv] assms(1)
    by (simp add: discriminator_wf_def manual_view_def Let_def)
qed

theorem manual_code_finds_device_witness:
  "matches_advertised (sp_discriminator (manual_view spec_payload)) 0xF42"
proof -
  have wf: "discriminator_wf (sp_discriminator spec_payload)" "passcode_wf (sp_passcode spec_payload)"
    by (simp_all add: spec_payload_def discriminator_wf_def
      passcode_wf_def DISALLOWED_PASSCODES_def MAX_PASSCODE_def)
  from manual_code_finds_device [OF wf manual_unpack_pack [OF wf], of "0xF42"] show ?thesis
    by (simp add: spec_payload_def)
qed

end
