(* ===== verification/Protocol_Header.thy ===== *)
theory Protocol_Header
  imports Matter_Prelude
begin

text \<open>
  The application protocol header inside a secured message,
  \<open>crates/matter-transport/src/protocol_header.rs\<close>, and the error type of the transport
  crate (\<open>error.rs\<close>). Encoding and decoding form an instance of the byte-codec interface.
\<close>

section \<open>Errors of the transport crate\<close>

text \<open>
  The variants of the I/O adapters (\<open>Io\<close>, \<open>Mdns\<close>) are feature-gated and not raised by the
  modelled code; \<open>Crypto\<close> carries no detail.
\<close>

datatype transport_error =
    MalformedHeader nat
  | DecryptionFailed
  | ReplayedCounter u32
  | CounterTooOld u32 u32 u32
  | UnknownSession u16
  | CounterOverflow
  | PayloadTooLarge nat nat
  | MalformedProtocolHeader nat
  | MrpRetransmitExhausted u16 u32
  | ExchangeTableFull
  | CryptoError

section \<open>Slices\<close>

definition slice_at :: "nat \<Rightarrow> nat \<Rightarrow> bytes \<Rightarrow> bytes" where
  "slice_at a n bs = take n (drop a bs)"

lemma length_slice: "a + n \<le> length bs \<Longrightarrow> length (slice_at a n bs) = n"
  by (simp add: slice_at_def)

lemma slice_append_slice: "slice_at a n bs @ slice_at (a + n) m bs = slice_at a (n + m) bs"
  unfolding slice_at_def take_add by (simp add: add.commute)

lemma slice_append_drop: "slice_at a n bs @ drop (a + n) bs = drop a bs"
  unfolding slice_at_def by (metis append_take_drop_id drop_drop add.commute)

lemma slice_0_drop: "slice_at 0 n bs @ drop n bs = bs"
  by (simp add: slice_at_def)

lemma slice_drop: "slice_at a n (drop b bs) = slice_at (a + b) n bs"
  by (simp add: slice_at_def)

lemma slice_skip: "length xs \<le> a \<Longrightarrow> slice_at a n (xs @ ys) = slice_at (a - length xs) n ys"
  by (simp add: slice_at_def)

lemma slice_here: "length xs = n \<Longrightarrow> slice_at 0 n (xs @ ys) = xs"
  by (simp add: slice_at_def)

lemma slice_numeral_Cons [simp]:
  "slice_at (numeral k) n (x # xs) = slice_at (pred_numeral k) n xs"
  by (simp add: slice_at_def numeral_eq_Suc)

lemma slice_Suc_Cons [simp]: "slice_at (Suc a) n (x # xs) = slice_at a n xs"
  by (simp add: slice_at_def)

lemma nth_slice1: "a < length bs \<Longrightarrow> slice_at a 1 bs = [bs ! a]"
  by (simp add: slice_at_def take_Suc_conv_app_nth flip: Cons_nth_drop_Suc)

section \<open>Data\<close>

definition FLAG_INITIATOR :: u8 where "FLAG_INITIATOR = 0x01"
definition FLAG_ACK :: u8 where "FLAG_ACK = 0x02"
definition FLAG_RELIABLE :: u8 where "FLAG_RELIABLE = 0x04"
definition FLAG_SECURE_EXTENSION :: u8 where "FLAG_SECURE_EXTENSION = 0x08"
definition FLAG_VENDOR :: u8 where "FLAG_VENDOR = 0x10"
definition RESERVED_FLAG_BITS :: u8 where "RESERVED_FLAG_BITS = 0xE0"

lemmas exchange_flag_defs = FLAG_INITIATOR_def FLAG_ACK_def FLAG_RELIABLE_def
  FLAG_SECURE_EXTENSION_def FLAG_VENDOR_def RESERVED_FLAG_BITS_def

text \<open>\<open>bitflags\<close>: \<open>contains\<close> and \<open>set\<close>.\<close>

definition flags_contain :: "u8 \<Rightarrow> u8 \<Rightarrow> bool" where
  "flags_contain flags f \<longleftrightarrow> flags AND f = f"

definition flags_set :: "u8 \<Rightarrow> bool \<Rightarrow> u8 \<Rightarrow> u8" where
  "flags_set f b flags = (if b then flags OR f else flags AND NOT f)"

record protocol_id =
  pid_vendor :: u16
  pid_protocol :: u16

definition PID_SECURE_CHANNEL :: protocol_id where
  "PID_SECURE_CHANNEL = \<lparr>pid_vendor = 0, pid_protocol = 0\<rparr>"

definition PID_INTERACTION_MODEL :: protocol_id where
  "PID_INTERACTION_MODEL = \<lparr>pid_vendor = 0, pid_protocol = 1\<rparr>"

definition PID_BDX :: protocol_id where
  "PID_BDX = \<lparr>pid_vendor = 0, pid_protocol = 2\<rparr>"

definition STANDALONE_ACK :: u8 where "STANDALONE_ACK = 0x10"
definition STATUS_REPORT :: u8 where "STATUS_REPORT = 0x40"

record protocol_header =
  ph_flags :: u8
  ph_opcode :: u8
  ph_exchange_id :: u16
  ph_protocol_id :: protocol_id
  ph_ack_counter :: "u32 option"

section \<open>Operations\<close>

text \<open>The flags as emitted: vendor and acknowledgement bits follow the fields.\<close>

definition wire_flags :: "protocol_header \<Rightarrow> u8" where
  "wire_flags h = flags_set FLAG_ACK (ph_ack_counter h \<noteq> None)
     (flags_set FLAG_VENDOR (pid_vendor (ph_protocol_id h) \<noteq> 0) (ph_flags h))"

definition encode_protocol_header :: "protocol_header \<Rightarrow> bytes" where
  "encode_protocol_header h =
     [wire_flags h, ph_opcode h] @ to_le 2 (ph_exchange_id h)
     @ to_le 2 (pid_protocol (ph_protocol_id h))
     @ (if pid_vendor (ph_protocol_id h) \<noteq> 0 then to_le 2 (pid_vendor (ph_protocol_id h)) else [])
     @ (case ph_ack_counter h of Some c \<Rightarrow> to_le 4 c | None \<Rightarrow> [])"

definition skip_length_prefixed :: "bytes \<Rightarrow> nat \<Rightarrow> transport_error + nat" where
  "skip_length_prefixed bs offset =
     (if length bs < offset + 2 then Inl (MalformedProtocolHeader offset)
      else let len = unat (of_le (slice_at offset 2 bs) :: u16); data_offset = offset + 2 in
        if length bs < data_offset + len then Inl (MalformedProtocolHeader data_offset)
        else Inr (data_offset + len))"

definition decode_vendor :: "u8 \<Rightarrow> bytes \<Rightarrow> nat \<Rightarrow> transport_error + u16 \<times> nat" where
  "decode_vendor flags bs offset =
     (if flags_contain flags FLAG_VENDOR then
        (if length bs < offset + 2 then Inl (MalformedProtocolHeader offset)
         else Inr (of_le (slice_at offset 2 bs), offset + 2))
      else Inr (0, offset))"

definition decode_ack :: "u8 \<Rightarrow> bytes \<Rightarrow> nat \<Rightarrow> transport_error + u32 option \<times> nat" where
  "decode_ack flags bs offset =
     (if flags_contain flags FLAG_ACK then
        (if length bs < offset + 4 then Inl (MalformedProtocolHeader offset)
         else Inr (Some (of_le (slice_at offset 4 bs)), offset + 4))
      else Inr (None, offset))"

definition decode_protocol_header :: "bytes \<Rightarrow> transport_error + protocol_header \<times> bytes" where
  "decode_protocol_header bs =
     (if length bs < 6 then Inl (MalformedProtocolHeader (length bs))
      else let flags = bs ! 0 in
        if flags AND RESERVED_FLAG_BITS \<noteq> 0 then Inl (MalformedProtocolHeader 0)
        else
          try_bind (decode_vendor flags bs 6) (\<lambda>(vendor, offset).
          try_bind (decode_ack flags bs offset) (\<lambda>(ack, offset).
          try_bind (if flags_contain flags FLAG_SECURE_EXTENSION then skip_length_prefixed bs offset
                    else Inr offset) (\<lambda>offset.
          Inr (\<lparr>ph_flags = flags, ph_opcode = bs ! 1, ph_exchange_id = of_le (slice_at 2 2 bs),
                ph_protocol_id = \<lparr>pid_vendor = vendor, pid_protocol = of_le (slice_at 4 2 bs)\<rparr>,
                ph_ack_counter = ack\<rparr>, drop offset bs)))))"

definition build_standalone_ack_header :: "u16 \<Rightarrow> u32 \<Rightarrow> bool \<Rightarrow> protocol_header" where
  "build_standalone_ack_header exchange_id ack_counter is_local_initiator =
     \<lparr>ph_flags = (if is_local_initiator then FLAG_ACK OR FLAG_INITIATOR else FLAG_ACK),
      ph_opcode = STANDALONE_ACK, ph_exchange_id = exchange_id,
      ph_protocol_id = PID_SECURE_CHANNEL, ph_ack_counter = Some ack_counter\<rparr>"

section \<open>Round trip\<close>

text \<open>
  The flag bits by position; every statement about flags below is decided by them.
\<close>

lemma flag_bits:
  "flags_contain fl FLAG_ACK \<longleftrightarrow> bit fl 1" "flags_contain fl FLAG_VENDOR \<longleftrightarrow> bit fl 4"
  "flags_contain fl FLAG_SECURE_EXTENSION \<longleftrightarrow> bit fl 3" "flags_contain fl FLAG_INITIATOR \<longleftrightarrow> bit fl 0"
  "flags_contain fl FLAG_RELIABLE \<longleftrightarrow> bit fl 2"
proof -
  have p: "fl AND 2 ^ n = 2 ^ n \<longleftrightarrow> bit fl n" if "n < 8" for n
  proof
    assume "fl AND 2 ^ n = 2 ^ n"
    then have "bit (fl AND 2 ^ n) n = bit (2 ^ n :: u8) n" by simp
    with that show "bit fl n" by (simp add: bit_and_iff bit_exp_iff)
  next
    assume "bit fl n"
    then show "fl AND 2 ^ n = 2 ^ n"
      by (intro bit_word_eqI) (auto simp: bit_and_iff bit_exp_iff)
  qed
  show "flags_contain fl FLAG_ACK \<longleftrightarrow> bit fl 1" "flags_contain fl FLAG_VENDOR \<longleftrightarrow> bit fl 4"
    "flags_contain fl FLAG_SECURE_EXTENSION \<longleftrightarrow> bit fl 3" "flags_contain fl FLAG_INITIATOR \<longleftrightarrow> bit fl 0"
    "flags_contain fl FLAG_RELIABLE \<longleftrightarrow> bit fl 2"
    using p [of 1] p [of 4] p [of 3] p [of 0] p [of 2]
    by (simp_all add: flags_contain_def exchange_flag_defs)
qed

definition protocol_header_wf :: "protocol_header \<Rightarrow> bool" where
  "protocol_header_wf h \<longleftrightarrow> ph_flags h AND RESERVED_FLAG_BITS = 0 \<and>
     \<not> flags_contain (ph_flags h) FLAG_SECURE_EXTENSION \<and>
     (flags_contain (ph_flags h) FLAG_VENDOR \<longleftrightarrow> pid_vendor (ph_protocol_id h) \<noteq> 0) \<and>
     (flags_contain (ph_flags h) FLAG_ACK \<longleftrightarrow> ph_ack_counter h \<noteq> None)"

lemma bit_flags_set: "bit (flags_set f b fl) n \<longleftrightarrow> (if bit f n then b else bit fl n)"
  using bit_imp_le_length [of fl n] bit_imp_le_length [of f n]
  by (auto simp: flags_set_def bit_or_iff bit_and_iff bit_not_iff)

lemma wire_flags_bits:
  "bit (wire_flags h) n \<longleftrightarrow>
     (if n = 1 then ph_ack_counter h \<noteq> None
      else if n = 4 then pid_vendor (ph_protocol_id h) \<noteq> 0 else bit (ph_flags h) n)"
proof -
  have b: "bit (2 :: u8) n \<longleftrightarrow> n = 1" "bit (0x10 :: u8) n \<longleftrightarrow> n = 4"
    using bit_exp_iff [where 'a = u8, of 1 n] bit_exp_iff [where 'a = u8, of 4 n] by auto
  then show ?thesis
    by (simp add: wire_flags_def bit_flags_set FLAG_ACK_def FLAG_VENDOR_def)
qed

lemma all_less_8: "(\<forall>n<8::nat. P n) \<longleftrightarrow> P 0 \<and> P 1 \<and> P 2 \<and> P 3 \<and> P 4 \<and> P 5 \<and> P 6 \<and> P 7"
proof -
  have "{n. n < (8::nat)} = {0, 1, 2, 3, 4, 5, 6, 7}" by auto
  then have "(\<forall>n<8::nat. P n) \<longleftrightarrow> (\<forall>n\<in>{0, 1, 2, 3, 4, 5, 6, 7}. P n)" by blast
  then show ?thesis by simp
qed

lemma u8_and_eq_0_iff: "(x AND y = (0 :: u8)) \<longleftrightarrow> (\<forall>n<8. \<not> (bit x n \<and> bit y n))"
  unfolding bit_eq_iff [of "x AND y" 0] by (auto simp: bit_and_iff dest: bit_imp_le_length)

lemma reserved_clear_iff: "fl AND RESERVED_FLAG_BITS = 0 \<longleftrightarrow> \<not> bit fl 5 \<and> \<not> bit fl 6 \<and> \<not> bit fl 7"
  unfolding RESERVED_FLAG_BITS_def u8_and_eq_0_iff all_less_8 by simp

lemma wire_flags_wf: "protocol_header_wf h \<Longrightarrow> wire_flags h = ph_flags h"
  by (rule bit_word_eqI) (auto simp: wire_flags_bits protocol_header_wf_def flag_bits)

lemma encode_wire_flags:
  "encode_protocol_header (h\<lparr>ph_flags := wire_flags h\<rparr>) = encode_protocol_header h"
proof -
  have "wire_flags (h\<lparr>ph_flags := wire_flags h\<rparr>) = wire_flags h"
    by (rule bit_word_eqI) (simp add: wire_flags_bits)
  then show ?thesis by (simp add: encode_protocol_header_def)
qed

lemma wire_flags_normal:
  assumes "ph_flags h AND RESERVED_FLAG_BITS = 0" "\<not> flags_contain (ph_flags h) FLAG_SECURE_EXTENSION"
  shows "protocol_header_wf (h\<lparr>ph_flags := wire_flags h\<rparr>)"
  using assms unfolding protocol_header_wf_def reserved_clear_iff flag_bits by (simp add: wire_flags_bits)

lemma decode_encode_wf:
  assumes "protocol_header_wf h"
  shows "decode_protocol_header (encode_protocol_header h @ rest) = Inr (h, rest)"
proof -
  define vb where "vb = (if pid_vendor (ph_protocol_id h) \<noteq> 0 then to_le 2 (pid_vendor (ph_protocol_id h)) else [])"
  define ab where "ab = (case ph_ack_counter h of Some c \<Rightarrow> to_le 4 c | None \<Rightarrow> [])"
  define fixed where "fixed = [ph_flags h, ph_opcode h] @ to_le 2 (ph_exchange_id h) @ to_le 2 (pid_protocol (ph_protocol_id h))"
  let ?bs = "fixed @ vb @ ab @ rest"
  have len: "length fixed = 6" by (simp add: fixed_def)
  have enc: "encode_protocol_header h @ rest = ?bs"
    using wire_flags_wf [OF assms] by (simp add: encode_protocol_header_def vb_def ab_def fixed_def)
  have fields: "?bs ! 0 = ph_flags h" "?bs ! 1 = ph_opcode h"
    "(of_le (slice_at 2 2 ?bs) :: u16) = ph_exchange_id h"
    "(of_le (slice_at 4 2 ?bs) :: u16) = pid_protocol (ph_protocol_id h)"
    by (simp_all add: fixed_def slice_skip slice_here)
  have v: "decode_vendor (ph_flags h) ?bs 6 = Inr (pid_vendor (ph_protocol_id h), 6 + length vb)"
    using assms len by (simp add: decode_vendor_def vb_def protocol_header_wf_def slice_skip slice_here)
  have a: "decode_ack (ph_flags h) ?bs (6 + length vb) =
      Inr (ph_ack_counter h, 6 + length vb + length ab)"
    using assms len by (auto simp: decode_ack_def ab_def protocol_header_wf_def slice_skip slice_here)
  have d: "drop (6 + length vb + length ab) ?bs = rest" using len by simp
  have "\<not> length ?bs < 6" using len by simp
  with assms fields v a d show ?thesis
    unfolding enc decode_protocol_header_def Let_def by (simp add: protocol_header_wf_def)
qed

interpretation protocol_header: byte_codec encode_protocol_header decode_protocol_header
  protocol_header_wf "\<lambda>_. True"
  by unfold_locales (rule decode_encode_wf)

section \<open>Accepted headers are encodings\<close>

lemma decode_vendor_reads:
  assumes "decode_vendor fl bs off = Inr (v, off')" "flags_contain fl FLAG_VENDOR \<longleftrightarrow> v \<noteq> 0"
  shows "drop off bs = (if v \<noteq> 0 then to_le 2 v else []) @ drop off' bs"
  using assms
  by (auto simp: decode_vendor_def to_le_of_le length_slice slice_append_drop simp del: add_2_eq_Suc'
      split: if_splits)

lemma decode_ack_reads:
  assumes "decode_ack fl bs off = Inr (a, off')"
  shows "drop off bs = (case a of Some c \<Rightarrow> to_le 4 c | None \<Rightarrow> []) @ drop off' bs"
  using assms
  by (auto simp: decode_ack_def to_le_of_le length_slice slice_append_drop split: if_splits)

lemma decode_fixed_reads:
  assumes "6 \<le> length bs"
  shows "[bs ! 0, bs ! 1] @ to_le 2 (of_le (slice_at 2 2 bs) :: u16) @ to_le 2 (of_le (slice_at 4 2 bs) :: u16)
    @ drop 6 bs = bs"
proof -
  from assms obtain b0 b1 bs' where "bs = b0 # b1 # bs'"
    by (cases bs; cases "tl bs") auto
  with assms show ?thesis
    using slice_append_drop [of 2 2 bs] slice_append_drop [of 4 2 bs]
    by (simp add: to_le_of_le length_slice)
qed

lemma decode_then_encode:
  assumes dec: "decode_protocol_header bs = Inr (h, rest)" and wf: "protocol_header_wf h"
  shows "bs = encode_protocol_header h @ rest"
proof -
  from dec have len: "6 \<le> length bs" by (auto simp: decode_protocol_header_def split: if_splits)
  from dec wf obtain v o1 a o2 where v: "decode_vendor (bs ! 0) bs 6 = Inr (v, o1)"
    and a: "decode_ack (bs ! 0) bs o1 = Inr (a, o2)" and rest: "rest = drop o2 bs"
    and h: "h = \<lparr>ph_flags = bs ! 0, ph_opcode = bs ! 1, ph_exchange_id = of_le (slice_at 2 2 bs),
          ph_protocol_id = \<lparr>pid_vendor = v, pid_protocol = of_le (slice_at 4 2 bs)\<rparr>,
          ph_ack_counter = a\<rparr>"
    by (auto simp: decode_protocol_header_def protocol_header_wf_def Let_def try_bind_eq_Inr
        split: if_splits)
  from wf have fl: "wire_flags h = bs ! 0" using wire_flags_wf [of h] by (simp add: h)
  have "drop 6 bs = (if v \<noteq> 0 then to_le 2 v else []) @ drop o1 bs"
    using v by (rule decode_vendor_reads) (use wf in \<open>simp add: protocol_header_wf_def h\<close>)
  also have "drop o1 bs = (case a of Some c \<Rightarrow> to_le 4 c | None \<Rightarrow> []) @ drop o2 bs"
    using a by (rule decode_ack_reads)
  finally show ?thesis
    using decode_fixed_reads [OF len] fl
    by (cases "v = 0") (simp_all add: encode_protocol_header_def h rest)
qed

section \<open>Properties\<close>

text \<open>
  Round trip: whatever acknowledgement and vendor bits the caller set, decoding an encoded
  header followed by any payload returns the header with these two bits derived from its
  fields, and exactly the payload. Reserved and extension bits must be clear: extension data
  is never emitted.
\<close>

theorem protocol_header_roundtrip:
  assumes "ph_flags h AND RESERVED_FLAG_BITS = 0"
    and "\<not> flags_contain (ph_flags h) FLAG_SECURE_EXTENSION"
  shows "decode_protocol_header (encode_protocol_header h @ rest) =
    Inr (h\<lparr>ph_flags := wire_flags h\<rparr>, rest)"
  using protocol_header.decode_encode [OF wire_flags_normal [OF assms], of rest]
  by (simp add: encode_wire_flags)

theorem protocol_header_roundtrip_witness:
  "decode_protocol_header (encode_protocol_header
      \<lparr>ph_flags = 0x05, ph_opcode = 8, ph_exchange_id = 0x1234, ph_protocol_id = PID_INTERACTION_MODEL,
       ph_ack_counter = Some 7\<rparr> @ [1, 2]) =
   Inr (\<lparr>ph_flags = 0x07, ph_opcode = 8, ph_exchange_id = 0x1234,
        ph_protocol_id = PID_INTERACTION_MODEL, ph_ack_counter = Some 7\<rparr>, [1, 2])"
  by (subst protocol_header_roundtrip)
    (simp_all add: flags_contain_def exchange_flag_defs wire_flags_def flags_set_def PID_INTERACTION_MODEL_def)

text \<open>
  C39. The decoder accepts nothing but encodings: on headers in normal form (no extension, the
  vendor bit set exactly for a non-zero vendor), an input decodes to a header and a remainder
  if and only if it is the encoding of that header followed by that remainder.
\<close>

theorem protocol_header_exact:
  "(protocol_header_wf h \<and> decode_protocol_header bs = Inr (h, rest)) =
   (protocol_header_wf h \<and> bs = encode_protocol_header h @ rest)"
  using decode_then_encode protocol_header.decode_encode by auto

end
