(* ===== verification/Replay_Window.thy ===== *)
theory Replay_Window
  imports Protocol_Header
begin

text \<open>
  The sliding window that rejects replayed message counters,
  \<open>ReplayWindow\<close> in \<open>crates/matter-transport/src/framing.rs\<close>. The window is an instance of a
  replay-filter interface, and it refines a specification that remembers every counter it
  ever accepted.
\<close>

section \<open>Interface: replay filters\<close>

text \<open>
  A filter decides whether an item is fresh and records it. Its contract: recording keeps the
  invariant, blocks the item from then on, and frees none that was blocked.
\<close>

locale replay_filter =
  fixes fresh :: "'s \<Rightarrow> 'c \<Rightarrow> bool"
    and note_seen :: "'s \<Rightarrow> 'c \<Rightarrow> 's"
    and inv :: "'s \<Rightarrow> bool"
  assumes note_inv: "inv s \<Longrightarrow> fresh s c \<Longrightarrow> inv (note_seen s c)"
    and note_blocks: "inv s \<Longrightarrow> fresh s c \<Longrightarrow> \<not> fresh (note_seen s c) c"
    and note_mono: "inv s \<Longrightarrow> fresh s c \<Longrightarrow> fresh (note_seen s c) d \<Longrightarrow> fresh s d"
begin

fun accepted :: "'s \<Rightarrow> 'c list \<Rightarrow> 'c list" where
  "accepted s [] = []"
| "accepted s (c # cs) =
     (if fresh s c then c # accepted (note_seen s c) cs else accepted s cs)"

lemma accepted_fresh: "inv s \<Longrightarrow> c \<in> set (accepted s cs) \<Longrightarrow> fresh s c"
  by (induction s cs rule: accepted.induct) (auto split: if_splits dest: note_inv note_mono)

lemma accepted_distinct: "inv s \<Longrightarrow> distinct (accepted s cs)"
proof (induction s cs rule: accepted.induct)
  case (2 s c cs)
  then show ?case
    using accepted_fresh [of "note_seen s c" c cs] by (auto dest: note_inv note_blocks)
qed simp

end

section \<open>The window\<close>

record replay_window =
  highest_seen :: u32
  bitmap :: u32

definition WIDTH :: u32 where "WIDTH = 32"

definition replay_window_new :: replay_window where
  "replay_window_new = \<lparr>highest_seen = 0, bitmap = 0\<rparr>"

text \<open>\<open>u32::checked_shl(n).unwrap_or(0)\<close> and \<open>saturating_sub\<close>.\<close>

definition shl_or_zero :: "u32 \<Rightarrow> u32 \<Rightarrow> u32" where
  "shl_or_zero x n = (if n < 32 then push_bit (unat n) x else 0)"

definition saturating_sub :: "'a::len word \<Rightarrow> 'a word \<Rightarrow> 'a word" where
  "saturating_sub x y = (if y \<le> x then x - y else 0)"

definition classify :: "replay_window \<Rightarrow> u32 \<Rightarrow> transport_error + unit" where
  "classify w counter =
     (let highest = highest_seen w in
      if counter > highest then Inr ()
      else if counter = highest then Inl (ReplayedCounter counter)
      else let offset = highest - counter in
        if offset > WIDTH then Inl (CounterTooOld counter (saturating_sub highest WIDTH) highest)
        else if bitmap w AND push_bit (unat (offset - 1)) 1 \<noteq> 0 then Inl (ReplayedCounter counter)
        else Inr ())"

definition would_reject :: "replay_window \<Rightarrow> u32 \<Rightarrow> transport_error + unit" where
  "would_reject w counter = classify w counter"

definition record_counter :: "replay_window \<Rightarrow> u32 \<Rightarrow> replay_window" where
  "record_counter w counter =
     (let highest = highest_seen w in
      if counter > highest then
        let shift = counter - highest in
        \<lparr>highest_seen = counter,
         bitmap = (if shift > WIDTH then 0
                   else shl_or_zero (bitmap w) shift OR push_bit (unat (shift - 1)) 1)\<rparr>
      else w\<lparr>bitmap := bitmap w OR push_bit (unat (highest - counter - 1)) 1\<rparr>)"

definition check_and_record :: "u32 \<Rightarrow> (replay_window, transport_error, unit) comp" where
  "check_and_record counter w =
     (case classify w counter of Inl e \<Rightarrow> (Inl e, w) | Inr _ \<Rightarrow> (Inr (), record_counter w counter))"

section \<open>Specification\<close>

text \<open>
  The specification keeps the set of all counters ever accepted, counter 0 included from the
  start, and accepts a new counter unless it is more than 32 behind the largest.
\<close>

definition spec_fresh :: "nat set \<Rightarrow> nat \<Rightarrow> bool" where
  "spec_fresh S c \<longleftrightarrow> c \<notin> S \<and> Max S \<le> c + 32"

definition window_fresh :: "replay_window \<Rightarrow> u32 \<Rightarrow> bool" where
  "window_fresh w c \<longleftrightarrow> classify w c = Inr ()"

text \<open>The window represents a set of counters.\<close>

definition represents :: "replay_window \<Rightarrow> nat set \<Rightarrow> bool" where
  "represents w S \<longleftrightarrow> finite S \<and> S \<noteq> {} \<and> unat (highest_seen w) = Max S \<and>
     (\<forall>n. 1 \<le> n \<and> n \<le> 32 \<and> n \<le> Max S \<longrightarrow> (bit (bitmap w) (n - 1) \<longleftrightarrow> Max S - n \<in> S))"

lemma test_bit_exp: "x AND 2 ^ n = 0 \<longleftrightarrow> \<not> bit (x :: 'a::len word) n"
  unfolding bit_eq_iff [of "x AND 2 ^ n"]
  by (auto simp: bit_and_iff bit_exp_iff dest: bit_imp_le_length)

lemma word_gt_0_unat_pred: "(0 :: 'a::len word) < x \<Longrightarrow> unat (x - 1) = unat x - 1"
  by (metis less_irrefl unat_minus_one word_neq_0_conv)

lemma unat_offset:
  assumes "(c :: 'a::len word) < h"
  shows "unat (h - c) = unat h - unat c" "unat (h - c - 1) = unat h - unat c - 1"
proof -
  show d: "unat (h - c) = unat h - unat c" using assms by (intro unat_sub) simp
  have "unat c < unat h" using assms by (simp add: word_less_nat_alt)
  then have "0 < h - c" using d by (simp add: word_less_nat_alt)
  with d show "unat (h - c - 1) = unat h - unat c - 1" by (simp add: word_gt_0_unat_pred)
qed

lemma classify_fresh:
  assumes "represents w S"
  shows "window_fresh w c \<longleftrightarrow> spec_fresh S (unat c)"
proof -
  let ?h = "highest_seen w"
  note r = assms [unfolded represents_def]
  have notin: "unat c \<notin> S" if "unat c > Max S"
    using r that by (metis Max_ge leD)
  have inS: "Max S \<in> S" using r by simp
  show ?thesis
  proof (cases "c < ?h")
    case True
    then have lt: "unat c < Max S" using r by (simp add: word_less_nat_alt)
    have off: "unat (?h - c) = Max S - unat c" "unat (?h - c - 1) = Max S - unat c - 1"
      using unat_offset [OF True] r by simp_all
    have old: "?h - c > WIDTH \<longleftrightarrow> Max S - unat c > 32"
      by (simp add: word_less_nat_alt WIDTH_def off)
    have "bit (bitmap w) (Max S - unat c - 1) \<longleftrightarrow> unat c \<in> S" if "\<not> Max S - unat c > 32"
      using r lt that by (metis (no_types, lifting) One_nat_def Suc_leI diff_diff_cancel diff_le_self
          less_imp_le_nat not_less zero_less_diff)
    with True old off lt show ?thesis
      by (auto simp: window_fresh_def classify_def Let_def spec_fresh_def test_bit_exp)
  next
    case False
    moreover have hS: "unat ?h = Max S" using r by simp
    ultimately have "Max S \<le> unat c" by (simp add: word_less_nat_alt)
    then consider "Max S < unat c" | "Max S = unat c" by linarith
    then show ?thesis
    proof cases
      case 1
      then have "c > ?h" using hS by (simp add: word_less_nat_alt)
      with 1 notin show ?thesis by (simp add: window_fresh_def classify_def spec_fresh_def)
    next
      case 2
      then have "c = ?h" using hS by (simp add: word_unat_eq_iff)
      with 2 inS show ?thesis by (simp add: window_fresh_def classify_def spec_fresh_def Let_def)
    qed
  qed
qed

lemma bit_or_single: "bit (x OR push_bit n (1 :: 'a::len word)) m \<longleftrightarrow> bit x m \<or> (m = n \<and> n < LENGTH('a))"
  by (auto simp: bit_or_iff bit_push_bit_iff bit_1_iff simp del: push_bit_of_1)

lemma record_forward:
  assumes "represents w S" "c > highest_seen w"
  shows "represents (record_counter w c) (insert (unat c) S)"
proof -
  let ?h = "highest_seen w" and ?w = "record_counter w c"
  note r = assms(1) [unfolded represents_def]
  define k where "k = unat c - Max S"
  have hS: "unat ?h = Max S" using r by simp
  have sh: "unat (c - ?h) = k" "unat (c - ?h - 1) = k - 1"
    using unat_offset [OF assms(2)] hS by (simp_all add: k_def)
  have c: "unat c = Max S + k" "0 < k" using assms(2) hS by (simp_all add: k_def word_less_nat_alt)
  have max: "Max (insert (unat c) S) = unat c"
    using r c by (simp add: max_def)
  have big: "c - ?h > WIDTH \<longleftrightarrow> k > 32" by (simp add: word_less_nat_alt WIDTH_def sh)
  have w: "highest_seen ?w = c" "bitmap ?w = (if k > 32 then 0
      else shl_or_zero (bitmap w) (c - ?h) OR push_bit (k - 1) 1)"
    using assms(2) big sh by (simp_all add: record_counter_def Let_def)
  have "bit (bitmap ?w) (n - 1) \<longleftrightarrow> unat c - n \<in> insert (unat c) S"
    if n: "1 \<le> n" "n \<le> 32" "n \<le> unat c" for n
  proof -
    have bits: "bit (bitmap ?w) (n - 1) \<longleftrightarrow> k \<le> 32 \<and> (n = k \<or> (k < n \<and> bit (bitmap w) (n - 1 - k)))"
      unfolding w using n c sh
      by (auto simp: bit_or_single shl_or_zero_def word_less_nat_alt bit_push_bit_iff simp del: push_bit_of_1)
    consider "n < k" | "n = k" | "k < n" by linarith
    then show ?thesis
    proof cases
      case 1
      then have "Max S < unat c - n" using c by simp
      then have "unat c - n \<notin> S" using r by (metis Max_ge leD)
      with 1 bits c n show ?thesis by simp
    next
      case 2
      then show ?thesis using bits c n r by simp
    next
      case 3
      then have "1 \<le> n - k \<and> n - k \<le> 32 \<and> n - k \<le> Max S" using n c by auto
      with r have "bit (bitmap w) (n - k - 1) \<longleftrightarrow> Max S - (n - k) \<in> S" by blast
      moreover have "unat c - n \<noteq> unat c" using c n by simp
      ultimately show ?thesis using 3 bits c n by (simp add: diff_diff_eq add.commute)
    qed
  qed
  with r max w(1) show ?thesis by (simp add: represents_def)
qed

lemma record_behind:
  assumes "represents w S" "c < highest_seen w" "highest_seen w - c \<le> WIDTH"
  shows "represents (record_counter w c) (insert (unat c) S)"
proof -
  let ?h = "highest_seen w" and ?w = "record_counter w c"
  note r = assms(1) [unfolded represents_def]
  define k where "k = Max S - unat c"
  have hS: "unat ?h = Max S" using r by simp
  have sh: "unat (?h - c) = k" "unat (?h - c - 1) = k - 1"
    using unat_offset [OF assms(2)] hS by (simp_all add: k_def)
  have c: "unat c + k = Max S" "0 < k" "k \<le> 32"
    using assms(2,3) hS sh by (simp_all add: k_def word_less_nat_alt word_le_nat_alt WIDTH_def)
  have w: "highest_seen ?w = ?h" "bitmap ?w = bitmap w OR push_bit (k - 1) 1"
    using less_not_sym [OF assms(2)] sh by (simp_all add: record_counter_def Let_def)
  have max: "Max (insert (unat c) S) = Max S" using r c by (simp add: max_def)
  have "bit (bitmap ?w) (n - 1) \<longleftrightarrow> Max S - n \<in> insert (unat c) S"
    if n: "1 \<le> n" "n \<le> 32" "n \<le> Max S" for n
  proof -
    have "Max S - n = unat c \<longleftrightarrow> n = k" using c n by auto
    with r n c show ?thesis unfolding w by (auto simp: bit_or_single simp del: push_bit_of_1)
  qed
  with r max w(1) show ?thesis by (simp add: represents_def)
qed

lemma record_represents:
  assumes "represents w S" "window_fresh w c"
  shows "represents (record_counter w c) (insert (unat c) S)"
proof (cases "c > highest_seen w")
  case True
  with assms(1) show ?thesis by (rule record_forward)
next
  case False
  with assms(2) have "c < highest_seen w" "highest_seen w - c \<le> WIDTH"
    by (auto simp: window_fresh_def classify_def Let_def split: if_splits)
  with assms(1) show ?thesis by (rule record_behind)
qed

lemma represents_new: "represents replay_window_new {0}"
  by (simp add: represents_def replay_window_new_def)

interpretation window: replay_filter window_fresh record_counter "\<lambda>w. \<exists>S. represents w S"
proof unfold_locales
  fix w c d
  assume "\<exists>S. represents w S" and f: "window_fresh w c"
  then obtain S where S: "represents w S" by blast
  note S' = record_represents [OF S f]
  show "\<exists>S. represents (record_counter w c) S" using S' by blast
  show "\<not> window_fresh (record_counter w c) c"
    using classify_fresh [OF S'] by (simp add: spec_fresh_def)
  have "Max S \<le> Max (insert (unat c) S)" using S by (simp add: represents_def)
  then show "window_fresh (record_counter w c) d \<Longrightarrow> window_fresh w d"
    using classify_fresh [OF S'] classify_fresh [OF S] by (auto simp: spec_fresh_def)
qed

section \<open>Runs\<close>

text \<open>The counters accepted by successive calls of \<open>check_and_record\<close>.\<close>

fun window_run :: "replay_window \<Rightarrow> u32 list \<Rightarrow> u32 list" where
  "window_run w [] = []"
| "window_run w (c # cs) =
     (case check_and_record c w of
        (Inr _, w') \<Rightarrow> c # window_run w' cs
      | (Inl _, w') \<Rightarrow> window_run w' cs)"

fun spec_run :: "nat set \<Rightarrow> nat list \<Rightarrow> nat list" where
  "spec_run S [] = []"
| "spec_run S (c # cs) = (if spec_fresh S c then c # spec_run (insert c S) cs else spec_run S cs)"

lemma check_and_record_fresh:
  "check_and_record c w =
     (if window_fresh w c then (Inr (), record_counter w c) else (Inl (projl (classify w c)), w))"
  by (cases "classify w c") (auto simp: check_and_record_def window_fresh_def)

lemma window_run_accepted: "window_run w cs = window.accepted w cs"
  by (induction w cs rule: window.accepted.induct) (simp_all add: check_and_record_fresh)

lemma window_run_spec: "represents w S \<Longrightarrow> map unat (window_run w cs) = spec_run S (map unat cs)"
proof (induction cs arbitrary: w S)
  case (Cons c cs)
  then show ?case
    using classify_fresh [OF Cons.prems, of c] record_represents [OF Cons.prems, of c]
    by (simp add: check_and_record_fresh)
qed simp

lemma classify_too_old:
  assumes "unat c + 32 < unat (highest_seen w)"
  shows "classify w c = Inl (CounterTooOld c (highest_seen w - 32) (highest_seen w))"
proof -
  have lt: "c < highest_seen w" "(32 :: u32) \<le> highest_seen w"
    using assms by (simp_all add: word_less_nat_alt word_le_nat_alt)
  then have "WIDTH < highest_seen w - c"
    using assms unat_offset [OF lt(1)] by (simp add: word_less_nat_alt WIDTH_def)
  with lt show ?thesis
    using less_not_sym [OF lt(1)] by (auto simp: classify_def Let_def saturating_sub_def WIDTH_def)
qed

lemma classify_recent:
  assumes "unat (highest_seen w) \<le> unat c + 32"
  shows "classify w c = Inr () \<or> classify w c = Inl (ReplayedCounter c)"
proof (cases "c < highest_seen w")
  case True
  then have "\<not> WIDTH < highest_seen w - c"
    using assms unat_offset [OF True] by (simp add: word_less_nat_alt WIDTH_def)
  then show ?thesis by (simp add: classify_def Let_def)
qed (auto simp: classify_def Let_def)

section \<open>Properties\<close>

text \<open>
  C6. Refinement: on every sequence of counters a new window accepts exactly the counters that
  the specification accepts, which remembers all accepted counters for ever (counter 0
  included). In particular no counter is accepted twice although only 32 bits are kept.
\<close>

theorem replay_window_refines:
  "map unat (window_run replay_window_new cs) = spec_run {0} (map unat cs) \<and>
   distinct (window_run replay_window_new cs)"
  using window_run_spec [OF represents_new] represents_new
  by (auto simp: window_run_accepted intro: window.accepted_distinct)

text \<open>
  What a call does in a window that represents the set of accepted counters: a counter more
  than 32 behind the largest is too old, with the window's bounds in the error, an accepted
  one is a replay, and both leave the window as it was; any other is recorded, and the window
  then represents the enlarged set.
\<close>

theorem check_and_record_functional:
  assumes "represents w S"
  shows "check_and_record c w =
      (if unat c + 32 < Max S then (Inl (CounterTooOld c (highest_seen w - 32) (highest_seen w)), w)
       else if unat c \<in> S then (Inl (ReplayedCounter c), w)
       else (Inr (), record_counter w c)) \<and>
    (unat c \<in> S \<or> unat c + 32 < Max S \<or> represents (record_counter w c) (insert (unat c) S))"
proof -
  have "unat (highest_seen w) = Max S" using assms by (simp add: represents_def)
  then show ?thesis
    using classify_too_old [of c w] classify_recent [of w c] classify_fresh [OF assms, of c]
      record_represents [OF assms, of c]
    by (auto simp: check_and_record_def window_fresh_def spec_fresh_def)
qed

theorem check_and_record_functional_witness:
  "represents \<lparr>highest_seen = 5, bitmap = 0x10\<rparr> {0, 5} \<and>
   check_and_record 5 \<lparr>highest_seen = 5, bitmap = 0x10\<rparr> =
     (Inl (ReplayedCounter 5), \<lparr>highest_seen = 5, bitmap = 0x10\<rparr>) \<and>
   check_and_record 3 \<lparr>highest_seen = 5, bitmap = 0x10\<rparr> =
     (Inr (), \<lparr>highest_seen = 5, bitmap = 0x12\<rparr>)"
proof -
  have w: "\<lparr>highest_seen = 5, bitmap = 0x10\<rparr> = record_counter replay_window_new 5"
    by (simp add: record_counter_def replay_window_new_def WIDTH_def shl_or_zero_def)
  have r: "represents \<lparr>highest_seen = 5, bitmap = 0x10\<rparr> {0, 5}"
    using record_forward [OF represents_new, of 5] by (simp add: w replay_window_new_def insert_commute)
  then show ?thesis
    using check_and_record_functional [OF r, of 5] check_and_record_functional [OF r, of 3]
    by (simp add: record_counter_def)
qed

end
