(* ===== verification/MRP.thy ===== *)
theory MRP
  imports Replay_Window "HOL-Library.AList" "HOL-Library.Multiset"
begin

text \<open>
  The Message Reliability Protocol, \<open>crates/matter-transport/src/mrp.rs\<close>: per-session tables of
  unacknowledged messages, of acknowledgements owed to the peer and of live exchanges.

  A \<open>HashMap\<close> is an association list with distinct keys and a \<open>HashSet\<close> a list without
  repetitions; Rust leaves their iteration order open, and the list order stands for
  whichever order a run takes. Instants and durations are whole milliseconds. The two
  binary32 computations of the retransmission delay are arguments: the result of \<open>powi\<close> is not
  specified to the last bit by the language.
\<close>

section \<open>Configuration\<close>

definition MAX_EXCHANGES_PER_SESSION :: nat where "MAX_EXCHANGES_PER_SESSION = 256"
definition MAX_DISPLACED_ACKS :: nat where "MAX_DISPLACED_ACKS = 32"
definition MRP_BACKOFF_MARGIN_NUMERATOR :: nat where "MRP_BACKOFF_MARGIN_NUMERATOR = 1127"
definition MRP_BACKOFF_MARGIN_DENOMINATOR :: nat where "MRP_BACKOFF_MARGIN_DENOMINATOR = 1024"
definition MRP_BACKOFF_THRESHOLD :: u8 where "MRP_BACKOFF_THRESHOLD = 1"
definition MRP_MAX_TRANSMISSIONS :: u8 where "MRP_MAX_TRANSMISSIONS = 5"
definition MRP_BACKOFF_MAX_EXPONENT :: u8 where "MRP_BACKOFF_MAX_EXPONENT = 4"

text \<open>The binary32 constants 1.6 and 0.25, as bit patterns.\<close>

definition MRP_BACKOFF_BASE :: u32 where "MRP_BACKOFF_BASE = 0x3FCCCCCD"
definition MRP_BACKOFF_JITTER :: u32 where "MRP_BACKOFF_JITTER = 0x3E800000"

definition SPEC_DEFAULT_IDLE :: duration where "SPEC_DEFAULT_IDLE = 500"
definition SPEC_DEFAULT_ACTIVE :: duration where "SPEC_DEFAULT_ACTIVE = 300"
definition SPEC_DEFAULT_ACTIVE_THRESHOLD :: duration where "SPEC_DEFAULT_ACTIVE_THRESHOLD = 4000"
definition MAX_RETRANS_INTERVAL :: duration where "MAX_RETRANS_INTERVAL = 3600000"
definition MAX_ACTIVE_THRESHOLD :: duration where "MAX_ACTIVE_THRESHOLD = 65535"

record mrp_config =
  initial_active :: duration
  initial_idle :: duration
  backoff_factor :: u32
  max_transmissions :: u8
  backoff_jitter :: u32
  standalone_ack_deadline :: duration
  idle_threshold :: duration

definition mrp_config_default :: mrp_config where
  "mrp_config_default =
     \<lparr>initial_active = SPEC_DEFAULT_ACTIVE, initial_idle = SPEC_DEFAULT_IDLE,
      backoff_factor = MRP_BACKOFF_BASE, max_transmissions = MRP_MAX_TRANSMISSIONS,
      backoff_jitter = MRP_BACKOFF_JITTER, standalone_ack_deadline = 200,
      idle_threshold = SPEC_DEFAULT_ACTIVE_THRESHOLD\<rparr>"

definition unwrap_or :: "'a option \<Rightarrow> 'a \<Rightarrow> 'a" where
  "unwrap_or x d = (case x of None \<Rightarrow> d | Some y \<Rightarrow> y)"

definition for_peer :: "duration option \<Rightarrow> duration option \<Rightarrow> duration option \<Rightarrow> mrp_config" where
  "for_peer sii sai sat = mrp_config_default
     \<lparr>initial_idle := min (unwrap_or sii SPEC_DEFAULT_IDLE) MAX_RETRANS_INTERVAL,
      initial_active := min (unwrap_or sai SPEC_DEFAULT_ACTIVE) MAX_RETRANS_INTERVAL,
      idle_threshold := min (unwrap_or sat SPEC_DEFAULT_ACTIVE_THRESHOLD) MAX_ACTIVE_THRESHOLD\<rparr>"

record session_parameters =
  session_idle_interval_ms :: "u32 option"
  session_active_interval_ms :: "u32 option"
  session_active_threshold_ms :: "u16 option"
  data_model_revision :: "u16 option"
  interaction_model_revision :: "u16 option"
  specification_version :: "u32 option"
  max_paths_per_invoke :: "u16 option"

definition merge_session_params :: "mrp_config \<Rightarrow> session_parameters \<Rightarrow> mrp_config" where
  "merge_session_params c params = c
     \<lparr>initial_idle := (case session_idle_interval_ms params of None \<Rightarrow> initial_idle c
        | Some v \<Rightarrow> min (unat v) MAX_RETRANS_INTERVAL),
      initial_active := (case session_active_interval_ms params of None \<Rightarrow> initial_active c
        | Some v \<Rightarrow> min (unat v) MAX_RETRANS_INTERVAL),
      idle_threshold := (case session_active_threshold_ms params of None \<Rightarrow> idle_threshold c
        | Some v \<Rightarrow> min (unat v) MAX_ACTIVE_THRESHOLD)\<rparr>"

text \<open>
  \<open>fl_scale ms f e\<close> is \<open>(ms as f32 * f.powi(e)) as u64\<close>, and \<open>fl_jitter ms j b\<close> is
  \<open>(ms as f32 * (1.0 + j * (b / 256.0))) as u64\<close>.
\<close>

record float_ops =
  fl_scale :: "nat \<Rightarrow> u32 \<Rightarrow> nat \<Rightarrow> nat"
  fl_jitter :: "nat \<Rightarrow> u32 \<Rightarrow> u8 \<Rightarrow> nat"

definition U64_MAX :: nat where "U64_MAX = 2 ^ 64 - 1"

definition retransmit_delay :: "float_ops \<Rightarrow> mrp_config \<Rightarrow> u8 \<Rightarrow> bool \<Rightarrow> duration" where
  "retransmit_delay fl c sends_done peer_active =
     (let base = if peer_active then initial_active c else initial_idle c;
          base_ms = min base U64_MAX;
          with_margin_ms = min (base_ms * MRP_BACKOFF_MARGIN_NUMERATOR) U64_MAX
            div MRP_BACKOFF_MARGIN_DENOMINATOR;
          exponent = min (saturating_sub sends_done MRP_BACKOFF_THRESHOLD) MRP_BACKOFF_MAX_EXPONENT
      in fl_scale fl with_margin_ms (backoff_factor c) (unat exponent))"

definition total_idle_window :: "float_ops \<Rightarrow> mrp_config \<Rightarrow> duration" where
  "total_idle_window fl c =
     sum_list (map (\<lambda>n. retransmit_delay fl c (word_of_nat n) False) [0..<unat (max_transmissions c)])"

section \<open>State\<close>

text \<open>Exchanges are ordered by id, the peer's before ours.\<close>

datatype exchange_key = ExchangeKey (ek_id: u16) (ek_local: bool)

instantiation exchange_key :: linorder
begin

definition less_eq_exchange_key :: "exchange_key \<Rightarrow> exchange_key \<Rightarrow> bool" where
  "less_eq_exchange_key a b \<longleftrightarrow> ek_id a < ek_id b \<or> ek_id a = ek_id b \<and> ek_local a \<le> ek_local b"

definition less_exchange_key :: "exchange_key \<Rightarrow> exchange_key \<Rightarrow> bool" where
  "less_exchange_key a b \<longleftrightarrow> ek_id a < ek_id b \<or> ek_id a = ek_id b \<and> ek_local a < ek_local b"

instance
  by standard (auto simp: less_eq_exchange_key_def less_exchange_key_def exchange_key.expand)

end

definition of_inbound :: "u16 \<Rightarrow> bool \<Rightarrow> exchange_key" where
  "of_inbound exchange_id peer_is_initiator = ExchangeKey exchange_id (\<not> peer_is_initiator)"

record pending_ack =
  pa_packet :: bytes
  pa_exchange :: exchange_key
  pa_next_attempt :: instant
  pa_attempts_remaining :: u8

record owed_ack =
  oa_counter :: u32
  oa_deadline :: instant

record recent_inbound =
  ri_exchange_id :: u16
  ri_counter :: u32
  ri_local :: bool

record mrp_state =
  pending_acks :: "(u32 \<times> pending_ack) list"
  pending_outbound_acks :: "(exchange_key \<times> owed_ack) list"
  displaced_acks :: "(exchange_key \<times> owed_ack) list"
  recent_reliable :: "recent_inbound option list"
  recent_next_slot :: nat
  exchanges :: "exchange_key list"
  last_outbound :: "instant option"
  last_peer_activity :: "instant option"
  mrp_conf :: mrp_config
  jitter :: u64

datatype mrp_timer_event =
    TimerRetransmit u16 u32 bytes
  | TimerAck u16 u32 bool
  | TimerExpired u16 u32

datatype inbound_outcome =
    AppMessage u16 bool protocol_id u8 bytes
  | AckOnly u16 u32
  | DuplicateReliable u16 u32 bool

record prepared_outbound =
  po_wire_payload :: bytes
  po_exchange_id :: u16
  po_local :: bool
  po_piggyback_acked :: bool

definition fired :: "exchange_key \<times> owed_ack \<Rightarrow> mrp_timer_event" where
  "fired e = TimerAck (ek_id (fst e)) (oa_counter (snd e)) (ek_local (fst e))"

section \<open>Jitter\<close>

text \<open>\<open>x <= 0.0\<close> on the bit pattern of a binary32 number: a zero, or negative and no NaN.\<close>

definition f32_le_zero :: "u32 \<Rightarrow> bool" where
  "f32_le_zero b \<longleftrightarrow> b = 0 \<or> bit b 31 \<and> b AND 0x7FFFFFFF \<le> 0x7F800000"

definition xorshift64 :: "u64 \<Rightarrow> u64" where
  "xorshift64 s0 = (let s1 = s0 XOR drop_bit 12 s0; s2 = s1 XOR push_bit 25 s1 in s2 XOR drop_bit 27 s2)"

definition jitter_with :: "float_ops \<Rightarrow> u64 \<Rightarrow> mrp_config \<Rightarrow> duration \<Rightarrow> duration \<times> u64" where
  "jitter_with fl st c delay =
     (if f32_le_zero (backoff_jitter c) then (delay, st)
      else let st' = xorshift64 st; draw = st' * 0x2545F4914F6CDD1D;
               byte = ucast (drop_bit 56 draw) in
        (fl_jitter fl (min delay U64_MAX) (backoff_jitter c) byte, st'))"

section \<open>Construction and queries\<close>

definition mrp_bare :: "mrp_config \<Rightarrow> mrp_state" where
  "mrp_bare c =
     \<lparr>pending_acks = [], pending_outbound_acks = [], displaced_acks = [],
      recent_reliable = replicate 32 None, recent_next_slot = 0, exchanges = [],
      last_outbound = None, last_peer_activity = None, mrp_conf = c, jitter = 1\<rparr>"

definition with_jitter_seed :: "mrp_config \<Rightarrow> u64 \<Rightarrow> mrp_state" where
  "with_jitter_seed c seed = (mrp_bare c)\<lparr>jitter := (if seed = 0 then 1 else seed)\<rparr>"

definition is_peer_active :: "mrp_state \<Rightarrow> instant \<Rightarrow> bool" where
  "is_peer_active s now =
     (case last_peer_activity s of Some t \<Rightarrow> now - t < idle_threshold (mrp_conf s) | None \<Rightarrow> False)"

definition has_pending :: "mrp_state \<Rightarrow> bool" where
  "has_pending s \<longleftrightarrow> pending_acks s \<noteq> [] \<or> pending_outbound_acks s \<noteq> [] \<or> displaced_acks s \<noteq> []"

text \<open>\<open>Iterator::min\<close> on a list of instants.\<close>

definition min_of :: "instant list \<Rightarrow> instant option" where
  "min_of ts = (if ts = [] then None else Some (Min (set ts)))"

definition mrp_poll_timeout :: "mrp_state \<Rightarrow> instant option" where
  "mrp_poll_timeout s =
     min_of (List.map_filter id
       [min_of (map (\<lambda>(_, p). pa_next_attempt p) (pending_acks s)),
        min_of (map (\<lambda>(_, p). oa_deadline p) (pending_outbound_acks s)),
        min_of (map (\<lambda>(_, p). oa_deadline p) (displaced_acks s))])"

definition check_duplicate_reliable :: "mrp_state \<Rightarrow> u32 \<Rightarrow> (u16 \<times> bool) option" where
  "check_duplicate_reliable s peer_counter =
     map_option (\<lambda>r. (ri_exchange_id r, ri_local r))
       (find (\<lambda>r. ri_counter r = peer_counter) (List.map_filter id (recent_reliable s)))"

definition exchange_is_idle :: "mrp_state \<Rightarrow> exchange_key \<Rightarrow> bool" where
  "exchange_is_idle s e \<longleftrightarrow>
     \<not> list_ex (\<lambda>(_, p). pa_exchange p = e) (pending_acks s) \<and>
     \<not> (e \<in> fst ` set (pending_outbound_acks s) \<or> list_ex (\<lambda>(owed_on, _). owed_on = e) (displaced_acks s))"

definition reclaim_if_idle :: "exchange_key \<Rightarrow> mrp_state \<Rightarrow> mrp_state" where
  "reclaim_if_idle e s =
     (if exchange_is_idle s e then s\<lparr>exchanges := removeAll e (exchanges s)\<rparr> else s)"

definition note_local_exchange :: "u16 \<Rightarrow> mrp_state \<Rightarrow> mrp_state" where
  "note_local_exchange i s = s\<lparr>exchanges := List.insert (ExchangeKey i True) (exchanges s)\<rparr>"

definition resolve :: "mrp_state \<Rightarrow> u16 \<Rightarrow> exchange_key" where
  "resolve s i = (if ExchangeKey i True \<in> set (exchanges s) then ExchangeKey i True else ExchangeKey i False)"

section \<open>Sending\<close>

definition build_outbound ::
  "mrp_state \<Rightarrow> u8 \<Rightarrow> protocol_id \<Rightarrow> exchange_key \<Rightarrow> bytes \<Rightarrow> bool \<Rightarrow> prepared_outbound" where
  "build_outbound s opcode pid e app_payload reliable =
     (let ack = map_option oa_counter (map_of (pending_outbound_acks s) e);
          flags0 = (if ack \<noteq> None then FLAG_ACK else 0);
          flags1 = (if ek_local e then flags0 OR FLAG_INITIATOR else flags0);
          flags = (if reliable then flags1 OR FLAG_RELIABLE else flags1);
          header = \<lparr>ph_flags = flags, ph_opcode = opcode, ph_exchange_id = ek_id e,
                    ph_protocol_id = pid, ph_ack_counter = ack\<rparr>
      in \<lparr>po_wire_payload = encode_protocol_header header @ app_payload, po_exchange_id = ek_id e,
          po_local = ek_local e, po_piggyback_acked = (ack \<noteq> None)\<rparr>)"

definition po_exchange :: "prepared_outbound \<Rightarrow> exchange_key" where
  "po_exchange p = ExchangeKey (po_exchange_id p) (po_local p)"

definition commit_outbound :: "prepared_outbound \<Rightarrow> mrp_state \<Rightarrow> mrp_state" where
  "commit_outbound p s =
     (let s1 = s\<lparr>exchanges := List.insert (po_exchange p) (exchanges s)\<rparr> in
      if po_piggyback_acked p
      then s1\<lparr>pending_outbound_acks := AList.delete (po_exchange p) (pending_outbound_acks s1)\<rparr>
      else s1)"

definition prepare_outbound ::
  "u8 \<Rightarrow> protocol_id \<Rightarrow> u16 \<Rightarrow> bytes \<Rightarrow> bool \<Rightarrow> mrp_state \<Rightarrow> prepared_outbound \<times> mrp_state" where
  "prepare_outbound opcode pid exchange_id app_payload reliable s =
     (let p = build_outbound s opcode pid (resolve s exchange_id) app_payload reliable
      in (p, commit_outbound p s))"

definition mark_packet_sent_on ::
  "float_ops \<Rightarrow> u32 \<Rightarrow> exchange_key \<Rightarrow> bytes \<Rightarrow> bool \<Rightarrow> instant \<Rightarrow> mrp_state \<Rightarrow> mrp_state" where
  "mark_packet_sent_on fl counter e packet reliable now s =
     (let s1 = s\<lparr>last_outbound := Some now\<rparr> in
      if \<not> reliable then reclaim_if_idle e s1
      else
        let initial = retransmit_delay fl (mrp_conf s1) 0 (is_peer_active s1 now);
            (wait, j) = jitter_with fl (jitter s1) (mrp_conf s1) initial
        in s1\<lparr>jitter := j,
              pending_acks := AList.update counter
                \<lparr>pa_packet = packet, pa_exchange = e, pa_next_attempt = now + wait,
                 pa_attempts_remaining = saturating_sub (max_transmissions (mrp_conf s1)) 1\<rparr>
                (pending_acks s1)\<rparr>)"

definition mark_packet_sent ::
  "float_ops \<Rightarrow> u32 \<Rightarrow> u16 \<Rightarrow> bytes \<Rightarrow> bool \<Rightarrow> instant \<Rightarrow> mrp_state \<Rightarrow> mrp_state" where
  "mark_packet_sent fl counter exchange_id packet reliable now s =
     mark_packet_sent_on fl counter (resolve s exchange_id) packet reliable now s"

section \<open>Timers\<close>

text \<open>
  The body of the loop over the retransmission table, for one entry: the event, the entry if
  it stays, its exchange if the message expired, and the jitter state; and the loop.
\<close>

definition tick_one ::
  "float_ops \<Rightarrow> mrp_config \<Rightarrow> instant \<Rightarrow> bool \<Rightarrow> u64 \<Rightarrow> u32 \<times> pending_ack
    \<Rightarrow> mrp_timer_event list \<times> (u32 \<times> pending_ack) list \<times> exchange_key list \<times> u64" where
  "tick_one fl c now peer_active j e =
     (case e of (counter, p) \<Rightarrow>
        if pa_next_attempt p > now then ([], [(counter, p)], [], j)
        else if pa_attempts_remaining p = 0
        then ([TimerExpired (ek_id (pa_exchange p)) counter], [], [pa_exchange p], j)
        else
          let remaining = pa_attempts_remaining p - 1;
              sends_done = saturating_sub (saturating_sub (max_transmissions c) 1) remaining;
              (wait, j') = jitter_with fl j c (retransmit_delay fl c sends_done peer_active)
          in ([TimerRetransmit (ek_id (pa_exchange p)) counter (pa_packet p)],
              [(counter, p\<lparr>pa_attempts_remaining := remaining, pa_next_attempt := now + wait\<rparr>)], [], j'))"

fun tick_pending ::
  "float_ops \<Rightarrow> mrp_config \<Rightarrow> instant \<Rightarrow> bool \<Rightarrow> u64 \<Rightarrow> (u32 \<times> pending_ack) list
    \<Rightarrow> mrp_timer_event list \<times> (u32 \<times> pending_ack) list \<times> exchange_key list \<times> u64" where
  "tick_pending fl c now peer_active j [] = ([], [], [], j)"
| "tick_pending fl c now peer_active j (e # es) =
     (let (ev, keep, gone, j1) = tick_one fl c now peer_active j e;
          (evs, keeps, gones, j2) = tick_pending fl c now peer_active j1 es
      in (ev @ evs, keep @ keeps, gone @ gones, j2))"

definition ack_due :: "instant \<Rightarrow> exchange_key \<times> owed_ack \<Rightarrow> bool" where
  "ack_due now e \<longleftrightarrow> oa_deadline (snd e) \<le> now"

text \<open>
  Take the acknowledgements of a list of exchanges out of the table, in the order of the list.
\<close>

fun take_acks :: "exchange_key list \<Rightarrow> (exchange_key \<times> owed_ack) list
    \<Rightarrow> (exchange_key \<times> owed_ack) list \<times> (exchange_key \<times> owed_ack) list" where
  "take_acks [] m = ([], m)"
| "take_acks (e # es) m =
     (case map_of m e of
        None \<Rightarrow> take_acks es m
      | Some p \<Rightarrow> let (taken, m') = take_acks es (AList.delete e m) in ((e, p) # taken, m'))"

definition mrp_handle_timeout ::
  "float_ops \<Rightarrow> instant \<Rightarrow> mrp_state \<Rightarrow> mrp_timer_event list \<times> mrp_state" where
  "mrp_handle_timeout fl now s =
     (let (evs, kept, gone, j) = tick_pending fl (mrp_conf s) now (is_peer_active s now) (jitter s) (pending_acks s);
          due_displaced = filter (ack_due now) (displaced_acks s);
          due_keys = sort (map fst (filter (ack_due now) (pending_outbound_acks s)));
          (taken, rest) = take_acks due_keys (pending_outbound_acks s);
          s1 = s\<lparr>pending_acks := kept, jitter := j,
                 displaced_acks := filter (Not \<circ> ack_due now) (displaced_acks s),
                 pending_outbound_acks := rest\<rparr>
      in (evs @ map fired due_displaced @ map fired taken,
          fold reclaim_if_idle (gone @ map fst due_displaced @ map fst taken) s1))"

section \<open>Receiving\<close>

definition buffer_ack :: "exchange_key \<Rightarrow> u32 \<Rightarrow> instant \<Rightarrow> mrp_state \<Rightarrow> mrp_state" where
  "buffer_ack e peer_counter now s =
     (let fresh = \<lparr>oa_counter = peer_counter, oa_deadline = now + standalone_ack_deadline (mrp_conf s)\<rparr>;
          s1 = s\<lparr>pending_outbound_acks := AList.update e fresh (pending_outbound_acks s)\<rparr>
      in case map_of (pending_outbound_acks s) e of
           None \<Rightarrow> s1
         | Some older \<Rightarrow>
             if length (displaced_acks s) < MAX_DISPLACED_ACKS
             then s1\<lparr>displaced_acks := displaced_acks s @ [(e, older\<lparr>oa_deadline := now\<rparr>)]\<rparr>
             else s1)"

definition remember_reliable :: "exchange_key \<Rightarrow> u32 \<Rightarrow> mrp_state \<Rightarrow> mrp_state" where
  "remember_reliable e peer_counter s =
     s\<lparr>recent_reliable := (recent_reliable s)[recent_next_slot s :=
         Some \<lparr>ri_exchange_id = ek_id e, ri_counter = peer_counter, ri_local = ek_local e\<rparr>],
       recent_next_slot := (recent_next_slot s + 1) mod 32\<rparr>"

text \<open>An acknowledgement clears the message it names, whatever exchange it arrives on.\<close>

definition clear_acked :: "exchange_key \<Rightarrow> u32 option \<Rightarrow> mrp_state \<Rightarrow> mrp_state" where
  "clear_acked e ack s =
     (case ack of None \<Rightarrow> s
      | Some c \<Rightarrow>
          (case map_of (pending_acks s) c of None \<Rightarrow> s
           | Some acked \<Rightarrow>
               let s1 = s\<lparr>pending_acks := AList.delete c (pending_acks s)\<rparr> in
               if pa_exchange acked \<noteq> e then reclaim_if_idle (pa_exchange acked) s1 else s1))"

definition process_inbound ::
  "bytes \<Rightarrow> u32 \<Rightarrow> instant \<Rightarrow> (mrp_state, transport_error, inbound_outcome) comp" where
  "process_inbound payload peer_counter now s =
     (let s0 = s\<lparr>last_peer_activity := Some now\<rparr> in
      case decode_protocol_header payload of
        Inl e \<Rightarrow> (Inl e, s0)
      | Inr (header, app_payload) \<Rightarrow>
          let exchange_id = ph_exchange_id header;
              peer_is_initiator = flags_contain (ph_flags header) FLAG_INITIATOR;
              e = of_inbound exchange_id peer_is_initiator in
          if e \<notin> set (exchanges s0) \<and> length (exchanges s0) \<ge> MAX_EXCHANGES_PER_SESSION
          then (Inl ExchangeTableFull, s0)
          else
            let s1 = s0\<lparr>exchanges := List.insert e (exchanges s0)\<rparr>;
                has_ack = flags_contain (ph_flags header) FLAG_ACK;
                reliable = flags_contain (ph_flags header) FLAG_RELIABLE;
                s2 = (if has_ack then clear_acked e (ph_ack_counter header) s1 else s1) in
            if has_ack \<and> ph_opcode header = STANDALONE_ACK \<and> app_payload = [] \<and> \<not> reliable
            then (Inr (AckOnly exchange_id (unwrap_or (ph_ack_counter header) 0)), reclaim_if_idle e s2)
            else
              let s3 = (if reliable then remember_reliable e peer_counter (buffer_ack e peer_counter now s2)
                        else s2)
              in (Inr (AppMessage exchange_id peer_is_initiator (ph_protocol_id header) (ph_opcode header)
                    app_payload),
                  reclaim_if_idle e s3))"

section \<open>Closing\<close>

definition cancel_pending_outbound_ack :: "exchange_key \<Rightarrow> mrp_state \<Rightarrow> mrp_state" where
  "cancel_pending_outbound_ack e s =
     s\<lparr>pending_outbound_acks := AList.delete e (pending_outbound_acks s),
       displaced_acks := filter (\<lambda>(owed_on, _). owed_on \<noteq> e) (displaced_acks s)\<rparr>"

definition close_exchange_on :: "exchange_key \<Rightarrow> mrp_state \<Rightarrow> mrp_state" where
  "close_exchange_on e s =
     s\<lparr>exchanges := removeAll e (exchanges s),
       pending_acks := filter (\<lambda>(_, p). pa_exchange p \<noteq> e) (pending_acks s),
       pending_outbound_acks := AList.delete e (pending_outbound_acks s),
       displaced_acks := filter (\<lambda>(owed_on, _). owed_on \<noteq> e) (displaced_acks s)\<rparr>"

definition close_exchange :: "u16 \<Rightarrow> mrp_state \<Rightarrow> mrp_state" where
  "close_exchange exchange_id s = close_exchange_on (resolve s exchange_id) s"

definition flush_exchange_acks_on :: "exchange_key \<Rightarrow> mrp_state \<Rightarrow> mrp_timer_event list \<times> mrp_state" where
  "flush_exchange_acks_on e s =
     (let mine = filter (\<lambda>(owed_on, _). owed_on = e) (displaced_acks s);
          others = filter (\<lambda>(owed_on, _). owed_on \<noteq> e) (displaced_acks s);
          (taken, rest) = take_acks [e] (pending_outbound_acks s)
      in (map fired mine @ map fired taken,
          reclaim_if_idle e (s\<lparr>pending_outbound_acks := rest, displaced_acks := others\<rparr>)))"

definition flush_exchange_acks :: "u16 \<Rightarrow> mrp_state \<Rightarrow> mrp_timer_event list \<times> mrp_state" where
  "flush_exchange_acks exchange_id s = flush_exchange_acks_on (resolve s exchange_id) s"

fun flush_each :: "exchange_key list \<Rightarrow> mrp_state \<Rightarrow> mrp_timer_event list \<times> mrp_state" where
  "flush_each [] s = ([], s)"
| "flush_each (e # es) s =
     (let (evs, s1) = flush_exchange_acks_on e s; (evs', s2) = flush_each es s1 in (evs @ evs', s2))"

definition flush_all_acks :: "mrp_state \<Rightarrow> mrp_timer_event list \<times> mrp_state" where
  "flush_all_acks s =
     flush_each (remdups_adj (sort (map fst (pending_outbound_acks s) @ map fst (displaced_acks s)))) s"

definition forget_ack_for :: "u32 \<Rightarrow> mrp_state \<Rightarrow> mrp_state" where
  "forget_ack_for counter s =
     (let hit = (\<lambda>(_, p). oa_counter p = counter);
          buffered = map fst (filter hit (pending_outbound_acks s));
          displaced = map fst (filter hit (displaced_acks s));
          s1 = s\<lparr>pending_outbound_acks := fold AList.delete buffered (pending_outbound_acks s),
                 displaced_acks := filter (Not \<circ> hit) (displaced_acks s)\<rparr>
      in fold reclaim_if_idle (buffered @ displaced) s1)"

end
