(* ===== verification/Framing.thy ===== *)
theory Framing
  imports Replay_Window
begin

text \<open>
  Secured-message framing, \<open>crates/matter-transport/src/framing.rs\<close>: the message header codec,
  AES-CCM protection of unicast messages with the replay check behind it, and group messages
  with header privacy. The AES-CCM cipher and HKDF come from third-party crates: they are
  arguments of the definitions, and \<open>ccm_laws\<close> states what their documentation promises.
\<close>

section \<open>The cipher\<close>

text \<open>
  The two calls of the \<open>ccm\<close> crate behind \<open>SessionAead\<close> (\<open>matter-crypto/src/aead.rs\<close>), each from
  key, nonce, associated data and message.
\<close>

record ccm =
  ccm_encrypt :: "bytes \<Rightarrow> bytes \<Rightarrow> bytes \<Rightarrow> bytes \<Rightarrow> bytes option"
  ccm_decrypt :: "bytes \<Rightarrow> bytes \<Rightarrow> bytes \<Rightarrow> bytes \<Rightarrow> bytes option"

definition AEAD_TAG_LEN :: nat where "AEAD_TAG_LEN = 16"

text \<open>
  Documented behaviour of CCM: messages below \<open>2^16\<close> bytes can be encrypted, the output is the
  message XORed with a key stream that depends on key and nonce only, followed by a tag of 16
  bytes, and decryption inverts encryption.
\<close>

definition ccm_laws :: "ccm \<Rightarrow> (bytes \<Rightarrow> bytes \<Rightarrow> nat \<Rightarrow> byte) \<Rightarrow> bool" where
  "ccm_laws C stream \<longleftrightarrow>
     (\<forall>k n a m. length m < 2 ^ 16 \<longrightarrow> (\<exists>c. ccm_encrypt C k n a m = Some c)) \<and>
     (\<forall>k n a m c. ccm_encrypt C k n a m = Some c \<longrightarrow>
        ccm_decrypt C k n a c = Some m \<and> length c = length m + AEAD_TAG_LEN \<and>
        (\<forall>i<length m. c ! i = m ! i XOR stream k n i))"

text \<open>\<open>SessionAead::ctr_apply\<close>: encryption with the tag cut off.\<close>

definition ctr_apply :: "ccm \<Rightarrow> bytes \<Rightarrow> bytes \<Rightarrow> bytes \<Rightarrow> bytes option" where
  "ctr_apply C key nonce data = map_option (take (length data)) (ccm_encrypt C key nonce [] data)"

definition GROUP_PRIVACY_KEY_INFO :: bytes where
  "GROUP_PRIVACY_KEY_INFO = [0x50, 0x72, 0x69, 0x76, 0x61, 0x63, 0x79, 0x4B, 0x65, 0x79]"

text \<open>HKDF-SHA256 as a function of salt, input key, info and output length.\<close>

type_synonym hkdf = "bytes \<Rightarrow> bytes \<Rightarrow> bytes \<Rightarrow> nat \<Rightarrow> bytes option"

definition derive_group_privacy_key :: "hkdf \<Rightarrow> bytes \<Rightarrow> bytes option" where
  "derive_group_privacy_key hkdf operational_group_key =
     hkdf [] operational_group_key GROUP_PRIVACY_KEY_INFO 16"

section \<open>Header data\<close>

definition SOURCE_PRESENT :: u8 where "SOURCE_PRESENT = 0x04"
definition DEST_UNICAST :: u8 where "DEST_UNICAST = 0x01"
definition DEST_GROUP :: u8 where "DEST_GROUP = 0x02"
definition SEC_PRIVACY :: u8 where "SEC_PRIVACY = 0x80"
definition SEC_CONTROL :: u8 where "SEC_CONTROL = 0x40"
definition SESSION_TYPE_GROUP :: u8 where "SESSION_TYPE_GROUP = 0x01"
definition DSIZ_MASK :: u8 where "DSIZ_MASK = 0x03"
definition DSIZ_NONE :: u8 where "DSIZ_NONE = 0"
definition DSIZ_UNICAST :: u8 where "DSIZ_UNICAST = 1"
definition DSIZ_GROUP :: u8 where "DSIZ_GROUP = 2"
definition DSIZ_RESERVED :: u8 where "DSIZ_RESERVED = 3"
definition FLAGS_MUST_BE_ZERO_MASK :: u8 where "FLAGS_MUST_BE_ZERO_MASK = 0xF8"

lemmas dsiz_defs = DSIZ_MASK_def DSIZ_NONE_def DSIZ_UNICAST_def DSIZ_GROUP_def DSIZ_RESERVED_def

datatype dest_node_id = DestNode u64 | DestGroup u16

record secured_header =
  sh_flags :: u8
  sh_session_id :: u16
  sh_security_flags :: u8
  sh_counter :: u32
  sh_source :: "u64 option"
  sh_dest :: "dest_node_id option"

section \<open>Header codec\<close>

definition encode_header :: "secured_header \<Rightarrow> bytes" where
  "encode_header h =
     [sh_flags h] @ to_le 2 (sh_session_id h) @ [sh_security_flags h] @ to_le 4 (sh_counter h)
     @ (case sh_source h of Some n \<Rightarrow> to_le 8 n | None \<Rightarrow> [])
     @ (case sh_dest h of None \<Rightarrow> [] | Some (DestNode n) \<Rightarrow> to_le 8 n | Some (DestGroup g) \<Rightarrow> to_le 2 g)"

definition decode_source :: "bytes \<Rightarrow> nat \<Rightarrow> transport_error + u64 option \<times> nat" where
  "decode_source bs offset =
     (if flags_contain (bs ! 0) SOURCE_PRESENT then
        (if length bs < offset + 8 then Inl (MalformedHeader offset)
         else Inr (Some (of_le (slice_at offset 8 bs)), offset + 8))
      else Inr (None, offset))"

definition decode_dest :: "bytes \<Rightarrow> nat \<Rightarrow> transport_error + dest_node_id option \<times> nat" where
  "decode_dest bs offset =
     (let dsiz = bs ! 0 AND DSIZ_MASK in
      if dsiz = DSIZ_NONE then Inr (None, offset)
      else if dsiz = DSIZ_UNICAST then
        (if length bs < offset + 8 then Inl (MalformedHeader offset)
         else Inr (Some (DestNode (of_le (slice_at offset 8 bs))), offset + 8))
      else if dsiz = DSIZ_GROUP then
        (if length bs < offset + 2 then Inl (MalformedHeader offset)
         else Inr (Some (DestGroup (of_le (slice_at offset 2 bs))), offset + 2))
      else Inl (MalformedHeader 0))"

definition decode_header :: "bytes \<Rightarrow> transport_error + secured_header \<times> bytes" where
  "decode_header bs =
     (if length bs < 8 then Inl (MalformedHeader (length bs))
      else if bs ! 0 AND FLAGS_MUST_BE_ZERO_MASK \<noteq> 0 then Inl (MalformedHeader 0)
      else if bs ! 0 AND DSIZ_MASK = DSIZ_RESERVED then Inl (MalformedHeader 0)
      else
        try_bind (decode_source bs 8) (\<lambda>(source, offset).
        try_bind (decode_dest bs offset) (\<lambda>(dest, offset).
        Inr (\<lparr>sh_flags = bs ! 0, sh_session_id = of_le (slice_at 1 2 bs), sh_security_flags = bs ! 3,
              sh_counter = of_le (slice_at 4 4 bs), sh_source = source, sh_dest = dest\<rparr>,
             drop offset bs))))"

section \<open>Unicast messages\<close>

datatype session_role = Initiator | Responder

record session_keys =
  i2r_key :: bytes
  r2i_key :: bytes
  attestation_key :: bytes

definition MAX_PAYLOAD_LEN :: nat where "MAX_PAYLOAD_LEN = 1024"

definition build_nonce :: "secured_header \<Rightarrow> u64 \<Rightarrow> bytes" where
  "build_nonce h nonce_source_node_id =
     [sh_security_flags h] @ to_le 4 (sh_counter h)
     @ to_le 8 (case sh_source h of Some n \<Rightarrow> n | None \<Rightarrow> nonce_source_node_id)"

definition encode_secured_with_cipher ::
  "ccm \<Rightarrow> secured_header \<Rightarrow> bytes \<Rightarrow> bytes \<Rightarrow> u64 \<Rightarrow> transport_error + bytes" where
  "encode_secured_with_cipher C h payload key node =
     (if length payload > MAX_PAYLOAD_LEN then Inl (PayloadTooLarge (length payload) MAX_PAYLOAD_LEN)
      else let out = encode_header h in
        try_bind (ok_or (ccm_encrypt C key (build_nonce h node) out payload) CryptoError)
          (\<lambda>ciphertext. Inr (out @ ciphertext)))"

definition sending_key :: "session_keys \<Rightarrow> session_role \<Rightarrow> bytes" where
  "sending_key keys role = (case role of Initiator \<Rightarrow> i2r_key keys | Responder \<Rightarrow> r2i_key keys)"

definition receiving_key :: "session_keys \<Rightarrow> session_role \<Rightarrow> bytes" where
  "receiving_key keys role = (case role of Initiator \<Rightarrow> r2i_key keys | Responder \<Rightarrow> i2r_key keys)"

definition encode_secured ::
  "ccm \<Rightarrow> secured_header \<Rightarrow> bytes \<Rightarrow> session_keys \<Rightarrow> session_role \<Rightarrow> u64 \<Rightarrow> transport_error + bytes" where
  "encode_secured C h payload keys role node =
     encode_secured_with_cipher C h payload (sending_key keys role) node"

definition decrypt_secured_with_header ::
  "ccm \<Rightarrow> bytes \<Rightarrow> secured_header \<Rightarrow> nat \<Rightarrow> bytes \<Rightarrow> u64 \<Rightarrow> transport_error + bytes" where
  "decrypt_secured_with_header C bs h header_len key node =
     (if header_len > length bs then Inl (MalformedHeader header_len)
      else ok_or (ccm_decrypt C key (build_nonce h node) (take header_len bs) (drop header_len bs))
             DecryptionFailed)"

definition decode_secured ::
  "ccm \<Rightarrow> bytes \<Rightarrow> session_keys \<Rightarrow> session_role \<Rightarrow> u64
    \<Rightarrow> (replay_window, transport_error, secured_header \<times> bytes) comp" where
  "decode_secured C bs keys role node w =
     (case decode_header bs of
        Inl e \<Rightarrow> (Inl e, w)
      | Inr (h, rest) \<Rightarrow>
          (case decrypt_secured_with_header C bs h (length bs - length rest) (receiving_key keys role) node of
             Inl e \<Rightarrow> (Inl e, w)
           | Inr plaintext \<Rightarrow> andthen (check_and_record (sh_counter h)) (\<lambda>_. ok (h, plaintext)) w))"

section \<open>Group messages\<close>

definition PRIVACY_REGION_START :: nat where "PRIVACY_REGION_START = 4"

definition build_group_privacy_nonce :: "u16 \<Rightarrow> bytes \<Rightarrow> transport_error + bytes" where
  "build_group_privacy_nonce session_id mic =
     (if length mic \<noteq> AEAD_TAG_LEN then Inl (MalformedHeader (length mic))
      else Inr (rev (to_le 2 session_id) @ slice_at 5 11 mic))"

definition group_header :: "u16 \<Rightarrow> u64 \<Rightarrow> u16 \<Rightarrow> u32 \<Rightarrow> secured_header" where
  "group_header group_session_id source_node_id group_id counter =
     \<lparr>sh_flags = SOURCE_PRESENT OR DEST_GROUP, sh_session_id = group_session_id,
      sh_security_flags = SESSION_TYPE_GROUP OR SEC_PRIVACY, sh_counter = counter,
      sh_source = Some source_node_id, sh_dest = Some (DestGroup group_id)\<rparr>"

text \<open>
  A ciphertext shorter than its tag cannot come back from the cipher; the Rust slice is then
  \<open>None\<close> and the error is \<open>Crypto\<close>.
\<close>

definition encode_group_secured_with_privacy_key ::
  "ccm \<Rightarrow> bytes \<Rightarrow> bytes \<Rightarrow> u16 \<Rightarrow> u64 \<Rightarrow> u16 \<Rightarrow> u32 \<Rightarrow> protocol_header \<Rightarrow> bytes
    \<Rightarrow> transport_error + bytes" where
  "encode_group_secured_with_privacy_key C group_key privacy_key group_session_id source_node_id
       group_id counter ph app_payload =
     (let plaintext = encode_protocol_header ph @ app_payload;
          header = group_header group_session_id source_node_id group_id counter;
          aad = encode_header header in
      if length plaintext > MAX_PAYLOAD_LEN
      then Inl (PayloadTooLarge (length plaintext) MAX_PAYLOAD_LEN)
      else
        try_bind (ok_or (ccm_encrypt C group_key (build_nonce header source_node_id) aad plaintext)
          CryptoError) (\<lambda>ciphertext.
        if length ciphertext < AEAD_TAG_LEN then Inl CryptoError
        else
          try_bind (build_group_privacy_nonce group_session_id
            (drop (length ciphertext - AEAD_TAG_LEN) ciphertext)) (\<lambda>privacy_nonce.
          try_bind (ok_or (ctr_apply C privacy_key privacy_nonce (drop PRIVACY_REGION_START aad))
            CryptoError) (\<lambda>obfuscated.
          Inr (take PRIVACY_REGION_START aad @ obfuscated @ ciphertext)))))"

definition encode_group_secured ::
  "ccm \<Rightarrow> hkdf \<Rightarrow> bytes \<Rightarrow> u16 \<Rightarrow> u64 \<Rightarrow> u16 \<Rightarrow> u32 \<Rightarrow> protocol_header \<Rightarrow> bytes
    \<Rightarrow> transport_error + bytes" where
  "encode_group_secured C hkdf group_key group_session_id source_node_id group_id counter ph app_payload =
     try_bind (ok_or (derive_group_privacy_key hkdf group_key) CryptoError) (\<lambda>privacy_key.
       encode_group_secured_with_privacy_key C group_key privacy_key group_session_id source_node_id
         group_id counter ph app_payload)"

definition privacy_header_len :: "u8 \<Rightarrow> nat" where
  "privacy_header_len flags =
     PRIVACY_REGION_START + 4 + (if flags_contain flags SOURCE_PRESENT then 8 else 0)
     + (if flags AND DSIZ_MASK = DSIZ_UNICAST then 8 else if flags AND DSIZ_MASK = DSIZ_GROUP then 2 else 0)"

definition deobfuscate ::
  "ccm \<Rightarrow> hkdf \<Rightarrow> bytes \<Rightarrow> bytes \<Rightarrow> bytes option \<Rightarrow> transport_error + bytes" where
  "deobfuscate C hkdf bs group_key privacy_key =
     (let header_len = privacy_header_len (bs ! 0) in
      if length bs < header_len + AEAD_TAG_LEN then Inl (MalformedHeader (length bs))
      else
        try_bind (build_group_privacy_nonce (of_le (slice_at 1 2 bs)) (drop (length bs - AEAD_TAG_LEN) bs))
          (\<lambda>privacy_nonce.
        try_bind (case privacy_key of Some key \<Rightarrow> Inr key
                  | None \<Rightarrow> ok_or (derive_group_privacy_key hkdf group_key) CryptoError) (\<lambda>key.
        try_bind (ok_or (ctr_apply C key privacy_nonce
          (slice_at PRIVACY_REGION_START (header_len - PRIVACY_REGION_START) bs)) CryptoError) (\<lambda>clear.
        Inr (take PRIVACY_REGION_START bs @ clear @ drop header_len bs)))))"

definition decode_group_secured_inner ::
  "ccm \<Rightarrow> hkdf \<Rightarrow> bytes \<Rightarrow> bytes \<Rightarrow> bytes option \<Rightarrow> transport_error + secured_header \<times> bytes" where
  "decode_group_secured_inner C hkdf bs group_key privacy_key =
     (if length bs \<le> 3 then Inl (MalformedHeader (length bs))
      else
        try_bind (if flags_contain (bs ! 3) SEC_PRIVACY then deobfuscate C hkdf bs group_key privacy_key
                  else Inr bs) (\<lambda>wire.
        try_bind (decode_header wire) (\<lambda>(header, rest).
        let header_len = length wire - length rest in
        try_bind (ok_or (ccm_decrypt C group_key (build_nonce header 0) (take header_len wire) rest)
          DecryptionFailed) (\<lambda>plaintext. Inr (header, plaintext)))))"

definition decode_group_secured ::
  "ccm \<Rightarrow> hkdf \<Rightarrow> bytes \<Rightarrow> bytes \<Rightarrow> transport_error + secured_header \<times> bytes" where
  "decode_group_secured C hkdf bs group_key = decode_group_secured_inner C hkdf bs group_key None"

definition decode_group_secured_with_privacy_key ::
  "ccm \<Rightarrow> hkdf \<Rightarrow> bytes \<Rightarrow> bytes \<Rightarrow> bytes \<Rightarrow> transport_error + secured_header \<times> bytes" where
  "decode_group_secured_with_privacy_key C hkdf bs group_key privacy_key =
     decode_group_secured_inner C hkdf bs group_key (Some privacy_key)"

section \<open>The header codec is exact\<close>

text \<open>Presence bits and fields agree, and the bits that must be zero are.\<close>

definition header_wf :: "secured_header \<Rightarrow> bool" where
  "header_wf h \<longleftrightarrow> sh_flags h AND FLAGS_MUST_BE_ZERO_MASK = 0 \<and>
     (flags_contain (sh_flags h) SOURCE_PRESENT \<longleftrightarrow> sh_source h \<noteq> None) \<and>
     sh_flags h AND DSIZ_MASK = (case sh_dest h of None \<Rightarrow> DSIZ_NONE
       | Some (DestNode _) \<Rightarrow> DSIZ_UNICAST | Some (DestGroup _) \<Rightarrow> DSIZ_GROUP)"

definition source_bytes :: "u64 option \<Rightarrow> bytes" where
  "source_bytes s = (case s of Some n \<Rightarrow> to_le 8 n | None \<Rightarrow> [])"

definition dest_bytes :: "dest_node_id option \<Rightarrow> bytes" where
  "dest_bytes d = (case d of None \<Rightarrow> [] | Some (DestNode n) \<Rightarrow> to_le 8 n | Some (DestGroup g) \<Rightarrow> to_le 2 g)"

definition fixed_bytes :: "secured_header \<Rightarrow> bytes" where
  "fixed_bytes h = [sh_flags h] @ to_le 2 (sh_session_id h) @ [sh_security_flags h] @ to_le 4 (sh_counter h)"

lemma encode_header_parts:
  "encode_header h = fixed_bytes h @ source_bytes (sh_source h) @ dest_bytes (sh_dest h)"
  by (simp add: encode_header_def fixed_bytes_def source_bytes_def dest_bytes_def)

lemma length_fixed_bytes [simp]: "length (fixed_bytes h) = 8"
  by (simp add: fixed_bytes_def)

lemma fixed_fields:
  "(fixed_bytes h @ xs) ! 0 = sh_flags h" "(fixed_bytes h @ xs) ! 3 = sh_security_flags h"
  "(of_le (slice_at (Suc 0) 2 (fixed_bytes h @ xs)) :: u16) = sh_session_id h"
  "(of_le (slice_at 4 4 (fixed_bytes h @ xs)) :: u32) = sh_counter h"
  by (simp_all add: fixed_bytes_def slice_skip slice_here nth_append)

lemma decode_source_reads:
  assumes "flags_contain (sh_flags h) SOURCE_PRESENT \<longleftrightarrow> sh_source h \<noteq> None"
  shows "decode_source (fixed_bytes h @ source_bytes (sh_source h) @ xs) 8 =
    Inr (sh_source h, 8 + length (source_bytes (sh_source h)))"
  using assms by (auto simp: decode_source_def fixed_fields source_bytes_def slice_skip slice_here)

lemma decode_dest_reads:
  assumes "sh_flags h AND DSIZ_MASK = (case sh_dest h of None \<Rightarrow> DSIZ_NONE
       | Some (DestNode _) \<Rightarrow> DSIZ_UNICAST | Some (DestGroup _) \<Rightarrow> DSIZ_GROUP)"
  shows "decode_dest (fixed_bytes h @ ys @ dest_bytes (sh_dest h) @ xs) (8 + length ys) =
    Inr (sh_dest h, 8 + length ys + length (dest_bytes (sh_dest h)))"
  using assms
  by (auto simp: decode_dest_def fixed_fields dest_bytes_def slice_skip slice_here dsiz_defs
      split: option.splits dest_node_id.splits)

lemma decode_header_encode:
  assumes "header_wf h"
  shows "decode_header (encode_header h @ rest) = Inr (h, rest)"
proof -
  let ?bs = "fixed_bytes h @ source_bytes (sh_source h) @ dest_bytes (sh_dest h) @ rest"
  have enc: "encode_header h @ rest = ?bs" by (simp add: encode_header_parts)
  have "sh_flags h AND DSIZ_MASK \<noteq> DSIZ_RESERVED"
    using assms by (auto simp: header_wf_def dsiz_defs split: option.splits dest_node_id.splits)
  moreover have "\<not> length ?bs < 8" by simp
  ultimately show ?thesis
    using assms unfolding enc decode_header_def
    by (simp add: header_wf_def fixed_fields decode_source_reads decode_dest_reads)
qed

interpretation secured_header: byte_codec encode_header decode_header header_wf "\<lambda>_. True"
  by unfold_locales (rule decode_header_encode)

lemma decode_source_inv:
  assumes "decode_source bs off = Inr (s, off')"
  shows "drop off bs = source_bytes s @ drop off' bs"
    and "flags_contain (bs ! 0) SOURCE_PRESENT \<longleftrightarrow> s \<noteq> None"
  using assms
  by (auto simp: decode_source_def source_bytes_def to_le_of_le length_slice slice_append_drop
      split: if_splits)

lemma decode_dest_inv:
  assumes "decode_dest bs off = Inr (d, off')"
  shows "drop off bs = dest_bytes d @ drop off' bs"
    and "bs ! 0 AND DSIZ_MASK = (case d of None \<Rightarrow> DSIZ_NONE
       | Some (DestNode _) \<Rightarrow> DSIZ_UNICAST | Some (DestGroup _) \<Rightarrow> DSIZ_GROUP)"
  using assms
  by (auto simp: decode_dest_def Let_def dest_bytes_def to_le_of_le length_slice slice_append_drop
      simp del: add_2_eq_Suc' split: if_splits)

lemma fixed_bytes_inv:
  assumes "8 \<le> length bs"
  shows "[bs ! 0] @ to_le 2 (of_le (slice_at 1 2 bs) :: u16) @ [bs ! 3]
    @ to_le 4 (of_le (slice_at 4 4 bs) :: u32) @ drop 8 bs = bs"
proof -
  from assms obtain b0 xs where bs: "bs = b0 # xs" by (cases bs) auto
  have "slice_at 1 2 bs @ slice_at 3 1 bs @ slice_at 4 4 bs @ drop 8 bs = xs"
    using slice_append_drop [of 4 4 bs] slice_append_drop [of 3 1 bs] slice_append_drop [of 1 2 bs]
    by (simp add: bs numeral_2_eq_2)
  moreover have "slice_at 3 1 bs = [bs ! 3]" using assms by (intro nth_slice1) simp
  ultimately show ?thesis using assms by (simp add: bs to_le_of_le length_slice)
qed

lemma decode_header_inv:
  assumes dec: "decode_header bs = Inr (h, rest)"
  shows "header_wf h" and "bs = encode_header h @ rest"
proof -
  from dec have len: "8 \<le> length bs" and z: "bs ! 0 AND FLAGS_MUST_BE_ZERO_MASK = 0"
    by (auto simp: decode_header_def split: if_splits)
  from dec obtain s o1 d o2 where s: "decode_source bs 8 = Inr (s, o1)"
    and d: "decode_dest bs o1 = Inr (d, o2)" and rest: "rest = drop o2 bs"
    and h: "h = \<lparr>sh_flags = bs ! 0, sh_session_id = of_le (slice_at 1 2 bs), sh_security_flags = bs ! 3,
              sh_counter = of_le (slice_at 4 4 bs), sh_source = s, sh_dest = d\<rparr>"
    by (auto simp: decode_header_def try_bind_eq_Inr split: if_splits)
  show "header_wf h"
    using z decode_source_inv(2) [OF s] decode_dest_inv(2) [OF d] by (simp add: header_wf_def h)
  have "drop 8 bs = source_bytes s @ dest_bytes d @ drop o2 bs"
    using decode_source_inv(1) [OF s] decode_dest_inv(1) [OF d] by simp
  then show "bs = encode_header h @ rest"
    using fixed_bytes_inv [OF len] by (simp add: encode_header_parts fixed_bytes_def h rest)
qed

lemma decode_header_iff:
  "decode_header bs = Inr (h, rest) \<longleftrightarrow> header_wf h \<and> bs = encode_header h @ rest"
  using decode_header_inv decode_header_encode by blast

end
