(* ===== verification/Session.thy ===== *)
theory Session
  imports MRP Framing "HOL-Library.Product_Lexorder"
begin

text \<open>
  The session manager, \<open>crates/matter-transport/src/session.rs\<close>, which composes framing, replay
  window and reliability protocol, and the close-session message of \<open>secure_channel.rs\<close>.

  The session table is an association list with distinct keys; where the code walks the hash
  table in its own order, the model walks the list. Random draws are arguments
  (\<open>None\<close> when the system generator fails). The cached ciphers are left out: they are
  functions of the keys, which never change. So is the routing hint \<open>peer_addr\<close>, which no
  operation reads.
\<close>

section \<open>Data\<close>

record peer_hint =
  hint_node_id :: "u64 option"
  hint_fabric_id :: "u64 option"

record session =
  local_id :: u16
  peer_id :: u16
  sess_role :: session_role
  sess_keys :: session_keys
  outbound_counter :: u32
  sess_window :: replay_window
  sess_peer :: peer_hint
  local_nonce_node_id :: u64
  peer_nonce_node_id :: u64
  sess_mrp :: mrp_state
  transport_reliable :: bool
  created_seq :: u64

record encode_outbound_output =
  eo_wire_bytes :: bytes
  eo_exchange_id :: u16
  eo_is_local_initiator :: bool
  eo_message_counter :: u32
  eo_piggyback_acked :: bool

datatype decode_inbound_output =
    InAppMessage u16 u16 bool protocol_id u8 bytes
  | InAckOnly u16 u16 u32
  | DuplicateReliableAckResent u16 u16 bytes

datatype mrp_event =
    Retransmit u16 u16 u32 bytes
  | SendStandaloneAck u16 u16 bytes
  | Expired u16 u16 u32
  | SessionCounterExhausted u16 u16 u32

record session_manager =
  sessions :: "(u16 \<times> session) list"
  next_local_id :: u16
  next_seq :: u64
  max_sessions :: nat
  next_exchange_id :: u16

datatype outbound_exchange = NewExchange | OutById u16 | OutExact exchange_key

datatype exchange_target = ById u16 | Exact exchange_key

definition DEFAULT_MAX_SESSIONS :: nat where "DEFAULT_MAX_SESSIONS = 256"

text \<open>\<open>u32::MAX\<close>, the word with all bits set.\<close>

definition U32_MAX :: u32 where "U32_MAX = - 1"

section \<open>Random starts\<close>

definition seed_exchange_id :: "bytes option \<Rightarrow> u16" where
  "seed_exchange_id draw = (case draw of None \<Rightarrow> 1 | Some bs \<Rightarrow> of_le bs)"

definition initial_counter_from_drbg :: "bytes \<Rightarrow> u32" where
  "initial_counter_from_drbg bs = (of_le bs AND 0x0FFFFFFF) + 1"

definition seed_message_counter :: "bytes option \<Rightarrow> u32" where
  "seed_message_counter draw = (case draw of None \<Rightarrow> 1 | Some bs \<Rightarrow> initial_counter_from_drbg bs)"

text \<open>\<open>MrpState::new\<close>; the fallback is the value of the process-wide counter.\<close>

definition mrp_new :: "mrp_config \<Rightarrow> bytes option \<Rightarrow> u64 \<Rightarrow> mrp_state" where
  "mrp_new c draw fallback =
     with_jitter_seed c (case draw of None \<Rightarrow> fallback | Some bs \<Rightarrow> of_le bs)"

record draws =
  counter_draw :: "bytes option"
  jitter_draw :: "bytes option"
  jitter_fallback :: u64

section \<open>Registration\<close>

definition manager_new :: "bytes option \<Rightarrow> session_manager" where
  "manager_new draw =
     \<lparr>sessions = [], next_local_id = 1, next_seq = 0, max_sessions = DEFAULT_MAX_SESSIONS,
      next_exchange_id = seed_exchange_id draw\<rparr>"

definition set_max_sessions :: "nat \<Rightarrow> session_manager \<Rightarrow> session_manager" where
  "set_max_sessions n m = m\<lparr>max_sessions := max n 1\<rparr>"

definition victim_key :: "u16 \<times> session \<Rightarrow> bool \<times> u64" where
  "victim_key e = (has_pending (sess_mrp (snd e)), created_seq (snd e))"

definition evict :: "u16 \<Rightarrow> session_manager \<Rightarrow> (u16 \<times> session) list" where
  "evict sid m =
     (if length (sessions m) \<ge> max_sessions m \<and> sid \<notin> fst ` set (sessions m) \<and> sessions m \<noteq> []
      then AList.delete (fst (arg_min_list victim_key (sessions m))) (sessions m)
      else sessions m)"

definition insert_session ::
  "draws \<Rightarrow> u16 \<Rightarrow> session_keys \<Rightarrow> session_role \<Rightarrow> u16 \<Rightarrow> peer_hint \<Rightarrow> session_manager \<Rightarrow> session_manager" where
  "insert_session d sid keys role peer_session_id peer m =
     m\<lparr>sessions := AList.update sid
         \<lparr>local_id = sid, peer_id = peer_session_id, sess_role = role, sess_keys = keys,
          outbound_counter = seed_message_counter (counter_draw d), sess_window = replay_window_new,
          sess_peer = peer, local_nonce_node_id = 0, peer_nonce_node_id = 0,
          sess_mrp = mrp_new mrp_config_default (jitter_draw d) (jitter_fallback d),
          transport_reliable = False, created_seq = next_seq m\<rparr>
         (evict sid m),
       next_seq := next_seq m + 1\<rparr>"

text \<open>
  The search for a free id; it does not end when every id is taken, which is \<open>None\<close> here. After
  \<open>2^16 + 1\<close> tries every id has been seen.
\<close>

fun allocate_loop :: "nat \<Rightarrow> u16 \<Rightarrow> u16 set \<Rightarrow> (u16 \<times> u16) option" where
  "allocate_loop 0 next taken = None"
| "allocate_loop (Suc n) next taken =
     (let candidate = (if next = 0 then 1 else next) in
      if candidate \<notin> taken then Some (candidate, candidate + 1)
      else allocate_loop n (candidate + 1) taken)"

definition allocate_id :: "session_manager \<Rightarrow> (u16 \<times> session_manager) option" where
  "allocate_id m =
     map_option (\<lambda>(candidate, next). (candidate, m\<lparr>next_local_id := next\<rparr>))
       (allocate_loop (2 ^ 16 + 1) (next_local_id m) (fst ` set (sessions m)))"

definition register_pase ::
  "draws \<Rightarrow> session_keys \<Rightarrow> session_role \<Rightarrow> u16 \<Rightarrow> peer_hint \<Rightarrow> session_manager
    \<Rightarrow> (u16 \<times> session_manager) option" where
  "register_pase d keys role peer_session_id peer m =
     map_option (\<lambda>(sid, m1). (sid, insert_session d sid keys role peer_session_id peer m1)) (allocate_id m)"

definition register_pase_with_local_id ::
  "draws \<Rightarrow> u16 \<Rightarrow> session_keys \<Rightarrow> session_role \<Rightarrow> u16 \<Rightarrow> peer_hint \<Rightarrow> session_manager \<Rightarrow> session_manager" where
  "register_pase_with_local_id = insert_session"

text \<open>The fields of a completed CASE handshake that registration reads.\<close>

record case_output =
  co_keys :: session_keys
  co_local_session_id :: u16
  co_local_node_id :: u64
  co_peer_session_id :: u16
  co_peer_node_id :: u64
  co_peer_fabric_id :: u64

definition register_case_with_mrp ::
  "draws \<Rightarrow> draws \<Rightarrow> case_output \<Rightarrow> session_role \<Rightarrow> mrp_config \<Rightarrow> session_manager \<Rightarrow> u16 \<times> session_manager" where
  "register_case_with_mrp d d' co role conf m =
     (let sid = co_local_session_id co;
          m1 = insert_session d sid (co_keys co) role (co_peer_session_id co)
            \<lparr>hint_node_id = Some (co_peer_node_id co), hint_fabric_id = Some (co_peer_fabric_id co)\<rparr> m
      in (sid, case map_of (sessions m1) sid of None \<Rightarrow> m1
         | Some s \<Rightarrow> m1\<lparr>sessions := AList.update sid
             (s\<lparr>local_nonce_node_id := co_local_node_id co, peer_nonce_node_id := co_peer_node_id co,
                sess_mrp := mrp_new conf (jitter_draw d') (jitter_fallback d')\<rparr>) (sessions m1)\<rparr>))"

definition register_case ::
  "draws \<Rightarrow> draws \<Rightarrow> case_output \<Rightarrow> session_role \<Rightarrow> session_manager \<Rightarrow> u16 \<times> session_manager" where
  "register_case d d' co role m = register_case_with_mrp d d' co role mrp_config_default m"

definition remove_session :: "u16 \<Rightarrow> session_manager \<Rightarrow> session option \<times> session_manager" where
  "remove_session sid m = (map_of (sessions m) sid, m\<lparr>sessions := AList.delete sid (sessions m)\<rparr>)"

definition set_transport_reliable :: "u16 \<Rightarrow> bool \<Rightarrow> (session_manager, transport_error, unit) comp" where
  "set_transport_reliable sid b m =
     (case map_of (sessions m) sid of None \<Rightarrow> (Inl (UnknownSession sid), m)
      | Some s \<Rightarrow> (Inr (), m\<lparr>sessions := AList.update sid (s\<lparr>transport_reliable := b\<rparr>) (sessions m)\<rparr>))"

section \<open>One session: sending and acknowledging\<close>

definition session_header :: "session \<Rightarrow> secured_header" where
  "session_header s =
     \<lparr>sh_flags = 0, sh_session_id = peer_id s, sh_security_flags = 0, sh_counter = outbound_counter s,
      sh_source = None, sh_dest = None\<rparr>"

text \<open>\<open>encode_secured_with_cipher\<close> with the session's header, outbound cipher and node id.\<close>

definition seal :: "ccm \<Rightarrow> session \<Rightarrow> bytes \<Rightarrow> transport_error + bytes" where
  "seal C s payload = encode_secured_with_cipher C (session_header s) payload
     (sending_key (sess_keys s) (sess_role s)) (local_nonce_node_id s)"

text \<open>The part of \<open>encode_on\<close> that works on the session.\<close>

definition send_on ::
  "ccm \<Rightarrow> float_ops \<Rightarrow> exchange_key \<Rightarrow> u8 \<Rightarrow> protocol_id \<Rightarrow> bytes \<Rightarrow> bool \<Rightarrow> instant
    \<Rightarrow> (session, transport_error, encode_outbound_output) comp" where
  "send_on C fl e opcode pid app reliable now s =
     (if outbound_counter s = U32_MAX then (Inl CounterOverflow, s)
      else
        let effective = reliable \<and> \<not> transport_reliable s;
            prepared = build_outbound (sess_mrp s) opcode pid e app effective in
        case seal C s (po_wire_payload prepared) of
          Inl e1 \<Rightarrow> (Inl e1, s)
        | Inr wire \<Rightarrow>
            let counter = outbound_counter s;
                mrp1 = commit_outbound prepared (sess_mrp s);
                mrp2 = mark_packet_sent_on fl counter (po_exchange prepared)
                  (if effective then wire else []) effective now mrp1
            in (Inr \<lparr>eo_wire_bytes = wire, eo_exchange_id = po_exchange_id prepared,
                     eo_is_local_initiator = po_local prepared, eo_message_counter = counter,
                     eo_piggyback_acked = po_piggyback_acked prepared\<rparr>,
                s\<lparr>sess_mrp := mrp2, outbound_counter := counter + 1\<rparr>))"

definition build_standalone_ack_packet ::
  "ccm \<Rightarrow> u16 \<Rightarrow> u32 \<Rightarrow> bool \<Rightarrow> (session, transport_error, bytes) comp" where
  "build_standalone_ack_packet C exchange_id ack_counter is_local_initiator s =
     (if outbound_counter s = U32_MAX then (Inl CounterOverflow, s)
      else
        case seal C s (encode_protocol_header (build_standalone_ack_header exchange_id ack_counter is_local_initiator)) of
          Inl e1 \<Rightarrow> (Inl e1, s)
        | Inr packet \<Rightarrow> (Inr packet, s\<lparr>outbound_counter := outbound_counter s + 1\<rparr>))"

definition fold_timer_event :: "ccm \<Rightarrow> u16 \<Rightarrow> mrp_timer_event \<Rightarrow> session \<Rightarrow> mrp_event option \<times> session" where
  "fold_timer_event C sid ev s =
     (case ev of
        TimerRetransmit exchange_id counter packet \<Rightarrow> (Some (Retransmit sid exchange_id counter packet), s)
      | TimerExpired exchange_id counter \<Rightarrow> (Some (Expired sid exchange_id counter), s)
      | TimerAck exchange_id ack_counter is_local_initiator \<Rightarrow>
          (case build_standalone_ack_packet C exchange_id ack_counter is_local_initiator s of
             (Inr packet, s') \<Rightarrow> (Some (SendStandaloneAck sid exchange_id packet), s')
           | (Inl CounterOverflow, s') \<Rightarrow> (Some (SessionCounterExhausted sid exchange_id ack_counter), s')
           | (Inl _, s') \<Rightarrow> (None, s')))"

fun fold_timer_events :: "ccm \<Rightarrow> u16 \<Rightarrow> mrp_timer_event list \<Rightarrow> session \<Rightarrow> mrp_event list \<times> session" where
  "fold_timer_events C sid [] s = ([], s)"
| "fold_timer_events C sid (ev # evs) s =
     (let (out, s1) = fold_timer_event C sid ev s; (outs, s2) = fold_timer_events C sid evs s1
      in ((case out of None \<Rightarrow> outs | Some x \<Rightarrow> x # outs), s2))"

definition answer_duplicate ::
  "ccm \<Rightarrow> u16 \<Rightarrow> u32 \<Rightarrow> bytes \<Rightarrow> transport_error \<Rightarrow> (session, transport_error, decode_inbound_output) comp" where
  "answer_duplicate C sid counter plaintext replay_err s =
     (case decode_protocol_header plaintext of
        Inl e \<Rightarrow> (Inl e, s)
      | Inr (header, _) \<Rightarrow>
          if \<not> flags_contain (ph_flags header) FLAG_RELIABLE \<or> transport_reliable s then (Inl replay_err, s)
          else
            andthen (build_standalone_ack_packet C (ph_exchange_id header) counter
                (\<not> flags_contain (ph_flags header) FLAG_INITIATOR))
              (\<lambda>ack_packet s1. (Inr (DuplicateReliableAckResent sid (ph_exchange_id header) ack_packet),
                 s1\<lparr>sess_mrp := forget_ack_for counter (sess_mrp s1)\<rparr>)) s)"

text \<open>The part of \<open>decode_inbound\<close> that works on the session, from the parsed header.\<close>

definition receive_on ::
  "ccm \<Rightarrow> bytes \<Rightarrow> secured_header \<Rightarrow> nat \<Rightarrow> instant
    \<Rightarrow> (session, transport_error, decode_inbound_output) comp" where
  "receive_on C packet header header_len now s =
     (let sid = sh_session_id header; counter = sh_counter header in
      case decrypt_secured_with_header C packet header header_len
          (receiving_key (sess_keys s) (sess_role s)) (peer_nonce_node_id s) of
        Inl e \<Rightarrow> (Inl e, s)
      | Inr decrypted \<Rightarrow>
          (case check_and_record counter (sess_window s) of
             (Inr _, w) \<Rightarrow>
               (case process_inbound decrypted counter now (sess_mrp s) of
                  (Inl e, mrp1) \<Rightarrow> (Inl e, s\<lparr>sess_window := w, sess_mrp := mrp1\<rparr>)
                | (Inr outcome, mrp1) \<Rightarrow>
                    (case outcome of
                       AppMessage exchange_id is_initiator pid opcode payload \<Rightarrow>
                         (Inr (InAppMessage sid exchange_id is_initiator pid opcode payload),
                          s\<lparr>sess_window := w, sess_mrp :=
                            (if transport_reliable s
                             then cancel_pending_outbound_ack (of_inbound exchange_id is_initiator) mrp1
                             else mrp1)\<rparr>)
                     | AckOnly exchange_id acked \<Rightarrow>
                         (Inr (InAckOnly sid exchange_id acked), s\<lparr>sess_window := w, sess_mrp := mrp1\<rparr>)
                     | DuplicateReliable _ _ _ \<Rightarrow>
                         (Inl DecryptionFailed, s\<lparr>sess_window := w, sess_mrp := mrp1\<rparr>)))
           | (Inl replay_err, w) \<Rightarrow>
               answer_duplicate C sid counter decrypted replay_err (s\<lparr>sess_window := w\<rparr>)))"

section \<open>The manager\<close>

text \<open>Run a method of one session in the table.\<close>

definition on_session ::
  "u16 \<Rightarrow> (session, transport_error, 'a) comp \<Rightarrow> (session_manager, transport_error, 'a) comp" where
  "on_session sid f m =
     (case map_of (sessions m) sid of None \<Rightarrow> (Inl (UnknownSession sid), m)
      | Some s \<Rightarrow> (case f s of (r, s') \<Rightarrow> (r, m\<lparr>sessions := AList.update sid s' (sessions m)\<rparr>)))"

definition target_exchange :: "session_manager \<Rightarrow> session \<Rightarrow> outbound_exchange \<Rightarrow> exchange_key" where
  "target_exchange m s target =
     (case target of NewExchange \<Rightarrow> ExchangeKey (next_exchange_id m) True
      | OutById i \<Rightarrow> resolve (sess_mrp s) i | OutExact e \<Rightarrow> e)"

definition encode_on ::
  "ccm \<Rightarrow> float_ops \<Rightarrow> u16 \<Rightarrow> outbound_exchange \<Rightarrow> u8 \<Rightarrow> protocol_id \<Rightarrow> bytes \<Rightarrow> bool \<Rightarrow> instant
    \<Rightarrow> (session_manager, transport_error, encode_outbound_output) comp" where
  "encode_on C fl sid target opcode pid app reliable now m =
     andthen (on_session sid (\<lambda>s. send_on C fl (target_exchange m s target) opcode pid app reliable now s))
       (\<lambda>out m1. (Inr out, if target = NewExchange
          then m1\<lparr>next_exchange_id := next_exchange_id m1 + 1\<rparr> else m1)) m"

definition encode_outbound ::
  "ccm \<Rightarrow> float_ops \<Rightarrow> u16 \<Rightarrow> u16 option \<Rightarrow> u8 \<Rightarrow> protocol_id \<Rightarrow> bytes \<Rightarrow> bool \<Rightarrow> instant
    \<Rightarrow> (session_manager, transport_error, encode_outbound_output) comp" where
  "encode_outbound C fl sid exchange_id =
     encode_on C fl sid (case exchange_id of None \<Rightarrow> NewExchange | Some i \<Rightarrow> OutById i)"

definition encode_outbound_with_role ::
  "ccm \<Rightarrow> float_ops \<Rightarrow> u16 \<Rightarrow> u16 \<Rightarrow> bool \<Rightarrow> u8 \<Rightarrow> protocol_id \<Rightarrow> bytes \<Rightarrow> bool \<Rightarrow> instant
    \<Rightarrow> (session_manager, transport_error, encode_outbound_output) comp" where
  "encode_outbound_with_role C fl sid exchange_id is_local_initiator =
     encode_on C fl sid (OutExact (ExchangeKey exchange_id is_local_initiator))"

definition decode_inbound ::
  "ccm \<Rightarrow> bytes \<Rightarrow> instant \<Rightarrow> (session_manager, transport_error, decode_inbound_output) comp" where
  "decode_inbound C packet now m =
     (case decode_header packet of
        Inl e \<Rightarrow> (Inl e, m)
      | Inr (header, rest) \<Rightarrow>
          on_session (sh_session_id header) (receive_on C packet header (length packet - length rest) now) m)"

definition manager_poll_timeout :: "session_manager \<Rightarrow> instant option" where
  "manager_poll_timeout m = min_of (List.map_filter (\<lambda>(_, s). mrp_poll_timeout (sess_mrp s)) (sessions m))"

definition session_timeout :: "ccm \<Rightarrow> float_ops \<Rightarrow> instant \<Rightarrow> u16 \<Rightarrow> session \<Rightarrow> mrp_event list \<times> session" where
  "session_timeout C fl now sid s =
     (let (evs, mrp1) = mrp_handle_timeout fl now (sess_mrp s)
      in fold_timer_events C sid evs (s\<lparr>sess_mrp := mrp1\<rparr>))"

text \<open>A method on every session of a list of ids, collecting the events; unknown ids are skipped.\<close>

fun each_session ::
  "(u16 \<Rightarrow> session \<Rightarrow> mrp_event list \<times> session) \<Rightarrow> u16 list \<Rightarrow> session_manager \<Rightarrow> mrp_event list \<times> session_manager" where
  "each_session f [] m = ([], m)"
| "each_session f (sid # sids) m =
     (case map_of (sessions m) sid of None \<Rightarrow> each_session f sids m
      | Some s \<Rightarrow>
          let (out, s') = f sid s;
              (outs, m') = each_session f sids (m\<lparr>sessions := AList.update sid s' (sessions m)\<rparr>)
          in (out @ outs, m'))"

definition manager_handle_timeout :: "ccm \<Rightarrow> float_ops \<Rightarrow> instant \<Rightarrow> session_manager \<Rightarrow> mrp_event list \<times> session_manager" where
  "manager_handle_timeout C fl now m = each_session (session_timeout C fl now) (map fst (sessions m)) m"

definition end_on :: "ccm \<Rightarrow> exchange_target \<Rightarrow> bool \<Rightarrow> u16 \<Rightarrow> session \<Rightarrow> mrp_event list \<times> session" where
  "end_on C target abort sid s =
     (let e = (case target of ById i \<Rightarrow> resolve (sess_mrp s) i | Exact e \<Rightarrow> e);
          (flushed, mrp1) = flush_exchange_acks_on e (sess_mrp s);
          mrp2 = (if abort then close_exchange_on e mrp1 else mrp1)
      in fold_timer_events C sid flushed (s\<lparr>sess_mrp := mrp2\<rparr>))"

definition end_exchange ::
  "ccm \<Rightarrow> u16 \<Rightarrow> exchange_target \<Rightarrow> bool \<Rightarrow> session_manager \<Rightarrow> mrp_event list \<times> session_manager" where
  "end_exchange C sid target abort m = each_session (end_on C target abort) [sid] m"

definition finish_exchange :: "ccm \<Rightarrow> u16 \<Rightarrow> u16 \<Rightarrow> session_manager \<Rightarrow> mrp_event list \<times> session_manager" where
  "finish_exchange C sid exchange_id = end_exchange C sid (ById exchange_id) False"

definition finish_exchange_with_role :: "ccm \<Rightarrow> u16 \<Rightarrow> u16 \<Rightarrow> bool \<Rightarrow> session_manager \<Rightarrow> mrp_event list \<times> session_manager" where
  "finish_exchange_with_role C sid exchange_id l = end_exchange C sid (Exact (ExchangeKey exchange_id l)) False"

definition abort_exchange :: "ccm \<Rightarrow> u16 \<Rightarrow> u16 \<Rightarrow> session_manager \<Rightarrow> mrp_event list \<times> session_manager" where
  "abort_exchange C sid exchange_id = end_exchange C sid (ById exchange_id) True"

definition abort_exchange_with_role :: "ccm \<Rightarrow> u16 \<Rightarrow> u16 \<Rightarrow> bool \<Rightarrow> session_manager \<Rightarrow> mrp_event list \<times> session_manager" where
  "abort_exchange_with_role C sid exchange_id l = end_exchange C sid (Exact (ExchangeKey exchange_id l)) True"

definition flush_on :: "ccm \<Rightarrow> u16 \<Rightarrow> session \<Rightarrow> mrp_event list \<times> session" where
  "flush_on C sid s =
     (let (flushed, mrp1) = flush_all_acks (sess_mrp s) in fold_timer_events C sid flushed (s\<lparr>sess_mrp := mrp1\<rparr>))"

definition flush_session_acks :: "ccm \<Rightarrow> u16 \<Rightarrow> session_manager \<Rightarrow> mrp_event list \<times> session_manager" where
  "flush_session_acks C sid m = each_session (flush_on C) [sid] m"

definition flush_pending_acks :: "ccm \<Rightarrow> session_manager \<Rightarrow> mrp_event list \<times> session_manager" where
  "flush_pending_acks C m = each_session (flush_on C) (sort (map fst (sessions m))) m"

section \<open>Closing a session\<close>

text \<open>\<open>CLOSE_SESSION_PAYLOAD\<close>: general code 0, protocol id 0, protocol code 3.\<close>

definition CLOSE_SESSION_PAYLOAD :: bytes where
  "CLOSE_SESSION_PAYLOAD = [0, 0, 0, 0, 0, 0, 3, 0]"

definition is_close_session :: "protocol_id \<Rightarrow> u8 \<Rightarrow> bytes \<Rightarrow> bool" where
  "is_close_session pid opcode payload \<longleftrightarrow>
     pid = PID_SECURE_CHANNEL \<and> opcode = STATUS_REPORT \<and>
     length payload \<ge> length CLOSE_SESSION_PAYLOAD \<and>
     take (length CLOSE_SESSION_PAYLOAD) payload = CLOSE_SESSION_PAYLOAD"

definition encode_close_session ::
  "ccm \<Rightarrow> float_ops \<Rightarrow> u16 \<Rightarrow> instant \<Rightarrow> (session_manager, transport_error, encode_outbound_output) comp" where
  "encode_close_session C fl sid now =
     encode_outbound C fl sid None STATUS_REPORT PID_SECURE_CHANNEL CLOSE_SESSION_PAYLOAD False now"

end
