(* ===== verification/MRP_Invariant.thy ===== *)
theory MRP_Invariant
  imports MRP
begin

text \<open>
  The invariant of the reliability state and its preservation by every operation: the tables
  are well formed, what is kept for displaced acknowledgements and duplicates is bounded, and every exchange with live work is in the exchange table.
\<close>

named_theorems mrp_simps \<open>fields of updated reliability states\<close>

section \<open>Live work\<close>

definition work :: "mrp_state \<Rightarrow> exchange_key set" where
  "work s = (\<lambda>(_, p). pa_exchange p) ` set (pending_acks s) \<union> fst ` set (pending_outbound_acks s)
     \<union> fst ` set (displaced_acks s)"

lemma idle_iff_no_work: "exchange_is_idle s e \<longleftrightarrow> e \<notin> work s"
  by (force simp: exchange_is_idle_def work_def list_ex_iff)

definition mrp_inv :: "mrp_state \<Rightarrow> bool" where
  "mrp_inv s \<longleftrightarrow>
     distinct (map fst (pending_acks s)) \<and> distinct (map fst (pending_outbound_acks s)) \<and>
     distinct (exchanges s) \<and> work s \<subseteq> set (exchanges s) \<and>
     length (displaced_acks s) \<le> MAX_DISPLACED_ACKS \<and>
     length (recent_reliable s) = 32 \<and> recent_next_slot s < 32 \<and>
     (\<forall>(_, p)\<in>set (pending_acks s).
        pa_attempts_remaining p \<le> saturating_sub (max_transmissions (mrp_conf s)) 1)"

lemma mrp_invD:
  assumes "mrp_inv s"
  shows "distinct (map fst (pending_acks s))" "distinct (map fst (pending_outbound_acks s))"
    "distinct (exchanges s)" "work s \<subseteq> set (exchanges s)"
    "length (displaced_acks s) \<le> MAX_DISPLACED_ACKS" "length (recent_reliable s) = 32"
    "recent_next_slot s < 32"
    "(c, p) \<in> set (pending_acks s) \<Longrightarrow> pa_attempts_remaining p \<le> saturating_sub (max_transmissions (mrp_conf s)) 1"
  using assms by (auto simp: mrp_inv_def)

lemma mrp_invI:
  assumes "distinct (map fst (pending_acks s))" "distinct (map fst (pending_outbound_acks s))"
    "distinct (exchanges s)" "work s \<subseteq> set (exchanges s)"
    "length (displaced_acks s) \<le> MAX_DISPLACED_ACKS" "length (recent_reliable s) = 32"
    "recent_next_slot s < 32"
    "\<And>c p. (c, p) \<in> set (pending_acks s) \<Longrightarrow>
       pa_attempts_remaining p \<le> saturating_sub (max_transmissions (mrp_conf s)) 1"
  shows "mrp_inv s"
  using assms by (auto simp: mrp_inv_def)

section \<open>Reclaiming\<close>

lemma reclaim_fields [mrp_simps, simp]:
  "pending_acks (reclaim_if_idle e s) = pending_acks s"
  "pending_outbound_acks (reclaim_if_idle e s) = pending_outbound_acks s"
  "displaced_acks (reclaim_if_idle e s) = displaced_acks s"
  "recent_reliable (reclaim_if_idle e s) = recent_reliable s"
  "recent_next_slot (reclaim_if_idle e s) = recent_next_slot s"
  "mrp_conf (reclaim_if_idle e s) = mrp_conf s"
  "jitter (reclaim_if_idle e s) = jitter s"
  "last_peer_activity (reclaim_if_idle e s) = last_peer_activity s"
  "work (reclaim_if_idle e s) = work s"
  by (simp_all add: reclaim_if_idle_def work_def)

lemma set_exchanges_reclaim [simp]:
  "set (exchanges (reclaim_if_idle e s)) = set (exchanges s) - ({e} - work s)"
  by (auto simp: reclaim_if_idle_def idle_iff_no_work)

lemma reclaim_all_fields [mrp_simps, simp]:
  "pending_acks (fold reclaim_if_idle es s) = pending_acks s"
  "pending_outbound_acks (fold reclaim_if_idle es s) = pending_outbound_acks s"
  "displaced_acks (fold reclaim_if_idle es s) = displaced_acks s"
  "recent_reliable (fold reclaim_if_idle es s) = recent_reliable s"
  "recent_next_slot (fold reclaim_if_idle es s) = recent_next_slot s"
  "mrp_conf (fold reclaim_if_idle es s) = mrp_conf s"
  "jitter (fold reclaim_if_idle es s) = jitter s"
  "last_peer_activity (fold reclaim_if_idle es s) = last_peer_activity s"
  "work (fold reclaim_if_idle es s) = work s"
  "set (exchanges (fold reclaim_if_idle es s)) = set (exchanges s) - (set es - work s)"
  by (induction es arbitrary: s) auto

lemma length_reclaim: "length (exchanges (reclaim_if_idle e s)) \<le> length (exchanges s)"
  by (simp add: reclaim_if_idle_def length_removeAll_less_eq)

lemma length_reclaim_all: "length (exchanges (fold reclaim_if_idle es s)) \<le> length (exchanges s)"
proof (induction es arbitrary: s)
  case (Cons e es)
  then show ?case using order_trans [OF Cons.IH length_reclaim] by simp
qed simp

lemma reclaim_inv: "mrp_inv s \<Longrightarrow> mrp_inv (reclaim_if_idle e s)"
  by (auto simp: mrp_inv_def) (simp add: reclaim_if_idle_def distinct_removeAll)

lemma reclaim_all_inv: "mrp_inv s \<Longrightarrow> mrp_inv (fold reclaim_if_idle es s)"
  by (induction es arbitrary: s) (auto intro: reclaim_inv)

section \<open>Removing work\<close>

text \<open>
  Most operations only drop entries from the tables or count retransmissions down; such a
  change keeps the invariant.
\<close>

lemma dom_subset:
  assumes "mrp_inv s"
    and "distinct (map fst (pending_acks t))" "distinct (map fst (pending_outbound_acks t))"
    and "\<And>c p. (c, p) \<in> set (pending_acks t) \<Longrightarrow> \<exists>q. (c, q) \<in> set (pending_acks s) \<and>
           pa_exchange p = pa_exchange q \<and> pa_attempts_remaining p \<le> pa_attempts_remaining q"
    and "set (pending_outbound_acks t) \<subseteq> set (pending_outbound_acks s)"
    and "set (displaced_acks t) \<subseteq> set (displaced_acks s)"
    and "length (displaced_acks t) \<le> length (displaced_acks s)"
    and "exchanges t = exchanges s" "recent_reliable t = recent_reliable s"
    and "recent_next_slot t = recent_next_slot s" "mrp_conf t = mrp_conf s"
  shows "mrp_inv t"
proof (rule mrp_invI)
  have "work t \<subseteq> work s"
  proof -
    have "(\<lambda>(_, p). pa_exchange p) ` set (pending_acks t) \<subseteq> (\<lambda>(_, p). pa_exchange p) ` set (pending_acks s)"
      using assms(4) by force
    then show ?thesis using assms(5,6) unfolding work_def by blast
  qed
  then show "work t \<subseteq> set (exchanges t)" using mrp_invD(4) [OF assms(1)] assms(8) by simp
  show "pa_attempts_remaining p \<le> saturating_sub (max_transmissions (mrp_conf t)) 1"
    if "(c, p) \<in> set (pending_acks t)" for c p
    using assms(4) [OF that] mrp_invD(8) [OF assms(1)] assms(11) by fastforce
qed (use assms mrp_invD [OF assms(1)] in auto)

lemma distinct_map_fst_filter: "distinct (map fst m) \<Longrightarrow> distinct (map fst (filter P m))"
  by (rule distinct_map_filter)

lemma set_delete_subset: "set (AList.delete k m) \<subseteq> set m"
  by (auto simp: AList.delete_eq)

lemma set_update_subset: "set (AList.update k v m) \<subseteq> insert (k, v) (set m)"
  by (induction m) auto

lemma set_update_keys: "fst ` set (AList.update k v m) = insert k (fst ` set m)"
  using dom_update [of k v m] by (simp add: dom_map_of_conv_image_fst)

lemma take_acks_rest:
  "snd (take_acks es m) = filter (\<lambda>x. fst x \<notin> set es) m"
proof (induction es m rule: take_acks.induct)
  case (2 e es m)
  have none: "map_of m e = None \<Longrightarrow> filter (\<lambda>x. fst x \<notin> set es) m = filter (\<lambda>x. fst x \<notin> set (e # es)) m"
    by (rule filter_cong) (auto simp: map_of_eq_None_iff)
  show ?case
    using 2 none by (auto simp: AList.delete_eq case_prod_beta split: option.splits intro!: filter_cong)
qed simp

text \<open>What one loop body and the whole loop do, by projections.\<close>

lemma tick_Cons:
  assumes "tick_one fl c now a j e = (ev, keep, gone, j1)"
  shows "tick_pending fl c now a j (e # es) =
    (ev @ fst (tick_pending fl c now a j1 es), keep @ fst (snd (tick_pending fl c now a j1 es)),
     gone @ fst (snd (snd (tick_pending fl c now a j1 es))), snd (snd (snd (tick_pending fl c now a j1 es))))"
  using assms by (simp add: case_prod_beta)

lemma tick_one_cases:
  assumes "tick_one fl c now a j (k, p) = (ev, keep, gone, j1)"
  obtains
    (Wait) "pa_next_attempt p > now" "ev = []" "keep = [(k, p)]" "gone = []" "j1 = j"
  | (Expire) "pa_next_attempt p \<le> now" "pa_attempts_remaining p = 0"
      "ev = [TimerExpired (ek_id (pa_exchange p)) k]" "keep = []" "gone = [pa_exchange p]" "j1 = j"
  | (Resend) t where "pa_next_attempt p \<le> now" "pa_attempts_remaining p \<noteq> 0"
      "ev = [TimerRetransmit (ek_id (pa_exchange p)) k (pa_packet p)]"
      "keep = [(k, p\<lparr>pa_attempts_remaining := pa_attempts_remaining p - 1, pa_next_attempt := t\<rparr>)]"
      "gone = []" "now \<le> t"
  using assms by (auto simp: tick_one_def Let_def not_less split: if_splits prod.splits)

lemma tick_pending_kept:
  "(k, p) \<in> set (fst (snd (tick_pending fl c now a j ps))) \<Longrightarrow>
   \<exists>q. (k, q) \<in> set ps \<and> pa_exchange p = pa_exchange q \<and> pa_packet p = pa_packet q \<and>
     pa_attempts_remaining p \<le> pa_attempts_remaining q"
proof (induction ps arbitrary: j)
  case (Cons e ps)
  obtain k' q where e: "e = (k', q)" by (cases e)
  obtain ev keep gone j1 where t: "tick_one fl c now a j (k', q) = (ev, keep, gone, j1)"
    by (metis prod_cases4)
  have le: "pa_attempts_remaining q - 1 \<le> pa_attempts_remaining q" if "pa_attempts_remaining q \<noteq> 0"
    using that by (simp add: word_le_nat_alt unat_minus_one)
  from t show ?case
  proof (cases rule: tick_one_cases)
    case (Resend t')
    with Cons le show ?thesis unfolding e tick_Cons [OF t] by force
  qed (use Cons in \<open>unfold e tick_Cons [OF t], force\<close>)+
qed simp

lemma tick_pending_distinct:
  "distinct (map fst ps) \<Longrightarrow> distinct (map fst (fst (snd (tick_pending fl c now a j ps))))"
proof (induction ps arbitrary: j)
  case (Cons e ps)
  obtain k q where e: "e = (k, q)" by (cases e)
  obtain ev keep gone j1 where t: "tick_one fl c now a j (k, q) = (ev, keep, gone, j1)"
    by (metis prod_cases4)
  have "k \<notin> fst ` set (fst (snd (tick_pending fl c now a j1 ps)))"
    using Cons.prems tick_pending_kept by (force simp: e)
  moreover have "keep = [] \<or> (\<exists>q'. keep = [(k, q')])"
    using t by (cases rule: tick_one_cases) auto
  ultimately show ?case
    using Cons unfolding e tick_Cons [OF t] by force
qed simp

section \<open>Every operation keeps the invariant\<close>

lemma timeout_parts:
  fixes fl now s
  defines "T \<equiv> tick_pending fl (mrp_conf s) now (is_peer_active s now) (jitter s) (pending_acks s)"
  defines "A \<equiv> take_acks (sort (map fst (filter (ack_due now) (pending_outbound_acks s)))) (pending_outbound_acks s)"
  defines "s1 \<equiv> s\<lparr>pending_acks := fst (snd T), jitter := snd (snd (snd T)),
                 displaced_acks := filter (Not \<circ> ack_due now) (displaced_acks s),
                 pending_outbound_acks := snd A\<rparr>"
  shows "mrp_handle_timeout fl now s =
    (fst T @ map fired (filter (ack_due now) (displaced_acks s)) @ map fired (fst A),
     fold reclaim_if_idle (fst (snd (snd T)) @ map fst (filter (ack_due now) (displaced_acks s)) @ map fst (fst A)) s1)"
  by (simp add: mrp_handle_timeout_def T_def A_def s1_def Let_def case_prod_beta)

lemma timeout_inv:
  assumes "mrp_inv s"
  shows "mrp_inv (snd (mrp_handle_timeout fl now s))"
  unfolding timeout_parts snd_conv
proof (intro reclaim_all_inv dom_subset [OF assms], goal_cases)
  case (3 c p)
  then show ?case using tick_pending_kept by fastforce
qed (use mrp_invD [OF assms] tick_pending_distinct in
    \<open>auto simp: take_acks_rest distinct_map_fst_filter comp_def\<close>)

lemma work_insert_exchange [simp]: "work (s\<lparr>exchanges := es\<rparr>) = work s"
  by (simp add: work_def)

lemma insert_exchange_inv: "mrp_inv s \<Longrightarrow> mrp_inv (s\<lparr>exchanges := List.insert e (exchanges s)\<rparr>)"
  by (auto simp: mrp_inv_def)

lemma delete_ack_inv:
  assumes "mrp_inv s"
  shows "mrp_inv (s\<lparr>pending_outbound_acks := AList.delete e (pending_outbound_acks s)\<rparr>)"
  by (rule dom_subset [OF assms])
    (use mrp_invD [OF assms] in \<open>auto simp: distinct_delete dest: set_delete_subset [THEN subsetD]\<close>)

lemma commit_inv: "mrp_inv s \<Longrightarrow> mrp_inv (commit_outbound p s)"
  using delete_ack_inv [OF insert_exchange_inv] insert_exchange_inv
  by (simp add: commit_outbound_def Let_def)

lemma commit_in_table: "po_exchange p \<in> set (exchanges (commit_outbound p s))"
  by (simp add: commit_outbound_def Let_def)

lemma work_clock [simp]:
  "work (s\<lparr>last_outbound := t\<rparr>) = work s" "work (s\<lparr>last_peer_activity := t\<rparr>) = work s"
  by (simp_all add: work_def)

lemma clock_inv:
  "mrp_inv s \<Longrightarrow> mrp_inv (s\<lparr>last_outbound := t\<rparr>)" "mrp_inv s \<Longrightarrow> mrp_inv (s\<lparr>last_peer_activity := t\<rparr>)"
  by (simp_all add: mrp_inv_def)

lemma mark_sent_inv:
  assumes inv: "mrp_inv s" and e: "e \<in> set (exchanges s)"
  shows "mrp_inv (mark_packet_sent_on fl counter e packet reliable now s)"
proof (cases reliable)
  case True
  define p where "p = \<lparr>pa_packet = packet, pa_exchange = e,
     pa_next_attempt = now + fst (jitter_with fl (jitter s) (mrp_conf s)
       (retransmit_delay fl (mrp_conf s) 0 (is_peer_active (s\<lparr>last_outbound := Some now\<rparr>) now))),
     pa_attempts_remaining = saturating_sub (max_transmissions (mrp_conf s)) 1\<rparr>"
  let ?t = "mark_packet_sent_on fl counter e packet reliable now s"
  have fields: "pending_acks ?t = AList.update counter p (pending_acks s)"
    "pending_outbound_acks ?t = pending_outbound_acks s" "displaced_acks ?t = displaced_acks s"
    "exchanges ?t = exchanges s" "recent_reliable ?t = recent_reliable s"
    "recent_next_slot ?t = recent_next_slot s" "mrp_conf ?t = mrp_conf s"
    using True by (simp_all add: mark_packet_sent_on_def Let_def case_prod_beta p_def)
  note sub = set_update_subset [of counter p "pending_acks s"]
  have "(\<lambda>(_, p). pa_exchange p) ` set (AList.update counter p (pending_acks s)) \<subseteq>
      insert e ((\<lambda>(_, p). pa_exchange p) ` set (pending_acks s))"
    using image_mono [OF sub, of "\<lambda>(_, p). pa_exchange p"] by (simp add: p_def)
  then have w: "work ?t \<subseteq> insert e (work s)"
    unfolding work_def fields by blast
  show ?thesis
  proof (rule mrp_invI)
    show "work ?t \<subseteq> set (exchanges ?t)" using w mrp_invD(4) [OF inv] e by (auto simp: fields)
    fix c q assume "(c, q) \<in> set (pending_acks ?t)"
    with sub have "(c, q) = (counter, p) \<or> (c, q) \<in> set (pending_acks s)" by (auto simp: fields)
    then show "pa_attempts_remaining q \<le> saturating_sub (max_transmissions (mrp_conf ?t)) 1"
      using mrp_invD(8) [OF inv] by (auto simp: fields p_def)
  qed (use mrp_invD [OF inv] in \<open>auto simp: fields distinct_update\<close>)
next
  case False
  with inv show ?thesis by (simp add: mark_packet_sent_on_def reclaim_inv clock_inv)
qed

lemma clear_acked_inv:
  assumes "mrp_inv s"
  shows "mrp_inv (clear_acked e ack s)"
proof -
  have "mrp_inv (s\<lparr>pending_acks := AList.delete c (pending_acks s)\<rparr>)" for c
    by (rule dom_subset [OF assms])
      (use mrp_invD [OF assms] in \<open>auto simp: distinct_delete dest: set_delete_subset [THEN subsetD]\<close>)
  with assms show ?thesis
    by (auto simp: clear_acked_def Let_def reclaim_inv split: option.splits)
qed

lemma clear_acked_exchanges: "e \<in> set (exchanges s) \<Longrightarrow> e \<in> set (exchanges (clear_acked e ack s))"
  by (auto simp: clear_acked_def Let_def split: option.splits)

lemma buffer_ack_inv:
  assumes inv: "mrp_inv s" and e: "e \<in> set (exchanges s)"
  shows "mrp_inv (buffer_ack e c now s)"
proof (rule mrp_invI)
  let ?t = "buffer_ack e c now s"
  define p where "p = \<lparr>oa_counter = c, oa_deadline = now + standalone_ack_deadline (mrp_conf s)\<rparr>"
  have f: "pending_acks ?t = pending_acks s" "exchanges ?t = exchanges s"
    "pending_outbound_acks ?t = AList.update e p (pending_outbound_acks s)"
    "recent_reliable ?t = recent_reliable s" "recent_next_slot ?t = recent_next_slot s" "mrp_conf ?t = mrp_conf s"
    by (simp_all add: buffer_ack_def Let_def p_def split: option.splits)
  have d: "set (displaced_acks ?t) \<subseteq> insert (e, (the (map_of (pending_outbound_acks s) e))\<lparr>oa_deadline := now\<rparr>)
      (set (displaced_acks s))" "length (displaced_acks ?t) \<le> MAX_DISPLACED_ACKS"
    using mrp_invD(5) [OF inv] by (auto simp: buffer_ack_def Let_def split: option.splits)
  have "fst ` set (displaced_acks ?t) \<subseteq> insert e (fst ` set (displaced_acks s))"
    using image_mono [OF d(1), of fst] by simp
  moreover have "fst ` set (pending_outbound_acks ?t) = insert e (fst ` set (pending_outbound_acks s))"
    unfolding f by (rule set_update_keys)
  ultimately have "work ?t \<subseteq> insert e (work s)" unfolding work_def f(1) by blast
  then show "work ?t \<subseteq> set (exchanges ?t)" using mrp_invD(4) [OF inv] e by (auto simp: f)
  show "length (displaced_acks ?t) \<le> MAX_DISPLACED_ACKS" by (rule d)
  show "distinct (map fst (pending_outbound_acks ?t))"
    using mrp_invD(2) [OF inv] by (simp add: f distinct_update)
  show "pa_attempts_remaining q \<le> saturating_sub (max_transmissions (mrp_conf ?t)) 1"
    if "(k, q) \<in> set (pending_acks ?t)" for k q
    using that mrp_invD(8) [OF inv] by (simp add: f)
qed (use mrp_invD [OF inv] in \<open>auto simp: buffer_ack_def Let_def split: option.splits\<close>)

lemma remember_inv: "mrp_inv s \<Longrightarrow> mrp_inv (remember_reliable e c s)"
  by (auto simp: mrp_inv_def remember_reliable_def work_def)

text \<open>
  \<open>process_inbound\<close> on a decoded header, in two steps: the bookkeeping and the final reclaim.
\<close>

definition inbound_key :: "protocol_header \<Rightarrow> exchange_key" where
  "inbound_key h = of_inbound (ph_exchange_id h) (flags_contain (ph_flags h) FLAG_INITIATOR)"

definition inbound_core :: "protocol_header \<Rightarrow> u32 \<Rightarrow> instant \<Rightarrow> mrp_state \<Rightarrow> mrp_state" where
  "inbound_core h c now s =
     (let e = inbound_key h;
          s1 = s\<lparr>last_peer_activity := Some now, exchanges := List.insert e (exchanges s)\<rparr>;
          s2 = (if flags_contain (ph_flags h) FLAG_ACK then clear_acked e (ph_ack_counter h) s1 else s1)
      in if flags_contain (ph_flags h) FLAG_RELIABLE then remember_reliable e c (buffer_ack e c now s2) else s2)"

definition inbound_result :: "protocol_header \<Rightarrow> bytes \<Rightarrow> inbound_outcome" where
  "inbound_result h app =
     (if flags_contain (ph_flags h) FLAG_ACK \<and> ph_opcode h = STANDALONE_ACK \<and> app = [] \<and>
         \<not> flags_contain (ph_flags h) FLAG_RELIABLE
      then AckOnly (ph_exchange_id h) (unwrap_or (ph_ack_counter h) 0)
      else AppMessage (ph_exchange_id h) (flags_contain (ph_flags h) FLAG_INITIATOR) (ph_protocol_id h)
        (ph_opcode h) app)"

lemma process_inbound_malformed:
  "decode_protocol_header payload = Inl e \<Longrightarrow>
   process_inbound payload c now s = (Inl e, s\<lparr>last_peer_activity := Some now\<rparr>)"
  by (simp add: process_inbound_def)

lemma process_inbound_decoded:
  assumes "decode_protocol_header payload = Inr (h, app)"
  shows "process_inbound payload c now s =
    (if inbound_key h \<notin> set (exchanges s) \<and> length (exchanges s) \<ge> MAX_EXCHANGES_PER_SESSION
     then (Inl ExchangeTableFull, s\<lparr>last_peer_activity := Some now\<rparr>)
     else (Inr (inbound_result h app), reclaim_if_idle (inbound_key h) (inbound_core h c now s)))"
  unfolding process_inbound_def Let_def assms inbound_core_def inbound_result_def inbound_key_def
  by simp

lemma inbound_core_inv:
  assumes inv: "mrp_inv s"
  shows "mrp_inv (inbound_core h c now s)" "inbound_key h \<in> set (exchanges (inbound_core h c now s))"
proof -
  let ?e = "inbound_key h"
  define s1 where "s1 = s\<lparr>last_peer_activity := Some now, exchanges := List.insert ?e (exchanges s)\<rparr>"
  define s2 where "s2 = (if flags_contain (ph_flags h) FLAG_ACK then clear_acked ?e (ph_ack_counter h) s1 else s1)"
  have core: "inbound_core h c now s = (if flags_contain (ph_flags h) FLAG_RELIABLE
      then remember_reliable ?e c (buffer_ack ?e c now s2) else s2)"
    by (simp add: inbound_core_def Let_def s1_def s2_def)
  have "mrp_inv s1" "?e \<in> set (exchanges s1)"
    using insert_exchange_inv [OF clock_inv(2) [OF inv, of "Some now"], of ?e] by (simp_all add: s1_def)
  then have s2: "mrp_inv s2" "?e \<in> set (exchanges s2)"
    by (simp_all add: s2_def clear_acked_inv clear_acked_exchanges)
  then show "mrp_inv (inbound_core h c now s)"
    unfolding core by (simp add: remember_inv buffer_ack_inv)
  show "?e \<in> set (exchanges (inbound_core h c now s))"
    unfolding core using s2(2)
    by (simp add: remember_reliable_def buffer_ack_def Let_def split: option.splits)
qed

lemma inbound_inv:
  assumes inv: "mrp_inv s"
  shows "mrp_inv (snd (process_inbound payload c now s))"
proof (cases "decode_protocol_header payload")
  case (Inl e)
  with inv show ?thesis by (simp add: process_inbound_malformed clock_inv)
next
  case (Inr hr)
  obtain h app where "hr = (h, app)" by (cases hr)
  with Inr inv show ?thesis
    by (simp add: process_inbound_decoded clock_inv reclaim_inv inbound_core_inv)
qed

lemma filter_acks_inv:
  assumes "mrp_inv s" "set m \<subseteq> set (pending_outbound_acks s)" "distinct (map fst m)"
  shows "mrp_inv (s\<lparr>pending_outbound_acks := m, displaced_acks := filter P (displaced_acks s)\<rparr>)"
  by (rule dom_subset [OF assms(1)]) (use mrp_invD [OF assms(1)] assms in auto)

lemma cancel_inv:
  assumes "mrp_inv s"
  shows "mrp_inv (cancel_pending_outbound_ack e s)"
  unfolding cancel_pending_outbound_ack_def
  by (rule filter_acks_inv [OF assms])
    (use mrp_invD(2) [OF assms] set_delete_subset in \<open>simp_all add: distinct_delete\<close>)

lemma close_inv:
  assumes "mrp_inv s"
  shows "mrp_inv (close_exchange_on e s)"
proof (rule mrp_invI)
  have "work (close_exchange_on e s) \<subseteq> work s - {e}"
    by (auto simp: close_exchange_on_def work_def AList.delete_eq)
  then show "work (close_exchange_on e s) \<subseteq> set (exchanges (close_exchange_on e s))"
    using mrp_invD(4) [OF assms] by (auto simp: close_exchange_on_def)
qed (use mrp_invD [OF assms] in \<open>auto simp: close_exchange_on_def distinct_delete distinct_map_fst_filter
    distinct_removeAll intro: le_trans [OF length_filter_le]\<close>)

lemma flush_inv:
  assumes "mrp_inv s"
  shows "mrp_inv (snd (flush_exchange_acks_on e s))"
proof -
  have "snd (flush_exchange_acks_on e s) = reclaim_if_idle e
      (s\<lparr>pending_outbound_acks := snd (take_acks [e] (pending_outbound_acks s)),
         displaced_acks := filter (\<lambda>(owed_on, _). owed_on \<noteq> e) (displaced_acks s)\<rparr>)"
    by (simp add: flush_exchange_acks_on_def Let_def case_prod_beta del: take_acks.simps)
  also have "mrp_inv \<dots>"
    by (intro reclaim_inv filter_acks_inv assms)
      (use mrp_invD [OF assms] in \<open>auto simp: take_acks_rest distinct_map_fst_filter simp del: take_acks.simps\<close>)
  finally show ?thesis .
qed

lemma flush_each_inv: "mrp_inv s \<Longrightarrow> mrp_inv (snd (flush_each es s))"
  by (induction es arbitrary: s) (simp_all add: case_prod_beta Let_def flush_inv)

lemma fold_delete: "fold AList.delete ks m = filter (\<lambda>x. fst x \<notin> set ks) m"
  by (induction ks arbitrary: m) (auto simp: AList.delete_eq case_prod_beta intro!: filter_cong)

lemma forget_inv:
  assumes "mrp_inv s"
  shows "mrp_inv (forget_ack_for c s)"
  unfolding forget_ack_for_def Let_def
  by (intro reclaim_all_inv filter_acks_inv assms)
    (use mrp_invD(2) [OF assms] in \<open>auto simp: fold_delete distinct_map_fst_filter\<close>)

end
