(* ===== verification/MRP_Properties.thy ===== *)
theory MRP_Properties
  imports MRP_Invariant
begin

text \<open>
  What the reliability protocol guarantees: its invariant along every run, that no
  acknowledgement is lost or sent twice, that the timer loop drains all work and sends each
  message the configured number of times, and that a reliable message and its
  acknowledgement travel through both ends.
\<close>

section \<open>Runs\<close>

text \<open>The operations as \<open>SessionManager\<close> calls them; a send is built, committed and recorded.\<close>

datatype mrp_op =
    OpSend u8 protocol_id exchange_key bytes bool u32 bytes instant
  | OpTimeout instant
  | OpInbound bytes u32 instant
  | OpCancel exchange_key
  | OpClose exchange_key
  | OpFlush exchange_key
  | OpFlushAll
  | OpForget u32
  | OpNote u16

fun mrp_step :: "float_ops \<Rightarrow> mrp_op \<Rightarrow> mrp_state \<Rightarrow> mrp_state" where
  "mrp_step fl (OpSend opcode pid e app reliable counter packet now) s =
     mark_packet_sent_on fl counter e packet reliable now
       (commit_outbound (build_outbound s opcode pid e app reliable) s)"
| "mrp_step fl (OpTimeout now) s = snd (mrp_handle_timeout fl now s)"
| "mrp_step fl (OpInbound payload c now) s = snd (process_inbound payload c now s)"
| "mrp_step fl (OpCancel e) s = cancel_pending_outbound_ack e s"
| "mrp_step fl (OpClose e) s = close_exchange_on e s"
| "mrp_step fl (OpFlush e) s = snd (flush_exchange_acks_on e s)"
| "mrp_step fl OpFlushAll s = snd (flush_all_acks s)"
| "mrp_step fl (OpForget c) s = forget_ack_for c s"
| "mrp_step fl (OpNote i) s = note_local_exchange i s"

lemma build_exchange [simp]: "po_exchange (build_outbound s opcode pid e app reliable) = e"
  by (cases e) (simp add: po_exchange_def build_outbound_def Let_def)

lemma mrp_step_inv:
  assumes "mrp_inv s"
  shows "mrp_inv (mrp_step fl op s)"
proof (cases op)
  case (OpSend opcode pid e app reliable counter packet now)
  have "e \<in> set (exchanges (commit_outbound (build_outbound s opcode pid e app reliable) s))"
    using commit_in_table [of "build_outbound s opcode pid e app reliable" s] by simp
  with assms show ?thesis by (simp add: OpSend mark_sent_inv commit_inv)
qed (use assms in \<open>simp_all add: timeout_inv inbound_inv cancel_inv close_inv flush_inv flush_all_acks_def
    flush_each_inv forget_inv note_local_exchange_def insert_exchange_inv\<close>)

interpretation mrp: guarded_machine "mrp_step fl" mrp_inv for fl
  by unfold_locales (rule mrp_step_inv)

lemma mrp_inv_new: "mrp_inv (with_jitter_seed c seed)"
  by (simp add: mrp_inv_def with_jitter_seed_def mrp_bare_def work_def)

section \<open>The ledger of acknowledgements\<close>

definition owed :: "mrp_state \<Rightarrow> (exchange_key \<times> u32) multiset" where
  "owed s = image_mset (\<lambda>x. (fst x, oa_counter (snd x))) (mset (displaced_acks s) + mset (pending_outbound_acks s))"

fun ack_of :: "mrp_timer_event \<Rightarrow> (exchange_key \<times> u32) option" where
  "ack_of (TimerAck i c l) = Some (ExchangeKey i l, c)"
| "ack_of (TimerRetransmit i c p) = None"
| "ack_of (TimerExpired i c) = None"

definition acks_in :: "mrp_timer_event list \<Rightarrow> (exchange_key \<times> u32) multiset" where
  "acks_in evs = mset (List.map_filter ack_of evs)"

lemma acks_in_simps [simp]:
  "acks_in [] = {#}" "acks_in (evs @ evs') = acks_in evs + acks_in evs'"
  "acks_in (map fired xs) = image_mset (\<lambda>x. (fst x, oa_counter (snd x))) (mset xs)"
proof -
  show "acks_in [] = {#}" "acks_in (evs @ evs') = acks_in evs + acks_in evs'"
    by (simp_all add: acks_in_def List.map_filter_def)
  show "acks_in (map fired xs) = image_mset (\<lambda>x. (fst x, oa_counter (snd x))) (mset xs)"
    by (induction xs) (simp_all add: acks_in_def List.map_filter_def fired_def)
qed

lemma tick_pending_no_acks [simp]: "acks_in (fst (tick_pending fl c now a j ps)) = {#}"
proof (induction ps arbitrary: j)
  case (Cons e ps)
  obtain k q where e: "e = (k, q)" by (cases e)
  obtain ev keep gone j1 where t: "tick_one fl c now a j (k, q) = (ev, keep, gone, j1)"
    by (metis prod_cases4)
  have "acks_in ev = {#}"
    using t by (cases rule: tick_one_cases) (simp_all add: acks_in_def List.map_filter_def)
  with Cons show ?case unfolding e tick_Cons [OF t] by simp
qed simp

lemma take_acks_mset:
  "distinct (map fst m) \<Longrightarrow> mset m = mset (fst (take_acks es m)) + mset (snd (take_acks es m))"
proof (induction es m rule: take_acks.induct)
  case (2 e es m)
  show ?case
  proof (cases "map_of m e")
    case None
    with 2 show ?thesis by simp
  next
    case (Some p)
    have "mset m = add_mset (e, p) (mset (AList.delete e m))"
      using Some "2.prems"
    proof (induction m)
      case (Cons x m)
      show ?case
      proof (cases "fst x = e")
        case True
        with Cons.prems have "AList.delete e m = m"
          by (intro delete_id) auto
        with True Cons.prems show ?thesis by (auto simp: AList.delete_eq)
      next
        case False
        with Cons show ?thesis by (auto simp: AList.delete_eq case_prod_beta)
      qed
    qed simp
    moreover have "distinct (map fst (AList.delete e m))" using "2.prems" by (simp add: distinct_delete)
    ultimately show ?thesis using "2.IH"(2) [OF Some] by (simp add: Some case_prod_beta)
  qed
qed simp

lemma mset_partition: "mset (filter P xs) + mset (filter (Not \<circ> P) xs) = mset xs"
  by (induction xs) auto

lemma owed_timeout:
  assumes "mrp_inv s"
  shows "owed s = owed (snd (mrp_handle_timeout fl now s)) + acks_in (fst (mrp_handle_timeout fl now s))"
proof -
  let ?d = "displaced_acks s" and ?m = "pending_outbound_acks s"
  let ?A = "take_acks (sort (map fst (filter (ack_due now) ?m))) ?m"
  have "mset ?m = mset (fst ?A) + mset (snd ?A)"
    using mrp_invD(2) [OF assms] by (rule take_acks_mset)
  moreover have "mset ?d = mset (filter (ack_due now) ?d) + mset (filter (Not \<circ> ack_due now) ?d)"
    by (simp only: mset_partition)
  ultimately show ?thesis
    unfolding timeout_parts owed_def by (simp del: mset_filter)
qed

lemma owed_flush:
  assumes "mrp_inv s"
  shows "owed s = owed (snd (flush_exchange_acks_on e s)) + acks_in (fst (flush_exchange_acks_on e s))"
    and "set (displaced_acks (snd (flush_exchange_acks_on e s))) = {x \<in> set (displaced_acks s). fst x \<noteq> e}"
    and "set (pending_outbound_acks (snd (flush_exchange_acks_on e s))) = {x \<in> set (pending_outbound_acks s). fst x \<noteq> e}"
proof -
  let ?d = "displaced_acks s" and ?m = "pending_outbound_acks s"
  have "mset ?m = mset (fst (take_acks [e] ?m)) + mset (snd (take_acks [e] ?m))"
    using mrp_invD(2) [OF assms] by (rule take_acks_mset)
  moreover have "mset ?d = mset (filter (\<lambda>(o1, _). o1 = e) ?d) + mset (filter (\<lambda>(o1, _). o1 \<noteq> e) ?d)"
    using mset_partition [of "\<lambda>(o1, _). o1 = e" ?d] by (simp add: comp_def case_prod_beta)
  ultimately show "owed s = owed (snd (flush_exchange_acks_on e s)) + acks_in (fst (flush_exchange_acks_on e s))"
    unfolding flush_exchange_acks_on_def Let_def owed_def
    by (simp add: case_prod_beta del: mset_filter take_acks.simps)
  show "set (displaced_acks (snd (flush_exchange_acks_on e s))) = {x \<in> set ?d. fst x \<noteq> e}"
    "set (pending_outbound_acks (snd (flush_exchange_acks_on e s))) = {x \<in> set ?m. fst x \<noteq> e}"
    unfolding flush_exchange_acks_on_def Let_def
    by (auto simp: case_prod_beta take_acks_rest simp del: take_acks.simps)
qed

lemma owed_flush_each:
  assumes "mrp_inv s"
  shows "owed s = owed (snd (flush_each es s)) + acks_in (fst (flush_each es s)) \<and>
    set (displaced_acks (snd (flush_each es s))) = {x \<in> set (displaced_acks s). fst x \<notin> set es} \<and>
    set (pending_outbound_acks (snd (flush_each es s))) = {x \<in> set (pending_outbound_acks s). fst x \<notin> set es}"
  using assms
proof (induction es arbitrary: s)
  case (Cons e es)
  note IH = Cons.IH [OF flush_inv [OF Cons.prems, of e]]
  show ?case
    using IH owed_flush [OF Cons.prems, of e] by (auto simp: Let_def case_prod_beta)
qed simp

section \<open>The timer loop\<close>

text \<open>Everything the timers still have to do, counted in events.\<close>

definition attempts_left :: "(u32 \<times> pending_ack) list \<Rightarrow> nat" where
  "attempts_left ps = sum_list (map (\<lambda>x. Suc (unat (pa_attempts_remaining (snd x)))) ps)"

definition work_left :: "mrp_state \<Rightarrow> nat" where
  "work_left s = attempts_left (pending_acks s) + length (displaced_acks s) + length (pending_outbound_acks s)"

text \<open>What is still to happen to one message: its retransmissions, then its expiry.\<close>

definition about :: "u32 \<Rightarrow> mrp_timer_event \<Rightarrow> bool" where
  "about k ev = (case ev of TimerRetransmit _ c _ \<Rightarrow> c = k | TimerExpired _ c \<Rightarrow> c = k | TimerAck _ _ _ \<Rightarrow> False)"

lemma about_simps [simp]:
  "about k (TimerRetransmit i c p) \<longleftrightarrow> c = k" "about k (TimerExpired i c) \<longleftrightarrow> c = k" "\<not> about k (TimerAck i c l)"
  by (simp_all add: about_def)

definition schedule :: "u32 \<Rightarrow> pending_ack \<Rightarrow> mrp_timer_event list" where
  "schedule k p = replicate (unat (pa_attempts_remaining p)) (TimerRetransmit (ek_id (pa_exchange p)) k (pa_packet p))
     @ [TimerExpired (ek_id (pa_exchange p)) k]"

definition script :: "u32 \<Rightarrow> (u32 \<times> pending_ack) list \<Rightarrow> mrp_timer_event list" where
  "script k ps = (case map_of ps k of None \<Rightarrow> [] | Some p \<Rightarrow> schedule k p)"

lemma schedule_expire:
  "pa_attempts_remaining p = 0 \<Longrightarrow> schedule k p = [TimerExpired (ek_id (pa_exchange p)) k]"
  by (simp add: schedule_def)

lemma schedule_resend:
  "pa_attempts_remaining p \<noteq> 0 \<Longrightarrow>
   schedule k p = TimerRetransmit (ek_id (pa_exchange p)) k (pa_packet p)
     # schedule k (p\<lparr>pa_attempts_remaining := pa_attempts_remaining p - 1, pa_next_attempt := t\<rparr>)"
  unfolding schedule_def by (cases "unat (pa_attempts_remaining p)") (simp_all add: unat_minus_one unat_eq_0)

lemma tick_attempts:
  "attempts_left ps = attempts_left (fst (snd (tick_pending fl c now a j ps))) + length (fst (tick_pending fl c now a j ps))"
proof (induction ps arbitrary: j)
  case (Cons e ps)
  obtain k q where e: "e = (k, q)" by (cases e)
  obtain ev keep gone j1 where t: "tick_one fl c now a j (k, q) = (ev, keep, gone, j1)"
    by (metis prod_cases4)
  have "Suc (unat (pa_attempts_remaining q)) = attempts_left keep + length ev"
    using t
  proof (cases rule: tick_one_cases)
    case (Resend t')
    then have "unat (pa_attempts_remaining q - 1) + 1 = unat (pa_attempts_remaining q)"
      by (metis Suc_eq_plus1 Suc_pred' unat_gt_0 unat_minus_one)
    with Resend show ?thesis by (simp add: attempts_left_def)
  qed (simp_all add: attempts_left_def)
  with Cons.IH [of j1] show ?case unfolding e tick_Cons [OF t] by (simp add: attempts_left_def)
qed (simp add: attempts_left_def)

lemma tick_about_other: "k \<notin> fst ` set ps \<Longrightarrow> filter (about k) (fst (tick_pending fl c now a j ps)) = []"
proof (induction ps arbitrary: j)
  case (Cons e ps)
  obtain k' q where e: "e = (k', q)" by (cases e)
  obtain ev keep gone j1 where t: "tick_one fl c now a j (k', q) = (ev, keep, gone, j1)"
    by (metis prod_cases4)
  have "filter (about k) ev = []"
    using t Cons.prems by (cases rule: tick_one_cases) (auto simp: e)
  with Cons show ?case unfolding e tick_Cons [OF t] by simp
qed simp

lemma tick_script:
  "distinct (map fst ps) \<Longrightarrow>
   script k ps = filter (about k) (fst (tick_pending fl c now a j ps)) @ script k (fst (snd (tick_pending fl c now a j ps)))"
proof (induction ps arbitrary: j)
  case (Cons e ps)
  obtain k' q where e: "e = (k', q)" by (cases e)
  obtain ev keep gone j1 where t: "tick_one fl c now a j (k', q) = (ev, keep, gone, j1)"
    by (metis prod_cases4)
  show ?case
  proof (cases "k' = k")
    case True
    then have k: "k \<notin> fst ` set ps" using Cons.prems by (simp add: e)
    then have "map_of (fst (snd (tick_pending fl c now a j1 ps))) k = None"
      using tick_pending_kept by (force simp: map_of_eq_None_iff)
    with t True tick_about_other [OF k, of fl c now a j1] show ?thesis
      unfolding e tick_Cons [OF t]
      by (cases rule: tick_one_cases) (auto simp: script_def schedule_expire intro: schedule_resend)
  next
    case False
    have "filter (about k) ev = []" and "script k (keep @ xs) = script k xs" for xs
      using t False by (cases rule: tick_one_cases; auto simp: script_def)+
    with Cons False show ?thesis unfolding e tick_Cons [OF t] by (simp add: script_def)
  qed
qed (simp add: script_def)

lemma about_acks [simp]: "filter (about k) (map fired xs) = []"
  by (simp add: fired_def filter_empty_conv)

lemma script_timeout:
  assumes "mrp_inv s"
  shows "script k (pending_acks s) = filter (about k) (fst (mrp_handle_timeout fl now s))
    @ script k (pending_acks (snd (mrp_handle_timeout fl now s)))"
  unfolding timeout_parts
  using tick_script [OF mrp_invD(1) [OF assms], of k fl "mrp_conf s" now "is_peer_active s now" "jitter s"]
  by simp

lemma work_timeout:
  assumes "mrp_inv s"
  shows "work_left s = work_left (snd (mrp_handle_timeout fl now s)) + length (fst (mrp_handle_timeout fl now s))"
proof -
  let ?d = "displaced_acks s" and ?m = "pending_outbound_acks s"
  let ?A = "take_acks (sort (map fst (filter (ack_due now) ?m))) ?m"
  have "size (mset ?m) = size (mset (fst ?A) + mset (snd ?A))"
    by (subst take_acks_mset [OF mrp_invD(2) [OF assms]]) (rule refl)
  then have "length ?m = length (fst ?A) + length (snd ?A)" by simp
  moreover have "length (filter (ack_due now) ?d) + length (filter (Not \<circ> ack_due now) ?d) = length ?d"
    by (simp add: sum_length_filter_compl comp_def)
  ultimately show ?thesis
    using tick_attempts [of "pending_acks s" fl "mrp_conf s" now "is_peer_active s now" "jitter s"]
    unfolding timeout_parts work_left_def by simp
qed

lemma tick_quiet: "fst (tick_pending fl c now a j ps) = [] \<Longrightarrow> (k, p) \<in> set ps \<Longrightarrow> now < pa_next_attempt p"
proof (induction ps arbitrary: j)
  case (Cons e ps)
  obtain k' q where e: "e = (k', q)" by (cases e)
  obtain ev keep gone j1 where t: "tick_one fl c now a j (k', q) = (ev, keep, gone, j1)"
    by (metis prod_cases4)
  from t show ?case
    by (cases rule: tick_one_cases) (use Cons in \<open>unfold e tick_Cons [OF t], auto\<close>)
qed simp

lemma timeout_quiet:
  assumes "mrp_inv s" "fst (mrp_handle_timeout fl now s) = []"
  shows "\<forall>(_, p)\<in>set (pending_acks s). now < pa_next_attempt p"
    and "\<forall>(_, p)\<in>set (displaced_acks s) \<union> set (pending_outbound_acks s). now < oa_deadline p"
proof -
  let ?m = "pending_outbound_acks s"
  let ?es = "sort (map fst (filter (ack_due now) ?m))"
  note q = assms(2) [unfolded timeout_parts, simplified]
  show "\<forall>(_, p)\<in>set (pending_acks s). now < pa_next_attempt p"
    using q tick_quiet by blast
  have "fst (take_acks ?es ?m) = []" using q by simp
  then have "mset ?m = mset (filter (\<lambda>x. fst x \<notin> set ?es) ?m)"
    using take_acks_mset [OF mrp_invD(2) [OF assms(1)], of ?es] by (simp add: take_acks_rest del: mset_filter)
  then have "set ?m = set (filter (\<lambda>x. fst x \<notin> set ?es) ?m)" by (metis set_mset_mset)
  then have "\<forall>x\<in>set ?m. fst x \<notin> set ?es" by auto
  then have "\<forall>x\<in>set ?m. \<not> ack_due now x" by force
  moreover have "\<forall>x\<in>set (displaced_acks s). \<not> ack_due now x" using q by (simp add: filter_empty_conv)
  ultimately show "\<forall>(_, p)\<in>set (displaced_acks s) \<union> set ?m. now < oa_deadline p"
    by (auto simp: ack_due_def)
qed

lemma min_of_Some: "min_of ts = Some t \<Longrightarrow> t \<in> set ts"
  by (auto simp: min_of_def split: if_splits)

lemma poll_timeout_pending: "mrp_poll_timeout s = None \<longleftrightarrow> \<not> has_pending s"
  by (auto simp: mrp_poll_timeout_def has_pending_def min_of_def List.map_filter_def)

lemma poll_timeout_entry:
  assumes "mrp_poll_timeout s = Some t"
  shows "(\<exists>(_, p)\<in>set (pending_acks s). pa_next_attempt p = t) \<or>
    (\<exists>(_, p)\<in>set (displaced_acks s) \<union> set (pending_outbound_acks s). oa_deadline p = t)"
proof -
  from min_of_Some [OF assms [unfolded mrp_poll_timeout_def]]
  consider "min_of (map (\<lambda>(_, p). pa_next_attempt p) (pending_acks s)) = Some t"
    | "min_of (map (\<lambda>(_, p). oa_deadline p) (pending_outbound_acks s)) = Some t"
    | "min_of (map (\<lambda>(_, p). oa_deadline p) (displaced_acks s)) = Some t"
    by (auto simp: List.map_filter_def split: if_splits option.splits)
  then show ?thesis by cases (use min_of_Some in fastforce)+
qed

lemma timeout_progress:
  assumes "mrp_inv s" "mrp_poll_timeout s = Some t" "t \<le> now"
  shows "fst (mrp_handle_timeout fl now s) \<noteq> []"
proof
  assume "fst (mrp_handle_timeout fl now s) = []"
  note quiet = timeout_quiet [OF assms(1) this]
  from poll_timeout_entry [OF assms(2)] show False
  proof
    assume "\<exists>(_, p)\<in>set (pending_acks s). pa_next_attempt p = t"
    with quiet(1) assms(3) show False by auto
  next
    assume "\<exists>(_, p)\<in>set (displaced_acks s) \<union> set (pending_outbound_acks s). oa_deadline p = t"
    with quiet(2) assms(3) show False by (auto simp: ball_Un)
  qed
qed

text \<open>
  The driver's loop: sleep until \<open>poll_timeout\<close>, or some time later, then \<open>handle_timeout\<close>. The
  list holds how late each wake-up is.
\<close>

fun timer_loop :: "float_ops \<Rightarrow> nat list \<Rightarrow> mrp_state \<Rightarrow> mrp_timer_event list \<times> mrp_state" where
  "timer_loop fl [] s = ([], s)"
| "timer_loop fl (late # lates) s =
     (case mrp_poll_timeout s of None \<Rightarrow> ([], s)
      | Some t \<Rightarrow>
          let (evs, s1) = mrp_handle_timeout fl (t + late) s; (evs', s2) = timer_loop fl lates s1
          in (evs @ evs', s2))"

lemma work_left_0: "work_left s = 0 \<longleftrightarrow> \<not> has_pending s"
  by (cases "pending_acks s") (auto simp: work_left_def attempts_left_def has_pending_def)

lemma timer_loop_drains:
  assumes "mrp_inv s" "work_left s \<le> length lates"
  shows "\<not> has_pending (snd (timer_loop fl lates s)) \<and> length (fst (timer_loop fl lates s)) = work_left s \<and>
    filter (about k) (fst (timer_loop fl lates s)) = script k (pending_acks s)"
  using assms
proof (induction lates arbitrary: s)
  case Nil
  then have "\<not> has_pending s" by (simp flip: work_left_0)
  moreover have "script k (pending_acks s) = []" using \<open>\<not> has_pending s\<close> by (simp add: has_pending_def script_def)
  ultimately show ?case using Nil by simp
next
  case (Cons late lates)
  show ?case
  proof (cases "mrp_poll_timeout s")
    case None
    then have "\<not> has_pending s" by (simp add: poll_timeout_pending)
    with None show ?thesis by (simp add: has_pending_def work_left_def attempts_left_def script_def)
  next
    case (Some t)
    let ?e = "fst (mrp_handle_timeout fl (t + late) s)" and ?s = "snd (mrp_handle_timeout fl (t + late) s)"
    have "?e \<noteq> []" using timeout_progress [OF Cons.prems(1) Some] by simp
    then have "work_left ?s \<le> length lates"
      using work_timeout [OF Cons.prems(1), of fl "t + late"] Cons.prems(2) by (cases ?e) auto
    from Cons.IH [OF timeout_inv [OF Cons.prems(1)] this] Some
    show ?thesis
      using work_timeout [OF Cons.prems(1), of fl "t + late"] script_timeout [OF Cons.prems(1), of k fl "t + late"]
      by (simp add: case_prod_beta Let_def)
  qed
qed

section \<open>Through both ends\<close>

text \<open>What the receiver decodes from a prepared message.\<close>

lemma build_outbound_decodes:
  obtains h where
    "decode_protocol_header (po_wire_payload (build_outbound s opcode pid e app reliable)) = Inr (h, app)"
    "ph_exchange_id h = ek_id e" "ph_protocol_id h = pid" "ph_opcode h = opcode"
    "ph_ack_counter h = map_option oa_counter (map_of (pending_outbound_acks s) e)"
    "flags_contain (ph_flags h) FLAG_INITIATOR \<longleftrightarrow> ek_local e"
    "flags_contain (ph_flags h) FLAG_RELIABLE \<longleftrightarrow> reliable"
    "flags_contain (ph_flags h) FLAG_ACK \<longleftrightarrow> map_of (pending_outbound_acks s) e \<noteq> None"
proof -
  define ack where "ack = map_option oa_counter (map_of (pending_outbound_acks s) e)"
  define fl where "fl = (let f0 = (if ack \<noteq> None then FLAG_ACK else 0);
      f1 = (if ek_local e then f0 OR FLAG_INITIATOR else f0) in (if reliable then f1 OR FLAG_RELIABLE else f1))"
  define H where "H = \<lparr>ph_flags = fl, ph_opcode = opcode, ph_exchange_id = ek_id e, ph_protocol_id = pid,
      ph_ack_counter = ack\<rparr>"
  let ?h = "H\<lparr>ph_flags := wire_flags H\<rparr>"
  have wire: "po_wire_payload (build_outbound s opcode pid e app reliable) = encode_protocol_header H @ app"
    by (simp add: build_outbound_def Let_def H_def fl_def ack_def)
  have "fl AND RESERVED_FLAG_BITS = 0" "\<not> flags_contain fl FLAG_SECURE_EXTENSION"
    and bits: "bit fl 0 \<longleftrightarrow> ek_local e" "bit fl 2 \<longleftrightarrow> reliable"
    by (simp_all add: fl_def Let_def exchange_flag_defs flags_contain_def)
  then have "protocol_header_wf ?h" by (intro wire_flags_normal) (simp_all add: H_def)
  then have "decode_protocol_header (encode_protocol_header H @ app) = Inr (?h, app)"
    using protocol_header.decode_encode [of ?h app] by (simp add: encode_wire_flags)
  with wire have "decode_protocol_header (po_wire_payload (build_outbound s opcode pid e app reliable)) = Inr (?h, app)"
    by simp
  moreover have "flags_contain (ph_flags ?h) FLAG_INITIATOR \<longleftrightarrow> ek_local e"
    "flags_contain (ph_flags ?h) FLAG_RELIABLE \<longleftrightarrow> reliable"
    "flags_contain (ph_flags ?h) FLAG_ACK \<longleftrightarrow> ack \<noteq> None"
    unfolding flag_bits using bits by (simp_all add: wire_flags_bits H_def)
  ultimately show thesis using that [of ?h] by (simp add: H_def ack_def)
qed

lemma clear_acked_pending: "map_of (pending_acks (clear_acked e (Some c) s)) c = None"
  by (auto simp: clear_acked_def Let_def delete_conv split: option.splits)

lemma inbound_core_pending:
  "pending_acks (inbound_core h c now s) =
     pending_acks (if flags_contain (ph_flags h) FLAG_ACK
       then clear_acked (inbound_key h) (ph_ack_counter h)
         (s\<lparr>last_peer_activity := Some now, exchanges := List.insert (inbound_key h) (exchanges s)\<rparr>) else s)"
  by (simp add: inbound_core_def Let_def remember_reliable_def buffer_ack_def split: option.splits)

lemma inbound_core_owes:
  assumes "flags_contain (ph_flags h) FLAG_RELIABLE"
  shows "map_of (pending_outbound_acks (inbound_core h c now s)) (inbound_key h) =
    Some \<lparr>oa_counter = c, oa_deadline = now + standalone_ack_deadline (mrp_conf s)\<rparr>"
proof -
  have "mrp_conf (clear_acked e ack t) = mrp_conf t" for e ack t
    by (simp add: clear_acked_def Let_def split: option.splits)
  with assms show ?thesis
    by (simp add: inbound_core_def Let_def remember_reliable_def buffer_ack_def update_conv
        split: option.splits)
qed

lemma inbound_accepted:
  assumes "process_inbound payload c now s = (Inr r, s')" "decode_protocol_header payload = Inr (h, app)"
  shows "r = inbound_result h app" "s' = reclaim_if_idle (inbound_key h) (inbound_core h c now s)"
  using assms(1) unfolding process_inbound_decoded [OF assms(2)] by (auto split: if_splits)

lemma length_clear_acked: "length (exchanges (clear_acked e ack s)) \<le> length (exchanges s)"
  by (auto simp: clear_acked_def Let_def split: option.splits intro: order_trans [OF length_reclaim])

lemma length_inbound_core:
  "length (exchanges (inbound_core h c now s)) \<le> length (List.insert (inbound_key h) (exchanges s))"
  using length_clear_acked [of "inbound_key h" "ph_ack_counter h"
      "s\<lparr>last_peer_activity := Some now, exchanges := List.insert (inbound_key h) (exchanges s)\<rparr>"]
  by (simp add: inbound_core_def Let_def remember_reliable_def buffer_ack_def split: option.splits)

section \<open>The size of the tables\<close>

text \<open>
  The exchange table cannot be exhausted by leaks or by a peer: receiving never grows it
  beyond 256 entries, a rejected message changes nothing but the time the peer was last heard,
  and after an accepted one its exchange is in the table exactly if it still has work.
\<close>

theorem inbound_table:
  assumes "mrp_inv s" "process_inbound payload c now s = (r, s')"
  shows "length (exchanges s') \<le> max MAX_EXCHANGES_PER_SESSION (length (exchanges s)) \<and>
    (case r of Inl _ \<Rightarrow> s' = s\<lparr>last_peer_activity := Some now\<rparr>
     | Inr _ \<Rightarrow> \<exists>h app. decode_protocol_header payload = Inr (h, app) \<and>
         (inbound_key h \<in> set (exchanges s') \<longleftrightarrow> inbound_key h \<in> work s'))"
proof (cases "decode_protocol_header payload")
  case (Inl e)
  with assms(2) show ?thesis by (auto simp: process_inbound_malformed)
next
  case (Inr hr)
  obtain h app where dec: "decode_protocol_header payload = Inr (h, app)" using Inr by (cases hr) simp
  show ?thesis
  proof (cases "inbound_key h \<notin> set (exchanges s) \<and> length (exchanges s) \<ge> MAX_EXCHANGES_PER_SESSION")
    case True
    with assms(2) show ?thesis by (auto simp: process_inbound_decoded [OF dec])
  next
    case False
    with assms(2) have r: "r = Inr (inbound_result h app)"
      and s': "s' = reclaim_if_idle (inbound_key h) (inbound_core h c now s)"
      by (auto simp: process_inbound_decoded [OF dec])
    have "length (List.insert (inbound_key h) (exchanges s)) \<le> max MAX_EXCHANGES_PER_SESSION (length (exchanges s))"
      using False by (auto simp: List.insert_def)
    then have "length (exchanges s') \<le> max MAX_EXCHANGES_PER_SESSION (length (exchanges s))"
      unfolding s' using order_trans [OF length_reclaim length_inbound_core] by (rule order_trans [rotated])
    moreover have "inbound_key h \<in> set (exchanges s') \<longleftrightarrow> inbound_key h \<in> work s'"
      using inbound_core_inv(2) [OF assms(1), of h c now] by (auto simp: s')
    ultimately show ?thesis using dec r by auto
  qed
qed

theorem inbound_table_witness:
  "\<exists>s'. process_inbound [0x01, 0x02, 0x07, 0x00, 0x01, 0x00, 0xAA] 5 10 (with_jitter_seed mrp_config_default 5) =
      (Inr (AppMessage 7 True PID_INTERACTION_MODEL 2 [0xAA]), s') \<and> length (exchanges s') \<le> 256"
proof -
  let ?s = "with_jitter_seed mrp_config_default 5"
  have "decode_protocol_header [0x01, 0x02, 0x07, 0x00, 0x01, 0x00, 0xAA] =
      Inr (\<lparr>ph_flags = 1, ph_opcode = 2, ph_exchange_id = 7, ph_protocol_id = PID_INTERACTION_MODEL,
        ph_ack_counter = None\<rparr>, [0xAA])"
    by (simp add: decode_protocol_header_def decode_vendor_def decode_ack_def flags_contain_def
        exchange_flag_defs PID_INTERACTION_MODEL_def slice_at_def of_le_def)
  then obtain s' where s': "process_inbound [0x01, 0x02, 0x07, 0x00, 0x01, 0x00, 0xAA] 5 10 ?s =
      (Inr (AppMessage 7 True PID_INTERACTION_MODEL 2 [0xAA]), s')"
    by (simp add: process_inbound_decoded inbound_result_def flags_contain_def exchange_flag_defs
        with_jitter_seed_def mrp_bare_def MAX_EXCHANGES_PER_SESSION_def)
  with inbound_table [OF mrp_inv_new s'] show ?thesis
    by (auto simp: MAX_EXCHANGES_PER_SESSION_def with_jitter_seed_def mrp_bare_def)
qed

text \<open>
  The operations by which this side itself adds to the tables: sending reliably, which awaits an
  acknowledgement, and starting an exchange.
\<close>

fun sends_reliably :: "mrp_op \<Rightarrow> bool" where
  "sends_reliably (OpSend opcode pid e app reliable counter packet now) = reliable"
| "sends_reliably _ = False"

fun opens :: "mrp_op \<Rightarrow> bool" where
  "opens (OpNote i) = True"
| "opens op = sends_reliably op"

lemma flush_sizes:
  "length (exchanges (snd (flush_exchange_acks_on e s))) \<le> length (exchanges s)"
  "pending_acks (snd (flush_exchange_acks_on e s)) = pending_acks s"
  by (auto simp: flush_exchange_acks_on_def Let_def case_prod_beta intro: order_trans [OF length_reclaim])

lemma flush_each_sizes:
  "length (exchanges (snd (flush_each es s))) \<le> length (exchanges s) \<and>
   pending_acks (snd (flush_each es s)) = pending_acks s"
proof (induction es arbitrary: s)
  case (Cons e es)
  show ?case
    using Cons.IH [of "snd (flush_exchange_acks_on e s)"] flush_sizes [of e s]
    by (simp add: case_prod_beta)
qed simp

lemma tick_pending_length: "length (fst (snd (tick_pending fl c now a j ps))) \<le> length ps"
proof (induction ps arbitrary: j)
  case (Cons e ps)
  obtain ev keep gone j1 where t: "tick_one fl c now a j e = (ev, keep, gone, j1)"
    by (metis prod_cases4)
  then have "length keep \<le> 1" by (cases e) (auto elim: tick_one_cases)
  then show ?case using Cons.IH [of j1] unfolding tick_Cons [OF t] by simp
qed simp

lemma timeout_sizes:
  "length (exchanges (snd (mrp_handle_timeout fl now s))) \<le> length (exchanges s)"
  "length (pending_acks (snd (mrp_handle_timeout fl now s))) \<le> length (pending_acks s)"
  unfolding timeout_parts snd_conv
  by (rule order_trans [OF length_reclaim_all], simp) (simp add: tick_pending_length)

lemma forget_sizes:
  "length (exchanges (forget_ack_for c s)) \<le> length (exchanges s)"
  "pending_acks (forget_ack_for c s) = pending_acks s"
  unfolding forget_ack_for_def Let_def by (rule order_trans [OF length_reclaim_all], simp) simp

lemma commit_sizes:
  "exchanges (commit_outbound p s) = List.insert (po_exchange p) (exchanges s)"
  "pending_acks (commit_outbound p s) = pending_acks s"
  "work (commit_outbound p s) \<subseteq> work s"
  using set_delete_subset [of "po_exchange p" "pending_outbound_acks s"]
  by (auto simp: commit_outbound_def Let_def work_def)

lemma length_insert_le: "length (List.insert x xs) \<le> Suc (length xs)"
  by (simp add: List.insert_def)

text \<open>An exchange opened only for an unreliable message is reclaimed at once.\<close>

lemma send_exchanges:
  assumes "mrp_inv s"
  shows "length (exchanges (mark_packet_sent_on fl c e packet reliable now
      (commit_outbound (build_outbound s opcode pid e app reliable) s)))
    \<le> length (exchanges s) + (if reliable then 1 else 0)"
proof (cases "reliable \<or> e \<in> set (exchanges s)")
  case True
  then show ?thesis
    using length_insert_le [of e "exchanges s"]
    by (auto simp: mark_packet_sent_on_def Let_def case_prod_beta commit_sizes intro: order_trans [OF length_reclaim])
next
  case False
  let ?t = "commit_outbound (build_outbound s opcode pid e app reliable) s"
  have "e \<notin> work ?t" using False commit_sizes(3) mrp_invD(4) [OF assms] by blast
  with False show ?thesis
    by (simp add: mark_packet_sent_on_def reclaim_if_idle_def idle_iff_no_work commit_sizes)
qed

lemma update_length_le: "length (AList.update k v m) \<le> Suc (length m)"
  by (induction m) auto

lemma delete_length_le: "length (AList.delete k m) \<le> length m"
  by (simp add: AList.delete_eq)

lemma clear_acked_length: "length (pending_acks (clear_acked e ack s)) \<le> length (pending_acks s)"
  by (simp add: clear_acked_def Let_def delete_length_le split: option.splits)

lemma inbound_pending:
  "length (pending_acks (snd (process_inbound payload c now s))) \<le> length (pending_acks s)"
proof (cases "decode_protocol_header payload")
  case (Inl e)
  then show ?thesis by (simp add: process_inbound_malformed)
next
  case (Inr hr)
  obtain h app where dec: "decode_protocol_header payload = Inr (h, app)" using Inr by (cases hr) simp
  have "length (pending_acks (inbound_core h c now s)) \<le> length (pending_acks s)"
    unfolding inbound_core_pending by (auto intro: order_trans [OF clear_acked_length])
  then show ?thesis by (simp add: process_inbound_decoded [OF dec])
qed

lemma step_exchanges:
  assumes "mrp_inv s"
  shows "length (exchanges (mrp_step fl op s)) \<le>
    max MAX_EXCHANGES_PER_SESSION (length (exchanges s)) + (if opens op then 1 else 0)"
proof (cases op)
  case (OpSend opcode pid e app reliable counter packet now)
  then show ?thesis using send_exchanges [OF assms, of fl counter e packet reliable now opcode pid app] by simp
next
  case (OpInbound payload c now)
  then show ?thesis
    using inbound_table [OF assms, of payload c now] by (cases "process_inbound payload c now s") simp
next
  case (OpTimeout now)
  then show ?thesis using timeout_sizes(1) [of fl now s] by simp
next
  case (OpFlush e)
  then show ?thesis using flush_sizes(1) [of e s] by simp
next
  case OpFlushAll
  then show ?thesis using flush_each_sizes by (auto simp: flush_all_acks_def intro: max.coboundedI2)
next
  case (OpForget c)
  then show ?thesis using forget_sizes(1) [of c s] by simp
next
  case (OpNote i)
  then show ?thesis using length_insert_le [of "ExchangeKey i True" "exchanges s"] by (simp add: note_local_exchange_def)
next
  case (OpClose e)
  then show ?thesis
    by (simp add: close_exchange_on_def max.coboundedI2 [OF length_removeAll_less_eq])
qed (simp add: cancel_pending_outbound_ack_def)

lemma step_pending:
  "length (pending_acks (mrp_step fl op s)) \<le> length (pending_acks s) + (if sends_reliably op then 1 else 0)"
proof (cases op)
  case (OpSend opcode pid e app reliable counter packet now)
  then show ?thesis
    by (auto simp: mark_packet_sent_on_def Let_def case_prod_beta commit_sizes intro: order_trans [OF update_length_le])
qed (auto simp: timeout_sizes inbound_pending flush_sizes flush_each_sizes flush_all_acks_def forget_sizes
    cancel_pending_outbound_ack_def close_exchange_on_def note_local_exchange_def)

lemma owed_within_exchanges:
  assumes "mrp_inv s"
  shows "length (pending_outbound_acks s) \<le> length (exchanges s)"
proof -
  have "set (map fst (pending_outbound_acks s)) \<subseteq> set (exchanges s)"
    using mrp_invD(4) [OF assms] by (auto simp: work_def)
  then have "card (set (map fst (pending_outbound_acks s))) \<le> card (set (exchanges s))"
    by (intro card_mono) simp_all
  then show ?thesis
    unfolding distinct_card [OF mrp_invD(2) [OF assms]] distinct_card [OF mrp_invD(3) [OF assms]] by simp
qed

section \<open>Properties\<close>

text \<open>
  C30. Along every sequence of sends, receptions, timer ticks, cancellations, closes and flushes
  from a new state: the tables have distinct keys, every exchange with an unacknowledged
  message or an owed acknowledgement is in the exchange table, at most 32 displaced
  acknowledgements are kept, the duplicate ring keeps its 32 slots, and no message has more
  attempts left than configured. The peer alone never has more than 256 exchanges held: beyond
  that the exchange table grows only by a reliable send or a local start of an exchange, by one
  each. At most one acknowledgement is pending per exchange, beside the displaced ones, and at most one
  message awaits its acknowledgement per reliable send.
\<close>

theorem mrp_invariant:
  "mrp_inv (fold (mrp_step fl) ops (with_jitter_seed c seed)) \<and>
   length (exchanges (fold (mrp_step fl) ops (with_jitter_seed c seed)))
     \<le> MAX_EXCHANGES_PER_SESSION + length (filter opens ops) \<and>
   length (pending_outbound_acks (fold (mrp_step fl) ops (with_jitter_seed c seed)))
     \<le> length (exchanges (fold (mrp_step fl) ops (with_jitter_seed c seed))) \<and>
   length (pending_acks (fold (mrp_step fl) ops (with_jitter_seed c seed)))
     \<le> length (filter sends_reliably ops)"
proof (intro conjI)
  let ?s = "with_jitter_seed c seed"
  show inv: "mrp_inv (fold (mrp_step fl) ops ?s)"
    using mrp_inv_new by (rule mrp.run_inv)
  show "length (exchanges (fold (mrp_step fl) ops ?s)) \<le> MAX_EXCHANGES_PER_SESSION + length (filter opens ops)"
    using mrp.run_count [where f = "\<lambda>s. length (exchanges s)", OF mrp_inv_new step_exchanges, of fl ops c seed]
    by (simp add: with_jitter_seed_def mrp_bare_def)
  show "length (pending_acks (fold (mrp_step fl) ops ?s)) \<le> length (filter sends_reliably ops)"
    using mrp.run_count [of ?s "\<lambda>s. length (pending_acks s)" fl 0 sends_reliably ops, OF mrp_inv_new] step_pending
    by (simp add: with_jitter_seed_def mrp_bare_def)
  show "length (pending_outbound_acks (fold (mrp_step fl) ops ?s)) \<le> length (exchanges (fold (mrp_step fl) ops ?s))"
    using inv by (rule owed_within_exchanges)
qed

text \<open>
  C31. No acknowledgement is lost or duplicated by the timers: a tick takes from the owed
  acknowledgements exactly those it emits, and leaves none that is due; flushing emits all of
  them, each once, and leaves none.
\<close>

theorem acks_conserved:
  assumes "mrp_inv s"
  shows "owed s = owed (snd (mrp_handle_timeout fl now s)) + acks_in (fst (mrp_handle_timeout fl now s)) \<and>
    (\<forall>x\<in>set (displaced_acks (snd (mrp_handle_timeout fl now s))) \<union>
        set (pending_outbound_acks (snd (mrp_handle_timeout fl now s))). now < oa_deadline (snd x)) \<and>
    acks_in (fst (flush_all_acks s)) = owed s \<and> owed (snd (flush_all_acks s)) = {#}"
proof -
  have "\<forall>x\<in>set (displaced_acks (snd (mrp_handle_timeout fl now s))) \<union>
      set (pending_outbound_acks (snd (mrp_handle_timeout fl now s))). now < oa_deadline (snd x)"
    unfolding timeout_parts by (auto simp: take_acks_rest ack_due_def not_le)
  moreover have "owed s = owed (snd (flush_all_acks s)) + acks_in (fst (flush_all_acks s))"
    and empty: "set (displaced_acks (snd (flush_all_acks s))) = {}"
      "set (pending_outbound_acks (snd (flush_all_acks s))) = {}"
    using owed_flush_each [OF assms, of "remdups_adj (sort (map fst (pending_outbound_acks s) @ map fst (displaced_acks s)))"]
    unfolding flush_all_acks_def by auto
  moreover have "owed (snd (flush_all_acks s)) = {#}"
    using empty by (simp add: owed_def)
  ultimately show ?thesis using owed_timeout [OF assms, of fl now] by simp
qed

definition owing_state :: mrp_state where
  "owing_state = (mrp_bare mrp_config_default)
     \<lparr>pending_outbound_acks := [(ExchangeKey 7 False, \<lparr>oa_counter = 9, oa_deadline = 200\<rparr>)],
      displaced_acks := [(ExchangeKey 7 False, \<lparr>oa_counter = 8, oa_deadline = 100\<rparr>)],
      exchanges := [ExchangeKey 7 False]\<rparr>"

theorem acks_conserved_witness:
  "mrp_inv owing_state \<and>
   acks_in (fst (flush_all_acks owing_state)) = {#(ExchangeKey 7 False, 8), (ExchangeKey 7 False, 9)#} \<and>
   owed (snd (flush_all_acks owing_state)) = {#}"
proof -
  have inv: "mrp_inv owing_state"
    by (simp add: mrp_inv_def owing_state_def mrp_bare_def work_def MAX_DISPLACED_ACKS_def)
  with acks_conserved [OF inv] show ?thesis by (simp add: owed_def owing_state_def)
qed

text \<open>
  C7. The timer loop: woken at or after each deadline, it emits one event per unit of work, in
  the end nothing is pending, and a message just sent reliably is transmitted exactly
  \<open>max_transmissions\<close> times in all (the send included) and then reported expired.
\<close>

theorem reliable_send_schedule:
  assumes "mrp_inv s" "e \<in> set (exchanges s)"
    and "s' = mark_packet_sent_on fl c e packet True now s" "work_left s' \<le> length lates"
  shows "filter (about c) (fst (timer_loop fl lates s')) =
      replicate (unat (max_transmissions (mrp_conf s)) - 1) (TimerRetransmit (ek_id e) c packet)
        @ [TimerExpired (ek_id e) c] \<and>
    length (fst (timer_loop fl lates s')) = work_left s' \<and>
    \<not> has_pending (snd (timer_loop fl lates s'))"
proof -
  have sub: "unat (saturating_sub m 1) = unat m - 1" for m :: u8
    by (simp add: saturating_sub_def word_le_nat_alt unat_sub)
  have "mrp_inv s'" using mark_sent_inv [OF assms(1,2)] assms(3) by simp
  moreover have "script c (pending_acks s') =
      replicate (unat (max_transmissions (mrp_conf s)) - 1) (TimerRetransmit (ek_id e) c packet)
        @ [TimerExpired (ek_id e) c]"
    by (simp add: assms(3) mark_packet_sent_on_def Let_def case_prod_beta script_def update_conv
        schedule_def sub)
  ultimately show ?thesis using timer_loop_drains assms(4) by metis
qed

definition sample_float_ops :: float_ops where
  "sample_float_ops = \<lparr>fl_scale = (\<lambda>ms _ _. ms), fl_jitter = (\<lambda>ms _ _. ms)\<rparr>"

theorem reliable_send_schedule_witness:
  "\<exists>s'. filter (about 9) (fst (timer_loop sample_float_ops [0, 0, 3, 0, 0] s')) =
      [TimerRetransmit 7 9 [1, 2], TimerRetransmit 7 9 [1, 2], TimerRetransmit 7 9 [1, 2],
       TimerRetransmit 7 9 [1, 2], TimerExpired 7 9] \<and>
    s' = mark_packet_sent_on sample_float_ops 9 (ExchangeKey 7 True) [1, 2] True 100
      (note_local_exchange 7 (with_jitter_seed mrp_config_default 5))"
proof -
  let ?s = "note_local_exchange 7 (with_jitter_seed mrp_config_default 5)"
  let ?t = "mark_packet_sent_on sample_float_ops 9 (ExchangeKey 7 True) [1, 2] True 100 ?s"
  have "mrp_inv ?s" using mrp_step_inv [OF mrp_inv_new, of sample_float_ops "OpNote 7"] by simp
  moreover have "ExchangeKey 7 True \<in> set (exchanges ?s)" by (simp add: note_local_exchange_def)
  moreover have "work_left ?t \<le> length [0, 0, 3, 0, 0 :: nat]"
    by (simp add: mark_packet_sent_on_def Let_def case_prod_beta work_left_def attempts_left_def
        note_local_exchange_def with_jitter_seed_def mrp_bare_def mrp_config_default_def
        MRP_MAX_TRANSMISSIONS_def saturating_sub_def)
  ultimately have "filter (about 9) (fst (timer_loop sample_float_ops [0, 0, 3, 0, 0] ?t)) =
      replicate (unat (max_transmissions (mrp_conf ?s)) - 1) (TimerRetransmit 7 9 [1, 2]) @ [TimerExpired 7 9]"
    using reliable_send_schedule [OF _ _ refl, of ?s "ExchangeKey 7 True" sample_float_ops 9 "[1, 2]" 100
        "[0, 0, 3, 0, 0]"] by simp
  moreover have "unat (max_transmissions (mrp_conf ?s)) - 1 = Suc (Suc (Suc (Suc 0)))"
    by (simp add: note_local_exchange_def with_jitter_seed_def mrp_bare_def mrp_config_default_def
        MRP_MAX_TRANSMISSIONS_def)
  ultimately show ?thesis
    by (intro exI [of _ ?t]) (simp only: append_Cons append_Nil replicate_0 replicate_Suc simp_thms)
qed

text \<open>
  C35. A reliable message and its acknowledgement: the peer receives the application message
  with its exchange, role, protocol and payload, and the next message it sends on that exchange
  carries the acknowledgement, which ends the retransmission of the first.
\<close>

theorem reliable_exchange:
  assumes there: "process_inbound (po_wire_payload (build_outbound a opcode pid (ExchangeKey i True) app True))
      c now b = (Inr r, b')"
    and back_again: "process_inbound (po_wire_payload (build_outbound b' opcode' pid' (ExchangeKey i False) app' rel))
      c' now' a1 = (Inr r', a')"
  shows "r = AppMessage i True pid opcode app \<and>
    (r' = AppMessage i False pid' opcode' app' \<or> r' = AckOnly i c) \<and> map_of (pending_acks a') c = None"
proof -
  obtain h where h: "decode_protocol_header (po_wire_payload (build_outbound a opcode pid (ExchangeKey i True) app True)) = Inr (h, app)"
    and hf: "ph_exchange_id h = i" "ph_protocol_id h = pid" "ph_opcode h = opcode"
      "flags_contain (ph_flags h) FLAG_INITIATOR" "flags_contain (ph_flags h) FLAG_RELIABLE"
    by (rule build_outbound_decodes [of a opcode pid "ExchangeKey i True" app True]) simp
  note acc = inbound_accepted [OF there h]
  have key: "inbound_key h = ExchangeKey i False" using hf by (simp add: inbound_key_def of_inbound_def)
  have owe: "map_of (pending_outbound_acks b') (ExchangeKey i False) =
      Some \<lparr>oa_counter = c, oa_deadline = now + standalone_ack_deadline (mrp_conf b)\<rparr>"
    using inbound_core_owes [OF hf(5), of c now b] by (simp add: acc key)
  obtain g where g: "decode_protocol_header (po_wire_payload (build_outbound b' opcode' pid' (ExchangeKey i False) app' rel)) = Inr (g, app')"
    and gf: "ph_exchange_id g = i" "ph_protocol_id g = pid'" "ph_opcode g = opcode'"
      "ph_ack_counter g = Some c" "\<not> flags_contain (ph_flags g) FLAG_INITIATOR"
      "flags_contain (ph_flags g) FLAG_ACK"
    by (rule build_outbound_decodes [of b' opcode' pid' "ExchangeKey i False" app' rel]) (simp add: owe)
  note acc' = inbound_accepted [OF back_again g]
  have "map_of (pending_acks a') c = None"
    using gf by (simp add: acc' inbound_core_pending clear_acked_pending)
  then show ?thesis
    using hf gf by (auto simp: acc(1) acc'(1) inbound_result_def unwrap_or_def)
qed

theorem reliable_exchange_witness:
  "\<exists>b' a' r'.
    process_inbound (po_wire_payload (build_outbound (with_jitter_seed mrp_config_default 1) 8 PID_INTERACTION_MODEL
      (ExchangeKey 7 True) [1, 2] True)) 9 100 (with_jitter_seed mrp_config_default 2) =
        (Inr (AppMessage 7 True PID_INTERACTION_MODEL 8 [1, 2]), b') \<and>
    process_inbound (po_wire_payload (build_outbound b' 9 PID_INTERACTION_MODEL (ExchangeKey 7 False) [3] False)) 30 150
      (note_local_exchange 7 (with_jitter_seed mrp_config_default 1)) = (Inr r', a') \<and>
    map_of (pending_acks a') 9 = None"
proof -
  let ?p = "po_wire_payload (build_outbound (with_jitter_seed mrp_config_default 1) 8 PID_INTERACTION_MODEL
      (ExchangeKey 7 True) [1, 2] True)"
  let ?b = "with_jitter_seed mrp_config_default 2"
  let ?a = "note_local_exchange 7 (with_jitter_seed mrp_config_default 1)"
  have ok: "\<exists>r s'. process_inbound payload c now s = (Inr r, s')"
    if "decode_protocol_header payload = Inr (h, app)" "length (exchanges s) \<le> 1" for payload c now s h app
    using that by (simp add: process_inbound_decoded MAX_EXCHANGES_PER_SESSION_def)
  obtain h where "decode_protocol_header ?p = Inr (h, [1, 2])"
    by (rule build_outbound_decodes)
  from ok [OF this, of ?b 9 100] obtain r b' where b': "process_inbound ?p 9 100 ?b = (Inr r, b')"
    by (auto simp: with_jitter_seed_def mrp_bare_def)
  let ?q = "po_wire_payload (build_outbound b' 9 PID_INTERACTION_MODEL (ExchangeKey 7 False) [3] False)"
  obtain g where "decode_protocol_header ?q = Inr (g, [3])"
    by (rule build_outbound_decodes)
  from ok [OF this, of ?a 30 150] obtain r' a' where a': "process_inbound ?q 30 150 ?a = (Inr r', a')"
    by (auto simp: with_jitter_seed_def mrp_bare_def note_local_exchange_def)
  from reliable_exchange [OF b' a'] b' a' show ?thesis by blast
qed

text \<open>
  Session parameters received at establishment, merged over the defaults, give exactly the
  configuration built from the same values advertised at discovery, and with nothing
  advertised both are the defaults; every interval is within its cap.
\<close>

theorem merge_is_for_peer:
  "merge_session_params mrp_config_default ps =
     for_peer (map_option unat (session_idle_interval_ms ps)) (map_option unat (session_active_interval_ms ps))
       (map_option unat (session_active_threshold_ms ps)) \<and>
   for_peer None None None = mrp_config_default \<and>
   initial_idle (for_peer a b d) \<le> 3600000 \<and> initial_active (for_peer a b d) \<le> 3600000 \<and>
   idle_threshold (for_peer a b d) \<le> 65535"
  by (auto simp: merge_session_params_def for_peer_def unwrap_or_def mrp_config_default_def
      SPEC_DEFAULT_IDLE_def SPEC_DEFAULT_ACTIVE_def SPEC_DEFAULT_ACTIVE_THRESHOLD_def
      MAX_RETRANS_INTERVAL_def MAX_ACTIVE_THRESHOLD_def split: option.splits)

end
