(* ===== verification/Framing_Security.thy ===== *)
theory Framing_Security
  imports Framing
begin

text \<open>
  What the framing layer guarantees: round trips of unicast and group messages, and that only
  authenticated datagrams reach the replay window. A small concrete cipher shows that the laws
  assumed of AES-CCM can hold.
\<close>

section \<open>A cipher with the laws\<close>

definition sample_tag :: "bytes \<Rightarrow> bytes \<Rightarrow> bytes \<Rightarrow> bytes \<Rightarrow> bytes" where
  "sample_tag k n a m = replicate 16 (foldr (XOR) (k @ n @ a @ m) 0)"

definition sample_ccm :: ccm where
  "sample_ccm =
     \<lparr>ccm_encrypt = (\<lambda>k n a m. if length m < 2 ^ 16
        then Some (map (\<lambda>b. b XOR 0x5A) m @ sample_tag k n a m) else None),
      ccm_decrypt = (\<lambda>k n a c. let m = map (\<lambda>b. b XOR 0x5A) (take (length c - 16) c) in
        if 16 \<le> length c \<and> drop (length c - 16) c = sample_tag k n a m then Some m else None)\<rparr>"

lemma sample_ccm_laws: "ccm_laws sample_ccm (\<lambda>_ _ _. 0x5A)"
  by (auto simp: ccm_laws_def sample_ccm_def sample_tag_def AEAD_TAG_LEN_def Let_def comp_def xor.assoc nth_append)

section \<open>Consequences of the laws\<close>

lemma ccm_encrypt_some:
  "ccm_laws C stream \<Longrightarrow> length m < 2 ^ 16 \<Longrightarrow> \<exists>c. ccm_encrypt C k n a m = Some c"
  by (simp add: ccm_laws_def)

lemma ccm_encryptD:
  assumes "ccm_laws C stream" "ccm_encrypt C k n a m = Some c"
  shows "ccm_decrypt C k n a c = Some m" "length c = length m + AEAD_TAG_LEN"
    "i < length m \<Longrightarrow> c ! i = m ! i XOR stream k n i"
  using assms by (auto simp: ccm_laws_def)

lemma ctr_involution:
  assumes L: "ccm_laws C stream" and d: "length d < 2 ^ 16"
  obtains o1 where "ctr_apply C k n d = Some o1" "length o1 = length d" "ctr_apply C k n o1 = Some d"
proof -
  obtain c where c: "ccm_encrypt C k n [] d = Some c" using ccm_encrypt_some [OF L d] by blast
  define o1 where "o1 = take (length d) c"
  have len: "length o1 = length d" using ccm_encryptD(2) [OF L c] by (simp add: o1_def)
  then obtain c' where c': "ccm_encrypt C k n [] o1 = Some c'"
    using ccm_encrypt_some [OF L, of o1 k n "[]"] d by auto
  have "take (length o1) c' = d"
  proof (rule nth_equalityI)
    show "length (take (length o1) c') = length d"
      using ccm_encryptD(2) [OF L c'] len by simp
    fix i assume "i < length (take (length o1) c')"
    then have i: "i < length d" using len by simp
    then have "c ! i = d ! i XOR stream k n i" "c' ! i = o1 ! i XOR stream k n i"
      using ccm_encryptD(3) [OF L c] ccm_encryptD(3) [OF L c'] len by simp_all
    with i len show "take (length o1) c' ! i = d ! i"
      by (simp add: o1_def xor.assoc)
  qed
  with that [of o1] c c' len show thesis by (simp add: ctr_apply_def o1_def)
qed

section \<open>Unicast: authentication comes first\<close>

definition authenticates :: "ccm \<Rightarrow> bytes \<Rightarrow> u64 \<Rightarrow> bytes \<Rightarrow> bool" where
  "authenticates C key node bs =
     (case decode_header bs of Inl _ \<Rightarrow> False
      | Inr (h, rest) \<Rightarrow> ccm_decrypt C key (build_nonce h node) (encode_header h) rest \<noteq> None)"

lemma take_header: "decode_header bs = Inr (h, rest) \<Longrightarrow>
    take (length bs - length rest) bs = encode_header h \<and> drop (length bs - length rest) bs = rest \<and>
    \<not> length bs < length bs - length rest"
  by (simp add: decode_header_iff)

lemma decode_secured_authentic:
  assumes "decode_header bs = Inr (h, rest)"
    and "ccm_decrypt C (receiving_key keys role) (build_nonce h node) (encode_header h) rest = Some p"
  shows "decode_secured C bs keys role node w =
    (if window_fresh w (sh_counter h) then (Inr (h, p), record_counter w (sh_counter h))
     else (Inl (projl (classify w (sh_counter h))), w))"
  using assms take_header [OF assms(1)]
  by (simp add: decode_secured_def decrypt_secured_with_header_def andthen_def check_and_record_fresh)

lemma decode_secured_forged:
  assumes "\<not> authenticates C (receiving_key keys role) node bs"
  shows "\<exists>e. decode_secured C bs keys role node w = (Inl e, w) \<and> (e = DecryptionFailed \<or> (\<exists>n. e = MalformedHeader n))"
proof (cases "decode_header bs")
  case (Inl e)
  then have "\<exists>n. e = MalformedHeader n"
    by (auto simp: decode_header_def decode_source_def decode_dest_def Let_def try_bind_eq_Inl
        split: if_splits)
  with Inl show ?thesis by (simp add: decode_secured_def)
next
  case (Inr hr)
  obtain h rest where hr: "hr = (h, rest)" by (cases hr)
  with Inr assms take_header [of bs h rest] show ?thesis
    by (simp add: authenticates_def decode_secured_def decrypt_secured_with_header_def)
qed

text \<open>Messages delivered from a stream of datagrams, and the counter field of a datagram.\<close>

fun receive_all :: "ccm \<Rightarrow> session_keys \<Rightarrow> session_role \<Rightarrow> u64 \<Rightarrow> replay_window \<Rightarrow> bytes list
    \<Rightarrow> (secured_header \<times> bytes) list" where
  "receive_all C keys role node w [] = []"
| "receive_all C keys role node w (bs # bss) =
     (case decode_secured C bs keys role node w of
        (Inr m, w') \<Rightarrow> m # receive_all C keys role node w' bss
      | (Inl _, w') \<Rightarrow> receive_all C keys role node w' bss)"

definition counter_of :: "bytes \<Rightarrow> u32" where
  "counter_of bs = of_le (slice_at 4 4 bs)"

lemma counter_of_header: "decode_header bs = Inr (h, rest) \<Longrightarrow> counter_of bs = sh_counter h"
  by (simp add: decode_header_iff encode_header_parts counter_of_def fixed_fields)

lemma receive_all_counters:
  "map (\<lambda>m. sh_counter (fst m)) (receive_all C keys role node w bss) =
   window_run w (map counter_of (filter (authenticates C (receiving_key keys role) node) bss))"
proof (induction bss arbitrary: w)
  case (Cons bs bss)
  show ?case
  proof (cases "authenticates C (receiving_key keys role) node bs")
    case True
    then obtain h rest p where h: "decode_header bs = Inr (h, rest)"
      and p: "ccm_decrypt C (receiving_key keys role) (build_nonce h node) (encode_header h) rest = Some p"
      by (auto simp: authenticates_def split: sum.splits)
    show ?thesis
      using True Cons.IH
      by (simp add: decode_secured_authentic [OF h p] counter_of_header [OF h] check_and_record_fresh)
  next
    case False
    then show ?thesis using decode_secured_forged [OF False, of w] Cons.IH by auto
  qed
qed simp

lemma receive_all_filter:
  "receive_all C keys role node w (filter (authenticates C (receiving_key keys role) node) bss) =
   receive_all C keys role node w bss"
proof (induction bss arbitrary: w)
  case (Cons bs bss)
  then show ?case
    using decode_secured_forged [of C keys role node bs w]
    by (cases "authenticates C (receiving_key keys role) node bs")
      (auto split: prod.splits sum.splits)
qed simp

section \<open>Properties\<close>

text \<open>
  C38. The header decoder accepts exactly the encodings of headers whose presence bits agree
  with their fields, and consumes exactly the encoding: the associated data sliced from the
  datagram is the re-encoded header.
\<close>

theorem header_exact:
  "decode_header bs = Inr (h, rest) \<longleftrightarrow> header_wf h \<and> bs = encode_header h @ rest"
  by (rule decode_header_iff)

text \<open>
  C2. Every stream of datagrams into a new session: datagrams that do not authenticate change
  nothing of what is delivered; no counter is delivered twice; and an authentic datagram is
  delivered exactly when its counter has not been delivered before and is at most 32 behind
  the largest one delivered.
\<close>

theorem receive_stream:
  "receive_all C keys role node replay_window_new bss =
     receive_all C keys role node replay_window_new
       (filter (authenticates C (receiving_key keys role) node) bss) \<and>
   distinct (map (\<lambda>m. sh_counter (fst m)) (receive_all C keys role node replay_window_new bss)) \<and>
   map (\<lambda>m. unat (sh_counter (fst m))) (receive_all C keys role node replay_window_new bss) =
     spec_run {0} (map (\<lambda>bs. unat (counter_of bs))
       (filter (authenticates C (receiving_key keys role) node) bss))"
proof -
  let ?cs = "map counter_of (filter (authenticates C (receiving_key keys role) node) bss)"
  let ?r = "receive_all C keys role node replay_window_new bss"
  have "distinct (window_run replay_window_new ?cs)"
    unfolding window_run_accepted using represents_new by (blast intro: window.accepted_distinct)
  then have "distinct (map (\<lambda>m. sh_counter (fst m)) ?r)"
    by (simp add: receive_all_counters)
  moreover have "map unat (map (\<lambda>m. sh_counter (fst m)) ?r) = spec_run {0} (map unat ?cs)"
    unfolding receive_all_counters by (rule window_run_spec [OF represents_new])
  ultimately show ?thesis by (simp add: receive_all_filter comp_def)
qed

text \<open>The role at the other end.\<close>

definition peer_role :: "session_role \<Rightarrow> session_role" where
  "peer_role r = (case r of Initiator \<Rightarrow> Responder | Responder \<Rightarrow> Initiator)"

lemma receiving_key_peer: "receiving_key keys (peer_role role) = sending_key keys role"
  by (cases role) (simp_all add: receiving_key_def sending_key_def peer_role_def)

lemma encode_secured_ok:
  assumes L: "ccm_laws C stream" and len: "length payload \<le> MAX_PAYLOAD_LEN"
  obtains c where "ccm_encrypt C (sending_key keys role) (build_nonce h node) (encode_header h) payload = Some c"
    "encode_secured C h payload keys role node = Inr (encode_header h @ c)"
proof -
  have "length payload < 2 ^ 16" using len by (simp add: MAX_PAYLOAD_LEN_def)
  then obtain c where "ccm_encrypt C (sending_key keys role) (build_nonce h node) (encode_header h) payload = Some c"
    using ccm_encrypt_some [OF L] by blast
  with that [of c] len show thesis
    by (simp add: encode_secured_def encode_secured_with_cipher_def)
qed

text \<open>
  Unicast round trip: a message encoded by one end of a session decodes at the other end,
  under the other role's key, to the same header and payload, and its counter is recorded;
  and the frame is exactly header, payload and tag long. Larger payloads are refused.
\<close>

theorem secured_roundtrip:
  assumes L: "ccm_laws C stream" and wf: "header_wf h" and fresh: "window_fresh w (sh_counter h)"
  shows "if length payload \<le> MAX_PAYLOAD_LEN
    then \<exists>bs. encode_secured C h payload keys role node = Inr bs \<and>
      length bs = length (encode_header h) + length payload + AEAD_TAG_LEN \<and>
      decode_secured C bs keys (peer_role role) node w =
        (Inr (h, payload), record_counter w (sh_counter h))
    else encode_secured C h payload keys role node =
      Inl (PayloadTooLarge (length payload) MAX_PAYLOAD_LEN)"
proof (cases "length payload \<le> MAX_PAYLOAD_LEN")
  case True
  from L True obtain c where
    c: "ccm_encrypt C (sending_key keys role) (build_nonce h node) (encode_header h) payload = Some c"
    and e: "encode_secured C h payload keys role node = Inr (encode_header h @ c)"
    by (rule encode_secured_ok)
  have "ccm_decrypt C (receiving_key keys (peer_role role)) (build_nonce h node) (encode_header h) c = Some payload"
    using ccm_encryptD(1) [OF L c] by (simp add: receiving_key_peer)
  from decode_secured_authentic [OF decode_header_encode [OF wf] this] fresh e True
  show ?thesis using ccm_encryptD(2) [OF L c] by simp
qed (simp add: encode_secured_def encode_secured_with_cipher_def)

definition sample_header :: secured_header where
  "sample_header = \<lparr>sh_flags = 0, sh_session_id = 0x1234, sh_security_flags = 0, sh_counter = 7,
     sh_source = None, sh_dest = None\<rparr>"

theorem secured_roundtrip_witness:
  "\<exists>bs. encode_secured sample_ccm sample_header [1, 2, 3] \<lparr>i2r_key = [1], r2i_key = [2], attestation_key = [3]\<rparr>
      Initiator 9 = Inr bs \<and>
    decode_secured sample_ccm bs \<lparr>i2r_key = [1], r2i_key = [2], attestation_key = [3]\<rparr> Responder 9
      replay_window_new = (Inr (sample_header, [1, 2, 3]), \<lparr>highest_seen = 7, bitmap = 0x40\<rparr>)"
proof -
  have "header_wf sample_header" "window_fresh replay_window_new (sh_counter sample_header)"
    by (simp_all add: header_wf_def sample_header_def flags_contain_def SOURCE_PRESENT_def dsiz_defs
        window_fresh_def classify_def replay_window_new_def)
  moreover have "record_counter replay_window_new (sh_counter sample_header) = \<lparr>highest_seen = 7, bitmap = 0x40\<rparr>"
    by (simp add: record_counter_def replay_window_new_def sample_header_def WIDTH_def shl_or_zero_def)
  ultimately show ?thesis
    using secured_roundtrip [OF sample_ccm_laws, of sample_header replay_window_new "[1, 2, 3]"
        "\<lparr>i2r_key = [1], r2i_key = [2], attestation_key = [3]\<rparr>" Initiator 9]
    by (auto simp: MAX_PAYLOAD_LEN_def peer_role_def)
qed

section \<open>Group messages\<close>

lemma group_header_wf: "header_wf (group_header sid src gid ctr)"
  by (simp add: header_wf_def group_header_def FLAGS_MUST_BE_ZERO_MASK_def flags_contain_def
      SOURCE_PRESENT_def DEST_GROUP_def dsiz_defs)

lemma group_header_facts:
  "length (encode_header (group_header sid src gid ctr)) = 18"
  "privacy_header_len (sh_flags (group_header sid src gid ctr)) = 18"
  "flags_contain (sh_security_flags (group_header sid src gid ctr)) SEC_PRIVACY"
  "build_nonce (group_header sid src gid ctr) n = build_nonce (group_header sid src gid ctr) src"
  by (simp_all add: encode_header_def privacy_header_len_def PRIVACY_REGION_START_def group_header_def
      flags_contain_def SOURCE_PRESENT_def DEST_GROUP_def dsiz_defs SEC_PRIVACY_def SESSION_TYPE_GROUP_def
      build_nonce_def)

lemma take4_fields:
  assumes "length a = 18"
  shows "(take 4 a @ xs) ! 0 = a ! 0" "(take 4 a @ xs) ! 3 = a ! 3"
    "slice_at (Suc 0) 2 (take 4 a @ xs) = slice_at (Suc 0) 2 a"
  using assms by (simp_all add: nth_append slice_at_def min_def drop_take)

lemma group_fields:
  "encode_header h ! 0 = sh_flags h" "encode_header h ! 3 = sh_security_flags h"
  "(of_le (slice_at (Suc 0) 2 (encode_header h)) :: u16) = sh_session_id h"
  by (simp_all add: encode_header_parts fixed_fields)

text \<open>De-obfuscation inverts obfuscation on the frame of a group message.\<close>

lemma deobfuscate_frame:
  assumes mic: "AEAD_TAG_LEN \<le> length c"
    and n: "build_group_privacy_nonce sid (drop (length c - AEAD_TAG_LEN) c) = Inr n"
    and o1: "ctr_apply C pk n o1 = Some (drop 4 (encode_header (group_header sid src gid ctr)))"
      "length o1 = 14"
    and key: "privacy_key = Some pk \<or> privacy_key = None \<and> derive_group_privacy_key hkdf gk = Some pk"
  shows "deobfuscate C hkdf (take 4 (encode_header (group_header sid src gid ctr)) @ o1 @ c) gk privacy_key =
    Inr (encode_header (group_header sid src gid ctr) @ c)"
proof -
  let ?a = "encode_header (group_header sid src gid ctr)" and ?bs = "take 4 (encode_header (group_header sid src gid ctr)) @ o1 @ c"
  have la: "length ?a = 18" by (rule group_header_facts)
  have hl: "privacy_header_len (?bs ! 0) = 18"
    using take4_fields(1) [OF la] by (simp add: group_fields group_header_facts)
  have sid: "(of_le (slice_at (Suc 0) 2 ?bs) :: u16) = sid"
    using take4_fields(3) [OF la] by (simp add: group_fields) (simp add: group_header_def)
  have mc: "drop (length ?bs - AEAD_TAG_LEN) ?bs = drop (length c - AEAD_TAG_LEN) c"
    using mic la o1(2) by simp
  have sl: "slice_at 4 14 ?bs = o1" "drop 18 ?bs = c" "take 4 ?bs = take 4 ?a"
    using la o1(2) by (simp_all add: slice_at_def)
  have k: "(case privacy_key of Some key \<Rightarrow> Inr key
      | None \<Rightarrow> ok_or (derive_group_privacy_key hkdf gk) CryptoError) = Inr pk"
    using key by auto
  have "\<not> length ?bs < 18 + AEAD_TAG_LEN" using mic la o1(2) by simp
  with n o1 k la show ?thesis
    unfolding deobfuscate_def Let_def hl PRIVACY_REGION_START_def mc
    by (simp add: sid sl)
qed

text \<open>
  Group round trip: a group message is decoded, with the privacy key derived or supplied,
  to the header that was sent and to protocol header and payload, for every group, node and
  counter.
\<close>

theorem group_roundtrip:
  assumes L: "ccm_laws C stream" and hk: "derive_group_privacy_key hkdf gk = Some pk"
    and len: "length (encode_protocol_header ph @ app) \<le> MAX_PAYLOAD_LEN"
  shows "\<exists>bs. encode_group_secured C hkdf gk sid src gid ctr ph app = Inr bs \<and>
    decode_group_secured C hkdf bs gk =
      Inr (group_header sid src gid ctr, encode_protocol_header ph @ app) \<and>
    decode_group_secured_with_privacy_key C hkdf bs gk pk =
      Inr (group_header sid src gid ctr, encode_protocol_header ph @ app)"
proof -
  let ?h = "group_header sid src gid ctr" and ?m = "encode_protocol_header ph @ app"
  let ?a = "encode_header ?h"
  have "length ?m < 2 ^ 16" using len by (simp add: MAX_PAYLOAD_LEN_def)
  then obtain c where c: "ccm_encrypt C gk (build_nonce ?h src) ?a ?m = Some c"
    using ccm_encrypt_some [OF L] by blast
  have lc: "AEAD_TAG_LEN \<le> length c" using ccm_encryptD(2) [OF L c] by simp
  then obtain n where n: "build_group_privacy_nonce sid (drop (length c - AEAD_TAG_LEN) c) = Inr n"
    by (simp add: build_group_privacy_nonce_def)
  have "length (drop 4 ?a) < 2 ^ 16" by (simp add: group_header_facts)
  with L obtain o1 where o1: "ctr_apply C pk n (drop 4 ?a) = Some o1" "length o1 = length (drop 4 ?a)"
    "ctr_apply C pk n o1 = Some (drop 4 ?a)" by (rule ctr_involution)
  then have o1': "length o1 = 14" by (simp add: group_header_facts)
  let ?bs = "take 4 ?a @ o1 @ c"
  have enc: "encode_group_secured C hkdf gk sid src gid ctr ph app = Inr ?bs"
    using hk len c lc n o1(1)
    by (simp add: encode_group_secured_def encode_group_secured_with_privacy_key_def Let_def
        PRIVACY_REGION_START_def)
  have la: "length ?a = 18" by (rule group_header_facts)
  have p3: "flags_contain (?bs ! 3) SEC_PRIVACY"
    using take4_fields(2) [OF la] by (simp add: group_fields group_header_facts)
  have "decode_group_secured_inner C hkdf ?bs gk key = Inr (?h, ?m)"
    if "key = Some pk \<or> key = None \<and> derive_group_privacy_key hkdf gk = Some pk" for key
  proof -
    have "deobfuscate C hkdf ?bs gk key = Inr (?a @ c)"
      using lc n o1(3) o1' that by (rule deobfuscate_frame)
    moreover have "\<not> length ?bs \<le> 3" using la o1' by simp
    moreover have "ccm_decrypt C gk (build_nonce ?h 0) ?a c = Some ?m"
      using ccm_encryptD(1) [OF L c] by (simp add: group_header_facts(4) [of _ _ _ _ 0])
    ultimately show ?thesis
      using p3 unfolding decode_group_secured_inner_def
      by (simp add: decode_header_encode [OF group_header_wf])
  qed
  with enc hk show ?thesis
    by (auto simp: decode_group_secured_def decode_group_secured_with_privacy_key_def)
qed

theorem group_roundtrip_witness:
  "\<exists>bs. encode_group_secured sample_ccm (\<lambda>_ k _ _. Some k) [1, 2] 5 77 3 9
      (build_standalone_ack_header 1 2 True) [4] = Inr bs \<and>
    decode_group_secured sample_ccm (\<lambda>_ k _ _. Some k) bs [1, 2] =
      Inr (group_header 5 77 3 9, encode_protocol_header (build_standalone_ack_header 1 2 True) @ [4])"
  using group_roundtrip [OF sample_ccm_laws, of "\<lambda>_ k _ _. Some k" "[1, 2]" "[1, 2]"
      "build_standalone_ack_header 1 2 True" "[4]" 5 77 3 9]
  by (auto simp: derive_group_privacy_key_def encode_protocol_header_def build_standalone_ack_header_def
      PID_SECURE_CHANNEL_def MAX_PAYLOAD_LEN_def)

end
