(* ===== verification/Session_Invariant.thy ===== *)
theory Session_Invariant
  imports Session MRP_Properties Framing_Security
begin

text \<open>
  How the operations of the session manager change a session: a relation that every method
  of a session respects, and what each manager operation does to each entry of the table.
\<close>

section \<open>Evolution of one session\<close>

definition session_inv :: "session \<Rightarrow> bool" where
  "session_inv s \<longleftrightarrow> (\<exists>S. represents (sess_window s) S) \<and> mrp_inv (sess_mrp s)"

text \<open>
  Identity and keys stay, the counter does not decrease, a counter once blocked stays
  blocked, and the invariant is kept.
\<close>

definition evolves :: "session \<Rightarrow> session \<Rightarrow> bool" where
  "evolves s t \<longleftrightarrow> local_id t = local_id s \<and> peer_id t = peer_id s \<and> sess_role t = sess_role s \<and>
     sess_keys t = sess_keys s \<and> local_nonce_node_id t = local_nonce_node_id s \<and>
     peer_nonce_node_id t = peer_nonce_node_id s \<and> created_seq t = created_seq s \<and>
     outbound_counter s \<le> outbound_counter t \<and>
     (session_inv s \<longrightarrow> session_inv t \<and> (\<forall>c. window_fresh (sess_window t) c \<longrightarrow> window_fresh (sess_window s) c))"

lemma evolves_refl [simp]: "evolves s s"
  by (simp add: evolves_def)

lemma evolves_trans: "evolves s t \<Longrightarrow> evolves t u \<Longrightarrow> evolves s u"
  unfolding evolves_def by (auto intro: order_trans)

lemma evolves_mrp:
  assumes "mrp_inv (sess_mrp s) \<Longrightarrow> mrp_inv p"
  shows "evolves s (s\<lparr>sess_mrp := p\<rparr>)"
  using assms by (simp add: evolves_def session_inv_def)

lemma counter_step: "c \<noteq> U32_MAX \<Longrightarrow> c \<le> c + 1" "c \<noteq> U32_MAX \<Longrightarrow> unat (c + 1) = unat c + 1"
proof -
  assume "c \<noteq> U32_MAX"
  moreover have "c + 1 = 0 \<Longrightarrow> c = - 1" by (simp add: eq_neg_iff_add_eq_0)
  ultimately have "1 + c \<noteq> 0" by (auto simp: U32_MAX_def add.commute [of 1])
  then show "unat (c + 1) = unat c + 1" by (simp add: unatSuc add.commute [of c])
  then show "c \<le> c + 1" by (simp add: word_le_nat_alt)
qed

lemma evolves_counter:
  assumes "outbound_counter s \<noteq> U32_MAX" "mrp_inv (sess_mrp s) \<Longrightarrow> mrp_inv p"
  shows "evolves s (s\<lparr>sess_mrp := p, outbound_counter := outbound_counter s + 1\<rparr>)"
  using assms counter_step(1) [OF assms(1)] by (simp add: evolves_def session_inv_def)

lemma send_on_evolves: "evolves s (snd (send_on C fl e opcode pid app reliable now s))"
proof (cases "outbound_counter s = U32_MAX")
  case False
  let ?eff = "reliable \<and> \<not> transport_reliable s"
  let ?p = "build_outbound (sess_mrp s) opcode pid e app ?eff"
  have "mrp_inv (mark_packet_sent_on fl c (po_exchange ?p) packet r now (commit_outbound ?p (sess_mrp s)))"
    if "mrp_inv (sess_mrp s)" for c packet r
    using that by (intro mark_sent_inv commit_inv commit_in_table)
  with False show ?thesis
    unfolding send_on_def Let_def by (auto split: sum.split intro: evolves_counter)
qed (simp add: send_on_def)

lemma ack_packet_evolves: "evolves s (snd (build_standalone_ack_packet C i c l s))"
  using evolves_counter [of s "sess_mrp s"]
  by (auto simp: build_standalone_ack_packet_def split: sum.split)

lemma fold_timer_event_evolves: "evolves s (snd (fold_timer_event C sid ev s))"
  using ack_packet_evolves
  by (auto simp: fold_timer_event_def split: mrp_timer_event.split prod.split sum.split transport_error.split)
    (metis snd_conv)+

lemma fold_timer_events_evolves: "evolves s (snd (fold_timer_events C sid evs s))"
proof (induction evs arbitrary: s)
  case (Cons ev evs)
  show ?case
    using evolves_trans [OF fold_timer_event_evolves Cons.IH] by (simp add: case_prod_beta Let_def)
qed simp

lemma session_timeout_evolves: "evolves s (snd (session_timeout C fl now sid s))"
proof -
  have "evolves s (s\<lparr>sess_mrp := snd (mrp_handle_timeout fl now (sess_mrp s))\<rparr>)"
    by (intro evolves_mrp timeout_inv)
  from evolves_trans [OF this fold_timer_events_evolves] show ?thesis
    by (simp add: session_timeout_def case_prod_beta)
qed

lemma end_on_evolves: "evolves s (snd (end_on C target abort sid s))"
proof -
  define e where "e = (case target of ById i \<Rightarrow> resolve (sess_mrp s) i | Exact e \<Rightarrow> e)"
  have "evolves s (s\<lparr>sess_mrp := (if abort then close_exchange_on e (snd (flush_exchange_acks_on e (sess_mrp s)))
      else snd (flush_exchange_acks_on e (sess_mrp s)))\<rparr>)"
    by (rule evolves_mrp) (simp add: close_inv flush_inv)
  from evolves_trans [OF this fold_timer_events_evolves] show ?thesis
    by (simp add: end_on_def case_prod_beta Let_def flip: e_def)
qed

lemma flush_on_evolves: "evolves s (snd (flush_on C sid s))"
proof -
  have "evolves s (s\<lparr>sess_mrp := snd (flush_all_acks (sess_mrp s))\<rparr>)"
    by (rule evolves_mrp) (simp add: flush_all_acks_def flush_each_inv)
  from evolves_trans [OF this fold_timer_events_evolves] show ?thesis
    by (simp add: flush_on_def case_prod_beta)
qed

lemma answer_duplicate_evolves: "evolves s (snd (answer_duplicate C sid c p err1 s))"
proof -
  have "evolves s (snd (andthen (build_standalone_ack_packet C i c l)
      (\<lambda>a s1. (Inr (f a), s1\<lparr>sess_mrp := forget_ack_for c (sess_mrp s1)\<rparr>)) s))" for i l and f :: "bytes \<Rightarrow> decode_inbound_output"
    using ack_packet_evolves [of s C i c l] evolves_trans [OF _ evolves_mrp [OF forget_inv]]
    by (auto simp: andthen_def split: prod.split sum.split)
  then show ?thesis
    by (auto simp: answer_duplicate_def split: sum.split)
qed

lemma record_evolves:
  assumes "check_and_record c (sess_window s) = (r, w)" "mrp_inv (sess_mrp s) \<Longrightarrow> mrp_inv p"
  shows "evolves s (s\<lparr>sess_window := w, sess_mrp := p\<rparr>)"
proof -
  have w: "w = (if window_fresh (sess_window s) c then record_counter (sess_window s) c else sess_window s)"
    using assms(1) by (auto simp: check_and_record_fresh split: if_splits)
  have "\<exists>S. represents w S \<and> (\<forall>d. window_fresh w d \<longrightarrow> window_fresh (sess_window s) d)"
    if "represents (sess_window s) S" for S
    using window.note_inv [of "sess_window s" c] window.note_mono [of "sess_window s" c] that
    by (auto simp: w)
  with assms(2) show ?thesis by (auto simp: evolves_def session_inv_def)
qed

lemma receive_on_evolves: "evolves s (snd (receive_on C packet h n now s))"
proof -
  let ?D = "decrypt_secured_with_header C packet h n (receiving_key (sess_keys s) (sess_role s)) (peer_nonce_node_id s)"
  let ?c = "sh_counter h"
  show ?thesis
  proof (cases ?D)
    case (Inr p)
    obtain r w where w: "check_and_record ?c (sess_window s) = (r, w)" by fastforce
    show ?thesis
    proof (cases r)
      case (Inl e)
      have "evolves s (s\<lparr>sess_window := w\<rparr>)"
        using record_evolves [OF w, of "sess_mrp s"] by simp
      from evolves_trans [OF this answer_duplicate_evolves] show ?thesis
        by (simp add: receive_on_def Let_def Inr w Inl)
    next
      case (Inr u)
      obtain q mrp1 where q: "process_inbound p ?c now (sess_mrp s) = (q, mrp1)" by fastforce
      have "mrp_inv (sess_mrp s) \<Longrightarrow> mrp_inv mrp1"
        using inbound_inv [of "sess_mrp s" p ?c now] q by simp
      then have "evolves s (s\<lparr>sess_window := w, sess_mrp := mrp1\<rparr>)"
        "evolves s (s\<lparr>sess_window := w, sess_mrp := cancel_pending_outbound_ack e mrp1\<rparr>)" for e
        using record_evolves [OF w] cancel_inv by blast+
      then show ?thesis
        by (auto simp: receive_on_def Let_def \<open>?D = Inr p\<close> w Inr q split: sum.split inbound_outcome.split)
    qed
  qed (simp add: receive_on_def)
qed

section \<open>The manager's operations\<close>

datatype mgr_op =
    MRegister draws u16 session_keys session_role u16 peer_hint
  | MRegisterCase draws draws case_output session_role mrp_config
  | MAllocate
  | MEncode u16 outbound_exchange u8 protocol_id bytes bool instant
  | MDecode bytes instant
  | MTimeout instant
  | MEnd u16 exchange_target bool
  | MFlush u16
  | MFlushAll
  | MRemove u16
  | MSetReliable u16 bool
  | MSetMax nat

fun mgr_step :: "ccm \<Rightarrow> float_ops \<Rightarrow> mgr_op \<Rightarrow> session_manager \<Rightarrow> session_manager" where
  "mgr_step C fl (MRegister d sid keys role psid peer) m = register_pase_with_local_id d sid keys role psid peer m"
| "mgr_step C fl (MRegisterCase d d' co role conf) m = snd (register_case_with_mrp d d' co role conf m)"
| "mgr_step C fl MAllocate m = (case allocate_id m of None \<Rightarrow> m | Some (_, m') \<Rightarrow> m')"
| "mgr_step C fl (MEncode sid target opcode pid app reliable now) m =
     snd (encode_on C fl sid target opcode pid app reliable now m)"
| "mgr_step C fl (MDecode packet now) m = snd (decode_inbound C packet now m)"
| "mgr_step C fl (MTimeout now) m = snd (manager_handle_timeout C fl now m)"
| "mgr_step C fl (MEnd sid target abort) m = snd (end_exchange C sid target abort m)"
| "mgr_step C fl (MFlush sid) m = snd (flush_session_acks C sid m)"
| "mgr_step C fl MFlushAll m = snd (flush_pending_acks C m)"
| "mgr_step C fl (MRemove sid) m = snd (remove_session sid m)"
| "mgr_step C fl (MSetReliable sid b) m = snd (set_transport_reliable sid b m)"
| "mgr_step C fl (MSetMax n) m = set_max_sessions n m"

fun registers :: "mgr_op \<Rightarrow> u16 \<Rightarrow> bool" where
  "registers (MRegister d sid keys role psid peer) k \<longleftrightarrow> sid = k"
| "registers (MRegisterCase d d' co role conf) k \<longleftrightarrow> co_local_session_id co = k"
| "registers op k \<longleftrightarrow> False"

text \<open>
  The table after an operation: keys distinct, and every entry is an evolved old one unless
  the operation registered its id.
\<close>

definition table_evolves :: "(u16 \<Rightarrow> bool) \<Rightarrow> (u16 \<times> session) list \<Rightarrow> (u16 \<times> session) list \<Rightarrow> bool" where
  "table_evolves new xs ys \<longleftrightarrow> (distinct (map fst xs) \<longrightarrow> distinct (map fst ys)) \<and>
     (\<forall>k t. map_of ys k = Some t \<and> \<not> new k \<longrightarrow> (\<exists>s. map_of xs k = Some s \<and> evolves s t))"

lemma table_evolves_refl [simp]: "table_evolves new xs xs"
  by (auto simp: table_evolves_def)

lemma table_evolves_trans:
  "table_evolves new xs ys \<Longrightarrow> table_evolves new ys zs \<Longrightarrow> table_evolves new xs zs"
  unfolding table_evolves_def by (meson evolves_trans)

lemma table_evolves_update:
  "map_of xs k = Some s \<Longrightarrow> evolves s t \<Longrightarrow> table_evolves new xs (AList.update k t xs)"
  by (auto simp: table_evolves_def update_conv distinct_update)

lemma table_evolves_new: "new k \<Longrightarrow> table_evolves new xs (AList.update k t xs)"
  by (auto simp: table_evolves_def update_conv distinct_update)

lemma table_evolves_delete: "table_evolves new xs (AList.delete k xs)"
  by (auto simp: table_evolves_def delete_conv distinct_delete split: if_splits)

lemma on_session_evolves:
  assumes "\<And>s. evolves s (snd (f s))"
  shows "table_evolves new (sessions m) (sessions (snd (on_session sid f m)))"
proof (cases "map_of (sessions m) sid")
  case (Some s)
  then show ?thesis
    using assms [of s] table_evolves_update by (auto simp: on_session_def split: prod.split)
qed (simp add: on_session_def)

lemma each_session_evolves:
  assumes "\<And>k s. evolves s (snd (f k s))"
  shows "table_evolves new (sessions m) (sessions (snd (each_session f sids m)))"
proof (induction sids arbitrary: m)
  case (Cons sid sids)
  show ?case
  proof (cases "map_of (sessions m) sid")
    case (Some s)
    let ?m = "m\<lparr>sessions := AList.update sid (snd (f sid s)) (sessions m)\<rparr>"
    have "table_evolves new (sessions m) (sessions ?m)"
      using table_evolves_update [OF Some assms] by simp
    from table_evolves_trans [OF this Cons.IH] show ?thesis by (simp add: Some case_prod_beta Let_def)
  qed (use Cons in simp)
qed simp

lemma insert_session_evolves:
  "new sid \<Longrightarrow> table_evolves new (sessions m) (sessions (insert_session d sid keys role psid peer m))"
  by (auto simp: insert_session_def evict_def intro: table_evolves_trans [OF table_evolves_delete table_evolves_new]
      table_evolves_new)

lemma andthen_snd_sessions:
  "(\<And>x m1. sessions (snd (f x m1)) = sessions m1) \<Longrightarrow> sessions (snd (andthen g f m)) = sessions (snd (g m))"
  by (auto simp: andthen_def split: prod.split sum.split)

lemma encode_on_sessions:
  "sessions (snd (encode_on C fl sid target opcode pid app reliable now m)) =
   sessions (snd (on_session sid (\<lambda>s. send_on C fl (target_exchange m s target) opcode pid app reliable now s) m))"
  unfolding encode_on_def by (rule andthen_snd_sessions) simp

lemma mgr_step_evolves: "table_evolves (registers op) (sessions m) (sessions (mgr_step C fl op m))"
proof (cases op)
  case (MRegisterCase d d' co role conf)
  let ?m = "insert_session d (co_local_session_id co) (co_keys co) role (co_peer_session_id co)
            \<lparr>hint_node_id = Some (co_peer_node_id co), hint_fabric_id = Some (co_peer_fabric_id co)\<rparr> m"
  have "table_evolves (registers op) (sessions m) (sessions ?m)"
    by (rule insert_session_evolves) (simp add: MRegisterCase)
  from table_evolves_trans [OF this table_evolves_new [of "registers op" "co_local_session_id co"]] this
  show ?thesis
    by (auto simp: MRegisterCase register_case_with_mrp_def Let_def split: option.split)
next
  case (MEncode sid target opcode pid app reliable now)
  then show ?thesis
    using on_session_evolves [OF send_on_evolves] by (simp add: encode_on_sessions)
next
  case (MDecode packet now)
  then show ?thesis
    using on_session_evolves [OF receive_on_evolves] by (auto simp: decode_inbound_def split: sum.split prod.split)
next
  case (MSetReliable sid b)
  have "evolves s (s\<lparr>transport_reliable := b\<rparr>)" for s by (simp add: evolves_def session_inv_def)
  with MSetReliable show ?thesis
    by (auto simp: set_transport_reliable_def table_evolves_update split: option.split)
qed (auto simp: register_pase_with_local_id_def manager_handle_timeout_def end_exchange_def
    flush_session_acks_def flush_pending_acks_def remove_session_def set_max_sessions_def
    table_evolves_delete session_timeout_evolves end_on_evolves flush_on_evolves allocate_id_def
    simp del: each_session.simps split: option.split
    intro!: each_session_evolves insert_session_evolves)

section \<open>Manager invariant\<close>

definition manager_inv :: "session_manager \<Rightarrow> bool" where
  "manager_inv m \<longleftrightarrow> distinct (map fst (sessions m)) \<and>
     (\<forall>k s. map_of (sessions m) k = Some s \<longrightarrow> local_id s = k \<and> session_inv s)"

lemma new_session_inv: "session_inv s \<longleftrightarrow> True"
  if "sess_window s = replay_window_new" "sess_mrp s = mrp_new c draw fb"
  using that represents_new mrp_inv_new by (auto simp: session_inv_def mrp_new_def)

lemma insert_session_inv:
  assumes "manager_inv m"
  shows "manager_inv (insert_session d sid keys role psid peer m)"
proof -
  let ?m = "insert_session d sid keys role psid peer m"
  have t: "table_evolves (\<lambda>k. k = sid) (sessions m) (sessions ?m)"
    by (rule insert_session_evolves) simp
  have "local_id s = k \<and> session_inv s" if s: "map_of (sessions ?m) k = Some s" for k s
  proof (cases "k = sid")
    case True
    then show ?thesis using s by (auto simp: insert_session_def update_conv new_session_inv)
  next
    case False
    with t s obtain r where "map_of (sessions m) k = Some r" "evolves r s"
      by (auto simp: table_evolves_def)
    with assms show ?thesis by (auto simp: manager_inv_def evolves_def)
  qed
  with t assms show ?thesis by (simp add: manager_inv_def table_evolves_def)
qed

lemma evolve_manager_inv:
  assumes "manager_inv m" "table_evolves (\<lambda>_. False) (sessions m) (sessions m')"
  shows "manager_inv m'"
  unfolding manager_inv_def
proof (intro conjI allI impI)
  show "distinct (map fst (sessions m'))" using assms by (simp add: manager_inv_def table_evolves_def)
  fix k t assume "map_of (sessions m') k = Some t"
  then obtain s where "map_of (sessions m) k = Some s" "evolves s t"
    using assms(2) by (auto simp: table_evolves_def)
  with assms(1) show "local_id t = k" "session_inv t"
    by (auto simp: manager_inv_def evolves_def)
qed

lemma mgr_step_inv:
  assumes "manager_inv m"
  shows "manager_inv (mgr_step C fl op m)"
proof (cases "\<exists>k. registers op k")
  case False
  then have "registers op = (\<lambda>_. False)" by auto
  then show ?thesis using evolve_manager_inv [OF assms] mgr_step_evolves [of op m C fl] by simp
next
  case True
  then show ?thesis
  proof (cases op)
    case (MRegisterCase d d' co role conf)
    let ?sid = "co_local_session_id co"
    let ?m = "insert_session d ?sid (co_keys co) role (co_peer_session_id co)
            \<lparr>hint_node_id = Some (co_peer_node_id co), hint_fabric_id = Some (co_peer_fabric_id co)\<rparr> m"
    have inv: "manager_inv ?m" using assms by (rule insert_session_inv)
    have "manager_inv (?m\<lparr>sessions := AList.update ?sid (s\<lparr>local_nonce_node_id := a, peer_nonce_node_id := b,
        sess_mrp := mrp_new conf e f\<rparr>) (sessions ?m)\<rparr>)" if "map_of (sessions ?m) ?sid = Some s" for s a b e f
      using inv that mrp_inv_new
      by (auto simp: manager_inv_def update_conv distinct_update session_inv_def mrp_new_def)
    with inv show ?thesis
      by (auto simp: MRegisterCase register_case_with_mrp_def Let_def split: option.split)
  qed (use assms in \<open>auto simp: register_pase_with_local_id_def intro: insert_session_inv\<close>)
qed

interpretation manager: guarded_machine "mgr_step C fl" manager_inv for C fl
  by unfold_locales (rule mgr_step_inv)

end
