(* ===== verification/Session_Properties.thy ===== *)
theory Session_Properties
  imports Session_Invariant
begin

text \<open>
  What the session manager guarantees: failed sends change nothing, counters are never reused,
  the table is bounded and evicts idle sessions first, free ids are found, a message sent at
  one end is delivered at the other, and no message is delivered twice.
\<close>

section \<open>Sealed packets\<close>

lemma session_header_wf: "header_wf (session_header s)"
  by (simp add: header_wf_def session_header_def flags_contain_def SOURCE_PRESENT_def dsiz_defs)

lemma seal_header:
  assumes "seal C s payload = Inr p"
  obtains c where "decode_header p = Inr (session_header s, c)"
  using assms session_header_wf [of s]
  by (auto simp: seal_def encode_secured_with_cipher_def try_bind_eq_Inr decode_header_encode Let_def split: if_splits)

lemma seal_counter: "seal C s payload = Inr p \<Longrightarrow> counter_of p = outbound_counter s"
  by (erule seal_header) (simp add: counter_of_header, simp add: session_header_def)

lemma update_same: "map_of m k = Some v \<Longrightarrow> AList.update k v m = m"
  by (induction m) auto

text \<open>Packets sealed between two states of a session: their counters are the ones in between.\<close>

definition emits :: "session \<Rightarrow> bytes list \<Rightarrow> session \<Rightarrow> bool" where
  "emits s ps t \<longleftrightarrow> outbound_counter s \<le> outbound_counter t \<and>
     map (\<lambda>p. unat (counter_of p)) ps = [unat (outbound_counter s) ..< unat (outbound_counter t)]"

lemma emits_none [simp]: "outbound_counter t = outbound_counter s \<Longrightarrow> emits s [] t"
  by (simp add: emits_def)

lemma emits_trans: "emits s ps t \<Longrightarrow> emits t qs u \<Longrightarrow> emits s (ps @ qs) u"
  using upt_add_eq_append [of "unat (outbound_counter s)" "unat (outbound_counter t)"
      "unat (outbound_counter u) - unat (outbound_counter t)"]
  by (auto simp: emits_def word_le_nat_alt)

lemma emits_one:
  assumes "seal C s payload = Inr p" "outbound_counter s \<noteq> U32_MAX" "outbound_counter t = outbound_counter s + 1"
  shows "emits s [p] t"
  using assms counter_step [OF assms(2)] by (simp add: emits_def seal_counter)

lemma emits_irrelevant:
  "outbound_counter s' = outbound_counter s \<Longrightarrow> outbound_counter t' = outbound_counter t
    \<Longrightarrow> emits s' ps t' = emits s ps t"
  by (simp add: emits_def)

text \<open>The packets sealed for session \<open>k\<close>, in events and by a manager operation.\<close>

definition event_packets :: "u16 \<Rightarrow> mrp_event list \<Rightarrow> bytes list" where
  "event_packets k evs =
     List.map_filter (\<lambda>e. case e of SendStandaloneAck sid i p \<Rightarrow> if sid = k then Some p else None | _ \<Rightarrow> None) evs"

fun mgr_sealed :: "ccm \<Rightarrow> float_ops \<Rightarrow> u16 \<Rightarrow> mgr_op \<Rightarrow> session_manager \<Rightarrow> bytes list" where
  "mgr_sealed C fl k (MEncode sid target opcode pid app reliable now) m =
     (case fst (encode_on C fl sid target opcode pid app reliable now m) of
        Inl _ \<Rightarrow> [] | Inr out \<Rightarrow> if sid = k then [eo_wire_bytes out] else [])"
| "mgr_sealed C fl k (MDecode packet now) m =
     (case fst (decode_inbound C packet now m) of
        Inr (DuplicateReliableAckResent sid _ p) \<Rightarrow> if sid = k then [p] else [] | _ \<Rightarrow> [])"
| "mgr_sealed C fl k (MTimeout now) m = event_packets k (fst (manager_handle_timeout C fl now m))"
| "mgr_sealed C fl k (MEnd sid target abort) m = event_packets k (fst (end_exchange C sid target abort m))"
| "mgr_sealed C fl k (MFlush sid) m = event_packets k (fst (flush_session_acks C sid m))"
| "mgr_sealed C fl k MFlushAll m = event_packets k (fst (flush_pending_acks C m))"
| "mgr_sealed C fl k op m = []"

fun sealed_run :: "ccm \<Rightarrow> float_ops \<Rightarrow> u16 \<Rightarrow> mgr_op list \<Rightarrow> session_manager \<Rightarrow> bytes list" where
  "sealed_run C fl k [] m = []"
| "sealed_run C fl k (op # ops) m = mgr_sealed C fl k op m @ sealed_run C fl k ops (mgr_step C fl op m)"

lemma event_packets_simps [simp]:
  "event_packets k [] = []" "event_packets k (xs @ ys) = event_packets k xs @ event_packets k ys"
  "event_packets k (Retransmit a b c d # xs) = event_packets k xs"
  "event_packets k (Expired a b c # xs) = event_packets k xs"
  "event_packets k (SessionCounterExhausted a b c # xs) = event_packets k xs"
  "event_packets k (SendStandaloneAck sid i p # xs) = (if sid = k then [p] else []) @ event_packets k xs"
  by (simp_all add: event_packets_def List.map_filter_def)

subsection \<open>One session\<close>

lemma ack_packet_emits:
  "build_standalone_ack_packet C i c l s = (r, t) \<Longrightarrow> emits s (case r of Inl _ \<Rightarrow> [] | Inr p \<Rightarrow> [p]) t"
  by (auto simp: build_standalone_ack_packet_def emits_one split: if_splits sum.splits)

lemma fold_event_emits:
  "fold_timer_event C sid ev s = (out, t) \<Longrightarrow>
     emits s (event_packets sid (case out of None \<Rightarrow> [] | Some x \<Rightarrow> [x])) t \<and>
     (k \<noteq> sid \<longrightarrow> event_packets k (case out of None \<Rightarrow> [] | Some x \<Rightarrow> [x]) = [])"
  using ack_packet_emits
  by (auto simp: fold_timer_event_def split: mrp_timer_event.splits prod.splits sum.splits transport_error.splits)
    (metis sum.case)+

lemma fold_events_emits:
  "emits s (event_packets sid (fst (fold_timer_events C sid evs s))) (snd (fold_timer_events C sid evs s)) \<and>
   (k \<noteq> sid \<longrightarrow> event_packets k (fst (fold_timer_events C sid evs s)) = [])"
proof (induction evs arbitrary: s)
  case (Cons ev evs)
  obtain out t where t: "fold_timer_event C sid ev s = (out, t)" by fastforce
  note one = fold_event_emits [OF t, of k]
  have split: "event_packets j (case out of None \<Rightarrow> xs | Some x \<Rightarrow> x # xs) =
      event_packets j (case out of None \<Rightarrow> [] | Some x \<Rightarrow> [x]) @ event_packets j xs" for j xs
    by (auto simp: event_packets_def List.map_filter_def split: option.split)
  show ?case
    using one Cons.IH [of t] emits_trans [OF conjunct1 [OF one] conjunct1 [OF Cons.IH]]
    by (simp add: t case_prod_beta Let_def split [of _ "fst (fold_timer_events C sid evs t)"])
qed simp

text \<open>A method of a session that emits timer events seals packets for that session only.\<close>

definition event_method :: "(u16 \<Rightarrow> session \<Rightarrow> mrp_event list \<times> session) \<Rightarrow> bool" where
  "event_method f \<longleftrightarrow> (\<forall>sid s k. emits s (event_packets sid (fst (f sid s))) (snd (f sid s)) \<and>
     (k \<noteq> sid \<longrightarrow> event_packets k (fst (f sid s)) = []))"

lemma event_methods:
  "event_method (session_timeout C fl now)" "event_method (end_on C target abort)" "event_method (flush_on C)"
proof -
  have "emits s (event_packets sid (fst (fold_timer_events C sid evs (s\<lparr>sess_mrp := p\<rparr>))))
      (snd (fold_timer_events C sid evs (s\<lparr>sess_mrp := p\<rparr>)))"
    "k \<noteq> sid \<Longrightarrow> event_packets k (fst (fold_timer_events C sid evs (s\<lparr>sess_mrp := p\<rparr>))) = []" for s sid k evs p
    using fold_events_emits [of "s\<lparr>sess_mrp := p\<rparr>"] by (simp_all add: emits_def)
  then show "event_method (session_timeout C fl now)" "event_method (end_on C target abort)"
    "event_method (flush_on C)"
    unfolding event_method_def session_timeout_def end_on_def flush_on_def Let_def case_prod_beta
    by blast+
qed

lemma send_on_emits:
  "send_on C fl e opcode pid app reliable now s = (r, t) \<Longrightarrow>
     emits s (case r of Inl _ \<Rightarrow> [] | Inr out \<Rightarrow> [eo_wire_bytes out]) t"
  by (auto simp: send_on_def Let_def emits_one split: if_splits sum.splits)

lemma answer_duplicate_emits:
  "answer_duplicate C sid c p err1 s = (r, t) \<Longrightarrow>
     emits s (case r of Inr (DuplicateReliableAckResent _ _ q) \<Rightarrow> [q] | _ \<Rightarrow> []) t \<and>
     (\<forall>i j q. r = Inr (DuplicateReliableAckResent i j q) \<longrightarrow> i = sid)"
  by (auto simp: answer_duplicate_def andthen_def split: sum.splits prod.splits if_splits
      dest!: ack_packet_emits) (simp_all add: emits_def)

lemma receive_on_emits:
  assumes "receive_on C packet h n now s = (r, t)"
  shows "emits s (case r of Inr (DuplicateReliableAckResent _ _ q) \<Rightarrow> [q] | _ \<Rightarrow> []) t \<and>
     (\<forall>i j q. r = Inr (DuplicateReliableAckResent i j q) \<longrightarrow> i = sh_session_id h)"
proof -
  consider c p e w where "answer_duplicate C (sh_session_id h) c p e (s\<lparr>sess_window := w\<rparr>) = (r, t)"
    | "outbound_counter t = outbound_counter s" "\<forall>i j q. r \<noteq> Inr (DuplicateReliableAckResent i j q)"
    using assms by (auto simp: receive_on_def Let_def split: sum.splits prod.splits inbound_outcome.splits)
  then show ?thesis
  proof cases
    case (1 c p e w)
    then show ?thesis using answer_duplicate_emits [OF 1] by (simp add: emits_def)
  next
    case 2
    then show ?thesis by (auto split: sum.split decode_inbound_output.split)
  qed
qed

subsection \<open>The table\<close>

text \<open>As \<open>emits\<close>, for the session with id \<open>k\<close>, which may be absent or removed.\<close>

definition emits_at :: "u16 \<Rightarrow> session_manager \<Rightarrow> bytes list \<Rightarrow> session_manager \<Rightarrow> bool" where
  "emits_at k m ps m' \<longleftrightarrow> (case map_of (sessions m) k of
     None \<Rightarrow> ps = [] \<and> map_of (sessions m') k = None
   | Some s \<Rightarrow> (\<exists>t. emits s ps t \<and>
       (\<forall>t'. map_of (sessions m') k = Some t' \<longrightarrow> outbound_counter t' = outbound_counter t)))"

lemma emits_at_quiet:
  assumes "\<And>t. map_of (sessions m') k = Some t \<Longrightarrow>
      \<exists>s. map_of (sessions m) k = Some s \<and> outbound_counter t = outbound_counter s"
  shows "emits_at k m [] m'"
proof (cases "map_of (sessions m) k")
  case None
  with assms show ?thesis by (cases "map_of (sessions m') k") (auto simp: emits_at_def)
next
  case (Some s)
  then show ?thesis
    using assms by (auto simp: emits_at_def intro!: exI [of _ s])
qed

lemma emits_at_sessions: "sessions m1 = sessions m2 \<Longrightarrow> emits_at k m ps m1 = emits_at k m ps m2"
  by (cases "map_of (sessions m) k") (simp_all add: emits_at_def)

lemma emits_at_trans:
  assumes "emits_at k m ps m1" "emits_at k m1 qs m2"
  shows "emits_at k m (ps @ qs) m2"
proof (cases "map_of (sessions m) k")
  case None
  with assms show ?thesis by (simp add: emits_at_def)
next
  case (Some s)
  with assms(1) obtain t where t: "emits s ps t"
    "\<And>t'. map_of (sessions m1) k = Some t' \<Longrightarrow> outbound_counter t' = outbound_counter t"
    by (auto simp: emits_at_def)
  show ?thesis
  proof (cases "map_of (sessions m1) k")
    case None
    with assms(2) t Some show ?thesis by (auto simp: emits_at_def)
  next
    case (Some t1)
    with assms(2) obtain u where "emits t1 qs u"
      "\<And>t'. map_of (sessions m2) k = Some t' \<Longrightarrow> outbound_counter t' = outbound_counter u"
      by (auto simp: emits_at_def)
    moreover have "emits s ps t1" using t Some by (simp add: emits_def)
    ultimately show ?thesis using emits_trans \<open>map_of (sessions m) k = Some s\<close> by (fastforce simp: emits_at_def)
  qed
qed

lemma emits_at_update:
  assumes "map_of (sessions m) sid = Some s" "sid = k \<Longrightarrow> emits s ps t" "sid \<noteq> k \<Longrightarrow> ps = []"
    "sessions m' = AList.update sid t (sessions m)"
  shows "emits_at k m ps m'"
proof (cases "sid = k")
  case True
  with assms show ?thesis by (auto simp: emits_at_def update_conv)
next
  case False
  with assms show ?thesis by (auto simp: update_conv intro: emits_at_quiet)
qed

lemma each_session_emits:
  assumes "event_method f"
  shows "emits_at k m (event_packets k (fst (each_session f sids m))) (snd (each_session f sids m))"
proof (induction sids arbitrary: m)
  case Nil
  show ?case by (simp add: emits_at_quiet)
next
  case (Cons sid sids)
  show ?case
  proof (cases "map_of (sessions m) sid")
    case (Some s)
    let ?m = "m\<lparr>sessions := AList.update sid (snd (f sid s)) (sessions m)\<rparr>"
    have "emits_at k m (event_packets k (fst (f sid s))) ?m"
      using assms by (intro emits_at_update [OF Some]) (auto simp: event_method_def)
    from emits_at_trans [OF this Cons.IH] show ?thesis by (simp add: Some case_prod_beta Let_def)
  qed (simp add: Cons.IH)
qed

lemma on_session_emits:
  assumes "on_session sid f m = (r, m')" "\<And>s t. f s = (r, t) \<Longrightarrow> (sid = k \<longrightarrow> emits s ps t) \<and> (sid \<noteq> k \<longrightarrow> ps = [])"
    and "\<And>e. r = Inl e \<Longrightarrow> ps = []"
  shows "emits_at k m ps m'"
proof (cases "map_of (sessions m) sid")
  case None
  with assms(1,3) show ?thesis by (auto simp: on_session_def intro: emits_at_quiet)
next
  case (Some s)
  with assms(1) obtain t where "f s = (r, t)" "sessions m' = AList.update sid t (sessions m)"
    by (auto simp: on_session_def split: prod.splits)
  with assms(2) [of s t] Some show ?thesis by (auto intro: emits_at_update)
qed

lemma encode_emits: "emits_at k m (mgr_sealed C fl k (MEncode sid target opcode pid app reliable now) m)
    (mgr_step C fl (MEncode sid target opcode pid app reliable now) m)"
proof -
  let ?f = "\<lambda>s. send_on C fl (target_exchange m s target) opcode pid app reliable now s"
  obtain r m1 where r: "on_session sid ?f m = (r, m1)" by fastforce
  have "emits_at k m (case r of Inl _ \<Rightarrow> [] | Inr out \<Rightarrow> if sid = k then [eo_wire_bytes out] else []) m1"
    using r by (rule on_session_emits) (auto dest!: send_on_emits split: sum.splits)
  moreover have "sessions (snd (encode_on C fl sid target opcode pid app reliable now m)) = sessions m1"
    using r by (simp add: encode_on_sessions)
  moreover have "fst (encode_on C fl sid target opcode pid app reliable now m) = r"
    using r by (simp add: encode_on_def andthen_def split: sum.split)
  ultimately show ?thesis
    using emits_at_sessions [of "snd (encode_on C fl sid target opcode pid app reliable now m)" m1 k m] by simp
qed

lemma decode_emits: "emits_at k m (mgr_sealed C fl k (MDecode packet now) m) (mgr_step C fl (MDecode packet now) m)"
proof (cases "decode_header packet")
  case (Inl e)
  then show ?thesis by (simp add: decode_inbound_def emits_at_quiet)
next
  case (Inr hr)
  obtain h rest where hr: "hr = (h, rest)" by (cases hr)
  let ?f = "receive_on C packet h (length packet - length rest) now"
  obtain r m1 where r: "on_session (sh_session_id h) ?f m = (r, m1)" by fastforce
  have "emits_at k m (case r of Inr (DuplicateReliableAckResent sid _ p) \<Rightarrow> if sid = k then [p] else [] | _ \<Rightarrow> []) m1"
    using r by (rule on_session_emits)
      (auto dest!: receive_on_emits split: sum.splits decode_inbound_output.splits)
  then show ?thesis using r by (simp add: decode_inbound_def Inr hr)
qed

lemma insert_session_keeps:
  "sid \<noteq> k \<Longrightarrow> map_of (sessions (insert_session d sid keys role psid peer m)) k = Some t
    \<Longrightarrow> map_of (sessions m) k = Some t"
  by (auto simp: insert_session_def evict_def update_conv delete_conv split: if_splits)

lemma register_case_keeps:
  assumes "co_local_session_id co \<noteq> k"
    "map_of (sessions (snd (register_case_with_mrp d d' co role conf m))) k = Some t"
  shows "map_of (sessions m) k = Some t"
proof (rule insert_session_keeps [OF assms(1)])
  show "map_of (sessions (insert_session d (co_local_session_id co) (co_keys co) role (co_peer_session_id co)
      \<lparr>hint_node_id = Some (co_peer_node_id co), hint_fabric_id = Some (co_peer_fabric_id co)\<rparr> m)) k = Some t"
    using assms by (simp add: register_case_with_mrp_def Let_def update_conv split: option.splits)
qed

lemma mgr_step_emits:
  assumes "\<not> registers op k"
  shows "emits_at k m (mgr_sealed C fl k op m) (mgr_step C fl op m)"
proof (cases op)
  case (MRegister d sid keys role psid peer)
  with assms show ?thesis
    by (auto simp: register_pase_with_local_id_def intro!: emits_at_quiet dest: insert_session_keeps)
next
  case (MRegisterCase d d' co role conf)
  with assms show ?thesis by (auto intro!: emits_at_quiet dest: register_case_keeps)
next
  case MAllocate
  then show ?thesis by (auto simp: allocate_id_def intro!: emits_at_quiet split: option.split)
next
  case (MSetReliable sid b)
  then show ?thesis
    by (auto simp: set_transport_reliable_def update_conv intro!: emits_at_quiet split: option.splits if_splits)
next
  case MEncode
  then show ?thesis by (simp only: encode_emits)
next
  case MDecode
  then show ?thesis by (simp only: decode_emits)
qed (auto simp: manager_handle_timeout_def end_exchange_def flush_session_acks_def
    flush_pending_acks_def remove_session_def set_max_sessions_def delete_conv
    simp del: each_session.simps intro!: each_session_emits event_methods emits_at_quiet split: if_splits)

lemma sealed_run_emits:
  "\<forall>op\<in>set ops. \<not> registers op k \<Longrightarrow> emits_at k m (sealed_run C fl k ops m) (fold (mgr_step C fl) ops m)"
proof (induction ops arbitrary: m)
  case Nil
  show ?case by (simp add: emits_at_quiet)
next
  case (Cons op ops)
  then show ?case using emits_at_trans [OF mgr_step_emits] by simp
qed

section \<open>Properties\<close>

text \<open>
  C3. Nonces are never reused: as long as a session id is not registered anew, whatever the
  manager is asked to do, the packets it encrypts for that session (messages, acknowledgements
  fired by timers, flushes and duplicates) carry consecutive message counters, from the
  session's counter on and never past the largest 32-bit value. Retransmissions repeat packets
  already encrypted.
\<close>

theorem counters_never_reused:
  assumes "map_of (sessions m) k = Some s" "\<forall>op\<in>set ops. \<not> registers op k"
  shows "map (\<lambda>p. unat (counter_of p)) (sealed_run C fl k ops m) =
      [unat (outbound_counter s) ..< unat (outbound_counter s) + length (sealed_run C fl k ops m)] \<and>
    unat (outbound_counter s) + length (sealed_run C fl k ops m) < 2 ^ 32"
proof -
  obtain t where t: "emits s (sealed_run C fl k ops m) t"
    using sealed_run_emits [OF assms(2), of m C fl] assms(1) by (auto simp: emits_at_def)
  then have "length (sealed_run C fl k ops m) = unat (outbound_counter t) - unat (outbound_counter s)"
    by (metis emits_def length_map length_upt)
  moreover have "unat (outbound_counter t) < 2 ^ 32" using unat_bound [of "outbound_counter t"] by simp
  ultimately show ?thesis using t by (simp add: emits_def word_le_nat_alt)
qed

definition sample_manager :: session_manager where
  "sample_manager = register_pase_with_local_id \<lparr>counter_draw = Some [6, 0, 0, 0], jitter_draw = None, jitter_fallback = 1\<rparr>
     1 \<lparr>i2r_key = [1], r2i_key = [2], attestation_key = [3]\<rparr> Initiator 9 \<lparr>hint_node_id = None, hint_fabric_id = None\<rparr>
     (manager_new None)"

lemma sample_manager_session:
  obtains s where "map_of (sessions sample_manager) 1 = Some s" "outbound_counter s = 7" "sess_window s = replay_window_new"
    "sess_keys s = \<lparr>i2r_key = [1], r2i_key = [2], attestation_key = [3]\<rparr>" "sess_role s = Initiator" "peer_id s = 9"
    "exchanges (sess_mrp s) = []" "local_nonce_node_id s = 0" "peer_nonce_node_id s = 0"
  using that
  by (simp add: sample_manager_def register_pase_with_local_id_def insert_session_def manager_new_def evict_def
      seed_message_counter_def initial_counter_from_drbg_def of_le_def DEFAULT_MAX_SESSIONS_def mrp_new_def
      with_jitter_seed_def mrp_bare_def)

theorem counters_never_reused_witness:
  "\<exists>n. map (\<lambda>p. unat (counter_of p)) (sealed_run sample_ccm sample_float_ops 1
      [MEncode 1 NewExchange 2 PID_INTERACTION_MODEL [5] True 0, MTimeout 900, MFlushAll] sample_manager) = [7 ..< n]"
proof -
  obtain s where s: "map_of (sessions sample_manager) 1 = Some s" "outbound_counter s = 7"
    by (rule sample_manager_session)
  have "\<forall>op\<in>set [MEncode 1 NewExchange 2 PID_INTERACTION_MODEL [5] True 0, MTimeout 900, MFlushAll]. \<not> registers op 1"
    by simp
  from counters_never_reused [OF s(1) this, of sample_ccm sample_float_ops] s(2) show ?thesis by auto
qed

lemma seal_total:
  assumes "ccm_laws C stream"
  shows "seal C s payload = (if length payload > MAX_PAYLOAD_LEN then Inl (PayloadTooLarge (length payload) MAX_PAYLOAD_LEN)
    else Inr (encode_header (session_header s) @ the (ccm_encrypt C (sending_key (sess_keys s) (sess_role s))
      (build_nonce (session_header s) (local_nonce_node_id s)) (encode_header (session_header s)) payload)))"
proof (cases "length payload > MAX_PAYLOAD_LEN")
  case False
  then have "length payload < 2 ^ 16" by (simp add: MAX_PAYLOAD_LEN_def)
  then obtain c where "ccm_encrypt C (sending_key (sess_keys s) (sess_role s))
      (build_nonce (session_header s) (local_nonce_node_id s)) (encode_header (session_header s)) payload = Some c"
    using ccm_encrypt_some [OF assms] by blast
  with False show ?thesis by (simp add: seal_def encode_secured_with_cipher_def Let_def)
qed (simp add: seal_def encode_secured_with_cipher_def)

text \<open>
  C36. Sending, on every branch: an unknown session, an exhausted counter and a message over 1024
  bytes are refused, in that order of precedence, and a refused send changes nothing at all; a
  successful one uses the session's counter and advances it, leaves the other sessions alone,
  and takes a new exchange id only when it opens an exchange.
\<close>

theorem encode_outcomes:
  assumes "ccm_laws C stream"
  shows "case encode_on C fl sid target opcode pid app reliable now m of (r, m') \<Rightarrow>
    (case map_of (sessions m) sid of
       None \<Rightarrow> r = Inl (UnknownSession sid) \<and> m' = m
     | Some s \<Rightarrow>
         let wire = po_wire_payload (build_outbound (sess_mrp s) opcode pid (target_exchange m s target) app
               (reliable \<and> \<not> transport_reliable s)) in
         if outbound_counter s = U32_MAX then r = Inl CounterOverflow \<and> m' = m
         else if length wire > MAX_PAYLOAD_LEN
         then r = Inl (PayloadTooLarge (length wire) MAX_PAYLOAD_LEN) \<and> m' = m
         else \<exists>out t. r = Inr out \<and> eo_message_counter out = outbound_counter s \<and>
           ExchangeKey (eo_exchange_id out) (eo_is_local_initiator out) = target_exchange m s target \<and>
           outbound_counter t = outbound_counter s + 1 \<and>
           m' = m\<lparr>sessions := AList.update sid t (sessions m),
             next_exchange_id := next_exchange_id m + (if target = NewExchange then 1 else 0)\<rparr>)"
proof (cases "map_of (sessions m) sid")
  case None
  then show ?thesis by (simp add: encode_on_def andthen_def on_session_def)
next
  case (Some s)
  let ?p = "build_outbound (sess_mrp s) opcode pid (target_exchange m s target) app (reliable \<and> \<not> transport_reliable s)"
  have key: "ExchangeKey (po_exchange_id ?p) (po_local ?p) = target_exchange m s target"
    using build_exchange [of "sess_mrp s" opcode pid "target_exchange m s target" app "reliable \<and> \<not> transport_reliable s"]
    by (simp add: po_exchange_def)
  consider "outbound_counter s = U32_MAX"
    | "outbound_counter s \<noteq> U32_MAX" "length (po_wire_payload ?p) > MAX_PAYLOAD_LEN"
    | "outbound_counter s \<noteq> U32_MAX" "\<not> length (po_wire_payload ?p) > MAX_PAYLOAD_LEN"
    by blast
  then show ?thesis
  proof cases
    case 3
    obtain out t where "send_on C fl (target_exchange m s target) opcode pid app reliable now s = (Inr out, t)"
      "eo_message_counter out = outbound_counter s" "outbound_counter t = outbound_counter s + 1"
      "ExchangeKey (eo_exchange_id out) (eo_is_local_initiator out) = target_exchange m s target"
      using 3 by (simp add: send_on_def Let_def seal_total [OF assms] key)
    then show ?thesis
      using 3 by (auto simp: encode_on_def andthen_def on_session_def Some Let_def intro!: exI [of _ t])
  qed (simp_all add: encode_on_def andthen_def on_session_def Some send_on_def Let_def update_same
      seal_total [OF assms])
qed

theorem encode_outcomes_witness:
  "\<exists>out m'. encode_on sample_ccm sample_float_ops 1 NewExchange 2 PID_INTERACTION_MODEL [5] False 0 sample_manager = (Inr out, m') \<and>
     eo_message_counter out = 7 \<and> eo_exchange_id out = 1 \<and> next_exchange_id m' = 2"
proof -
  obtain s where s: "map_of (sessions sample_manager) 1 = Some s" "outbound_counter s = 7"
    by (rule sample_manager_session)
  have "length (po_wire_payload (build_outbound (sess_mrp s) 2 PID_INTERACTION_MODEL e [5] r)) \<le> MAX_PAYLOAD_LEN" for e r
    by (simp add: build_outbound_def Let_def encode_protocol_header_def MAX_PAYLOAD_LEN_def
        PID_INTERACTION_MODEL_def split: option.split)
  moreover have "next_exchange_id sample_manager = 1"
    by (simp add: sample_manager_def register_pase_with_local_id_def insert_session_def manager_new_def seed_exchange_id_def)
  ultimately show ?thesis
    using encode_outcomes [OF sample_ccm_laws, where fl = sample_float_ops and sid = 1 and target = NewExchange
        and opcode = 2 and pid = PID_INTERACTION_MODEL and app = "[5]" and reliable = False and now = 0
        and m = sample_manager] s
    by (auto simp: U32_MAX_def target_exchange_def not_less [symmetric] split: prod.splits)
qed

section \<open>Session ids and the size of the table\<close>

definition nth_id :: "nat \<Rightarrow> nat \<Rightarrow> u16" where
  "nth_id v j = word_of_nat ((v + j) mod 65535 + 1)"

lemma unat_nth_id: "unat (nth_id v j) = (v + j) mod 65535 + 1"
proof -
  have "(v + j) mod 65535 < 65535" by simp
  then show ?thesis unfolding nth_id_def by (subst unat_of_nat) simp
qed

lemma nth_id_next: "(if nth_id v j + 1 = 0 then 1 else nth_id v j + 1) = nth_id v (Suc j)"
proof -
  have u: "unat (nth_id v j + 1) = ((v + j) mod 65535 + 2) mod 65536"
    using unat_nth_id [of v j] by (simp add: unat_word_ariths)
  have "(v + Suc j) mod 65535 = (if (v + j) mod 65535 = 65534 then 0 else (v + j) mod 65535 + 1)"
    by (simp add: mod_Suc)
  moreover have "(v + j) mod 65535 < 65535" by simp
  ultimately show ?thesis
    using u unat_nth_id [of v "Suc j"] by (auto simp: word_unat_eq_iff)
qed

lemma allocate_loop_Some:
  "allocate_loop n next taken = Some (c, c') \<Longrightarrow> c \<noteq> 0 \<and> c \<notin> taken \<and> c' = c + 1"
  by (induction n arbitrary: "next") (auto simp: Let_def split: if_splits)

lemma allocate_loop_None:
  "allocate_loop n next taken = None \<Longrightarrow> (if next = 0 then 1 else next) = nth_id v i
    \<Longrightarrow> j < n \<Longrightarrow> nth_id v (i + j) \<in> taken"
proof (induction n arbitrary: "next" i j)
  case (Suc n)
  then have "nth_id v i \<in> taken" "allocate_loop n (nth_id v i + 1) taken = None"
    by (auto simp: Let_def split: if_splits)
  with Suc.IH [OF _ nth_id_next] Suc.prems show ?case by (cases j) auto
qed simp

lemma nth_id_surj:
  assumes "i \<noteq> (0 :: u16)" "v < 65535"
  obtains j where "j < 65535" "nth_id v j = i"
proof
  have i: "1 \<le> unat i" "unat i < 65536"
    using assms(1) unat_bound [of i] by (simp_all add: unat_gt_0 Suc_le_eq)
  have "(v + (unat i - 1 + 65535 - v) mod 65535) mod 65535 = (unat i - 1 + 65535) mod 65535"
    using assms(2) by (simp add: mod_add_right_eq)
  also have "\<dots> = unat i - 1" using i by (subst mod_add_self2) (rule mod_less, arith)
  finally have "(v + (unat i - 1 + 65535 - v) mod 65535) mod 65535 = unat i - 1" .
  then show "nth_id v ((unat i - 1 + 65535 - v) mod 65535) = i"
    using i unat_nth_id [of v "(unat i - 1 + 65535 - v) mod 65535"] by (simp add: word_unat_eq_iff)
qed simp

lemma allocate_loop_full:
  assumes "allocate_loop (2 ^ 16 + 1) next taken = None" "i \<noteq> 0"
  shows "i \<in> taken"
proof -
  let ?c = "if next = 0 then 1 else next" let ?v = "unat ?c - 1"
  have c: "1 \<le> unat ?c" "unat ?c < 65536"
    using unat_bound [of ?c] by (auto simp: Suc_le_eq unat_gt_0)
  then have v: "?v < 65535" by arith
  have "unat ?c = unat (nth_id ?v 0)" using c by (simp only: unat_nth_id) simp
  then have start: "?c = nth_id ?v 0" by (simp only: word_unat_eq_iff)
  obtain j where "j < 65535" "nth_id ?v j = i" using nth_id_surj [OF assms(2) v] .
  then show ?thesis using allocate_loop_None [OF assms(1) start, of j] by simp
qed

text \<open>
  C40. The search for a session id returns whenever an id is free, with a non-zero id that no
  session has; it fails to return only when all 65535 non-zero ids are in use.
\<close>

theorem allocate_id_total:
  "case allocate_id m of
     None \<Rightarrow> 65535 \<le> length (sessions m) \<and> (\<forall>i. i = 0 \<or> i \<in> fst ` set (sessions m))
   | Some (i, m') \<Rightarrow> i \<noteq> 0 \<and> i \<notin> fst ` set (sessions m) \<and> m' = m\<lparr>next_local_id := i + 1\<rparr>"
proof (cases "allocate_loop (2 ^ 16 + 1) (next_local_id m) (fst ` set (sessions m))")
  case None
  then have all: "i \<in> fst ` set (sessions m)" if "i \<noteq> 0" for i
    using that by (rule allocate_loop_full)
  have "card (UNIV - {0 :: u16}) \<le> card (fst ` set (sessions m))"
    by (rule card_mono) (auto intro: all)
  moreover have "card (fst ` set (sessions m)) \<le> length (sessions m)"
    using card_length [of "map fst (sessions m)"] by simp
  ultimately have "65535 \<le> length (sessions m)" by (simp add: card_Diff_subset card_word)
  with None all show ?thesis by (auto simp: allocate_id_def)
next
  case (Some a)
  obtain c c' where a: "a = (c, c')" by (cases a)
  with Some allocate_loop_Some [of "2 ^ 16 + 1" "next_local_id m" "fst ` set (sessions m)" c c'] show ?thesis
    by (simp add: allocate_id_def)
qed

lemma length_table: "distinct (map fst xs) \<Longrightarrow> length xs = card (dom (map_of xs))"
  by (metis distinct_card dom_map_of_conv_image_fst length_map set_map)

lemma length_update_mem: "k \<in> fst ` set xs \<Longrightarrow> length (AList.update k t xs) = length xs"
  by (induction xs) auto

lemma evict_facts:
  assumes "1 \<le> max_sessions m"
  shows "length (AList.update sid t (evict sid m)) \<le> max (length (sessions m)) (max_sessions m)"
proof (cases "sid \<in> fst ` set (sessions m)")
  case True
  then have "evict sid m = sessions m" by (simp add: evict_def)
  with True show ?thesis by (simp add: length_update_mem)
next
  case False
  have up: "length (AList.update sid t xs) \<le> Suc (length xs)" for xs
    by (induction xs) auto
  show ?thesis
  proof (cases "length (sessions m) \<ge> max_sessions m")
    case True
    with assms have ne: "sessions m \<noteq> []" by auto
    let ?v = "fst (arg_min_list victim_key (sessions m))"
    have "length (AList.delete ?v (sessions m)) < length (sessions m)"
      unfolding AList.delete_eq using arg_min_list_in [OF ne] by (rule length_filter_less) (simp add: case_prod_beta)
    then show ?thesis using up [of "AList.delete ?v (sessions m)"] False True ne by (simp add: evict_def)
  next
    case False
    then show ?thesis using up [of "sessions m"] by (simp add: evict_def)
  qed
qed

lemma length_evolves:
  assumes "manager_inv m" "table_evolves (\<lambda>_. False) (sessions m) (sessions m')"
  shows "length (sessions m') \<le> length (sessions m)"
proof -
  have "dom (map_of (sessions m')) \<subseteq> dom (map_of (sessions m))"
    using assms(2) by (fastforce simp: table_evolves_def)
  then have "card (dom (map_of (sessions m'))) \<le> card (dom (map_of (sessions m)))"
    by (intro card_mono finite_dom_map_of)
  with assms show ?thesis by (simp add: manager_inv_def table_evolves_def length_table)
qed

text \<open>The largest cap in force during a run: 256 at first, then what \<open>set_max_sessions\<close> set.\<close>

fun cap_of :: "mgr_op \<Rightarrow> nat" where
  "cap_of (MSetMax n) = max n 1"
| "cap_of op = 0"

lemma max_sessions_each [simp]: "max_sessions (snd (each_session f sids m)) = max_sessions m"
  by (induction sids arbitrary: m) (auto simp: Let_def case_prod_beta split: option.split)

lemma max_sessions_step:
  "max_sessions (mgr_step C fl op m) = (case op of MSetMax n \<Rightarrow> max n 1 | _ \<Rightarrow> max_sessions m)"
proof -
  have on: "max_sessions (snd (on_session sid f m)) = max_sessions m" for sid and f :: "(session, transport_error, 'a) comp"
    by (simp add: on_session_def split: option.split prod.split)
  have enc: "max_sessions (snd (encode_on C fl sid t opcode pid app r now m)) = max_sessions m"
    for sid t opcode pid app r now
    using on [of sid "\<lambda>s. send_on C fl (target_exchange m s t) opcode pid app r now s"]
    by (auto simp: encode_on_def andthen_def split: prod.splits sum.splits)
  have "max_sessions (snd (decode_inbound C p now m)) = max_sessions m" for p now
    using on by (auto simp: decode_inbound_def split: sum.split)
  moreover have "max_sessions (mgr_step C fl MAllocate m) = max_sessions m"
    by (auto simp: allocate_id_def split: option.split)
  ultimately show ?thesis
    using enc by (cases op) (simp_all add: register_pase_with_local_id_def insert_session_def register_case_with_mrp_def Let_def
        manager_handle_timeout_def end_exchange_def flush_session_acks_def flush_pending_acks_def
        remove_session_def set_transport_reliable_def set_max_sessions_def option.case_eq_if case_prod_beta
        del: each_session.simps split: option.split)
qed

lemma register_length:
  assumes "1 \<le> max_sessions m" "registers op k"
  shows "length (sessions (mgr_step C fl op m)) \<le> max (length (sessions m)) (max_sessions m)"
proof -
  have same: "length (AList.update j t xs) = length xs" if "map_of xs j = Some s" for j t s and xs :: "(u16 \<times> session) list"
    using that by (intro length_update_mem) (auto dest: map_of_SomeD intro: rev_image_eqI)
  have ins: "length (sessions (insert_session d sid keys role psid peer m)) \<le> max (length (sessions m)) (max_sessions m)"
    for d sid keys role psid peer
    using evict_facts [OF assms(1)] by (simp add: insert_session_def)
  show ?thesis
    using assms(2) ins
    by (cases op) (auto simp: register_pase_with_local_id_def register_case_with_mrp_def Let_def same split: option.split)
qed

lemma step_length:
  assumes "manager_inv m" "1 \<le> max_sessions m"
  shows "length (sessions (mgr_step C fl op m)) \<le> max (length (sessions m)) (max_sessions m)"
proof (cases "\<exists>k. registers op k")
  case True
  then show ?thesis using register_length [OF assms(2)] by blast
next
  case False
  then have "registers op = (\<lambda>_. False)" by auto
  then have "length (sessions (mgr_step C fl op m)) \<le> length (sessions m)"
    using length_evolves [OF assms(1)] mgr_step_evolves [of op m C fl] by simp
  then show ?thesis by simp
qed

lemma run_length:
  assumes "manager_inv m" "1 \<le> max_sessions m" "max_sessions m \<le> B" "length (sessions m) \<le> B"
    "\<forall>op\<in>set ops. cap_of op \<le> B"
  shows "length (sessions (fold (mgr_step C fl) ops m)) \<le> B"
  using assms
proof (induction ops arbitrary: m)
  case (Cons op ops)
  let ?m = "mgr_step C fl op m"
  have "manager_inv ?m" using Cons.prems(1) by (rule mgr_step_inv)
  moreover have "1 \<le> max_sessions ?m" "max_sessions ?m \<le> B"
    using Cons.prems(2,3,5) unfolding max_sessions_step by (cases op; auto)+
  moreover have "length (sessions ?m) \<le> B"
    using step_length [OF Cons.prems(1,2), of C fl op] Cons.prems(3,4) by simp
  ultimately show ?case using Cons.IH [of ?m] Cons.prems(5) by simp
qed simp

lemma cap_of_le: "op \<in> set ops \<Longrightarrow> cap_of op \<le> foldr (\<lambda>op. max (cap_of op)) ops b"
  by (induction ops) (auto intro: le_max_iff_disj [THEN iffD2])

lemma base_le: "b \<le> foldr (\<lambda>op. max (cap_of op)) ops (b :: nat)"
  by (induction ops) (auto intro: le_max_iff_disj [THEN iffD2])

text \<open>
  C29. Along every run of the manager from its creation: session ids are unique, each session
  carries the id it is stored under, every reliability state satisfies its invariant, and the
  table never holds more sessions than the largest cap that was in force.
\<close>

theorem manager_invariant:
  "manager_inv (fold (mgr_step C fl) ops (manager_new draw)) \<and>
   length (sessions (fold (mgr_step C fl) ops (manager_new draw))) \<le>
     foldr (\<lambda>op. max (cap_of op)) ops DEFAULT_MAX_SESSIONS"
proof -
  have new: "manager_inv (manager_new draw)" by (simp add: manager_inv_def manager_new_def)
  show ?thesis
  proof
    show "manager_inv (fold (mgr_step C fl) ops (manager_new draw))" using new by (rule manager.run_inv)
    show "length (sessions (fold (mgr_step C fl) ops (manager_new draw))) \<le>
        foldr (\<lambda>op. max (cap_of op)) ops DEFAULT_MAX_SESSIONS"
      using new by (rule run_length)
        (simp_all add: manager_new_def base_le cap_of_le, simp add: DEFAULT_MAX_SESSIONS_def)
  qed
qed

lemma seed_counter_range: "1 \<le> unat (seed_message_counter draw)" "unat (seed_message_counter draw) \<le> 2 ^ 28"
proof -
  have "1 \<le> unat (initial_counter_from_drbg bs) \<and> unat (initial_counter_from_drbg bs) \<le> 2 ^ 28" for bs
  proof -
    let ?x = "of_le bs AND 0x0FFFFFFF :: u32"
    have "?x \<le> 0x0FFFFFFF" by (rule word_and_le1)
    then have "unat ?x \<le> unat (0x0FFFFFFF :: u32)" by (simp only: word_le_nat_alt)
    then have le: "unat ?x \<le> 0x0FFFFFFF" by simp
    then have "unat (?x + 1) = unat ?x + 1" by (subst unat_word_ariths) simp
    with le show ?thesis by (simp add: initial_counter_from_drbg_def)
  qed
  then show "1 \<le> unat (seed_message_counter draw)" "unat (seed_message_counter draw) \<le> 2 ^ 28"
    by (cases draw; simp add: seed_message_counter_def)+
qed

lemma victim_minimal:
  assumes "sessions m \<noteq> []" "e \<in> set (sessions m)"
  shows "victim_key (arg_min_list victim_key (sessions m)) \<le> victim_key e"
  using f_arg_min_list_f [OF assms(1), of victim_key] assms(2) by simp

text \<open>
  C37. Registering a session stores it with an empty replay window and a counter between 1 and
  2^28, touches no session except at most one, and that one it removes only when the table is
  full and the id is new; the one removed is the oldest idle session, or the oldest of all when
  none is idle.
\<close>

theorem registration_evicts_idle_first:
  assumes "manager_inv m" "m' = register_pase_with_local_id d sid keys role psid peer m"
    "k \<noteq> sid" "map_of (sessions m) k = Some v" "map_of (sessions m') k = None"
  shows "max_sessions m \<le> length (sessions m) \<and> map_of (sessions m) sid = None \<and>
    (\<forall>j. j \<noteq> k \<and> j \<noteq> sid \<longrightarrow> map_of (sessions m') j = map_of (sessions m) j) \<and>
    (\<forall>j w. map_of (sessions m) j = Some w \<longrightarrow>
       (has_pending (sess_mrp v) \<longrightarrow> has_pending (sess_mrp w)) \<and>
       (has_pending (sess_mrp v) = has_pending (sess_mrp w) \<longrightarrow> created_seq v \<le> created_seq w)) \<and>
    (\<exists>s. map_of (sessions m') sid = Some s \<and> sess_window s = replay_window_new \<and>
       1 \<le> unat (outbound_counter s) \<and> unat (outbound_counter s) \<le> 2 ^ 28)"
proof -
  let ?x = "arg_min_list victim_key (sessions m)"
  obtain s where s: "sessions m' = AList.update sid s (evict sid m)" "sess_window s = replay_window_new"
    "1 \<le> unat (outbound_counter s)" "unat (outbound_counter s) \<le> 2 ^ 28"
    using assms(2) seed_counter_range [of "counter_draw d"]
    by (simp add: register_pase_with_local_id_def insert_session_def)
  then have full: "max_sessions m \<le> length (sessions m)" "sid \<notin> fst ` set (sessions m)" "sessions m \<noteq> []"
    and del: "sessions m' = AList.update sid s (AList.delete (fst ?x) (sessions m))"
    using assms(3-5) by (auto simp: evict_def update_conv split: if_splits)
  then have others: "map_of (sessions m') j = (if j = sid then Some s else if j = fst ?x then None else map_of (sessions m) j)" for j
    by (auto simp: update_conv delete_conv)
  then have k: "k = fst ?x" using assms(3-5) by (auto split: if_splits)
  have "?x \<in> set (sessions m)" using full(3) by (rule arg_min_list_in)
  then have "map_of (sessions m) k = Some (snd ?x)"
    unfolding k using assms(1) by (intro map_of_is_SomeI) (simp_all add: manager_inv_def)
  then have x: "snd ?x = v" using assms(4) by simp
  have "victim_key ?x \<le> victim_key (j, w)" if "map_of (sessions m) j = Some w" for j w
    using full(3) map_of_SomeD [OF that] by (rule victim_minimal)
  then have order: "(has_pending (sess_mrp v) \<longrightarrow> has_pending (sess_mrp w)) \<and>
      (has_pending (sess_mrp v) = has_pending (sess_mrp w) \<longrightarrow> created_seq v \<le> created_seq w)"
    if "map_of (sessions m) j = Some w" for j w
    using that by (fastforce simp: victim_key_def x less_eq_prod_def)
  have "map_of (sessions m) sid = None" using full(2) by (simp add: map_of_eq_None_iff)
  with full(1) order others k s(2-) show ?thesis by auto
qed

section \<open>From one manager to the other\<close>

text \<open>The two ends of one session.\<close>

definition paired :: "session \<Rightarrow> session \<Rightarrow> bool" where
  "paired a b \<longleftrightarrow> sess_keys b = sess_keys a \<and> sess_role b = peer_role (sess_role a) \<and>
     peer_nonce_node_id b = local_nonce_node_id a"

lemma sealed_opens:
  assumes L: "ccm_laws C stream" and p: "seal C a payload = Inr p" and ends: "paired a b"
  obtains rest where "decode_header p = Inr (session_header a, rest)"
    "decrypt_secured_with_header C p (session_header a) (length p - length rest)
      (receiving_key (sess_keys b) (sess_role b)) (peer_nonce_node_id b) = Inr payload"
proof -
  let ?h = "session_header a"
  obtain c where c: "ccm_encrypt C (sending_key (sess_keys a) (sess_role a)) (build_nonce ?h (local_nonce_node_id a))
      (encode_header ?h) payload = Some c" "p = encode_header ?h @ c"
    using p by (auto simp: seal_def encode_secured_with_cipher_def Let_def try_bind_eq_Inr ok_or_def
        split: if_splits option.splits)
  have "ccm_decrypt C (receiving_key (sess_keys b) (sess_role b)) (build_nonce ?h (peer_nonce_node_id b))
      (encode_header ?h) c = Some payload"
    using ccm_encryptD(1) [OF L c(1)] ends by (simp add: paired_def receiving_key_peer)
  with that [of c] c(2) session_header_wf [of a] show thesis
    by (simp add: decode_header_encode decrypt_secured_with_header_def)
qed

lemma receive_accepts:
  assumes "decrypt_secured_with_header C p h n (receiving_key (sess_keys b) (sess_role b)) (peer_nonce_node_id b) = Inr pl"
    and "window_fresh (sess_window b) (sh_counter h)" and "decode_protocol_header pl = Inr (ph, app)"
    and "inbound_result ph app = AppMessage i l pid opcode app"
    and "inbound_key ph \<in> set (exchanges (sess_mrp b)) \<or> length (exchanges (sess_mrp b)) < MAX_EXCHANGES_PER_SESSION"
  shows "receive_on C p h n now b = (Inr (InAppMessage (sh_session_id h) i l pid opcode app),
    b\<lparr>sess_window := record_counter (sess_window b) (sh_counter h),
      sess_mrp := (let s1 = reclaim_if_idle (inbound_key ph) (inbound_core ph (sh_counter h) now (sess_mrp b)) in
        if transport_reliable b then cancel_pending_outbound_ack (of_inbound i l) s1 else s1)\<rparr>)"
  using assms by (auto simp: receive_on_def Let_def check_and_record_fresh process_inbound_decoded)

lemma message_arrives:
  assumes L: "ccm_laws C stream" and a: "map_of (sessions A) sid = Some a" and b: "map_of (sessions B) (peer_id a) = Some b"
    and ends: "paired a b" and send: "encode_on C fl sid target opcode pid app rel now A = (Inr out, A')"
    and fresh: "window_fresh (sess_window b) (outbound_counter a)"
    and e: "e = target_exchange A a target"
    and room: "length (exchanges (sess_mrp b)) < MAX_EXCHANGES_PER_SESSION"
    and msg: "opcode \<noteq> STANDALONE_ACK \<or> app \<noteq> []"
  obtains ph b' where
    "decode_inbound C (eo_wire_bytes out) now' B =
      (Inr (InAppMessage (peer_id a) (ek_id e) (ek_local e) pid opcode app),
       B\<lparr>sessions := AList.update (peer_id a) b' (sessions B)\<rparr>)"
    "b' = b\<lparr>sess_window := record_counter (sess_window b) (outbound_counter a),
      sess_mrp := (let s1 = reclaim_if_idle (inbound_key ph) (inbound_core ph (outbound_counter a) now' (sess_mrp b)) in
        if transport_reliable b then cancel_pending_outbound_ack (inbound_key ph) s1 else s1)\<rparr>"
    "inbound_key ph = ExchangeKey (ek_id e) (\<not> ek_local e)"
    "flags_contain (ph_flags ph) FLAG_RELIABLE \<longleftrightarrow> rel \<and> \<not> transport_reliable a"
proof -
  let ?r = "rel \<and> \<not> transport_reliable a"
  let ?pl = "po_wire_payload (build_outbound (sess_mrp a) opcode pid e app ?r)"
  have sealed: "seal C a ?pl = Inr (eo_wire_bytes out)"
    using send by (auto simp: encode_on_def andthen_def on_session_def a send_on_def Let_def e split: if_splits sum.splits)
  obtain rest where hdr: "decode_header (eo_wire_bytes out) = Inr (session_header a, rest)"
    and dec: "decrypt_secured_with_header C (eo_wire_bytes out) (session_header a) (length (eo_wire_bytes out) - length rest)
      (receiving_key (sess_keys b) (sess_role b)) (peer_nonce_node_id b) = Inr ?pl"
    using L sealed ends by (rule sealed_opens)
  obtain ph where ph: "decode_protocol_header ?pl = Inr (ph, app)"
    and f: "ph_exchange_id ph = ek_id e" "ph_protocol_id ph = pid" "ph_opcode ph = opcode"
      "flags_contain (ph_flags ph) FLAG_INITIATOR \<longleftrightarrow> ek_local e" "flags_contain (ph_flags ph) FLAG_RELIABLE \<longleftrightarrow> ?r"
    by (rule build_outbound_decodes)
  have res: "inbound_result ph app = AppMessage (ek_id e) (ek_local e) pid opcode app"
    using msg f by (auto simp: inbound_result_def)
  have key: "inbound_key ph = ExchangeKey (ek_id e) (\<not> ek_local e)"
    using f by (simp add: inbound_key_def of_inbound_def)
  have h: "sh_session_id (session_header a) = peer_id a" "sh_counter (session_header a) = outbound_counter a"
    by (simp_all add: session_header_def)
  have "of_inbound (ek_id e) (ek_local e) = inbound_key ph" using f by (simp add: inbound_key_def)
  note got = receive_accepts [OF dec _ ph res, unfolded h this, OF fresh disjI2 [OF room], of now']
  from got that [OF _ refl key f(5)] show thesis
    by (simp add: decode_inbound_def hdr on_session_def h b)
qed

text \<open>
  C5. End to end: a message that one manager sends is delivered by the manager at the other end
  with its exchange, the sender's role in it, protocol, opcode and payload, when the two sessions
  are the ends of one session, the receiver has not seen the counter and its exchange table has
  room; and a reliable message on an unreliable transport leaves its acknowledgement owed, under
  the message's counter, on the receiver's side of that exchange.
\<close>

theorem message_delivered:
  assumes L: "ccm_laws C stream" and a: "map_of (sessions A) sid = Some a" and b: "map_of (sessions B) (peer_id a) = Some b"
    and ends: "paired a b" and send: "encode_on C fl sid target opcode pid app rel now A = (Inr out, A')"
    and fresh: "window_fresh (sess_window b) (outbound_counter a)"
    and e: "e = target_exchange A a target"
    and room: "length (exchanges (sess_mrp b)) < MAX_EXCHANGES_PER_SESSION"
    and msg: "opcode \<noteq> STANDALONE_ACK \<or> app \<noteq> []"
  shows "\<exists>b'. decode_inbound C (eo_wire_bytes out) now' B =
      (Inr (InAppMessage (peer_id a) (ek_id e) (ek_local e) pid opcode app),
       B\<lparr>sessions := AList.update (peer_id a) b' (sessions B)\<rparr>) \<and>
    (rel \<and> \<not> transport_reliable a \<and> \<not> transport_reliable b \<longrightarrow>
      map_option oa_counter (map_of (pending_outbound_acks (sess_mrp b')) (ExchangeKey (ek_id e) (\<not> ek_local e))) =
        Some (outbound_counter a))"
proof -
  obtain ph b' where "decode_inbound C (eo_wire_bytes out) now' B =
      (Inr (InAppMessage (peer_id a) (ek_id e) (ek_local e) pid opcode app),
       B\<lparr>sessions := AList.update (peer_id a) b' (sessions B)\<rparr>)"
    "b' = b\<lparr>sess_window := record_counter (sess_window b) (outbound_counter a),
      sess_mrp := (let s1 = reclaim_if_idle (inbound_key ph) (inbound_core ph (outbound_counter a) now' (sess_mrp b)) in
        if transport_reliable b then cancel_pending_outbound_ack (inbound_key ph) s1 else s1)\<rparr>"
    "inbound_key ph = ExchangeKey (ek_id e) (\<not> ek_local e)"
    "flags_contain (ph_flags ph) FLAG_RELIABLE \<longleftrightarrow> rel \<and> \<not> transport_reliable a"
    using message_arrives [OF assms] by blast
  then show ?thesis
    using inbound_core_owes [of ph "outbound_counter a" now' "sess_mrp b"] by (intro exI [of _ b']) simp
qed

section \<open>Delivery\<close>

definition delivered :: "transport_error + decode_inbound_output \<Rightarrow> bool" where
  "delivered r = (case r of Inr (InAppMessage _ _ _ _ _ _) \<Rightarrow> True | Inr (InAckOnly _ _ _) \<Rightarrow> True | _ \<Rightarrow> False)"

lemma delivered_Inl [simp]: "\<not> delivered (Inl e)"
  by (simp add: delivered_def)

lemma answer_not_delivered: "\<not> delivered (fst (answer_duplicate C sid c p err1 s))"
  by (auto simp: answer_duplicate_def delivered_def andthen_def split: sum.split prod.split)

lemma receive_on_window:
  assumes "delivered (fst (receive_on C p h n now s))"
  shows "window_fresh (sess_window s) (sh_counter h) \<and>
    sess_window (snd (receive_on C p h n now s)) = record_counter (sess_window s) (sh_counter h)"
proof -
  have "window_fresh (sess_window s) (sh_counter h)"
    using assms
    by (auto simp: receive_on_def Let_def check_and_record_fresh answer_not_delivered split: sum.splits if_splits)
  then show ?thesis
    using assms
    by (auto simp: receive_on_def Let_def check_and_record_fresh delivered_def
        split: sum.splits if_splits prod.splits inbound_outcome.splits)
qed

lemma delivered_blocks:
  assumes "delivered (fst (receive_on C p h n now s))" "session_inv s"
  shows "\<not> window_fresh (sess_window (snd (receive_on C p h n now s))) (sh_counter h)"
  using receive_on_window [OF assms(1)] assms(2) window.note_blocks by (auto simp: session_inv_def)

lemma decode_inbound_delivered:
  assumes "decode_header p = Inr (h, rest)" "delivered (fst (decode_inbound C p now m))"
  obtains s where "map_of (sessions m) (sh_session_id h) = Some s"
    "delivered (fst (receive_on C p h (length p - length rest) now s))"
    "map_of (sessions (snd (decode_inbound C p now m))) (sh_session_id h) =
      Some (snd (receive_on C p h (length p - length rest) now s))"
  using assms that
  by (auto simp: decode_inbound_def on_session_def delivered_def update_conv split: option.splits prod.splits)

lemma run_evolves:
  assumes "\<forall>op\<in>set ops. \<not> registers op k" "map_of (sessions (fold (mgr_step C fl) ops m)) k = Some t"
  shows "\<exists>s. map_of (sessions m) k = Some s \<and> evolves s t"
  using assms
proof (induction ops arbitrary: m)
  case (Cons op ops)
  then obtain u where "map_of (sessions (mgr_step C fl op m)) k = Some u" "evolves u t" by auto
  with Cons.prems(1) mgr_step_evolves [of op m C fl] show ?case
    unfolding table_evolves_def by (meson evolves_trans list.set_intros(1))
qed (auto intro: evolves_refl)

text \<open>
  C4. At most once: after a datagram was delivered, no sequence of manager operations that does
  not register the session anew lets a datagram for that session with the same message counter
  be delivered again.
\<close>

theorem delivered_at_most_once:
  assumes inv: "manager_inv m" and h: "decode_header p = Inr (h, rest)"
    and first: "delivered (fst (decode_inbound C p now m))"
    and ops: "\<forall>op\<in>set ops. \<not> registers op (sh_session_id h)"
    and q: "decode_header q = Inr (h', rest')" "sh_session_id h' = sh_session_id h" "sh_counter h' = sh_counter h"
  shows "\<not> delivered (fst (decode_inbound C q now' (fold (mgr_step C fl) ops (snd (decode_inbound C p now m)))))"
proof
  let ?m1 = "snd (decode_inbound C p now m)"
  assume again: "delivered (fst (decode_inbound C q now' (fold (mgr_step C fl) ops ?m1)))"
  obtain s where s: "map_of (sessions m) (sh_session_id h) = Some s"
    "delivered (fst (receive_on C p h (length p - length rest) now s))"
    "map_of (sessions ?m1) (sh_session_id h) = Some (snd (receive_on C p h (length p - length rest) now s))"
    using h first by (rule decode_inbound_delivered)
  let ?s1 = "snd (receive_on C p h (length p - length rest) now s)"
  have "session_inv s" using inv s(1) by (simp add: manager_inv_def)
  then have blocked: "\<not> window_fresh (sess_window ?s1) (sh_counter h)" and "session_inv ?s1"
    using delivered_blocks [OF s(2)] receive_on_evolves [of s C p h "length p - length rest" now]
    by (simp_all add: evolves_def)
  obtain t where t: "map_of (sessions (fold (mgr_step C fl) ops ?m1)) (sh_session_id h') = Some t"
    "delivered (fst (receive_on C q h' (length q - length rest') now' t))"
    using q(1) again by (rule decode_inbound_delivered)
  then have "evolves ?s1 t" using run_evolves [OF ops, of C fl ?m1 t] s(3) q(2) by simp
  moreover have "window_fresh (sess_window t) (sh_counter h)"
    using receive_on_window [OF t(2)] q(3) by simp
  ultimately show False using blocked \<open>session_inv ?s1\<close> by (simp add: evolves_def)
qed

section \<open>Two managers\<close>

definition sample_peer :: session_manager where
  "sample_peer = register_pase_with_local_id \<lparr>counter_draw = None, jitter_draw = None, jitter_fallback = 1\<rparr>
     9 \<lparr>i2r_key = [1], r2i_key = [2], attestation_key = [3]\<rparr> Responder 1 \<lparr>hint_node_id = None, hint_fabric_id = None\<rparr>
     (manager_new None)"

lemma sample_inv: "manager_inv sample_manager" "manager_inv sample_peer"
proof -
  have "manager_inv (manager_new None)" by (simp add: manager_inv_def manager_new_def)
  then show "manager_inv sample_manager" "manager_inv sample_peer"
    by (simp_all add: sample_manager_def sample_peer_def register_pase_with_local_id_def insert_session_inv)
qed

lemma sample_peer_session:
  obtains s where "map_of (sessions sample_peer) 9 = Some s" "sess_window s = replay_window_new"
    "sess_keys s = \<lparr>i2r_key = [1], r2i_key = [2], attestation_key = [3]\<rparr>" "sess_role s = Responder"
    "exchanges (sess_mrp s) = []" "peer_nonce_node_id s = 0"
  using that
  by (simp add: sample_peer_def register_pase_with_local_id_def insert_session_def manager_new_def evict_def
      DEFAULT_MAX_SESSIONS_def mrp_new_def with_jitter_seed_def mrp_bare_def)

text \<open>The facts that delivery needs, for a message from \<open>sample_manager\<close> to \<open>sample_peer\<close>.\<close>

lemma sample_send:
  obtains a b out A' where "map_of (sessions sample_manager) 1 = Some a" "peer_id a = 9"
    "map_of (sessions sample_peer) (peer_id a) = Some b" "paired a b"
    "encode_on sample_ccm sample_float_ops 1 NewExchange 2 PID_INTERACTION_MODEL [5] True 0 sample_manager = (Inr out, A')"
    "window_fresh (sess_window b) (outbound_counter a)"
    "ExchangeKey 1 True = target_exchange sample_manager a NewExchange"
    "length (exchanges (sess_mrp b)) < MAX_EXCHANGES_PER_SESSION"
proof -
  obtain a where a: "map_of (sessions sample_manager) 1 = Some a" "outbound_counter a = 7" "peer_id a = 9"
    "sess_keys a = \<lparr>i2r_key = [1], r2i_key = [2], attestation_key = [3]\<rparr>" "sess_role a = Initiator"
    "local_nonce_node_id a = 0"
    by (rule sample_manager_session)
  have "\<not> length (po_wire_payload (build_outbound (sess_mrp a) 2 PID_INTERACTION_MODEL e [5] r)) > MAX_PAYLOAD_LEN" for e r
    by (simp add: build_outbound_def Let_def encode_protocol_header_def MAX_PAYLOAD_LEN_def
        PID_INTERACTION_MODEL_def split: option.split)
  then obtain out A' where send: "encode_on sample_ccm sample_float_ops 1 NewExchange 2 PID_INTERACTION_MODEL [5] True 0
      sample_manager = (Inr out, A')"
    using a(2) by (simp add: encode_on_def andthen_def on_session_def a(1) send_on_def Let_def
        seal_total [OF sample_ccm_laws] U32_MAX_def)
  have target: "ExchangeKey 1 True = target_exchange sample_manager a NewExchange"
    by (simp add: target_exchange_def sample_manager_def register_pase_with_local_id_def insert_session_def
        manager_new_def seed_exchange_id_def)
  obtain b where b: "map_of (sessions sample_peer) 9 = Some b" "sess_window b = replay_window_new"
    "sess_keys b = \<lparr>i2r_key = [1], r2i_key = [2], attestation_key = [3]\<rparr>" "sess_role b = Responder"
    "exchanges (sess_mrp b) = []" "peer_nonce_node_id b = 0"
    by (rule sample_peer_session)
  show thesis
  proof (rule that [OF a(1,3) _ _ send _ target])
    show "window_fresh (sess_window b) (outbound_counter a)"
      by (simp add: a b window_fresh_def classify_def replay_window_new_def)
  qed (simp_all add: a b paired_def peer_role_def MAX_EXCHANGES_PER_SESSION_def)
qed

theorem message_delivered_witness:
  "\<exists>out A' B'. encode_on sample_ccm sample_float_ops 1 NewExchange 2 PID_INTERACTION_MODEL [5] True 0 sample_manager
      = (Inr out, A') \<and>
    decode_inbound sample_ccm (eo_wire_bytes out) 40 sample_peer =
      (Inr (InAppMessage 9 1 True PID_INTERACTION_MODEL 2 [5]), B')"
proof (rule sample_send)
  fix a b out A'
  assume a: "map_of (sessions sample_manager) 1 = Some a" "peer_id a = 9"
    and b: "map_of (sessions sample_peer) (peer_id a) = Some b" "paired a b"
    and send: "encode_on sample_ccm sample_float_ops 1 NewExchange 2 PID_INTERACTION_MODEL [5] True 0 sample_manager = (Inr out, A')"
    and room: "window_fresh (sess_window b) (outbound_counter a)"
      "ExchangeKey 1 True = target_exchange sample_manager a NewExchange"
      "length (exchanges (sess_mrp b)) < MAX_EXCHANGES_PER_SESSION"
  have "(2 :: u8) \<noteq> STANDALONE_ACK \<or> [5 :: u8] \<noteq> []" by simp
  from message_delivered [OF sample_ccm_laws a(1) b send room this, of 40] send a(2) show ?thesis by auto
qed

theorem delivered_at_most_once_witness:
  "\<exists>p. delivered (fst (decode_inbound sample_ccm p 40 sample_peer)) \<and>
    \<not> delivered (fst (decode_inbound sample_ccm p 900 (fold (mgr_step sample_ccm sample_float_ops)
      [MTimeout 300, MFlushAll] (snd (decode_inbound sample_ccm p 40 sample_peer)))))"
proof (rule sample_send)
  fix a b out A'
  assume a: "map_of (sessions sample_manager) 1 = Some a"
    and b: "map_of (sessions sample_peer) (peer_id a) = Some b" "paired a b"
    and send: "encode_on sample_ccm sample_float_ops 1 NewExchange 2 PID_INTERACTION_MODEL [5] True 0 sample_manager = (Inr out, A')"
    and room: "window_fresh (sess_window b) (outbound_counter a)"
      "ExchangeKey 1 True = target_exchange sample_manager a NewExchange"
      "length (exchanges (sess_mrp b)) < MAX_EXCHANGES_PER_SESSION"
  have msg: "(2 :: u8) \<noteq> STANDALONE_ACK \<or> [5 :: u8] \<noteq> []" by simp
  have d: "delivered (fst (decode_inbound sample_ccm (eo_wire_bytes out) 40 sample_peer))"
    by (rule message_arrives [OF sample_ccm_laws a(1) b send room msg, where now' = 40]) (simp add: delivered_def)
  then obtain h rest where h: "decode_header (eo_wire_bytes out) = Inr (h, rest)"
    by (cases "decode_header (eo_wire_bytes out)") (auto simp: decode_inbound_def)
  have "\<forall>op\<in>set [MTimeout 300, MFlushAll]. \<not> registers op (sh_session_id h)" by simp
  from delivered_at_most_once [OF sample_inv(2) h d this h refl refl] d show ?thesis by blast
qed

theorem registration_evicts_idle_first_witness:
  "\<exists>v s m'. map_of (sessions (set_max_sessions 1 sample_manager)) 1 = Some v \<and> \<not> has_pending (sess_mrp v) \<and>
   m' = register_pase_with_local_id \<lparr>counter_draw = None, jitter_draw = None, jitter_fallback = 1\<rparr> 2
     \<lparr>i2r_key = [1], r2i_key = [2], attestation_key = [3]\<rparr> Initiator 7 \<lparr>hint_node_id = None, hint_fabric_id = None\<rparr>
     (set_max_sessions 1 sample_manager) \<and>
   map_of (sessions m') 1 = None \<and> map_of (sessions m') 2 = Some s \<and> sess_window s = replay_window_new"
proof -
  let ?m = "set_max_sessions 1 sample_manager"
  let ?m' = "register_pase_with_local_id \<lparr>counter_draw = None, jitter_draw = None, jitter_fallback = 1\<rparr> 2
     \<lparr>i2r_key = [1], r2i_key = [2], attestation_key = [3]\<rparr> Initiator 7 \<lparr>hint_node_id = None, hint_fabric_id = None\<rparr> ?m"
  have inv: "manager_inv ?m" using mgr_step_inv [OF sample_inv(1), of sample_ccm sample_float_ops "MSetMax 1"] by simp
  obtain v where v: "sessions ?m = [(1, v)]" "\<not> has_pending (sess_mrp v)"
    by (simp add: set_max_sessions_def sample_manager_def register_pase_with_local_id_def insert_session_def
        manager_new_def evict_def DEFAULT_MAX_SESSIONS_def has_pending_def mrp_new_def with_jitter_seed_def mrp_bare_def)
  have gone: "map_of (sessions ?m') 1 = None"
    using v(1) by (simp add: register_pase_with_local_id_def insert_session_def evict_def set_max_sessions_def)
  have "map_of (sessions ?m) 1 = Some v" unfolding v by simp
  from registration_evicts_idle_first [OF inv refl _ this gone] this v(2) gone show ?thesis by auto
qed

text \<open>
  On a reliable transport a message with the reliability flag leaves its exchange in the table
  with no work attached: cancelling the acknowledgement does not reclaim the entry.
\<close>

lemma reliable_transport_keeps_idle_exchange:
  assumes "flags_contain (ph_flags h) FLAG_RELIABLE" "\<not> flags_contain (ph_flags h) FLAG_ACK"
    and "s' = cancel_pending_outbound_ack (inbound_key h)
      (reclaim_if_idle (inbound_key h) (inbound_core h c now (with_jitter_seed conf seed)))"
  shows "inbound_key h \<in> set (exchanges s') \<and> exchange_is_idle s' (inbound_key h)"
  using assms
  by (simp add: inbound_core_def Let_def remember_reliable_def buffer_ack_def with_jitter_seed_def mrp_bare_def
      reclaim_if_idle_def exchange_is_idle_def cancel_pending_outbound_ack_def)

end
