(* ===== verification/BDX.thy ===== *)
theory BDX
  imports Protocol_Header
begin

text \<open>
  Bulk data exchange, \<open>crates/matter-bdx\<close>: the message bodies (\<open>messages.rs\<close>,
  \<open>message_type.rs\<close>) and the sender that serves an image to a pulling receiver
  (\<open>sender.rs\<close>).
\<close>

section \<open>Message types and status codes\<close>

datatype message_type = MtSendInit | MtSendAccept | MtReceiveInit | MtReceiveAccept | MtBlockQuery
  | MtBlock | MtBlockEof | MtBlockAck | MtBlockAckEof

fun mt_to_u8 :: "message_type \<Rightarrow> u8" where
  "mt_to_u8 MtSendInit = 0x01"
| "mt_to_u8 MtSendAccept = 0x02"
| "mt_to_u8 MtReceiveInit = 0x04"
| "mt_to_u8 MtReceiveAccept = 0x05"
| "mt_to_u8 MtBlockQuery = 0x10"
| "mt_to_u8 MtBlock = 0x11"
| "mt_to_u8 MtBlockEof = 0x12"
| "mt_to_u8 MtBlockAck = 0x13"
| "mt_to_u8 MtBlockAckEof = 0x14"

definition mt_from_u8 :: "u8 \<Rightarrow> message_type option" where
  "mt_from_u8 v =
     (if v = 0x01 then Some MtSendInit else if v = 0x02 then Some MtSendAccept
      else if v = 0x04 then Some MtReceiveInit else if v = 0x05 then Some MtReceiveAccept
      else if v = 0x10 then Some MtBlockQuery else if v = 0x11 then Some MtBlock
      else if v = 0x12 then Some MtBlockEof else if v = 0x13 then Some MtBlockAck
      else if v = 0x14 then Some MtBlockAckEof else None)"

datatype bdx_status_code = LengthTooLarge | BadMessageContents | BadBlockCounter | UnexpectedMessage
  | TransferMethodNotSupported | UnknownStatus

fun status_to_u16 :: "bdx_status_code \<Rightarrow> u16" where
  "status_to_u16 LengthTooLarge = 0x0012"
| "status_to_u16 BadMessageContents = 0x0016"
| "status_to_u16 BadBlockCounter = 0x0017"
| "status_to_u16 UnexpectedMessage = 0x0018"
| "status_to_u16 TransferMethodNotSupported = 0x0050"
| "status_to_u16 UnknownStatus = 0x005F"

datatype bdx_error = BdxTruncated | UnknownMessageType u8

section \<open>Message bodies\<close>

definition BDX_VERSION :: u8 where "BDX_VERSION = 0"
definition VERSION_MASK :: u8 where "VERSION_MASK = 0x0F"

definition SENDER_DRIVE :: u8 where "SENDER_DRIVE = 0x10"
definition RECEIVER_DRIVE :: u8 where "RECEIVER_DRIVE = 0x20"

definition DEF_LEN :: u8 where "DEF_LEN = 0x01"
definition START_OFFSET :: u8 where "START_OFFSET = 0x02"
definition WIDE_RANGE :: u8 where "WIDE_RANGE = 0x10"

text \<open>
  The cursor. Its positions stay below the body's length plus 65535, so the checked addition of
  \<open>take\<close> never overflows.
\<close>

record bdx_reader =
  rd_buf :: bytes
  rd_pos :: nat

definition bdx_reader_new :: "bytes \<Rightarrow> bdx_reader" where
  "bdx_reader_new buf = \<lparr>rd_buf = buf, rd_pos = 0\<rparr>"

definition bdx_take :: "nat \<Rightarrow> (bdx_reader, bdx_error, bytes) comp" where
  "bdx_take n r =
     (let end_pos = rd_pos r + n in
      if end_pos \<le> length (rd_buf r) then (Inr (slice_at (rd_pos r) n (rd_buf r)), r\<lparr>rd_pos := end_pos\<rparr>)
      else (Inl BdxTruncated, r))"

definition bdx_u8 :: "(bdx_reader, bdx_error, u8) comp" where
  "bdx_u8 r =
     (if rd_pos r < length (rd_buf r) then (Inr (rd_buf r ! rd_pos r), r\<lparr>rd_pos := rd_pos r + 1\<rparr>)
      else (Inl BdxTruncated, r))"

definition bdx_u16_le :: "(bdx_reader, bdx_error, u16) comp" where
  "bdx_u16_le = andthen (bdx_take 2) (\<lambda>s. ok (of_le s))"

definition bdx_u32_le :: "(bdx_reader, bdx_error, u32) comp" where
  "bdx_u32_le = andthen (bdx_take 4) (\<lambda>s. ok (of_le s))"

definition bdx_u64_le :: "(bdx_reader, bdx_error, u64) comp" where
  "bdx_u64_le = andthen (bdx_take 8) (\<lambda>s. ok (of_le s))"

definition bdx_rest :: "(bdx_reader, bdx_error, bytes) comp" where
  "bdx_rest r = (Inr (drop (rd_pos r) (rd_buf r)), r\<lparr>rd_pos := length (rd_buf r)\<rparr>)"

definition put_range_value :: "u64 \<Rightarrow> bool \<Rightarrow> bytes" where
  "put_range_value value wide = (let le = to_le 8 value in if wide then le else take 4 le)"

text \<open>The optional range value of both decoders: wide or narrow if its flag is set, else 0.\<close>

definition range_value :: "u8 \<Rightarrow> u8 \<Rightarrow> (bdx_reader, bdx_error, u64) comp" where
  "range_value rng flag =
     (if flags_contain rng flag
      then if flags_contain rng WIDE_RANGE then bdx_u64_le else andthen bdx_u32_le (\<lambda>v. ok (ucast v))
      else ok 0)"

definition set_flag :: "u8 \<Rightarrow> bool \<Rightarrow> u8 \<Rightarrow> u8" where
  "set_flag flag b flags = (if b then flags OR flag else flags AND NOT flag)"

definition range_control :: "u64 \<Rightarrow> u64 \<Rightarrow> bool \<Rightarrow> u8" where
  "range_control start_offset len wide =
     set_flag WIDE_RANGE wide (set_flag START_OFFSET (start_offset > 0) (set_flag DEF_LEN (len > 0) 0))"

record transfer_init =
  ti_control :: u8
  ti_version :: u8
  ti_max_block_size :: u16
  ti_start_offset :: u64
  ti_max_length :: u64
  ti_file_designator :: bytes
  ti_metadata :: bytes

definition encode_transfer_init :: "transfer_init \<Rightarrow> bytes" where
  "encode_transfer_init t =
     (let wide = ti_start_offset t > 0xFFFFFFFF \<or> ti_max_length t > 0xFFFFFFFF;
          rng = range_control (ti_start_offset t) (ti_max_length t) wide;
          fd_len = (if length (ti_file_designator t) < 2 ^ 16
            then word_of_nat (length (ti_file_designator t)) else - 1 :: u16)
      in [(ti_version t AND VERSION_MASK) OR ti_control t, rng] @ to_le 2 (ti_max_block_size t)
         @ (if ti_start_offset t > 0 then put_range_value (ti_start_offset t) wide else [])
         @ (if ti_max_length t > 0 then put_range_value (ti_max_length t) wide else [])
         @ to_le 2 fd_len @ ti_file_designator t @ ti_metadata t)"

definition decode_transfer_init :: "bytes \<Rightarrow> bdx_error + transfer_init" where
  "decode_transfer_init body = fst (
     (andthen bdx_u8 (\<lambda>ctl. andthen bdx_u8 (\<lambda>rng. andthen bdx_u16_le (\<lambda>max_block_size.
      andthen (range_value rng START_OFFSET) (\<lambda>start_offset.
      andthen (range_value rng DEF_LEN) (\<lambda>max_length.
      andthen bdx_u16_le (\<lambda>fd_len.
      andthen (bdx_take (unat fd_len)) (\<lambda>file_designator.
      andthen bdx_rest (\<lambda>metadata.
      ok \<lparr>ti_control = ctl AND NOT VERSION_MASK, ti_version = ctl AND VERSION_MASK,
          ti_max_block_size = max_block_size, ti_start_offset = start_offset, ti_max_length = max_length,
          ti_file_designator = file_designator, ti_metadata = metadata\<rparr>))))))))) (bdx_reader_new body))"

record receive_accept =
  ra_control :: u8
  ra_version :: u8
  ra_max_block_size :: u16
  ra_start_offset :: u64
  ra_length :: u64
  ra_metadata :: bytes

definition encode_receive_accept :: "receive_accept \<Rightarrow> bytes" where
  "encode_receive_accept t =
     (let wide = ra_start_offset t > 0xFFFFFFFF \<or> ra_length t > 0xFFFFFFFF;
          rng = range_control (ra_start_offset t) (ra_length t) wide
      in [(ra_version t AND VERSION_MASK) OR ra_control t, rng] @ to_le 2 (ra_max_block_size t)
         @ (if ra_start_offset t > 0 then put_range_value (ra_start_offset t) wide else [])
         @ (if ra_length t > 0 then put_range_value (ra_length t) wide else [])
         @ ra_metadata t)"

definition decode_receive_accept :: "bytes \<Rightarrow> bdx_error + receive_accept" where
  "decode_receive_accept body = fst (
     (andthen bdx_u8 (\<lambda>ctl. andthen bdx_u8 (\<lambda>rng. andthen bdx_u16_le (\<lambda>max_block_size.
      andthen (range_value rng START_OFFSET) (\<lambda>start_offset.
      andthen (range_value rng DEF_LEN) (\<lambda>len.
      andthen bdx_rest (\<lambda>metadata.
      ok \<lparr>ra_control = ctl AND NOT VERSION_MASK, ra_version = ctl AND VERSION_MASK,
          ra_max_block_size = max_block_size, ra_start_offset = start_offset, ra_length = len,
          ra_metadata = metadata\<rparr>))))))) (bdx_reader_new body))"

record send_accept =
  sa_control :: u8
  sa_version :: u8
  sa_max_block_size :: u16
  sa_metadata :: bytes

definition encode_send_accept :: "send_accept \<Rightarrow> bytes" where
  "encode_send_accept t =
     [(sa_version t AND VERSION_MASK) OR sa_control t] @ to_le 2 (sa_max_block_size t) @ sa_metadata t"

definition decode_send_accept :: "bytes \<Rightarrow> bdx_error + send_accept" where
  "decode_send_accept body = fst (
     (andthen bdx_u8 (\<lambda>ctl. andthen bdx_u16_le (\<lambda>max_block_size. andthen bdx_rest (\<lambda>metadata.
      ok \<lparr>sa_control = ctl AND NOT VERSION_MASK, sa_version = ctl AND VERSION_MASK,
          sa_max_block_size = max_block_size, sa_metadata = metadata\<rparr>)))) (bdx_reader_new body))"

record counter_message =
  cm_block_counter :: u32

definition encode_counter :: "counter_message \<Rightarrow> bytes" where
  "encode_counter c = to_le 4 (cm_block_counter c)"

definition decode_counter :: "bytes \<Rightarrow> bdx_error + counter_message" where
  "decode_counter body = fst ((andthen bdx_u32_le (\<lambda>c. ok \<lparr>cm_block_counter = c\<rparr>)) (bdx_reader_new body))"

record data_block =
  db_block_counter :: u32
  db_data :: bytes

definition encode_data_block :: "data_block \<Rightarrow> bytes" where
  "encode_data_block b = to_le 4 (db_block_counter b) @ db_data b"

definition decode_data_block :: "bytes \<Rightarrow> bdx_error + data_block" where
  "decode_data_block body = fst (
     (andthen bdx_u32_le (\<lambda>c. andthen bdx_rest (\<lambda>d. ok \<lparr>db_block_counter = c, db_data = d\<rparr>)))
     (bdx_reader_new body))"

datatype bdx_message =
    ReceiveInitMsg transfer_init | SendInitMsg transfer_init | ReceiveAcceptMsg receive_accept
  | SendAcceptMsg send_accept | BlockQueryMsg counter_message | BlockMsg data_block | BlockEofMsg data_block
  | BlockAckMsg counter_message | BlockAckEofMsg counter_message

fun bdx_decode :: "message_type \<Rightarrow> bytes \<Rightarrow> bdx_error + bdx_message" where
  "bdx_decode MtReceiveInit body = try_bind (decode_transfer_init body) (\<lambda>t. Inr (ReceiveInitMsg t))"
| "bdx_decode MtSendInit body = try_bind (decode_transfer_init body) (\<lambda>t. Inr (SendInitMsg t))"
| "bdx_decode MtReceiveAccept body = try_bind (decode_receive_accept body) (\<lambda>t. Inr (ReceiveAcceptMsg t))"
| "bdx_decode MtSendAccept body = try_bind (decode_send_accept body) (\<lambda>t. Inr (SendAcceptMsg t))"
| "bdx_decode MtBlockQuery body = try_bind (decode_counter body) (\<lambda>t. Inr (BlockQueryMsg t))"
| "bdx_decode MtBlock body = try_bind (decode_data_block body) (\<lambda>t. Inr (BlockMsg t))"
| "bdx_decode MtBlockEof body = try_bind (decode_data_block body) (\<lambda>t. Inr (BlockEofMsg t))"
| "bdx_decode MtBlockAck body = try_bind (decode_counter body) (\<lambda>t. Inr (BlockAckMsg t))"
| "bdx_decode MtBlockAckEof body = try_bind (decode_counter body) (\<lambda>t. Inr (BlockAckEofMsg t))"

section \<open>The sender\<close>

record outgoing_message =
  om_type :: message_type
  om_payload :: bytes

datatype sender_outcome = SendOut outgoing_message | SenderDone | SenderAbort bdx_status_code

datatype sender_state = AwaitingInit | Sending | AwaitingEofAck | Complete | Aborted

record block_sender =
  bs_image :: bytes
  bs_max_block_size :: u16
  bs_offset :: nat
  bs_next_block_counter :: u32
  bs_last_block_counter :: u32
  bs_state :: sender_state

definition from_shared :: "bytes \<Rightarrow> u16 \<Rightarrow> block_sender" where
  "from_shared img max_block_size =
     \<lparr>bs_image = img, bs_max_block_size = max_block_size, bs_offset = 0, bs_next_block_counter = 0,
      bs_last_block_counter = 0, bs_state = AwaitingInit\<rparr>"

definition is_complete :: "block_sender \<Rightarrow> bool" where
  "is_complete s \<longleftrightarrow> bs_state s = Complete"

definition bdx_abort :: "bdx_status_code \<Rightarrow> block_sender \<Rightarrow> sender_outcome \<times> block_sender" where
  "bdx_abort code s = (SenderAbort code, s\<lparr>bs_state := Aborted\<rparr>)"

definition accept_receive_init :: "transfer_init \<Rightarrow> block_sender \<Rightarrow> sender_outcome \<times> block_sender" where
  "accept_receive_init init s =
     (if bs_state s \<noteq> AwaitingInit then bdx_abort UnexpectedMessage s
      else if \<not> flags_contain (ti_control init) RECEIVER_DRIVE then bdx_abort TransferMethodNotSupported s
      else
        let negotiated = min (ti_max_block_size init) (bs_max_block_size s);
            len = (if length (bs_image s) < 2 ^ 64 then word_of_nat (length (bs_image s)) else - 1);
            accept = \<lparr>ra_control = RECEIVER_DRIVE, ra_version = BDX_VERSION, ra_max_block_size = negotiated,
              ra_start_offset = 0, ra_length = len, ra_metadata = []\<rparr>
        in (SendOut \<lparr>om_type = MtReceiveAccept, om_payload = encode_receive_accept accept\<rparr>,
            s\<lparr>bs_max_block_size := negotiated, bs_state := Sending\<rparr>))"

definition handle_block_query :: "counter_message \<Rightarrow> block_sender \<Rightarrow> sender_outcome \<times> block_sender" where
  "handle_block_query query s =
     (if bs_state s \<noteq> Sending then bdx_abort UnexpectedMessage s
      else if cm_block_counter query \<noteq> bs_next_block_counter s then bdx_abort BadBlockCounter s
      else
        let end_pos = min (bs_offset s + unat (bs_max_block_size s)) (length (bs_image s));
            is_eof = (end_pos = length (bs_image s));
            counter = bs_next_block_counter s;
            payload = to_le 4 counter @ slice_at (bs_offset s) (end_pos - bs_offset s) (bs_image s)
        in (SendOut \<lparr>om_type = (if is_eof then MtBlockEof else MtBlock), om_payload = payload\<rparr>,
            s\<lparr>bs_offset := end_pos, bs_last_block_counter := counter,
              bs_next_block_counter := bs_next_block_counter s + 1,
              bs_state := (if is_eof then AwaitingEofAck else bs_state s)\<rparr>))"

definition handle_block_ack_eof :: "counter_message \<Rightarrow> block_sender \<Rightarrow> sender_outcome \<times> block_sender" where
  "handle_block_ack_eof ack s =
     (if bs_state s \<noteq> AwaitingEofAck then bdx_abort UnexpectedMessage s
      else if cm_block_counter ack \<noteq> bs_last_block_counter s then bdx_abort BadBlockCounter s
      else (SenderDone, s\<lparr>bs_state := Complete\<rparr>))"

end
