(* ===== verification/BDX_Transfer.thy ===== *)
theory BDX_Transfer
  imports BDX
begin

text \<open>
  Bulk data exchange: the message bodies round-trip, whatever the receiver sends the sender
  serves consecutive blocks of its image, and a receiver that pulls gets the whole image.
\<close>

section \<open>Reading what was written\<close>

text \<open>A cursor at the start of \<open>xs\<close> in a body.\<close>

definition rd_at :: "bytes \<Rightarrow> bytes \<Rightarrow> bdx_reader" where
  "rd_at pre xs = \<lparr>rd_buf = pre @ xs, rd_pos = length pre\<rparr>"

lemma reader_new_at: "bdx_reader_new xs = rd_at [] xs"
  by (simp add: bdx_reader_new_def rd_at_def)

lemma take_at: "length xs = n \<Longrightarrow> bdx_take n (rd_at pre (xs @ ys)) = (Inr xs, rd_at (pre @ xs) ys)"
  by (auto simp: bdx_take_def rd_at_def slice_skip slice_here)

lemma read_at:
  "bdx_u8 (rd_at pre (x # ys)) = (Inr x, rd_at (pre @ [x]) ys)"
  "bdx_u16_le (rd_at pre (to_le 2 v @ ys)) = (Inr v, rd_at (pre @ to_le 2 v) ys)"
  "bdx_u32_le (rd_at pre (to_le 4 w @ ys)) = (Inr w, rd_at (pre @ to_le 4 w) ys)"
  "bdx_u64_le (rd_at pre (to_le 8 x' @ ys)) = (Inr x', rd_at (pre @ to_le 8 x') ys)"
  by (simp_all add: bdx_u8_def rd_at_def [of _ "_ # _"] bdx_u16_le_def bdx_u32_le_def bdx_u64_le_def andthen_def take_at)
    (simp add: rd_at_def)

lemma rest_at: "bdx_rest (rd_at pre ys) = (Inr ys, rd_at (pre @ ys) [])"
  by (simp add: bdx_rest_def rd_at_def)

lemma range_flags:
  "flags_contain (range_control off len wide) START_OFFSET \<longleftrightarrow> off > 0"
  "flags_contain (range_control off len wide) DEF_LEN \<longleftrightarrow> len > 0"
  "flags_contain (range_control off len wide) WIDE_RANGE \<longleftrightarrow> wide"
  by (cases "off > 0"; cases "len > 0"; cases wide; 
      simp add: range_control_def set_flag_def flags_contain_def START_OFFSET_def DEF_LEN_def WIDE_RANGE_def)+

lemma take_nat_le: "n \<le> m \<Longrightarrow> take n (nat_le m x) = nat_le n x"
proof (induction n arbitrary: m x)
  case (Suc n)
  then show ?case by (cases m) auto
qed simp

lemma narrow_value:
  assumes "\<not> v > (0xFFFFFFFF :: u64)"
  shows "(ucast (of_le (take 4 (to_le 8 v)) :: u32) :: u64) = v"
proof -
  have "v \<le> 0xFFFFFFFF" using assms by simp
  then have "unat v \<le> unat (0xFFFFFFFF :: u64)" by (simp only: word_le_nat_alt)
  then have "unat v mod 256 ^ 4 = unat v" by simp
  then have "unat (of_le (take 4 (to_le 8 v)) :: u32) = unat v"
    by (subst unat_of_le) (simp_all add: to_le_def take_nat_le le_nat_nat_le)
  then have "unat (ucast (of_le (take 4 (to_le 8 v)) :: u32) :: u64) = unat v"
    by (simp add: unat_ucast_up)
  then show ?thesis by (simp add: word_unat_eq_iff)
qed

text \<open>Reading back an optional range value.\<close>

lemma range_value_at:
  assumes "flags_contain rng flag \<longleftrightarrow> v > 0" "flags_contain rng WIDE_RANGE \<longleftrightarrow> wide"
    and "v > 0xFFFFFFFF \<Longrightarrow> wide" "xs = (if v > 0 then put_range_value v wide else [])"
  shows "range_value rng flag (rd_at pre (xs @ ys)) = (Inr v, rd_at (pre @ xs) ys)"
proof (cases "v > 0")
  case False
  then have "v = 0" by (simp add: word_gt_0)
  with assms False show ?thesis by (simp add: range_value_def)
next
  case True
  show ?thesis
  proof (cases wide)
    case True
    with assms \<open>v > 0\<close> show ?thesis by (simp add: range_value_def put_range_value_def read_at)
  next
    case False
    then have "xs = take 4 (to_le 8 v)" using assms(4) True by (simp add: put_range_value_def)
    moreover have "\<not> v > 0xFFFFFFFF" using assms(3) False by blast
    ultimately show ?thesis
      using assms(1,2) True False take_at [of xs 4 pre ys] narrow_value [of v]
      by (simp add: range_value_def bdx_u32_le_def andthen_def)
  qed
qed

lemma control_byte:
  assumes "v AND VERSION_MASK = v" "c AND VERSION_MASK = 0"
  shows "((v AND VERSION_MASK) OR c) AND VERSION_MASK = v" "((v AND VERSION_MASK) OR c) AND NOT VERSION_MASK = c"
proof -
  have "bit v n \<Longrightarrow> bit VERSION_MASK n" "bit c n \<Longrightarrow> \<not> bit VERSION_MASK n" for n
    using bit_and_iff [of v VERSION_MASK n] bit_and_iff [of c VERSION_MASK n] assms by auto
  then show "((v AND VERSION_MASK) OR c) AND VERSION_MASK = v" "((v AND VERSION_MASK) OR c) AND NOT VERSION_MASK = c"
    by (auto intro!: bit_word_eqI simp: bit_simps)
qed

section \<open>Round trips\<close>

text \<open>
  Messages that fit their format: the version is a nibble, the control flags leave that nibble
  free, and the file designator's length fits 16 bits.
\<close>

fun bdx_wf :: "bdx_message \<Rightarrow> bool" where
  "bdx_wf (ReceiveInitMsg t) \<longleftrightarrow> ti_version t AND VERSION_MASK = ti_version t \<and> ti_control t AND VERSION_MASK = 0 \<and>
     length (ti_file_designator t) < 2 ^ 16"
| "bdx_wf (SendInitMsg t) \<longleftrightarrow> ti_version t AND VERSION_MASK = ti_version t \<and> ti_control t AND VERSION_MASK = 0 \<and>
     length (ti_file_designator t) < 2 ^ 16"
| "bdx_wf (ReceiveAcceptMsg t) \<longleftrightarrow> ra_version t AND VERSION_MASK = ra_version t \<and> ra_control t AND VERSION_MASK = 0"
| "bdx_wf (SendAcceptMsg t) \<longleftrightarrow> sa_version t AND VERSION_MASK = sa_version t \<and> sa_control t AND VERSION_MASK = 0"
| "bdx_wf m \<longleftrightarrow> True"

fun bdx_type :: "bdx_message \<Rightarrow> message_type" where
  "bdx_type (ReceiveInitMsg t) = MtReceiveInit"
| "bdx_type (SendInitMsg t) = MtSendInit"
| "bdx_type (ReceiveAcceptMsg t) = MtReceiveAccept"
| "bdx_type (SendAcceptMsg t) = MtSendAccept"
| "bdx_type (BlockQueryMsg t) = MtBlockQuery"
| "bdx_type (BlockMsg t) = MtBlock"
| "bdx_type (BlockEofMsg t) = MtBlockEof"
| "bdx_type (BlockAckMsg t) = MtBlockAck"
| "bdx_type (BlockAckEofMsg t) = MtBlockAckEof"

fun bdx_body :: "bdx_message \<Rightarrow> bytes" where
  "bdx_body (ReceiveInitMsg t) = encode_transfer_init t"
| "bdx_body (SendInitMsg t) = encode_transfer_init t"
| "bdx_body (ReceiveAcceptMsg t) = encode_receive_accept t"
| "bdx_body (SendAcceptMsg t) = encode_send_accept t"
| "bdx_body (BlockQueryMsg t) = encode_counter t"
| "bdx_body (BlockMsg t) = encode_data_block t"
| "bdx_body (BlockEofMsg t) = encode_data_block t"
| "bdx_body (BlockAckMsg t) = encode_counter t"
| "bdx_body (BlockAckEofMsg t) = encode_counter t"

lemma decode_transfer_init_encode:
  assumes "ti_version t AND VERSION_MASK = ti_version t" "ti_control t AND VERSION_MASK = 0"
    "length (ti_file_designator t) < 2 ^ 16"
  shows "decode_transfer_init (encode_transfer_init t) = Inr t"
proof -
  define wide where "wide \<longleftrightarrow> ti_start_offset t > 0xFFFFFFFF \<or> ti_max_length t > 0xFFFFFFFF"
  define xs where "xs = (if ti_start_offset t > 0 then put_range_value (ti_start_offset t) wide else [])"
  define ys where "ys = (if ti_max_length t > 0 then put_range_value (ti_max_length t) wide else [])"
  let ?n = "word_of_nat (length (ti_file_designator t)) :: u16"
  have n: "unat ?n = length (ti_file_designator t)" using assms(3) by (simp add: unat_of_nat)
  have enc: "encode_transfer_init t = ((ti_version t AND VERSION_MASK) OR ti_control t)
      # range_control (ti_start_offset t) (ti_max_length t) wide # to_le 2 (ti_max_block_size t) @ xs @ ys
        @ to_le 2 ?n @ ti_file_designator t @ ti_metadata t"
    using assms(3) by (simp add: encode_transfer_init_def Let_def wide_def xs_def ys_def)
  have r: "range_value (range_control (ti_start_offset t) (ti_max_length t) wide) START_OFFSET (rd_at pre (xs @ zs)) =
      (Inr (ti_start_offset t), rd_at (pre @ xs) zs)" for pre zs
    by (rule range_value_at [OF _ _ _ xs_def]) (simp_all add: range_flags wide_def)
  have r': "range_value (range_control (ti_start_offset t) (ti_max_length t) wide) DEF_LEN (rd_at pre (ys @ zs)) =
      (Inr (ti_max_length t), rd_at (pre @ ys) zs)" for pre zs
    by (rule range_value_at [OF _ _ _ ys_def]) (simp_all add: range_flags wide_def)
  show ?thesis
    unfolding decode_transfer_init_def enc reader_new_at
    by (simp add: andthen_def read_at r r' take_at n rest_at control_byte [OF assms(1,2)])
qed

lemma decode_receive_accept_encode:
  assumes "ra_version t AND VERSION_MASK = ra_version t" "ra_control t AND VERSION_MASK = 0"
  shows "decode_receive_accept (encode_receive_accept t) = Inr t"
proof -
  define wide where "wide \<longleftrightarrow> ra_start_offset t > 0xFFFFFFFF \<or> ra_length t > 0xFFFFFFFF"
  define xs where "xs = (if ra_start_offset t > 0 then put_range_value (ra_start_offset t) wide else [])"
  define ys where "ys = (if ra_length t > 0 then put_range_value (ra_length t) wide else [])"
  have enc: "encode_receive_accept t = ((ra_version t AND VERSION_MASK) OR ra_control t)
      # range_control (ra_start_offset t) (ra_length t) wide # to_le 2 (ra_max_block_size t) @ xs @ ys @ ra_metadata t"
    by (simp add: encode_receive_accept_def Let_def wide_def xs_def ys_def)
  have r: "range_value (range_control (ra_start_offset t) (ra_length t) wide) START_OFFSET (rd_at pre (xs @ zs)) =
      (Inr (ra_start_offset t), rd_at (pre @ xs) zs)" for pre zs
    by (rule range_value_at [OF _ _ _ xs_def]) (simp_all add: range_flags wide_def)
  have r': "range_value (range_control (ra_start_offset t) (ra_length t) wide) DEF_LEN (rd_at pre (ys @ zs)) =
      (Inr (ra_length t), rd_at (pre @ ys) zs)" for pre zs
    by (rule range_value_at [OF _ _ _ ys_def]) (simp_all add: range_flags wide_def)
  show ?thesis
    unfolding decode_receive_accept_def enc reader_new_at
    by (simp add: andthen_def read_at r r' rest_at control_byte [OF assms])
qed

lemma decode_send_accept_encode:
  assumes "sa_version t AND VERSION_MASK = sa_version t" "sa_control t AND VERSION_MASK = 0"
  shows "decode_send_accept (encode_send_accept t) = Inr t"
  unfolding decode_send_accept_def encode_send_accept_def reader_new_at
  by (simp add: andthen_def read_at rest_at control_byte [OF assms])

lemma decode_counter_encode: "decode_counter (encode_counter c) = Inr c"
  using read_at(3) [of "[]" "cm_block_counter c" "[]"]
  by (simp add: decode_counter_def encode_counter_def reader_new_at andthen_def)

lemma decode_data_block_encode: "decode_data_block (to_le 4 c @ d) = Inr \<lparr>db_block_counter = c, db_data = d\<rparr>"
  by (simp add: decode_data_block_def reader_new_at andthen_def read_at rest_at)

text \<open>
  Every message that fits its format, of each of the nine types, is decoded from its opcode
  and body to itself.
\<close>

theorem bdx_roundtrip:
  assumes "bdx_wf m"
  shows "mt_from_u8 (mt_to_u8 (bdx_type m)) = Some (bdx_type m) \<and> bdx_decode (bdx_type m) (bdx_body m) = Inr m"
proof
  show "mt_from_u8 (mt_to_u8 (bdx_type m)) = Some (bdx_type m)"
    by (cases m) (simp_all add: mt_from_u8_def)
  show "bdx_decode (bdx_type m) (bdx_body m) = Inr m"
    using assms
    by (cases m) (simp_all add: decode_transfer_init_encode decode_receive_accept_encode decode_send_accept_encode
        decode_counter_encode decode_data_block_encode encode_data_block_def)
qed

definition sample_init :: transfer_init where
  "sample_init = \<lparr>ti_control = RECEIVER_DRIVE, ti_version = 0, ti_max_block_size = 2, ti_start_offset = 0,
     ti_max_length = 0x100000000, ti_file_designator = [7, 8], ti_metadata = []\<rparr>"

theorem bdx_roundtrip_witness:
  "bdx_decode MtReceiveInit (encode_transfer_init sample_init) = Inr (ReceiveInitMsg sample_init)"
  using bdx_roundtrip [of "ReceiveInitMsg sample_init"]
  by (simp add: sample_init_def RECEIVER_DRIVE_def VERSION_MASK_def)

section \<open>Serving an image\<close>

datatype bdx_input = InInit transfer_init | InQuery counter_message | InAckEof counter_message

fun bdx_feed :: "bdx_input \<Rightarrow> block_sender \<Rightarrow> sender_outcome \<times> block_sender" where
  "bdx_feed (InInit t) s = accept_receive_init t s"
| "bdx_feed (InQuery c) s = handle_block_query c s"
| "bdx_feed (InAckEof c) s = handle_block_ack_eof c s"

text \<open>Runs of the sender: the outcomes of any inputs in any order.\<close>

inductive serves :: "block_sender \<Rightarrow> sender_outcome list \<Rightarrow> block_sender \<Rightarrow> bool" where
  serves_start: "serves s [] s"
| serves_input: "serves s outs t \<Longrightarrow> bdx_feed i t = (r, u) \<Longrightarrow> serves s (outs @ [r]) u"

inductive_cases serves_snocE: "serves s (outs @ [r]) u"

text \<open>The data blocks among the outcomes, as the receiver decodes them.\<close>

definition block_in :: "sender_outcome \<Rightarrow> data_block option" where
  "block_in r = (case r of SendOut m \<Rightarrow>
       (case bdx_decode (om_type m) (om_payload m) of
          Inr (BlockMsg b) \<Rightarrow> Some b | Inr (BlockEofMsg b) \<Rightarrow> Some b | _ \<Rightarrow> None)
     | _ \<Rightarrow> None)"

definition blocks_in :: "sender_outcome list \<Rightarrow> data_block list" where
  "blocks_in outs = List.map_filter block_in outs"

lemma blocks_in_snoc: "blocks_in (outs @ [r]) = blocks_in outs @ (case block_in r of None \<Rightarrow> [] | Some b \<Rightarrow> [b])"
  by (simp add: blocks_in_def List.map_filter_def split: option.split)

lemma blocks_in_Nil [simp]: "blocks_in [] = []"
  by (simp add: blocks_in_def List.map_filter_def)

definition serve_inv :: "bytes \<Rightarrow> data_block list \<Rightarrow> block_sender \<Rightarrow> bool" where
  "serve_inv img bs s \<longleftrightarrow> bs_image s = img \<and> bs_offset s \<le> length img \<and>
     concat (map db_data bs) = take (bs_offset s) img \<and>
     map db_block_counter bs = map word_of_nat [0 ..< length bs] \<and>
     bs_next_block_counter s = word_of_nat (length bs) \<and>
     (bs_state s \<in> {AwaitingEofAck, Complete} \<longrightarrow> bs_offset s = length img)"

lemma block_query_sends:
  assumes "bs_state s = Sending" "cm_block_counter c = bs_next_block_counter s" "bs_offset s \<le> length (bs_image s)"
    and e: "e = min (bs_offset s + unat (bs_max_block_size s)) (length (bs_image s))"
  shows "handle_block_query c s =
      (SendOut \<lparr>om_type = (if e = length (bs_image s) then MtBlockEof else MtBlock),
         om_payload = to_le 4 (bs_next_block_counter s) @ slice_at (bs_offset s) (e - bs_offset s) (bs_image s)\<rparr>,
       s\<lparr>bs_offset := e, bs_last_block_counter := bs_next_block_counter s,
         bs_next_block_counter := bs_next_block_counter s + 1,
         bs_state := (if e = length (bs_image s) then AwaitingEofAck else Sending)\<rparr>)"
    and "take e (bs_image s) = take (bs_offset s) (bs_image s) @ slice_at (bs_offset s) (e - bs_offset s) (bs_image s)"
    and "bs_offset s \<le> e" "e \<le> length (bs_image s)"
proof -
  show le: "bs_offset s \<le> e" "e \<le> length (bs_image s)" using assms by auto
  show "take e (bs_image s) = take (bs_offset s) (bs_image s) @ slice_at (bs_offset s) (e - bs_offset s) (bs_image s)"
    using take_add [of "bs_offset s" "e - bs_offset s" "bs_image s"] le(1) by (simp add: slice_at_def)
qed (use assms in \<open>simp add: handle_block_query_def Let_def\<close>)

lemma block_in_data:
  "block_in (SendOut \<lparr>om_type = (if b then MtBlockEof else MtBlock), om_payload = to_le 4 c @ d\<rparr>) =
     Some \<lparr>db_block_counter = c, db_data = d\<rparr>"
  by (simp add: block_in_def decode_data_block_encode)

lemma block_in_other [simp]:
  "block_in (SenderAbort code) = None" "block_in SenderDone = None"
  "block_in (SendOut \<lparr>om_type = MtReceiveAccept, om_payload = p\<rparr>) = None"
  by (auto simp: block_in_def split: sum.split bdx_message.split dest!: try_bind_eq_Inr [THEN iffD1])

lemma feed_serve_inv:
  assumes "serve_inv img bs s" "bdx_feed i s = (r, t)"
  shows "serve_inv img (bs @ (case block_in r of None \<Rightarrow> [] | Some b \<Rightarrow> [b])) t"
proof -
  have abort: "serve_inv img (bs @ (case block_in r of None \<Rightarrow> [] | Some b \<Rightarrow> [b])) t" if "bdx_abort code s = (r, t)" for code
    using that assms(1) by (auto simp: bdx_abort_def serve_inv_def)
  show ?thesis
  proof (cases i)
    case (InInit ti)
    with assms abort show ?thesis
      by (auto simp: accept_receive_init_def Let_def serve_inv_def split: if_splits)
  next
    case (InQuery c)
    show ?thesis
    proof (cases "bs_state s = Sending \<and> cm_block_counter c = bs_next_block_counter s")
      case True
      define e where "e = min (bs_offset s + unat (bs_max_block_size s)) (length (bs_image s))"
      have "bs_offset s \<le> length (bs_image s)" using assms(1) by (simp add: serve_inv_def)
      note q = block_query_sends [OF conjunct1 [OF True] conjunct2 [OF True] this e_def]
      let ?d = "slice_at (bs_offset s) (e - bs_offset s) (bs_image s)"
      have "block_in r = Some \<lparr>db_block_counter = bs_next_block_counter s, db_data = ?d\<rparr>"
        using assms(2) block_in_data unfolding InQuery bdx_feed.simps q(1) by blast
      moreover have "t = s\<lparr>bs_offset := e, bs_last_block_counter := bs_next_block_counter s,
          bs_next_block_counter := bs_next_block_counter s + 1,
          bs_state := (if e = length (bs_image s) then AwaitingEofAck else Sending)\<rparr>"
        using assms(2) unfolding InQuery bdx_feed.simps q(1) by simp
      ultimately show ?thesis
        using assms(1) q(2-4) by (simp add: serve_inv_def)
    next
      case False
      with assms(2) abort show ?thesis by (auto simp: InQuery handle_block_query_def split: if_splits)
    qed
  next
    case (InAckEof c)
    with assms abort show ?thesis
      by (auto simp: handle_block_ack_eof_def serve_inv_def split: if_splits)
  qed
qed

lemma serves_inv: "serves s outs t \<Longrightarrow> serve_inv img [] s \<Longrightarrow> serve_inv img (blocks_in outs) t"
  by (induction rule: serves.induct) (auto simp: blocks_in_snoc intro: feed_serve_inv)

text \<open>
  C9. Whatever inputs the sender gets, in any order: the data of the blocks it has sent is
  exactly the part of the image up to its offset, in order and without gaps, the block counters
  are consecutive from 0, and it is complete only when the whole image was sent.
\<close>

theorem serves_image_prefix:
  assumes "serves (from_shared img mbs) outs t"
  shows "concat (map db_data (blocks_in outs)) = take (bs_offset t) img \<and>
    map db_block_counter (blocks_in outs) = map word_of_nat [0 ..< length (blocks_in outs)] \<and>
    (is_complete t \<longrightarrow> concat (map db_data (blocks_in outs)) = img)"
proof -
  have "serve_inv img [] (from_shared img mbs)" by (simp add: serve_inv_def from_shared_def)
  with assms have "serve_inv img (blocks_in outs) t" by (rule serves_inv)
  then show ?thesis by (auto simp: serve_inv_def is_complete_def)
qed

theorem serves_image_prefix_witness:
  "\<exists>outs t. serves (from_shared [1, 2, 3] 2) outs t \<and> length outs = 2 \<and> bs_offset t = 2 \<and>
     concat (map db_data (blocks_in outs)) = [1, 2]"
proof -
  let ?s0 = "from_shared [1, 2, 3] 2"
  obtain r s where s: "bdx_feed (InInit sample_init) ?s0 = (r, s)" "bs_offset s = 0" "bs_state s = Sending"
      "bs_next_block_counter s = 0" "bs_image s = [1, 2, 3]" "bs_max_block_size s = 2"
    by (simp add: accept_receive_init_def from_shared_def sample_init_def flags_contain_def RECEIVER_DRIVE_def Let_def)
  obtain q t where t: "bdx_feed (InQuery \<lparr>cm_block_counter = 0\<rparr>) s = (q, t)" "bs_offset t = 2"
    using s by (simp add: handle_block_query_def Let_def)
  have run: "serves ?s0 (([] @ [r]) @ [q]) t"
    using serves_input [OF serves_input [OF serves_start s(1)] t(1)] .
  from serves_image_prefix [OF this] t(2) have "concat (map db_data (blocks_in (([] @ [r]) @ [q]))) = [1, 2]"
    by simp
  with run t(2) show ?thesis by (intro exI [of _ "([] @ [r]) @ [q]"] exI [of _ t]) simp
qed

text \<open>A receiver that queries block after block and acknowledges the last.\<close>

fun pull :: "nat \<Rightarrow> u32 \<Rightarrow> block_sender \<Rightarrow> (bytes \<times> block_sender) option" where
  "pull 0 c s = None"
| "pull (Suc n) c s =
     (case handle_block_query \<lparr>cm_block_counter = c\<rparr> s of
        (SendOut m, s1) \<Rightarrow>
          (case bdx_decode (om_type m) (om_payload m) of
             Inr (BlockMsg b) \<Rightarrow> map_option (\<lambda>(d, t). (db_data b @ d, t)) (pull n (c + 1) s1)
           | Inr (BlockEofMsg b) \<Rightarrow>
               (case handle_block_ack_eof \<lparr>cm_block_counter = c\<rparr> s1 of
                  (SenderDone, t) \<Rightarrow> Some (db_data b, t) | _ \<Rightarrow> None)
           | _ \<Rightarrow> None)
      | _ \<Rightarrow> None)"

lemma pull_serves:
  assumes "bs_state s = Sending" "bs_next_block_counter s = c" "bs_offset s \<le> length (bs_image s)"
    "0 < unat (bs_max_block_size s)" "length (bs_image s) - bs_offset s < n"
  shows "\<exists>t. pull n c s = Some (drop (bs_offset s) (bs_image s), t) \<and> is_complete t"
  using assms
proof (induction n arbitrary: c s)
  case (Suc n)
  define e where "e = min (bs_offset s + unat (bs_max_block_size s)) (length (bs_image s))"
  let ?d = "slice_at (bs_offset s) (e - bs_offset s) (bs_image s)"
  let ?s1 = "s\<lparr>bs_offset := e, bs_last_block_counter := c, bs_next_block_counter := c + 1,
      bs_state := (if e = length (bs_image s) then AwaitingEofAck else Sending)\<rparr>"
  have q: "handle_block_query \<lparr>cm_block_counter = c\<rparr> s =
      (SendOut \<lparr>om_type = (if e = length (bs_image s) then MtBlockEof else MtBlock), om_payload = to_le 4 c @ ?d\<rparr>, ?s1)"
    and le: "bs_offset s \<le> e"
    using block_query_sends(1,3) [OF Suc.prems(1) _ Suc.prems(3) e_def, of "\<lparr>cm_block_counter = c\<rparr>"] Suc.prems(2)
    by simp_all
  have data: "drop (bs_offset s) (bs_image s) = ?d @ drop e (bs_image s)"
    using slice_append_drop [of "bs_offset s" "e - bs_offset s" "bs_image s"] le by simp
  show ?case
  proof (cases "e = length (bs_image s)")
    case True
    then show ?thesis
      using data by (simp add: q decode_data_block_encode handle_block_ack_eof_def is_complete_def)
  next
    case False
    then have e: "e = bs_offset s + unat (bs_max_block_size s)" "e \<le> length (bs_image s)" by (auto simp: e_def)
    with Suc.prems False have "\<exists>t. pull n (c + 1) ?s1 = Some (drop (bs_offset ?s1) (bs_image ?s1), t) \<and> is_complete t"
      by (intro Suc.IH) auto
    with False show ?thesis using data by (auto simp: q decode_data_block_encode)
  qed
qed simp

lemma pull_stalls:
  assumes "bs_max_block_size s = 0" "bs_offset s < length (bs_image s)"
  shows "pull n c s = None"
  using assms
proof (induction n arbitrary: c s)
  case (Suc n)
  show ?case
  proof (cases "bs_state s = Sending \<and> c = bs_next_block_counter s")
    case True
    with Suc.prems decode_data_block_encode [of _ "[]"] show ?thesis
      by (simp add: handle_block_query_def Let_def slice_at_def min_def Suc.IH)
  qed (auto simp: handle_block_query_def bdx_abort_def)
qed simp

text \<open>
  C10. A transfer ends: for a receiver-driven proposal with a non-zero block size, the accept
  announces the negotiated block size and the image's length, and a receiver that then queries
  block after block gets exactly the image and sees the transfer complete, after at most one
  query per byte and one more.
\<close>

theorem transfer_completes:
  assumes "flags_contain (ti_control i) RECEIVER_DRIVE" "ti_max_block_size i \<noteq> 0" "mbs \<noteq> 0" "length img < 2 ^ 64"
  shows "\<exists>m s t. accept_receive_init i (from_shared img mbs) = (SendOut m, s) \<and>
    bdx_decode (om_type m) (om_payload m) = Inr (ReceiveAcceptMsg
      \<lparr>ra_control = RECEIVER_DRIVE, ra_version = BDX_VERSION, ra_max_block_size = min (ti_max_block_size i) mbs,
       ra_start_offset = 0, ra_length = word_of_nat (length img), ra_metadata = []\<rparr>) \<and>
    pull (length img + 1) 0 s = Some (img, t) \<and> is_complete t"
proof -
  let ?a = "\<lparr>ra_control = RECEIVER_DRIVE, ra_version = BDX_VERSION, ra_max_block_size = min (ti_max_block_size i) mbs,
       ra_start_offset = 0, ra_length = word_of_nat (length img), ra_metadata = []\<rparr>"
  obtain s where s: "accept_receive_init i (from_shared img mbs) =
      (SendOut \<lparr>om_type = MtReceiveAccept, om_payload = encode_receive_accept ?a\<rparr>, s)"
    "bs_state s = Sending" "bs_next_block_counter s = 0" "bs_offset s = 0" "bs_image s = img"
    "bs_max_block_size s = min (ti_max_block_size i) mbs"
    using assms(1,4) by (simp add: accept_receive_init_def from_shared_def Let_def)
  have "decode_receive_accept (encode_receive_accept ?a) = Inr ?a"
    by (rule decode_receive_accept_encode) (simp_all add: RECEIVER_DRIVE_def BDX_VERSION_def VERSION_MASK_def)
  moreover have "0 < unat (min (ti_max_block_size i) mbs)"
    using assms(2,3) by (simp add: min_def unat_gt_0)
  then have "\<exists>t. pull (length img + 1) 0 s = Some (img, t) \<and> is_complete t"
    using pull_serves [of s 0 "length img + 1"] s(2-) by simp
  ultimately show ?thesis using s(1) by auto
qed

theorem transfer_completes_witness:
  "\<exists>m s t. accept_receive_init sample_init (from_shared [1, 2, 3] 8) = (SendOut m, s) \<and>
     pull 4 0 s = Some ([1, 2, 3], t) \<and> is_complete t"
proof -
  have "flags_contain (ti_control sample_init) RECEIVER_DRIVE" "ti_max_block_size sample_init \<noteq> 0" "(8 :: u16) \<noteq> 0"
    "length [1, 2, 3 :: u8] < 2 ^ 64"
    by (simp_all add: sample_init_def flags_contain_def)
  then obtain m s t where "accept_receive_init sample_init (from_shared [1, 2, 3] 8) = (SendOut m, s)" "is_complete t"
    "pull (length [1, 2, 3 :: u8] + 1) 0 s = Some ([1, 2, 3], t)"
    using transfer_completes [of sample_init 8 "[1, 2, 3]"] by blast
  moreover have "length [1, 2, 3 :: u8] + 1 = 4" by simp
  ultimately show ?thesis by metis
qed

text \<open>
  A proposal with block size 0 is accepted, and every query is then answered by an empty block:
  no number of queries ends the transfer.
\<close>

lemma zero_block_size_stalls:
  assumes "flags_contain (ti_control i) RECEIVER_DRIVE" "ti_max_block_size i = 0" "img \<noteq> []"
  shows "\<exists>m s. accept_receive_init i (from_shared img mbs) = (SendOut m, s) \<and> (\<forall>n. pull n 0 s = None)"
proof -
  obtain m s where "accept_receive_init i (from_shared img mbs) = (SendOut m, s)"
    "bs_max_block_size s = 0" "bs_offset s < length (bs_image s)"
    using assms by (simp add: accept_receive_init_def from_shared_def Let_def)
  then show ?thesis using pull_stalls by blast
qed

end
