(* ===== verification/BTP.thy ===== *)
theory BTP
  imports Replay_Window
begin

text \<open>
  The Bluetooth transport, \<open>crates/matter-ble\<close>: parsing of advertisements (\<open>advert.rs\<close>), the
  handshake (\<open>handshake.rs\<close>) and the session engine (\<open>session.rs\<close>) that segments messages,
  reassembles them, and acknowledges fragments within a window.
\<close>

datatype btp_error =
    AdvertTooShort nat
  | UnsupportedOpcode u8
  | MalformedHandshake
  | UnsupportedVersion u8
  | FragmentTooSmall u16
  | InvalidSequence u8 u8
  | InvalidAck u8
  | ReassemblerInvalidState
  | MessageInFlight
  | ReassemblyOverflow
  | PacketTooShort
  | AckTimedOut

section \<open>Advertisements\<close>

record commissionable_advert =
  adv_discriminator :: u16
  adv_version :: u8
  adv_vendor_id :: u16
  adv_product_id :: u16
  adv_has_additional_data :: bool
  adv_extended_announcement :: bool

definition advert_parse :: "bytes \<Rightarrow> btp_error + commissionable_advert" where
  "advert_parse service_data =
     (if length service_data < 8 then Inl (AdvertTooShort (length service_data))
      else if service_data ! 0 \<noteq> 0 then Inl (UnsupportedOpcode (service_data ! 0))
      else Inr
        \<lparr>adv_discriminator = ucast (service_data ! 1) OR push_bit 8 (ucast (service_data ! 2 AND 0x0F)),
         adv_version = drop_bit 4 (service_data ! 2),
         adv_vendor_id = of_le [service_data ! 3, service_data ! 4],
         adv_product_id = of_le [service_data ! 5, service_data ! 6],
         adv_has_additional_data = (service_data ! 7 AND 0x01 \<noteq> 0),
         adv_extended_announcement = (service_data ! 7 AND 0x02 \<noteq> 0)\<rparr>)"

text \<open>\<open>advert_matches\<close> of \<open>central.rs\<close>.\<close>

definition advert_matches :: "commissionable_advert \<Rightarrow> u16 \<Rightarrow> bool \<Rightarrow> bool" where
  "advert_matches advert disc short =
     (if short then drop_bit 8 (adv_discriminator advert) = (disc AND 0x0F) else adv_discriminator advert = disc)"

section \<open>Handshake\<close>

definition BTP_VERSION :: u8 where "BTP_VERSION = 4"
definition MAX_SEGMENT_SIZE :: u16 where "MAX_SEGMENT_SIZE = 244"
definition MIN_SEGMENT_SIZE :: u16 where "MIN_SEGMENT_SIZE = 6"
definition WINDOW_SIZE :: u8 where "WINDOW_SIZE = 6"
definition CHECK_BYTE_1 :: u8 where "CHECK_BYTE_1 = 0x65"
definition CHECK_BYTE_2 :: u8 where "CHECK_BYTE_2 = 0x6C"

record handshake_request =
  hq_mtu :: u16
  hq_window :: u8

definition handshake_request_encode :: "handshake_request \<Rightarrow> bytes" where
  "handshake_request_encode r =
     [CHECK_BYTE_1, CHECK_BYTE_2, BTP_VERSION, 0, 0, 0] @ to_le 2 (hq_mtu r) @ [hq_window r]"

record handshake_response =
  hr_version :: u8
  hr_segment_size :: u16
  hr_window :: u8

definition handshake_response_parse :: "bytes \<Rightarrow> btp_error + handshake_response" where
  "handshake_response_parse packet =
     (if length packet \<noteq> 6 then Inl MalformedHandshake
      else if packet ! 0 \<noteq> CHECK_BYTE_1 \<or> packet ! 1 \<noteq> CHECK_BYTE_2 then Inl MalformedHandshake
      else if packet ! 2 \<noteq> BTP_VERSION then Inl (UnsupportedVersion (packet ! 2))
      else let segment_size = of_le [packet ! 3, packet ! 4] in
        if segment_size < MIN_SEGMENT_SIZE then Inl (FragmentTooSmall segment_size)
        else if packet ! 5 = 0 then Inl MalformedHandshake
        else Inr \<lparr>hr_version = packet ! 2, hr_segment_size = min segment_size MAX_SEGMENT_SIZE,
                  hr_window = min (packet ! 5) WINDOW_SIZE\<rparr>)"

section \<open>The session engine\<close>

definition ACK_SEND_TIMEOUT :: duration where "ACK_SEND_TIMEOUT = 2500"
definition ACK_TIMEOUT :: duration where "ACK_TIMEOUT = 15000"
definition IMMEDIATE_ACK_THRESHOLD :: u8 where "IMMEDIATE_ACK_THRESHOLD = 1"
definition WINDOW_NO_ACK_SEND_THRESHOLD :: u8 where "WINDOW_NO_ACK_SEND_THRESHOLD = 1"
definition RX_REASSEMBLY_CAP :: nat where "RX_REASSEMBLY_CAP = 2048"

definition BTP_FLAG_START :: u8 where "BTP_FLAG_START = 0x01"
definition BTP_FLAG_CONTINUE :: u8 where "BTP_FLAG_CONTINUE = 0x02"
definition BTP_FLAG_END :: u8 where "BTP_FLAG_END = 0x04"
definition BTP_FLAG_ACK :: u8 where "BTP_FLAG_ACK = 0x08"

datatype btp_role = Central | Peripheral

record btp_session =
  btp_role :: btp_role
  segment_size :: u16
  local_window_max :: u8
  local_window :: u8
  rx_next_seq :: u8
  rx_buf :: bytes
  rx_expected_len :: "u16 option"
  unacked_rx :: "u8 option"
  ack_due_at :: "instant option"
  tx_next_seq :: u8
  tx_oldest_unacked :: u8
  tx_newest_unacked :: u8
  expecting_ack :: bool
  tx_unacked_since :: "instant option"
  remote_window :: u8
  tx_pending :: "bytes option"
  tx_sent :: nat
  gatt_in_flight :: bool

definition btp_new :: "btp_role \<Rightarrow> u16 \<Rightarrow> u8 \<Rightarrow> instant \<Rightarrow> btp_session" where
  "btp_new role seg_size win now =
     (let seg = max seg_size MIN_SEGMENT_SIZE; window = max win 1 in
      case role of
        Central \<Rightarrow>
          \<lparr>btp_role = role, segment_size = seg, local_window_max = window, local_window = saturating_sub window 1,
           rx_next_seq = 1, rx_buf = [], rx_expected_len = None, unacked_rx = Some 0,
           ack_due_at = Some (now + ACK_SEND_TIMEOUT), tx_next_seq = 0, tx_oldest_unacked = 0,
           tx_newest_unacked = 0, expecting_ack = False, tx_unacked_since = None, remote_window = window,
           tx_pending = None, tx_sent = 0, gatt_in_flight = False\<rparr>
      | Peripheral \<Rightarrow>
          \<lparr>btp_role = role, segment_size = seg, local_window_max = window, local_window = window,
           rx_next_seq = 0, rx_buf = [], rx_expected_len = None, unacked_rx = None,
           ack_due_at = None, tx_next_seq = 1, tx_oldest_unacked = 0,
           tx_newest_unacked = 0, expecting_ack = True, tx_unacked_since = Some now, remote_window = window,
           tx_pending = None, tx_sent = 0, gatt_in_flight = False\<rparr>)"

subsection \<open>Receiving\<close>

text \<open>
  The credit after an acknowledgement, in 16-bit arithmetic as in the code; the result is cut
  to 8 bits.
\<close>

definition adjust_remote_window :: "u8 \<Rightarrow> btp_session \<Rightarrow> u8" where
  "adjust_remote_window ack s =
     (let boundary = ucast ack + ucast (local_window_max s) :: u16;
          newest = ucast (tx_newest_unacked s) :: u16;
          credit = (if boundary > 255 \<and> newest < ucast ack then boundary - (newest + 255) else boundary - newest)
      in ucast (credit AND 0xFF))"

definition receive_ack :: "u8 \<Rightarrow> (btp_session, btp_error, unit) comp" where
  "receive_ack ack s =
     (if \<not> expecting_ack s then (Inl (InvalidAck ack), s)
      else
        let valid = (if tx_newest_unacked s \<ge> tx_oldest_unacked s
              then ack \<le> tx_newest_unacked s \<and> ack \<ge> tx_oldest_unacked s
              else ack \<le> tx_newest_unacked s \<or> ack \<ge> tx_oldest_unacked s) in
        if \<not> valid then (Inl (InvalidAck ack), s)
        else
          let s1 = (if tx_newest_unacked s = ack
                then s\<lparr>tx_oldest_unacked := ack, expecting_ack := False, tx_unacked_since := None\<rparr>
                else s\<lparr>tx_oldest_unacked := ack + 1\<rparr>)
          in (Inr (), s1\<lparr>remote_window := adjust_remote_window ack s1\<rparr>))"

definition arm_ack_timer :: "instant \<Rightarrow> btp_session \<Rightarrow> btp_session" where
  "arm_ack_timer now s =
     (let candidate = (if local_window s \<le> IMMEDIATE_ACK_THRESHOLD then now else now + ACK_SEND_TIMEOUT)
      in s\<lparr>ack_due_at := Some (case ack_due_at s of Some existing \<Rightarrow> min existing candidate | None \<Rightarrow> candidate)\<rparr>)"

text \<open>The parts of \<open>on_indication\<close>, in its order: acknowledgement, sequence number, payload.\<close>

definition ack_part :: "u8 \<Rightarrow> bytes \<Rightarrow> (btp_session, btp_error, bytes) comp" where
  "ack_part flags rest =
     (if flags AND BTP_FLAG_ACK \<noteq> 0
      then case rest of [] \<Rightarrow> err PacketTooShort | ack # rest1 \<Rightarrow> andthen (receive_ack ack) (\<lambda>_. ok rest1)
      else ok rest)"

definition seq_part :: "bytes \<Rightarrow> (btp_session, btp_error, u8 \<times> bytes) comp" where
  "seq_part rest s =
     (case rest of [] \<Rightarrow> (Inl PacketTooShort, s)
      | seq # rest1 \<Rightarrow>
          if seq \<noteq> rx_next_seq s then (Inl (InvalidSequence (rx_next_seq s) seq), s)
          else (Inr (seq, rest1), s\<lparr>rx_next_seq := rx_next_seq s + 1\<rparr>))"

definition owe_ack :: "u8 \<Rightarrow> instant \<Rightarrow> btp_session \<Rightarrow> btp_session" where
  "owe_ack seq now s =
     arm_ack_timer now (s\<lparr>local_window := saturating_sub (local_window s) 1, unacked_rx := Some seq\<rparr>)"

definition store_part :: "u8 \<Rightarrow> bytes \<Rightarrow> (btp_session, btp_error, unit) comp" where
  "store_part flags payload s =
     (let begins = (flags AND BTP_FLAG_START \<noteq> 0); ends = (flags AND BTP_FLAG_END \<noteq> 0);
          cont = (flags AND BTP_FLAG_CONTINUE \<noteq> 0) in
      if rx_expected_len s \<noteq> None then
        if begins \<or> \<not> (cont \<or> ends) then (Inl ReassemblerInvalidState, s)
        else if length (rx_buf s) + length payload > RX_REASSEMBLY_CAP then (Inl ReassemblyOverflow, s)
        else (Inr (), s\<lparr>rx_buf := rx_buf s @ payload\<rparr>)
      else if \<not> begins then (Inl ReassemblerInvalidState, s)
      else if length payload < 2 then (Inl PacketTooShort, s)
      else let msg_len = of_le (take 2 payload) :: u16 in
        if unat msg_len > RX_REASSEMBLY_CAP then (Inl ReassemblyOverflow, s)
        else (Inr (), s\<lparr>rx_expected_len := Some msg_len, rx_buf := drop 2 payload\<rparr>))"

definition end_part :: "u8 \<Rightarrow> (btp_session, btp_error, bytes option) comp" where
  "end_part flags s =
     (if flags AND BTP_FLAG_END = 0 then (Inr None, s)
      else
        let expected = (case rx_expected_len s of None \<Rightarrow> 0 | Some n \<Rightarrow> unat n); s1 = s\<lparr>rx_expected_len := None\<rparr> in
        if length (rx_buf s1) < expected then (Inl ReassemblerInvalidState, s1)
        else (Inr (Some (take expected (rx_buf s1))), s1\<lparr>rx_buf := []\<rparr>))"

definition on_indication :: "bytes \<Rightarrow> instant \<Rightarrow> (btp_session, btp_error, bytes option) comp" where
  "on_indication packet now s =
     (case take (unat (segment_size s)) packet of
        [] \<Rightarrow> (Inl PacketTooShort, s)
      | flags # rest \<Rightarrow>
          andthen (ack_part flags rest) (\<lambda>rest1.
          andthen (seq_part rest1) (\<lambda>(seq, payload).
          if flags AND (BTP_FLAG_START OR BTP_FLAG_CONTINUE OR BTP_FLAG_END) = 0
          then (\<lambda>s1. (Inr None, owe_ack seq now s1))
          else andthen (store_part flags payload) (\<lambda>_ s1. end_part flags (owe_ack seq now s1)))) s)"

subsection \<open>Sending\<close>

definition btp_poll_timeout :: "btp_session \<Rightarrow> instant option" where
  "btp_poll_timeout s =
     (let ack_timeout = (if expecting_ack s then map_option (\<lambda>since. since + ACK_TIMEOUT) (tx_unacked_since s) else None)
      in case (ack_due_at s, ack_timeout) of
           (Some a, Some b) \<Rightarrow> Some (min a b) | (Some a, None) \<Rightarrow> Some a
         | (None, Some b) \<Rightarrow> Some b | (None, None) \<Rightarrow> None)"

definition register_outbound_seq :: "u8 \<Rightarrow> instant \<Rightarrow> btp_session \<Rightarrow> btp_session" where
  "register_outbound_seq seq now s =
     (let s1 = (if \<not> expecting_ack s
            then s\<lparr>expecting_ack := True, tx_oldest_unacked := seq, tx_unacked_since := Some now\<rparr> else s)
      in s1\<lparr>tx_newest_unacked := seq, tx_next_seq := tx_next_seq s1 + 1\<rparr>)"

definition queue_message :: "bytes \<Rightarrow> (btp_session, btp_error, unit) comp" where
  "queue_message sdu s =
     (if tx_pending s \<noteq> None then (Inl MessageInFlight, s)
      else if length sdu > 65535 then (Inl ReassemblyOverflow, s)
      else (Inr (), s\<lparr>tx_pending := Some sdu, tx_sent := 0\<rparr>))"

text \<open>
  The size of the next fragment's header and payload, and whether it ends the message. The
  subtraction \<open>msg_len - tx_sent\<close> and the slice of the message do not fail, since
  \<open>tx_sent\<close> never passes the message's length.
\<close>

definition fragment_header_len :: "btp_session \<Rightarrow> nat" where
  "fragment_header_len s = 1 + (if unacked_rx s \<noteq> None then 1 else 0) + 1 + (if tx_sent s = 0 then 2 else 0)"

definition fragment_payload :: "bytes \<Rightarrow> btp_session \<Rightarrow> nat \<times> bool" where
  "fragment_payload msg s =
     (let header_len = fragment_header_len s; segment = unat (segment_size s);
          max_payload = segment - header_len; remaining = length msg - tx_sent s
      in if remaining + header_len \<le> segment then (remaining, True) else (max_payload, False))"

definition fragment_packet :: "bytes \<Rightarrow> nat \<Rightarrow> bool \<Rightarrow> btp_session \<Rightarrow> bytes" where
  "fragment_packet msg payload_len ends s =
     (let first = (tx_sent s = 0);
          f0 = (if first then BTP_FLAG_START else BTP_FLAG_CONTINUE);
          f1 = (if ends then f0 OR BTP_FLAG_END else f0);
          flags = (if unacked_rx s \<noteq> None then f1 OR BTP_FLAG_ACK else f1);
          len = (if length msg < 2 ^ 16 then word_of_nat (length msg) else - 1) :: u16
      in [flags] @ (case unacked_rx s of None \<Rightarrow> [] | Some ack \<Rightarrow> [ack]) @ [tx_next_seq s]
         @ (if first then to_le 2 len else []) @ take payload_len (drop (tx_sent s) msg))"

definition next_gatt_write :: "instant \<Rightarrow> btp_session \<Rightarrow> bytes option \<times> btp_session" where
  "next_gatt_write now s =
     (if gatt_in_flight s then (None, s)
      else case tx_pending s of None \<Rightarrow> (None, s)
      | Some msg \<Rightarrow>
          if remote_window s = 0 then (None, s)
          else if remote_window s \<le> WINDOW_NO_ACK_SEND_THRESHOLD \<and> unacked_rx s = None then (None, s)
          else
            let (payload_len, ends) = fragment_payload msg s;
                packet = fragment_packet msg payload_len ends s;
                s1 = (if unacked_rx s \<noteq> None
                  then s\<lparr>unacked_rx := None, ack_due_at := None, local_window := local_window_max s\<rparr> else s);
                s2 = register_outbound_seq (tx_next_seq s) now s1;
                s3 = s2\<lparr>remote_window := saturating_sub (remote_window s2) 1, gatt_in_flight := True\<rparr>
            in (Some packet,
                if ends then s3\<lparr>tx_pending := None, tx_sent := 0\<rparr> else s3\<lparr>tx_sent := tx_sent s3 + payload_len\<rparr>))"

definition gatt_write_completed :: "btp_session \<Rightarrow> btp_session" where
  "gatt_write_completed s = s\<lparr>gatt_in_flight := False\<rparr>"

definition btp_handle_timeout :: "instant \<Rightarrow> (btp_session, btp_error, bytes option) comp" where
  "btp_handle_timeout now s =
     (if expecting_ack s \<and> (case tx_unacked_since s of None \<Rightarrow> False | Some since \<Rightarrow> now \<ge> since + ACK_TIMEOUT)
      then (Inl AckTimedOut, s)
      else case ack_due_at s of None \<Rightarrow> (Inr None, s)
      | Some due \<Rightarrow>
          if now < due then (Inr None, s)
          else case unacked_rx s of
              None \<Rightarrow> (Inr None, s\<lparr>ack_due_at := None\<rparr>)
            | Some ack_num \<Rightarrow>
                if gatt_in_flight s \<or> remote_window s = 0 then (Inr None, s)
                else
                  let s1 = s\<lparr>ack_due_at := None\<rparr>; seq = tx_next_seq s1;
                      s2 = (register_outbound_seq seq now s1)\<lparr>unacked_rx := None\<rparr>
                  in (Inr (Some [BTP_FLAG_ACK, ack_num, seq]),
                      s2\<lparr>remote_window := saturating_sub (remote_window s2) 1, gatt_in_flight := True,
                         local_window := local_window_max s2\<rparr>))"

end
