(* ===== verification/BTP_Link.thy ===== *)
theory BTP_Link
  imports BTP
begin

text \<open>
  Two session engines on a link that keeps order and loses nothing: no engine ever rejects a
  packet of the other, and every message queued at one end comes out at the other, in order.
\<close>

section \<open>Packets\<close>

text \<open>A packet as its sender means it; \<open>fr_first\<close> is the message length of a first fragment.\<close>

record fragment =
  fr_first :: "u16 option"
  fr_ends :: bool
  fr_payload :: bytes

record packet =
  pk_ack :: "u8 option"
  pk_seq :: u8
  pk_frag :: "fragment option"

definition flag_byte :: "packet \<Rightarrow> u8" where
  "flag_byte p =
     (let f1 = (case pk_frag p of None \<Rightarrow> 0
        | Some f \<Rightarrow> (if fr_first f \<noteq> None then BTP_FLAG_START else BTP_FLAG_CONTINUE)
            OR (if fr_ends f then BTP_FLAG_END else 0))
      in f1 OR (if pk_ack p \<noteq> None then BTP_FLAG_ACK else 0))"

definition frag_bytes :: "fragment \<Rightarrow> bytes" where
  "frag_bytes f = (case fr_first f of None \<Rightarrow> [] | Some n \<Rightarrow> to_le 2 n) @ fr_payload f"

definition render :: "packet \<Rightarrow> bytes" where
  "render p = [flag_byte p] @ (case pk_ack p of None \<Rightarrow> [] | Some a \<Rightarrow> [a]) @ [pk_seq p]
     @ (case pk_frag p of None \<Rightarrow> [] | Some f \<Rightarrow> frag_bytes f)"

lemmas btp_flag_defs = BTP_FLAG_START_def BTP_FLAG_CONTINUE_def BTP_FLAG_END_def BTP_FLAG_ACK_def

lemma flag_byte_tests:
  "flag_byte p AND BTP_FLAG_ACK = 0 \<longleftrightarrow> pk_ack p = None"
  "flag_byte p AND (BTP_FLAG_START OR BTP_FLAG_CONTINUE OR BTP_FLAG_END) = 0 \<longleftrightarrow> pk_frag p = None"
  "pk_frag p = Some f \<Longrightarrow> flag_byte p AND BTP_FLAG_START = 0 \<longleftrightarrow> fr_first f = None"
  "pk_frag p = Some f \<Longrightarrow> flag_byte p AND BTP_FLAG_CONTINUE = 0 \<longleftrightarrow> fr_first f \<noteq> None"
  "pk_frag p = Some f \<Longrightarrow> flag_byte p AND BTP_FLAG_END = 0 \<longleftrightarrow> \<not> fr_ends f"
  by (auto simp: flag_byte_def btp_flag_defs Let_def split: option.split)

section \<open>Reassembly as a function of fragments\<close>

fun reasm :: "u16 option \<times> bytes \<Rightarrow> fragment \<Rightarrow> ((u16 option \<times> bytes) \<times> bytes list) option" where
  "reasm (expected, buf) f =
     (let stored = (case (expected, fr_first f) of
            (None, Some n) \<Rightarrow> if unat n \<le> RX_REASSEMBLY_CAP then Some (n, fr_payload f) else None
          | (Some n, None) \<Rightarrow>
              if length buf + length (fr_payload f) \<le> RX_REASSEMBLY_CAP then Some (n, buf @ fr_payload f) else None
          | _ \<Rightarrow> None)
      in case stored of None \<Rightarrow> None
         | Some (n, b) \<Rightarrow>
             if \<not> fr_ends f then Some ((Some n, b), [])
             else if length b < unat n then None else Some ((None, []), [take (unat n) b]))"

fun reasm_all :: "u16 option \<times> bytes \<Rightarrow> packet list \<Rightarrow> ((u16 option \<times> bytes) \<times> bytes list) option" where
  "reasm_all st [] = Some (st, [])"
| "reasm_all st (p # ps) =
     (case pk_frag p of None \<Rightarrow> reasm_all st ps
      | Some f \<Rightarrow>
          (case reasm st f of None \<Rightarrow> None
           | Some (st1, out) \<Rightarrow> map_option (\<lambda>x. (fst x, out @ snd x)) (reasm_all st1 ps)))"

lemma reasm_all_snoc:
  assumes "reasm_all st ps = Some (st1, outs)"
  shows "reasm_all st (ps @ [p]) =
    (case pk_frag p of None \<Rightarrow> Some (st1, outs)
     | Some f \<Rightarrow> map_option (\<lambda>x. (fst x, outs @ snd x)) (reasm st1 f))"
  using assms
proof (induction ps arbitrary: st outs)
  case (Cons q ps)
  then show ?case
    by (auto simp: option.map_comp comp_def split: option.splits simp del: reasm.simps)
qed (auto split: option.split simp del: reasm.simps)

definition rx_state :: "btp_session \<Rightarrow> u16 option \<times> bytes" where
  "rx_state s = (rx_expected_len s, rx_buf s)"

text \<open>The sending half of an engine's state, and what both halves leave alone.\<close>

definition same_tx :: "btp_session \<Rightarrow> btp_session \<Rightarrow> bool" where
  "same_tx s t \<longleftrightarrow> tx_next_seq t = tx_next_seq s \<and> tx_oldest_unacked t = tx_oldest_unacked s \<and>
     tx_newest_unacked t = tx_newest_unacked s \<and> expecting_ack t = expecting_ack s \<and>
     remote_window t = remote_window s \<and> tx_pending t = tx_pending s \<and> tx_sent t = tx_sent s \<and>
     segment_size t = segment_size s \<and> local_window_max t = local_window_max s"

lemma owe_ack_fields:
  "same_tx s (owe_ack q now s)" "rx_next_seq (owe_ack q now s) = rx_next_seq s"
  "unacked_rx (owe_ack q now s) = Some q" "rx_state (owe_ack q now s) = rx_state s"
  "rx_expected_len (owe_ack q now s) = rx_expected_len s" "rx_buf (owe_ack q now s) = rx_buf s"
  by (simp_all add: owe_ack_def arm_ack_timer_def same_tx_def rx_state_def Let_def)

lemma store_part_reasm:
  assumes "pk_frag p = Some f" "reasm (rx_state s) f = Some (st, out)"
  shows "\<exists>t n. store_part (flag_byte p) (frag_bytes f) s = (Inr (), t) \<and> same_tx s t \<and>
    rx_next_seq t = rx_next_seq s \<and> rx_expected_len t = Some n \<and>
    (if fr_ends f then unat n \<le> length (rx_buf t) \<and> st = (None, []) \<and> out = [take (unat n) (rx_buf t)]
     else st = rx_state t \<and> out = [])"
proof (cases "rx_expected_len s")
  case None
  then obtain n where "fr_first f = Some n" "unat n \<le> RX_REASSEMBLY_CAP"
    using assms(2) by (auto simp: rx_state_def Let_def split: option.splits if_splits)
  with None assms(2) show ?thesis
    by (auto simp: store_part_def Let_def flag_byte_tests(3) [OF assms(1)] frag_bytes_def rx_state_def not_less same_tx_def
        split: if_splits)
next
  case (Some n)
  then have "fr_first f = None" "length (rx_buf s) + length (fr_payload f) \<le> RX_REASSEMBLY_CAP"
    using assms(2) by (auto simp: rx_state_def Let_def split: option.splits if_splits)
  with Some assms(2) show ?thesis
    by (auto simp: store_part_def Let_def flag_byte_tests(3,4) [OF assms(1)] frag_bytes_def rx_state_def not_less same_tx_def
        split: if_splits)
qed

lemma ack_part_render:
  assumes "case pk_ack p of None \<Rightarrow> s1 = s | Some a \<Rightarrow> receive_ack a s = (Inr (), s1)"
  shows "ack_part (flag_byte p) ((case pk_ack p of None \<Rightarrow> [] | Some a \<Rightarrow> [a]) @ rest) s = (Inr rest, s1)"
  using assms by (auto simp: ack_part_def flag_byte_tests(1) andthen_def split: option.splits)

lemma indication_render:
  assumes len: "length (render p) \<le> unat (segment_size s)"
    and ack: "case pk_ack p of None \<Rightarrow> s1 = s | Some a \<Rightarrow> receive_ack a s = (Inr (), s1)"
    and seq: "pk_seq p = rx_next_seq s1"
    and re: "case pk_frag p of None \<Rightarrow> st = rx_state s1 \<and> out = [] | Some f \<Rightarrow> reasm (rx_state s1) f = Some (st, out)"
  shows "\<exists>t r. on_indication (render p) now s = (Inr r, t) \<and> (case r of None \<Rightarrow> [] | Some m \<Rightarrow> [m]) = out \<and>
    same_tx s1 t \<and> rx_next_seq t = rx_next_seq s1 + 1 \<and> unacked_rx t = Some (pk_seq p) \<and> rx_state t = st"
proof -
  let ?pl = "case pk_frag p of None \<Rightarrow> [] | Some f \<Rightarrow> frag_bytes f"
  let ?s2 = "s1\<lparr>rx_next_seq := rx_next_seq s1 + 1\<rparr>"
  have a: "ack_part (flag_byte p) ((case pk_ack p of None \<Rightarrow> [] | Some a \<Rightarrow> [a]) @ pk_seq p # ?pl) s = (Inr (pk_seq p # ?pl), s1)"
    using ack by (rule ack_part_render)
  have b: "seq_part (pk_seq p # ?pl) s1 = (Inr (pk_seq p, ?pl), ?s2)"
    using seq by (simp add: seq_part_def)
  have ind: "on_indication (render p) now s =
      (if pk_frag p = None then (\<lambda>s1. (Inr None, owe_ack (pk_seq p) now s1))
       else andthen (store_part (flag_byte p) ?pl) (\<lambda>_ s1. end_part (flag_byte p) (owe_ack (pk_seq p) now s1))) ?s2"
    using len by (simp add: on_indication_def render_def andthen_def a b flag_byte_tests(2))
  have s2: "same_tx s1 ?s2" "rx_state ?s2 = rx_state s1" by (simp_all add: same_tx_def rx_state_def)
  show ?thesis
  proof (cases "pk_frag p")
    case None
    with ind re s2 owe_ack_fields [where s = ?s2 and q = "pk_seq p" and now = now] show ?thesis by (simp add: same_tx_def)
  next
    case (Some f)
    then have "reasm (rx_state ?s2) f = Some (st, out)" using re s2(2) by simp
    from store_part_reasm [OF Some this] obtain t n where
      t: "store_part (flag_byte p) (frag_bytes f) ?s2 = (Inr (), t)" "same_tx ?s2 t" "rx_next_seq t = rx_next_seq s1 + 1"
        "rx_expected_len t = Some n"
        "if fr_ends f then unat n \<le> length (rx_buf t) \<and> st = (None, []) \<and> out = [take (unat n) (rx_buf t)]
         else st = rx_state t \<and> out = []"
      by auto
    have "on_indication (render p) now s = end_part (flag_byte p) (owe_ack (pk_seq p) now t)"
      using ind t(1) Some by (simp add: andthen_def)
    then show ?thesis
      using t(2-) s2(1) owe_ack_fields [where s = t and q = "pk_seq p" and now = now]
      by (auto simp: end_part_def flag_byte_tests(5) [OF Some] Let_def same_tx_def rx_state_def)
  qed
qed

section \<open>Emission\<close>

definition pend :: "btp_session \<Rightarrow> bytes list" where
  "pend s = (case tx_pending s of None \<Rightarrow> [] | Some m \<Rightarrow> [m])"

text \<open>The fragmenter's progress, as the state in which it leaves the peer's reassembler.\<close>

definition tx_ok :: "btp_session \<Rightarrow> u16 option \<times> bytes \<Rightarrow> bool" where
  "tx_ok s st \<longleftrightarrow> (case tx_pending s of None \<Rightarrow> st = (None, []) \<and> tx_sent s = 0
     | Some m \<Rightarrow> length m \<le> RX_REASSEMBLY_CAP \<and>
         (if tx_sent s = 0 then st = (None, [])
          else tx_sent s < length m \<and> st = (Some (word_of_nat (length m)), take (tx_sent s) m)))"

definition emits_pk :: "btp_session \<Rightarrow> packet \<Rightarrow> btp_session \<Rightarrow> bool" where
  "emits_pk s p t \<longleftrightarrow> remote_window s \<noteq> 0 \<and> pk_seq p = tx_next_seq s \<and> pk_ack p = unacked_rx s \<and>
     length (render p) \<le> unat (segment_size s) \<and> tx_next_seq t = tx_next_seq s + 1 \<and> expecting_ack t \<and>
     tx_newest_unacked t = tx_next_seq s \<and>
     tx_oldest_unacked t = (if expecting_ack s then tx_oldest_unacked s else tx_next_seq s) \<and>
     remote_window t = saturating_sub (remote_window s) 1 \<and> unacked_rx t = None \<and> rx_state t = rx_state s \<and>
     rx_next_seq t = rx_next_seq s \<and> segment_size t = segment_size s \<and> local_window_max t = local_window_max s"

definition next_packet :: "bytes \<Rightarrow> btp_session \<Rightarrow> packet" where
  "next_packet m s = (case fragment_payload m s of (n, ends) \<Rightarrow>
     \<lparr>pk_ack = unacked_rx s, pk_seq = tx_next_seq s,
      pk_frag = Some \<lparr>fr_first = (if tx_sent s = 0 then Some (word_of_nat (length m)) else None), fr_ends = ends,
        fr_payload = take n (drop (tx_sent s) m)\<rparr>\<rparr>)"

lemma length_cap: "length m \<le> RX_REASSEMBLY_CAP \<Longrightarrow> length m < 2 ^ 16 \<and> unat (word_of_nat (length m) :: u16) = length m"
  by (simp add: RX_REASSEMBLY_CAP_def unat_of_nat)

lemma fragment_packet_render:
  assumes "length m \<le> RX_REASSEMBLY_CAP" "fragment_payload m s = (n, ends)"
  shows "fragment_packet m n ends s = render (next_packet m s)"
  using length_cap [OF assms(1)] assms(2)
  by (auto simp: fragment_packet_def next_packet_def render_def flag_byte_def frag_bytes_def Let_def or.assoc
      split: option.split)

lemma length_render_next:
  assumes "length m \<le> RX_REASSEMBLY_CAP" "6 \<le> unat (segment_size s)"
  shows "length (render (next_packet m s)) \<le> unat (segment_size s)"
  using assms(2)
  by (auto simp: render_def next_packet_def frag_bytes_def fragment_payload_def fragment_header_len_def Let_def
      split: option.split if_splits)

text \<open>What one fragment does to the reassembler.\<close>

lemma next_packet_reasm:
  assumes ok: "tx_ok s st" and m: "tx_pending s = Some m" and seg: "6 \<le> unat (segment_size s)"
    and frag: "fragment_payload m s = (n, ends)"
  obtains f where "pk_frag (next_packet m s) = Some f"
    "reasm st f = Some (if ends then ((None, []), [m])
      else ((Some (word_of_nat (length m)), take (tx_sent s + n) m), []))"
    "ends \<or> 0 < n \<and> tx_sent s + n < length m"
proof -
  have cap: "length m \<le> RX_REASSEMBLY_CAP" and sent: "tx_sent s \<le> length m"
    using ok m by (auto simp: tx_ok_def split: if_splits)
  have n: "if ends then n = length m - tx_sent s else 0 < n \<and> tx_sent s + n < length m"
    using frag seg by (auto simp: fragment_payload_def fragment_header_len_def Let_def split: if_splits)
  have all: "take (tx_sent s + n) m = take (tx_sent s) m @ take n (drop (tx_sent s) m)"
    by (rule take_add)
  have whole: "ends \<Longrightarrow> take (tx_sent s) m @ take n (drop (tx_sent s) m) = m"
    using n by (simp flip: all)
  let ?f = "\<lparr>fr_first = (if tx_sent s = 0 then Some (word_of_nat (length m)) else None), fr_ends = ends,
        fr_payload = take n (drop (tx_sent s) m)\<rparr> :: fragment"
  have "length (take (tx_sent s) m) + length (take n (drop (tx_sent s) m)) \<le> length m" using sent by simp
  then have "reasm st ?f = Some (if ends then ((None, []), [m])
      else ((Some (word_of_nat (length m)), take (tx_sent s + n) m), []))"
    using ok m cap length_cap [OF cap] all whole
    by (auto simp: tx_ok_def Let_def split: if_splits)
  moreover have "pk_frag (next_packet m s) = Some ?f" using frag by (simp add: next_packet_def)
  ultimately show thesis using that n by (metis)
qed

lemma register_fields:
  "tx_next_seq (register_outbound_seq q now s) = tx_next_seq s + 1" "expecting_ack (register_outbound_seq q now s)"
  "tx_newest_unacked (register_outbound_seq q now s) = q"
  "tx_oldest_unacked (register_outbound_seq q now s) = (if expecting_ack s then tx_oldest_unacked s else q)"
  "remote_window (register_outbound_seq q now s) = remote_window s" "unacked_rx (register_outbound_seq q now s) = unacked_rx s"
  "rx_expected_len (register_outbound_seq q now s) = rx_expected_len s" "rx_buf (register_outbound_seq q now s) = rx_buf s"
  "rx_next_seq (register_outbound_seq q now s) = rx_next_seq s" "segment_size (register_outbound_seq q now s) = segment_size s"
  "local_window_max (register_outbound_seq q now s) = local_window_max s"
  "tx_pending (register_outbound_seq q now s) = tx_pending s" "tx_sent (register_outbound_seq q now s) = tx_sent s"
  by (simp_all add: register_outbound_seq_def Let_def)

lemma write_emits:
  assumes seg: "6 \<le> unat (segment_size s)" and ok: "tx_ok s st" and w: "next_gatt_write now s = (Some bs, t)"
  obtains p f st' out where "bs = render p" "emits_pk s p t" "pk_frag p = Some f" "reasm st f = Some (st', out)"
    "tx_ok t st'" "out @ pend t = pend s"
proof -
  from w obtain m where m: "tx_pending s = Some m" and win: "remote_window s \<noteq> 0"
    by (auto simp: next_gatt_write_def split: if_splits option.splits)
  obtain n ends where frag: "fragment_payload m s = (n, ends)" by fastforce
  have cap: "length m \<le> RX_REASSEMBLY_CAP" using ok m by (simp add: tx_ok_def)
  have bs: "bs = render (next_packet m s)"
    using w m fragment_packet_render [OF cap frag]
    by (auto simp: next_gatt_write_def frag Let_def split: if_splits)
  have tx: "tx_pending t = (if ends then None else Some m)" "tx_sent t = (if ends then 0 else tx_sent s + n)"
    using w m by (auto simp: next_gatt_write_def frag Let_def register_fields split: if_splits)
  have em: "emits_pk s (next_packet m s) t"
    using w m win length_render_next [OF cap seg]
    by (auto simp: emits_pk_def next_gatt_write_def frag Let_def register_fields rx_state_def next_packet_def split: if_splits)
  obtain f where f: "pk_frag (next_packet m s) = Some f"
    "reasm st f = Some (if ends then ((None, []), [m])
      else ((Some (word_of_nat (length m)), take (tx_sent s + n) m), []))"
    "ends \<or> 0 < n \<and> tx_sent s + n < length m"
    using ok m seg frag by (rule next_packet_reasm)
  show thesis
  proof (cases ends)
    case True
    with f have "reasm st f = Some ((None, []), [m])" by simp
    then show thesis
      using True tx m by (intro that [OF bs em f(1)]) (auto simp: tx_ok_def pend_def)
  next
    case False
    with f have "reasm st f = Some ((Some (word_of_nat (length m)), take (tx_sent s + n) m), [])" by simp
    then show thesis
      using False tx m f(3) cap by (intro that [OF bs em f(1)]) (auto simp: tx_ok_def pend_def)
  qed
qed

lemma timeout_emits:
  assumes "btp_handle_timeout now s = (Inr r, t)" "6 \<le> unat (segment_size s)"
  shows "tx_pending t = tx_pending s \<and> tx_sent t = tx_sent s \<and>
    (case r of None \<Rightarrow> same_tx s t \<and> rx_state t = rx_state s \<and> rx_next_seq t = rx_next_seq s \<and> unacked_rx t = unacked_rx s
     | Some bs \<Rightarrow> \<exists>p. bs = render p \<and> emits_pk s p t \<and> pk_frag p = None)"
proof (cases r)
  case None
  then show ?thesis
    using assms by (auto simp: btp_handle_timeout_def Let_def same_tx_def rx_state_def split: if_splits option.splits)
next
  case (Some bs)
  then obtain a where a: "unacked_rx s = Some a" "bs = [BTP_FLAG_ACK, a, tx_next_seq s]"
    using assms(1) by (auto simp: btp_handle_timeout_def Let_def split: if_splits option.splits)
  let ?p = "\<lparr>pk_ack = Some a, pk_seq = tx_next_seq s, pk_frag = None\<rparr> :: packet"
  have "bs = render ?p" using a(2) by (simp add: render_def flag_byte_def)
  moreover have "emits_pk s ?p t" "tx_pending t = tx_pending s \<and> tx_sent t = tx_sent s"
    using assms a Some
    by (auto simp: btp_handle_timeout_def Let_def emits_pk_def register_fields rx_state_def render_def
        split: if_splits option.splits)
  ultimately show ?thesis using Some by auto
qed

section \<open>Acknowledgements\<close>

lemma mod_256_add: "x < 256 \<Longrightarrow> d < 256 \<Longrightarrow> (x + d) mod 256 = (if x + d < 256 then x + d else x + d - (256 :: nat))"
  by (simp add: mod_if)

lemma low_byte: "unat (ucast (x AND 0xFF :: u16) :: u8) = unat x mod 256"
proof -
  have "(0xFF :: u16) = mask 8" by (simp add: mask_eq_exp_minus_1)
  then have "x AND 0xFF = take_bit 8 x" by (simp only: take_bit_eq_mask)
  then show ?thesis by (simp add: unsigned_ucast_eq take_bit_eq_mod unat_mod_distrib)
qed

text \<open>
  The credit after an acknowledgement that leaves \<open>d\<close> packets outstanding: the window less
  \<open>d\<close>, and one more when the newest sequence number has wrapped past the acknowledged one.
\<close>

lemma adjust_credit:
  assumes newest: "tx_newest_unacked s = ack + word_of_nat d" and d: "d \<le> unat (local_window_max s)"
  shows "unat (adjust_remote_window ack s) =
    unat (local_window_max s) - d + (if unat ack + d < 256 then 0 else 1)"
proof -
  define a w where "a = unat ack" and "w = unat (local_window_max s)"
  have aw: "a < 256" "w < 256" using unat_bound [of ack] unat_bound [of "local_window_max s"] by (simp_all add: a_def w_def)
  then have dw: "d < 256" "d \<le> w" using d by (simp_all add: w_def)
  let ?b = "ucast ack + ucast (local_window_max s) :: u16"
  let ?n = "ucast (tx_newest_unacked s) :: u16"
  have b: "unat ?b = a + w"
    using aw by (simp add: unat_word_ariths unat_ucast_up a_def w_def)
  have n: "unat ?n = (if a + d < 256 then a + d else a + d - 256)"
    using aw dw mod_256_add [of a d] by (simp add: unat_ucast_up newest unat_word_ariths unat_of_nat a_def)
  have ua: "unat (ucast ack :: u16) = a" by (simp add: unat_ucast_up a_def)
  show ?thesis
  proof (cases "a + d < 256")
    case True
    then have "\<not> ?n < ucast ack" using n ua by (simp add: word_less_nat_alt)
    moreover have "unat (?b - ?n) = w - d"
      using b n True dw by (subst unat_sub) (simp_all add: word_le_nat_alt)
    ultimately show ?thesis
      using True aw by (simp add: adjust_remote_window_def Let_def low_byte flip: a_def w_def)
  next
    case False
    have "?n < ucast ack" "?b > 255" using n b ua False aw dw by (simp_all add: word_less_nat_alt)
    moreover have "unat (?n + 255) = a + d - 1" using n False aw dw by (simp add: unat_word_ariths)
    then have "unat (?b - (?n + 255)) = w - d + 1"
      using b False dw by (subst unat_sub) (simp_all add: word_le_nat_alt)
    ultimately show ?thesis
      using False aw dw by (simp add: adjust_remote_window_def Let_def low_byte flip: a_def w_def)
  qed
qed

text \<open>Counting the packets sent (\<open>n\<close>) and acknowledged (\<open>k\<close>) without wrap-around.\<close>

definition tx_counts :: "nat \<Rightarrow> nat \<Rightarrow> btp_session \<Rightarrow> bool" where
  "tx_counts n k s \<longleftrightarrow> k \<le> n \<and> tx_next_seq s = word_of_nat n \<and> (expecting_ack s \<longleftrightarrow> k < n) \<and>
     (k < n \<longrightarrow> tx_oldest_unacked s = word_of_nat k \<and> tx_newest_unacked s = word_of_nat (n - 1)) \<and>
     n - k + unat (remote_window s) \<le> unat (local_window_max s) + 1"

lemma in_interval:
  assumes "k < c" "c \<le> n" "n - k \<le> 256"
  shows "if (word_of_nat (n - 1) :: u8) \<ge> word_of_nat k
      then (word_of_nat (c - 1) :: u8) \<le> word_of_nat (n - 1) \<and> (word_of_nat (c - 1) :: u8) \<ge> word_of_nat k
      else (word_of_nat (c - 1) :: u8) \<le> word_of_nat (n - 1) \<or> (word_of_nat (c - 1) :: u8) \<ge> word_of_nat k"
    and "(word_of_nat (n - 1) :: u8) = word_of_nat (c - 1) \<longleftrightarrow> n = c"
proof -
  define x l j where "x = k mod 256" and "l = n - 1 - k" and "j = c - 1 - k"
  have jl: "j \<le> l" "l < 256" "x < 256" using assms by (auto simp: x_def l_def j_def)
  have e: "n - 1 = k + l" "c - 1 = k + j" using assms by (auto simp: l_def j_def)
  have w: "unat (word_of_nat i :: u8) = i mod 256" for i by (simp add: unat_of_nat)
  have u: "unat (word_of_nat (n - 1) :: u8) = (if x + l < 256 then x + l else x + l - 256)"
    "unat (word_of_nat (c - 1) :: u8) = (if x + j < 256 then x + j else x + j - 256)" "unat (word_of_nat k :: u8) = x"
    unfolding w e using jl mod_256_add [of x l] mod_256_add [of x j] by (simp_all add: x_def mod_add_left_eq)
  show "if (word_of_nat (n - 1) :: u8) \<ge> word_of_nat k
      then (word_of_nat (c - 1) :: u8) \<le> word_of_nat (n - 1) \<and> (word_of_nat (c - 1) :: u8) \<ge> word_of_nat k
      else (word_of_nat (c - 1) :: u8) \<le> word_of_nat (n - 1) \<or> (word_of_nat (c - 1) :: u8) \<ge> word_of_nat k"
    using jl u by (auto simp: word_le_nat_alt)
  have "n = c \<longleftrightarrow> j = l" using assms by (auto simp: l_def j_def)
  then show "(word_of_nat (n - 1) :: u8) = word_of_nat (c - 1) \<longleftrightarrow> n = c"
    using jl u by (auto simp: word_unat_eq_iff split: if_splits)
qed

definition same_rx :: "btp_session \<Rightarrow> btp_session \<Rightarrow> bool" where
  "same_rx s t \<longleftrightarrow> rx_state t = rx_state s \<and> rx_next_seq t = rx_next_seq s \<and> unacked_rx t = unacked_rx s \<and>
     segment_size t = segment_size s"

lemma receive_ack_counts:
  assumes n: "tx_counts n k s" and c: "k < c" "c \<le> n"
  obtains t where "receive_ack (word_of_nat (c - 1)) s = (Inr (), t)" "tx_counts n c t" "same_rx s t"
    "tx_pending t = tx_pending s" "tx_sent t = tx_sent s" "local_window_max t = local_window_max s"
proof -
  let ?a = "word_of_nat (c - 1) :: u8"
  have s: "expecting_ack s" "tx_oldest_unacked s = word_of_nat k" "tx_newest_unacked s = word_of_nat (n - 1)"
    "n - k + unat (remote_window s) \<le> unat (local_window_max s) + 1" "tx_next_seq s = word_of_nat n"
    using n c by (auto simp: tx_counts_def)
  have "unat (local_window_max s) < 256" using unat_bound [of "local_window_max s"] by simp
  then have "n - k \<le> 256" using s(4) by linarith
  note iv = in_interval [OF c this]
  define s1 where "s1 = (if n = c then s\<lparr>tx_oldest_unacked := ?a, expecting_ack := False, tx_unacked_since := None\<rparr>
      else s\<lparr>tx_oldest_unacked := ?a + 1\<rparr>)"
  define t where "t = s1\<lparr>remote_window := adjust_remote_window ?a s1\<rparr>"
  have r: "receive_ack ?a s = (Inr (), t)"
    unfolding receive_ack_def Let_def s(2,3) iv(1) [THEN eqTrueI] iv(2) using s(1) by (simp add: t_def s1_def)
  have d: "n - c \<le> unat (local_window_max s)" using s(4) c by linarith
  have lw: "local_window_max s1 = local_window_max s" by (simp add: s1_def)
  have "tx_newest_unacked s1 = ?a + word_of_nat (n - c)"
    using s(3) c by (simp add: s1_def flip: of_nat_add)
  from adjust_credit [OF this] d have "unat (adjust_remote_window ?a s1) =
      unat (local_window_max s) - (n - c) + (if unat ?a + (n - c) < 256 then 0 else 1)"
    unfolding lw by blast
  then have "unat (remote_window t) \<le> unat (local_window_max s) - (n - c) + 1"
    by (simp only: t_def) (simp split: if_splits)
  then have "n - c + unat (remote_window t) \<le> unat (local_window_max s) + 1" using d by linarith
  moreover have "word_of_nat (Suc (c - 1)) = ?a + 1" by (simp only: of_nat_Suc add.commute)
  then have "?a + 1 = word_of_nat c" using c by simp
  moreover have "tx_next_seq t = word_of_nat n" "expecting_ack t \<longleftrightarrow> c < n" "local_window_max t = local_window_max s"
    "c < n \<Longrightarrow> tx_oldest_unacked t = ?a + 1 \<and> tx_newest_unacked t = word_of_nat (n - 1)"
    using s c by (auto simp: t_def s1_def)
  ultimately have "tx_counts n c t" using c by (simp add: tx_counts_def)
  with r show thesis by (rule that) (simp_all add: t_def s1_def same_rx_def rx_state_def)
qed

lemma emits_counts:
  assumes "tx_counts n k s" "emits_pk s p t"
  shows "tx_counts (n + 1) k t" "pk_seq p = word_of_nat n"
proof -
  have "remote_window s \<noteq> 0" "remote_window t = saturating_sub (remote_window s) 1"
    using assms(2) by (simp_all add: emits_pk_def)
  then have "unat (remote_window t) + 1 = unat (remote_window s)"
    by (simp add: saturating_sub_def word_le_nat_alt unat_sub unat_gt_0 [symmetric] Suc_le_eq)
  then show "tx_counts (n + 1) k t"
    using assms by (auto simp: tx_counts_def emits_pk_def)
  show "pk_seq p = word_of_nat n" using assms by (simp add: tx_counts_def emits_pk_def)
qed

section \<open>One direction of the link\<close>

text \<open>
  Packets \<open>pa\<close> are on their way from \<open>A\<close> to \<open>B\<close>, and \<open>pb\<close> back; \<open>q\<close> are the messages
  queued at \<open>A\<close> so far and \<open>g\<close> those that came out at \<open>B\<close>. Of the \<open>n\<close> packets \<open>A\<close> sent, \<open>B\<close>
  has received all but those in \<open>pa\<close>; the acknowledgements in \<open>pb\<close> stand for the increasing
  counts \<open>cs\<close> above the \<open>k\<close> that \<open>A\<close> knows of.
\<close>

definition acks_for :: "nat \<Rightarrow> nat \<Rightarrow> packet list \<Rightarrow> btp_session \<Rightarrow> bool" where
  "acks_for k r pb B \<longleftrightarrow> (\<exists>cs. List.map_filter pk_ack pb = map (\<lambda>c. word_of_nat (c - 1)) cs \<and>
     sorted_wrt (<) (k # cs) \<and> last (k # cs) \<le> r \<and>
     (\<forall>v. unacked_rx B = Some v \<longrightarrow> v = word_of_nat (r - 1) \<and> last (k # cs) < r))"

definition data_for :: "btp_session \<Rightarrow> btp_session \<Rightarrow> packet list \<Rightarrow> bytes list \<Rightarrow> bytes list \<Rightarrow> bool" where
  "data_for A B pa q g \<longleftrightarrow> (\<exists>st outs. reasm_all (rx_state B) pa = Some (st, outs) \<and> tx_ok A st \<and> g @ outs @ pend A = q)"

definition link_dir :: "btp_session \<Rightarrow> btp_session \<Rightarrow> packet list \<Rightarrow> packet list \<Rightarrow> bytes list \<Rightarrow> bytes list \<Rightarrow> bool" where
  "link_dir A B pa pb q g \<longleftrightarrow> (\<exists>n k. tx_counts n k A \<and> length pa \<le> n \<and>
     map pk_seq pa = map word_of_nat [n - length pa ..< n] \<and> rx_next_seq B = word_of_nat (n - length pa) \<and>
     acks_for k (n - length pa) pb B) \<and> data_for A B pa q g \<and>
     (\<forall>p\<in>set pa. length (render p) \<le> unat (segment_size B)) \<and>
     segment_size A = segment_size B \<and> 6 \<le> unat (segment_size B)"

lemma link_dirI:
  assumes "tx_counts n k A" "length pa \<le> n" "map pk_seq pa = map word_of_nat [n - length pa ..< n]"
    "rx_next_seq B = word_of_nat (n - length pa)" "acks_for k (n - length pa) pb B" "data_for A B pa q g"
    "\<forall>p\<in>set pa. length (render p) \<le> unat (segment_size B)" "segment_size A = segment_size B"
    "6 \<le> unat (segment_size B)"
  shows "link_dir A B pa pb q g"
  unfolding link_dir_def using assms by blast

lemma tx_data_cong:
  assumes "tx_pending A' = tx_pending A" "tx_sent A' = tx_sent A"
  shows "tx_ok A' st \<longleftrightarrow> tx_ok A st" "pend A' = pend A"
  using assms by (cases "tx_pending A"; simp add: tx_ok_def pend_def)+

lemma link_dir_cong:
  assumes "same_tx A A'" "same_rx B B'"
  shows "link_dir A B pa pb q g \<longleftrightarrow> link_dir A' B' pa pb q g"
proof -
  have "tx_counts n k A' \<longleftrightarrow> tx_counts n k A" "tx_ok A' st \<longleftrightarrow> tx_ok A st" "pend A' = pend A"
    "segment_size A' = segment_size A" for n k st
    using assms(1) by (simp_all add: same_tx_def tx_counts_def tx_data_cong [of A' A])
  moreover have "acks_for k r pb B' \<longleftrightarrow> acks_for k r pb B" "rx_state B' = rx_state B" "rx_next_seq B' = rx_next_seq B"
    "segment_size B' = segment_size B" for k r
    using assms(2) by (simp_all add: same_rx_def acks_for_def)
  ultimately show ?thesis by (simp only: link_dir_def data_for_def)
qed

lemma le_last: "sorted_wrt (<) xs \<Longrightarrow> x \<in> set xs \<Longrightarrow> x \<le> (last xs :: nat)"
  by (induction xs) (auto intro: less_imp_le)

lemma map_filter_snoc: "List.map_filter f (xs @ [x]) = List.map_filter f xs @ (case f x of None \<Rightarrow> [] | Some y \<Rightarrow> [y])"
  by (simp add: List.map_filter_def split: option.split)

lemma map_filter_Cons: "List.map_filter f (x # xs) = (case f x of None \<Rightarrow> [] | Some y \<Rightarrow> [y]) @ List.map_filter f xs"
  by (simp add: List.map_filter_def split: option.split)

lemma acks_emit:
  assumes "acks_for k r pb B" "pk_ack p = unacked_rx B" "unacked_rx B' = None"
  shows "acks_for k r (pb @ [p]) B'"
proof -
  from assms(1) obtain cs where cs: "List.map_filter pk_ack pb = map (\<lambda>c. word_of_nat (c - 1)) cs"
    "sorted_wrt (<) (k # cs)" "last (k # cs) \<le> r"
    "\<And>v. unacked_rx B = Some v \<Longrightarrow> v = word_of_nat (r - 1) \<and> last (k # cs) < r"
    by (auto simp: acks_for_def)
  show ?thesis
  proof (cases "unacked_rx B")
    case None
    with cs assms show ?thesis unfolding acks_for_def by (intro exI [of _ cs]) (simp add: map_filter_snoc)
  next
    case (Some v)
    with cs(4) have v: "v = word_of_nat (r - 1)" "last (k # cs) < r" by auto
    then have "x < r" if "x \<in> set (k # cs)" for x using le_last [OF cs(2) that] by linarith
    then have "sorted_wrt (<) (k # cs @ [r])" using cs(2) by (simp add: sorted_wrt_append)
    with cs(1) v assms Some show ?thesis
      unfolding acks_for_def by (intro exI [of _ "cs @ [r]"]) (simp add: map_filter_snoc)
  qed
qed

lemma acks_receive: "acks_for k r pb B \<Longrightarrow> unacked_rx B' = Some (word_of_nat r) \<Longrightarrow> acks_for k (r + 1) pb B'"
  unfolding acks_for_def by fastforce

lemma acks_head:
  assumes "acks_for k r (p # pb) B"
  shows "case pk_ack p of None \<Rightarrow> acks_for k r pb B
    | Some a \<Rightarrow> \<exists>c. a = word_of_nat (c - 1) \<and> k < c \<and> c \<le> r \<and> acks_for c r pb B"
proof (cases "pk_ack p")
  case None
  with assms show ?thesis by (simp add: acks_for_def map_filter_Cons)
next
  case (Some a)
  have "List.map_filter pk_ack (p # pb) = a # List.map_filter pk_ack pb"
    by (simp add: map_filter_Cons Some)
  with assms obtain cs where cs: "a # List.map_filter pk_ack pb = map (\<lambda>c. word_of_nat (c - 1)) cs"
    "sorted_wrt (<) (k # cs)" "last (k # cs) \<le> r"
    "\<forall>v. unacked_rx B = Some v \<longrightarrow> v = word_of_nat (r - 1) \<and> last (k # cs) < r"
    unfolding acks_for_def by metis
  then obtain c cs' where c: "cs = c # cs'" by (cases cs) auto
  then have "c \<le> r" using le_last [OF cs(2), of c] cs(3) by simp
  moreover have "acks_for c r pb B"
    unfolding acks_for_def using cs c by (intro exI [of _ cs']) simp
  moreover have "a = word_of_nat (c - 1)" "k < c" using cs(1,2) c by simp_all
  ultimately show ?thesis unfolding Some option.case by (intro exI [of _ c] conjI)
qed

text \<open>The four events of a direction: a packet or an acknowledgement leaves or arrives.\<close>

lemma dir_peer_emits:
  assumes "link_dir A B pa pb q g" "emits_pk B p B'"
  shows "link_dir A B' pa (pb @ [p]) q g"
proof -
  have B': "rx_state B' = rx_state B" "rx_next_seq B' = rx_next_seq B" "segment_size B' = segment_size B"
    "acks_for k r pb B \<Longrightarrow> acks_for k r (pb @ [p]) B'" for k r
    using assms(2) acks_emit by (simp_all add: emits_pk_def)
  show ?thesis
    using assms(1) B'(4) unfolding link_dir_def data_for_def B'(1-3) by blast
qed

lemma dir_emits:
  assumes d: "link_dir A B pa pb q g" and e: "emits_pk A p A'" and data: "data_for A' B (pa @ [p]) q g"
  shows "link_dir A' B (pa @ [p]) pb q g"
proof -
  obtain n k where n: "tx_counts n k A" "length pa \<le> n" "map pk_seq pa = map word_of_nat [n - length pa ..< n]"
    "rx_next_seq B = word_of_nat (n - length pa)" "acks_for k (n - length pa) pb B"
    using d by (auto simp: link_dir_def)
  note n' = emits_counts [OF n(1) e]
  have "map pk_seq (pa @ [p]) = map word_of_nat [n + 1 - length (pa @ [p]) ..< n + 1]"
    using n(2,3) n'(2) by simp
  moreover have "length (render p) \<le> unat (segment_size A)" "segment_size A' = segment_size A"
    using e by (simp_all add: emits_pk_def)
  ultimately show ?thesis
    using n n' data d unfolding link_dir_def
    by (intro conjI exI [of _ "n + 1"] exI [of _ k]) auto
qed

lemma dir_acked:
  assumes d: "link_dir A B pa (p # pb) q g"
  obtains A1 where "case pk_ack p of None \<Rightarrow> A1 = A | Some a \<Rightarrow> receive_ack a A = (Inr (), A1)"
    "same_rx A A1" "link_dir A1 B pa pb q g"
proof -
  obtain n k where n: "tx_counts n k A" "length pa \<le> n" "map pk_seq pa = map word_of_nat [n - length pa ..< n]"
    "rx_next_seq B = word_of_nat (n - length pa)" "acks_for k (n - length pa) (p # pb) B"
    using d by (auto simp: link_dir_def)
  show thesis
  proof (cases "pk_ack p")
    case None
    then have "acks_for k (n - length pa) pb B" using acks_head [OF n(5)] by simp
    with n d have "link_dir A B pa pb q g" unfolding link_dir_def by blast
    with None show thesis by (intro that [of A]) (simp_all add: same_rx_def)
  next
    case (Some a)
    then obtain c where c: "a = word_of_nat (c - 1)" "k < c" "c \<le> n - length pa" "acks_for c (n - length pa) pb B"
      using acks_head [OF n(5)] by auto
    then have "c \<le> n" by simp
    with n(1) c(2) obtain t where t: "receive_ack (word_of_nat (c - 1)) A = (Inr (), t)" "tx_counts n c t" "same_rx A t"
      "tx_pending t = tx_pending A" "tx_sent t = tx_sent A" by (rule receive_ack_counts)
    have "data_for t B pa q g"
      using d unfolding link_dir_def data_for_def tx_data_cong [OF t(4,5)] by blast
    moreover have "segment_size t = segment_size A" using t(3) by (simp add: same_rx_def)
    ultimately have "link_dir t B pa pb q g"
      using d by (intro link_dirI [OF t(2) n(2-4) c(4)]) (simp_all add: link_dir_def)
    with t Some c(1) show thesis by (intro that [of t]) simp_all
  qed
qed

lemma dir_head:
  assumes d: "link_dir A B (p # pa) pb q g"
  obtains st out where "pk_seq p = rx_next_seq B" "length (render p) \<le> unat (segment_size B)"
    "case pk_frag p of None \<Rightarrow> st = rx_state B \<and> out = [] | Some f \<Rightarrow> reasm (rx_state B) f = Some (st, out)"
    "\<forall>B'. rx_state B' = st \<and> rx_next_seq B' = rx_next_seq B + 1 \<and> unacked_rx B' = Some (pk_seq p) \<and>
       segment_size B' = segment_size B \<longrightarrow> link_dir A B' pa pb q (g @ out)"
proof -
  obtain n k where n: "tx_counts n k A" "length (p # pa) \<le> n"
    "map pk_seq (p # pa) = map word_of_nat [n - length (p # pa) ..< n]"
    "rx_next_seq B = word_of_nat (n - length (p # pa))" "acks_for k (n - length (p # pa)) pb B"
    using d by (auto simp: link_dir_def)
  define r where "r = n - length (p # pa)"
  have r: "n - length pa = r + 1" "[r ..< n] = r # [r + 1 ..< n]"
    using n(2) by (auto simp: r_def upt_conv_Cons)
  have seqs: "pk_seq p = word_of_nat r" "map pk_seq pa = map word_of_nat [r + 1 ..< n]"
    using n(3) unfolding r_def [symmetric] r(2) by simp_all
  obtain st outs where data: "reasm_all (rx_state B) (p # pa) = Some (st, outs)" "tx_ok A st" "g @ outs @ pend A = q"
    using d by (auto simp: link_dir_def data_for_def)
  obtain st1 out outs1 where one:
    "case pk_frag p of None \<Rightarrow> st1 = rx_state B \<and> out = [] | Some f \<Rightarrow> reasm (rx_state B) f = Some (st1, out)"
    "reasm_all st1 pa = Some (st, outs1)" "outs = out @ outs1"
    using data(1) by (auto simp del: reasm.simps split: option.splits)
  show thesis
  proof (rule that [OF _ _ one(1)])
    show "pk_seq p = rx_next_seq B" using seqs(1) n(4) by (simp add: r_def)
    show "length (render p) \<le> unat (segment_size B)" using d by (simp add: link_dir_def)
    show "\<forall>B'. rx_state B' = st1 \<and> rx_next_seq B' = rx_next_seq B + 1 \<and> unacked_rx B' = Some (pk_seq p) \<and>
       segment_size B' = segment_size B \<longrightarrow> link_dir A B' pa pb q (g @ out)"
    proof (intro allI impI, elim conjE)
      fix B' assume B': "rx_state B' = st1" "rx_next_seq B' = rx_next_seq B + 1" "unacked_rx B' = Some (pk_seq p)"
        "segment_size B' = segment_size B"
      have "rx_next_seq B' = word_of_nat (n - length pa)" using B'(2) n(4) r(1) by (simp add: r_def)
      moreover have "acks_for k (n - length pa) pb B'"
        using acks_receive [OF n(5), of B'] B'(3) seqs(1) r(1) by (simp add: r_def)
      moreover have "data_for A B' pa q (g @ out)" using B'(1) one(2,3) data by (auto simp: data_for_def)
      moreover have "map pk_seq pa = map word_of_nat [n - length pa ..< n]" "length pa \<le> n"
        using seqs(2) r(1) n(2) by simp_all
      ultimately show "link_dir A B' pa pb q (g @ out)"
        using d B'(4) by (intro link_dirI [OF n(1)]) (simp_all add: link_dir_def)
    qed
  qed
qed

lemma deliver_ok:
  assumes "link_dir A B (p # pa) pb q g" "link_dir B A pb (p # pa) q' g'"
  obtains r B' where "on_indication (render p) now B = (Inr r, B')"
    "link_dir A B' pa pb q (g @ (case r of None \<Rightarrow> [] | Some m \<Rightarrow> [m]))" "link_dir B' A pb pa q' g'"
proof -
  obtain B1 where ack: "case pk_ack p of None \<Rightarrow> B1 = B | Some a \<Rightarrow> receive_ack a B = (Inr (), B1)"
    and B1: "same_rx B B1" "link_dir B1 A pb pa q' g'"
    using assms(2) by (rule dir_acked)
  obtain st out where head: "pk_seq p = rx_next_seq B" "length (render p) \<le> unat (segment_size B)"
    "case pk_frag p of None \<Rightarrow> st = rx_state B \<and> out = [] | Some f \<Rightarrow> reasm (rx_state B) f = Some (st, out)"
    and rest: "\<forall>B'. rx_state B' = st \<and> rx_next_seq B' = rx_next_seq B + 1 \<and> unacked_rx B' = Some (pk_seq p) \<and>
       segment_size B' = segment_size B \<longrightarrow> link_dir A B' pa pb q (g @ out)"
    using assms(1) by (rule dir_head)
  have rx: "rx_state B1 = rx_state B" "rx_next_seq B1 = rx_next_seq B" "segment_size B1 = segment_size B"
    using B1(1) by (simp_all add: same_rx_def)
  obtain t r where t: "on_indication (render p) now B = (Inr r, t)" "(case r of None \<Rightarrow> [] | Some m \<Rightarrow> [m]) = out"
    "same_tx B1 t" "rx_next_seq t = rx_next_seq B1 + 1" "unacked_rx t = Some (pk_seq p)" "rx_state t = st"
    using indication_render [OF head(2) ack, unfolded rx, OF head(1,3), of now] rx(2) by auto
  have "link_dir A t pa pb q (g @ out)"
    using rest t rx by (simp add: same_tx_def)
  moreover have "link_dir t A pb pa q' g'"
    using B1(2) link_dir_cong [OF t(3), of A A] by (simp add: same_rx_def)
  ultimately show thesis using that t(1,2) by blast
qed

section \<open>The link\<close>

record link =
  end_a :: btp_session
  end_b :: btp_session
  to_b :: "bytes list"
  to_a :: "bytes list"
  queued_a :: "bytes list"
  queued_b :: "bytes list"
  got_a :: "bytes list"
  got_b :: "bytes list"

definition link_swap :: "link \<Rightarrow> link" where
  "link_swap l = \<lparr>end_a = end_b l, end_b = end_a l, to_b = to_a l, to_a = to_b l, queued_a = queued_b l,
     queued_b = queued_a l, got_a = got_b l, got_b = got_a l\<rparr>"

text \<open>
  One call on one engine, with the packets it hands out put on the link and those it takes in
  taken off; calls that fail are not steps. By \<open>l_swapped\<close> both ends make all the steps.
\<close>

inductive link_step :: "link \<Rightarrow> link \<Rightarrow> bool" where
  l_queue: "length sdu \<le> RX_REASSEMBLY_CAP \<Longrightarrow> queue_message sdu (end_a l) = (Inr (), a) \<Longrightarrow>
     link_step l (l\<lparr>end_a := a, queued_a := queued_a l @ [sdu]\<rparr>)"
| l_write: "next_gatt_write now (end_a l) = (Some p, a) \<Longrightarrow> link_step l (l\<lparr>end_a := a, to_b := to_b l @ [p]\<rparr>)"
| l_completed: "link_step l (l\<lparr>end_a := gatt_write_completed (end_a l)\<rparr>)"
| l_timeout: "btp_handle_timeout now (end_a l) = (Inr r, a) \<Longrightarrow>
     link_step l (l\<lparr>end_a := a, to_b := to_b l @ (case r of None \<Rightarrow> [] | Some p \<Rightarrow> [p])\<rparr>)"
| l_deliver: "to_a l = p # ps \<Longrightarrow> on_indication p now (end_a l) = (Inr r, a) \<Longrightarrow>
     link_step l (l\<lparr>end_a := a, to_a := ps, got_a := got_a l @ (case r of None \<Rightarrow> [] | Some m \<Rightarrow> [m])\<rparr>)"
| l_swapped: "link_step l l' \<Longrightarrow> link_step (link_swap l) (link_swap l')"

definition link_init :: "u16 \<Rightarrow> u8 \<Rightarrow> instant \<Rightarrow> instant \<Rightarrow> link" where
  "link_init seg win now now' = \<lparr>end_a = btp_new Central seg win now, end_b = btp_new Peripheral seg win now',
     to_b = [], to_a = [], queued_a = [], queued_b = [], got_a = [], got_b = []\<rparr>"

definition link_inv :: "link \<Rightarrow> bool" where
  "link_inv l \<longleftrightarrow> (\<exists>pa pb. to_b l = map render pa \<and> to_a l = map render pb \<and>
     link_dir (end_a l) (end_b l) pa pb (queued_a l) (got_b l) \<and>
     link_dir (end_b l) (end_a l) pb pa (queued_b l) (got_a l))"

lemma link_invE:
  assumes "link_inv l"
  obtains pa pb where "to_b l = map render pa" "to_a l = map render pb"
    "link_dir (end_a l) (end_b l) pa pb (queued_a l) (got_b l)" "link_dir (end_b l) (end_a l) pb pa (queued_b l) (got_a l)"
  using assms unfolding link_inv_def by blast

lemma link_inv_swap: "link_inv (link_swap l) \<longleftrightarrow> link_inv l"
  by (auto simp: link_inv_def link_swap_def)

lemma dir_write:
  assumes "link_dir A B pa pb q g" "next_gatt_write now A = (Some bs, A')"
  obtains p where "bs = render p" "emits_pk A p A'" "link_dir A' B (pa @ [p]) pb q g"
proof -
  obtain st outs where data: "reasm_all (rx_state B) pa = Some (st, outs)" "tx_ok A st" "g @ outs @ pend A = q"
    using assms(1) by (auto simp: link_dir_def data_for_def)
  have "6 \<le> unat (segment_size A)" using assms(1) by (simp add: link_dir_def)
  then obtain p f st' out where p: "bs = render p" "emits_pk A p A'" "pk_frag p = Some f"
    "reasm st f = Some (st', out)" "tx_ok A' st'" "out @ pend A' = pend A"
    using data(2) assms(2) by (rule write_emits)
  have "data_for A' B (pa @ [p]) q g"
    unfolding data_for_def using reasm_all_snoc [OF data(1), of p] p data(3) by auto
  with assms(1) p(1,2) show thesis by (intro that dir_emits)
qed

lemma dir_timeout:
  assumes "link_dir A B pa pb q g" "btp_handle_timeout now A = (Inr (Some bs), A')"
  obtains p where "bs = render p" "emits_pk A p A'" "link_dir A' B (pa @ [p]) pb q g"
proof -
  have "6 \<le> unat (segment_size A)" using assms(1) by (simp add: link_dir_def)
  from timeout_emits [OF assms(2) this] obtain p where p: "bs = render p" "emits_pk A p A'" "pk_frag p = None"
    and t: "tx_pending A' = tx_pending A" "tx_sent A' = tx_sent A" by auto
  have "data_for A' B (pa @ [p]) q g"
    using assms(1) reasm_all_snoc [of "rx_state B" pa _ _ p] p(3)
    unfolding link_dir_def data_for_def tx_data_cong [OF t] by auto
  with assms(1) p(1,2) show thesis by (intro that dir_emits)
qed

lemma dir_queue:
  assumes "link_dir A B pa pb q g" "queue_message sdu A = (Inr (), A')" "length sdu \<le> RX_REASSEMBLY_CAP"
  shows "link_dir A' B pa pb (q @ [sdu]) g"
proof -
  have A: "tx_pending A = None" "A' = A\<lparr>tx_pending := Some sdu, tx_sent := 0\<rparr>"
    using assms(2) by (auto simp: queue_message_def split: if_splits)
  have "data_for A' B pa (q @ [sdu]) g"
    using assms(1,3) A by (auto simp: link_dir_def data_for_def tx_ok_def pend_def)
  moreover have "tx_counts n k A' \<longleftrightarrow> tx_counts n k A" for n k by (simp add: A tx_counts_def)
  ultimately show ?thesis using assms(1) A by (simp add: link_dir_def)
qed

lemma emit_inv:
  assumes "link_dir A B pa pb q g" "link_dir B A pb pa q' g'" "emits_pk A p A'" "link_dir A' B (pa @ [p]) pb q g"
  shows "link_dir A' B (pa @ [p]) pb q g \<and> link_dir B A' pb (pa @ [p]) q' g'"
  using assms dir_peer_emits by blast

lemma timeout_step_inv:
  assumes "btp_handle_timeout now (end_a l) = (Inr r, a)" "link_inv l"
  shows "link_inv (l\<lparr>end_a := a, to_b := to_b l @ (case r of None \<Rightarrow> [] | Some p \<Rightarrow> [p])\<rparr>)"
proof -
  obtain pa pb where inv: "to_b l = map render pa" "to_a l = map render pb"
    "link_dir (end_a l) (end_b l) pa pb (queued_a l) (got_b l)" "link_dir (end_b l) (end_a l) pb pa (queued_b l) (got_a l)"
    using assms(2) by (rule link_invE)
  show ?thesis
  proof (cases r)
    case None
    have seg: "6 \<le> unat (segment_size (end_a l))" using inv(3) by (simp add: link_dir_def)
    have "same_tx (end_a l) a" "same_rx (end_a l) a" "same_tx (end_b l) (end_b l)" "same_rx (end_b l) (end_b l)"
      using timeout_emits [OF assms(1) seg] None by (auto simp: same_tx_def same_rx_def)
    with inv show ?thesis
      using link_dir_cong [of "end_a l" a "end_b l" "end_b l"] link_dir_cong [of "end_b l" "end_b l" "end_a l" a] None
      by (auto simp: link_inv_def)
  next
    case (Some bs)
    then have "btp_handle_timeout now (end_a l) = (Inr (Some bs), a)" using assms(1) by simp
    with inv(3) obtain p where p: "bs = render p" "emits_pk (end_a l) p a"
      "link_dir a (end_b l) (pa @ [p]) pb (queued_a l) (got_b l)" by (rule dir_timeout)
    with inv emit_inv [OF inv(3,4) p(2,3)] Some show ?thesis
      unfolding link_inv_def by (intro exI [of _ "pa @ [p]"] exI [of _ pb]) simp
  qed
qed

lemma deliver_step_inv:
  assumes "to_a l = bs # ps" "on_indication bs now (end_a l) = (Inr r, a)" "link_inv l"
  shows "link_inv (l\<lparr>end_a := a, to_a := ps, got_a := got_a l @ (case r of None \<Rightarrow> [] | Some m \<Rightarrow> [m])\<rparr>)"
proof -
  obtain pa pb where inv: "to_b l = map render pa" "to_a l = map render pb"
    "link_dir (end_a l) (end_b l) pa pb (queued_a l) (got_b l)" "link_dir (end_b l) (end_a l) pb pa (queued_b l) (got_a l)"
    using assms(3) by (rule link_invE)
  from assms(1) inv(2) obtain p pb' where pb: "pb = p # pb'" "bs = render p" "ps = map render pb'" by auto
  obtain r' a' where "on_indication (render p) now (end_a l) = (Inr r', a')"
    "link_dir (end_b l) a' pb' pa (queued_b l) (got_a l @ (case r' of None \<Rightarrow> [] | Some m \<Rightarrow> [m]))"
    "link_dir a' (end_b l) pa pb' (queued_a l) (got_b l)"
    using inv(4,3) unfolding pb(1) by (rule deliver_ok)
  with assms(2) inv pb show ?thesis by (auto simp: link_inv_def)
qed

lemma link_step_inv: "link_step l l' \<Longrightarrow> link_inv l \<Longrightarrow> link_inv l'"
proof (induction rule: link_step.induct)
  case (l_queue sdu l a)
  obtain pa pb where inv: "to_b l = map render pa" "to_a l = map render pb"
    "link_dir (end_a l) (end_b l) pa pb (queued_a l) (got_b l)" "link_dir (end_b l) (end_a l) pb pa (queued_b l) (got_a l)"
    using l_queue.prems by (rule link_invE)
  have "same_rx (end_a l) a" using l_queue(2) by (auto simp: queue_message_def same_rx_def rx_state_def split: if_splits)
  then have "link_dir (end_b l) a pb pa (queued_b l) (got_a l)"
    using inv(4) link_dir_cong [of "end_b l" "end_b l" "end_a l" a] by (simp add: same_tx_def)
  with inv dir_queue [OF inv(3) l_queue(2,1)] show ?case by (auto simp: link_inv_def)
next
  case (l_write now l bs a)
  obtain pa pb where inv: "to_b l = map render pa" "to_a l = map render pb"
    "link_dir (end_a l) (end_b l) pa pb (queued_a l) (got_b l)" "link_dir (end_b l) (end_a l) pb pa (queued_b l) (got_a l)"
    using l_write.prems by (rule link_invE)
  obtain p where p: "bs = render p" "emits_pk (end_a l) p a" "link_dir a (end_b l) (pa @ [p]) pb (queued_a l) (got_b l)"
    using inv(3) l_write(1) by (rule dir_write)
  with inv emit_inv [OF inv(3,4) p(2,3)] show ?case
    unfolding link_inv_def by (intro exI [of _ "pa @ [p]"] exI [of _ pb]) simp
next
  case (l_completed l)
  obtain pa pb where inv: "to_b l = map render pa" "to_a l = map render pb"
    "link_dir (end_a l) (end_b l) pa pb (queued_a l) (got_b l)" "link_dir (end_b l) (end_a l) pb pa (queued_b l) (got_a l)"
    using l_completed.prems by (rule link_invE)
  have s: "same_tx s (gatt_write_completed s)" "same_rx s (gatt_write_completed s)" "same_tx s s" "same_rx s s" for s
    by (simp_all add: gatt_write_completed_def same_tx_def same_rx_def rx_state_def)
  from inv show ?case
    using link_dir_cong [OF s(1,4), of "end_a l" "end_b l"] link_dir_cong [OF s(3,2), of "end_b l" "end_a l"]
    by (auto simp: link_inv_def)
next
  case (l_timeout now l r a)
  then show ?case by (rule timeout_step_inv)
next
  case (l_deliver l bs ps now r a)
  then show ?case by (rule deliver_step_inv)
next
  case (l_swapped l l')
  then show ?case by (simp add: link_inv_swap)
qed

lemma btp_new_fields:
  "tx_pending (btp_new role seg win now) = None" "tx_sent (btp_new role seg win now) = 0"
  "rx_state (btp_new role seg win now) = (None, [])" "segment_size (btp_new role seg win now) = max seg MIN_SEGMENT_SIZE"
  "local_window_max (btp_new role seg win now) = max win 1" "remote_window (btp_new role seg win now) = max win 1"
  by (cases role; simp add: btp_new_def Let_def rx_state_def)+

lemma init_dirs:
  "link_dir (btp_new Central seg win t) (btp_new Peripheral seg win t') [] [] [] []"
  "link_dir (btp_new Peripheral seg win t') (btp_new Central seg win t) [] [] [] []"
proof -
  have seg: "6 \<le> unat (max seg MIN_SEGMENT_SIZE)"
    by (simp add: max_def MIN_SEGMENT_SIZE_def word_le_nat_alt)
  have data: "data_for (btp_new r seg win u) (btp_new r' seg win u') [] [] []" for r r' u u'
    by (simp add: data_for_def btp_new_fields tx_ok_def pend_def)
  show "link_dir (btp_new Central seg win t) (btp_new Peripheral seg win t') [] [] [] []"
  proof (rule link_dirI [of 0 0])
    show "acks_for 0 (0 - length []) [] (btp_new Peripheral seg win t')"
      by (simp add: acks_for_def btp_new_def Let_def List.map_filter_def)
  qed (simp_all add: seg data btp_new_fields tx_counts_def, simp_all add: btp_new_def Let_def)
  show "link_dir (btp_new Peripheral seg win t') (btp_new Central seg win t) [] [] [] []"
  proof (rule link_dirI [of 1 0])
    show "acks_for 0 (1 - length []) [] (btp_new Central seg win t)"
      by (simp add: acks_for_def btp_new_def Let_def List.map_filter_def)
  qed (simp_all add: seg data btp_new_fields tx_counts_def, simp_all add: btp_new_def Let_def)
qed

lemma reachable_inv: "link_step\<^sup>*\<^sup>* (link_init seg win t t') l \<Longrightarrow> link_inv l"
proof (induction rule: rtranclp_induct)
  case base
  have "link_dir (btp_new Central seg win t) (btp_new Peripheral seg win t') [] [] [] [] \<and>
      link_dir (btp_new Peripheral seg win t') (btp_new Central seg win t) [] [] [] []"
    using init_dirs by blast
  then show ?case by (simp add: link_inv_def link_init_def)
qed (rule link_step_inv)

lemma dir_facts:
  assumes "link_dir A B pa pb q g"
  shows "\<exists>rest. q = g @ rest" "pa = [] \<Longrightarrow> tx_pending A = None \<Longrightarrow> g = q"
    "\<forall>p\<in>set pa. length (render p) \<le> unat (segment_size B)"
  using assms by (auto simp: link_dir_def data_for_def pend_def)

lemma dir_window:
  assumes "link_dir A B pa pb q g" "expecting_ack A"
  shows "unat (tx_newest_unacked A - tx_oldest_unacked A) + unat (remote_window A) \<le> unat (local_window_max A)"
proof -
  obtain n k where c: "tx_counts n k A" using assms(1) by (auto simp: link_dir_def)
  then have kn: "k < n" and w: "n - k + unat (remote_window A) \<le> unat (local_window_max A) + 1"
    and e: "tx_newest_unacked A = word_of_nat (n - 1)" "tx_oldest_unacked A = word_of_nat k"
    using assms(2) by (auto simp only: tx_counts_def)
  have "word_of_nat (n - 1) = (word_of_nat k + word_of_nat (n - 1 - k) :: u8)"
    using kn by (metis Suc_leI Suc_pred' add_diff_inverse_nat gr_implies_not0 le_imp_less_Suc neq0_conv not_less_eq of_nat_add)
  then have "tx_newest_unacked A - tx_oldest_unacked A = word_of_nat (n - 1 - k)" unfolding e by (simp only: add_diff_cancel_left')
  then have "unat (tx_newest_unacked A - tx_oldest_unacked A) = (n - 1 - k) mod 256" by (simp only: unat_of_nat) simp
  also have "\<dots> \<le> n - 1 - k" by (rule mod_less_eq_dividend)
  finally show ?thesis using w kn by linarith
qed

text \<open>
  C8. The Bluetooth transport is reliable: however two engines are driven on a link that keeps
  order and loses nothing, with messages within the receiver's reassembly cap, no packet that one hands out is ever rejected by the other; the
  messages that come out at each end are, in order, those queued at the other end so far, and
  all of them once the sender has nothing left to send and the link is empty; and no packet is
  longer than the negotiated segment.
\<close>

theorem link_reliable:
  assumes "link_step\<^sup>*\<^sup>* (link_init seg win t t') l"
  shows "(\<exists>rest. queued_a l = got_b l @ rest) \<and> (\<exists>rest. queued_b l = got_a l @ rest) \<and>
    (to_b l = [] \<and> tx_pending (end_a l) = None \<longrightarrow> got_b l = queued_a l) \<and>
    (to_a l = [] \<and> tx_pending (end_b l) = None \<longrightarrow> got_a l = queued_b l) \<and>
    (\<forall>p ps now. to_b l = p # ps \<longrightarrow> (\<exists>r b. on_indication p now (end_b l) = (Inr r, b))) \<and>
    (\<forall>p ps now. to_a l = p # ps \<longrightarrow> (\<exists>r a. on_indication p now (end_a l) = (Inr r, a))) \<and>
    (\<forall>p\<in>set (to_b l). length p \<le> unat (segment_size (end_b l))) \<and>
    (\<forall>p\<in>set (to_a l). length p \<le> unat (segment_size (end_a l)))"
proof -
  obtain pa pb where inv: "to_b l = map render pa" "to_a l = map render pb"
    "link_dir (end_a l) (end_b l) pa pb (queued_a l) (got_b l)" "link_dir (end_b l) (end_a l) pb pa (queued_b l) (got_a l)"
    using reachable_inv [OF assms] by (rule link_invE)
  have "\<exists>r b. on_indication p now (end_b l) = (Inr r, b)" if p: "to_b l = p # ps" for p ps now
  proof -
    obtain x pa' where x: "pa = x # pa'" "p = render x" using p inv(1) by auto
    show ?thesis using inv(3,4) unfolding x by (rule deliver_ok [of _ _ _ _ _ _ _ _ _ now]) blast
  qed
  moreover have "\<exists>r a. on_indication p now (end_a l) = (Inr r, a)" if p: "to_a l = p # ps" for p ps now
  proof -
    obtain x pb' where x: "pb = x # pb'" "p = render x" using p inv(2) by auto
    show ?thesis using inv(4,3) unfolding x by (rule deliver_ok [of _ _ _ _ _ _ _ _ _ now]) blast
  qed
  ultimately show ?thesis using dir_facts [OF inv(3)] dir_facts [OF inv(4)] inv(1,2) by auto
qed

theorem link_reliable_witness:
  "\<exists>l p. link_step\<^sup>*\<^sup>* (link_init 20 6 0 0) l \<and> queued_a l = [[1, 2, 3]] \<and> to_b l = [p] \<and> length p \<le> 20 \<and>
     (\<exists>r b. on_indication p 5 (end_b l) = (Inr r, b))"
proof -
  let ?a = "btp_new Central 20 6 0" and ?l0 = "link_init 20 6 0 0"
  have q: "queue_message [1, 2, 3] ?a = (Inr (), ?a\<lparr>tx_pending := Some [1, 2, 3], tx_sent := 0\<rparr>)" (is "_ = (_, ?a1)")
    by (simp add: queue_message_def btp_new_fields ok_def)
  let ?l1 = "?l0\<lparr>end_a := ?a1, queued_a := [[1, 2, 3]]\<rparr>"
  have 1: "link_step ?l0 ?l1"
    using l_queue [of "[1, 2, 3]" ?l0 ?a1] q by (simp add: link_init_def RX_REASSEMBLY_CAP_def)
  obtain p a2 where w: "next_gatt_write 1 ?a1 = (Some p, a2)"
  proof -
    have "fst (next_gatt_write 1 ?a1) \<noteq> None"
      by (simp add: next_gatt_write_def btp_new_def Let_def max_def WINDOW_NO_ACK_SEND_THRESHOLD_def split: prod.splits)
    then show thesis using that by (cases "next_gatt_write 1 ?a1") auto
  qed
  let ?l2 = "?l1\<lparr>end_a := a2, to_b := [p]\<rparr>"
  have 2: "link_step ?l1 ?l2" using l_write [of 1 ?l1 p a2] w by (simp add: link_init_def)
  have run: "link_step\<^sup>*\<^sup>* ?l0 ?l2" using 1 2 by (meson converse_rtranclp_into_rtranclp rtranclp.rtrancl_refl)
  have to: "to_b ?l2 = [p]" "queued_a ?l2 = [[1, 2, 3]]" by simp_all
  have seg: "unat (segment_size (end_b ?l2)) = 20" by (simp add: link_init_def btp_new_fields max_def MIN_SEGMENT_SIZE_def)
  have "length p \<le> 20" "\<exists>r b. on_indication p 5 (end_b ?l2) = (Inr r, b)"
    using link_reliable [OF run] to(1) seg by simp_all
  with run to show ?thesis by blast
qed

text \<open>
  Flow control: in every reachable state of the link, the packets an end has in flight (from
  its oldest to its newest unacknowledged sequence number, read modulo 256) and the credit it
  still has never exceed the negotiated window by more than one.
\<close>

theorem window_respected:
  assumes "link_step\<^sup>*\<^sup>* (link_init seg win t t') l"
  shows "(expecting_ack (end_a l) \<longrightarrow>
      unat (tx_newest_unacked (end_a l) - tx_oldest_unacked (end_a l)) + unat (remote_window (end_a l)) \<le> unat (local_window_max (end_a l))) \<and>
    (expecting_ack (end_b l) \<longrightarrow>
      unat (tx_newest_unacked (end_b l) - tx_oldest_unacked (end_b l)) + unat (remote_window (end_b l)) \<le> unat (local_window_max (end_b l)))"
proof -
  obtain pa pb where "link_dir (end_a l) (end_b l) pa pb (queued_a l) (got_b l)" "link_dir (end_b l) (end_a l) pb pa (queued_b l) (got_a l)"
    using reachable_inv [OF assms] by (rule link_invE)
  then show ?thesis using dir_window by blast
qed

theorem window_respected_witness:
  "unat (tx_newest_unacked (btp_new Peripheral 20 6 0) - tx_oldest_unacked (btp_new Peripheral 20 6 0)) +
     unat (remote_window (btp_new Peripheral 20 6 0)) \<le> 6 \<and> expecting_ack (btp_new Peripheral 20 6 0)"
proof -
  have e: "end_b (link_init 20 6 0 0) = btp_new Peripheral 20 6 0" by (simp add: link_init_def)
  have x: "expecting_ack (btp_new Peripheral 20 6 0)" "unat (local_window_max (btp_new Peripheral 20 6 0)) = 6"
    by (simp_all add: btp_new_def Let_def max_def word_le_nat_alt)
  show ?thesis
    using window_respected [of 20 6 0 0 "link_init 20 6 0 0", OF rtranclp.rtrancl_refl] x unfolding e by simp
qed

end
