(* ===== verification/IM.thy ===== *)
theory IM
  imports TLV_Properties
begin

text \<open>
  The interaction model, \<open>crates/matter-interaction/src\<close>: the errors (\<open>error.rs\<close>), the parts all
  messages share (\<open>lib.rs\<close>), paths (\<open>path.rs\<close>) and status codes (\<open>status.rs\<close>).

  Every parser of the crate is a loop \<open>loop { match r.next()? { .. } }\<close>; \<open>scan\<close> is that loop, its
  \<open>body\<close> the match. A body answers \<open>Again\<close> with the locals of the next round or \<open>Done\<close> to leave
  the loop. The parsers built on the reader's events are proved total here: a round consumes
  at least one byte, so the number of bytes left bounds the rounds.
\<close>

datatype im_error =
    Codec tlv_error
  | NotAStruct
  | MissingField string
  | UnexpectedValue string
  | EmptyInvokeResponse
  | InvalidStatusCode u64
  | AccumulatorOverflow nat nat nat nat

type_synonym ('e, 'a) parser = "(tlv_reader, 'e, 'a) comp"
type_synonym 'a im = "(im_error, 'a) parser"

text \<open>
  The \<open>?\<close> on a codec result, which converts the error. The crates that parse TLV have error types
  of their own, so the conversion is an argument here and of the loop below.
\<close>

definition codec_as :: "('d \<Rightarrow> 'e) \<Rightarrow> ('s, 'd, 'a) comp \<Rightarrow> ('s, 'e, 'a) comp" where
  "codec_as conv m r = (case m r of (Inl e, r1) \<Rightarrow> (Inl (conv e), r1) | (Inr x, r1) \<Rightarrow> (Inr x, r1))"

abbreviation codec :: "'a reader \<Rightarrow> 'a im" where "codec \<equiv> codec_as Codec"

definition need :: "'e \<Rightarrow> 'a option \<Rightarrow> ('e, 'a) parser" where
  "need e x = (case x of None \<Rightarrow> err e | Some y \<Rightarrow> ok y)"

definition IM_REVISION :: u8 where "IM_REVISION = 11"

section \<open>The parsing loop\<close>

datatype ('a, 'b) flow = Again 'a | Done 'b

fun scan_fuel :: "nat \<Rightarrow> 'e \<Rightarrow> (tlv_error \<Rightarrow> 'e) \<Rightarrow> (tlv_element \<Rightarrow> 'a \<Rightarrow> ('e, ('a, 'b) flow) parser) \<Rightarrow>
    'a \<Rightarrow> ('e, 'b) parser" where
  "scan_fuel 0 eof conv body acc = err eof"
| "scan_fuel (Suc n) eof conv body acc =
     andthen (codec_as conv reader_next) (\<lambda>ev. case ev of
       None \<Rightarrow> err eof
     | Some e \<Rightarrow> andthen (body e acc) (\<lambda>fl. case fl of
           Again acc' \<Rightarrow> scan_fuel n eof conv body acc'
         | Done y \<Rightarrow> ok y))"

definition scan_as :: "'e \<Rightarrow> (tlv_error \<Rightarrow> 'e) \<Rightarrow> (tlv_element \<Rightarrow> 'a \<Rightarrow> ('e, ('a, 'b) flow) parser) \<Rightarrow>
    'a \<Rightarrow> ('e, 'b) parser" where
  "scan_as eof conv body acc r = scan_fuel (length (rd_bytes r) - rd_pos r) eof conv body acc r"

abbreviation scan :: "im_error \<Rightarrow> (tlv_element \<Rightarrow> 'a \<Rightarrow> ('a, 'b) flow im) \<Rightarrow> 'a \<Rightarrow> 'b im" where
  "scan eof \<equiv> scan_as eof Codec"

abbreviation unclosed :: im_error where "unclosed \<equiv> Codec UnclosedContainer"

lemma codec_eq:
  "codec_as conv m r = (Inr x, r') \<longleftrightarrow> m r = (Inr x, r')"
  "codec_as conv m r = (Inl e, r') \<longleftrightarrow> (\<exists>e'. e = conv e' \<and> m r = (Inl e', r'))"
  by (auto simp: codec_as_def split: prod.splits sum.splits)

lemma keeps_codec: "keeps R m \<Longrightarrow> keeps R (codec_as conv m)"
  by (auto simp: keeps_def codec_as_def split: prod.splits sum.splits)

lemma keeps_need: "reflp R \<Longrightarrow> keeps R (need e x)"
  by (simp add: need_def keeps_ok keeps_err split: option.splits)

lemma keeps_reader_next: "keeps forward reader_next"
  using next_ref_forward by (auto simp: reader_next_def andthen_def split: prod.splits sum.splits)

lemma reader_next_progress:
  assumes "reader_next r = (Inr (Some e), r')"
  shows "rd_pos r < rd_pos r'" "rd_pos r < length (rd_bytes r)" "rd_bytes r' = rd_bytes r"
proof -
  obtain e0 where n: "next_ref r = (Inr (Some e0), r')"
    using assms by (auto simp: reader_next_def andthen_eq_Inr)
  from next_ref_progress [OF n] next_ref_forward [OF n]
  show "rd_pos r < rd_pos r'" "rd_pos r < length (rd_bytes r)" "rd_bytes r' = rd_bytes r"
    by (auto simp: forward_def)
qed

lemma keeps_scan_fuel:
  assumes "\<And>e acc. keeps forward (body e acc)"
  shows "keeps forward (scan_fuel n eof conv body acc)"
  by (induction n arbitrary: acc)
    (auto intro!: forward_keeps keeps_codec keeps_reader_next assms split: option.split flow.split)

lemma keeps_scan:
  assumes "\<And>e acc. keeps forward (body e acc)"
  shows "keeps forward (scan_as eof conv body acc)"
  using keepsD [OF keeps_scan_fuel [OF assms]] by (auto simp: scan_as_def)

abbreviation left :: "tlv_reader \<Rightarrow> nat" where
  "left r \<equiv> length (rd_bytes r) - rd_pos r"

lemma reader_next_empty: "left r = 0 \<Longrightarrow> reader_next r = (Inr None, r)"
  by (simp add: reader_next_def next_ref_def is_empty_def andthen_def)

lemma scan_fuel_eq:
  assumes body: "\<And>e acc. keeps forward (body e acc)"
  shows "left r \<le> m \<Longrightarrow> left r \<le> n \<Longrightarrow> scan_fuel m eof conv body acc r = scan_fuel n eof conv body acc r"
proof (induction m arbitrary: n acc r)
  case 0
  then show ?case by (cases n) (simp_all add: andthen_def codec_as_def reader_next_empty)
next
  case (Suc m)
  show ?case
  proof (cases n)
    case 0
    with Suc.prems show ?thesis by (simp add: andthen_def codec_as_def reader_next_empty)
  next
    case (Suc k)
    have "scan_fuel m eof conv body acc' r2 = scan_fuel k eof conv body acc' r2"
      if "reader_next r = (Inr (Some e), r1)" "body e acc r1 = (Inr (Again acc'), r2)" for e r1 acc' r2
    proof -
      have "rd_pos r < rd_pos r1" "rd_pos r < length (rd_bytes r)" "rd_bytes r1 = rd_bytes r"
        using reader_next_progress [OF that(1)] .
      moreover have "rd_bytes r2 = rd_bytes r1" "rd_pos r1 \<le> rd_pos r2"
        using keepsD [OF body that(2)] by (simp_all add: forward_def)
      ultimately show ?thesis using Suc.prems \<open>n = Suc k\<close> by (intro Suc.IH) auto
    qed
    then show ?thesis
      by (auto simp: \<open>n = Suc k\<close> andthen_def codec_as_def split: prod.split sum.split option.split flow.split)
  qed
qed

text \<open>The loop, without the bound: the number of rounds never runs out.\<close>

lemma scan_unfold:
  assumes "\<And>e acc. keeps forward (body e acc)"
  shows "scan_as eof conv body acc =
    andthen (codec_as conv reader_next) (\<lambda>ev. case ev of
       None \<Rightarrow> err eof
     | Some e \<Rightarrow> andthen (body e acc) (\<lambda>fl. case fl of
           Again acc' \<Rightarrow> scan_as eof conv body acc'
         | Done y \<Rightarrow> ok y))"
proof
  fix r
  have "scan_as eof conv body acc r = scan_fuel (Suc (left r)) eof conv body acc r"
    unfolding scan_as_def by (rule scan_fuel_eq [OF assms]) simp_all
  moreover have "scan_fuel (left r) eof conv body acc' r2 = scan_fuel (left r2) eof conv body acc' r2"
    if "reader_next r = (Inr (Some e), r1)" "body e acc r1 = (Inr (Again acc'), r2)" for e r1 acc' r2
    using keepsD [OF assms that(2)] reader_next_progress [OF that(1)]
    by (intro scan_fuel_eq [OF assms]) (auto simp: forward_def)
  ultimately show "scan_as eof conv body acc r = andthen (codec_as conv reader_next) (\<lambda>ev. case ev of
       None \<Rightarrow> err eof
     | Some e \<Rightarrow> andthen (body e acc) (\<lambda>fl. case fl of
           Again acc' \<Rightarrow> scan_as eof conv body acc'
         | Done y \<Rightarrow> ok y)) r"
    by (auto simp: andthen_def codec_as_def scan_as_def split: prod.split sum.split option.split flow.split)
qed

section \<open>Match arms\<close>

text \<open>The patterns of the parsers: a scalar or a container under a context tag.\<close>

definition scalar_at :: "u8 \<Rightarrow> tlv_element \<Rightarrow> tlv_value option" where
  "scalar_at c e = (case e of Scalar (Context k) v \<Rightarrow> if k = c then Some v else None | _ \<Rightarrow> None)"

definition uint_at :: "u8 \<Rightarrow> tlv_element \<Rightarrow> u64 option" where
  "uint_at c e = (case scalar_at c e of Some (VUint n) \<Rightarrow> Some n | _ \<Rightarrow> None)"

definition bool_at :: "u8 \<Rightarrow> tlv_element \<Rightarrow> bool option" where
  "bool_at c e = (case scalar_at c e of Some (VBool b) \<Rightarrow> Some b | _ \<Rightarrow> None)"

definition starts_at :: "u8 \<Rightarrow> tlv_element \<Rightarrow> container_kind option" where
  "starts_at c e = (case e of ContainerStart (Context k) kind \<Rightarrow> if k = c then Some kind else None | _ \<Rightarrow> None)"

definition starts :: "tlv_element \<Rightarrow> container_kind option" where
  "starts e = (case e of ContainerStart _ kind \<Rightarrow> Some kind | _ \<Rightarrow> None)"

definition skip_as :: "(tlv_error \<Rightarrow> 'e) \<Rightarrow> ('e, unit) parser" where
  "skip_as conv = codec_as conv skip_container"

abbreviation skip_im :: "unit im" where "skip_im \<equiv> skip_as Codec"

text \<open>The last two arms of every match: other containers are skipped, other scalars ignored.\<close>

definition otherwise_as :: "(tlv_error \<Rightarrow> 'e) \<Rightarrow> tlv_element \<Rightarrow> 'a \<Rightarrow> ('e, ('a, 'b) flow) parser" where
  "otherwise_as conv e acc =
     (if starts e \<noteq> None then andthen (skip_as conv) (\<lambda>_. ok (Again acc)) else ok (Again acc))"

abbreviation otherwise :: "tlv_element \<Rightarrow> 'a \<Rightarrow> ('a, 'b) flow im" where "otherwise \<equiv> otherwise_as Codec"

definition try_u8 :: "u64 \<Rightarrow> u8 option" where
  "try_u8 n = (if n < 2 ^ 8 then Some (ucast n) else None)"

definition try_u16 :: "u64 \<Rightarrow> u16 option" where
  "try_u16 n = (if n < 2 ^ 16 then Some (ucast n) else None)"

definition try_u32 :: "u64 \<Rightarrow> u32 option" where
  "try_u32 n = (if n < 2 ^ 32 then Some (ucast n) else None)"

definition expect_struct_as :: "(tlv_error \<Rightarrow> 'e) \<Rightarrow> 'e \<Rightarrow> ('e, unit) parser" where
  "expect_struct_as conv bad = andthen (codec_as conv reader_next) (\<lambda>ev.
     if ev = Some (ContainerStart Anonymous KStructure) then ok () else err bad)"

abbreviation expect_message_struct :: "unit im" where
  "expect_message_struct \<equiv> expect_struct_as Codec NotAStruct"

definition finish_im :: "unit im" where
  "finish_im = codec finish_reader"

text \<open>A parser run on the bytes of a message.\<close>

definition parse_as :: "(tlv_error \<Rightarrow> 'e) \<Rightarrow> 'e \<Rightarrow> ('e, 'a) parser \<Rightarrow> bytes \<Rightarrow> 'e + 'a" where
  "parse_as conv bad p bs = fst (andthen (expect_struct_as conv bad) (\<lambda>_. p) (reader_new bs))"

abbreviation parse_with :: "'a im \<Rightarrow> bytes \<Rightarrow> im_error + 'a" where
  "parse_with \<equiv> parse_as Codec NotAStruct"

lemma keeps_skip_loop: "keeps forward (skip_loop d)"
proof
  fix r res r'
  assume "skip_loop d r = (res, r')"
  then show "forward r r'"
  proof (induction d r arbitrary: res r' rule: skip_loop.induct)
    case (1 d r)
    have turn: "keeps forward (andthen next_byte (skip_child d))"
      by (intro forward_keeps keeps_skip_child)
    from "1.prems" "1.IH" show ?case
      by (subst (asm) skip_loop.simps)
        (auto split: if_splits prod.splits sum.splits dest: keepsD [OF turn] intro: transpD [OF forward_trans])
  qed
qed

lemma keeps_skip_container_body: "keeps forward skip_container_body"
  unfolding skip_container_body_def by (intro forward_keeps keeps_skip_loop) (auto simp: forward_def)

lemma keeps_skip_container: "keeps forward skip_container"
  unfolding skip_container_def
  by (intro forward_keeps keeps_skip_container_body) (auto simp: forward_def split: option.splits)

lemma keeps_skip_container_span: "keeps forward skip_container_span"
proof
  fix r res r'
  assume s: "skip_container_span r = (res, r')"
  have "keeps forward (andthen skip_container_body (\<lambda>_ r1.
      let span = h\<lparr>span_end := rd_pos r1\<rparr>
      in (Inr span, r1\<lparr>rd_last_span := Some span, rd_last_was_start := False\<rparr>)))" for h
    by (intro forward_keeps keeps_skip_container_body) (auto simp: forward_def Let_def)
  with s show "forward r r'"
    by (auto simp: skip_container_span_def split: if_splits option.splits dest: keepsD)
qed

lemma keeps_otherwise: "keeps forward (otherwise_as conv e acc)"
  by (simp add: otherwise_as_def skip_as_def forward_keeps keeps_codec keeps_skip_container)

lemmas im_keeps = forward_keeps keeps_need [OF forward_refl] keeps_otherwise keeps_codec
  keeps_reader_next keeps_skip_container keeps_skip_container_span keeps_scan

lemma keeps_cases:
  "keeps R m \<Longrightarrow> keeps R m' \<Longrightarrow> keeps R (if b then m else m')"
  "keeps R m \<Longrightarrow> (\<And>y. keeps R (f y)) \<Longrightarrow> keeps R (case x of None \<Rightarrow> m | Some y \<Rightarrow> f y)"
  "(\<And>y z. keeps R (g y z)) \<Longrightarrow> keeps R (case q of (y, z) \<Rightarrow> g y z)"
  "(\<And>y z. keeps R (h y z w)) \<Longrightarrow> keeps R ((case q of (y, z) \<Rightarrow> h y z) w)"
  by (auto split: option.split prod.split)

section \<open>Values and copied containers\<close>

text \<open>
  \<open>read_container_members\<close> and \<open>read_container_value\<close> call each other once per level of nesting;
  \<open>levels\<close> bounds the levels. The reader refuses to open a container at depth \<open>MAX_DEPTH\<close>, so
  the levels left below that depth are never exceeded. The array case drops the tags of its
  children, and so does \<open>build_container\<close>.
\<close>

fun read_container :: "nat \<Rightarrow> container_kind \<Rightarrow> tlv_value im" where
  "read_container 0 kind = err (Codec ContainerTooDeep)"
| "read_container (Suc levels) kind =
     andthen (scan unclosed (\<lambda>e out. case e of
         ContainerEnd \<Rightarrow> ok (Done out)
       | Scalar t v \<Rightarrow> ok (Again (out @ [(t, v)]))
       | ContainerStart t inner_kind \<Rightarrow>
           andthen (read_container levels inner_kind) (\<lambda>v. ok (Again (out @ [(t, v)])))) [])
     (\<lambda>members. ok (build_container kind members))"

definition read_container_value :: "container_kind \<Rightarrow> tlv_value im" where
  "read_container_value kind r = read_container (MAX_DEPTH + 1 - rd_depth r) kind r"

definition retag_container_anonymous :: "container_kind \<Rightarrow> bytes im" where
  "retag_container_anonymous kind =
     andthen (codec skip_container_span) (\<lambda>span r.
       (Inr (snd ((case kind of KStructure \<Rightarrow> start_structure Anonymous | KArray \<Rightarrow> start_array Anonymous
                   | KList \<Rightarrow> start_list Anonymous) []) @ span_bytes (span_body span) r), r))"

definition empty_anonymous_struct :: bytes where
  "empty_anonymous_struct = snd (andthen (start_structure Anonymous) (\<lambda>_. end_container) [])"

lemma keeps_read_container: "keeps forward (read_container n kind)"
  by (induction n arbitrary: kind) (auto intro!: im_keeps split: tlv_element.split)

lemma keeps_read_container_value: "keeps forward (read_container_value kind)"
  using keepsD [OF keeps_read_container] by (auto simp: read_container_value_def)

lemma keeps_retag: "keeps forward (retag_container_anonymous kind)"
  unfolding retag_container_anonymous_def by (intro im_keeps) auto

section \<open>Paths and statuses\<close>

record command_path =
  cp_endpoint :: u16
  cp_cluster :: u32
  cp_command :: u32

record attribute_path =
  ap_endpoint :: u16
  ap_cluster :: u32
  ap_attribute :: u32

record read_path =
  rp_endpoint :: "u16 option"
  rp_cluster :: "u32 option"
  rp_attribute :: "u32 option"

definition concrete :: "u16 \<Rightarrow> u32 \<Rightarrow> u32 \<Rightarrow> read_path" where
  "concrete endpoint cluster attribute =
     \<lparr>rp_endpoint = Some endpoint, rp_cluster = Some cluster, rp_attribute = Some attribute\<rparr>"

definition read_path_from :: "attribute_path \<Rightarrow> read_path" where
  "read_path_from p = \<lparr>rp_endpoint = Some (ap_endpoint p), rp_cluster = Some (ap_cluster p),
     rp_attribute = Some (ap_attribute p)\<rparr>"

type_synonym path_parts = "u16 option \<times> u32 option \<times> u32 option"

definition attribute_path_step :: "tlv_element \<Rightarrow> path_parts \<times> bool \<Rightarrow>
    (path_parts \<times> bool, path_parts \<times> bool) flow im" where
  "attribute_path_step e acc = (case acc of ((endpoint, cluster, attribute), is_append) \<Rightarrow>
     if e = ContainerEnd then ok (Done acc)
     else case uint_at 2 e of
       Some n \<Rightarrow> andthen (need (UnexpectedValue ''AttributePath.endpoint exceeds u16'') (try_u16 n))
         (\<lambda>x. ok (Again ((Some x, cluster, attribute), is_append)))
     | None \<Rightarrow> case uint_at 3 e of
       Some n \<Rightarrow> andthen (need (UnexpectedValue ''AttributePath.cluster exceeds u32'') (try_u32 n))
         (\<lambda>x. ok (Again ((endpoint, Some x, attribute), is_append)))
     | None \<Rightarrow> case uint_at 4 e of
       Some n \<Rightarrow> andthen (need (UnexpectedValue ''AttributePath.attribute exceeds u32'') (try_u32 n))
         (\<lambda>x. ok (Again ((endpoint, cluster, Some x), is_append)))
     | None \<Rightarrow>
       if scalar_at 5 e = Some VNull then ok (Again ((endpoint, cluster, attribute), True))
       else otherwise e acc)"

definition attribute_path_from_reader :: "(attribute_path \<times> bool) im" where
  "attribute_path_from_reader =
     andthen (scan unclosed attribute_path_step ((None, None, None), False)) (\<lambda>((endpoint, cluster, attribute), is_append).
     andthen (need (MissingField ''AttributePath.endpoint'') endpoint) (\<lambda>ep.
     andthen (need (MissingField ''AttributePath.cluster'') cluster) (\<lambda>cl.
     andthen (need (MissingField ''AttributePath.attribute'') attribute) (\<lambda>att.
       ok (\<lparr>ap_endpoint = ep, ap_cluster = cl, ap_attribute = att\<rparr>, is_append)))))"

datatype im_status = Success | Failure u8

definition status_from_u8 :: "u8 \<Rightarrow> im_status" where
  "status_from_u8 code = (if code = 0 then Success else Failure code)"

fun status_to_u8 :: "im_status \<Rightarrow> u8" where
  "status_to_u8 Success = 0"
| "status_to_u8 (Failure code) = code"

definition is_success :: "im_status \<Rightarrow> bool" where
  "is_success s \<longleftrightarrow> s = Success"

definition status_response_step :: "tlv_element \<Rightarrow> unit \<Rightarrow> (unit, u8 option) flow im" where
  "status_response_step e acc = (case uint_at 0 e of
     Some n \<Rightarrow> andthen (need (InvalidStatusCode n) (try_u8 n)) (\<lambda>code.
       andthen finish_im (\<lambda>_. ok (Done (Some code))))
   | None \<Rightarrow>
       if e = ContainerEnd \<or> scalar_at 0 e \<noteq> None \<or> starts_at 0 e \<noteq> None
       then andthen finish_im (\<lambda>_. ok (Done None))
       else otherwise e acc)"

definition parse_status_response :: "bytes \<Rightarrow> im_error + u8 option" where
  "parse_status_response = parse_with (scan unclosed status_response_step ())"

lemma keeps_finish: "keeps forward finish_reader"
proof
  fix r res r'
  assume "finish_reader r = (res, r')"
  then show "forward r r'"
  proof (induction r arbitrary: res r' rule: finish_reader.induct)
    case (1 r)
    have upd: "forward (r1\<lparr>rd_last_was_start := False\<rparr>) r2 \<longleftrightarrow> forward r1 r2" for r1 r2
      by (simp add: forward_def)
    from "1.prems" "1.IH" show ?case
      by (subst (asm) finish_reader.simps)
        (auto simp: upd split: if_splits prod.splits sum.splits dest: keepsD [OF keeps_skip_container_body]
          intro: transpD [OF forward_trans])
  qed
qed

lemma keeps_attribute_path_step: "keeps forward (attribute_path_step e acc)"
  by (auto simp: attribute_path_step_def intro!: im_keeps split: prod.split option.split)

lemma keeps_status_response_step: "keeps forward (status_response_step e acc)"
  by (auto simp: status_response_step_def finish_im_def intro!: im_keeps keeps_finish split: option.split)

lemma keeps_attribute_path: "keeps forward attribute_path_from_reader"
  unfolding attribute_path_from_reader_def
  by (intro im_keeps keeps_attribute_path_step) (auto intro!: im_keeps split: prod.split)

section \<open>Builders\<close>

text \<open>
  A builder runs writer operations in sequence on an empty vector and unwraps each with
  \<open>expect\<close>; \<open>None\<close> is the panic of one that fails.
\<close>

fun sequence :: "unit writer list \<Rightarrow> unit writer" where
  "sequence [] = ok ()"
| "sequence (w # ws) = andthen w (\<lambda>_. sequence ws)"

definition written :: "unit writer list \<Rightarrow> bytes option" where
  "written ws = (case sequence ws [] of (Inr _, out) \<Rightarrow> Some out | (Inl _, out) \<Rightarrow> None)"

end
