(* ===== verification/IM_Invoke.thy ===== *)
theory IM_Invoke
  imports IM
begin

text \<open>
  Invoke messages of the interaction model: the client's side (\<open>invoke.rs\<close>), the server's
  (\<open>invoke_server.rs\<close>) and the timed request (\<open>timed.rs\<close>), in
  \<open>crates/matter-interaction/src\<close>.
\<close>

section \<open>Builders\<close>

definition write_command_path :: "tag \<Rightarrow> command_path \<Rightarrow> unit writer" where
  "write_command_path tag path = sequence
     [start_list tag,
      put_uint (Context 0) (ucast (cp_endpoint path)),
      put_uint (Context 1) (ucast (cp_cluster path)),
      put_uint (Context 2) (ucast (cp_command path)),
      end_container]"

definition build_invoke_request_inner :: "command_path \<Rightarrow> bytes \<Rightarrow> bool \<Rightarrow> bool \<Rightarrow> bytes option" where
  "build_invoke_request_inner path command_fields_tlv timed suppress_response = written
     [start_structure Anonymous,
      put_bool (Context 0) suppress_response,
      put_bool (Context 1) timed,
      start_array (Context 2),
      start_structure Anonymous,
      write_command_path (Context 0) path,
      put_preencoded (Context 1) command_fields_tlv,
      end_container,
      end_container,
      put_uint (Context 0xFF) (ucast IM_REVISION),
      end_container]"

definition build_invoke_request :: "command_path \<Rightarrow> bytes \<Rightarrow> bytes option" where
  "build_invoke_request path flds = build_invoke_request_inner path flds False False"

definition build_invoke_request_timed :: "command_path \<Rightarrow> bytes \<Rightarrow> bytes option" where
  "build_invoke_request_timed path flds = build_invoke_request_inner path flds True False"

definition build_invoke_request_group :: "command_path \<Rightarrow> bytes \<Rightarrow> bytes option" where
  "build_invoke_request_group path flds = build_invoke_request_inner path flds False True"

definition write_batch_command :: "nat \<times> command_path \<times> bytes \<Rightarrow> unit writer" where
  "write_batch_command c = (case c of (i, path, flds) \<Rightarrow> sequence
     [start_structure Anonymous,
      write_command_path (Context 0) path,
      put_preencoded (Context 1) flds,
      put_uint (Context 2) (if i < 2 ^ 16 then word_of_nat i else 0xFFFF),
      end_container])"

definition build_invoke_request_batch :: "(command_path \<times> bytes) list \<Rightarrow> bytes option" where
  "build_invoke_request_batch commands = written
     ([start_structure Anonymous,
       put_bool (Context 0) False,
       put_bool (Context 1) False,
       start_array (Context 2)] @
      map write_batch_command (enumerate 0 commands) @
      [end_container,
       put_uint (Context 0xFF) (ucast IM_REVISION),
       end_container])"

definition build_invoke_response_command :: "command_path \<Rightarrow> bytes \<Rightarrow> bytes option" where
  "build_invoke_response_command path response_fields_tlv = written
     [start_structure Anonymous,
      put_bool (Context 0) False,
      start_array (Context 1),
      start_structure Anonymous,
      start_structure (Context 0),
      write_command_path (Context 0) path,
      put_preencoded (Context 1) response_fields_tlv,
      end_container,
      end_container,
      end_container,
      put_uint (Context 0xFF) (ucast IM_REVISION),
      end_container]"

definition build_invoke_response_status :: "command_path \<Rightarrow> im_status \<Rightarrow> bytes option" where
  "build_invoke_response_status path status = written
     [start_structure Anonymous,
      put_bool (Context 0) False,
      start_array (Context 1),
      start_structure Anonymous,
      start_structure (Context 1),
      write_command_path (Context 0) path,
      start_structure (Context 1),
      put_uint (Context 0) (ucast (status_to_u8 status)),
      end_container,
      end_container,
      end_container,
      end_container,
      put_uint (Context 0xFF) (ucast IM_REVISION),
      end_container]"

definition build_timed_request :: "u16 \<Rightarrow> bytes option" where
  "build_timed_request timeout_ms = written
     [start_structure Anonymous,
      put_uint (Context 0) (ucast timeout_ms),
      put_uint (Context 0xFF) (ucast IM_REVISION),
      end_container]"

section \<open>Command paths and data\<close>

definition command_path_step :: "tlv_element \<Rightarrow> path_parts \<Rightarrow> (path_parts, path_parts) flow im" where
  "command_path_step e acc = (case acc of (endpoint, cluster, command) \<Rightarrow>
     if e = ContainerEnd then ok (Done acc)
     else case uint_at 0 e of
       Some n \<Rightarrow> andthen (need (UnexpectedValue ''CommandPath.endpoint exceeds u16'') (try_u16 n))
         (\<lambda>x. ok (Again (Some x, cluster, command)))
     | None \<Rightarrow> case uint_at 1 e of
       Some n \<Rightarrow> andthen (need (UnexpectedValue ''CommandPath.cluster exceeds u32'') (try_u32 n))
         (\<lambda>x. ok (Again (endpoint, Some x, command)))
     | None \<Rightarrow> case uint_at 2 e of
       Some n \<Rightarrow> andthen (need (UnexpectedValue ''CommandPath.command exceeds u32'') (try_u32 n))
         (\<lambda>x. ok (Again (endpoint, cluster, Some x)))
     | None \<Rightarrow> otherwise e acc)"

definition command_path_from_reader :: "command_path im" where
  "command_path_from_reader =
     andthen (scan unclosed command_path_step (None, None, None)) (\<lambda>(endpoint, cluster, command).
     andthen (need (MissingField ''CommandPath.endpoint'') endpoint) (\<lambda>ep.
     andthen (need (MissingField ''CommandPath.cluster'') cluster) (\<lambda>cl.
     andthen (need (MissingField ''CommandPath.command'') command) (\<lambda>cm.
       ok \<lparr>cp_endpoint = ep, cp_cluster = cl, cp_command = cm\<rparr>))))"

datatype invoke_response = RespCommand command_path bytes | RespStatus im_status

record invoke_response_entry =
  ire_command_ref :: "u16 option"
  ire_response :: invoke_response

definition command_data_step :: "tlv_element \<Rightarrow> command_path option \<times> bytes \<times> u16 option \<Rightarrow>
    (command_path option \<times> bytes \<times> u16 option, command_path option \<times> bytes \<times> u16 option) flow im" where
  "command_data_step e acc = (case acc of (path, flds, command_ref) \<Rightarrow>
     if e = ContainerEnd then ok (Done acc)
     else if starts_at 0 e = Some KList
     then andthen command_path_from_reader (\<lambda>p. ok (Again (Some p, flds, command_ref)))
     else case starts_at 1 e of
       Some kind \<Rightarrow> andthen (retag_container_anonymous kind) (\<lambda>f. ok (Again (path, f, command_ref)))
     | None \<Rightarrow> case uint_at 2 e of
       Some n \<Rightarrow> ok (Again (path, flds, try_u16 n))
     | None \<Rightarrow> otherwise e acc)"

definition parse_command_data_ref :: "(command_path \<times> bytes \<times> u16 option) im" where
  "parse_command_data_ref =
     andthen (scan (MissingField ''CommandDataIB.body'') command_data_step (None, [], None))
       (\<lambda>(path, flds, command_ref).
     andthen (need (MissingField ''CommandDataIB.CommandPath'') path) (\<lambda>p.
       ok (p, if flds = [] then empty_anonymous_struct else flds, command_ref)))"

definition parse_command_data :: "(command_path \<times> bytes) im" where
  "parse_command_data = andthen parse_command_data_ref (\<lambda>(path, flds, _). ok (path, flds))"

definition status_ib_step :: "tlv_element \<Rightarrow> u64 option \<Rightarrow> (u64 option, u64 option) flow im" where
  "status_ib_step e status =
     (if e = ContainerEnd then ok (Done status)
      else case uint_at 0 e of Some n \<Rightarrow> ok (Again (Some n)) | None \<Rightarrow> otherwise e status)"

definition command_status_step :: "tlv_element \<Rightarrow> u64 option \<times> u16 option \<Rightarrow>
    (u64 option \<times> u16 option, u64 option \<times> u16 option) flow im" where
  "command_status_step e acc = (case acc of (status, command_ref) \<Rightarrow>
     if e = ContainerEnd then ok (Done acc)
     else if starts_at 1 e = Some KStructure
     then andthen (scan unclosed status_ib_step status) (\<lambda>st. ok (Again (st, command_ref)))
     else case uint_at 2 e of
       Some n \<Rightarrow> ok (Again (status, try_u16 n))
     | None \<Rightarrow> otherwise e acc)"

definition parse_command_status_ref :: "(im_status \<times> u16 option) im" where
  "parse_command_status_ref =
     andthen (scan (MissingField ''CommandStatusIB.body'') command_status_step (None, None)) (\<lambda>(status, command_ref).
     andthen (need (MissingField ''StatusIB.Status'') status) (\<lambda>raw.
     andthen (need (InvalidStatusCode raw) (try_u8 raw)) (\<lambda>code.
       ok (status_from_u8 code, command_ref))))"

definition parse_command_status :: "im_status im" where
  "parse_command_status = andthen parse_command_status_ref (\<lambda>(status, _). ok status)"

section \<open>Responses, at the client\<close>

text \<open>Advance to the array of context tag 1.\<close>

definition find_responses_step :: "tlv_element \<Rightarrow> unit \<Rightarrow> (unit, unit) flow im" where
  "find_responses_step e acc =
     (if e = ContainerEnd then err (MissingField ''InvokeResponses'')
      else if starts_at 1 e = Some KArray then ok (Done ())
      else otherwise e acc)"

definition first_response_step :: "tlv_element \<Rightarrow> unit \<Rightarrow> (unit, invoke_response) flow im" where
  "first_response_step e acc =
     (if e = ContainerEnd then err EmptyInvokeResponse
      else if starts_at 0 e = Some KStructure
      then andthen parse_command_data (\<lambda>(path, flds). ok (Done (RespCommand path flds)))
      else if starts_at 1 e = Some KStructure
      then andthen parse_command_status (\<lambda>st. ok (Done (RespStatus st)))
      else otherwise e acc)"

definition parse_invoke_response :: "bytes \<Rightarrow> im_error + invoke_response" where
  "parse_invoke_response = parse_with (
     andthen (scan unclosed find_responses_step ()) (\<lambda>_.
     andthen (codec reader_next) (\<lambda>ev.
     andthen (case ev of Some (ContainerStart _ KStructure) \<Rightarrow> ok () | _ \<Rightarrow> err (MissingField ''InvokeResponseIB'')) (\<lambda>_.
     andthen (scan unclosed first_response_step ()) (\<lambda>response.
     andthen finish_im (\<lambda>_. ok response))))))"

definition response_ib_step :: "tlv_element \<Rightarrow> invoke_response_entry option \<Rightarrow>
    (invoke_response_entry option, invoke_response_entry option) flow im" where
  "response_ib_step e entry =
     (if e = ContainerEnd then ok (Done entry)
      else if starts_at 0 e = Some KStructure
      then andthen parse_command_data_ref (\<lambda>(path, flds, command_ref).
        ok (Again (Some \<lparr>ire_command_ref = command_ref, ire_response = RespCommand path flds\<rparr>)))
      else if starts_at 1 e = Some KStructure
      then andthen parse_command_status_ref (\<lambda>(status, command_ref).
        ok (Again (Some \<lparr>ire_command_ref = command_ref, ire_response = RespStatus status\<rparr>)))
      else otherwise e entry)"

definition parse_invoke_response_ib :: "invoke_response_entry im" where
  "parse_invoke_response_ib =
     andthen (scan unclosed response_ib_step None) (need EmptyInvokeResponse)"

definition response_batch_step :: "tlv_element \<Rightarrow> invoke_response_entry list \<Rightarrow>
    (invoke_response_entry list, invoke_response_entry list) flow im" where
  "response_batch_step e out =
     (if e = ContainerEnd then ok (Done out)
      else if starts e = Some KStructure
      then andthen parse_invoke_response_ib (\<lambda>entry. ok (Again (out @ [entry])))
      else otherwise e out)"

definition parse_invoke_response_batch :: "bytes \<Rightarrow> im_error + invoke_response_entry list" where
  "parse_invoke_response_batch = parse_with (
     andthen (scan unclosed find_responses_step ()) (\<lambda>_.
     andthen (scan unclosed response_batch_step []) (\<lambda>out.
     andthen finish_im (\<lambda>_. ok out))))"

section \<open>Requests, at the server\<close>

record invoked_command =
  ic_path :: command_path
  ic_fields_tlv :: bytes
  ic_command_ref :: "u16 option"

record parsed_invoke_request =
  pir_suppress_response :: bool
  pir_timed :: bool
  pir_commands :: "invoked_command list"

definition server_data_step :: "tlv_element \<Rightarrow> command_path option \<times> bytes option \<times> u16 option \<Rightarrow>
    (command_path option \<times> bytes option \<times> u16 option, command_path option \<times> bytes option \<times> u16 option) flow im" where
  "server_data_step e acc = (case acc of (path, fields_tlv, command_ref) \<Rightarrow>
     if e = ContainerEnd then ok (Done acc)
     else if starts_at 0 e = Some KList
     then andthen command_path_from_reader (\<lambda>p. ok (Again (Some p, fields_tlv, command_ref)))
     else if starts_at 1 e = Some KStructure
     then andthen (retag_container_anonymous KStructure) (\<lambda>f. ok (Again (path, Some f, command_ref)))
     else case uint_at 2 e of
       Some n \<Rightarrow> ok (Again (path, fields_tlv, try_u16 n))
     | None \<Rightarrow> otherwise e acc)"

definition read_command_data :: "invoked_command im" where
  "read_command_data =
     andthen (scan unclosed server_data_step (None, None, None)) (\<lambda>(path, fields_tlv, command_ref).
     andthen (need (MissingField ''CommandDataIB.CommandPath'') path) (\<lambda>p.
     andthen (need (MissingField ''CommandDataIB.CommandFields'') fields_tlv) (\<lambda>f.
       ok \<lparr>ic_path = p, ic_fields_tlv = f, ic_command_ref = command_ref\<rparr>)))"

definition invoke_requests_step :: "tlv_element \<Rightarrow> invoked_command list \<Rightarrow>
    (invoked_command list, invoked_command list) flow im" where
  "invoke_requests_step e out =
     (if e = ContainerEnd then ok (Done out)
      else if starts e = Some KStructure
      then andthen read_command_data (\<lambda>c. ok (Again (out @ [c])))
      else otherwise e out)"

definition read_invoke_requests :: "invoked_command list \<Rightarrow> invoked_command list im" where
  "read_invoke_requests out = scan unclosed invoke_requests_step out"

definition invoke_request_step :: "tlv_element \<Rightarrow> bool \<times> bool \<times> invoked_command list \<Rightarrow>
    (bool \<times> bool \<times> invoked_command list, bool \<times> bool \<times> invoked_command list) flow im" where
  "invoke_request_step e acc = (case acc of (suppress_response, timed, commands) \<Rightarrow>
     if e = ContainerEnd then ok (Done acc)
     else case bool_at 0 e of
       Some b \<Rightarrow> ok (Again (b, timed, commands))
     | None \<Rightarrow> case bool_at 1 e of
       Some b \<Rightarrow> ok (Again (suppress_response, b, commands))
     | None \<Rightarrow>
       if starts_at 2 e = Some KArray
       then andthen (read_invoke_requests commands) (\<lambda>cs. ok (Again (suppress_response, timed, cs)))
       else otherwise e acc)"

definition parse_invoke_request :: "bytes \<Rightarrow> im_error + parsed_invoke_request" where
  "parse_invoke_request = parse_with (
     andthen (scan unclosed invoke_request_step (False, False, [])) (\<lambda>(suppress_response, timed, commands).
     andthen finish_im (\<lambda>_.
       ok \<lparr>pir_suppress_response = suppress_response, pir_timed = timed, pir_commands = commands\<rparr>)))"

section \<open>No parser moves the cursor back\<close>

lemma keeps_command_path: "keeps forward command_path_from_reader"
  unfolding command_path_from_reader_def command_path_step_def
  by (intro im_keeps) (auto intro!: im_keeps split: prod.split option.split)

lemma keeps_command_data: "keeps forward parse_command_data_ref" "keeps forward parse_command_data"
proof -
  show ref: "keeps forward parse_command_data_ref"
    unfolding parse_command_data_ref_def command_data_step_def
    by (intro im_keeps) (auto intro!: im_keeps keeps_command_path keeps_retag split: prod.split option.split)
  show "keeps forward parse_command_data"
    unfolding parse_command_data_def by (intro im_keeps ref) (auto intro!: im_keeps split: prod.split)
qed

lemma keeps_command_status: "keeps forward parse_command_status_ref" "keeps forward parse_command_status"
proof -
  show ref: "keeps forward parse_command_status_ref"
    unfolding parse_command_status_ref_def command_status_step_def status_ib_step_def
    by (intro im_keeps) (auto intro!: im_keeps split: prod.split option.split)
  show "keeps forward parse_command_status"
    unfolding parse_command_status_def by (intro im_keeps ref) (auto intro!: im_keeps split: prod.split)
qed

lemma keeps_response_ib: "keeps forward parse_invoke_response_ib"
  unfolding parse_invoke_response_ib_def response_ib_step_def
  by (intro im_keeps) (auto intro!: im_keeps keeps_command_data keeps_command_status split: prod.split)

lemma keeps_server_data: "keeps forward read_command_data"
  unfolding read_command_data_def server_data_step_def
  by (intro im_keeps) (auto intro!: im_keeps keeps_command_path keeps_retag split: prod.split option.split)

lemma keeps_invoke_requests: "keeps forward (read_invoke_requests out)"
  unfolding read_invoke_requests_def invoke_requests_step_def
  by (intro im_keeps) (auto intro!: im_keeps keeps_server_data)

end
