(* ===== verification/IM_Runs.thy ===== *)
theory IM_Runs
  imports IM
begin

text \<open>
  What the interaction model's parsers do on encoded trees. \<open>runs P m x Q\<close> says that from every
  reader in \<open>P\<close> the computation \<open>m\<close> returns \<open>x\<close> and leaves the reader in \<open>Q\<close>; the rules below
  move a reader over encodings, one member of a container at a time.
\<close>

definition at :: "nat \<Rightarrow> bytes \<Rightarrow> tlv_reader \<Rightarrow> bool" where
  "at d xs r \<longleftrightarrow> cursor_ok r \<and> remaining r = xs \<and> rd_depth r = d"

text \<open>The reader just behind the opening of a container.\<close>

definition at_open :: "nat \<Rightarrow> bytes \<Rightarrow> tlv_reader \<Rightarrow> bool" where
  "at_open d xs r \<longleftrightarrow> at d xs r \<and> rd_last_was_start r \<and>
     (\<exists>h. rd_last_span r = Some h \<and> span_body_start h = rd_pos r)"

definition runs :: "(tlv_reader \<Rightarrow> bool) \<Rightarrow> ('e, 'a) parser \<Rightarrow> 'a \<Rightarrow> (tlv_reader \<Rightarrow> bool) \<Rightarrow> bool" where
  "runs P m x Q \<longleftrightarrow> (\<forall>r. P r \<longrightarrow> (\<exists>r'. m r = (Inr x, r') \<and> Q r'))"

lemma runs_ok [simp]: "x = y \<Longrightarrow> runs P (ok x) y P"
  by (simp add: runs_def)

lemma andthen_Pair [simp]: "andthen (Pair (Inr x)) f = f x"
  by (rule ext) (simp add: andthen_def)

lemma runs_Pair [simp]: "x = y \<Longrightarrow> runs P (Pair (Inr x)) y P"
  by (simp add: runs_def)

lemma runs_need: "x = Some y \<Longrightarrow> runs P (need e x) y P"
  by (simp add: runs_def need_def)

lemma runs_andthen: "runs P m x Q \<Longrightarrow> runs Q (f x) y R \<Longrightarrow> runs P (andthen m f) y R"
  unfolding runs_def by (metis andthen_Inr)

lemma runs_opened: "runs (at d xs) m x Q \<Longrightarrow> runs (at_open d xs) m x Q"
  by (simp add: runs_def at_open_def)

section \<open>Containers\<close>

fun inner :: "tlv_value \<Rightarrow> bytes" where
  "inner (VStructure ms) = enc_members ms"
| "inner (VList ms) = enc_members ms"
| "inner (VArray vs) = enc_elements vs"
| "inner v = []"

fun kind_of_value :: "tlv_value \<Rightarrow> container_kind option" where
  "kind_of_value (VStructure ms) = Some KStructure"
| "kind_of_value (VList ms) = Some KList"
| "kind_of_value (VArray vs) = Some KArray"
| "kind_of_value v = None"

text \<open>Values the reader can take in at depth \<open>d\<close>.\<close>

definition readable :: "nat \<Rightarrow> tlv_value \<Rightarrow> bool" where
  "readable d v \<longleftrightarrow> value_wf v \<and> payloads_fit v \<and> d + value_depth v \<le> MAX_DEPTH"

definition kind_type :: "container_kind \<Rightarrow> u8" where
  "kind_type k = (case k of KStructure \<Rightarrow> ET_STRUCTURE | KArray \<Rightarrow> ET_ARRAY | KList \<Rightarrow> ET_LIST)"

lemma kind_type_simps:
  "kind_of (kind_type k) = Some k" "kind_type k AND 31 = kind_type k" "kind_type k \<noteq> 24"
  by (simp_all add: kind_type_def kind_of_def split: container_kind.split)

lemma enc_container:
  "kind_of_value v = Some k \<Longrightarrow> enc t v = encode_tag t (kind_type k) @ inner v @ [ET_END_OF_CONTAINER]"
  by (cases v) (auto simp: enc_def kind_type_def)

lemma container_loop_at:
  assumes "kind_of_value v = Some k" "readable d v" "at (Suc d) (inner v @ ET_END_OF_CONTAINER # ys) r"
  shows "\<exists>ms r'. container_loop False k [] (rd_budget r) r = (Inr ms, r') \<and>
    moved (length (inner v) + 1) r r' \<and> rd_depth r' = d \<and> at d ys r'"
proof -
  obtain ms depth count where ms: "reads_rest k ms (inner v) depth count" and dep: "value_depth v = Suc depth"
  proof (cases v)
    case (VArray vs)
    with assms that reads_tree(3) [of vs] show thesis by (auto simp: readable_def)
  next
    case (VStructure ms)
    with assms that reads_tree(2) [of ms KStructure] show thesis by (auto simp: readable_def)
  next
    case (VList ms)
    with assms that reads_tree(2) [of ms KList] show thesis by (auto simp: readable_def)
  qed (use assms(1) in auto)
  have at: "cursor_ok r" "remaining r = inner v @ ET_END_OF_CONTAINER # ys" "rd_depth r = Suc d"
    using assms(3) by (auto simp: at_def)
  obtain r' where r': "container_loop False k [] (rd_budget r) r = (Inr ms, r')"
    "moved (length (inner v) + 1) r r'" "rd_depth r' = d"
    using reads_restD [OF ms at(1,2), of False "rd_budget r" "[]"] at(3) assms(2) dep
    by (auto simp: readable_def)
  moreover have "remaining r = (inner v @ [ET_END_OF_CONTAINER]) @ ys" using at(2) by simp
  then have "remaining r' = ys" "cursor_ok r'"
    using moved_remaining [of "inner v @ [ET_END_OF_CONTAINER]" r r' ys] r'(2) at(1) by auto
  ultimately show ?thesis by (auto simp: at_def)
qed

lemma skip_body_at:
  assumes "kind_of_value v = Some k" "readable d v" "at (Suc d) (inner v @ ET_END_OF_CONTAINER # ys) r"
  shows "skip_container_body r =
    (Inr (), r\<lparr>rd_pos := rd_pos r + length (inner v) + 1, rd_depth := d\<rparr>)"
proof -
  obtain ms r' where l: "container_loop False k [] (rd_budget r) r = (Inr ms, r')"
    "moved (length (inner v) + 1) r r'"
    using container_loop_at [OF assms] by blast
  have "skip_loop 1 r = skip_loop 0 (r\<lparr>rd_pos := rd_pos r'\<rparr>)"
    using skip_loop_agrees [OF l(1), of r 1] assms(3) by (simp add: at_def)
  then show ?thesis
    using l(2) assms(3) by (simp add: skip_container_body_def andthen_def skip_loop.simps [of 0] moved_def at_def)
qed

lemma at_moved:
  assumes "at d (xs @ ys) r" "rd_bytes r' = rd_bytes r" "rd_pos r' = rd_pos r + length xs" "rd_depth r' = d'"
  shows "at d' ys r'"
  using moved_remaining [of xs r r' ys] assms by (simp add: at_def moved_def)

lemma runs_skip:
  assumes "kind_of_value v = Some k" "readable d v"
  shows "runs (at_open (Suc d) (inner v @ ET_END_OF_CONTAINER # ys)) (skip_as conv) () (at d ys)"
  unfolding runs_def
proof (intro allI impI)
  fix r
  assume o: "at_open (Suc d) (inner v @ ET_END_OF_CONTAINER # ys) r"
  then have a: "at (Suc d) ((inner v @ [ET_END_OF_CONTAINER]) @ ys) r" by (simp add: at_open_def)
  obtain r' where r': "skip_container r = (Inr (), r')" "rd_bytes r' = rd_bytes r"
    "rd_pos r' = rd_pos r + length (inner v) + 1" "rd_depth r' = d"
    using skip_body_at [OF assms, of ys r] o
    by (auto simp: skip_container_def andthen_Inr at_open_def)
  with at_moved [OF a, of r' d] show "\<exists>r'. (skip_as conv) r = (Inr (), r') \<and> at d ys r'"
    by (simp add: skip_as_def codec_eq)
qed

lemma runs_retag:
  assumes "kind_of_value v = Some k" "readable d v"
  shows "runs (at_open (Suc d) (inner v @ ET_END_OF_CONTAINER # ys)) (retag_container_anonymous k)
    (enc Anonymous v) (at d ys)"
  unfolding runs_def
proof (intro allI impI)
  fix r
  assume o: "at_open (Suc d) (inner v @ ET_END_OF_CONTAINER # ys) r"
  then have a: "at (Suc d) ((inner v @ [ET_END_OF_CONTAINER]) @ ys) r"
    and l: "rd_last_was_start r" by (simp_all add: at_open_def)
  obtain h where h: "rd_last_span r = Some h" "span_body_start h = rd_pos r" using o by (auto simp: at_open_def)
  define r' where "r' = r\<lparr>rd_pos := rd_pos r + length (inner v) + 1, rd_depth := d,
    rd_last_span := Some (h\<lparr>span_end := rd_pos r + length (inner v) + 1\<rparr>), rd_last_was_start := False\<rparr>"
  have s: "skip_container_span r = (Inr (h\<lparr>span_end := rd_pos r + length (inner v) + 1\<rparr>), r')"
    using skip_body_at [OF assms, of ys r] o l h
    by (simp add: skip_container_span_def andthen_Inr at_open_def Let_def r'_def)
  have rem: "drop (rd_pos r) (rd_bytes r) = (inner v @ [ET_END_OF_CONTAINER]) @ ys"
    using a by (simp add: at_def remaining_def)
  have "rd_pos r + (length (inner v) + 1) \<le> length (rd_bytes r)"
    using remaining_append_le [of r "inner v @ [ET_END_OF_CONTAINER]" ys] a by (simp add: at_def)
  then have "span_bytes (span_body (h\<lparr>span_end := rd_pos r + length (inner v) + 1\<rparr>)) r' = inner v @ [ET_END_OF_CONTAINER]"
    using rem h(2) by (simp add: span_bytes_def span_body_def r'_def)
  then have "retag_container_anonymous k r = (Inr (enc Anonymous v), r')"
    using s enc_container [OF assms(1), of Anonymous]
    by (simp add: retag_container_anonymous_def andthen_Inr codec_eq start_structure_def start_array_def
        start_list_def write_tag_def kind_type_def split: container_kind.split)
  moreover have "at d ys r'" using at_moved [OF a, of r' d] by (simp add: r'_def)
  ultimately show "\<exists>r'. retag_container_anonymous k r = (Inr (enc Anonymous v), r') \<and> at d ys r'" by blast
qed

section \<open>Events\<close>

lemma runs_next_scalar:
  assumes "kind_of_value v = None" "readable d v"
  shows "runs (at d (enc t v @ ys)) (codec_as conv reader_next) (Some (Scalar t v)) (at d ys)"
  unfolding runs_def
proof (intro allI impI)
  fix r
  assume a: "at d (enc t v @ ys) r"
  obtain w where w: "scalar_ref v = Some w" using assms(1) by (cases v) auto
  obtain r' where r': "next_ref r = (Inr (Some (ScalarRef t w)), r')" "moved (length (enc t v)) r r'" "rd_depth r' = rd_depth r"
    using next_ref_scalar_at [OF w, of r t ys] assms(2) a unfolding readable_def at_def by blast
  then have "at d ys r'" using at_moved [OF a, of r' d] a by (simp add: moved_def at_def)
  moreover have "reader_next r = (Inr (Some (Scalar t v)), r')"
    using r'(1) value_from_scalar_ref [OF w] by (simp add: reader_next_def andthen_Inr)
  ultimately show "\<exists>r'. codec_as conv reader_next r = (Inr (Some (Scalar t v)), r') \<and> at d ys r'"
    by (auto simp: codec_eq)
qed

lemma runs_next_open:
  assumes "kind_of_value v = Some k" "readable d v"
  shows "runs (at d (enc t v @ ys)) (codec_as conv reader_next) (Some (ContainerStart t k))
    (at_open (Suc d) (inner v @ ET_END_OF_CONTAINER # ys))"
  unfolding runs_def
proof (intro allI impI)
  fix r
  assume "at d (enc t v @ ys) r"
  then have a: "at d (encode_tag t (kind_type k) @ inner v @ ET_END_OF_CONTAINER # ys) r"
    by (simp add: enc_container [OF assms(1)])
  have "value_depth v > 0" using assms(1) by (cases v) auto
  then have "rd_depth r < MAX_DEPTH" "cursor_ok r" "rd_depth r = d"
    "remaining r = encode_tag t (kind_type k) @ inner v @ ET_END_OF_CONTAINER # ys"
    using a assms(2) by (auto simp: at_def readable_def)
  then obtain r' where r': "next_ref r = (Inr (Some (ContainerStartRef t k)), r')"
    "moved (length (encode_tag t (kind_type k))) r r'" "rd_depth r' = Suc d"
    "rd_last_was_start r'" "\<exists>h. rd_last_span r' = Some h \<and> span_body_start h = rd_pos r'"
    using next_ref_head_at [OF kind_type_simps(2,3), of r t k "inner v @ ET_END_OF_CONTAINER # ys"]
    by (simp add: kind_type_simps next_open_def moved_def set_span_def)
  moreover have "at (Suc d) (inner v @ ET_END_OF_CONTAINER # ys) r'"
    using at_moved [OF a, of r' "Suc d"] r'(2,3) by (simp add: moved_def)
  ultimately show "\<exists>r'. codec_as conv reader_next r = (Inr (Some (ContainerStart t k)), r') \<and>
      at_open (Suc d) (inner v @ ET_END_OF_CONTAINER # ys) r'"
    using r'(1,4,5) by (auto simp: codec_eq reader_next_def andthen_Inr at_open_def)
qed

lemma runs_next_end:
  "runs (at (Suc d) (ET_END_OF_CONTAINER # ys)) (codec_as conv reader_next) (Some ContainerEnd) (at d ys)"
  unfolding runs_def
proof (intro allI impI)
  fix r
  assume a: "at (Suc d) (ET_END_OF_CONTAINER # ys) r"
  then obtain r' where r': "next_ref r = (Inr (Some ContainerEndRef), r')" "moved 1 r r'" "rd_depth r' = d"
    using next_ref_end_at [of r ys] by (auto simp: at_def)
  then show "\<exists>r'. codec_as conv reader_next r = (Inr (Some ContainerEnd), r') \<and> at d ys r'"
    using at_moved [of "Suc d" "[ET_END_OF_CONTAINER]" ys r r' d] a
    by (auto simp: codec_eq reader_next_def andthen_Inr moved_def)
qed

section \<open>The parsing loop\<close>

text \<open>A body takes the member \<open>t\<close>, \<open>v\<close> in one round, from \<open>acc\<close> to \<open>acc'\<close>.\<close>

definition takes :: "(tlv_element \<Rightarrow> 'a \<Rightarrow> ('e, ('a, 'b) flow) parser) \<Rightarrow> nat \<Rightarrow> tag \<Rightarrow> tlv_value \<Rightarrow> 'a \<Rightarrow> 'a \<Rightarrow> bool" where
  "takes body d t v acc acc' \<longleftrightarrow> readable d v \<and> (\<forall>ys. case kind_of_value v of
     None \<Rightarrow> runs (at d ys) (body (Scalar t v) acc) (Again acc') (at d ys)
   | Some k \<Rightarrow> runs (at_open (Suc d) (inner v @ ET_END_OF_CONTAINER # ys)) (body (ContainerStart t k) acc)
       (Again acc') (at d ys))"

lemma runs_scan_member:
  assumes body: "\<And>e acc. keeps forward (body e acc)" and t: "takes body d t v acc acc'"
    and rest: "runs (at d ys) (scan_as eof conv body acc') y Q"
  shows "runs (at d (enc t v @ ys)) (scan_as eof conv body acc) y Q"
proof (cases "kind_of_value v")
  case None
  with t have r: "readable d v" "runs (at d ys) (body (Scalar t v) acc) (Again acc') (at d ys)"
    by (simp_all add: takes_def)
  show ?thesis
    by (subst scan_unfold [OF body], rule runs_andthen [OF runs_next_scalar [OF None r(1)]], simp,
        rule runs_andthen [OF r(2)]) (simp add: rest)
next
  case (Some k)
  with t have r: "readable d v" "runs (at_open (Suc d) (inner v @ ET_END_OF_CONTAINER # ys))
      (body (ContainerStart t k) acc) (Again acc') (at d ys)"
    by (simp_all add: takes_def)
  show ?thesis
    by (subst scan_unfold [OF body], rule runs_andthen [OF runs_next_open [OF Some r(1)]], simp,
        rule runs_andthen [OF r(2) [simplified]]) (simp add: rest)
qed

lemma runs_scan_end:
  assumes "\<And>e acc. keeps forward (body e acc)" "runs (at d ys) (body ContainerEnd acc) (Done y) Q"
  shows "runs (at (Suc d) (ET_END_OF_CONTAINER # ys)) (scan_as eof conv body acc) y Q"
  by (subst scan_unfold [OF assms(1)], rule runs_andthen [OF runs_next_end], simp, rule runs_andthen [OF assms(2)]) (simp add: runs_ok)

text \<open>A whole container: a chain of rounds, one per member.\<close>

fun takes_all :: "(tlv_element \<Rightarrow> 'a \<Rightarrow> ('e, ('a, 'b) flow) parser) \<Rightarrow> nat \<Rightarrow> (tag \<times> tlv_value) list \<Rightarrow> 'a \<Rightarrow> 'a \<Rightarrow> bool" where
  "takes_all body d [] acc acc' = (acc = acc')"
| "takes_all body d ((t, v) # ms) acc acc' = (\<exists>acc1. takes body d t v acc acc1 \<and> takes_all body d ms acc1 acc')"

lemma runs_scan_prefix:
  assumes body: "\<And>e acc. keeps forward (body e acc)"
  shows "takes_all body d ms acc acc' \<Longrightarrow> runs (at d ys) (scan_as eof conv body acc') y Q \<Longrightarrow>
    runs (at d (enc_members ms @ ys)) (scan_as eof conv body acc) y Q"
proof (induction ms arbitrary: acc)
  case (Cons m ms)
  obtain t v where m: "m = (t, v)" by (cases m)
  with Cons.prems obtain acc1 where "takes body d t v acc acc1" "takes_all body d ms acc1 acc'" by auto
  from runs_scan_member [OF body this(1) Cons.IH [OF this(2) Cons.prems(2)]] m show ?case
    by (simp add: enc_members_Cons del: enc_members.simps)
qed simp

section \<open>Whole containers\<close>

fun children :: "tlv_value \<Rightarrow> (tag \<times> tlv_value) list" where
  "children (VStructure ms) = ms"
| "children (VList ms) = ms"
| "children (VArray vs) = map (Pair Anonymous) vs"
| "children v = []"

lemma enc_elements_members: "enc_elements vs = enc_members (map (Pair Anonymous) vs)"
  by (induction vs) (simp_all add: enc_def)

lemma inner_children: "inner v = enc_members (children v)"
  by (cases v) (simp_all add: enc_elements_members)

lemma readable_members:
  "members_wf ms \<and> members_fit ms \<and> d + members_depth ms \<le> MAX_DEPTH \<longleftrightarrow> d \<le> MAX_DEPTH \<and> (\<forall>(t, v)\<in>set ms. readable d v)"
  by (induction ms) (auto simp: readable_def)

lemma readable_elements:
  "elements_wf vs \<and> elements_fit vs \<and> d + elements_depth vs \<le> MAX_DEPTH \<longleftrightarrow> d \<le> MAX_DEPTH \<and> (\<forall>v\<in>set vs. readable d v)"
  by (induction vs) (auto simp: readable_def)

lemma readable_container:
  "kind_of_value v \<noteq> None \<Longrightarrow>
   readable d v \<longleftrightarrow> Suc d \<le> MAX_DEPTH \<and> (\<forall>(t, u)\<in>set (children v). readable (Suc d) u)"
  using readable_members [of _ "Suc d"] readable_elements [of _ "Suc d"]
  by (cases v) (auto simp: readable_def)

lemma readable_scalar: "kind_of_value v = None \<Longrightarrow> value_wf v \<Longrightarrow> payloads_fit v \<Longrightarrow> d \<le> MAX_DEPTH \<Longrightarrow> readable d v"
  by (cases v) (auto simp: readable_def)

lemma takes_scalar:
  "kind_of_value v = None \<Longrightarrow> readable d v \<Longrightarrow> body (Scalar t v) acc = ok (Again acc') \<Longrightarrow> takes body d t v acc acc'"
  by (simp add: takes_def runs_ok)

lemma takes_container:
  assumes "kind_of_value v = Some k" "readable d v"
    "\<And>ys. runs (at_open (Suc d) (enc_members (children v) @ ET_END_OF_CONTAINER # ys)) (body (ContainerStart t k) acc)
       (Again acc') (at d ys)"
  shows "takes body d t v acc acc'"
  using assms unfolding takes_def inner_children by simp

lemma runs_map: "runs P m x Q \<Longrightarrow> y = g x \<Longrightarrow> runs P (andthen m (\<lambda>x. ok (g x))) y Q"
  by (auto intro: runs_andthen runs_ok)

lemma takes_parsed:
  assumes "kind_of_value v = Some k" "readable d v"
    "\<And>ys. runs (at_open (Suc d) (enc_members (children v) @ ET_END_OF_CONTAINER # ys)) m x (at d ys)"
    "body (ContainerStart t k) acc = andthen m (\<lambda>x. ok (Again (g x)))" "acc' = g x"
  shows "takes body d t v acc acc'"
  by (rule takes_container [OF assms(1,2)], unfold assms(4)) (rule runs_map [OF assms(3)], simp add: assms(5))

lemma takes_otherwise:
  assumes "readable d v" "\<And>e. e = Scalar t v \<or> (\<exists>k. kind_of_value v = Some k \<and> e = ContainerStart t k) \<Longrightarrow> body e acc = otherwise_as conv e acc"
  shows "takes body d t v acc acc"
proof (cases "kind_of_value v")
  case None
  with assms show ?thesis by (intro takes_scalar) (simp_all add: otherwise_as_def starts_def)
next
  case (Some k)
  show ?thesis
  proof (rule takes_container [OF Some assms(1)])
    fix ys
    have "body (ContainerStart t k) acc = andthen (skip_as conv) (\<lambda>_. ok (Again acc))"
      using assms(2) [of "ContainerStart t k"] Some by (simp add: otherwise_as_def starts_def)
    then show "runs (at_open (Suc d) (enc_members (children v) @ ET_END_OF_CONTAINER # ys)) (body (ContainerStart t k) acc)
       (Again acc) (at d ys)"
      using runs_map [OF runs_skip [OF Some assms(1)], of "Again acc" "\<lambda>_. Again acc", OF refl]
      by (simp only: inner_children)
  qed
qed

lemma runs_scan_container:
  assumes body: "\<And>e acc. keeps forward (body e acc)" and all: "takes_all body (Suc d) ms acc acc'"
    and last: "body ContainerEnd acc' = ok (Done y)"
  shows "runs (at (Suc d) (enc_members ms @ ET_END_OF_CONTAINER # ys)) (scan_as eof conv body acc) y (at d ys)"
  by (rule runs_scan_prefix [OF body all], rule runs_scan_end [OF body]) (simp add: last runs_ok)

lemma takes_all_append:
  "takes_all body d (ms @ ms') acc acc'' \<longleftrightarrow> (\<exists>acc'. takes_all body d ms acc acc' \<and> takes_all body d ms' acc' acc'')"
  by (induction ms arbitrary: acc) (simp, fastforce)

section \<open>Values\<close>

lemma runs_read_container:
  "kind_of_value v = Some k \<Longrightarrow> readable d v \<Longrightarrow> MAX_DEPTH - d \<le> n \<Longrightarrow>
   runs (at (Suc d) (enc_members (children v) @ ET_END_OF_CONTAINER # ys)) (read_container n k) v (at d ys)"
proof (induction n arbitrary: v k d ys)
  case 0
  then show ?case using readable_container [of v d] by simp
next
  case (Suc n)
  let ?body = "\<lambda>e out. case e of ContainerEnd \<Rightarrow> ok (Done out) | Scalar t v \<Rightarrow> ok (Again (out @ [(t, v)]))
       | ContainerStart t inner_kind \<Rightarrow> andthen (read_container n inner_kind) (\<lambda>v. ok (Again (out @ [(t, v)])))"
  have body: "keeps forward (?body e out)" for e out
    by (auto intro!: im_keeps keeps_read_container split: tlv_element.split)
  have one: "takes ?body (Suc d) t u out (out @ [(t, u)])" if "(t, u) \<in> set (children v)" for t u out
  proof (cases "kind_of_value u")
    case None
    then show ?thesis using that readable_container [of v d] Suc.prems by (intro takes_scalar) auto
  next
    case (Some k')
    have u: "readable (Suc d) u" using that readable_container [of v d] Suc.prems by auto
    show ?thesis
    proof (rule takes_container [OF Some u])
      fix ys
      show "runs (at_open (Suc (Suc d)) (enc_members (children u) @ ET_END_OF_CONTAINER # ys))
          (?body (ContainerStart t k') out) (Again (out @ [(t, u)])) (at (Suc d) ys)"
        using Suc.IH [OF Some u, of ys] Suc.prems(3) by (auto intro!: runs_opened runs_map)
    qed
  qed
  have "takes_all ?body (Suc d) ms out (out @ ms)" if "set ms \<subseteq> set (children v)" for ms out
    using that
  proof (induction ms arbitrary: out)
    case (Cons m ms)
    obtain t u where m: "m = (t, u)" by (cases m)
    with Cons.prems one Cons.IH [of "out @ [(t, u)]"] show ?case by auto
  qed simp
  from this [of "children v" "[]"] have all: "takes_all ?body (Suc d) (children v) [] (children v)" by simp
  from runs_scan_container [OF body all, of "children v" ys unclosed]
  have "runs (at (Suc d) (enc_members (children v) @ ET_END_OF_CONTAINER # ys)) (scan unclosed ?body []) (children v) (at d ys)"
    by simp
  moreover have "build_container k (children v) = v" using Suc.prems(1) by (cases v) (auto simp: comp_def)
  ultimately show ?case unfolding read_container.simps by (auto intro: runs_map)
qed

lemma runs_read_container_value:
  assumes "kind_of_value v = Some k" "readable d v"
  shows "runs (at_open (Suc d) (enc_members (children v) @ ET_END_OF_CONTAINER # ys)) (read_container_value k) v (at d ys)"
  using runs_read_container [OF assms, of "MAX_DEPTH - d" ys]
  by (auto simp: runs_def at_open_def at_def read_container_value_def)

section \<open>Messages\<close>


lemma parse_prefix_runs:
  assumes "readable 0 (VStructure ms)" "length (enc Anonymous (VStructure ms) @ zs) < 2 ^ 64"
    "runs (at 1 (enc_members ms @ ET_END_OF_CONTAINER # zs)) p x Q"
  shows "parse_as conv bad p (enc Anonymous (VStructure ms) @ zs) = Inr x"
proof -
  let ?bs = "enc Anonymous (VStructure ms) @ zs"
  have "at 0 ?bs (reader_new ?bs)"
    using fresh_reader_at [OF assms(2)] by (simp add: at_def reader_new_eq)
  moreover have "runs (at 0 ?bs) (codec_as conv reader_next) (Some (ContainerStart Anonymous KStructure))
      (at_open (Suc 0) (enc_members ms @ ET_END_OF_CONTAINER # zs))"
    using runs_next_open [of "VStructure ms" KStructure 0 Anonymous zs conv] assms(1) by (simp only: inner.simps kind_of_value.simps)
  then have "runs (at 0 ?bs) (expect_struct_as conv bad) () (at_open 1 (enc_members ms @ ET_END_OF_CONTAINER # zs))"
    unfolding expect_struct_as_def by (auto intro!: runs_andthen [where f = "\<lambda>ev. if ev = _ then _ else _"] runs_ok)
  then have "runs (at 0 ?bs) (andthen (expect_struct_as conv bad) (\<lambda>_. p)) x Q"
    by (rule runs_andthen) (rule runs_opened [OF assms(3)])
  ultimately show ?thesis unfolding parse_as_def runs_def by fastforce
qed

lemma parse_with_runs:
  assumes "readable 0 (VStructure ms)" "length (enc Anonymous (VStructure ms)) < 2 ^ 64"
    "runs (at 1 (enc_members ms @ ET_END_OF_CONTAINER # [])) p x Q"
  shows "parse_as conv bad p (enc Anonymous (VStructure ms)) = Inr x"
  using parse_prefix_runs [of ms "[]" p x Q conv bad] assms by (simp only: append_Nil2)

text \<open>What closes the \<open>d\<close> containers that are open.\<close>

inductive closes :: "nat \<Rightarrow> bytes \<Rightarrow> bool" where
  closes_0: "closes 0 []"
| closes_Suc: "closes d ys \<Longrightarrow> readable d (VList ms) \<Longrightarrow> closes (Suc d) (enc_members ms @ ET_END_OF_CONTAINER # ys)"

lemma runs_finish: "closes d xs \<Longrightarrow> runs (at d xs) finish_im () (at 0 [])"
proof (induction rule: closes.induct)
  case closes_0
  show ?case
    by (auto simp: runs_def finish_im_def codec_eq finish_reader.simps at_def is_empty_def remaining_def)
next
  case (closes_Suc d ys ms)
  show ?case
    unfolding runs_def
  proof (intro allI impI)
    fix r
    assume a: "at (Suc d) (enc_members ms @ ET_END_OF_CONTAINER # ys) r"
    let ?r1 = "r\<lparr>rd_pos := rd_pos r + length (enc_members ms) + 1, rd_depth := d\<rparr>"
    have s: "skip_container_body r = (Inr (), ?r1)"
      using skip_body_at [of "VList ms" KList d ys r] closes_Suc.hyps(2) a by simp
    have "at d ys (?r1\<lparr>rd_last_was_start := False\<rparr>)"
      using at_moved [of "Suc d" "enc_members ms @ [ET_END_OF_CONTAINER]" ys r "?r1\<lparr>rd_last_was_start := False\<rparr>" d] a
      by simp
    with closes_Suc.IH obtain r' where "finish_reader (?r1\<lparr>rd_last_was_start := False\<rparr>) = (Inr (), r')" "at 0 [] r'"
      by (auto simp: runs_def finish_im_def codec_eq)
    moreover have "rd_depth r > 0" using a by (simp add: at_def)
    ultimately show "\<exists>r'. finish_im r = (Inr (), r') \<and> at 0 [] r'"
      using s by (subst finish_im_def) (auto simp: codec_eq finish_reader.simps [of r])
  qed
qed

lemma parse_message:
  assumes "readable 0 (VStructure ms)" "length (enc Anonymous (VStructure ms)) < 2 ^ 64"
    "runs (at 1 (enc_members ms @ ET_END_OF_CONTAINER # [])) p y (at d xs)" "closes d xs"
    "k y = andthen finish_im (\<lambda>_. ok z)"
  shows "parse_with (andthen p k) (enc Anonymous (VStructure ms)) = Inr z"
proof (rule parse_with_runs [OF assms(1,2)])
  show "runs (at 1 (enc_members ms @ [ET_END_OF_CONTAINER])) (andthen p k) z (at 0 [])"
    by (rule runs_andthen [OF assms(3)], unfold assms(5)) (rule runs_andthen [OF runs_finish [OF assms(4)] runs_ok [OF refl]])
qed

text \<open>A loop left in the middle of a container.\<close>

lemma runs_scan_exit:
  assumes "\<And>e acc. keeps forward (body e acc)" "kind_of_value v = Some k" "readable d v"
    "runs (at_open (Suc d) (enc_members (children v) @ ET_END_OF_CONTAINER # ys)) (body (ContainerStart t k) acc) (Done y) Q"
  shows "runs (at d (enc t v @ ys)) (scan_as eof conv body acc) y Q"
  by (subst scan_unfold [OF assms(1)], rule runs_andthen [OF runs_next_open [OF assms(2,3)]],
      simp only: option.case inner_children, rule runs_andthen [OF assms(4)]) (simp add: runs_ok)

lemma runs_scan_exit_scalar:
  assumes "\<And>e acc. keeps forward (body e acc)" "kind_of_value v = None" "readable d v"
    "runs (at d ys) (body (Scalar t v) acc) (Done y) Q"
  shows "runs (at d (enc t v @ ys)) (scan_as eof conv body acc) y Q"
  by (subst scan_unfold [OF assms(1)], rule runs_andthen [OF runs_next_scalar [OF assms(2,3)]],
      simp only: option.case, rule runs_andthen [OF assms(4)]) (simp add: runs_ok)

lemma runs_to_finish:
  assumes "runs P m x (at d xs)" "closes d xs"
  shows "runs P (andthen m (\<lambda>out. andthen finish_im (\<lambda>_. ok out))) x (at 0 [])"
  by (rule runs_andthen [OF assms(1)], rule runs_andthen [OF runs_finish [OF assms(2)] runs_ok [OF refl]])

lemma try_ucast [simp]:
  "try_u8 (ucast (a :: u8)) = Some a" "try_u16 (ucast (b :: u16)) = Some b" "try_u32 (ucast (c :: u32)) = Some c"
  using unat_bound [of a] unat_bound [of b] unat_bound [of c]
  by (simp_all add: try_u8_def try_u16_def try_u32_def word_less_nat_alt unat_ucast_up ucast_up_ucast_id is_up)

lemmas arms = scalar_at_def uint_at_def bool_at_def starts_at_def starts_def

lemma need_Some [simp]: "need e (Some x) = ok x"
  by (simp add: need_def)

lemma takes_all_Cons:
  "takes body d t v acc acc1 \<Longrightarrow> takes_all body d ms acc1 acc' \<Longrightarrow> takes_all body d ((t, v) # ms) acc acc'"
  by auto

lemma takes_all_Nil: "takes_all body d [] acc acc"
  by simp

lemma readable_plain: "d \<le> MAX_DEPTH \<Longrightarrow> readable d (VUint n)" "d \<le> MAX_DEPTH \<Longrightarrow> readable d (VBool b)"
  "d \<le> MAX_DEPTH \<Longrightarrow> readable d VNull"
  by (simp_all add: readable_def)

lemma status_code_roundtrip: "st \<noteq> Failure 0 \<Longrightarrow> status_from_u8 (status_to_u8 st) = st"
  by (cases st) (auto simp: status_from_u8_def)

section \<open>What the builders write\<close>

lemma enc_containers:
  "enc t (VStructure ms) = encode_tag t ET_STRUCTURE @ enc_members ms @ [ET_END_OF_CONTAINER]"
  "enc t (VList ms) = encode_tag t ET_LIST @ enc_members ms @ [ET_END_OF_CONTAINER]"
  "enc t (VArray vs) = encode_tag t ET_ARRAY @ enc_elements vs @ [ET_END_OF_CONTAINER]"
  by (simp_all add: enc_def)

lemma enc_members_append: "enc_members (ms @ ms') = enc_members ms @ enc_members ms'"
  by (induction ms) (auto simp: enc_simps simp del: enc_members.simps(2))

lemma sequence_append: "sequence (ws @ ws') = andthen (sequence ws) (\<lambda>_. sequence ws')"
  by (induction ws) (simp_all only: append.simps sequence.simps andthen_ok andthen_assoc)

lemmas writer_eqs = put_eqs put_preencoded_enc start_structure_def start_array_def start_list_def
  end_container_def write_tag_def andthen_def

text \<open>The last member of every message, and the end of the message.\<close>

abbreviation revision_end :: bytes where
  "revision_end \<equiv> enc (Context 0xFF) (VUint (ucast IM_REVISION)) @ [ET_END_OF_CONTAINER]"

lemma closes_revision_end: "closes (Suc 0) revision_end"
  using closes_Suc [OF closes_0, of "[(Context 0xFF, VUint (ucast IM_REVISION))]"]
  by (simp add: readable_def MAX_DEPTH_def enc_simps del: enc_members.simps(2))

lemma length_enc_uint: "length (enc (Context c) (VUint n)) \<le> 10"
  by (simp add: enc_def encode_tag_def uint_body_def)

section \<open>Results of a computation\<close>

definition returns :: "('a \<Rightarrow> bool) \<Rightarrow> ('e, 'a) parser \<Rightarrow> bool" where
  "returns P m \<longleftrightarrow> (\<forall>r x r'. m r = (Inr x, r') \<longrightarrow> P x)"

named_theorems result_rules

lemma returns_basic [result_rules]:
  "P x \<Longrightarrow> returns P (ok x)" "returns P (err e)" "(\<And>y. w = Some y \<Longrightarrow> Q y) \<Longrightarrow> returns Q (need e w)"
  by (auto simp: returns_def ok_def err_def need_def split: option.split)

lemma returns_andthen: "returns Q m \<Longrightarrow> (\<And>x. Q x \<Longrightarrow> returns P (f x)) \<Longrightarrow> returns P (andthen m f)"
  unfolding returns_def andthen_eq_Inr by metis

lemma returns_any: "returns (\<lambda>_. True) m"
  by (simp add: returns_def)

lemma returns_need_then: "(\<And>x. returns P (f x)) \<Longrightarrow> returns P (andthen (need e w) f)"
  by (rule returns_andthen [OF returns_any])

lemma returns_if [result_rules]: "(b \<Longrightarrow> returns P m) \<Longrightarrow> (\<not> b \<Longrightarrow> returns P m') \<Longrightarrow> returns P (if b then m else m')"
  by simp

lemma returns_option [result_rules]:
  "(x = None \<Longrightarrow> returns P m) \<Longrightarrow> (\<And>y. x = Some y \<Longrightarrow> returns P (f y)) \<Longrightarrow> returns P (case x of None \<Rightarrow> m | Some y \<Rightarrow> f y)"
  by (simp split: option.split)

lemma returns_prod [result_rules]: "(\<And>y z. q = (y, z) \<Longrightarrow> returns P (f y z)) \<Longrightarrow> returns P (case q of (y, z) \<Rightarrow> f y z)"
  by (simp split: prod.split)

text \<open>Every scalar the reader delivers is well formed.\<close>

definition sound :: "tlv_value \<Rightarrow> bool" where
  "sound v \<longleftrightarrow> value_wf v \<and> payloads_fit v"

fun sound_element :: "tlv_element \<Rightarrow> bool" where
  "sound_element (Scalar t v) \<longleftrightarrow> sound v"
| "sound_element e \<longleftrightarrow> True"

fun flow_ok :: "('a \<Rightarrow> bool) \<Rightarrow> ('b \<Rightarrow> bool) \<Rightarrow> ('a, 'b) flow \<Rightarrow> bool" where
  "flow_ok I P (Again a) = I a"
| "flow_ok I P (Done y) = P y"

lemma returns_next: "returns (\<lambda>ev. \<forall>e. ev = Some e \<longrightarrow> sound_element e) (codec_as conv reader_next)"
  unfolding returns_def
proof (intro allI impI)
  fix r x r' e
  assume "codec_as conv reader_next r = (Inr x, r')" "x = Some e"
  then obtain ref where "next_ref r = (Inr (Some ref), r')" "e = element_from ref"
    by (auto simp: codec_eq reader_next_def andthen_eq_Inr ok_def)
  with next_ref_event(2) show "sound_element e"
    by (cases ref) (auto simp: sound_def good_scalar_def)
qed

lemma returns_scan:
  assumes "\<And>e acc. sound_element e \<Longrightarrow> I acc \<Longrightarrow> returns (flow_ok I P) (body e acc)" "I acc"
  shows "returns P (scan_as eof conv body acc)"
proof -
  have "returns P (scan_fuel n eof conv body acc)" if "I acc" for n acc
    using that
  proof (induction n arbitrary: acc)
    case (Suc n)
    show ?case
      unfolding scan_fuel.simps
    proof (rule returns_andthen [OF returns_next], rule returns_option)
      fix ev e
      assume "\<forall>e. ev = Some e \<longrightarrow> sound_element e" "ev = Some e"
      then show "returns P (andthen (body e acc) (\<lambda>fl. case fl of Again acc' \<Rightarrow> scan_fuel n eof conv body acc' | Done y \<Rightarrow> ok y))"
        using Suc by (intro returns_andthen [OF assms(1)]) (auto simp: returns_basic split: flow.split)
    qed (rule returns_basic)
  qed (simp add: returns_basic)
  with assms(2) show ?thesis by (fastforce simp: returns_def scan_as_def)
qed

lemma returns_otherwise [result_rules]: "I acc \<Longrightarrow> returns (flow_ok I P) (otherwise_as conv e acc)"
  unfolding otherwise_as_def by (cases e) (auto intro!: returns_basic returns_andthen [OF returns_any])

end
