(* ===== verification/IM_Commands.thy ===== *)
theory IM_Commands
  imports IM_Invoke IM_Runs
begin

text \<open>
  Commands travel: what the client's builders write the server's parser reads, and what the
  server answers the client reads. The messages are described by value trees, which the
  builders encode and the parsers take apart.
\<close>

section \<open>Trees of messages\<close>

definition command_path_value :: "command_path \<Rightarrow> tlv_value" where
  "command_path_value p = VList [(Context 0, VUint (ucast (cp_endpoint p))),
     (Context 1, VUint (ucast (cp_cluster p))), (Context 2, VUint (ucast (cp_command p)))]"

definition command_data_value :: "command_path \<times> tlv_value \<times> u16 option \<Rightarrow> tlv_value" where
  "command_data_value c = (case c of (p, v, command_ref) \<Rightarrow> VStructure ([(Context 0, command_path_value p), (Context 1, v)] @
     (case command_ref of None \<Rightarrow> [] | Some n \<Rightarrow> [(Context 2, VUint (ucast n))])))"

definition invoke_request_value :: "bool \<Rightarrow> bool \<Rightarrow> (command_path \<times> tlv_value \<times> u16 option) list \<Rightarrow> tlv_value" where
  "invoke_request_value suppress timed cs = VStructure [(Context 0, VBool suppress), (Context 1, VBool timed),
     (Context 2, VArray (map command_data_value cs)), (Context 0xFF, VUint (ucast IM_REVISION))]"

definition invoke_response_value :: "tlv_value list \<Rightarrow> tlv_value" where
  "invoke_response_value ibs = VStructure [(Context 0, VBool False), (Context 1, VArray ibs),
     (Context 0xFF, VUint (ucast IM_REVISION))]"

definition command_status_value :: "command_path \<Rightarrow> im_status \<Rightarrow> tlv_value" where
  "command_status_value p st = VStructure [(Context 0, command_path_value p),
     (Context 1, VStructure [(Context 0, VUint (ucast (status_to_u8 st)))])]"

lemma write_command_path_eq: "write_command_path t p out = (Inr (), out @ enc t (command_path_value p))"
  by (simp add: write_command_path_def command_path_value_def writer_eqs enc_containers enc_simps
      del: enc_members.simps(2))

lemma build_request_tree:
  assumes "payloads_fit v"
  shows "build_invoke_request_inner p (enc Anonymous v) timed suppress =
    Some (enc Anonymous (invoke_request_value suppress timed [(p, v, None)]))"
  using assms
  by (simp add: build_invoke_request_inner_def written_def invoke_request_value_def command_data_value_def
      writer_eqs write_command_path_eq enc_containers enc_simps del: enc_members.simps(2) enc_elements.simps(2))

lemma write_batch_command_eq:
  "payloads_fit v \<Longrightarrow> i < 2 ^ 16 \<Longrightarrow>
   write_batch_command (i, p, enc Anonymous v) out =
     (Inr (), out @ enc Anonymous (command_data_value (p, v, Some (word_of_nat i))))"
proof -
  assume a: "payloads_fit v" "i < 2 ^ 16"
  then have "(ucast (word_of_nat i :: u16) :: u64) = word_of_nat i"
    by (simp add: word_unat_eq_iff unat_ucast_up unat_of_nat)
  with a show ?thesis
    by (simp add: write_batch_command_def command_data_value_def writer_eqs write_command_path_eq enc_containers
        enc_simps del: enc_members.simps(2))
qed

definition numbered :: "(command_path \<times> tlv_value) list \<Rightarrow> (command_path \<times> tlv_value \<times> u16 option) list" where
  "numbered cs = map (\<lambda>(i, p, v). (p, v, Some (word_of_nat i))) (enumerate 0 cs)"

lemma build_batch_tree:
  assumes "\<forall>(p, v)\<in>set cs. payloads_fit v" "length cs \<le> 2 ^ 16"
  shows "build_invoke_request_batch (map (\<lambda>(p, v). (p, enc Anonymous v)) cs) =
    Some (enc Anonymous (invoke_request_value False False (numbered cs)))"
proof -
  have "sequence (map write_batch_command (enumerate n (map (\<lambda>(p, v). (p, enc Anonymous v)) xs))) out =
      (Inr (), out @ enc_elements (map (\<lambda>(i, p, v). command_data_value (p, v, Some (word_of_nat i))) (enumerate n xs)))"
    if "\<forall>(p, v)\<in>set xs. payloads_fit v" "n + length xs \<le> 2 ^ 16" for n xs out
    using that
  proof (induction xs arbitrary: n out)
    case (Cons x xs)
    obtain p v where x: "x = (p, v)" by (cases x)
    with Cons.prems have "write_batch_command (n, p, enc Anonymous v) out =
        (Inr (), out @ enc Anonymous (command_data_value (p, v, Some (word_of_nat n))))"
      by (intro write_batch_command_eq) auto
    with x Cons.IH [of "Suc n"] Cons.prems show ?case
      by (simp add: andthen_Inr enc_simps del: enc_elements.simps(2))
  qed simp
  moreover have "map command_data_value (numbered cs) =
      map (\<lambda>(i, p, v). command_data_value (p, v, Some (word_of_nat i))) (enumerate 0 cs)"
    by (auto simp: numbered_def)
  ultimately show ?thesis
    using assms
    by (simp add: build_invoke_request_batch_def written_def sequence_append invoke_request_value_def
        writer_eqs enc_containers enc_simps del: enc_members.simps(2) enc_elements.simps(2))
qed

section \<open>Parsing the parts\<close>

lemma keeps_command_path_step: "keeps forward (command_path_step e acc)"
  by (auto simp: command_path_step_def intro!: im_keeps split: prod.split option.split)

lemma takes_command_path:
  assumes "d \<le> MAX_DEPTH"
  shows "takes command_path_step d (Context 0) (VUint (ucast x)) (a, b, c) (Some x, b, c)"
    "takes command_path_step d (Context 1) (VUint (ucast y)) (a, b, c) (a, Some y, c)"
    "takes command_path_step d (Context 2) (VUint (ucast z)) (a, b, c) (a, b, Some z)"
  using assms by (auto simp: command_path_step_def arms intro!: takes_scalar readable_plain)

lemma runs_command_path:
  assumes "Suc d \<le> MAX_DEPTH"
  shows "runs (at_open (Suc d) (enc_members (children (command_path_value p)) @ ET_END_OF_CONTAINER # ys))
    command_path_from_reader p (at d ys)"
proof -
  have "takes_all command_path_step (Suc d) (children (command_path_value p)) (None, None, None)
      (Some (cp_endpoint p), Some (cp_cluster p), Some (cp_command p))"
    unfolding command_path_value_def children.simps
    by (rule takes_all_Cons takes_command_path assms takes_all_Nil)+
  from runs_scan_container [OF keeps_command_path_step this, of _ ys unclosed]
  have "runs (at (Suc d) (enc_members (children (command_path_value p)) @ ET_END_OF_CONTAINER # ys))
      (scan unclosed command_path_step (None, None, None)) (Some (cp_endpoint p), Some (cp_cluster p), Some (cp_command p)) (at d ys)"
    by (simp add: command_path_step_def)
  then show ?thesis
    unfolding command_path_from_reader_def by (intro runs_opened) (rule runs_andthen, assumption, simp add: runs_ok)
qed

lemma command_path_value_container [simp]:
  "kind_of_value (command_path_value p) = Some KList" "payloads_fit (command_path_value p)"
  "value_wf (command_path_value p)" "value_depth (command_path_value p) = 1"
  by (simp_all add: command_path_value_def)

section \<open>Requests\<close>

lemma keeps_server_data_step: "keeps forward (server_data_step e acc)"
  by (auto simp: server_data_step_def intro!: im_keeps keeps_command_path keeps_retag split: prod.split option.split)

lemma takes_server_data:
  assumes "Suc d \<le> MAX_DEPTH"
  shows "takes server_data_step d (Context 0) (command_path_value p) (a, b, c) (Some p, b, c)"
    "kind_of_value v = Some KStructure \<Longrightarrow> readable d v \<Longrightarrow>
     takes server_data_step d (Context 1) v (a, b, c) (a, Some (enc Anonymous v), c)"
    "takes server_data_step d (Context 2) (VUint (ucast n)) (a, b, c) (a, b, Some n)"
proof -
  show "takes server_data_step d (Context 0) (command_path_value p) (a, b, c) (Some p, b, c)"
    using assms by (intro takes_parsed [OF _ _ runs_command_path, where k = KList and g = "\<lambda>p. (Some p, b, c)"])
      (simp_all add: server_data_step_def arms readable_def)
  show "takes server_data_step d (Context 1) v (a, b, c) (a, Some (enc Anonymous v), c)"
    if "kind_of_value v = Some KStructure" "readable d v"
    using that by (intro takes_parsed [OF _ _ runs_retag [unfolded inner_children], where k = KStructure and g = "\<lambda>f. (a, Some f, c)"])
      (simp_all add: server_data_step_def arms)
  show "takes server_data_step d (Context 2) (VUint (ucast n)) (a, b, c) (a, b, Some n)"
    using assms by (auto simp: server_data_step_def arms intro!: takes_scalar readable_plain)
qed

definition invoked :: "command_path \<times> tlv_value \<times> u16 option \<Rightarrow> invoked_command" where
  "invoked c = (case c of (p, v, command_ref) \<Rightarrow>
     \<lparr>ic_path = p, ic_fields_tlv = enc Anonymous v, ic_command_ref = command_ref\<rparr>)"

definition command_ok :: "nat \<Rightarrow> command_path \<times> tlv_value \<times> u16 option \<Rightarrow> bool" where
  "command_ok d c \<longleftrightarrow> (case c of (p, v, _) \<Rightarrow> kind_of_value v = Some KStructure \<and> readable d v)"

lemma runs_command_data:
  assumes "command_ok (Suc d) c"
  shows "runs (at_open (Suc d) (enc_members (children (command_data_value c)) @ ET_END_OF_CONTAINER # ys))
    read_command_data (invoked c) (at d ys)"
proof -
  obtain p v n where c: "c = (p, v, n)" by (cases c)
  with assms have v: "kind_of_value v = Some KStructure" "readable (Suc d) v" by (simp_all add: command_ok_def)
  then have d: "Suc (Suc d) \<le> MAX_DEPTH" using readable_container [of v "Suc d"] by simp
  have "takes_all server_data_step (Suc d) (children (command_data_value c)) (None, None, None)
      (Some p, Some (enc Anonymous v), n)"
  proof (cases n)
    case None
    then show ?thesis
      unfolding c command_data_value_def prod.case children.simps option.case append_Cons append_Nil
      by (simp only: None option.case append_Nil) (rule takes_all_Cons takes_server_data d v takes_all_Nil)+
  next
    case (Some m)
    show ?thesis
      unfolding c command_data_value_def prod.case children.simps Some option.case append_Cons append_Nil
      by (rule takes_all_Cons takes_server_data d v takes_all_Nil)+
  qed
  from runs_scan_container [OF keeps_server_data_step this, of _ ys unclosed]
  have "runs (at (Suc d) (enc_members (children (command_data_value c)) @ ET_END_OF_CONTAINER # ys))
      (scan unclosed server_data_step (None, None, None)) (Some p, Some (enc Anonymous v), n) (at d ys)"
    by (simp add: server_data_step_def)
  then show ?thesis
    unfolding read_command_data_def by (intro runs_opened) (rule runs_andthen, assumption, simp add: runs_ok c invoked_def)
qed

lemma command_data_readable:
  assumes "command_ok (Suc d) c"
  shows "kind_of_value (command_data_value c) = Some KStructure" "readable d (command_data_value c)"
proof -
  obtain p v n where c: "c = (p, v, n)" by (cases c)
  have v: "kind_of_value v \<noteq> None" "readable (Suc d) v" using assms by (simp_all add: command_ok_def c)
  then have d: "Suc (Suc d) \<le> MAX_DEPTH" using readable_container [of v "Suc d"] by simp
  show k: "kind_of_value (command_data_value c) = Some KStructure" by (simp add: command_data_value_def c)
  show "readable d (command_data_value c)"
    using v d by (subst readable_container) (auto simp: k, auto simp: command_data_value_def c readable_def split: option.splits)
qed

lemma keeps_invoke_requests_step: "keeps forward (invoke_requests_step e out)"
  by (auto simp: invoke_requests_step_def intro!: im_keeps keeps_server_data)

lemma takes_all_invoke_requests:
  "\<forall>c\<in>set cs. command_ok (Suc d) c \<Longrightarrow>
   takes_all invoke_requests_step d (map (Pair Anonymous) (map command_data_value cs)) out (out @ map invoked cs)"
proof (induction cs arbitrary: out)
  case (Cons c cs)
  have "takes invoke_requests_step d Anonymous (command_data_value c) out (out @ [invoked c])"
    using Cons.prems command_data_readable [of d c]
    by (intro takes_parsed [OF _ _ runs_command_data, where k = KStructure and g = "\<lambda>c. out @ [c]"])
      (simp_all add: invoke_requests_step_def arms)
  with Cons.IH [of "out @ [invoked c]"] Cons.prems show ?case by auto
qed simp

lemma invoke_request_value_readable:
  assumes "\<forall>c\<in>set cs. command_ok 3 c"
  shows "readable 1 (VArray (map command_data_value cs))" "readable 0 (invoke_request_value s t cs)"
proof -
  show a: "readable 1 (VArray (map command_data_value cs))"
    using assms command_data_readable(2) [of 2]
    by (subst readable_container) (auto simp: MAX_DEPTH_def numeral_2_eq_2 numeral_3_eq_3)
  then show "readable 0 (invoke_request_value s t cs)"
    by (subst readable_container) (auto simp: invoke_request_value_def MAX_DEPTH_def intro: readable_plain)
qed

lemma keeps_invoke_request_step: "keeps forward (invoke_request_step e acc)"
  by (auto simp: invoke_request_step_def intro!: im_keeps keeps_invoke_requests split: prod.split option.split)

lemma runs_read_invoke_requests:
  assumes "\<forall>c\<in>set cs. command_ok (Suc (Suc d)) c"
  shows "runs (at_open (Suc d) (enc_members (children (VArray (map command_data_value cs))) @ ET_END_OF_CONTAINER # ys))
    (read_invoke_requests out) (out @ map invoked cs) (at d ys)"
  unfolding read_invoke_requests_def children.simps
  by (rule runs_opened, rule runs_scan_container [OF keeps_invoke_requests_step takes_all_invoke_requests])
    (use assms in \<open>simp_all add: invoke_requests_step_def\<close>)

lemma takes_invoke_request:
  "takes invoke_request_step 1 (Context 0) (VBool x) (a, b, c) (x, b, c)"
  "takes invoke_request_step 1 (Context 1) (VBool x) (a, b, c) (a, x, c)"
  "\<forall>c\<in>set cs. command_ok 3 c \<Longrightarrow>
   takes invoke_request_step 1 (Context 2) (VArray (map command_data_value cs)) (a, b, c) (a, b, c @ map invoked cs)"
  "takes invoke_request_step 1 (Context 255) (VUint n) (a, b, c) (a, b, c)"
proof -
  assume cs: "\<forall>c\<in>set cs. command_ok 3 c"
  then have "\<forall>c\<in>set cs. command_ok (Suc (Suc 1)) c" by (simp add: numeral_3_eq_3)
  from takes_parsed [OF _ invoke_request_value_readable(1) [OF cs] runs_read_invoke_requests [OF this], of KArray
      invoke_request_step "Context 2" "(a, b, c)" c "\<lambda>cs. (a, b, cs)"]
  show "takes invoke_request_step 1 (Context 2) (VArray (map command_data_value cs)) (a, b, c) (a, b, c @ map invoked cs)"
    by (simp add: invoke_request_step_def arms)
qed (auto simp: invoke_request_step_def arms otherwise_as_def MAX_DEPTH_def intro!: takes_scalar readable_plain)

lemma parse_invoke_request_tree:
  assumes "\<forall>c\<in>set cs. command_ok 3 c" "length (enc Anonymous (invoke_request_value suppress timed cs)) < 2 ^ 64"
  shows "parse_invoke_request (enc Anonymous (invoke_request_value suppress timed cs)) =
    Inr \<lparr>pir_suppress_response = suppress, pir_timed = timed, pir_commands = map invoked cs\<rparr>"
proof -
  let ?ms = "[(Context 0, VBool suppress), (Context 1, VBool timed),
     (Context 2, VArray (map command_data_value cs)), (Context 0xFF, VUint (ucast IM_REVISION))]"
  have "takes_all invoke_request_step (Suc 0) ?ms (False, False, []) (suppress, timed, [] @ map invoked cs)"
    unfolding One_nat_def [symmetric] by (rule takes_all_Cons takes_invoke_request assms(1) takes_all_Nil)+
  from runs_scan_container [OF keeps_invoke_request_step this, of _ "[]" unclosed]
  have "runs (at 1 (enc_members ?ms @ [ET_END_OF_CONTAINER])) (scan unclosed invoke_request_step (False, False, []))
      (suppress, timed, map invoked cs) (at 0 [])"
    by (simp add: invoke_request_step_def del: enc_members.simps)
  with assms invoke_request_value_readable(2) [OF assms(1), of suppress timed] show ?thesis
    unfolding parse_invoke_request_def invoke_request_value_def
    by (intro parse_message [OF _ _ _ closes_0]) auto
qed

section \<open>Responses\<close>

lemma keeps_response_steps:
  "keeps forward (command_data_step e acc)" "keeps forward (status_ib_step e st)"
  "keeps forward (command_status_step e cs)" "keeps forward (find_responses_step e u)"
  "keeps forward (first_response_step e u)" "keeps forward (response_ib_step e en)"
  "keeps forward (response_batch_step e out)"
  by (auto simp: command_data_step_def status_ib_step_def command_status_step_def find_responses_step_def
      first_response_step_def response_ib_step_def response_batch_step_def
      intro!: im_keeps keeps_command_path keeps_retag keeps_command_data keeps_command_status keeps_response_ib
      split: prod.split option.split)

lemma step_ends:
  "command_data_step ContainerEnd acc = ok (Done acc)" "status_ib_step ContainerEnd st = ok (Done st)"
  "command_status_step ContainerEnd cs = ok (Done cs)" "response_ib_step ContainerEnd en = ok (Done en)"
  "response_batch_step ContainerEnd out = ok (Done out)"
  by (simp_all add: command_data_step_def status_ib_step_def command_status_step_def response_ib_step_def
      response_batch_step_def split: prod.split)

lemma enc_nonempty: "enc t v \<noteq> []"
  by (simp add: enc_def encode_tag_def split: prod.split tag.split)

lemma takes_command_data:
  assumes "Suc d \<le> MAX_DEPTH"
  shows "takes command_data_step d (Context 0) (command_path_value p) (a, b, c) (Some p, b, c)"
    "kind_of_value v = Some k \<Longrightarrow> readable d v \<Longrightarrow>
     takes command_data_step d (Context 1) v (a, b, c) (a, enc Anonymous v, c)"
    "takes command_data_step d (Context 2) (VUint (ucast n)) (a, b, c) (a, b, Some n)"
proof -
  show "takes command_data_step d (Context 0) (command_path_value p) (a, b, c) (Some p, b, c)"
    using assms by (intro takes_parsed [OF _ _ runs_command_path, where k = KList and g = "\<lambda>p. (Some p, b, c)"])
      (simp_all add: command_data_step_def arms readable_def)
  show "takes command_data_step d (Context 1) v (a, b, c) (a, enc Anonymous v, c)"
    if "kind_of_value v = Some k" "readable d v"
    using that by (intro takes_parsed [OF _ _ runs_retag [unfolded inner_children], where k = k and g = "\<lambda>f. (a, f, c)"])
      (simp_all add: command_data_step_def arms)
  show "takes command_data_step d (Context 2) (VUint (ucast n)) (a, b, c) (a, b, Some n)"
    using assms by (auto simp: command_data_step_def arms intro!: takes_scalar readable_plain)
qed

lemma runs_command_data_ref:
  assumes v: "kind_of_value v = Some k" "readable (Suc d) v"
  shows "runs (at_open (Suc d) (enc_members (children (command_data_value (p, v, n))) @ ET_END_OF_CONTAINER # ys))
    parse_command_data_ref (p, enc Anonymous v, n) (at d ys)"
proof -
  have d: "Suc (Suc d) \<le> MAX_DEPTH" using readable_container [of v "Suc d"] v by simp
  have "takes_all command_data_step (Suc d) (children (command_data_value (p, v, n))) (None, [], None)
      (Some p, enc Anonymous v, n)"
  proof (cases n)
    case None
    show ?thesis
      unfolding command_data_value_def prod.case children.simps None option.case append_Cons append_Nil
      by (rule takes_all_Cons takes_command_data d v takes_all_Nil)+
  next
    case (Some m)
    show ?thesis
      unfolding command_data_value_def prod.case children.simps Some option.case append_Cons append_Nil
      by (rule takes_all_Cons takes_command_data d v takes_all_Nil)+
  qed
  from runs_scan_container [OF keeps_response_steps(1) this, of _ ys "MissingField ''CommandDataIB.body''"]
  have "runs (at (Suc d) (enc_members (children (command_data_value (p, v, n))) @ ET_END_OF_CONTAINER # ys))
      (scan (MissingField ''CommandDataIB.body'') command_data_step (None, [], None)) (Some p, enc Anonymous v, n) (at d ys)"
    by (simp add: command_data_step_def)
  then show ?thesis
    unfolding parse_command_data_ref_def
    by (intro runs_opened) (rule runs_andthen, assumption, simp add: enc_nonempty)
qed

lemma takes_status_ib: "d \<le> MAX_DEPTH \<Longrightarrow> takes status_ib_step d (Context 0) (VUint n) st (Some n)"
  by (auto simp: status_ib_step_def arms intro!: takes_scalar readable_plain)

lemma command_status_value_readable:
  "Suc (Suc d) \<le> MAX_DEPTH \<Longrightarrow> readable d (command_status_value p st)"
  "kind_of_value (command_status_value p st) = Some KStructure"
  by (simp_all add: command_status_value_def readable_def)

lemma runs_command_status_ref:
  assumes d: "Suc (Suc d) \<le> MAX_DEPTH"
  shows "runs (at_open (Suc d) (enc_members (children (command_status_value p st)) @ ET_END_OF_CONTAINER # ys))
    parse_command_status_ref (status_from_u8 (status_to_u8 st), None) (at d ys)"
proof -
  let ?n = "ucast (status_to_u8 st) :: u64"
  have p: "takes command_status_step (Suc d) (Context 0) (command_path_value p) (None, None) (None, None)"
    using d by (intro takes_otherwise) (auto simp: command_status_step_def arms readable_def)
  have ib: "runs (at_open (Suc (Suc d)) (enc_members (children (VStructure [(Context 0, VUint ?n)])) @ ET_END_OF_CONTAINER # ys))
      (scan unclosed status_ib_step None) (Some ?n) (at (Suc d) ys)" for ys
    using takes_status_ib [OF d] unfolding children.simps
    by (intro runs_opened runs_scan_container [OF keeps_response_steps(2), where acc' = "Some ?n"])
      (auto simp: step_ends)
  have "takes command_status_step (Suc d) (Context 1) (VStructure [(Context 0, VUint ?n)]) (None, None) (Some ?n, None)"
    using d by (intro takes_parsed [OF _ _ ib, where k = KStructure and g = "\<lambda>st. (st, None)"])
      (simp_all add: command_status_step_def arms readable_def)
  with p have "takes_all command_status_step (Suc d) (children (command_status_value p st)) (None, None) (Some ?n, None)"
    by (auto simp: command_status_value_def)
  from runs_scan_container [OF keeps_response_steps(3) this, of _ ys "MissingField ''CommandStatusIB.body''"]
  have "runs (at (Suc d) (enc_members (children (command_status_value p st)) @ ET_END_OF_CONTAINER # ys))
      (scan (MissingField ''CommandStatusIB.body'') command_status_step (None, None)) (Some ?n, None) (at d ys)"
    by (simp add: command_status_step_def)
  then show ?thesis
    unfolding parse_command_status_ref_def by (intro runs_opened) (rule runs_andthen, assumption, simp)
qed

definition response_ib_value :: "tag \<times> tlv_value \<Rightarrow> tlv_value" where
  "response_ib_value m = VStructure [m]"

lemma response_message_readable:
  assumes "\<forall>(t, w)\<in>set ms. readable 3 w"
  shows "readable 1 (VArray (map response_ib_value ms))" "readable 0 (invoke_response_value (map response_ib_value ms))"
proof -
  have "readable 2 (response_ib_value m)" if "m \<in> set ms" for m
    using assms that by (subst readable_container) (auto simp: response_ib_value_def MAX_DEPTH_def numeral_3_eq_3)
  then show a: "readable 1 (VArray (map response_ib_value ms))"
    by (subst readable_container) (auto simp: MAX_DEPTH_def numeral_2_eq_2)
  then show "readable 0 (invoke_response_value (map response_ib_value ms))"
    by (subst readable_container) (auto simp: invoke_response_value_def MAX_DEPTH_def intro: readable_plain)
qed

text \<open>The reader behind the opening of the array of responses.\<close>

lemma runs_find_responses:
  assumes "\<forall>(t, w)\<in>set ms. readable 3 w"
  shows "runs (at 1 (enc_members [(Context 0, VBool False), (Context 1, VArray (map response_ib_value ms))] @ xs))
    (scan unclosed find_responses_step ()) ()
    (at_open 2 (enc_members (map (Pair Anonymous) (map response_ib_value ms)) @ ET_END_OF_CONTAINER # xs))"
proof -
  have "takes find_responses_step 1 (Context 0) (VBool False) () ()"
    by (intro takes_otherwise readable_plain) (auto simp: find_responses_step_def arms MAX_DEPTH_def)
  moreover have "runs (at 1 (enc (Context 1) (VArray (map response_ib_value ms)) @ xs))
      (scan unclosed find_responses_step ()) ()
      (at_open 2 (enc_members (map (Pair Anonymous) (map response_ib_value ms)) @ ET_END_OF_CONTAINER # xs))"
    by (rule runs_scan_exit [where k = KArray, OF keeps_response_steps(4) _ response_message_readable(1) [OF assms]])
      (simp_all add: find_responses_step_def arms numeral_2_eq_2 del: enc_members.simps)
  ultimately show ?thesis
    unfolding enc_simps append_assoc append_Nil by (rule runs_scan_member [OF keeps_response_steps(4)])
qed

lemma takes_all_response_batch:
  assumes "\<And>m. m \<in> set ms \<Longrightarrow> takes response_ib_step 3 (fst m) (snd m) None (Some (f m))"
  shows "takes_all response_batch_step 2 (map (Pair Anonymous) (map response_ib_value ms)) out (out @ map f ms)"
  using assms
proof (induction ms arbitrary: out)
  case (Cons m ms)
  have t: "takes response_ib_step 3 (fst m) (snd m) None (Some (f m))" using Cons.prems by simp
  have "runs (at_open (Suc 2) (enc_members (children (response_ib_value m)) @ ET_END_OF_CONTAINER # ys))
      parse_invoke_response_ib (f m) (at 2 ys)" for ys
    unfolding parse_invoke_response_ib_def response_ib_value_def children.simps
    by (rule runs_opened, rule runs_andthen [OF runs_scan_container [OF keeps_response_steps(6), where acc' = "Some (f m)"] runs_need])
      (use t in \<open>auto simp: step_ends numeral_3_eq_3 numeral_2_eq_2\<close>, cases m, auto)
  moreover have "readable 2 (response_ib_value m)"
    using t by (subst readable_container) (auto simp: takes_def response_ib_value_def MAX_DEPTH_def numeral_3_eq_3 numeral_2_eq_2)
  ultimately have "takes response_batch_step 2 Anonymous (response_ib_value m) out (out @ [f m])"
    by (intro takes_parsed [where k = KStructure and g = "\<lambda>x. out @ [x]" and m = parse_invoke_response_ib and x = "f m"])
      (simp_all add: response_ib_value_def response_batch_step_def arms)
  with Cons.IH [of "out @ [f m]"] Cons.prems show ?case by auto
qed simp

lemma parse_response_message:
  assumes "\<forall>(t, w)\<in>set ms. readable 3 w"
    "length (enc Anonymous (invoke_response_value (map response_ib_value ms))) < 2 ^ 64"
    "runs (at_open 2 (enc_members (map (Pair Anonymous) (map response_ib_value ms)) @ ET_END_OF_CONTAINER # revision_end)) k x Q"
  shows "parse_with (andthen (scan unclosed find_responses_step ()) (\<lambda>_. k))
    (enc Anonymous (invoke_response_value (map response_ib_value ms))) = Inr x"
proof -
  have "runs (at 1 (enc_members (children (invoke_response_value (map response_ib_value ms))) @ [ET_END_OF_CONTAINER]))
      (andthen (scan unclosed find_responses_step ()) (\<lambda>_. k)) x Q"
    using runs_andthen [OF runs_find_responses [OF assms(1), of revision_end], of "\<lambda>_. k"] assms(3)
    by (simp add: invoke_response_value_def enc_simps del: enc_members.simps(2))
  with assms(2) response_message_readable(2) [OF assms(1)] show ?thesis
    by (simp add: invoke_response_value_def parse_with_runs)
qed

lemma parse_response_batch_tree:
  assumes "\<And>m. m \<in> set ms \<Longrightarrow> takes response_ib_step 3 (fst m) (snd m) None (Some (f m))"
    "length (enc Anonymous (invoke_response_value (map response_ib_value ms))) < 2 ^ 64"
  shows "parse_invoke_response_batch (enc Anonymous (invoke_response_value (map response_ib_value ms))) = Inr (map f ms)"
proof -
  have r: "\<forall>(t, w)\<in>set ms. readable 3 w" using assms(1) by (force simp: takes_def)
  have "takes_all response_batch_step (Suc 1) (map (Pair Anonymous) (map response_ib_value ms)) [] (map f ms)"
    using takes_all_response_batch [of ms f "[]"] assms(1) by (simp add: numeral_2_eq_2)
  from runs_scan_container [OF keeps_response_steps(7) this step_ends(5), of revision_end unclosed]
  have "runs (at_open 2 (enc_members (map (Pair Anonymous) (map response_ib_value ms)) @ ET_END_OF_CONTAINER # revision_end))
      (scan unclosed response_batch_step []) (map f ms) (at (Suc 0) revision_end)"
    by (intro runs_opened) (simp add: numeral_2_eq_2 del: enc_members.simps)
  from parse_response_message [OF r assms(2) runs_to_finish [OF this closes_revision_end]]
  show ?thesis unfolding parse_invoke_response_batch_def .
qed

lemma parse_response_tree:
  assumes w: "kind_of_value w = Some KStructure" "readable 3 w"
    and first: "\<And>ys. runs (at_open 4 (enc_members (children w) @ ET_END_OF_CONTAINER # ys))
       (first_response_step (ContainerStart t KStructure) ()) (Done resp) (at 3 ys)"
    and len: "length (enc Anonymous (invoke_response_value [response_ib_value (t, w)])) < 2 ^ 64"
  shows "parse_invoke_response (enc Anonymous (invoke_response_value [response_ib_value (t, w)])) = Inr resp"
proof -
  let ?ends = "ET_END_OF_CONTAINER # ET_END_OF_CONTAINER # revision_end"
  have r: "\<forall>(t, w)\<in>set [(t, w)]. readable 3 w" using w by simp
  have ib: "readable 2 (VStructure [(t, w)])" using w by (subst readable_container) (auto simp: MAX_DEPTH_def numeral_3_eq_3)
  have "runs (at 2 (enc Anonymous (VStructure [(t, w)]) @ ET_END_OF_CONTAINER # revision_end)) (codec reader_next)
      (Some (ContainerStart Anonymous KStructure)) (at_open 3 (enc t w @ ?ends))"
    using runs_next_open [OF _ ib, of KStructure Anonymous "ET_END_OF_CONTAINER # revision_end"]
    by (simp add: enc_simps numeral_3_eq_3 numeral_2_eq_2 del: enc_members.simps(2))
  then have start: "runs (at_open 2 (enc_members (map (Pair Anonymous) (map response_ib_value [(t, w)])) @ ET_END_OF_CONTAINER # revision_end))
      (codec reader_next) (Some (ContainerStart Anonymous KStructure)) (at_open 3 (enc t w @ ?ends))"
    by (intro runs_opened) (simp add: enc_simps response_ib_value_def del: enc_members.simps(2))
  have scan: "runs (at 3 (enc t w @ ?ends)) (scan unclosed first_response_step ()) resp (at 3 ?ends)"
    using first by (intro runs_scan_exit [OF keeps_response_steps(5) w]) (simp add: eval_nat_numeral)
  have "closes 3 ?ends"
    using closes_Suc [OF closes_Suc [OF closes_revision_end, of "[]"], of "[]"]
    by (simp add: readable_def MAX_DEPTH_def numeral_3_eq_3)
  note fin = runs_opened [OF runs_to_finish [OF scan this]]
  have "runs (at_open 2 (enc_members (map (Pair Anonymous) (map response_ib_value [(t, w)])) @ ET_END_OF_CONTAINER # revision_end))
      (andthen (codec reader_next) (\<lambda>ev.
        andthen (case ev of Some (ContainerStart _ KStructure) \<Rightarrow> ok () | _ \<Rightarrow> err (MissingField ''InvokeResponseIB'')) (\<lambda>_.
        andthen (scan unclosed first_response_step ()) (\<lambda>response. andthen finish_im (\<lambda>_. ok response))))) resp (at 0 [])"
    by (rule runs_andthen [OF start], unfold option.case tlv_element.case container_kind.case,
        rule runs_andthen [OF runs_ok [OF refl]], rule fin)
  from parse_response_message [OF r _ this] len
  show ?thesis unfolding parse_invoke_response_def by simp
qed

lemma runs_first_response:
  "kind_of_value v = Some k \<Longrightarrow> readable 4 v \<Longrightarrow>
   runs (at_open 4 (enc_members (children (command_data_value (p, v, None))) @ ET_END_OF_CONTAINER # ys))
     (first_response_step (ContainerStart (Context 0) KStructure) ()) (Done (RespCommand p (enc Anonymous v))) (at 3 ys)"
  "runs (at_open 4 (enc_members (children (command_status_value p st)) @ ET_END_OF_CONTAINER # ys))
     (first_response_step (ContainerStart (Context 1) KStructure) ())
     (Done (RespStatus (status_from_u8 (status_to_u8 st)))) (at 3 ys)"
proof -
  assume v: "kind_of_value v = Some k" "readable 4 v"
  have "runs (at_open 4 (enc_members (children (command_data_value (p, v, None))) @ ET_END_OF_CONTAINER # ys))
      parse_command_data_ref (p, enc Anonymous v, None) (at 3 ys)"
    using runs_command_data_ref [OF v(1), of 3] v(2) by (simp add: eval_nat_numeral)
  then have "runs (at_open 4 (enc_members (children (command_data_value (p, v, None))) @ ET_END_OF_CONTAINER # ys))
      parse_command_data (p, enc Anonymous v) (at 3 ys)"
    unfolding parse_command_data_def by (rule runs_andthen) (simp add: runs_ok)
  then show "runs (at_open 4 (enc_members (children (command_data_value (p, v, None))) @ ET_END_OF_CONTAINER # ys))
     (first_response_step (ContainerStart (Context 0) KStructure) ()) (Done (RespCommand p (enc Anonymous v))) (at 3 ys)"
    unfolding first_response_step_def by (simp add: arms) (erule runs_andthen, simp add: runs_ok)
next
  have "runs (at_open 4 (enc_members (children (command_status_value p st)) @ ET_END_OF_CONTAINER # ys))
      parse_command_status_ref (status_from_u8 (status_to_u8 st), None) (at 3 ys)"
    using runs_command_status_ref [of 3] by (simp add: eval_nat_numeral MAX_DEPTH_def)
  then have "runs (at_open 4 (enc_members (children (command_status_value p st)) @ ET_END_OF_CONTAINER # ys))
      parse_command_status (status_from_u8 (status_to_u8 st)) (at 3 ys)"
    unfolding parse_command_status_def by (rule runs_andthen) (simp add: runs_ok)
  then show "runs (at_open 4 (enc_members (children (command_status_value p st)) @ ET_END_OF_CONTAINER # ys))
     (first_response_step (ContainerStart (Context 1) KStructure) ())
     (Done (RespStatus (status_from_u8 (status_to_u8 st)))) (at 3 ys)"
    unfolding first_response_step_def by (simp add: arms) (erule runs_andthen, simp add: runs_ok)
qed

lemma takes_response_ib:
  "command_ok 4 (p, v, n) \<Longrightarrow>
   takes response_ib_step 3 (Context 0) (command_data_value (p, v, n)) en
     (Some \<lparr>ire_command_ref = n, ire_response = RespCommand p (enc Anonymous v)\<rparr>)"
  "takes response_ib_step 3 (Context 1) (command_status_value p st) en
     (Some \<lparr>ire_command_ref = None, ire_response = RespStatus (status_from_u8 (status_to_u8 st))\<rparr>)"
proof -
  assume c: "command_ok 4 (p, v, n)"
  then have v: "kind_of_value v = Some KStructure" "readable (Suc 3) v" by (simp_all add: command_ok_def)
  from c have c: "command_ok (Suc 3) (p, v, n)" by simp
  show "takes response_ib_step 3 (Context 0) (command_data_value (p, v, n)) en
     (Some \<lparr>ire_command_ref = n, ire_response = RespCommand p (enc Anonymous v)\<rparr>)"
    by (rule takes_parsed [OF command_data_readable [OF c] runs_command_data_ref [OF v], where g = "\<lambda>(path, flds, command_ref).
        Some \<lparr>ire_command_ref = command_ref, ire_response = RespCommand path flds\<rparr>"])
      (simp_all add: response_ib_step_def arms split_def)
next
  have d: "Suc (Suc 3) \<le> MAX_DEPTH" by (simp add: MAX_DEPTH_def)
  show "takes response_ib_step 3 (Context 1) (command_status_value p st) en
     (Some \<lparr>ire_command_ref = None, ire_response = RespStatus (status_from_u8 (status_to_u8 st))\<rparr>)"
    by (rule takes_parsed [OF command_status_value_readable(2) command_status_value_readable(1) [OF d]
        runs_command_status_ref [OF d], where g = "\<lambda>(status, command_ref).
        Some \<lparr>ire_command_ref = command_ref, ire_response = RespStatus status\<rparr>"])
      (simp_all add: response_ib_step_def arms split_def)
qed

lemma build_response_tree:
  "payloads_fit v \<Longrightarrow> build_invoke_response_command p (enc Anonymous v) =
     Some (enc Anonymous (invoke_response_value [response_ib_value (Context 0, command_data_value (p, v, None))]))"
  "build_invoke_response_status p st =
     Some (enc Anonymous (invoke_response_value [response_ib_value (Context 1, command_status_value p st)]))"
  by (simp_all add: build_invoke_response_command_def build_invoke_response_status_def written_def
      invoke_response_value_def response_ib_value_def command_data_value_def command_status_value_def
      writer_eqs write_command_path_eq enc_containers enc_simps del: enc_members.simps(2) enc_elements.simps(2))

section \<open>Messages between the two sides\<close>

text \<open>
  C22. A request the client builds for one command, plain, timed or for a group, is read by the
  server as exactly that command: the two flags, the path, and the fields verbatim, for every
  structure of fields that respects the nesting limit at its place in the message.
\<close>

theorem invoke_request_delivered:
  assumes "kind_of_value v = Some KStructure" "readable 3 v"
    and "length (enc Anonymous (invoke_request_value suppress timed [(p, v, None)])) < 2 ^ 64"
  shows "\<exists>msg. build_invoke_request_inner p (enc Anonymous v) timed suppress = Some msg \<and>
    parse_invoke_request msg = Inr \<lparr>pir_suppress_response = suppress, pir_timed = timed,
      pir_commands = [\<lparr>ic_path = p, ic_fields_tlv = enc Anonymous v, ic_command_ref = None\<rparr>]\<rparr>"
  using assms parse_invoke_request_tree [of "[(p, v, None)]" suppress timed] build_request_tree [of v p timed suppress]
  by (simp add: command_ok_def invoked_def readable_def)

theorem invoke_request_delivered_witness:
  "\<exists>msg. build_invoke_request_inner \<lparr>cp_endpoint = 1, cp_cluster = 8, cp_command = 0\<rparr>
      (enc Anonymous (VStructure [(Context 0, VUint 254)])) True False = Some msg \<and>
    parse_invoke_request msg = Inr \<lparr>pir_suppress_response = False, pir_timed = True,
      pir_commands = [\<lparr>ic_path = \<lparr>cp_endpoint = 1, cp_cluster = 8, cp_command = 0\<rparr>,
        ic_fields_tlv = enc Anonymous (VStructure [(Context 0, VUint 254)]), ic_command_ref = None\<rparr>]\<rparr>"
  by (rule invoke_request_delivered)
    (simp_all add: readable_def MAX_DEPTH_def invoke_request_value_def command_data_value_def command_path_value_def
      enc_def encode_tag_def uint_body_def)

text \<open>
  C23. A batch of at most 65536 commands is read by the server as the same commands in the same
  order, each with its position as its command reference.
\<close>

theorem invoke_batch_delivered:
  assumes "\<forall>(p, v)\<in>set cs. kind_of_value v = Some KStructure \<and> readable 3 v" "length cs \<le> 2 ^ 16"
    and "length (enc Anonymous (invoke_request_value False False (numbered cs))) < 2 ^ 64"
  shows "\<exists>msg. build_invoke_request_batch (map (\<lambda>(p, v). (p, enc Anonymous v)) cs) = Some msg \<and>
    parse_invoke_request msg = Inr \<lparr>pir_suppress_response = False, pir_timed = False,
      pir_commands = map (\<lambda>(i, p, v). \<lparr>ic_path = p, ic_fields_tlv = enc Anonymous v,
        ic_command_ref = Some (word_of_nat i)\<rparr>) (enumerate 0 cs)\<rparr>"
proof -
  have "\<forall>c\<in>set (numbered cs). command_ok 3 c"
    using assms(1) by (fastforce simp: numbered_def command_ok_def enumerate_eq_zip dest: set_zip_rightD)
  from parse_invoke_request_tree [OF this assms(3)] show ?thesis
    using build_batch_tree [of cs] assms(1,2)
    by (auto simp: readable_def numbered_def invoked_def case_prod_beta comp_def)
qed

theorem invoke_batch_delivered_witness:
  "\<exists>msg. build_invoke_request_batch (map (\<lambda>(p, v). (p, enc Anonymous v))
      [(\<lparr>cp_endpoint = 1, cp_cluster = 6, cp_command = 1\<rparr>, VStructure []),
       (\<lparr>cp_endpoint = 2, cp_cluster = 6, cp_command = 0\<rparr>, VStructure [])]) = Some msg \<and>
    parse_invoke_request msg = Inr \<lparr>pir_suppress_response = False, pir_timed = False,
      pir_commands = map (\<lambda>(i, p, v). \<lparr>ic_path = p, ic_fields_tlv = enc Anonymous v,
        ic_command_ref = Some (word_of_nat i)\<rparr>)
        (enumerate 0 [(\<lparr>cp_endpoint = 1, cp_cluster = 6, cp_command = 1\<rparr>, VStructure []),
          (\<lparr>cp_endpoint = 2, cp_cluster = 6, cp_command = 0\<rparr>, VStructure [])])\<rparr>"
  by (rule invoke_batch_delivered)
    (simp_all add: readable_def MAX_DEPTH_def invoke_request_value_def command_data_value_def command_path_value_def
      numbered_def enc_def encode_tag_def uint_body_def)

text \<open>
  C24. A response the server builds, a command's or a status, is read by the client as exactly that
  response, by the parser of a single response and by the one of a batch.
\<close>

theorem invoke_response_delivered:
  assumes "kind_of_value v = Some KStructure" "readable 4 v" "st \<noteq> Failure 0"
    and "length (enc Anonymous (invoke_response_value [response_ib_value (Context 0, command_data_value (p, v, None))])) < 2 ^ 64"
    and "length (enc Anonymous (invoke_response_value [response_ib_value (Context 1, command_status_value p st)])) < 2 ^ 64"
  shows "(\<exists>msg. build_invoke_response_command p (enc Anonymous v) = Some msg \<and>
      parse_invoke_response msg = Inr (RespCommand p (enc Anonymous v)) \<and>
      parse_invoke_response_batch msg =
        Inr [\<lparr>ire_command_ref = None, ire_response = RespCommand p (enc Anonymous v)\<rparr>]) \<and>
    (\<exists>msg. build_invoke_response_status p st = Some msg \<and>
      parse_invoke_response msg = Inr (RespStatus st) \<and>
      parse_invoke_response_batch msg = Inr [\<lparr>ire_command_ref = None, ire_response = RespStatus st\<rparr>])"
proof (rule conjI)
  have c: "command_ok 4 (p, v, None)" and d: "command_ok (Suc 3) (p, v, None)"
    using assms(1,2) by (simp_all add: command_ok_def)
  have "parse_invoke_response_batch
      (enc Anonymous (invoke_response_value (map response_ib_value [(Context 0, command_data_value (p, v, None))]))) =
      Inr (map (\<lambda>_. \<lparr>ire_command_ref = None, ire_response = RespCommand p (enc Anonymous v)\<rparr>)
        [(Context 0, command_data_value (p, v, None))])"
    by (rule parse_response_batch_tree) (use assms(4) takes_response_ib(1) [OF c] in simp_all)
  with parse_response_tree [OF command_data_readable [OF d] runs_first_response(1) [OF assms(1,2)] assms(4)]
  show "\<exists>msg. build_invoke_response_command p (enc Anonymous v) = Some msg \<and>
      parse_invoke_response msg = Inr (RespCommand p (enc Anonymous v)) \<and>
      parse_invoke_response_batch msg =
        Inr [\<lparr>ire_command_ref = None, ire_response = RespCommand p (enc Anonymous v)\<rparr>]"
    using build_response_tree(1) [of v p] assms(2) by (simp add: readable_def)
  have "parse_invoke_response_batch
      (enc Anonymous (invoke_response_value (map response_ib_value [(Context 1, command_status_value p st)]))) =
      Inr (map (\<lambda>_. \<lparr>ire_command_ref = None, ire_response = RespStatus st\<rparr>) [(Context 1, command_status_value p st)])"
    by (rule parse_response_batch_tree)
      (use assms(5) takes_response_ib(2) [of p st None] status_code_roundtrip [OF assms(3)] in simp_all)
  with parse_response_tree [OF command_status_value_readable(2,1) runs_first_response(2) assms(5)]
  show "\<exists>msg. build_invoke_response_status p st = Some msg \<and>
      parse_invoke_response msg = Inr (RespStatus st) \<and>
      parse_invoke_response_batch msg = Inr [\<lparr>ire_command_ref = None, ire_response = RespStatus st\<rparr>]"
    using build_response_tree(2) [of p st] status_code_roundtrip [OF assms(3)] by (simp add: MAX_DEPTH_def)
qed

theorem invoke_response_delivered_witness:
  "\<exists>msg. build_invoke_response_status \<lparr>cp_endpoint = 1, cp_cluster = 6, cp_command = 1\<rparr> (Failure 0x7E) = Some msg \<and>
      parse_invoke_response msg = Inr (RespStatus (Failure 0x7E)) \<and>
      parse_invoke_response_batch msg = Inr [\<lparr>ire_command_ref = None, ire_response = RespStatus (Failure 0x7E)\<rparr>]"
  by (rule conjunct2 [OF invoke_response_delivered [where v = "VStructure []"]])
    (simp_all add: readable_def MAX_DEPTH_def invoke_response_value_def response_ib_value_def command_status_value_def
      command_data_value_def command_path_value_def enc_def encode_tag_def uint_body_def)

end
