(* ===== verification/IM_Write.thy ===== *)
theory IM_Write
  imports IM_Runs
begin

text \<open>
  Attribute writes, \<open>crates/matter-interaction/src/write.rs\<close>: the request builders, the response
  parser, and the splitting of a list over several messages
  (\<open>build_list_write_chunks\<close>). Sizes are natural numbers: every one is the length of a vector
  or a sum of such lengths.
\<close>

section \<open>Requests\<close>

record attribute_write_request =
  awr_path :: attribute_path
  awr_value_tlv :: bytes

text \<open>The three members every builder of an \<open>AttributePathIB\<close> writes.\<close>

definition path_members :: "attribute_path \<Rightarrow> unit writer list" where
  "path_members path =
     [put_uint (Context 2) (ucast (ap_endpoint path)),
      put_uint (Context 3) (ucast (ap_cluster path)),
      put_uint (Context 4) (ucast (ap_attribute path))]"

definition write_data_ib :: "attribute_write_request \<Rightarrow> unit writer" where
  "write_data_ib wr = sequence
     ([start_structure Anonymous,
       start_list (Context 1)] @
      path_members (awr_path wr) @
      [end_container,
       put_preencoded (Context 2) (awr_value_tlv wr),
       end_container])"

definition build_write_request_inner :: "attribute_write_request list \<Rightarrow> bool \<Rightarrow> bytes option" where
  "build_write_request_inner writes timed = written
     ([start_structure Anonymous,
       put_bool (Context 0) False,
       put_bool (Context 1) timed,
       start_array (Context 2)] @
      map write_data_ib writes @
      [end_container,
       put_uint (Context 0xFF) (ucast IM_REVISION),
       end_container])"

definition build_write_request :: "attribute_write_request list \<Rightarrow> bytes option" where
  "build_write_request writes = build_write_request_inner writes False"

definition build_write_request_timed :: "attribute_write_request list \<Rightarrow> bytes option" where
  "build_write_request_timed writes = build_write_request_inner writes True"

section \<open>Responses\<close>

definition status_body_step :: "tlv_element \<Rightarrow> im_status option \<Rightarrow> (im_status option, im_status option) flow im" where
  "status_body_step e status =
     (if e = ContainerEnd then ok (Done status)
      else case uint_at 0 e of
        Some n \<Rightarrow> andthen (need (InvalidStatusCode n) (try_u8 n)) (\<lambda>code. ok (Again (Some (status_from_u8 code))))
      | None \<Rightarrow> otherwise e status)"

definition parse_status_ib_body :: "im_status option im" where
  "parse_status_ib_body = scan unclosed status_body_step None"

definition attribute_status_step :: "tlv_element \<Rightarrow> attribute_path option \<times> im_status option \<Rightarrow>
    (attribute_path option \<times> im_status option, attribute_path option \<times> im_status option) flow im" where
  "attribute_status_step e acc = (case acc of (path, status) \<Rightarrow>
     if e = ContainerEnd then ok (Done acc)
     else if starts_at 0 e = Some KList
     then andthen attribute_path_from_reader (\<lambda>(p, _). ok (Again (Some p, status)))
     else if starts_at 1 e = Some KStructure
     then andthen parse_status_ib_body (\<lambda>s. ok (Again (path, case s of Some _ \<Rightarrow> s | None \<Rightarrow> status)))
     else otherwise e acc)"

definition parse_attribute_status_ib :: "(attribute_path \<times> im_status) im" where
  "parse_attribute_status_ib =
     andthen (scan unclosed attribute_status_step (None, None)) (\<lambda>(path, status).
     andthen (need (MissingField ''AttributeStatusIB.Path'') path) (\<lambda>p.
     andthen (need (MissingField ''AttributeStatusIB.Status'') status) (\<lambda>s.
       ok (p, s))))"

text \<open>The first loop: \<open>False\<close> when the message ends before an array of context tag 0.\<close>

definition find_write_responses_step :: "tlv_element \<Rightarrow> unit \<Rightarrow> (unit, bool) flow im" where
  "find_write_responses_step e acc =
     (if e = ContainerEnd then ok (Done False)
      else if starts_at 0 e = Some KArray then ok (Done True)
      else otherwise e acc)"

definition write_responses_step :: "tlv_element \<Rightarrow> (attribute_path \<times> im_status) list \<Rightarrow>
    ((attribute_path \<times> im_status) list, (attribute_path \<times> im_status) list) flow im" where
  "write_responses_step e out =
     (if e = ContainerEnd then ok (Done out)
      else if starts e = Some KStructure
      then andthen parse_attribute_status_ib (\<lambda>s. ok (Again (out @ [s])))
      else otherwise e out)"

definition parse_write_response :: "bytes \<Rightarrow> im_error + (attribute_path \<times> im_status) list" where
  "parse_write_response = parse_with (
     andthen (scan unclosed find_write_responses_step ()) (\<lambda>found.
       if \<not> found then andthen finish_im (\<lambda>_. ok [])
       else andthen (scan unclosed write_responses_step []) (\<lambda>out.
            andthen finish_im (\<lambda>_. ok out))))"

section \<open>List writes in chunks\<close>

definition CHUNK_FLAG_RESERVE :: nat where "CHUNK_FLAG_RESERVE = 4"

text \<open>The optional \<open>MoreChunkedMessages\<close> flag and the end of the message.\<close>

definition message_tail :: "bool option \<Rightarrow> unit writer list" where
  "message_tail more_chunked =
     end_container #
     (case more_chunked of None \<Rightarrow> [] | Some v \<Rightarrow> [put_bool (Context 3) v]) @
     [put_uint (Context 0xFF) (ucast IM_REVISION),
      end_container]"

definition encode_replace_all :: "attribute_path \<Rightarrow> bytes list \<Rightarrow> bool \<Rightarrow> bool option \<Rightarrow> bytes option" where
  "encode_replace_all path elems timed more_chunked = written
     ([start_structure Anonymous,
       put_bool (Context 0) False,
       put_bool (Context 1) timed,
       start_array (Context 2),
       start_structure Anonymous,
       start_list (Context 1)] @
      path_members path @
      [end_container,
       start_array (Context 2)] @
      map (put_preencoded Anonymous) elems @
      [end_container,
       end_container] @
      message_tail more_chunked)"

definition write_append_ib :: "attribute_path \<Rightarrow> bytes \<Rightarrow> unit writer" where
  "write_append_ib path e = sequence
     ([start_structure Anonymous,
       start_list (Context 1)] @
      path_members path @
      [put_null (Context 5),
       end_container,
       put_preencoded (Context 2) e,
       end_container])"

definition encode_append_items :: "attribute_path \<Rightarrow> bytes list \<Rightarrow> bool \<Rightarrow> bool option \<Rightarrow> bytes option" where
  "encode_append_items path elems timed more_chunked = written
     ([start_structure Anonymous,
       put_bool (Context 0) False,
       put_bool (Context 1) timed,
       start_array (Context 2)] @
      map (write_append_ib path) elems @
      message_tail more_chunked)"

definition encoded_replace_all_len :: "attribute_path \<Rightarrow> bytes list \<Rightarrow> bool \<Rightarrow> nat option" where
  "encoded_replace_all_len path elems timed = map_option length (encode_replace_all path elems timed None)"

definition encoded_append_len :: "attribute_path \<Rightarrow> bytes list \<Rightarrow> bool \<Rightarrow> nat option" where
  "encoded_append_len path elems timed = map_option length (encode_append_items path elems timed None)"

definition PROBE :: bytes where "PROBE = [0x14]"

text \<open>
  The greedy loop: \<open>batch\<close> and \<open>size\<close> are its locals, the list holds the elements from \<open>idx\<close> on;
  an element costs \<open>overhead\<close> more than its bytes. It returns the batch and what is left.
\<close>

fun fill_batch :: "nat \<Rightarrow> nat \<Rightarrow> nat \<Rightarrow> bytes list \<Rightarrow> bytes list \<Rightarrow> bytes list \<times> bytes list" where
  "fill_batch overhead budget size_acc batch [] = (batch, [])"
| "fill_batch overhead budget size_acc batch (e # es) =
     (let cost = overhead + length e in
      if size_acc + cost + CHUNK_FLAG_RESERVE > budget \<and> batch \<noteq> [] then (batch, e # es)
      else fill_batch overhead budget (size_acc + cost) (batch @ [e]) es)"

lemma fill_batch_shrinks:
  "length (snd (fill_batch overhead budget s batch es)) \<le> length es"
  by (induction overhead budget s batch es rule: fill_batch.induct) (auto simp: Let_def)

lemma fill_batch_progress:
  "es \<noteq> [] \<Longrightarrow> length (snd (fill_batch overhead budget s [] es)) < length es"
  using fill_batch_shrinks by (cases es) (auto simp: Let_def less_Suc_eq_le)

function append_batches :: "nat \<Rightarrow> nat \<Rightarrow> nat \<Rightarrow> bytes list \<Rightarrow> bytes list list" where
  "append_batches overhead base budget es =
     (if es = [] then []
      else case fill_batch overhead budget base [] es of (batch, rest) \<Rightarrow>
        batch # append_batches overhead base budget rest)"
  by pat_completeness auto

termination
  by (relation "measure (\<lambda>(_, _, _, es). length es)") (simp_all, metis fill_batch_progress snd_conv)

declare append_batches.simps [simp del]

definition build_list_write_chunks :: "attribute_path \<Rightarrow> bytes list \<Rightarrow> nat \<Rightarrow> bool \<Rightarrow> bytes list option" where
  "build_list_write_chunks path element_tlvs budget timed =
     Option.bind (encoded_replace_all_len path [] timed) (\<lambda>replace_base.
     Option.bind (encoded_append_len path [] timed) (\<lambda>append_base.
     Option.bind (encoded_append_len path [PROBE] timed) (\<lambda>append_probe.
       let append_per_elem_overhead = append_probe - append_base - length PROBE;
           (first_batch, rest) = fill_batch 0 budget replace_base [] element_tlvs;
           batches = append_batches append_per_elem_overhead append_base budget rest;
           first_more = (if 1 + length batches > 1 then Some True else None)
       in those (encode_replace_all path first_batch timed first_more #
          map (\<lambda>(i, batch). encode_append_items path batch timed (Some (i + 1 < length batches)))
            (enumerate 0 batches)))))"

section \<open>What the builders encode\<close>

definition attribute_path_value :: "attribute_path \<Rightarrow> bool \<Rightarrow> tlv_value" where
  "attribute_path_value p list_index = VList ([(Context 2, VUint (ucast (ap_endpoint p))),
     (Context 3, VUint (ucast (ap_cluster p))), (Context 4, VUint (ucast (ap_attribute p)))] @
     (if list_index then [(Context 5, VNull)] else []))"

definition write_data_value :: "attribute_path \<Rightarrow> bool \<Rightarrow> tlv_value \<Rightarrow> tlv_value" where
  "write_data_value p list_index v = VStructure [(Context 1, attribute_path_value p list_index), (Context 2, v)]"

definition write_request_value :: "bool \<Rightarrow> tlv_value list \<Rightarrow> bool option \<Rightarrow> tlv_value" where
  "write_request_value timed ibs flag = VStructure ([(Context 0, VBool False), (Context 1, VBool timed), (Context 2, VArray ibs)] @
     (case flag of None \<Rightarrow> [] | Some v \<Rightarrow> [(Context 3, VBool v)]) @ [(Context 0xFF, VUint (ucast IM_REVISION))])"

lemma sequence_elements:
  assumes "\<And>x out. x \<in> set xs \<Longrightarrow> f x out = (Inr (), out @ enc Anonymous (g x))"
  shows "sequence (map f xs) out = (Inr (), out @ enc_elements (map g xs))"
  using assms
proof (induction xs arbitrary: out)
  case (Cons x xs)
  have "sequence (map f xs) (out @ enc Anonymous (g x)) = (Inr (), (out @ enc Anonymous (g x)) @ enc_elements (map g xs))"
    by (rule Cons.IH) (simp add: Cons.prems)
  then show ?case
    using Cons.prems [of x out] by (simp add: andthen_def enc_simps del: enc_elements.simps(2))
qed simp

lemma sequence_around:
  assumes "sequence ws out = (Inr (), out @ xs)"
  shows "sequence (ws @ ws') out = sequence ws' (out @ xs)"
  using assms by (simp add: sequence_append andthen_def)

lemma write_data_ib_eq:
  "payloads_fit v \<Longrightarrow> write_data_ib \<lparr>awr_path = p, awr_value_tlv = enc Anonymous v\<rparr> out =
     (Inr (), out @ enc Anonymous (write_data_value p False v))"
  "payloads_fit v \<Longrightarrow> write_append_ib p (enc Anonymous v) out = (Inr (), out @ enc Anonymous (write_data_value p True v))"
  by (simp_all add: write_data_ib_def write_append_ib_def path_members_def write_data_value_def attribute_path_value_def
      writer_eqs enc_containers enc_simps del: enc_members.simps(2))

lemma message_tail_eq:
  "sequence (message_tail flag) out = (Inr (), out @ ET_END_OF_CONTAINER #
     enc_members ((case flag of None \<Rightarrow> [] | Some v \<Rightarrow> [(Context 3, VBool v)]) @ [(Context 0xFF, VUint (ucast IM_REVISION))]) @
     [ET_END_OF_CONTAINER])"
  by (cases flag) (simp_all add: message_tail_def writer_eqs enc_containers enc_simps del: enc_members.simps(2))

lemma sequence_message:
  assumes "\<And>out. sequence ws out = (Inr (), out @ enc_elements ibs)"
  shows "written ([start_structure Anonymous, put_bool (Context 0) False, put_bool (Context 1) timed, start_array (Context 2)] @
     ws @ message_tail flag) = Some (enc Anonymous (write_request_value timed ibs flag))"
  by (cases flag)
    (simp_all add: written_def write_request_value_def sequence_around [OF assms] message_tail_eq
      writer_eqs enc_containers enc_simps del: enc_members.simps(2) enc_elements.simps(2))

lemma build_write_tree:
  assumes "\<forall>(p, v)\<in>set pvs. payloads_fit v"
  shows "build_write_request_inner (map (\<lambda>(p, v). \<lparr>awr_path = p, awr_value_tlv = enc Anonymous v\<rparr>) pvs) timed =
    Some (enc Anonymous (write_request_value timed (map (\<lambda>(p, v). write_data_value p False v) pvs) None))"
proof -
  have "sequence (map write_data_ib (map (\<lambda>(p, v). \<lparr>awr_path = p, awr_value_tlv = enc Anonymous v\<rparr>) pvs)) out =
      (Inr (), out @ enc_elements (map (\<lambda>(p, v). write_data_value p False v) pvs))" for out
    unfolding map_map by (rule sequence_elements) (use assms in \<open>auto simp: write_data_ib_eq\<close>)
  from sequence_message [OF this, of timed None] show ?thesis
    by (simp add: build_write_request_inner_def message_tail_def)
qed

lemma encode_append_tree:
  assumes "\<forall>v\<in>set vs. payloads_fit v"
  shows "encode_append_items p (map (enc Anonymous) vs) timed flag =
    Some (enc Anonymous (write_request_value timed (map (write_data_value p True) vs) flag))"
proof -
  have "sequence (map (write_append_ib p) (map (enc Anonymous) vs)) out =
      (Inr (), out @ enc_elements (map (write_data_value p True) vs))" for out
    unfolding map_map by (rule sequence_elements) (use assms in \<open>auto simp: write_data_ib_eq\<close>)
  from sequence_message [OF this] show ?thesis by (simp add: encode_append_items_def)
qed

lemma encode_replace_tree:
  assumes "\<forall>v\<in>set vs. payloads_fit v"
  shows "encode_replace_all p (map (enc Anonymous) vs) timed flag =
    Some (enc Anonymous (write_request_value timed [write_data_value p False (VArray vs)] flag))"
proof -
  have e: "sequence (map (put_preencoded Anonymous) (map (enc Anonymous) vs)) out = (Inr (), out @ enc_elements vs)" for out
    using sequence_elements [of vs "put_preencoded Anonymous \<circ> enc Anonymous" id out] assms by (simp add: put_preencoded_enc)
  let ?ws = "[start_structure Anonymous, start_list (Context 1)] @ path_members p @ [end_container, start_array (Context 2)] @
    map (put_preencoded Anonymous) (map (enc Anonymous) vs) @ [end_container, end_container]"
  have "sequence ?ws out = (Inr (), out @ enc_elements [write_data_value p False (VArray vs)])" for out
    by (simp add: sequence_around [OF e] path_members_def write_data_value_def attribute_path_value_def
      writer_eqs enc_containers enc_simps del: enc_members.simps(2) enc_elements.simps(2) map_map)
  from sequence_message [OF this] show ?thesis by (simp add: encode_replace_all_def)
qed

section \<open>The greedy loop\<close>

definition cost :: "nat \<Rightarrow> bytes list \<Rightarrow> nat" where
  "cost overhead es = sum_list (map (\<lambda>e. overhead + length e) es)"

lemma cost_simps [simp]:
  "cost n [] = 0" "cost n (e # es) = n + length e + cost n es" "cost n (es @ es') = cost n es + cost n es'"
  by (simp_all add: cost_def)

text \<open>
  A batch takes elements from the front, at least one; a batch of several fits the budget with
  the room kept for the flag; and an element is left over only when it would not fit.
\<close>

lemma fill_batch_spec:
  assumes "fill_batch overhead budget s batch es = (out, rest)"
    and "length batch \<le> 1 \<or> s + CHUNK_FLAG_RESERVE \<le> budget"
  shows "\<exists>taken. out = batch @ taken \<and> es = taken @ rest \<and>
    (length out \<le> 1 \<or> s + cost overhead taken + CHUNK_FLAG_RESERVE \<le> budget) \<and>
    (rest \<noteq> [] \<longrightarrow> s + cost overhead taken + overhead + length (hd rest) + CHUNK_FLAG_RESERVE > budget)"
  using assms
proof (induction overhead budget s batch es rule: fill_batch.induct)
  case (2 overhead budget s batch e es)
  show ?case
  proof (cases "s + (overhead + length e) + CHUNK_FLAG_RESERVE > budget \<and> batch \<noteq> []")
    case True
    then show ?thesis using 2 by (auto simp: Let_def)
  next
    case False
    have "fill_batch overhead budget (s + (overhead + length e)) (batch @ [e]) es = (out, rest)"
      using 2(2) unfolding fill_batch.simps Let_def if_not_P [OF False] .
    moreover have "length (batch @ [e]) \<le> 1 \<or> s + (overhead + length e) + CHUNK_FLAG_RESERVE \<le> budget"
      using False by (cases batch) auto
    ultimately obtain taken where t: "out = (batch @ [e]) @ taken" "es = taken @ rest"
        "length out \<le> 1 \<or> s + (overhead + length e) + cost overhead taken + CHUNK_FLAG_RESERVE \<le> budget"
        "rest \<noteq> [] \<longrightarrow> s + (overhead + length e) + cost overhead taken + overhead + length (hd rest) + CHUNK_FLAG_RESERVE > budget"
      using 2(1) [OF refl False] by blast
    then show ?thesis by (intro exI [of _ "e # taken"]) (simp add: add.assoc)
  qed
qed simp

lemma append_batches_spec:
  "concat (append_batches overhead base budget es) = es \<and>
   (\<forall>b\<in>set (append_batches overhead base budget es).
      b \<noteq> [] \<and> (length b \<le> 1 \<or> base + cost overhead b + CHUNK_FLAG_RESERVE \<le> budget))"
proof (induction overhead base budget es rule: append_batches.induct)
  case (1 overhead base budget es)
  show ?case
  proof (cases "es = []")
    case False
    obtain b rest where f: "fill_batch overhead budget base [] es = (b, rest)" by fastforce
    from fill_batch_spec [OF this] have s: "es = b @ rest" "length b \<le> 1 \<or> base + cost overhead b + CHUNK_FLAG_RESERVE \<le> budget"
      by auto
    moreover have "b \<noteq> []" using fill_batch_progress [OF False, of overhead budget base] s(1) f by auto
    ultimately show ?thesis
      using 1 [OF False f [symmetric]] False f by (subst (1 2) append_batches.simps) simp
  qed (simp add: append_batches.simps)
qed

lemma concat_of_map: "map f xs = concat yss \<Longrightarrow> \<exists>xss. yss = map (map f) xss \<and> xs = concat xss"
proof (induction yss arbitrary: xs)
  case (Cons ys yss)
  then obtain as bs where "xs = as @ bs" "ys = map f as" "concat yss = map f bs" by (auto simp: map_eq_append_conv)
  with Cons.IH [of bs] obtain xss where "yss = map (map f) xss" "bs = concat xss" by auto
  with \<open>xs = as @ bs\<close> \<open>ys = map f as\<close> show ?case by (intro exI [of _ "as # xss"]) simp
qed simp

section \<open>Sizes\<close>

lemma length_enc_elements: "length (enc_elements vs) = sum_list (map (\<lambda>v. length (enc Anonymous v)) vs)"
  by (induction vs) (simp_all add: enc_simps del: enc_elements.simps(2))

lemma length_tag: "length (enc (Context c) v) = length (enc Anonymous v) + 1"
  by (simp add: enc_split encode_tag_def)

lemma length_message:
  "length (enc Anonymous (write_request_value timed ibs flag)) =
   length (enc Anonymous (write_request_value timed [] None)) + length (enc_elements ibs) + (if flag = None then 0 else 2)"
  by (cases flag) (auto simp: write_request_value_def enc_containers enc_simps encode_tag_def
      enc_def del: enc_members.simps(2))

lemma length_replace:
  "length (enc Anonymous (write_request_value timed [write_data_value p False (VArray vs)] flag)) =
   length (enc Anonymous (write_request_value timed [write_data_value p False (VArray [])] None)) +
     cost 0 (map (enc Anonymous) vs) + (if flag = None then 0 else 2)"
  by (subst (1 2) length_message)
    (simp add: write_data_value_def enc_containers enc_simps length_enc_elements cost_def comp_def
      del: enc_members.simps(2) enc_elements.simps(2))

lemma length_append_ib:
  "length (enc Anonymous (write_data_value p True v)) =
   length (enc Anonymous (write_data_value p True VNull)) - 1 + length (enc Anonymous v)"
  by (simp add: write_data_value_def enc_containers enc_simps length_tag del: enc_members.simps(2))
    (simp add: enc_def encode_tag_def)

lemma length_append:
  "length (enc Anonymous (write_request_value timed (map (write_data_value p True) vs) flag)) =
   length (enc Anonymous (write_request_value timed [] None)) +
     cost (length (enc Anonymous (write_data_value p True VNull)) - 1) (map (enc Anonymous) vs) + (if flag = None then 0 else 2)"
proof -
  have "map (\<lambda>v. length (enc Anonymous v)) (map (write_data_value p True) vs) =
      map (\<lambda>e. length (enc Anonymous (write_data_value p True VNull)) - 1 + length e) (map (enc Anonymous) vs)"
    by (simp only: map_map comp_def) (rule map_cong [OF refl length_append_ib])
  then show ?thesis by (subst length_message) (simp only: length_enc_elements cost_def)
qed

text \<open>The messages as trees: the first replaces the list by \<open>first\<close>, the others append \<open>vss\<close>.\<close>

definition chunk_trees :: "attribute_path \<Rightarrow> bool \<Rightarrow> tlv_value list \<Rightarrow> tlv_value list list \<Rightarrow> tlv_value list" where
  "chunk_trees p timed first vss =
     write_request_value timed [write_data_value p False (VArray first)] (if vss = [] then None else Some True) #
     map (\<lambda>(i, vs). write_request_value timed (map (write_data_value p True) vs) (Some (i + 1 < length vss))) (enumerate 0 vss)"

lemma those_map_Some: "(\<And>x. x \<in> set xs \<Longrightarrow> f x = Some (g x)) \<Longrightarrow> those (map f xs) = Some (map g xs)"
  by (induction xs) auto

lemma encode_chunks:
  assumes "\<forall>v\<in>set first. payloads_fit v" "\<forall>vs\<in>set vss. \<forall>v\<in>set vs. payloads_fit v"
  shows "those (encode_replace_all p (map (enc Anonymous) first) timed (if 1 + length vss > 1 then Some True else None) #
      map (\<lambda>(i, b). encode_append_items p b timed (Some (i + 1 < length vss))) (enumerate 0 (map (map (enc Anonymous)) vss))) =
    Some (map (enc Anonymous) (chunk_trees p timed first vss))"
proof -
  have "those (map (\<lambda>(i, vs). encode_append_items p (map (enc Anonymous) vs) timed (Some (i + 1 < length vss))) (enumerate 0 vss)) =
      Some (map (\<lambda>(i, vs). enc Anonymous (write_request_value timed (map (write_data_value p True) vs) (Some (i + 1 < length vss))))
        (enumerate 0 vss))"
    by (rule those_map_Some) (use assms(2) in \<open>auto simp: encode_append_tree enumerate_eq_zip dest: set_zip_rightD\<close>)
  then show ?thesis
    using encode_replace_tree [OF assms(1)]
    by (simp add: chunk_trees_def enumerate_map_upt enumerate_eq_zip zip_map2 comp_def split_def)
qed

lemma chunks_as_trees:
  assumes fit: "\<forall>v\<in>set vs. payloads_fit v"
  obtains first vss where "vs = first @ concat vss"
    "build_list_write_chunks p (map (enc Anonymous) vs) budget timed = Some (map (enc Anonymous) (chunk_trees p timed first vss))"
    "length first \<le> 1 \<or> length (enc Anonymous (write_request_value timed [write_data_value p False (VArray first)] (Some True))) \<le> budget"
    "\<And>b f. b \<in> set vss \<Longrightarrow> b \<noteq> [] \<and> (length b \<le> 1 \<or>
       length (enc Anonymous (write_request_value timed (map (write_data_value p True) b) (Some f))) \<le> budget)"
proof -
  let ?R = "length (enc Anonymous (write_request_value timed [write_data_value p False (VArray [])] None))"
  let ?A = "length (enc Anonymous (write_request_value timed [] None))"
  let ?o = "length (enc Anonymous (write_data_value p True VNull)) - 1"
  have probe: "PROBE = enc Anonymous VNull" by (simp add: PROBE_def enc_def encode_tag_def)
  obtain fb rest where f: "fill_batch 0 budget ?R [] (map (enc Anonymous) vs) = (fb, rest)" by fastforce
  from fill_batch_spec [OF f] have fs: "map (enc Anonymous) vs = fb @ rest"
      "length fb \<le> 1 \<or> ?R + cost 0 fb + CHUNK_FLAG_RESERVE \<le> budget" by auto
  let ?bs = "append_batches ?o ?A budget rest"
  from fs(1) obtain first vs' where v: "vs = first @ vs'" "fb = map (enc Anonymous) first" "rest = map (enc Anonymous) vs'"
    by (auto simp: map_eq_append_conv)
  with append_batches_spec [of ?o ?A budget rest] concat_of_map [of "enc Anonymous" vs' ?bs]
  obtain vss where w: "?bs = map (map (enc Anonymous)) vss" "vs' = concat vss" by auto
  have "encoded_replace_all_len p [] timed = Some ?R" "encoded_append_len p [] timed = Some ?A"
      "encoded_append_len p [PROBE] timed = Some (?A + ?o + 1)"
    using encode_replace_tree [of "[]" p timed None] encode_append_tree [of "[]" p timed None]
      encode_append_tree [of "[VNull]" p timed None] length_append [of timed p "[VNull]" None]
    by (simp_all add: encoded_replace_all_len_def encoded_append_len_def probe enc_def encode_tag_def)
  moreover have "\<forall>v\<in>set first. payloads_fit v" "\<forall>vs\<in>set vss. \<forall>v\<in>set vs. payloads_fit v"
    using fit by (auto simp: v w)
  ultimately have "build_list_write_chunks p (map (enc Anonymous) vs) budget timed = Some (map (enc Anonymous) (chunk_trees p timed first vss))"
    using encode_chunks [of first vss p timed]
    by (simp add: build_list_write_chunks_def f w(1) [simplified] v(2) PROBE_def Let_def del: those.simps)
  moreover have "length first \<le> 1 \<or> length (enc Anonymous (write_request_value timed [write_data_value p False (VArray first)] (Some True))) \<le> budget"
    using fs(2) length_replace [of timed p first "Some True"] by (auto simp: v CHUNK_FLAG_RESERVE_def)
  moreover have "b \<noteq> [] \<and> (length b \<le> 1 \<or>
      length (enc Anonymous (write_request_value timed (map (write_data_value p True) b) (Some g))) \<le> budget)" if "b \<in> set vss" for b g
    using append_batches_spec [of ?o ?A budget rest, unfolded w(1)] that length_append [of timed p b "Some g"]
    by (auto simp: CHUNK_FLAG_RESERVE_def)
  ultimately show thesis using that v(1) w(2) by blast
qed

section \<open>What a device makes of the chunks\<close>

text \<open>
  The meaning of a write to the list at path \<open>p\<close>: a block without \<open>ListIndex\<close> replaces the list, one
  whose \<open>ListIndex\<close> is null appends to it.
\<close>

datatype list_op = ReplaceAll "tlv_value list" | AppendItem tlv_value

fun apply_op :: "tlv_value list \<Rightarrow> list_op \<Rightarrow> tlv_value list" where
  "apply_op old (ReplaceAll vs) = vs"
| "apply_op old (AppendItem v) = old @ [v]"

fun op_elements :: "list_op \<Rightarrow> tlv_value list" where
  "op_elements (ReplaceAll vs) = vs"
| "op_elements (AppendItem v) = [v]"

definition member :: "u8 \<Rightarrow> tlv_value \<Rightarrow> tlv_value option" where
  "member c m = (case m of VStructure ms \<Rightarrow> map_of ms (Context c) | _ \<Rightarrow> None)"

definition ib_ops :: "attribute_path \<Rightarrow> tlv_value \<Rightarrow> list_op list" where
  "ib_ops p ib =
     (if member 1 ib = Some (attribute_path_value p True)
      then (case member 2 ib of Some v \<Rightarrow> [AppendItem v] | None \<Rightarrow> [])
      else if member 1 ib = Some (attribute_path_value p False)
      then (case member 2 ib of Some (VArray vs) \<Rightarrow> [ReplaceAll vs] | _ \<Rightarrow> [])
      else [])"

definition message_ops :: "attribute_path \<Rightarrow> tlv_value \<Rightarrow> list_op list" where
  "message_ops p m = (case member 2 m of Some (VArray ibs) \<Rightarrow> concat (map (ib_ops p) ibs) | _ \<Rightarrow> [])"

definition more_chunks :: "tlv_value \<Rightarrow> bool option" where
  "more_chunks m = (case member 3 m of Some (VBool b) \<Rightarrow> Some b | _ \<Rightarrow> None)"

lemma message_ops_simps:
  "message_ops p (write_request_value timed [write_data_value p False (VArray vs)] flag) = [ReplaceAll vs]"
  "message_ops p (write_request_value timed (map (write_data_value p True) vs) flag) = map AppendItem vs"
  "more_chunks (write_request_value timed ibs flag) = flag"
proof -
  have ib: "ib_ops p (write_data_value p True v) = [AppendItem v]" for v
    by (simp add: ib_ops_def member_def write_data_value_def)
  show "message_ops p (write_request_value timed [write_data_value p False (VArray vs)] flag) = [ReplaceAll vs]"
    by (simp add: message_ops_def ib_ops_def member_def write_request_value_def write_data_value_def attribute_path_value_def)
  show "message_ops p (write_request_value timed (map (write_data_value p True) vs) flag) = map AppendItem vs"
    by (simp add: message_ops_def member_def write_request_value_def comp_def ib concat_map_singleton)
  show "more_chunks (write_request_value timed ibs flag) = flag"
    by (cases flag) (simp_all add: more_chunks_def member_def write_request_value_def)
qed

lemma apply_appends: "foldl apply_op old (map AppendItem vs) = old @ vs"
  by (induction vs arbitrary: old) simp_all

lemma chunk_trees_ops:
  "foldl apply_op old (concat (map (message_ops p) (chunk_trees p timed first vss))) = first @ concat vss"
proof -
  have "concat (map (message_ops p) (map (\<lambda>(i, vs). write_request_value timed (map (write_data_value p True) vs) (Some (f i)))
      (enumerate n vss))) = map AppendItem (concat vss)" for f n
    by (induction vss arbitrary: n) (simp_all add: message_ops_simps)
  then show ?thesis by (simp add: chunk_trees_def message_ops_simps apply_appends)
qed

lemma chunk_trees_flags:
  "map more_chunks (chunk_trees p timed first vss) =
   (if vss = [] then [None] else replicate (length vss) (Some True) @ [Some False])"
proof -
  have "map more_chunks (map (\<lambda>(i, vs). write_request_value timed (map (write_data_value p True) vs) (Some (i + 1 < length vss)))
      (enumerate 0 vss)) = map (\<lambda>i. Some (i + 1 < length vss)) [0..<length vss]"
    by (rule nth_equalityI) (simp_all add: nth_enumerate_eq message_ops_simps)
  also have "\<dots> = (if vss = [] then [] else replicate (length vss - 1) (Some True) @ [Some False])"
    by (rule nth_equalityI) (auto simp: nth_append)
  finally show ?thesis
    by (cases vss) (simp_all add: chunk_trees_def message_ops_simps)
qed

text \<open>
  C21. A list written in chunks arrives: for every budget the builder produces messages which,
  applied in order by a device to whatever list it holds, leave exactly the given elements in
  the given order. A message that carries more than one element keeps within the budget.
  \<open>MoreChunkedMessages\<close> is absent from a single message; of several it is true on all but the
  last, where it is explicitly false.
\<close>

theorem list_write_delivered:
  assumes "\<forall>v\<in>set vs. payloads_fit v"
  shows "\<exists>trees. build_list_write_chunks p (map (enc Anonymous) vs) budget timed = Some (map (enc Anonymous) trees) \<and>
    (\<forall>old. foldl apply_op old (concat (map (message_ops p) trees)) = vs) \<and>
    (\<forall>m\<in>set trees. length (concat (map op_elements (message_ops p m))) \<le> 1 \<or> length (enc Anonymous m) \<le> budget) \<and>
    map more_chunks trees = (if length trees = 1 then [None] else replicate (length trees - 1) (Some True) @ [Some False])"
proof -
  obtain first vss where c: "vs = first @ concat vss"
    "build_list_write_chunks p (map (enc Anonymous) vs) budget timed = Some (map (enc Anonymous) (chunk_trees p timed first vss))"
    and f: "length first \<le> 1 \<or> length (enc Anonymous (write_request_value timed [write_data_value p False (VArray first)] (Some True))) \<le> budget"
    and b: "\<And>b f. b \<in> set vss \<Longrightarrow> b \<noteq> [] \<and> (length b \<le> 1 \<or>
       length (enc Anonymous (write_request_value timed (map (write_data_value p True) b) (Some f))) \<le> budget)"
    using chunks_as_trees [OF assms] by blast
  have "length (enc Anonymous (write_request_value timed ibs None)) \<le> length (enc Anonymous (write_request_value timed ibs (Some True)))" for ibs
    by (subst (1 2) length_message) simp
  from this [of "[write_data_value p False (VArray first)]"] f have first: "length first \<le> 1 \<or>
      length (enc Anonymous (write_request_value timed [write_data_value p False (VArray first)] (if vss = [] then None else Some True))) \<le> budget"
    by auto
  have "length (concat (map op_elements (message_ops p m))) \<le> 1 \<or> length (enc Anonymous m) \<le> budget"
    if "m \<in> set (chunk_trees p timed first vss)" for m
  proof -
    from that consider "m = write_request_value timed [write_data_value p False (VArray first)] (if vss = [] then None else Some True)"
      | b g where "b \<in> set vss" "m = write_request_value timed (map (write_data_value p True) b) (Some g)"
      by (auto simp: chunk_trees_def enumerate_eq_zip dest: set_zip_rightD)
    then show ?thesis
      using first b by cases (simp_all add: message_ops_simps comp_def concat_map_singleton)
  qed
  moreover have "length (chunk_trees p timed first vss) = Suc (length vss)" by (simp add: chunk_trees_def)
  ultimately show ?thesis
    using c chunk_trees_ops [of _ p timed first vss] chunk_trees_flags [of p timed first vss]
    by (intro exI [of _ "chunk_trees p timed first vss"]) simp
qed

theorem list_write_delivered_witness:
  "\<exists>trees. build_list_write_chunks \<lparr>ap_endpoint = 0, ap_cluster = 31, ap_attribute = 0\<rparr>
       (map (enc Anonymous) [VUint 1, VStructure [(Context 1, VUint 5)], VUint 3]) 40 False = Some (map (enc Anonymous) trees) \<and>
     foldl apply_op [VUint 9] (concat (map (message_ops \<lparr>ap_endpoint = 0, ap_cluster = 31, ap_attribute = 0\<rparr>) trees)) =
       [VUint 1, VStructure [(Context 1, VUint 5)], VUint 3]"
  using list_write_delivered [of "[VUint 1, VStructure [(Context 1, VUint 5)], VUint 3]"
    "\<lparr>ap_endpoint = 0, ap_cluster = 31, ap_attribute = 0\<rparr>" 40 False]
  by (auto simp del: list.map)

text \<open>A list that fits one message is written as a plain write of the array.\<close>

lemma elements_fit_iff: "elements_fit vs \<longleftrightarrow> (\<forall>v\<in>set vs. payloads_fit v)"
  by (induction vs) auto

lemma single_chunk_is_plain_write:
  assumes "\<forall>v\<in>set vs. payloads_fit v"
    and "build_list_write_chunks p (map (enc Anonymous) vs) budget timed = Some [m]"
  shows "build_write_request_inner [\<lparr>awr_path = p, awr_value_tlv = enc Anonymous (VArray vs)\<rparr>] timed = Some m"
proof -
  obtain first vss where c: "vs = first @ concat vss"
    "build_list_write_chunks p (map (enc Anonymous) vs) budget timed = Some (map (enc Anonymous) (chunk_trees p timed first vss))"
    using chunks_as_trees [OF assms(1)] by blast
  with assms(2) have "vss = []" by (cases vss) (auto simp: chunk_trees_def)
  with c assms show ?thesis
    using build_write_tree [of "[(p, VArray vs)]" timed] by (simp add: chunk_trees_def elements_fit_iff)
qed

section \<open>Parsing paths and statuses\<close>

lemma takes_attribute_path:
  assumes "d \<le> MAX_DEPTH"
  shows "takes attribute_path_step d (Context 2) (VUint (ucast x)) ((a, b, c), l) ((Some x, b, c), l)"
    "takes attribute_path_step d (Context 3) (VUint (ucast y)) ((a, b, c), l) ((a, Some y, c), l)"
    "takes attribute_path_step d (Context 4) (VUint (ucast z)) ((a, b, c), l) ((a, b, Some z), l)"
    "takes attribute_path_step d (Context 5) VNull ((a, b, c), l) ((a, b, c), True)"
  using assms by (auto simp: attribute_path_step_def arms intro!: takes_scalar readable_plain)

lemma runs_attribute_path:
  assumes "Suc d \<le> MAX_DEPTH"
  shows "runs (at_open (Suc d) (enc_members (children (attribute_path_value p l)) @ ET_END_OF_CONTAINER # ys))
    attribute_path_from_reader (p, l) (at d ys)"
proof -
  have "takes_all attribute_path_step (Suc d) (children (attribute_path_value p l)) ((None, None, None), False)
      ((Some (ap_endpoint p), Some (ap_cluster p), Some (ap_attribute p)), l)"
    unfolding attribute_path_value_def children.simps append.simps
    by (cases l; simp only: if_True if_False append.simps)
      (rule takes_all_Cons takes_attribute_path assms takes_all_Nil)+
  from runs_scan_container [OF keeps_attribute_path_step this, of _ ys unclosed]
  have "runs (at (Suc d) (enc_members (children (attribute_path_value p l)) @ ET_END_OF_CONTAINER # ys))
      (scan unclosed attribute_path_step ((None, None, None), False))
      ((Some (ap_endpoint p), Some (ap_cluster p), Some (ap_attribute p)), l) (at d ys)"
    by (simp add: attribute_path_step_def)
  then show ?thesis
    unfolding attribute_path_from_reader_def by (intro runs_opened) (rule runs_andthen, assumption, simp add: runs_ok)
qed

lemma attribute_path_value_container [simp]:
  "kind_of_value (attribute_path_value p l) = Some KList" "payloads_fit (attribute_path_value p l)"
  "value_wf (attribute_path_value p l)" "value_depth (attribute_path_value p l) = 1"
  by (simp_all add: attribute_path_value_def)

definition status_value :: "im_status \<Rightarrow> tlv_value" where
  "status_value st = VStructure [(Context 0, VUint (ucast (status_to_u8 st)))]"

definition attribute_status_value :: "attribute_path \<times> im_status \<Rightarrow> tlv_value" where
  "attribute_status_value s = (case s of (p, st) \<Rightarrow>
     VStructure [(Context 0, attribute_path_value p False), (Context 1, status_value st)])"

definition write_response_value :: "(attribute_path \<times> im_status) list \<Rightarrow> tlv_value" where
  "write_response_value ss = VStructure [(Context 0, VArray (map attribute_status_value ss)),
     (Context 0xFF, VUint (ucast IM_REVISION))]"

lemma keeps_write_steps:
  "keeps forward (status_body_step e st)" "keeps forward (attribute_status_step e acc)"
  "keeps forward (find_write_responses_step e u)" "keeps forward (write_responses_step e out)"
  by (auto simp: status_body_step_def attribute_status_step_def find_write_responses_step_def write_responses_step_def
      parse_status_ib_body_def parse_attribute_status_ib_def
      intro!: im_keeps keeps_attribute_path split: prod.split option.split)

lemma runs_status_body:
  assumes "Suc d \<le> MAX_DEPTH"
  shows "runs (at_open (Suc d) (enc_members (children (status_value st)) @ ET_END_OF_CONTAINER # ys))
    parse_status_ib_body (Some (status_from_u8 (status_to_u8 st))) (at d ys)"
proof -
  have "takes_all status_body_step (Suc d) (children (status_value st)) None (Some (status_from_u8 (status_to_u8 st)))"
    using assms by (auto simp: status_value_def status_body_step_def arms intro!: takes_scalar readable_plain)
  from runs_scan_container [OF keeps_write_steps(1) this, of _ ys unclosed]
  show ?thesis unfolding parse_status_ib_body_def by (intro runs_opened) (simp add: status_body_step_def)
qed

lemma status_value_container [simp]:
  "kind_of_value (status_value st) = Some KStructure" "payloads_fit (status_value st)"
  "value_wf (status_value st)" "value_depth (status_value st) = 1"
  by (simp_all add: status_value_def)

lemma attribute_status_value_container [simp]:
  "kind_of_value (attribute_status_value s) = Some KStructure" "payloads_fit (attribute_status_value s)"
  "value_wf (attribute_status_value s)" "value_depth (attribute_status_value s) = 2"
  by (simp_all add: attribute_status_value_def split: prod.split)

definition known_status :: "attribute_path \<times> im_status \<Rightarrow> attribute_path \<times> im_status" where
  "known_status s = (fst s, status_from_u8 (status_to_u8 (snd s)))"

lemma runs_attribute_status:
  assumes "Suc (Suc d) \<le> MAX_DEPTH"
  shows "runs (at_open (Suc d) (enc_members (children (attribute_status_value s)) @ ET_END_OF_CONTAINER # ys))
    parse_attribute_status_ib (known_status s) (at d ys)"
proof -
  obtain p st where s: "s = (p, st)" by (cases s)
  let ?st = "status_from_u8 (status_to_u8 st)"
  have "takes attribute_status_step (Suc d) (Context 0) (attribute_path_value p False) (None, None) (Some p, None)"
    using assms
    by (intro takes_parsed [OF _ _ runs_attribute_path, where k = KList and g = "\<lambda>(p, _). (Some p, None)"])
      (simp_all add: attribute_status_step_def arms readable_def split_def)
  moreover have "takes attribute_status_step (Suc d) (Context 1) (status_value st) (Some p, None) (Some p, Some ?st)"
    using assms
    by (intro takes_parsed [OF _ _ runs_status_body, where k = KStructure and g = "\<lambda>s. (Some p, case s of Some _ \<Rightarrow> s | None \<Rightarrow> None)"])
      (simp_all add: attribute_status_step_def arms readable_def)
  ultimately have "takes_all attribute_status_step (Suc d) (children (attribute_status_value s)) (None, None) (Some p, Some ?st)"
    unfolding attribute_status_value_def s prod.case children.simps by (metis takes_all_Cons takes_all_Nil)
  from runs_scan_container [OF keeps_write_steps(2) this, of _ ys unclosed]
  have "runs (at (Suc d) (enc_members (children (attribute_status_value s)) @ ET_END_OF_CONTAINER # ys))
      (scan unclosed attribute_status_step (None, None)) (Some p, Some ?st) (at d ys)"
    by (simp add: attribute_status_step_def)
  then show ?thesis
    unfolding parse_attribute_status_ib_def
    by (intro runs_opened) (rule runs_andthen, assumption, simp add: runs_ok s known_status_def)
qed

lemma takes_all_statuses:
  assumes "Suc (Suc d) \<le> MAX_DEPTH"
  shows "takes_all write_responses_step d (map (Pair Anonymous) (map attribute_status_value ss)) out (out @ map known_status ss)"
proof (induction ss arbitrary: out)
  case (Cons s ss)
  have "takes write_responses_step d Anonymous (attribute_status_value s) out (out @ [known_status s])"
    using assms
    by (intro takes_parsed [OF _ _ runs_attribute_status, where k = KStructure and g = "\<lambda>s. out @ [s]"])
      (simp_all add: write_responses_step_def arms readable_def)
  from takes_all_Cons [OF this Cons.IH] show ?case by simp
qed simp

text \<open>
  A write response, an array of one status per written path, is parsed into exactly these
  statuses in order.
\<close>

theorem write_response_parsed:
  assumes "\<forall>(p, st)\<in>set ss. st \<noteq> Failure 0" "length (enc Anonymous (write_response_value ss)) < 2 ^ 64"
  shows "parse_write_response (enc Anonymous (write_response_value ss)) = Inr ss"
proof -
  let ?ms = "[(Context 0, VArray (map attribute_status_value ss)), (Context 0xFF, VUint (ucast IM_REVISION))]"
  have a: "readable 1 (VArray (map attribute_status_value ss))"
    by (subst readable_container) (auto simp: readable_def MAX_DEPTH_def)
  then have r: "readable 0 (VStructure ?ms)"
    by (subst readable_container) (auto simp: readable_def MAX_DEPTH_def)
  have "runs (at 1 (enc (Context 0) (VArray (map attribute_status_value ss)) @ revision_end)) (scan unclosed find_write_responses_step ()) True
      (at_open 2 (enc_members (map (Pair Anonymous) (map attribute_status_value ss)) @ ET_END_OF_CONTAINER # revision_end))"
    by (rule runs_scan_exit [where k = KArray, OF keeps_write_steps(3) _ a])
      (simp_all add: find_write_responses_step_def arms numeral_2_eq_2 del: enc_members.simps)
  then have find: "runs (at 1 (enc_members ?ms @ [ET_END_OF_CONTAINER])) (scan unclosed find_write_responses_step ()) True
      (at_open 2 (enc_members (map (Pair Anonymous) (map attribute_status_value ss)) @ ET_END_OF_CONTAINER # revision_end))"
    by (simp add: enc_simps del: enc_members.simps(2))
  have all: "takes_all write_responses_step (Suc 1) (map (Pair Anonymous) (map attribute_status_value ss)) [] (map known_status ss)"
    using takes_all_statuses [of 2 ss "[]"] by (simp add: MAX_DEPTH_def numeral_2_eq_2)
  have "runs (at_open 2 (enc_members (map (Pair Anonymous) (map attribute_status_value ss)) @ ET_END_OF_CONTAINER # revision_end))
      (scan unclosed write_responses_step []) (map known_status ss) (at (Suc 0) revision_end)"
    using runs_scan_container [OF keeps_write_steps(4) all, of _ revision_end unclosed]
    by (intro runs_opened) (simp add: write_responses_step_def numeral_2_eq_2 del: enc_members.simps)
  from this closes_revision_end have fin: "runs (at_open 2 (enc_members (map (Pair Anonymous) (map attribute_status_value ss)) @ ET_END_OF_CONTAINER # revision_end))
      (andthen (scan unclosed write_responses_step []) (\<lambda>out. andthen finish_im (\<lambda>_. ok out))) (map known_status ss) (at 0 [])"
    by (rule runs_to_finish)
  have "map known_status ss = ss"
    using assms(1) by (intro map_idI) (auto simp: known_status_def status_code_roundtrip)
  with parse_with_runs [OF r, OF _ runs_andthen [OF find, of "\<lambda>found. if \<not> found then andthen finish_im (\<lambda>_. ok []) else
      andthen (scan unclosed write_responses_step []) (\<lambda>out. andthen finish_im (\<lambda>_. ok out))"]] fin assms(2)
  show ?thesis unfolding parse_write_response_def write_response_value_def by simp
qed

theorem write_response_parsed_witness:
  "parse_write_response (enc Anonymous (write_response_value
     [(\<lparr>ap_endpoint = 1, ap_cluster = 6, ap_attribute = 0x4003\<rparr>, Success),
      (\<lparr>ap_endpoint = 1, ap_cluster = 8, ap_attribute = 17\<rparr>, Failure 0x87)])) =
   Inr [(\<lparr>ap_endpoint = 1, ap_cluster = 6, ap_attribute = 0x4003\<rparr>, Success),
     (\<lparr>ap_endpoint = 1, ap_cluster = 8, ap_attribute = 17\<rparr>, Failure 0x87)]"
  by (rule write_response_parsed)
    (simp_all add: write_response_value_def attribute_status_value_def attribute_path_value_def status_value_def
      enc_def encode_tag_def uint_body_def)

end
