(* ===== verification/IM_Report.thy ===== *)
theory IM_Report
  imports IM_Write
begin

text \<open>
  Reads, events and subscriptions, \<open>read.rs\<close>, \<open>event.rs\<close> and \<open>subscription.rs\<close> of
  \<open>crates/matter-interaction/src\<close>: the request builders and the parsers of reports.
\<close>

section \<open>Events\<close>

record event_path =
  ep_node :: "u64 option"
  ep_endpoint :: "u16 option"
  ep_cluster :: "u32 option"
  ep_event :: "u32 option"
  ep_is_urgent :: "bool option"

definition event_path_default :: event_path where
  "event_path_default = \<lparr>ep_node = None, ep_endpoint = None, ep_cluster = None, ep_event = None, ep_is_urgent = None\<rparr>"

text \<open>\<open>if let Some(x) = field { write(x) }\<close>\<close>

definition if_some :: "'a option \<Rightarrow> ('a \<Rightarrow> unit writer) \<Rightarrow> unit writer list" where
  "if_some x f = (case x of None \<Rightarrow> [] | Some y \<Rightarrow> [f y])"

definition write_event_path :: "event_path \<Rightarrow> unit writer" where
  "write_event_path p = sequence
     ([start_list Anonymous] @
      if_some (ep_node p) (put_uint (Context 0)) @
      if_some (ep_endpoint p) (\<lambda>e. put_uint (Context 1) (ucast e)) @
      if_some (ep_cluster p) (\<lambda>c. put_uint (Context 2) (ucast c)) @
      if_some (ep_event p) (\<lambda>ev. put_uint (Context 3) (ucast ev)) @
      if_some (ep_is_urgent p) (put_bool (Context 4)) @
      [end_container])"

record event_filter =
  ef_node :: "u64 option"
  ef_event_min :: u64

definition write_event_filter :: "event_filter \<Rightarrow> unit writer" where
  "write_event_filter f = sequence
     ([start_structure Anonymous] @
      if_some (ef_node f) (put_uint (Context 0)) @
      [put_uint (Context 1) (ef_event_min f),
       end_container])"

datatype event_priority = PrioDebug | PrioInfo | PrioCritical | PrioUnknown u8

definition priority_from_u8 :: "u8 \<Rightarrow> event_priority" where
  "priority_from_u8 v =
     (if v = 0 then PrioDebug else if v = 1 then PrioInfo else if v = 2 then PrioCritical else PrioUnknown v)"

datatype event_timestamp = Epoch u64 | System u64 | DeltaEpoch u64 | DeltaSystem u64 | NoTimestamp

record event_report_item =
  eri_path :: event_path
  eri_event_number :: u64
  eri_priority :: event_priority
  eri_timestamp :: event_timestamp
  eri_value :: tlv_value

datatype event_report = EventData event_report_item | EventStatus event_path u8

definition event_path_step :: "tlv_element \<Rightarrow> event_path \<Rightarrow> (event_path, event_path) flow im" where
  "event_path_step e p =
     (if e = ContainerEnd then ok (Done p)
      else case uint_at 0 e of Some n \<Rightarrow> ok (Again (p\<lparr>ep_node := Some n\<rparr>))
      | None \<Rightarrow> (case uint_at 1 e of Some n \<Rightarrow> ok (Again (p\<lparr>ep_endpoint := try_u16 n\<rparr>))
      | None \<Rightarrow> (case uint_at 2 e of Some n \<Rightarrow> ok (Again (p\<lparr>ep_cluster := try_u32 n\<rparr>))
      | None \<Rightarrow> (case uint_at 3 e of Some n \<Rightarrow> ok (Again (p\<lparr>ep_event := try_u32 n\<rparr>))
      | None \<Rightarrow> (case bool_at 4 e of Some b \<Rightarrow> ok (Again (p\<lparr>ep_is_urgent := Some b\<rparr>))
      | None \<Rightarrow> otherwise e p)))))"

definition event_path_from_reader :: "event_path im" where
  "event_path_from_reader = scan unclosed event_path_step event_path_default"

type_synonym event_parts = "event_path \<times> u64 \<times> event_priority \<times> event_timestamp \<times> tlv_value option"

definition event_data_step :: "tlv_element \<Rightarrow> event_parts \<Rightarrow> (event_parts, event_parts) flow im" where
  "event_data_step e acc = (case acc of (path, event_number, priority, timestamp, v) \<Rightarrow>
     if e = ContainerEnd then ok (Done acc)
     else if starts_at 0 e = Some KList
     then andthen event_path_from_reader (\<lambda>p. ok (Again (p, event_number, priority, timestamp, v)))
     else case uint_at 1 e of Some n \<Rightarrow> ok (Again (path, n, priority, timestamp, v))
     | None \<Rightarrow> (case uint_at 2 e of
         Some n \<Rightarrow> ok (Again (path, event_number,
           priority_from_u8 (case try_u8 n of Some x \<Rightarrow> x | None \<Rightarrow> 0xFF), timestamp, v))
     | None \<Rightarrow> (case uint_at 3 e of Some n \<Rightarrow> ok (Again (path, event_number, priority, Epoch n, v))
     | None \<Rightarrow> (case uint_at 4 e of Some n \<Rightarrow> ok (Again (path, event_number, priority, System n, v))
     | None \<Rightarrow> (case uint_at 5 e of Some n \<Rightarrow> ok (Again (path, event_number, priority, DeltaEpoch n, v))
     | None \<Rightarrow> (case uint_at 6 e of Some n \<Rightarrow> ok (Again (path, event_number, priority, DeltaSystem n, v))
     | None \<Rightarrow> (case scalar_at 7 e of Some x \<Rightarrow> ok (Again (path, event_number, priority, timestamp, Some x))
     | None \<Rightarrow> (case starts_at 7 e of
         Some kind \<Rightarrow> andthen (read_container_value kind)
           (\<lambda>x. ok (Again (path, event_number, priority, timestamp, Some x)))
     | None \<Rightarrow> otherwise e acc))))))))"

definition parse_event_data :: "event_report_item im" where
  "parse_event_data =
     andthen (scan unclosed event_data_step (event_path_default, 0, PrioUnknown 0xFF, NoTimestamp, None))
       (\<lambda>(path, event_number, priority, timestamp, v).
     andthen (need (MissingField ''EventData.Data'') v) (\<lambda>x.
       ok \<lparr>eri_path = path, eri_event_number = event_number, eri_priority = priority,
           eri_timestamp = timestamp, eri_value = x\<rparr>))"

definition event_status_body_step :: "tlv_element \<Rightarrow> u8 \<Rightarrow> (u8, u8) flow im" where
  "event_status_body_step e status =
     (if e = ContainerEnd then ok (Done status)
      else case uint_at 0 e of
        Some n \<Rightarrow> ok (Again (case try_u8 n of Some x \<Rightarrow> x | None \<Rightarrow> 0))
      | None \<Rightarrow> otherwise e status)"

definition event_status_step :: "tlv_element \<Rightarrow> event_path \<times> u8 \<Rightarrow> (event_path \<times> u8, event_path \<times> u8) flow im" where
  "event_status_step e acc = (case acc of (path, status) \<Rightarrow>
     if e = ContainerEnd then ok (Done acc)
     else if starts_at 0 e = Some KList
     then andthen event_path_from_reader (\<lambda>p. ok (Again (p, status)))
     else if starts_at 1 e = Some KStructure
     then andthen (scan unclosed event_status_body_step status) (\<lambda>s. ok (Again (path, s)))
     else otherwise e acc)"

definition parse_event_status :: "event_report im" where
  "parse_event_status =
     andthen (scan unclosed event_status_step (event_path_default, 0)) (\<lambda>(path, status). ok (EventStatus path status))"

definition event_report_step :: "tlv_element \<Rightarrow> event_report option \<Rightarrow> (event_report option, event_report option) flow im" where
  "event_report_step e out =
     (if e = ContainerEnd then ok (Done out)
      else if starts_at 1 e = Some KStructure
      then andthen parse_event_data (\<lambda>d. ok (Again (Some (EventData d))))
      else if starts_at 0 e = Some KStructure
      then andthen parse_event_status (\<lambda>s. ok (Again (Some s)))
      else otherwise e out)"

definition parse_event_report_ib :: "event_report option im" where
  "parse_event_report_ib = scan unclosed event_report_step None"

definition event_reports_step :: "tlv_element \<Rightarrow> event_report list \<Rightarrow> (event_report list, event_report list) flow im" where
  "event_reports_step e out =
     (if e = ContainerEnd then ok (Done out)
      else if starts e = Some KStructure
      then andthen parse_event_report_ib (\<lambda>rep. ok (Again (case rep of Some x \<Rightarrow> out @ [x] | None \<Rightarrow> out)))
      else otherwise e out)"

definition parse_event_reports :: "event_report list \<Rightarrow> event_report list im" where
  "parse_event_reports out = scan unclosed event_reports_step out"

section \<open>Read requests\<close>

definition write_read_path :: "read_path \<Rightarrow> unit writer" where
  "write_read_path p = sequence
     ([start_list Anonymous] @
      if_some (rp_endpoint p) (\<lambda>ep. put_uint (Context 2) (ucast ep)) @
      if_some (rp_cluster p) (\<lambda>cl. put_uint (Context 3) (ucast cl)) @
      if_some (rp_attribute p) (\<lambda>att. put_uint (Context 4) (ucast att)) @
      [end_container])"

text \<open>An array of context tag \<open>c\<close>, left out when it would be empty.\<close>

definition optional_array :: "u8 \<Rightarrow> ('a \<Rightarrow> unit writer) \<Rightarrow> 'a list \<Rightarrow> unit writer list" where
  "optional_array c f xs = (if xs = [] then [] else start_array (Context c) # map f xs @ [end_container])"

definition build_read_request_full :: "read_path list \<Rightarrow> event_path list \<Rightarrow> event_filter list \<Rightarrow> bytes option" where
  "build_read_request_full attr_paths event_paths event_filters = written
     ([start_structure Anonymous] @
      optional_array 0 write_read_path attr_paths @
      optional_array 1 write_event_path event_paths @
      optional_array 2 write_event_filter event_filters @
      [put_bool (Context 3) False,
       put_uint (Context 0xFF) (ucast IM_REVISION),
       end_container])"

definition build_read_request_paths :: "read_path list \<Rightarrow> bytes option" where
  "build_read_request_paths paths = build_read_request_full paths [] []"

definition build_read_request :: "attribute_path list \<Rightarrow> bytes option" where
  "build_read_request paths = build_read_request_paths (map read_path_from paths)"

section \<open>Reports\<close>

datatype report_op = Replace | Append

record attribute_report_item =
  ari_path :: attribute_path
  ari_op :: report_op
  ari_value :: tlv_value
  ari_data_version :: "u32 option"

record report_data =
  rep_items :: "attribute_report_item list"
  rep_subscription_id :: "u32 option"
  rep_more_chunked_messages :: bool
  rep_suppress_response :: bool
  rep_events :: "event_report list"
  rep_statuses :: "(attribute_path \<times> im_status) list"

definition report_data_new :: "attribute_report_item list \<Rightarrow> u32 option \<Rightarrow> bool \<Rightarrow> bool \<Rightarrow> report_data" where
  "report_data_new items subscription_id more_chunked_messages suppress_response =
     \<lparr>rep_items = items, rep_subscription_id = subscription_id, rep_more_chunked_messages = more_chunked_messages,
      rep_suppress_response = suppress_response, rep_events = [], rep_statuses = []\<rparr>"

text \<open>The view of the attributes that are replaced.\<close>

definition attributes :: "report_data \<Rightarrow> (attribute_path \<times> tlv_value) list" where
  "attributes r = map (\<lambda>i. (ari_path i, ari_value i)) (filter (\<lambda>i. ari_op i = Replace) (rep_items r))"

datatype report_ib = IbData attribute_report_item | IbStatus attribute_path im_status | IbEmpty

text \<open>The locals of one \<open>AttributeReportIB\<close>: path, value, data version and the append flag.\<close>

type_synonym data_parts = "attribute_path option \<times> tlv_value option \<times> u32 option \<times> bool"

definition attribute_data_step :: "tlv_element \<Rightarrow> data_parts \<Rightarrow> (data_parts, data_parts) flow im" where
  "attribute_data_step e acc = (case acc of (path, v, data_version, is_append) \<Rightarrow>
     if e = ContainerEnd then ok (Done acc)
     else case uint_at 0 e of
       Some n \<Rightarrow> andthen (need (UnexpectedValue ''AttributeData.DataVersion exceeds u32'') (try_u32 n))
         (\<lambda>x. ok (Again (path, v, Some x, is_append)))
     | None \<Rightarrow>
     if starts_at 1 e = Some KList
     then andthen attribute_path_from_reader (\<lambda>(p, a). ok (Again (Some p, v, data_version, a)))
     else case scalar_at 2 e of
       Some x \<Rightarrow> ok (Again (path, Some x, data_version, is_append))
     | None \<Rightarrow> case starts_at 2 e of
       Some kind \<Rightarrow> andthen (read_container_value kind) (\<lambda>x. ok (Again (path, Some x, data_version, is_append)))
     | None \<Rightarrow> otherwise e acc)"

definition parse_attribute_data :: "data_parts \<Rightarrow> data_parts im" where
  "parse_attribute_data acc = scan unclosed attribute_data_step acc"

definition report_ib_step :: "tlv_element \<Rightarrow> data_parts \<times> (attribute_path \<times> im_status) option \<Rightarrow>
    (data_parts \<times> (attribute_path \<times> im_status) option, data_parts \<times> (attribute_path \<times> im_status) option) flow im" where
  "report_ib_step e acc = (case acc of (parts, status) \<Rightarrow>
     if e = ContainerEnd then ok (Done acc)
     else if starts_at 1 e = Some KStructure
     then andthen (parse_attribute_data parts) (\<lambda>parts'. ok (Again (parts', status)))
     else if starts_at 0 e = Some KStructure
     then andthen parse_attribute_status_ib (\<lambda>s. ok (Again (parts, Some s)))
     else otherwise e acc)"

definition parse_attribute_report_ib :: "report_ib im" where
  "parse_attribute_report_ib =
     andthen (scan unclosed report_ib_step ((None, None, None, False), None))
       (\<lambda>((path, v, data_version, is_append), status).
       case status of Some (p, s) \<Rightarrow> ok (IbStatus p s)
       | None \<Rightarrow> (case (path, v) of
           (Some p, Some x) \<Rightarrow> ok (IbData \<lparr>ari_path = p, ari_op = (if is_append then Append else Replace),
             ari_value = x, ari_data_version = data_version\<rparr>)
         | (None, None) \<Rightarrow> ok IbEmpty
         | (Some _, None) \<Rightarrow> err (MissingField ''AttributeData.Data'')
         | (None, Some _) \<Rightarrow> err (MissingField ''AttributeData.Path'')))"

type_synonym reports = "attribute_report_item list \<times> (attribute_path \<times> im_status) list"

definition attribute_reports_step :: "tlv_element \<Rightarrow> reports \<Rightarrow> (reports, reports) flow im" where
  "attribute_reports_step e acc = (case acc of (items, statuses) \<Rightarrow>
     if e = ContainerEnd then ok (Done acc)
     else if starts e = Some KStructure
     then andthen parse_attribute_report_ib (\<lambda>ib. ok (Again (case ib of
         IbData item \<Rightarrow> (items @ [item], statuses)
       | IbStatus path status \<Rightarrow> (items, statuses @ [(path, status)])
       | IbEmpty \<Rightarrow> (items, statuses))))
     else otherwise e acc)"

definition parse_attribute_reports :: "reports \<Rightarrow> reports im" where
  "parse_attribute_reports acc = scan unclosed attribute_reports_step acc"

definition report_step :: "tlv_element \<Rightarrow> report_data \<Rightarrow> (report_data, report_data) flow im" where
  "report_step e acc =
     (if e = ContainerEnd then ok (Done acc)
      else case uint_at 0 e of
        Some n \<Rightarrow> andthen (need (UnexpectedValue ''ReportData.subscriptionId exceeds u32'') (try_u32 n))
          (\<lambda>x. ok (Again (acc\<lparr>rep_subscription_id := Some x\<rparr>)))
      | None \<Rightarrow>
      if starts_at 1 e = Some KArray
      then andthen (parse_attribute_reports (rep_items acc, rep_statuses acc))
        (\<lambda>(items, statuses). ok (Again (acc\<lparr>rep_items := items, rep_statuses := statuses\<rparr>)))
      else case bool_at 3 e of
        Some b \<Rightarrow> ok (Again (acc\<lparr>rep_more_chunked_messages := b\<rparr>))
      | None \<Rightarrow> case bool_at 4 e of
        Some b \<Rightarrow> ok (Again (acc\<lparr>rep_suppress_response := b\<rparr>))
      | None \<Rightarrow>
      if starts_at 2 e = Some KArray
      then andthen (parse_event_reports (rep_events acc)) (\<lambda>evs. ok (Again (acc\<lparr>rep_events := evs\<rparr>)))
      else otherwise e acc)"

definition parse_report_data :: "bytes \<Rightarrow> im_error + report_data" where
  "parse_report_data = parse_with (
     andthen (scan unclosed report_step (report_data_new [] None False False)) (\<lambda>rep.
     andthen finish_im (\<lambda>_. ok rep)))"

section \<open>Subscriptions\<close>

record subscribe_request =
  sr_keep_subscriptions :: bool
  sr_min_interval_floor :: u16
  sr_max_interval_ceiling :: u16
  sr_paths :: "read_path list"
  sr_event_paths :: "event_path list"
  sr_event_filters :: "event_filter list"

record subscribe_response =
  srs_subscription_id :: u32
  srs_max_interval :: u16

definition build_subscribe_request :: "subscribe_request \<Rightarrow> bytes option" where
  "build_subscribe_request req = written
     ([start_structure Anonymous,
       put_bool (Context 0) (sr_keep_subscriptions req),
       put_uint (Context 1) (ucast (sr_min_interval_floor req)),
       put_uint (Context 2) (ucast (sr_max_interval_ceiling req)),
       start_array (Context 3)] @
      map write_read_path (sr_paths req) @
      [end_container] @
      optional_array 4 write_event_path (sr_event_paths req) @
      optional_array 5 write_event_filter (sr_event_filters req) @
      [put_bool (Context 7) False,
       put_uint (Context 0xFF) (ucast IM_REVISION),
       end_container])"

definition subscribe_response_step :: "tlv_element \<Rightarrow> u32 option \<times> u16 option \<Rightarrow>
    (u32 option \<times> u16 option, u32 option \<times> u16 option) flow im" where
  "subscribe_response_step e acc = (case acc of (subscription_id, max_interval) \<Rightarrow>
     if e = ContainerEnd then ok (Done acc)
     else case uint_at 0 e of
       Some n \<Rightarrow> andthen (need (UnexpectedValue ''SubscribeResponse.subscriptionId exceeds u32'') (try_u32 n))
         (\<lambda>x. ok (Again (Some x, max_interval)))
     | None \<Rightarrow> case uint_at 2 e of
       Some n \<Rightarrow> andthen (need (UnexpectedValue ''SubscribeResponse.maxInterval exceeds u16'') (try_u16 n))
         (\<lambda>x. ok (Again (subscription_id, Some x)))
     | None \<Rightarrow> otherwise e acc)"

definition parse_subscribe_response :: "bytes \<Rightarrow> im_error + subscribe_response" where
  "parse_subscribe_response = parse_with (
     andthen (scan unclosed subscribe_response_step (None, None)) (\<lambda>(subscription_id, max_interval).
     andthen finish_im (\<lambda>_.
     andthen (need (MissingField ''SubscribeResponse.subscriptionId'') subscription_id) (\<lambda>sid.
     andthen (need (MissingField ''SubscribeResponse.maxInterval'') max_interval) (\<lambda>mi.
       ok \<lparr>srs_subscription_id = sid, srs_max_interval = mi\<rparr>)))))"

definition build_status_response :: "u8 \<Rightarrow> bytes option" where
  "build_status_response status = written
     [start_structure Anonymous,
      put_uint (Context 0) (ucast status),
      put_uint (Context 0xFF) (ucast IM_REVISION),
      end_container]"

text \<open>An event status that does not fit in a byte is reported as success.\<close>

lemma oversized_event_status_is_success:
  assumes "256 \<le> n"
  shows "event_status_body_step (Scalar (Context 0) (VUint n)) status = ok (Again 0)"
proof -
  have "\<not> n < 2 ^ 8" using assms by (simp add: not_less)
  then show ?thesis by (simp add: event_status_body_step_def uint_at_def scalar_at_def try_u8_def)
qed

end
