(* ===== verification/IM_Reading.thy ===== *)
theory IM_Reading
  imports IM_Report
begin

text \<open>
  What the report parser makes of a report: the trees of the report's parts, and for each parser the
  run over the encoding of such a tree.
\<close>

section \<open>The parsers only move forward\<close>

lemma keeps_event_path: "keeps forward (event_path_step e p)" "keeps forward event_path_from_reader"
  unfolding event_path_from_reader_def event_path_step_def by (intro keeps_cases im_keeps)+

lemma keeps_event_data: "keeps forward (event_data_step e acc)" "keeps forward parse_event_data"
  unfolding parse_event_data_def event_data_step_def
  by (intro keeps_cases im_keeps keeps_event_path keeps_read_container_value)+

lemma keeps_event_status:
  "keeps forward (event_status_body_step e s)" "keeps forward (event_status_step e es)" "keeps forward parse_event_status"
  unfolding parse_event_status_def event_status_step_def event_status_body_step_def
  by (intro keeps_cases im_keeps keeps_event_path)+

lemma keeps_event_reports:
  "keeps forward (event_report_step e rep)" "keeps forward (event_reports_step e out)" "keeps forward (parse_event_reports out)"
  unfolding parse_event_reports_def event_reports_step_def parse_event_report_ib_def event_report_step_def
  by (intro keeps_cases im_keeps keeps_event_data keeps_event_status)+

lemma keeps_attribute_data: "keeps forward (attribute_data_step e acc)" "keeps forward (parse_attribute_data acc)"
  unfolding parse_attribute_data_def attribute_data_step_def
  by (intro keeps_cases im_keeps keeps_attribute_path keeps_read_container_value)+

lemma keeps_attribute_status: "keeps forward parse_attribute_status_ib"
  unfolding parse_attribute_status_ib_def by (intro keeps_cases im_keeps keeps_write_steps)

lemma keeps_report_ib: "keeps forward (report_ib_step e acc)" "keeps forward parse_attribute_report_ib"
  unfolding parse_attribute_report_ib_def report_ib_step_def
  by (intro keeps_cases im_keeps keeps_attribute_data keeps_attribute_status)+

lemma keeps_report_step: "keeps forward (attribute_reports_step e acc)" "keeps forward (report_step e rep)"
  unfolding report_step_def parse_attribute_reports_def attribute_reports_step_def
  by (intro keeps_cases im_keeps keeps_report_ib keeps_event_reports)+

section \<open>Optional members\<close>

definition opt_member :: "u8 \<Rightarrow> ('a \<Rightarrow> tlv_value) \<Rightarrow> 'a option \<Rightarrow> (tag \<times> tlv_value) list" where
  "opt_member c f x = (case x of None \<Rightarrow> [] | Some y \<Rightarrow> [(Context c, f y)])"

lemma takes_all_opt:
  assumes "\<And>y. x = Some y \<Longrightarrow> takes body d (Context c) (f y) acc acc'" "x = None \<Longrightarrow> acc' = acc"
  shows "takes_all body d (opt_member c f x) acc acc'"
  using assms by (cases x) (simp_all add: opt_member_def)

lemma takes_all_join:
  "takes_all body d ms acc acc1 \<Longrightarrow> takes_all body d ms' acc1 acc' \<Longrightarrow> takes_all body d (ms @ ms') acc acc'"
  by (auto simp: takes_all_append)

lemma takes_all_one: "takes body d t v acc acc' \<Longrightarrow> takes_all body d [(t, v)] acc acc'"
  by simp

lemma takes_value:
  assumes "readable d v"
    and "kind_of_value v = None \<Longrightarrow> body (Scalar t v) acc = ok (Again (g v))"
    and "\<And>k. kind_of_value v = Some k \<Longrightarrow>
      body (ContainerStart t k) acc = andthen (read_container_value k) (\<lambda>x. ok (Again (g x)))"
  shows "takes body d t v acc (g v)"
proof (cases "kind_of_value v")
  case None
  show ?thesis by (rule takes_scalar [OF None assms(1)]) (rule assms(2) [OF None])
next
  case (Some k)
  show ?thesis
    by (rule takes_parsed [OF Some assms(1) runs_read_container_value [OF Some assms(1)], where g = g]) (rule assms(3) [OF Some], rule refl)
qed

section \<open>Events\<close>

definition event_path_value :: "event_path \<Rightarrow> tlv_value" where
  "event_path_value p = VList (opt_member 0 VUint (ep_node p) @ opt_member 1 (\<lambda>x. VUint (ucast x)) (ep_endpoint p) @
     opt_member 2 (\<lambda>x. VUint (ucast x)) (ep_cluster p) @ opt_member 3 (\<lambda>x. VUint (ucast x)) (ep_event p) @
     opt_member 4 VBool (ep_is_urgent p))"

lemma event_path_value_container [simp]:
  "kind_of_value (event_path_value p) = Some KList" "payloads_fit (event_path_value p)"
  "value_wf (event_path_value p)" "value_depth (event_path_value p) = 1"
  by (auto simp: event_path_value_def opt_member_def split: option.split)

lemma runs_event_path:
  assumes d: "Suc d \<le> MAX_DEPTH"
  shows "runs (at_open (Suc d) (enc_members (children (event_path_value p)) @ ET_END_OF_CONTAINER # ys))
    event_path_from_reader p (at d ys)"
proof -
  let ?P = "\<lambda>n e c v u. \<lparr>ep_node = n, ep_endpoint = e, ep_cluster = c, ep_event = v, ep_is_urgent = u\<rparr>"
  let ?all = "takes_all event_path_step (Suc d)"
  note step = event_path_step_def arms event_path_default_def
  have "?all (opt_member 0 VUint (ep_node p)) event_path_default (?P (ep_node p) None None None None)"
      "?all (opt_member 1 (\<lambda>x. VUint (ucast x)) (ep_endpoint p)) (?P n None None None None) (?P n (ep_endpoint p) None None None)"
      "?all (opt_member 2 (\<lambda>x. VUint (ucast x)) (ep_cluster p)) (?P n e None None None) (?P n e (ep_cluster p) None None)"
      "?all (opt_member 3 (\<lambda>x. VUint (ucast x)) (ep_event p)) (?P n e c None None) (?P n e c (ep_event p) None)"
      "?all (opt_member 4 VBool (ep_is_urgent p)) (?P n e c v None) (?P n e c v (ep_is_urgent p))" for n e c v
    using d by (intro takes_all_opt takes_scalar readable_plain; simp add: step)+
  then have "?all (children (event_path_value p)) event_path_default
      (?P (ep_node p) (ep_endpoint p) (ep_cluster p) (ep_event p) (ep_is_urgent p))"
    unfolding event_path_value_def children.simps by (intro takes_all_join)
  then have "?all (children (event_path_value p)) event_path_default p" by (cases p) simp
  from runs_scan_container [OF keeps_event_path(1) this, of _ ys unclosed]
  show ?thesis unfolding event_path_from_reader_def by (intro runs_opened) (simp add: event_path_step_def)
qed

definition priority_to_u8 :: "event_priority \<Rightarrow> u8" where
  "priority_to_u8 q = (case q of PrioDebug \<Rightarrow> 0 | PrioInfo \<Rightarrow> 1 | PrioCritical \<Rightarrow> 2 | PrioUnknown v \<Rightarrow> v)"

fun timestamp_members :: "event_timestamp \<Rightarrow> (tag \<times> tlv_value) list" where
  "timestamp_members (Epoch n) = [(Context 3, VUint n)]"
| "timestamp_members (System n) = [(Context 4, VUint n)]"
| "timestamp_members (DeltaEpoch n) = [(Context 5, VUint n)]"
| "timestamp_members (DeltaSystem n) = [(Context 6, VUint n)]"
| "timestamp_members NoTimestamp = []"

definition event_data_value :: "event_report_item \<Rightarrow> tlv_value" where
  "event_data_value i = VStructure ([(Context 0, event_path_value (eri_path i)), (Context 1, VUint (eri_event_number i)),
     (Context 2, VUint (ucast (priority_to_u8 (eri_priority i))))] @ timestamp_members (eri_timestamp i) @
     [(Context 7, eri_value i)])"

definition event_item_ok :: "nat \<Rightarrow> event_report_item \<Rightarrow> bool" where
  "event_item_ok d i \<longleftrightarrow> readable d (eri_value i) \<and> priority_from_u8 (priority_to_u8 (eri_priority i)) = eri_priority i"

lemma takes_event_data:
  assumes d: "Suc d \<le> MAX_DEPTH"
  shows "takes event_data_step d (Context 0) (event_path_value p) (a, b, c, t, x) (p, b, c, t, x)"
    "takes event_data_step d (Context 1) (VUint n) (a, b, c, t, x) (a, n, c, t, x)"
    "takes event_data_step d (Context 2) (VUint (ucast q)) (a, b, c, t, x) (a, b, priority_from_u8 q, t, x)"
    "readable d v \<Longrightarrow> takes event_data_step d (Context 7) v (a, b, c, t, x) (a, b, c, t, Some v)"
    "takes_all event_data_step d (timestamp_members ts) (a, b, c, NoTimestamp, x) (a, b, c, ts, x)"
proof -
  note step = event_data_step_def arms
  show "takes event_data_step d (Context 0) (event_path_value p) (a, b, c, t, x) (p, b, c, t, x)"
    using d by (intro takes_parsed [OF _ _ runs_event_path, where k = KList and g = "\<lambda>p. (p, b, c, t, x)"])
      (simp_all add: step readable_def)
  show "takes event_data_step d (Context 1) (VUint n) (a, b, c, t, x) (a, n, c, t, x)"
    "takes event_data_step d (Context 2) (VUint (ucast q)) (a, b, c, t, x) (a, b, priority_from_u8 q, t, x)"
    using d by (intro takes_scalar readable_plain; simp add: step)+
  show "takes event_data_step d (Context 7) v (a, b, c, t, x) (a, b, c, t, Some v)" if "readable d v"
    using that by (intro takes_value [where g = "\<lambda>v. (a, b, c, t, Some v)"]) (simp_all add: step)
  show "takes_all event_data_step d (timestamp_members ts) (a, b, c, NoTimestamp, x) (a, b, c, ts, x)"
    using d by (cases ts) (auto intro!: takes_scalar readable_plain simp: step)
qed

lemma event_data_value_readable:
  "event_item_ok (Suc d) i \<Longrightarrow> Suc (Suc d) \<le> MAX_DEPTH \<Longrightarrow>
   readable d (event_data_value i) \<and> kind_of_value (event_data_value i) = Some KStructure"
  by (subst readable_container; cases "eri_timestamp i")
    (auto simp: event_data_value_def event_item_ok_def readable_def)

lemma runs_event_data:
  assumes "event_item_ok (Suc d) i" and d: "Suc (Suc d) \<le> MAX_DEPTH"
  shows "runs (at_open (Suc d) (enc_members (children (event_data_value i)) @ ET_END_OF_CONTAINER # ys))
    parse_event_data i (at d ys)"
proof -
  have v: "readable (Suc d) (eri_value i)" "priority_from_u8 (priority_to_u8 (eri_priority i)) = eri_priority i"
    using assms(1) by (simp_all add: event_item_ok_def)
  have "takes_all event_data_step (Suc d) (children (event_data_value i)) (event_path_default, 0, PrioUnknown 0xFF, NoTimestamp, None)
      (eri_path i, eri_event_number i, priority_from_u8 (priority_to_u8 (eri_priority i)), eri_timestamp i, Some (eri_value i))"
    unfolding event_data_value_def children.simps append.simps
    by (rule takes_all_Cons takes_all_join takes_event_data [OF d] v(1) takes_all_Nil)+
  from runs_scan_container [OF keeps_event_data(1) this, of _ ys unclosed]
  have "runs (at (Suc d) (enc_members (children (event_data_value i)) @ ET_END_OF_CONTAINER # ys))
      (scan unclosed event_data_step (event_path_default, 0, PrioUnknown 0xFF, NoTimestamp, None))
      (eri_path i, eri_event_number i, eri_priority i, eri_timestamp i, Some (eri_value i)) (at d ys)"
    by (simp add: event_data_step_def v(2))
  then show ?thesis
    unfolding parse_event_data_def by (intro runs_opened) (rule runs_andthen, assumption, simp add: runs_ok)
qed

fun event_report_value :: "event_report \<Rightarrow> tlv_value" where
  "event_report_value (EventData i) = VStructure [(Context 1, event_data_value i)]"
| "event_report_value (EventStatus p s) = VStructure [(Context 0, VStructure
     [(Context 0, event_path_value p), (Context 1, VStructure [(Context 0, VUint (ucast s))])])]"

fun event_report_ok :: "nat \<Rightarrow> event_report \<Rightarrow> bool" where
  "event_report_ok d (EventData i) \<longleftrightarrow> event_item_ok d i"
| "event_report_ok d (EventStatus p s) \<longleftrightarrow> Suc d \<le> MAX_DEPTH"

lemma runs_event_status:
  assumes d: "Suc (Suc d) \<le> MAX_DEPTH"
  shows "runs (at_open (Suc d) (enc_members [(Context 0, event_path_value p), (Context 1, VStructure [(Context 0, VUint (ucast s))])] @
      ET_END_OF_CONTAINER # ys)) parse_event_status (EventStatus p s) (at d ys)"
proof -
  let ?st = "VStructure [(Context 0, VUint (ucast s))]"
  have st: "kind_of_value ?st = Some KStructure" "readable (Suc d) ?st" using d by (simp_all add: readable_def)
  have "takes_all event_status_body_step (Suc (Suc d)) (children ?st) 0 s"
    using d by (auto simp: event_status_body_step_def arms intro!: takes_scalar readable_plain)
  from runs_scan_container [OF keeps_event_status(1) this, of _ _ unclosed]
  have "runs (at_open (Suc (Suc d)) (enc_members (children ?st) @ ET_END_OF_CONTAINER # zs))
      (scan unclosed event_status_body_step 0) s (at (Suc d) zs)" for zs
    by (intro runs_opened) (simp add: event_status_body_step_def)
  then have "takes event_status_step (Suc d) (Context 1) ?st (p, 0) (p, s)"
    by (rule takes_parsed [OF st, where g = "\<lambda>s. (p, s)"]) (simp_all add: event_status_step_def arms)
  moreover have "takes event_status_step (Suc d) (Context 0) (event_path_value p) (event_path_default, 0) (p, 0)"
    using d by (intro takes_parsed [OF _ _ runs_event_path, where k = KList and g = "\<lambda>p. (p, 0)"])
      (simp_all add: event_status_step_def arms readable_def)
  ultimately have "takes_all event_status_step (Suc d) [(Context 0, event_path_value p), (Context 1, ?st)] (event_path_default, 0) (p, s)"
    by (metis takes_all_Cons takes_all_Nil)
  from runs_scan_container [OF keeps_event_status(2) this, of _ ys unclosed]
  have "runs (at (Suc d) (enc_members [(Context 0, event_path_value p), (Context 1, ?st)] @ ET_END_OF_CONTAINER # ys))
      (scan unclosed event_status_step (event_path_default, 0)) (p, s) (at d ys)"
    by (simp add: event_status_step_def del: enc_members.simps)
  then show ?thesis
    unfolding parse_event_status_def by (intro runs_opened) (rule runs_andthen, assumption, simp add: runs_ok)
qed

lemma event_report_value_readable:
  assumes "event_report_ok (Suc (Suc d)) rep" "Suc (Suc (Suc d)) \<le> MAX_DEPTH"
  shows "readable d (event_report_value rep)" "kind_of_value (event_report_value rep) = Some KStructure"
proof -
  show k: "kind_of_value (event_report_value rep) = Some KStructure" by (cases rep) simp_all
  show "readable d (event_report_value rep)"
    using assms event_data_value_readable [of "Suc d"] k
    by (subst readable_container) (simp, cases rep, auto simp: readable_def)
qed

lemma takes_event_report:
  assumes "event_report_ok (Suc (Suc d)) rep" "Suc (Suc (Suc d)) \<le> MAX_DEPTH"
  shows "takes_all event_report_step (Suc d) (children (event_report_value rep)) None (Some rep)"
proof (cases rep)
  case (EventData i)
  with assms have i: "event_item_ok (Suc (Suc d)) i" by simp
  show ?thesis
    using event_data_value_readable [OF i assms(2)] unfolding EventData event_report_value.simps children.simps
    by (intro takes_all_one takes_parsed [OF _ _ runs_event_data [OF i assms(2)], where k = KStructure and g = "\<lambda>d. Some (EventData d)"])
      (simp_all add: event_report_step_def arms)
next
  case (EventStatus p s)
  let ?v = "VStructure [(Context 0, event_path_value p), (Context 1, VStructure [(Context 0, VUint (ucast s))])]"
  have r: "runs (at_open (Suc (Suc d)) (enc_members (children ?v) @ ET_END_OF_CONTAINER # ys)) parse_event_status rep (at (Suc d) ys)" for ys
    using runs_event_status [OF assms(2)] by (simp add: EventStatus)
  have v: "kind_of_value ?v = Some KStructure" "readable (Suc d) ?v" using assms(2) by (simp_all add: readable_def)
  have "takes event_report_step (Suc d) (Context 0) ?v None (Some rep)"
    by (rule takes_parsed [OF v r, where g = Some]) (simp_all add: event_report_step_def arms)
  then show ?thesis
    unfolding EventStatus event_report_value.simps children.simps by (rule takes_all_one)
qed

lemma takes_all_event_reports:
  assumes "\<forall>rep\<in>set reps. event_report_ok (Suc (Suc d)) rep" "Suc (Suc (Suc d)) \<le> MAX_DEPTH"
  shows "takes_all event_reports_step d (map (Pair Anonymous) (map event_report_value reps)) out (out @ reps)"
  using assms(1)
proof (induction reps arbitrary: out)
  case (Cons rep reps)
  then have ok: "event_report_ok (Suc (Suc d)) rep" by simp
  from runs_scan_container [OF keeps_event_reports(1) takes_event_report [OF this assms(2)], of _ _ unclosed]
  have "runs (at_open (Suc d) (enc_members (children (event_report_value rep)) @ ET_END_OF_CONTAINER # ys))
      parse_event_report_ib (Some rep) (at d ys)" for ys
    unfolding parse_event_report_ib_def by (intro runs_opened) (simp add: event_report_step_def)
  then have "takes event_reports_step d Anonymous (event_report_value rep) out (out @ [rep])"
    by (rule takes_parsed [OF event_report_value_readable(2,1) [OF ok assms(2)],
        where g = "\<lambda>rep. case rep of Some x \<Rightarrow> out @ [x] | None \<Rightarrow> out"])
      (simp_all add: event_reports_step_def arms)
  from takes_all_Cons [OF this Cons.IH] Cons.prems show ?case by simp
qed simp

section \<open>Attribute reports\<close>

definition attribute_data_value :: "attribute_report_item \<Rightarrow> tlv_value" where
  "attribute_data_value i = VStructure (opt_member 0 (\<lambda>x. VUint (ucast x)) (ari_data_version i) @
     [(Context 1, attribute_path_value (ari_path i) (ari_op i = Append)), (Context 2, ari_value i)])"

fun report_ib_value :: "report_ib \<Rightarrow> tlv_value" where
  "report_ib_value (IbData i) = VStructure [(Context 1, attribute_data_value i)]"
| "report_ib_value (IbStatus p s) = VStructure [(Context 0, attribute_status_value (p, s))]"
| "report_ib_value IbEmpty = VStructure []"

fun report_ib_ok :: "nat \<Rightarrow> report_ib \<Rightarrow> bool" where
  "report_ib_ok d (IbData i) \<longleftrightarrow> readable d (ari_value i)"
| "report_ib_ok d (IbStatus p s) \<longleftrightarrow> s \<noteq> Failure 0"
| "report_ib_ok d IbEmpty \<longleftrightarrow> True"

lemma takes_attribute_data:
  assumes d: "Suc d \<le> MAX_DEPTH"
  shows "takes attribute_data_step d (Context 0) (VUint (ucast n)) (p, v, ver, app) (p, v, Some n, app)"
    "takes attribute_data_step d (Context 1) (attribute_path_value q l) (p, v, ver, app) (Some q, v, ver, l)"
    "readable d x \<Longrightarrow> takes attribute_data_step d (Context 2) x (p, v, ver, app) (p, Some x, ver, app)"
proof -
  note step = attribute_data_step_def arms
  show "takes attribute_data_step d (Context 0) (VUint (ucast n)) (p, v, ver, app) (p, v, Some n, app)"
    using d by (auto simp: step intro!: takes_scalar readable_plain)
  show "takes attribute_data_step d (Context 1) (attribute_path_value q l) (p, v, ver, app) (Some q, v, ver, l)"
    using d by (intro takes_parsed [OF _ _ runs_attribute_path, where k = KList and g = "\<lambda>(q, l). (Some q, v, ver, l)"])
      (simp_all add: step readable_def split_def)
  show "takes attribute_data_step d (Context 2) x (p, v, ver, app) (p, Some x, ver, app)" if "readable d x"
    using that by (intro takes_value [where g = "\<lambda>x. (p, Some x, ver, app)"]) (simp_all add: step)
qed

lemma attribute_data_value_readable:
  assumes "readable (Suc d) (ari_value i)" "Suc (Suc d) \<le> MAX_DEPTH"
  shows "readable d (attribute_data_value i)" "kind_of_value (attribute_data_value i) = Some KStructure"
proof -
  show k: "kind_of_value (attribute_data_value i) = Some KStructure" by (simp add: attribute_data_value_def)
  show "readable d (attribute_data_value i)"
    using assms k
    by (subst readable_container) (simp, cases "ari_data_version i", auto simp: attribute_data_value_def opt_member_def readable_def)
qed

lemma runs_attribute_data:
  assumes "readable (Suc d) (ari_value i)" and d: "Suc (Suc d) \<le> MAX_DEPTH"
  shows "runs (at_open (Suc d) (enc_members (children (attribute_data_value i)) @ ET_END_OF_CONTAINER # ys))
    (parse_attribute_data (None, None, None, False))
    (Some (ari_path i), Some (ari_value i), ari_data_version i, ari_op i = Append) (at d ys)"
proof -
  have "takes_all attribute_data_step (Suc d) (opt_member 0 (\<lambda>x. VUint (ucast x)) (ari_data_version i))
      (None, None, None, False) (None, None, ari_data_version i, False)"
    by (rule takes_all_opt) (auto intro!: takes_attribute_data d)
  moreover have "takes_all attribute_data_step (Suc d)
      [(Context 1, attribute_path_value (ari_path i) (ari_op i = Append)), (Context 2, ari_value i)]
      (None, None, ari_data_version i, False) (Some (ari_path i), Some (ari_value i), ari_data_version i, ari_op i = Append)"
    by (rule takes_all_Cons takes_attribute_data [OF d] assms(1) takes_all_Nil)+
  ultimately have "takes_all attribute_data_step (Suc d) (children (attribute_data_value i))
      (None, None, None, False) (Some (ari_path i), Some (ari_value i), ari_data_version i, ari_op i = Append)"
    unfolding attribute_data_value_def children.simps by (rule takes_all_join)
  from runs_scan_container [OF keeps_attribute_data(1) this, of _ ys unclosed]
  show ?thesis unfolding parse_attribute_data_def by (intro runs_opened) (simp add: attribute_data_step_def)
qed

fun ib_parts :: "report_ib \<Rightarrow> data_parts \<times> (attribute_path \<times> im_status) option" where
  "ib_parts (IbData i) = ((Some (ari_path i), Some (ari_value i), ari_data_version i, ari_op i = Append), None)"
| "ib_parts (IbStatus p s) = ((None, None, None, False), Some (p, s))"
| "ib_parts IbEmpty = ((None, None, None, False), None)"

lemma takes_report_ib:
  assumes "report_ib_ok (Suc (Suc d)) ib" "Suc (Suc (Suc d)) \<le> MAX_DEPTH"
  shows "takes_all report_ib_step (Suc d) (children (report_ib_value ib)) ((None, None, None, False), None) (ib_parts ib)"
proof (cases ib)
  case (IbData i)
  with assms have i: "readable (Suc (Suc d)) (ari_value i)" by simp
  show ?thesis
    unfolding IbData report_ib_value.simps children.simps ib_parts.simps
    by (intro takes_all_one takes_parsed [OF attribute_data_value_readable(2,1) [OF i assms(2)] runs_attribute_data [OF i assms(2)],
        where g = "\<lambda>parts. (parts, None)"])
      (simp_all add: report_ib_step_def arms)
next
  case (IbStatus p s)
  then have s: "known_status (p, s) = (p, s)" using assms(1) by (simp add: known_status_def status_code_roundtrip)
  have r: "readable (Suc d) (attribute_status_value (p, s))" using assms(2) by (simp add: readable_def)
  show ?thesis
    unfolding IbStatus report_ib_value.simps children.simps ib_parts.simps
    by (intro takes_all_one takes_parsed [OF attribute_status_value_container(1) r runs_attribute_status [OF assms(2)],
        where g = "\<lambda>s. ((None, None, None, False), Some s)"])
      (simp_all add: report_ib_step_def arms s)
qed simp

lemma runs_report_ib:
  assumes "report_ib_ok (Suc (Suc d)) ib" "Suc (Suc (Suc d)) \<le> MAX_DEPTH"
  shows "runs (at_open (Suc d) (enc_members (children (report_ib_value ib)) @ ET_END_OF_CONTAINER # ys))
    parse_attribute_report_ib ib (at d ys)"
proof -
  from runs_scan_container [OF keeps_report_ib(1) takes_report_ib [OF assms], of _ ys unclosed]
  have "runs (at (Suc d) (enc_members (children (report_ib_value ib)) @ ET_END_OF_CONTAINER # ys))
      (scan unclosed report_ib_step ((None, None, None, False), None)) (ib_parts ib) (at d ys)"
    by (simp add: report_ib_step_def split_def)
  moreover have "(if b then Append else Replace) = q \<longleftrightarrow> b = (q = Append)" for b q by (cases q) auto
  ultimately show ?thesis
    unfolding parse_attribute_report_ib_def
    by (intro runs_opened) (rule runs_andthen, assumption, cases ib, auto simp: runs_ok)
qed

definition ib_items :: "report_ib list \<Rightarrow> attribute_report_item list" where
  "ib_items ibs = concat (map (\<lambda>ib. case ib of IbData i \<Rightarrow> [i] | _ \<Rightarrow> []) ibs)"

definition ib_statuses :: "report_ib list \<Rightarrow> (attribute_path \<times> im_status) list" where
  "ib_statuses ibs = concat (map (\<lambda>ib. case ib of IbStatus p s \<Rightarrow> [(p, s)] | _ \<Rightarrow> []) ibs)"

lemma report_ib_value_readable:
  assumes "report_ib_ok (Suc (Suc d)) ib" "Suc (Suc (Suc d)) \<le> MAX_DEPTH"
  shows "readable d (report_ib_value ib)" "kind_of_value (report_ib_value ib) = Some KStructure"
proof -
  show k: "kind_of_value (report_ib_value ib) = Some KStructure" by (cases ib) simp_all
  show "readable d (report_ib_value ib)"
    using assms attribute_data_value_readable(1) [of "Suc d"] k
    by (subst readable_container) (simp, cases ib, auto simp: readable_def)
qed

lemma takes_all_attribute_reports:
  assumes "\<forall>ib\<in>set ibs. report_ib_ok (Suc (Suc d)) ib" "Suc (Suc (Suc d)) \<le> MAX_DEPTH"
  shows "takes_all attribute_reports_step d (map (Pair Anonymous) (map report_ib_value ibs)) (items, statuses)
    (items @ ib_items ibs, statuses @ ib_statuses ibs)"
  using assms(1)
proof (induction ibs arbitrary: items statuses)
  case (Cons ib ibs)
  then have ok: "report_ib_ok (Suc (Suc d)) ib" by simp
  have "takes attribute_reports_step d Anonymous (report_ib_value ib) (items, statuses)
      (items @ ib_items [ib], statuses @ ib_statuses [ib])"
    by (rule takes_parsed [OF report_ib_value_readable(2,1) [OF ok assms(2)] runs_report_ib [OF ok assms(2)],
        where g = "\<lambda>ib. case ib of IbData item \<Rightarrow> (items @ [item], statuses)
          | IbStatus path status \<Rightarrow> (items, statuses @ [(path, status)]) | IbEmpty \<Rightarrow> (items, statuses)"])
      (simp_all add: attribute_reports_step_def arms ib_items_def ib_statuses_def split: report_ib.split)
  from takes_all_Cons [OF this Cons.IH] Cons.prems show ?case by (simp add: ib_items_def ib_statuses_def)
qed (simp add: ib_items_def ib_statuses_def)

section \<open>Whole reports\<close>

definition report_value :: "u32 option \<Rightarrow> report_ib list \<Rightarrow> event_report list \<Rightarrow> bool \<Rightarrow> bool \<Rightarrow> tlv_value" where
  "report_value sid ibs evs chunked suppress = VStructure (opt_member 0 (\<lambda>x. VUint (ucast x)) sid @
     [(Context 1, VArray (map report_ib_value ibs)), (Context 2, VArray (map event_report_value evs)),
      (Context 3, VBool chunked), (Context 4, VBool suppress), (Context 0xFF, VUint (ucast IM_REVISION))])"

lemma takes_report_arrays:
  assumes "\<forall>ib\<in>set ibs. report_ib_ok 4 ib" "\<forall>ev\<in>set evs. event_report_ok 4 ev"
  shows "takes report_step 1 (Context 1) (VArray (map report_ib_value ibs)) rep
      (rep\<lparr>rep_items := rep_items rep @ ib_items ibs, rep_statuses := rep_statuses rep @ ib_statuses ibs\<rparr>)"
    "takes report_step 1 (Context 2) (VArray (map event_report_value evs)) rep (rep\<lparr>rep_events := rep_events rep @ evs\<rparr>)"
proof -
  have ok: "\<forall>ib\<in>set ibs. report_ib_ok (Suc (Suc 2)) ib" "\<forall>ev\<in>set evs. event_report_ok (Suc (Suc 2)) ev" "Suc (Suc (Suc 2)) \<le> MAX_DEPTH"
    using assms by (simp_all add: MAX_DEPTH_def numeral_eq_Suc)
  have r: "readable 1 (VArray (map report_ib_value ibs))" "readable 1 (VArray (map event_report_value evs))"
    using ok report_ib_value_readable(1) [of 2] event_report_value_readable(1) [of 2]
    by (subst readable_container; auto simp: MAX_DEPTH_def numeral_2_eq_2)+
  let ?A = "children (VArray (map report_ib_value ibs))" and ?E = "children (VArray (map event_report_value evs))"
  have "takes_all attribute_reports_step (Suc 1) ?A (rep_items rep, rep_statuses rep)
      (rep_items rep @ ib_items ibs, rep_statuses rep @ ib_statuses ibs)"
      "takes_all event_reports_step (Suc 1) ?E (rep_events rep) (rep_events rep @ evs)"
    using takes_all_attribute_reports [OF ok(1,3)] takes_all_event_reports [OF ok(2,3)] by (simp_all add: numeral_2_eq_2)
  note runs_scan_container [OF keeps_report_step(1) this(1), of _ _ unclosed]
    runs_scan_container [OF keeps_event_reports(2) this(2), of _ _ unclosed]
  then have a: "runs (at_open (Suc 1) (enc_members ?A @ ET_END_OF_CONTAINER # ys)) (parse_attribute_reports (rep_items rep, rep_statuses rep))
      (rep_items rep @ ib_items ibs, rep_statuses rep @ ib_statuses ibs) (at 1 ys)"
    and e: "runs (at_open (Suc 1) (enc_members ?E @ ET_END_OF_CONTAINER # ys)) (parse_event_reports (rep_events rep)) (rep_events rep @ evs) (at 1 ys)" for ys
    unfolding parse_attribute_reports_def parse_event_reports_def
    by (simp_all add: runs_opened attribute_reports_step_def event_reports_step_def)
  show "takes report_step 1 (Context 1) (VArray (map report_ib_value ibs)) rep
      (rep\<lparr>rep_items := rep_items rep @ ib_items ibs, rep_statuses := rep_statuses rep @ ib_statuses ibs\<rparr>)"
    by (rule takes_parsed [OF _ r(1) a, where k = KArray and g = "\<lambda>(items, statuses). rep\<lparr>rep_items := items, rep_statuses := statuses\<rparr>"])
      (simp_all add: report_step_def arms split_def)
  show "takes report_step 1 (Context 2) (VArray (map event_report_value evs)) rep (rep\<lparr>rep_events := rep_events rep @ evs\<rparr>)"
    by (rule takes_parsed [OF _ r(2) e, where k = KArray and g = "\<lambda>evs. rep\<lparr>rep_events := evs\<rparr>"])
      (simp_all add: report_step_def arms)
qed

lemma takes_report_flags:
  "takes report_step 1 (Context 0) (VUint (ucast n)) rep (rep\<lparr>rep_subscription_id := Some n\<rparr>)"
  "takes report_step 1 (Context 3) (VBool b) rep (rep\<lparr>rep_more_chunked_messages := b\<rparr>)"
  "takes report_step 1 (Context 4) (VBool b) rep (rep\<lparr>rep_suppress_response := b\<rparr>)"
  "takes report_step 1 (Context 255) (VUint x) rep rep"
  by (auto simp: report_step_def arms MAX_DEPTH_def intro!: takes_scalar takes_otherwise readable_plain)

lemma report_value_readable:
  assumes "\<forall>ib\<in>set ibs. report_ib_ok 4 ib" "\<forall>ev\<in>set evs. event_report_ok 4 ev"
  shows "readable 0 (report_value sid ibs evs chunked suppress)"
  using takes_report_arrays [OF assms] unfolding report_value_def
  by (subst readable_container) (auto simp: takes_def opt_member_def readable_plain MAX_DEPTH_def split: option.splits)

lemma parse_report_tree:
  assumes "\<forall>ib\<in>set ibs. report_ib_ok 4 ib" "\<forall>ev\<in>set evs. event_report_ok 4 ev"
    and "length (enc Anonymous (report_value sid ibs evs chunked suppress)) < 2 ^ 64"
  shows "parse_report_data (enc Anonymous (report_value sid ibs evs chunked suppress)) =
    Inr \<lparr>rep_items = ib_items ibs, rep_subscription_id = sid, rep_more_chunked_messages = chunked,
      rep_suppress_response = suppress, rep_events = evs, rep_statuses = ib_statuses ibs\<rparr>"
proof -
  let ?new = "report_data_new [] None False False"
  let ?rep = "\<lparr>rep_items = ib_items ibs, rep_subscription_id = sid, rep_more_chunked_messages = chunked,
      rep_suppress_response = suppress, rep_events = evs, rep_statuses = ib_statuses ibs\<rparr>"
  let ?ms = "children (report_value sid ibs evs chunked suppress)"
  have "takes_all report_step 1 (opt_member 0 (\<lambda>x. VUint (ucast x)) sid) ?new (?new\<lparr>rep_subscription_id := sid\<rparr>)"
    by (rule takes_all_opt) (use takes_report_flags(1) [of _ ?new] in \<open>auto simp: report_data_new_def\<close>)
  moreover have "takes_all report_step 1 [(Context 1, VArray (map report_ib_value ibs)), (Context 2, VArray (map event_report_value evs)),
      (Context 3, VBool chunked), (Context 4, VBool suppress), (Context 0xFF, VUint (ucast IM_REVISION))] (?new\<lparr>rep_subscription_id := sid\<rparr>) ?rep"
  proof -
    let ?r0 = "?new\<lparr>rep_subscription_id := sid\<rparr>"
    let ?r1 = "?r0\<lparr>rep_items := rep_items ?r0 @ ib_items ibs, rep_statuses := rep_statuses ?r0 @ ib_statuses ibs\<rparr>"
    let ?r2 = "?r1\<lparr>rep_events := rep_events ?r1 @ evs\<rparr>"
    let ?r4 = "?r2\<lparr>rep_more_chunked_messages := chunked\<rparr>\<lparr>rep_suppress_response := suppress\<rparr>"
    have "takes_all report_step 1 [(Context 1, VArray (map report_ib_value ibs)), (Context 2, VArray (map event_report_value evs)),
        (Context 3, VBool chunked), (Context 4, VBool suppress), (Context 0xFF, VUint (ucast IM_REVISION))] ?r0 ?r4"
      by (rule takes_all_Cons takes_report_arrays [OF assms(1,2)] takes_report_flags takes_all_Nil)+
    moreover have "?r4 = ?rep" by (simp add: report_data_new_def)
    ultimately show ?thesis by simp
  qed
  ultimately have "takes_all report_step (Suc 0) ?ms ?new ?rep"
    unfolding report_value_def children.simps One_nat_def by (rule takes_all_join)
  from runs_scan_container [OF keeps_report_step(2) this, of _ "[]" unclosed]
  have "runs (at 1 (enc_members ?ms @ [ET_END_OF_CONTAINER])) (scan unclosed report_step ?new) ?rep (at 0 [])"
    by (simp add: report_step_def del: enc_members.simps children.simps)
  with assms(3) report_value_readable [OF assms(1,2)] show ?thesis
    unfolding parse_report_data_def report_value_def
    by (intro parse_message [OF _ _ _ closes_0]) auto
qed

text \<open>
  A report is parsed into exactly what it carries: the attribute data in order, each with its
  path, its data version, its value and whether it replaces or appends; the statuses of the
  paths that failed; the events; the subscription id and the two flags.
\<close>

theorem report_parsed:
  assumes "\<forall>ib\<in>set ibs. report_ib_ok 4 ib" "\<forall>ev\<in>set evs. event_report_ok 4 ev"
    and "length (enc Anonymous (report_value sid ibs evs chunked suppress)) < 2 ^ 64"
  shows "parse_report_data (enc Anonymous (report_value sid ibs evs chunked suppress)) =
    Inr \<lparr>rep_items = ib_items ibs, rep_subscription_id = sid, rep_more_chunked_messages = chunked,
      rep_suppress_response = suppress, rep_events = evs, rep_statuses = ib_statuses ibs\<rparr>"
  using assms by (rule parse_report_tree)

theorem report_parsed_witness:
  "parse_report_data (enc Anonymous (report_value (Some 7)
     [IbData \<lparr>ari_path = \<lparr>ap_endpoint = 1, ap_cluster = 6, ap_attribute = 0\<rparr>, ari_op = Replace,
        ari_value = VBool True, ari_data_version = Some 3\<rparr>,
      IbStatus \<lparr>ap_endpoint = 2, ap_cluster = 6, ap_attribute = 0\<rparr> (Failure 0x7F)]
     [EventStatus event_path_default 0x87] True False)) =
   Inr \<lparr>rep_items = [\<lparr>ari_path = \<lparr>ap_endpoint = 1, ap_cluster = 6, ap_attribute = 0\<rparr>, ari_op = Replace,
        ari_value = VBool True, ari_data_version = Some 3\<rparr>],
     rep_subscription_id = Some 7, rep_more_chunked_messages = True, rep_suppress_response = False,
     rep_events = [EventStatus event_path_default 0x87],
     rep_statuses = [(\<lparr>ap_endpoint = 2, ap_cluster = 6, ap_attribute = 0\<rparr>, Failure 0x7F)]\<rparr>"
  by (subst report_parsed)
    (simp_all add: ib_items_def ib_statuses_def readable_def MAX_DEPTH_def report_value_def attribute_data_value_def
      attribute_path_value_def attribute_status_value_def status_value_def event_path_value_def event_path_default_def
      opt_member_def enc_def encode_tag_def uint_body_def)

section \<open>Status responses and subscriptions\<close>

lemma parse_scan_message:
  assumes "\<And>e acc. keeps forward (body e acc)" "takes_all body 1 ms acc acc'" "body ContainerEnd acc' = ok (Done acc')"
    and "readable 0 (VStructure ms)" "length (enc Anonymous (VStructure ms)) < 2 ^ 64"
    and "k acc' = andthen finish_im (\<lambda>_. ok z)"
  shows "parse_with (andthen (scan unclosed body acc) k) (enc Anonymous (VStructure ms)) = Inr z"
  using runs_scan_container [OF assms(1) assms(2) [unfolded One_nat_def], of _ "[]" unclosed] assms(3-6)
  by (intro parse_message [OF _ _ _ closes_0]) (simp_all del: enc_members.simps)

lemma build_status_response_tree:
  "build_status_response s = Some (enc Anonymous (VStructure [(Context 0, VUint (ucast s)), (Context 0xFF, VUint (ucast IM_REVISION))]))"
  by (simp add: build_status_response_def written_def writer_eqs enc_containers enc_simps del: enc_members.simps(2))

text \<open>
  The status response one side builds is the status the other side reads, and a message that is
  not one, such as the answer to a write, is told from it.
\<close>

theorem status_response_roundtrip:
  "(\<exists>msg. build_status_response s = Some msg \<and> parse_status_response msg = Inr (Some s)) \<and>
   parse_status_response (enc Anonymous (write_response_value [(p, st)])) = Inr None"
proof
  let ?ms = "[(Context 0, VUint (ucast s)), (Context 0xFF, VUint (ucast IM_REVISION))]"
  have "runs (at 1 revision_end) (status_response_step (Scalar (Context 0) (VUint (ucast s))) ()) (Done (Some s)) (at 0 [])"
    using runs_finish [OF closes_revision_end]
    by (auto simp: status_response_step_def arms intro: runs_andthen runs_ok)
  then have "runs (at 1 (enc (Context 0) (VUint (ucast s)) @ revision_end)) (scan unclosed status_response_step ()) (Some s) (at 0 [])"
    by (intro runs_scan_exit_scalar [OF keeps_status_response_step]) (simp_all add: readable_def MAX_DEPTH_def)
  then have run: "runs (at 1 (enc_members ?ms @ [ET_END_OF_CONTAINER])) (scan unclosed status_response_step ()) (Some s) (at 0 [])"
    by (simp add: enc_simps del: enc_members.simps(2))
  have "parse_status_response (enc Anonymous (VStructure ?ms)) = Inr (Some s)"
    unfolding parse_status_response_def
    by (rule parse_with_runs [OF _ _ run])
      (use length_enc_uint [of 0 "ucast s"] length_enc_uint [of 255 "ucast IM_REVISION"] in
        \<open>simp_all add: readable_def MAX_DEPTH_def enc_containers enc_simps encode_tag_def del: enc_members.simps(2)\<close>)
  then show "\<exists>msg. build_status_response s = Some msg \<and> parse_status_response msg = Inr (Some s)"
    by (simp add: build_status_response_tree)
  let ?a = "VArray [attribute_status_value (p, st)]"
  have "closes (Suc (Suc 0)) (enc_members (children ?a) @ ET_END_OF_CONTAINER # revision_end)"
    by (rule closes_Suc [OF closes_revision_end]) (auto simp: readable_def MAX_DEPTH_def)
  from runs_opened [OF runs_finish [OF this]]
  have "runs (at_open (Suc (Suc 0)) (enc_members (children ?a) @ ET_END_OF_CONTAINER # revision_end))
      (status_response_step (ContainerStart (Context 0) KArray) ()) (Done None) (at 0 [])"
    by (auto simp: status_response_step_def arms intro: runs_andthen runs_ok)
  then have "runs (at (Suc 0) (enc (Context 0) ?a @ revision_end)) (scan unclosed status_response_step ()) None (at 0 [])"
    by (intro runs_scan_exit [OF keeps_status_response_step, where k = KArray]) (simp_all add: readable_def MAX_DEPTH_def)
  then have run: "runs (at 1 (enc_members [(Context 0, ?a), (Context 0xFF, VUint (ucast IM_REVISION))] @ [ET_END_OF_CONTAINER]))
      (scan unclosed status_response_step ()) None (at 0 [])"
    by (simp add: enc_simps del: enc_members.simps(2))
  show "parse_status_response (enc Anonymous (write_response_value [(p, st)])) = Inr None"
    unfolding parse_status_response_def write_response_value_def list.map
    by (rule parse_with_runs [OF _ _ run])
      (use length_enc_uint [of 2 "ucast (ap_endpoint p)"] length_enc_uint [of 3 "ucast (ap_cluster p)"]
          length_enc_uint [of 4 "ucast (ap_attribute p)"] length_enc_uint [of 0 "ucast (status_to_u8 st)"]
          length_enc_uint [of 255 "ucast IM_REVISION"] in
        \<open>simp_all add: readable_def MAX_DEPTH_def attribute_status_value_def attribute_path_value_def status_value_def
          enc_containers enc_simps encode_tag_def del: enc_members.simps(2) enc_elements.simps(2)\<close>)
qed

definition subscribe_response_value :: "u32 \<Rightarrow> u16 \<Rightarrow> tlv_value" where
  "subscribe_response_value sid interval = VStructure [(Context 0, VUint (ucast sid)), (Context 2, VUint (ucast interval)),
     (Context 0xFF, VUint (ucast IM_REVISION))]"

lemma subscribe_response_parsed:
  "parse_subscribe_response (enc Anonymous (subscribe_response_value sid interval)) =
     Inr \<lparr>srs_subscription_id = sid, srs_max_interval = interval\<rparr>"
proof -
  have keeps: "keeps forward (subscribe_response_step e acc)" for e acc
    unfolding subscribe_response_step_def by (intro keeps_cases im_keeps)
  have "takes subscribe_response_step 1 (Context 0) (VUint (ucast sid)) (None, None) (Some sid, None)"
      "takes subscribe_response_step 1 (Context 2) (VUint (ucast interval)) (Some sid, None) (Some sid, Some interval)"
      "takes subscribe_response_step 1 (Context 0xFF) (VUint (ucast IM_REVISION)) (Some sid, Some interval) (Some sid, Some interval)"
    by (auto simp: subscribe_response_step_def arms MAX_DEPTH_def intro!: takes_scalar takes_otherwise readable_plain)
  then have all: "takes_all subscribe_response_step 1 [(Context 0, VUint (ucast sid)), (Context 2, VUint (ucast interval)),
     (Context 0xFF, VUint (ucast IM_REVISION))] (None, None) (Some sid, Some interval)"
    by - (rule takes_all_Cons takes_all_Nil | assumption)+
  have k: "andthen finish_im (\<lambda>_. andthen (need (MissingField ''SubscribeResponse.subscriptionId'') (Some sid)) (\<lambda>sid.
      andthen (need (MissingField ''SubscribeResponse.maxInterval'') (Some interval)) (\<lambda>mi.
        ok \<lparr>srs_subscription_id = sid, srs_max_interval = mi\<rparr>))) =
      andthen finish_im (\<lambda>_. ok \<lparr>srs_subscription_id = sid, srs_max_interval = interval\<rparr>)"
    unfolding need_Some andthen_ok ..
  show ?thesis
    unfolding parse_subscribe_response_def subscribe_response_value_def
    by (rule parse_scan_message [OF keeps all], unfold prod.case k)
      (use length_enc_uint [of 0 "ucast sid"] length_enc_uint [of 2 "ucast interval"] length_enc_uint [of 255 "ucast IM_REVISION"] in
        \<open>simp_all add: subscribe_response_step_def readable_def MAX_DEPTH_def enc_containers enc_simps encode_tag_def
          del: enc_members.simps(2)\<close>)
qed

section \<open>Requests\<close>

definition read_path_value :: "read_path \<Rightarrow> tlv_value" where
  "read_path_value p = VList (opt_member 2 (\<lambda>x. VUint (ucast x)) (rp_endpoint p) @
     opt_member 3 (\<lambda>x. VUint (ucast x)) (rp_cluster p) @ opt_member 4 (\<lambda>x. VUint (ucast x)) (rp_attribute p))"

definition event_filter_value :: "event_filter \<Rightarrow> tlv_value" where
  "event_filter_value f = VStructure (opt_member 0 VUint (ef_node f) @ [(Context 1, VUint (ef_event_min f))])"

definition array_member :: "u8 \<Rightarrow> tlv_value list \<Rightarrow> (tag \<times> tlv_value) list" where
  "array_member c vs = (if vs = [] then [] else [(Context c, VArray vs)])"

definition read_request_value :: "read_path list \<Rightarrow> event_path list \<Rightarrow> event_filter list \<Rightarrow> tlv_value" where
  "read_request_value ps es fs = VStructure (array_member 0 (map read_path_value ps) @ array_member 1 (map event_path_value es) @
     array_member 2 (map event_filter_value fs) @ [(Context 3, VBool False), (Context 0xFF, VUint (ucast IM_REVISION))])"

definition subscribe_request_value :: "subscribe_request \<Rightarrow> tlv_value" where
  "subscribe_request_value req = VStructure ([(Context 0, VBool (sr_keep_subscriptions req)),
     (Context 1, VUint (ucast (sr_min_interval_floor req))), (Context 2, VUint (ucast (sr_max_interval_ceiling req))),
     (Context 3, VArray (map read_path_value (sr_paths req)))] @ array_member 4 (map event_path_value (sr_event_paths req)) @
     array_member 5 (map event_filter_value (sr_event_filters req)) @
     [(Context 7, VBool False), (Context 0xFF, VUint (ucast IM_REVISION))])"

lemma sequence_if_some:
  assumes "\<And>y out. x = Some y \<Longrightarrow> f y out = (Inr (), out @ enc (Context c) (g y))"
  shows "sequence (if_some x f) out = (Inr (), out @ enc_members (opt_member c g x))"
  using assms by (cases x) (simp_all add: if_some_def opt_member_def andthen_def enc_simps del: enc_members.simps(2))

lemma sequence_uint_some:
  "sequence (if_some x (put_uint (Context c))) out = (Inr (), out @ enc_members (opt_member c VUint x))"
  "sequence (if_some y (\<lambda>n. put_uint (Context c) (ucast n))) out = (Inr (), out @ enc_members (opt_member c (\<lambda>n. VUint (ucast n)) y))"
  "sequence (if_some b (put_bool (Context c))) out = (Inr (), out @ enc_members (opt_member c VBool b))"
  by (rule sequence_if_some, simp add: put_eqs)+

lemmas path_writers = sequence_around [OF sequence_uint_some(1)] sequence_around [OF sequence_uint_some(2)]
  sequence_around [OF sequence_uint_some(3)] enc_members_append writer_eqs enc_containers

lemma write_paths_eq:
  "write_read_path p out = (Inr (), out @ enc Anonymous (read_path_value p))"
  "write_event_path q out = (Inr (), out @ enc Anonymous (event_path_value q))"
  "write_event_filter f out = (Inr (), out @ enc Anonymous (event_filter_value f))"
  by (simp_all add: write_read_path_def write_event_path_def write_event_filter_def read_path_value_def event_path_value_def
      event_filter_value_def path_writers enc_simps del: enc_members.simps(2))

lemma sequence_array:
  assumes "\<And>x out. f x out = (Inr (), out @ enc Anonymous (g x))"
  shows "sequence (start_array (Context c) # map f xs @ end_container # ws) out =
    sequence ws (out @ enc (Context c) (VArray (map g xs)))"
    "sequence (optional_array c f xs @ ws) out = sequence ws (out @ enc_members (array_member c (map g xs)))"
proof -
  show a: "sequence (start_array (Context c) # map f xs @ end_container # ws) out =
      sequence ws (out @ enc (Context c) (VArray (map g xs)))" for ws out
    by (simp add: sequence_around [OF sequence_elements [OF assms]] writer_eqs enc_containers)
  show "sequence (optional_array c f xs @ ws) out = sequence ws (out @ enc_members (array_member c (map g xs)))"
    using a [of ws out] by (simp add: optional_array_def array_member_def enc_simps del: sequence.simps(2) enc_members.simps(2))
qed

text \<open>
  Read and subscribe requests: the wildcard components of a path are left out, and so are
  the arrays that would be empty.
\<close>

lemma build_read_tree: "build_read_request_full ps es fs = Some (enc Anonymous (read_request_value ps es fs))"
  by (simp add: build_read_request_full_def read_request_value_def written_def sequence_array(2) [OF write_paths_eq(1)]
      sequence_array(2) [OF write_paths_eq(2)] sequence_array(2) [OF write_paths_eq(3)] writer_eqs enc_containers
      enc_members_append enc_simps del: enc_members.simps(2))

lemma build_subscribe_tree: "build_subscribe_request req = Some (enc Anonymous (subscribe_request_value req))"
  by (simp add: build_subscribe_request_def subscribe_request_value_def written_def
      sequence_array(2) [OF write_paths_eq(2)] sequence_array(2) [OF write_paths_eq(3)]
      sequence_around [OF sequence_elements [OF write_paths_eq(1)]] writer_eqs enc_containers
      enc_members_append enc_simps del: enc_members.simps(2))

end
