(* ===== verification/IM_Accumulator.thy ===== *)
theory IM_Accumulator
  imports IM_Reading
begin

text \<open>
  Reassembly of chunked reports, \<open>crates/matter-interaction/src/accumulator.rs\<close>. The hash table of
  slots is a map; \<open>usize\<close> has 64 bits and the running size saturates there.
\<close>

section \<open>The accumulator\<close>

definition DEFAULT_MAX_ELEMENTS :: nat where "DEFAULT_MAX_ELEMENTS = 100000"

definition DEFAULT_MAX_BYTES :: nat where "DEFAULT_MAX_BYTES = 4 * 1024 * 1024"

fun estimate_value_bytes :: "tlv_value \<Rightarrow> nat"
  and estimate_members :: "(tag \<times> tlv_value) list \<Rightarrow> nat"
  and estimate_elements :: "tlv_value list \<Rightarrow> nat" where
  "estimate_value_bytes (VUtf8 s) = length s"
| "estimate_value_bytes (VBytes b) = length b"
| "estimate_value_bytes (VArray vs) = estimate_elements vs + 8"
| "estimate_value_bytes (VStructure ms) = estimate_members ms + 8"
| "estimate_value_bytes (VList ms) = estimate_members ms + 8"
| "estimate_value_bytes (VBool b) = 8"
| "estimate_value_bytes VNull = 8"
| "estimate_value_bytes (VUint n) = 8"
| "estimate_value_bytes (VInt n) = 8"
| "estimate_value_bytes (VFloat f) = 8"
| "estimate_value_bytes (VDouble f) = 8"
| "estimate_members [] = 0"
| "estimate_members ((t, v) # ms) = estimate_value_bytes v + estimate_members ms"
| "estimate_elements [] = 0"
| "estimate_elements (v # vs) = estimate_value_bytes v + estimate_elements vs"

record slot =
  slot_value :: tlv_value
  slot_version :: "u32 option"

type_synonym attribute_key = "u16 \<times> u32 \<times> u32"

record accumulator =
  acc_order :: "attribute_path list"
  acc_slots :: "attribute_key \<rightharpoonup> slot"
  acc_bytes :: nat
  acc_max_elements :: nat
  acc_max_bytes :: nat

definition with_limits :: "nat \<Rightarrow> nat \<Rightarrow> accumulator" where
  "with_limits max_elements max_bytes =
     \<lparr>acc_order = [], acc_slots = Map.empty, acc_bytes = 0, acc_max_elements = max_elements, acc_max_bytes = max_bytes\<rparr>"

definition accumulator_new :: accumulator where
  "accumulator_new = with_limits DEFAULT_MAX_ELEMENTS DEFAULT_MAX_BYTES"

definition overflow :: "accumulator \<Rightarrow> im_error" where
  "overflow a = AccumulatorOverflow (length (acc_order a)) (acc_bytes a) (acc_max_elements a) (acc_max_bytes a)"

definition path_key :: "attribute_path \<Rightarrow> attribute_key" where
  "path_key p = (ap_endpoint p, ap_cluster p, ap_attribute p)"

definition saturating_add :: "nat \<Rightarrow> nat \<Rightarrow> nat" where
  "saturating_add m n = min (m + n) (2 ^ 64 - 1)"

definition push_replace :: "attribute_report_item \<Rightarrow> nat \<Rightarrow> (accumulator, im_error, unit) comp" where
  "push_replace item item_bytes a = (case acc_slots a (path_key (ari_path item)) of
     Some slot \<Rightarrow>
       (let newer = (case (slot_version slot, ari_data_version item) of (Some old, Some new) \<Rightarrow> new \<ge> old | _ \<Rightarrow> True)
        in if newer
           then (Inr (), a\<lparr>acc_bytes := saturating_add (acc_bytes a - estimate_value_bytes (slot_value slot)) item_bytes,
                  acc_slots := (acc_slots a)(path_key (ari_path item) \<mapsto>
                    \<lparr>slot_value = ari_value item, slot_version = ari_data_version item\<rparr>)\<rparr>)
           else (Inr (), a))
   | None \<Rightarrow>
       if length (acc_order a) \<ge> acc_max_elements a then (Inl (overflow a), a)
       else (Inr (), a\<lparr>acc_order := acc_order a @ [ari_path item],
              acc_bytes := saturating_add (acc_bytes a) item_bytes,
              acc_slots := (acc_slots a)(path_key (ari_path item) \<mapsto>
                \<lparr>slot_value = ari_value item, slot_version = ari_data_version item\<rparr>)\<rparr>))"

definition push_append :: "attribute_report_item \<Rightarrow> nat \<Rightarrow> (accumulator, im_error, unit) comp" where
  "push_append item item_bytes a = (case acc_slots a (path_key (ari_path item)) of
     Some slot \<Rightarrow>
       if (case (slot_version slot, ari_data_version item) of (Some old, Some new) \<Rightarrow> new < old | _ \<Rightarrow> False)
       then (Inr (), a)
       else (Inr (), a\<lparr>acc_bytes := saturating_add (acc_bytes a) item_bytes,
              acc_slots := (acc_slots a)(path_key (ari_path item) \<mapsto>
                \<lparr>slot_value = (case slot_value slot of VArray vs \<Rightarrow> VArray (vs @ [ari_value item]) | _ \<Rightarrow> VArray [ari_value item]),
                 slot_version = ari_data_version item\<rparr>)\<rparr>)
   | None \<Rightarrow>
       if length (acc_order a) \<ge> acc_max_elements a then (Inl (overflow a), a)
       else (Inr (), a\<lparr>acc_order := acc_order a @ [ari_path item],
              acc_bytes := saturating_add (acc_bytes a) item_bytes,
              acc_slots := (acc_slots a)(path_key (ari_path item) \<mapsto>
                \<lparr>slot_value = VArray [ari_value item], slot_version = ari_data_version item\<rparr>)\<rparr>))"

definition push_item :: "attribute_report_item \<Rightarrow> (accumulator, im_error, unit) comp" where
  "push_item item a =
     (let item_bytes = estimate_value_bytes (ari_value item) in
      if saturating_add (acc_bytes a) item_bytes > acc_max_bytes a then (Inl (overflow a), a)
      else case ari_op item of
        Replace \<Rightarrow> push_replace item item_bytes a
      | Append \<Rightarrow> push_append item item_bytes a)"

fun push_items :: "attribute_report_item list \<Rightarrow> (accumulator, im_error, unit) comp" where
  "push_items [] = ok ()"
| "push_items (item # items) = andthen (push_item item) (\<lambda>_. push_items items)"

definition push :: "report_data \<Rightarrow> (accumulator, im_error, unit) comp" where
  "push report = push_items (rep_items report)"

fun drain :: "attribute_path list \<Rightarrow> (attribute_key \<rightharpoonup> slot) \<Rightarrow> (attribute_path \<times> tlv_value) list" where
  "drain [] slots = []"
| "drain (path # paths) slots = (case slots (path_key path) of
     Some slot \<Rightarrow> (path, slot_value slot) # drain paths (slots(path_key path := None))
   | None \<Rightarrow> drain paths slots)"

definition finish_accumulator :: "accumulator \<Rightarrow> (attribute_path \<times> tlv_value) list" where
  "finish_accumulator a = drain (acc_order a) (acc_slots a)"

section \<open>What one item does\<close>

text \<open>The value of one attribute after one more item for it.\<close>

definition merge_item :: "attribute_report_item \<Rightarrow> slot option \<Rightarrow> slot" where
  "merge_item item s = (case s of
     None \<Rightarrow> \<lparr>slot_value = (case ari_op item of Replace \<Rightarrow> ari_value item | Append \<Rightarrow> VArray [ari_value item]),
             slot_version = ari_data_version item\<rparr>
   | Some slot \<Rightarrow>
       if \<exists>old new. slot_version slot = Some old \<and> ari_data_version item = Some new \<and> new < old then slot
       else \<lparr>slot_value = (case ari_op item of Replace \<Rightarrow> ari_value item
               | Append \<Rightarrow> (case slot_value slot of VArray vs \<Rightarrow> VArray (vs @ [ari_value item]) | _ \<Rightarrow> VArray [ari_value item])),
             slot_version = ari_data_version item\<rparr>)"

lemma path_key_inj [simp]: "path_key p = path_key q \<longleftrightarrow> p = q"
  by (cases p; cases q) (simp add: path_key_def)

lemma push_item_merges:
  assumes "push_item item a = (Inr (), a')"
  shows "acc_slots a' = (acc_slots a)(path_key (ari_path item) \<mapsto> merge_item item (acc_slots a (path_key (ari_path item))))"
    "acc_order a' = (if acc_slots a (path_key (ari_path item)) = None then acc_order a @ [ari_path item] else acc_order a)"
    "acc_max_elements a' = acc_max_elements a" "acc_max_bytes a' = acc_max_bytes a"
  using assms
  by (auto simp: push_item_def push_replace_def push_append_def merge_item_def Let_def fun_eq_iff
      split: if_splits option.splits report_op.splits)

lemma push_item_error:
  "push_item item a = (Inl e, a') \<longleftrightarrow> a' = a \<and> e = overflow a \<and>
     (saturating_add (acc_bytes a) (estimate_value_bytes (ari_value item)) > acc_max_bytes a \<or>
      acc_slots a (path_key (ari_path item)) = None \<and> length (acc_order a) \<ge> acc_max_elements a)"
  by (auto simp: push_item_def push_replace_def push_append_def Let_def split: if_splits option.splits report_op.splits)

section \<open>Well-formedness\<close>

text \<open>
  Every attribute held is listed once, in \<open>acc_order\<close>, and has a slot; the two counters respect
  their ceilings.
\<close>

definition acc_wf :: "accumulator \<Rightarrow> bool" where
  "acc_wf a \<longleftrightarrow> distinct (acc_order a) \<and> dom (acc_slots a) = path_key ` set (acc_order a) \<and>
     length (acc_order a) \<le> acc_max_elements a \<and> acc_bytes a \<le> acc_max_bytes a"

lemma acc_wf_new: "acc_wf (with_limits max_elements max_bytes)"
  by (simp add: acc_wf_def with_limits_def)

lemma saturating_add_mono: "m \<le> m' \<Longrightarrow> saturating_add m n \<le> saturating_add m' n"
  by (simp add: saturating_add_def)

lemma push_item_bytes:
  assumes "push_item item a = (Inr (), a')" "acc_bytes a \<le> acc_max_bytes a"
  shows "acc_bytes a' \<le> acc_max_bytes a"
    and "acc_bytes a' \<le> acc_bytes a + estimate_value_bytes (ari_value item)"
proof -
  let ?n = "estimate_value_bytes (ari_value item)"
  have sub: "saturating_add (acc_bytes a - k) ?n \<le> saturating_add (acc_bytes a) ?n" for k
    by (simp add: saturating_add_mono)
  have le: "saturating_add (acc_bytes a) ?n \<le> acc_max_bytes a"
    using assms(1) by (auto simp: push_item_def Let_def split: if_splits)
  have new: "acc_bytes a' = acc_bytes a \<or> (\<exists>k. acc_bytes a' = saturating_add (acc_bytes a - k) ?n)"
    using assms(1)
    by (auto simp: push_item_def push_replace_def push_append_def Let_def intro: exI [of _ 0] split: if_splits option.splits report_op.splits)
  with assms(2) show "acc_bytes a' \<le> acc_max_bytes a" using le_trans [OF sub le] by auto
  from new sub show "acc_bytes a' \<le> acc_bytes a + ?n" by (auto simp: saturating_add_def)
qed

lemma acc_wf_push_item:
  assumes "push_item item a = (res, a')" "acc_wf a"
  shows "acc_wf a'"
proof (cases res)
  case (Inl e)
  with assms push_item_error [of item a e a'] show ?thesis by simp
next
  case (Inr u)
  with assms(1) have p: "push_item item a = (Inr (), a')" by simp
  have room: "length (acc_order a) < acc_max_elements a" if "acc_slots a (path_key (ari_path item)) = None"
    using p that by (auto simp: push_item_def push_replace_def push_append_def Let_def split: if_splits report_op.splits)
  have old: "ari_path item \<in> set (acc_order a) \<longleftrightarrow> acc_slots a (path_key (ari_path item)) \<noteq> None"
    using assms(2) by (auto simp: acc_wf_def dom_def) (metis (mono_tags, lifting) imageE mem_Collect_eq option.distinct(1) path_key_inj)
  show ?thesis
    using assms(2) push_item_merges [OF p] push_item_bytes(1) [OF p] room old by (auto simp: acc_wf_def)
qed

lemma acc_wf_push_items: "push_items items a = (res, a') \<Longrightarrow> acc_wf a \<Longrightarrow> acc_wf a'"
proof (induction items arbitrary: a)
  case (Cons item items)
  then show ?case
    by (auto simp: andthen_def dest: acc_wf_push_item split: prod.splits sum.splits)
qed (simp add: ok_def)

section \<open>What a sequence of items amounts to\<close>

text \<open>
  The meaning of a report: every attribute depends only on its own items, merged in order; the
  attributes come in the order of their first items.
\<close>

definition merged :: "attribute_report_item list \<Rightarrow> attribute_path \<Rightarrow> slot option" where
  "merged items p = fold (\<lambda>item s. Some (merge_item item s)) (filter (\<lambda>item. ari_path item = p) items) None"

definition first_seen :: "attribute_report_item list \<Rightarrow> attribute_path list" where
  "first_seen items = rev (remdups (rev (map ari_path items)))"

lemma push_items_append: "push_items (xs @ ys) = andthen (push_items xs) (\<lambda>_. push_items ys)"
  by (induction xs) (simp_all add: andthen_assoc)

lemma merged_None: "merged items p = None \<longleftrightarrow> p \<notin> ari_path ` set items"
proof (induction items rule: rev_induct)
  case (snoc x xs)
  then show ?case by (auto simp: merged_def)
qed (simp add: merged_def)

lemma accumulated:
  "push_items items (with_limits m b) = (Inr (), a) \<Longrightarrow>
   acc_order a = first_seen items \<and> (\<forall>p. acc_slots a (path_key p) = merged items p) \<and>
   acc_max_elements a = m \<and> acc_max_bytes a = b"
proof (induction items arbitrary: a rule: rev_induct)
  case Nil
  then show ?case by (auto simp: ok_def with_limits_def first_seen_def merged_def)
next
  case (snoc item items)
  then obtain a1 where a1: "push_items items (with_limits m b) = (Inr (), a1)" "push_item item a1 = (Inr (), a)"
    by (auto simp: push_items_append andthen_def ok_def split: prod.splits sum.splits)
  from snoc.IH [OF a1(1)] push_item_merges [OF a1(2)] merged_None [of items "ari_path item"] show ?case
    by (auto simp: first_seen_def merged_def)
qed

lemma drain_eq:
  "distinct ps \<Longrightarrow> \<forall>p\<in>set ps. slots (path_key p) \<noteq> None \<Longrightarrow>
   drain ps slots = map (\<lambda>p. (p, slot_value (the (slots (path_key p))))) ps"
proof (induction ps arbitrary: slots)
  case (Cons p ps)
  then have "drain ps (slots(path_key p := None)) = map (\<lambda>q. (q, slot_value (the ((slots(path_key p := None)) (path_key q))))) ps"
    by (intro Cons.IH) auto
  with Cons.prems show ?case by auto
qed simp

definition items_bytes :: "attribute_report_item list \<Rightarrow> nat" where
  "items_bytes items = sum_list (map (\<lambda>item. estimate_value_bytes (ari_value item)) items)"

text \<open>Items within both ceilings are all accepted.\<close>

lemma push_succeeds:
  "length (first_seen items) \<le> m \<Longrightarrow> items_bytes items \<le> b \<Longrightarrow>
   \<exists>a. push_items items (with_limits m b) = (Inr (), a) \<and> acc_bytes a \<le> items_bytes items"
proof (induction items rule: rev_induct)
  case Nil
  show ?case by (simp add: ok_def with_limits_def)
next
  case (snoc item items)
  have "length (first_seen items) \<le> length (first_seen (items @ [item]))" by (simp add: first_seen_def)
  with snoc obtain a where a: "push_items items (with_limits m b) = (Inr (), a)" "acc_bytes a \<le> items_bytes items"
    by (auto simp: items_bytes_def)
  note acc = accumulated [OF a(1)]
  have "acc_wf a" using acc_wf_push_items [OF a(1) acc_wf_new] .
  then have bytes: "acc_bytes a \<le> acc_max_bytes a" by (simp add: acc_wf_def)
  have fits: "saturating_add (acc_bytes a) (estimate_value_bytes (ari_value item)) \<le> acc_max_bytes a"
    using acc a(2) snoc.prems(2) by (simp add: saturating_add_def items_bytes_def min_def)
  have room: "length (acc_order a) < acc_max_elements a" if "acc_slots a (path_key (ari_path item)) = None"
    using acc that snoc.prems(1) merged_None [of items "ari_path item"] by (auto simp: first_seen_def)
  have "\<nexists>e a'. push_item item a = (Inl e, a')" using fits room by (auto simp: push_item_error)
  then obtain a' where a': "push_item item a = (Inr (), a')" by (cases "push_item item a"; cases "fst (push_item item a)") auto
  then have "push_items (items @ [item]) (with_limits m b) = (Inr (), a')"
    using a(1) by (simp add: push_items_append andthen_def ok_def)
  with push_item_bytes(2) [OF a' bytes] a(2) show ?case by (auto simp: items_bytes_def)
qed

section \<open>Merging the chunks of a read\<close>

fun push_chunks :: "report_data list \<Rightarrow> (accumulator, im_error, unit) comp" where
  "push_chunks [] = ok ()"
| "push_chunks (chunk # chunks) = andthen (push chunk) (\<lambda>_. push_chunks chunks)"

definition merge_chunks :: "report_data list \<Rightarrow> im_error + (attribute_path \<times> tlv_value) list" where
  "merge_chunks chunks = (case push_chunks chunks accumulator_new of
     (Inl e, _) \<Rightarrow> Inl e | (Inr _, acc) \<Rightarrow> Inr (finish_accumulator acc))"

lemma push_chunks_items: "push_chunks chunks = push_items (concat (map rep_items chunks))"
  by (induction chunks) (simp_all add: push_def push_items_append)

lemma finish_accumulated:
  assumes "push_items items (with_limits m b) = (Inr (), a)"
  shows "finish_accumulator a = map (\<lambda>p. (p, slot_value (the (merged items p)))) (first_seen items)"
  using accumulated [OF assms] drain_eq [of "first_seen items" "acc_slots a"] merged_None [of items]
  by (auto simp: finish_accumulator_def first_seen_def)

text \<open>
  C25. Merging the chunks of a read gives each attribute once, in the order in which they were first
  seen, with the value its own items amount to, merged in order of arrival; the merge fails
  only by exceeding a ceiling, never below both.
\<close>

theorem merge_refines:
  "(\<forall>out. merge_chunks chunks = Inr out \<longrightarrow>
      out = map (\<lambda>p. (p, slot_value (the (merged (concat (map rep_items chunks)) p)))) (first_seen (concat (map rep_items chunks)))) \<and>
   (length (first_seen (concat (map rep_items chunks))) \<le> DEFAULT_MAX_ELEMENTS \<and>
    items_bytes (concat (map rep_items chunks)) \<le> DEFAULT_MAX_BYTES \<longrightarrow> (\<exists>out. merge_chunks chunks = Inr out))"
proof (intro conjI allI impI)
  let ?items = "concat (map rep_items chunks)"
  fix out
  assume "merge_chunks chunks = Inr out"
  then obtain a where "push_items ?items accumulator_new = (Inr (), a)" "out = finish_accumulator a"
    by (auto simp: merge_chunks_def push_chunks_items split: prod.splits sum.splits)
  then show "out = map (\<lambda>p. (p, slot_value (the (merged ?items p)))) (first_seen ?items)"
    using finish_accumulated by (simp add: accumulator_new_def)
next
  assume "length (first_seen (concat (map rep_items chunks))) \<le> DEFAULT_MAX_ELEMENTS \<and>
    items_bytes (concat (map rep_items chunks)) \<le> DEFAULT_MAX_BYTES"
  with push_succeeds show "\<exists>out. merge_chunks chunks = Inr out"
    by (fastforce simp: merge_chunks_def push_chunks_items accumulator_new_def)
qed

theorem merge_refines_witness:
  "\<exists>out. merge_chunks [report_data_new [\<lparr>ari_path = \<lparr>ap_endpoint = 1, ap_cluster = 6, ap_attribute = 0\<rparr>, ari_op = Replace,
      ari_value = VBool True, ari_data_version = Some 3\<rparr>] None False False] = Inr out"
  using conjunct2 [OF merge_refines [of "[report_data_new [\<lparr>ari_path = \<lparr>ap_endpoint = 1, ap_cluster = 6, ap_attribute = 0\<rparr>,
      ari_op = Replace, ari_value = VBool True, ari_data_version = Some 3\<rparr>] None False False]"]]
  by (simp add: report_data_new_def first_seen_def items_bytes_def DEFAULT_MAX_ELEMENTS_def DEFAULT_MAX_BYTES_def)

section \<open>A chunked read, end to end\<close>

text \<open>
  How a device reports an attribute: a value as a whole, or a list as its first \<open>k\<close> elements
  followed by one item per remaining element.
\<close>

definition report_item :: "attribute_path \<Rightarrow> u32 option \<Rightarrow> report_op \<Rightarrow> tlv_value \<Rightarrow> attribute_report_item" where
  "report_item p ver q v = \<lparr>ari_path = p, ari_op = q, ari_value = v, ari_data_version = ver\<rparr>"

definition attribute_items :: "attribute_path \<times> tlv_value \<times> u32 option \<times> nat \<Rightarrow> attribute_report_item list" where
  "attribute_items x = (case x of (p, v, ver, k) \<Rightarrow> (case v of
     VArray vs \<Rightarrow> report_item p ver Replace (VArray (take k vs)) # map (report_item p ver Append) (drop k vs)
   | _ \<Rightarrow> [report_item p ver Replace v]))"

lemma estimate_elements_append: "estimate_elements (vs @ ws) = estimate_elements vs + estimate_elements ws"
  by (induction vs) simp_all

lemma estimate_elements_sum: "estimate_elements vs = sum_list (map estimate_value_bytes vs)"
  by (induction vs) simp_all

lemma attribute_items_bytes: "items_bytes (attribute_items (p, v, ver, k)) = estimate_value_bytes v"
proof (cases v)
  case (VArray vs)
  have "estimate_elements vs = estimate_elements (take k vs) + estimate_elements (drop k vs)"
    using estimate_elements_append [of "take k vs" "drop k vs"] by simp
  then show ?thesis
    by (simp add: VArray attribute_items_def items_bytes_def report_item_def comp_def estimate_elements_sum)
qed (simp_all add: attribute_items_def items_bytes_def report_item_def)

lemma attribute_items_path: "item \<in> set (attribute_items (p, v, ver, k)) \<Longrightarrow> ari_path item = p"
  by (auto simp: attribute_items_def report_item_def split: tlv_value.splits)

lemma stream_paths: "item \<in> set (concat (map attribute_items attrs)) \<Longrightarrow> ari_path item \<in> fst ` set attrs"
  by (induction attrs) (auto simp: attribute_items_path)

lemma attribute_items_nonempty: "attribute_items x \<noteq> []"
  by (auto simp: attribute_items_def split: prod.split tlv_value.splits)

lemma fold_appends:
  "fold (\<lambda>item s. Some (merge_item item s)) (map (report_item p ver Append) ws) (Some \<lparr>slot_value = VArray vs, slot_version = ver\<rparr>) =
   Some \<lparr>slot_value = VArray (vs @ ws), slot_version = ver\<rparr>"
  by (induction ws arbitrary: vs) (simp_all add: merge_item_def report_item_def)

lemma fold_attribute_items:
  "fold (\<lambda>item s. Some (merge_item item s)) (attribute_items (p, v, ver, k)) None = Some \<lparr>slot_value = v, slot_version = ver\<rparr>"
proof (cases v)
  case (VArray vs)
  have "merge_item (report_item p ver Replace (VArray (take k vs))) None = \<lparr>slot_value = VArray (take k vs), slot_version = ver\<rparr>"
    by (simp add: merge_item_def report_item_def)
  then show ?thesis by (simp add: VArray attribute_items_def fold_appends)
qed (simp_all add: attribute_items_def merge_item_def report_item_def)

lemma merged_stream:
  assumes "distinct (map fst attrs)" "(p, v, ver, k) \<in> set attrs"
  shows "merged (concat (map attribute_items attrs)) p = Some \<lparr>slot_value = v, slot_version = ver\<rparr>"
proof -
  have "filter (\<lambda>item. ari_path item = p) (concat (map attribute_items attrs)) = attribute_items (p, v, ver, k)"
    using assms
  proof (induction attrs)
    case (Cons x attrs)
    obtain q w u j where x: "x = (q, w, u, j)" by (cases x)
    have own: "filter (\<lambda>item. ari_path item = q) (attribute_items x) = attribute_items x"
      using attribute_items_path by (auto simp: x filter_id_conv)
    have other: "filter (\<lambda>item. ari_path item = r) (attribute_items x) = []" if "r \<noteq> q" for r
      using attribute_items_path that by (auto simp: x filter_empty_conv)
    have none: "filter (\<lambda>item. ari_path item = q) (concat (map attribute_items attrs)) = []"
      using Cons.prems(1) stream_paths [of _ attrs] by (auto simp: x filter_empty_conv)
    show ?case
      using Cons own other none by (cases "p = q") (auto simp: x image_iff)
  qed simp
  then show ?thesis by (simp add: merged_def fold_attribute_items)
qed

lemma first_seen_stream:
  "distinct (map fst attrs) \<Longrightarrow> first_seen (concat (map attribute_items attrs)) = map fst attrs"
proof (induction attrs rule: rev_induct)
  case (snoc x attrs)
  obtain q w u j where x: "x = (q, w, u, j)" by (cases x)
  have "map ari_path (attribute_items x) = replicate (length (attribute_items x)) q"
    using attribute_items_path by (intro replicate_eqI) (auto simp: x)
  moreover have "q \<notin> ari_path ` set (concat (map attribute_items attrs))"
    using snoc.prems stream_paths [of _ attrs] by (auto simp: x)
  moreover have "remdups (replicate n q @ ys) = (if n = 0 then remdups ys else q # remdups ys)" if "q \<notin> set ys" for n ys
    using that by (induction n) (auto simp: remdups_filter)
  ultimately show ?case
    using snoc attribute_items_nonempty [of x] by (simp add: first_seen_def x rev_concat)
qed (simp add: first_seen_def)

lemma merge_stream:
  assumes "distinct (map fst attrs)" "length attrs \<le> DEFAULT_MAX_ELEMENTS"
    and "sum_list (map (\<lambda>(p, v, _). estimate_value_bytes v) attrs) \<le> DEFAULT_MAX_BYTES"
    and "concat (map rep_items chunks) = concat (map attribute_items attrs)"
  shows "merge_chunks chunks = Inr (map (\<lambda>(p, v, _). (p, v)) attrs)"
proof -
  let ?items = "concat (map attribute_items attrs)"
  have "items_bytes ?items = sum_list (map (\<lambda>(p, v, _). estimate_value_bytes v) attrs)"
  proof (induction attrs)
    case (Cons x attrs)
    obtain p v ver k where x: "x = (p, v, ver, k)" by (cases x)
    show ?case using Cons.IH attribute_items_bytes [of p v ver k] by (simp add: x items_bytes_def)
  qed (simp add: items_bytes_def)
  with push_succeeds [of ?items] obtain a where a: "push_items ?items accumulator_new = (Inr (), a)"
    using assms(2,3) first_seen_stream [OF assms(1)] by (fastforce simp: accumulator_new_def)
  have "map (\<lambda>p. (p, slot_value (the (merged ?items p)))) (map fst attrs) = map (\<lambda>(p, v, _). (p, v)) attrs"
    using merged_stream [OF assms(1)] by (auto simp: split_def)
  with finish_accumulated [OF a [unfolded accumulator_new_def]] first_seen_stream [OF assms(1)] a show ?thesis
    by (simp add: merge_chunks_def push_chunks_items assms(4))
qed

text \<open>
  C20. A chunked read is delivered: a device that reports its attributes once each, every list
  whole or split anywhere, in messages cut anywhere, is read back exactly, each attribute with
  its whole value in the order of the reports, as long as the ceilings are respected.
\<close>

theorem chunked_read_delivered:
  assumes "distinct (map fst attrs)" "length attrs \<le> DEFAULT_MAX_ELEMENTS"
    and "sum_list (map (\<lambda>(p, v, _). estimate_value_bytes v) attrs) \<le> DEFAULT_MAX_BYTES"
    and "concat (map (\<lambda>(sid, ibs, _). ib_items ibs) msgs) = concat (map attribute_items attrs)"
    and "\<forall>(sid, ibs, evs, chunked, suppress)\<in>set msgs. (\<forall>ib\<in>set ibs. report_ib_ok 4 ib) \<and>
      (\<forall>ev\<in>set evs. event_report_ok 4 ev) \<and> length (enc Anonymous (report_value sid ibs evs chunked suppress)) < 2 ^ 64"
  shows "\<exists>chunks. map (\<lambda>(sid, ibs, evs, chunked, suppress).
        parse_report_data (enc Anonymous (report_value sid ibs evs chunked suppress))) msgs = map Inr chunks \<and>
      merge_chunks chunks = Inr (map (\<lambda>(p, v, _). (p, v)) attrs)"
proof (intro exI conjI)
  let ?chunks = "map (\<lambda>(sid, ibs, evs, chunked, suppress).
    \<lparr>rep_items = ib_items ibs, rep_subscription_id = sid, rep_more_chunked_messages = chunked,
     rep_suppress_response = suppress, rep_events = evs, rep_statuses = ib_statuses ibs\<rparr>) msgs"
  show "map (\<lambda>(sid, ibs, evs, chunked, suppress).
        parse_report_data (enc Anonymous (report_value sid ibs evs chunked suppress))) msgs = map Inr ?chunks"
    using assms(5) by (auto simp: parse_report_tree)
  have "map rep_items ?chunks = map (\<lambda>(sid, ibs, _). ib_items ibs) msgs" by (auto simp: split_def)
  with assms(4) have "concat (map rep_items ?chunks) = concat (map attribute_items attrs)" by (simp only:)
  from merge_stream [OF assms(1-3) this] show "merge_chunks ?chunks = Inr (map (\<lambda>(p, v, _). (p, v)) attrs)" .
qed

definition sample_list :: attribute_path where
  "sample_list = \<lparr>ap_endpoint = 0, ap_cluster = 29, ap_attribute = 1\<rparr>"

theorem chunked_read_delivered_witness:
  "\<exists>chunks. map (\<lambda>(sid, ibs, evs, chunked, suppress).
        parse_report_data (enc Anonymous (report_value sid ibs evs chunked suppress)))
      [(None, [IbData (report_item sample_list (Some 9) Replace (VArray [VUint 1]))], [], True, False),
       (None, [IbData (report_item sample_list (Some 9) Append (VUint 2)), IbData (report_item sample_list (Some 9) Append (VUint 3))],
         [], False, True)] = map Inr chunks \<and>
    merge_chunks chunks = Inr [(sample_list, VArray [VUint 1, VUint 2, VUint 3])]"
  using chunked_read_delivered [of "[(sample_list, VArray [VUint 1, VUint 2, VUint 3], Some 9, 1)]"
    "[(None, [IbData (report_item sample_list (Some 9) Replace (VArray [VUint 1]))], [], True, False),
      (None, [IbData (report_item sample_list (Some 9) Append (VUint 2)), IbData (report_item sample_list (Some 9) Append (VUint 3))],
         [], False, True)]"]
  by (simp add: DEFAULT_MAX_ELEMENTS_def DEFAULT_MAX_BYTES_def ib_items_def attribute_items_def report_item_def readable_def
      MAX_DEPTH_def report_value_def attribute_data_value_def attribute_path_value_def sample_list_def opt_member_def
      enc_def encode_tag_def uint_body_def)

section \<open>The ceilings\<close>

definition held_bytes :: "accumulator \<Rightarrow> nat" where
  "held_bytes a = sum_list (map (\<lambda>p. estimate_value_bytes (slot_value (the (acc_slots a (path_key p))))) (acc_order a))"

lemma sum_list_update:
  fixes f :: "'a \<Rightarrow> nat"
  shows "distinct xs \<Longrightarrow> x \<in> set xs \<Longrightarrow> sum_list (map (f(x := y)) xs) + f x = sum_list (map f xs) + y"
proof (induction xs)
  case (Cons z zs)
  show ?case
  proof (cases "z = x")
    case True
    with Cons.prems(1) have "map (f(x := y)) zs = map f zs" by (intro map_cong) auto
    with True show ?thesis by (simp del: fun_upd_apply map_eq_conv add: fun_upd_same)
  next
    case False
    with Cons show ?thesis by auto
  qed
qed simp

lemma held_bytes_new:
  "p \<notin> set (acc_order a) \<Longrightarrow>
   held_bytes (a\<lparr>acc_order := acc_order a @ [p], acc_bytes := n, acc_slots := (acc_slots a)(path_key p \<mapsto> s)\<rparr>) =
     held_bytes a + estimate_value_bytes (slot_value s)"
  by (auto simp: held_bytes_def intro!: arg_cong [of _ _ sum_list] map_cong)

lemma held_bytes_update:
  assumes "p \<in> set (acc_order a)" "distinct (acc_order a)" "acc_slots a (path_key p) = Some old"
  shows "held_bytes (a\<lparr>acc_bytes := n, acc_slots := (acc_slots a)(path_key p \<mapsto> s)\<rparr>) + estimate_value_bytes (slot_value old) =
      held_bytes a + estimate_value_bytes (slot_value s)"
    and "estimate_value_bytes (slot_value old) \<le> held_bytes a"
proof -
  let ?f = "\<lambda>p. estimate_value_bytes (slot_value (the (acc_slots a (path_key p))))"
  have "(\<lambda>q. estimate_value_bytes (slot_value (the (((acc_slots a)(path_key p \<mapsto> s)) (path_key q))))) =
      ?f(p := estimate_value_bytes (slot_value s))"
    by (auto simp: fun_eq_iff)
  then show "held_bytes (a\<lparr>acc_bytes := n, acc_slots := (acc_slots a)(path_key p \<mapsto> s)\<rparr>) + estimate_value_bytes (slot_value old) =
      held_bytes a + estimate_value_bytes (slot_value s)"
    using sum_list_update [OF assms(2,1), of ?f] assms(3) by (simp add: held_bytes_def del: fun_upd_apply)
  show "estimate_value_bytes (slot_value old) \<le> held_bytes a"
    using member_le_sum_list [OF imageI [OF assms(1), of ?f, folded set_map]] assms(3) by (simp add: held_bytes_def)
qed

text \<open>While values are only replaced, the counter is the size of what is held.\<close>

lemma push_replace_exact:
  assumes "push_item item a = (Inr (), a')" "ari_op item = Replace" "acc_wf a" "held_bytes a = acc_bytes a"
    and "acc_max_bytes a < 2 ^ 64 - 1"
  shows "held_bytes a' = acc_bytes a'"
proof -
  let ?k = "path_key (ari_path item)" and ?n = "estimate_value_bytes (ari_value item)"
  have fits: "acc_bytes a + ?n < 2 ^ 64 - 1"
    using assms(1,5) by (auto simp: push_item_def Let_def saturating_add_def split: if_splits)
  show ?thesis
  proof (cases "acc_slots a ?k")
    case None
    then have "ari_path item \<notin> set (acc_order a)" using assms(3) by (auto simp: acc_wf_def)
    then show ?thesis
      using assms fits None
      by (auto simp: push_item_def push_replace_def held_bytes_new saturating_add_def Let_def split: if_splits)
  next
    case (Some slot)
    then have m: "ari_path item \<in> set (acc_order a)" "distinct (acc_order a)"
      using assms(3) by (auto simp: acc_wf_def) (metis (no_types, lifting) domI imageE path_key_inj)
    let ?new = "\<lparr>slot_value = ari_value item, slot_version = ari_data_version item\<rparr>"
    have "held_bytes (a\<lparr>acc_bytes := n, acc_slots := (acc_slots a)(?k \<mapsto> ?new)\<rparr>) =
        held_bytes a - estimate_value_bytes (slot_value slot) + ?n" for n
      using held_bytes_update(1) [OF m Some, where n = n and s = ?new] held_bytes_update(2) [OF m Some] by simp
    then show ?thesis
      using assms fits Some
      by (auto simp: push_item_def push_replace_def saturating_add_def Let_def split: if_splits)
  qed
qed

lemma push_replaces_exact:
  "push_items items a = (res, a') \<Longrightarrow> \<forall>item\<in>set items. ari_op item = Replace \<Longrightarrow> acc_wf a \<Longrightarrow> held_bytes a = acc_bytes a \<Longrightarrow>
   acc_max_bytes a < 2 ^ 64 - 1 \<Longrightarrow> held_bytes a' = acc_bytes a'"
proof (induction items arbitrary: a)
  case (Cons item items)
  obtain r1 a1 where p: "push_item item a = (r1, a1)" by fastforce
  show ?case
  proof (cases r1)
    case (Inl e)
    with Cons.prems p show ?thesis by (auto simp: andthen_def push_item_error)
  next
    case (Inr u)
    then have p': "push_item item a = (Inr (), a1)" using p by simp
    have "push_items items a1 = (res, a')" using Cons.prems(1) p' by (simp add: andthen_def)
    then show ?thesis
      using Cons.prems acc_wf_push_item [OF p'] push_replace_exact [OF p'] push_item_merges(4) [OF p'] by (intro Cons.IH [of a1]) auto
  qed
qed (simp add: ok_def)

lemma push_items_limits:
  "push_items items a = (res, a') \<Longrightarrow> acc_max_elements a' = acc_max_elements a \<and> acc_max_bytes a' = acc_max_bytes a"
proof (induction items arbitrary: a)
  case (Cons item items)
  obtain r1 a1 where p: "push_item item a = (r1, a1)" by fastforce
  with Cons show ?case
    using push_item_merges(3,4) [of item a a1] push_item_error [of item a _ a1]
    by (cases r1) (auto simp: andthen_def)
qed (simp add: ok_def)

text \<open>
  C26. The ceilings bound what a peer can make the accumulator hold: whatever is pushed, accepted or
  refused, at most the configured number of attributes is held, each with one slot and one place
  in the order, and the byte counter stays below its cap. As long as no item appends, the
  counter is exactly the estimated size of the values held.
\<close>

theorem accumulator_bounded:
  assumes "push_chunks chunks (with_limits m b) = (res, a)"
  shows "distinct (acc_order a) \<and> dom (acc_slots a) = path_key ` set (acc_order a) \<and> length (acc_order a) \<le> m \<and> acc_bytes a \<le> b \<and>
    ((\<forall>chunk\<in>set chunks. \<forall>item\<in>set (rep_items chunk). ari_op item = Replace) \<and> b < 2 ^ 64 - 1 \<longrightarrow> held_bytes a = acc_bytes a)"
proof -
  have p: "push_items (concat (map rep_items chunks)) (with_limits m b) = (res, a)"
    using assms by (simp add: push_chunks_items)
  have "held_bytes (with_limits m b) = acc_bytes (with_limits m b)" "acc_max_bytes (with_limits m b) = b"
      "acc_max_elements (with_limits m b) = m"
    by (simp_all add: held_bytes_def with_limits_def)
  with push_replaces_exact [OF p _ acc_wf_new] push_items_limits [OF p] acc_wf_push_items [OF p acc_wf_new] show ?thesis
    by (auto simp: acc_wf_def)
qed

theorem accumulator_bounded_witness:
  "\<exists>res a. push_chunks [report_data_new [report_item sample_list None Replace (VBytes [1, 2, 3])] None False False] (with_limits 1 8) = (res, a) \<and>
    held_bytes a = acc_bytes a"
proof -
  let ?c = "report_data_new [report_item sample_list None Replace (VBytes [1, 2, 3])] None False False"
  obtain res a where "push_chunks [?c] (with_limits 1 8) = (res, a)" by fastforce
  with accumulator_bounded [OF this] show ?thesis by (auto simp: report_data_new_def report_item_def)
qed

text \<open>
  With appends the counter is not the size held: an array that an append creates is charged
  without its own 8 bytes, which replacing it takes off again. A peer that alternates the two
  lowers the counter at will, and then gets past the cap.
\<close>

lemma byte_ceiling_evaded:
  "\<exists>a. push_items
     ([report_item (sample_list\<lparr>ap_endpoint := 1\<rparr>) None Replace (VBytes (replicate 16 0)),
       report_item sample_list None Replace (VUtf8 [])] @
      concat (replicate 2 [report_item sample_list None Append (VUtf8 []), report_item sample_list None Replace (VUtf8 [])]) @
      [report_item (sample_list\<lparr>ap_endpoint := 2\<rparr>) None Replace (VBytes (replicate 16 0))])
     (with_limits 10 16) = (Inr (), a) \<and> held_bytes a = 32"
  by (simp add: report_item_def sample_list_def with_limits_def push_item_def push_replace_def push_append_def saturating_add_def
      path_key_def held_bytes_def andthen_def ok_def Let_def numeral_2_eq_2)

end
