(* ===== verification/IM_Typing.thy ===== *)
theory IM_Typing
  imports IM_Accumulator
begin

text \<open>
  What the parsers deliver, whatever the bytes: every value in a report, and every value an
  accumulator holds, is well formed, so that it can be written again.
\<close>

section \<open>Values and reports\<close>

lemma members_sound_snoc:
  "members_wf (ms @ [(t, v)]) \<longleftrightarrow> members_wf ms \<and> value_wf v" "members_fit (ms @ [(t, v)]) \<longleftrightarrow> members_fit ms \<and> payloads_fit v"
  by (induction ms) auto

lemma returns_read_container: "returns sound (read_container levels kind)"
proof (induction levels arbitrary: kind)
  case (Suc levels)
  let ?I = "\<lambda>out. members_wf out \<and> members_fit out"
  show ?case
    unfolding read_container.simps
  proof (rule returns_andthen [where Q = ?I], rule returns_scan [where I = ?I])
    fix e out
    assume "sound_element e" "?I out"
    then show "returns (flow_ok ?I ?I) (case e of ContainerEnd \<Rightarrow> ok (Done out) | Scalar t v \<Rightarrow> ok (Again (out @ [(t, v)]))
        | ContainerStart t inner_kind \<Rightarrow> andthen (read_container levels inner_kind) (\<lambda>v. ok (Again (out @ [(t, v)]))))"
      by (cases e) (auto simp: sound_def members_sound_snoc intro!: returns_basic returns_andthen [OF Suc.IH])
  qed (auto simp: sound_def intro!: returns_basic)
qed (simp add: returns_basic)

lemma returns_read_container_value: "returns sound (read_container_value kind)"
  using returns_read_container by (fastforce simp: returns_def read_container_value_def)

lemma scalar_at_sound: "sound_element e \<Longrightarrow> scalar_at c e = Some v \<Longrightarrow> sound v"
  by (cases e) (auto simp: scalar_at_def split: if_splits tag.splits)

abbreviation holds_sound :: "tlv_value option \<Rightarrow> bool" where
  "holds_sound v \<equiv> \<forall>x. v = Some x \<longrightarrow> sound x"

abbreviation item_sound :: "attribute_report_item \<Rightarrow> bool" where
  "item_sound item \<equiv> sound (ari_value item)"

lemma returns_attribute_data:
  "holds_sound (fst (snd acc)) \<Longrightarrow> returns (\<lambda>parts. holds_sound (fst (snd parts))) (parse_attribute_data acc)"
  unfolding parse_attribute_data_def
proof (rule returns_scan [where I = "\<lambda>parts. holds_sound (fst (snd parts))"])
  fix e and acc :: data_parts
  assume "sound_element e" "holds_sound (fst (snd acc))"
  then show "returns (flow_ok (\<lambda>parts. holds_sound (fst (snd parts))) (\<lambda>parts. holds_sound (fst (snd parts)))) (attribute_data_step e acc)"
    unfolding attribute_data_step_def
    by (intro result_rules; auto intro!: returns_andthen [OF returns_any] returns_andthen [OF returns_read_container_value] result_rules
        dest: scalar_at_sound)
qed

lemma returns_report_ib:
  "returns (\<lambda>ib. \<forall>item. ib = IbData item \<longrightarrow> item_sound item) parse_attribute_report_ib"
proof -
  let ?I = "\<lambda>acc :: data_parts \<times> (attribute_path \<times> im_status) option. holds_sound (fst (snd (fst acc)))"
  have "returns (flow_ok ?I ?I) (report_ib_step e acc)" if "sound_element e" "?I acc" for e acc
    using that unfolding report_ib_step_def
    by (intro result_rules; auto intro!: returns_andthen [OF returns_any [of parse_attribute_status_ib]]
        returns_andthen [OF returns_attribute_data] result_rules)
  then have "returns ?I (scan unclosed report_ib_step ((None, None, None, False), None))"
    by (intro returns_scan [where I = ?I]) auto
  then show ?thesis
    unfolding parse_attribute_report_ib_def
    by (rule returns_andthen) (auto intro!: returns_basic split: prod.split option.split)
qed

lemma returns_attribute_reports:
  "\<forall>item\<in>set (fst acc). item_sound item \<Longrightarrow>
   returns (\<lambda>reps. \<forall>item\<in>set (fst reps). item_sound item) (parse_attribute_reports acc)"
  unfolding parse_attribute_reports_def
proof (rule returns_scan [where I = "\<lambda>reps. \<forall>item\<in>set (fst reps). item_sound item"])
  fix e and acc :: reports
  assume "sound_element e" "\<forall>item\<in>set (fst acc). item_sound item"
  then show "returns (flow_ok (\<lambda>reps. \<forall>item\<in>set (fst reps). item_sound item) (\<lambda>reps. \<forall>item\<in>set (fst reps). item_sound item))
      (attribute_reports_step e acc)"
    unfolding attribute_reports_step_def
    by (intro result_rules; auto intro!: returns_andthen [OF returns_report_ib] result_rules split: report_ib.split)
qed

fun event_sound :: "event_report \<Rightarrow> bool" where
  "event_sound (EventData i) \<longleftrightarrow> sound (eri_value i)"
| "event_sound (EventStatus p s) \<longleftrightarrow> True"

lemma returns_event_data: "returns (\<lambda>i. sound (eri_value i)) parse_event_data"
proof -
  let ?I = "\<lambda>(p, n, q, t, v). holds_sound v"
  have "returns (flow_ok ?I ?I) (event_data_step e acc)" if "sound_element e" "?I acc" for e acc
    using that unfolding event_data_step_def
    by (intro result_rules; auto intro!: returns_andthen [OF returns_any [of event_path_from_reader]]
        returns_andthen [OF returns_read_container_value] result_rules dest: scalar_at_sound)
  then have "returns ?I (scan unclosed event_data_step (event_path_default, 0, PrioUnknown 0xFF, NoTimestamp, None))"
    by (intro returns_scan [where I = ?I]) auto
  then show ?thesis
    unfolding parse_event_data_def
    by (rule returns_andthen) (auto intro!: returns_andthen [where Q = sound] returns_basic)
qed

lemma returns_event_reports: "\<forall>ev\<in>set evs. event_sound ev \<Longrightarrow> returns (\<lambda>evs. \<forall>ev\<in>set evs. event_sound ev) (parse_event_reports evs)"
proof -
  let ?I = "\<lambda>rep. \<forall>ev. rep = Some ev \<longrightarrow> event_sound ev"
  have status: "returns event_sound parse_event_status"
    unfolding parse_event_status_def by (rule returns_andthen [OF returns_any]) (auto intro!: returns_basic split: prod.split)
  have "returns (flow_ok ?I ?I) (event_report_step e acc)" if "?I acc" for e acc
    using that unfolding event_report_step_def
    by (intro result_rules; auto intro!: returns_andthen [OF returns_event_data] returns_andthen [OF status] result_rules)
  then have ib: "returns ?I parse_event_report_ib"
    unfolding parse_event_report_ib_def by (intro returns_scan [where I = ?I]) auto
  let ?J = "\<lambda>evs. \<forall>ev\<in>set evs. event_sound ev"
  have "returns (flow_ok ?J ?J) (event_reports_step e acc)" if "?J acc" for e acc
    using that unfolding event_reports_step_def
    by (intro result_rules; auto intro!: returns_andthen [OF ib] result_rules split: option.split)
  then show "?J evs \<Longrightarrow> returns ?J (parse_event_reports evs)"
    unfolding parse_event_reports_def by (intro returns_scan [where I = ?J]) auto
qed

definition report_sound :: "report_data \<Rightarrow> bool" where
  "report_sound rep \<longleftrightarrow> (\<forall>item\<in>set (rep_items rep). item_sound item) \<and> (\<forall>ev\<in>set (rep_events rep). event_sound ev)"

lemma parse_report_sound: "parse_report_data bytes = Inr rep \<Longrightarrow> report_sound rep"
proof -
  have "returns (flow_ok report_sound report_sound) (report_step e acc)" if "report_sound acc" for e acc
    using that unfolding report_step_def
    by (intro result_rules; auto simp: report_sound_def intro!: returns_andthen [OF returns_attribute_reports]
        returns_andthen [OF returns_event_reports] returns_need_then result_rules)
  then have "returns report_sound (scan unclosed report_step (report_data_new [] None False False))"
    by (intro returns_scan [where I = report_sound]) (auto simp: report_sound_def report_data_new_def)
  then have "returns report_sound (andthen (scan unclosed report_step (report_data_new [] None False False)) (\<lambda>rep.
      andthen finish_im (\<lambda>_. ok rep)))"
    by (rule returns_andthen) (auto intro!: returns_andthen [OF returns_any] returns_basic)
  then show "parse_report_data bytes = Inr rep \<Longrightarrow> report_sound rep"
    unfolding parse_report_data_def parse_as_def
    by (auto simp: returns_def andthen_def split: prod.splits sum.splits)
qed

section \<open>What an accumulator holds\<close>

lemma elements_sound: "elements_wf vs \<longleftrightarrow> (\<forall>v\<in>set vs. value_wf v)"
  by (induction vs) auto

lemma sound_array: "sound (VArray vs) \<longleftrightarrow> (\<forall>v\<in>set vs. sound v)"
  by (auto simp: sound_def elements_sound elements_fit_iff)

lemma merge_item_sound:
  assumes "item_sound item" "\<forall>slot. s = Some slot \<longrightarrow> sound (slot_value slot)"
  shows "sound (slot_value (merge_item item s))"
proof (cases s)
  case (Some slot)
  then have "sound (slot_value slot)" using assms(2) by simp
  with assms(1) show ?thesis
    by (cases "slot_value slot") (simp_all add: Some merge_item_def sound_array split: report_op.split)
qed (use assms(1) in \<open>simp add: merge_item_def sound_array split: report_op.split\<close>)

lemma merged_sound:
  "\<forall>item\<in>set items. item_sound item \<Longrightarrow> merged items p = Some slot \<Longrightarrow> sound (slot_value slot)"
proof (induction items arbitrary: slot rule: rev_induct)
  case (snoc item items)
  then show ?case
    using merge_item_sound [of item "merged items p"] by (cases "ari_path item = p") (auto simp: merged_def)
qed (simp add: merged_def)

text \<open>
  C27. Whatever bytes a peer sends, a read that succeeds returns only well-formed values: strings
  of valid UTF-8 and payloads that fit their length fields, at every depth. So every value
  delivered can be encoded again.
\<close>

theorem read_values_well_formed:
  assumes "map parse_report_data msgs = map Inr chunks" "merge_chunks chunks = Inr out" "(p, v) \<in> set out"
  shows "value_wf v \<and> payloads_fit v"
proof -
  let ?items = "concat (map rep_items chunks)"
  have "report_sound chunk" if "chunk \<in> set chunks" for chunk
  proof -
    from that have "Inr chunk \<in> set (map parse_report_data msgs)" unfolding assms(1) by simp
    then show ?thesis using parse_report_sound by force
  qed
  then have items: "\<forall>item\<in>set ?items. item_sound item" by (auto simp: report_sound_def)
  from assms(2) obtain a where "push_items ?items (with_limits DEFAULT_MAX_ELEMENTS DEFAULT_MAX_BYTES) = (Inr (), a)" "out = finish_accumulator a"
    by (auto simp: merge_chunks_def push_chunks_items accumulator_new_def split: prod.splits sum.splits)
  with finish_accumulated assms(3) have v: "p \<in> set (first_seen ?items)" "v = slot_value (the (merged ?items p))" by auto
  then obtain slot where "merged ?items p = Some slot"
    using merged_None [of ?items p] by (auto simp: first_seen_def)
  with merged_sound [OF items] v(2) show ?thesis by (simp add: sound_def)
qed

theorem read_values_well_formed_witness:
  "\<exists>msgs chunks out. map parse_report_data msgs = map Inr chunks \<and> merge_chunks chunks = Inr out \<and>
     (sample_list, VUtf8 [104, 105]) \<in> set out \<and> value_wf (VUtf8 [104, 105]) \<and> payloads_fit (VUtf8 [104, 105])"
proof -
  let ?ibs = "[IbData (report_item sample_list None Replace (VUtf8 [104, 105]))]"
  let ?msg = "enc Anonymous (report_value None ?ibs [] False True)"
  let ?chunk = "\<lparr>rep_items = ib_items ?ibs, rep_subscription_id = None, rep_more_chunked_messages = False,
      rep_suppress_response = True, rep_events = [], rep_statuses = ib_statuses ?ibs\<rparr>"
  have utf8: "readable 4 (VUtf8 [104, 105])"
    by (simp add: readable_def MAX_DEPTH_def IS1_def)
  have parse: "map parse_report_data [?msg] = map Inr [?chunk]"
    using parse_report_tree [of ?ibs "[]" None False True] utf8
    by (simp add: report_item_def report_value_def attribute_data_value_def attribute_path_value_def sample_list_def opt_member_def
        enc_def encode_tag_def uint_body_def string_body_def)
  have merge: "merge_chunks [?chunk] = Inr [(sample_list, VUtf8 [104, 105])]"
    using merge_stream [of "[(sample_list, VUtf8 [104, 105], None, 0)]" "[?chunk]"]
    by (simp add: DEFAULT_MAX_ELEMENTS_def DEFAULT_MAX_BYTES_def ib_items_def attribute_items_def)
  have "(sample_list, VUtf8 [104, 105]) \<in> set [(sample_list, VUtf8 [104, 105])]" by simp
  with read_values_well_formed [OF parse merge this] parse merge show ?thesis by blast
qed

end
