(* ===== verification/Attestation.thy ===== *)
theory Attestation
  imports IM_Runs
begin

text \<open>
  Device attestation, \<open>crates/matter-commissioning/src/attestation\<close>: the certificate wrappers
  (\<open>x509.rs\<close>, \<open>extensions.rs\<close>), the certificate profile (\<open>profile.rs\<close>), chain validation
  (\<open>chain.rs\<close>), the attestation response (\<open>response.rs\<close>) and the certification declaration
  (\<open>cd/verifier.rs\<close>).

  The crates x509-parser, webpki, ring and cms are arguments: the record \<open>pki\<close> holds the
  functions of theirs that this code calls, on the parts of a parsed certificate that it
  reads. Every check this code itself makes is a definition.
\<close>

section \<open>Errors\<close>

datatype webpki_error =
    CertExpired | CertNotValidYet | InvalidCertValidity
  | PathLenConstraintViolated | EndEntityUsedAsCa | CaUsedAsEndEntity
  | UnknownIssuer | OtherWebpkiError string

datatype matter_dn_error = NonUtf8Value | WrongLength nat | NotHex | NotUppercase

text \<open>The boxed cause of \<open>AttestationError::Parse\<close>.\<close>

datatype parse_cause =
    X509Error string
  | WebpkiError webpki_error
  | MatterDnError matter_dn_error
  | MissingRequired string
  | ForbiddenField string

datatype attestation_error =
    Parse parse_cause
  | InvalidChain webpki_error
  | TimeBoundsViolation
  | BasicConstraintsViolation
  | CertFormatViolation string
  | UntrustedRoot
  | VidMismatch u16 u16
  | PaiVidNotAuthorized
  | PaaVidScopeMismatch u16 u16
  | ResponseElementsMalformed
  | CertificationDeclarationMalformed
  | CertificationDeclarationSignatureInvalid
  | CertificationDeclarationTlvMalformed
  | CertificationDeclarationVidMismatch u16 u16
  | CertificationDeclarationPidMismatch u16
  | CertificationDeclarationPaaNotAuthorized
  | BadResponseSignature

definition map_webpki_error :: "webpki_error \<Rightarrow> attestation_error" where
  "map_webpki_error e = (case e of
     CertExpired \<Rightarrow> TimeBoundsViolation
   | CertNotValidYet \<Rightarrow> TimeBoundsViolation
   | InvalidCertValidity \<Rightarrow> TimeBoundsViolation
   | PathLenConstraintViolated \<Rightarrow> BasicConstraintsViolation
   | EndEntityUsedAsCa \<Rightarrow> BasicConstraintsViolation
   | CaUsedAsEndEntity \<Rightarrow> BasicConstraintsViolation
   | UnknownIssuer \<Rightarrow> UntrustedRoot
   | OtherWebpkiError s \<Rightarrow> InvalidChain e)"

definition map_err :: "('e \<Rightarrow> 'f) \<Rightarrow> 'e + 'a \<Rightarrow> 'f + 'a" where
  "map_err f r = (case r of Inl e \<Rightarrow> Inl (f e) | Inr x \<Rightarrow> Inr x)"

lemma map_err_simps [simp]: "map_err f (Inl e) = Inl (f e)" "map_err f (Inr x) = Inr x"
  by (simp_all add: map_err_def)

lemma map_err_Inr [simp]: "map_err f r = Inr x \<longleftrightarrow> r = Inr x"
  by (cases r) simp_all

section \<open>What the libraries provide\<close>

type_synonym oid = "nat list"

datatype parsed_extension =
    ExtBasicConstraints bool "nat option"
  | ExtKeyUsage u16
  | ExtSubjectKeyIdentifier bytes
  | ExtAuthorityKeyIdentifier "bytes option"
  | ExtOther

record x509_extension =
  ext_critical :: bool
  ext_parsed :: parsed_extension

record x509_certificate =
  x509_version :: nat
  x509_signature_algorithm :: oid
  x509_subject :: "(oid \<times> bytes option) list"
  x509_issuer_raw :: bytes
  x509_public_key :: bytes
  x509_extensions :: "x509_extension list"

record trust_anchor =
  ta_subject :: bytes
  ta_spki :: bytes

record certification_request =
  csr_public_key :: bytes
  csr_tbs :: bytes
  csr_signature :: bytes

text \<open>The encapsulated content of a CMS message: an octet string, or something else.\<close>

datatype econtent = OctetString bytes | OtherContent

record signed_data =
  sd_signatures :: "bytes list"
  sd_econtent :: "econtent option"

record pki =
  certificate_from_der :: "bytes \<Rightarrow> string + x509_certificate"
  request_from_der :: "bytes \<Rightarrow> string + certification_request \<times> bytes"
  signed_data_from_der :: "bytes \<Rightarrow> string + signed_data"
  anchor_from_trusted_cert :: "bytes \<Rightarrow> webpki_error + trust_anchor"
  end_entity_cert :: "bytes \<Rightarrow> webpki_error + unit"
  verify_for_usage :: "bytes \<Rightarrow> trust_anchor list \<Rightarrow> bytes list \<Rightarrow> u64 \<Rightarrow> webpki_error + unit"
  ecdsa_fixed_verify :: "bytes \<Rightarrow> bytes \<Rightarrow> bytes \<Rightarrow> bool"
  ecdsa_asn1_verify :: "bytes \<Rightarrow> bytes \<Rightarrow> bytes \<Rightarrow> bool"

section \<open>Vendor and product identifiers in names\<close>

definition MATTER_VID_OID :: oid where "MATTER_VID_OID = [1, 3, 6, 1, 4, 1, 37244, 2, 1]"
definition MATTER_PID_OID :: oid where "MATTER_PID_OID = [1, 3, 6, 1, 4, 1, 37244, 2, 2]"

text \<open>\<open>u16::from_str_radix(raw, 16)\<close>, which also accepts a leading plus sign.\<close>

definition hex_digit :: "byte \<Rightarrow> nat option" where
  "hex_digit b =
     (if 0x30 \<le> b \<and> b \<le> 0x39 then Some (unat b - 0x30)
      else if 0x41 \<le> b \<and> b \<le> 0x46 then Some (unat b - 0x41 + 10)
      else if 0x61 \<le> b \<and> b \<le> 0x66 then Some (unat b - 0x61 + 10)
      else None)"

fun hex_value :: "nat \<Rightarrow> bytes \<Rightarrow> nat option" where
  "hex_value acc [] = Some acc"
| "hex_value acc (b # bs) = (case hex_digit b of
     Some d \<Rightarrow> if acc * 16 + d < 2 ^ 16 then hex_value (acc * 16 + d) bs else None
   | None \<Rightarrow> None)"

definition u16_from_hex :: "bytes \<Rightarrow> u16 option" where
  "u16_from_hex bs =
     (if bs = [] \<or> bs = [0x2B] \<or> bs = [0x2D] then None
      else map_option word_of_nat (hex_value 0 (if hd bs = 0x2B then tl bs else bs)))"

definition upper_hex_digit :: "nat \<Rightarrow> byte" where
  "upper_hex_digit d = (if d < 10 then 0x30 + word_of_nat d else 0x37 + word_of_nat d)"

text \<open>\<open>format!("{value:04X}")\<close>\<close>

definition upper_hex4 :: "u16 \<Rightarrow> bytes" where
  "upper_hex4 v = map (\<lambda>i. upper_hex_digit (unat v div 16 ^ i mod 16)) [3, 2, 1, 0]"

definition extract_matter_u16 :: "(oid \<times> bytes option) list \<Rightarrow> oid \<Rightarrow> matter_dn_error + u16 option" where
  "extract_matter_u16 name oid = (case find (\<lambda>a. fst a = oid) name of
     None \<Rightarrow> Inr None
   | Some (_, None) \<Rightarrow> Inl NonUtf8Value
   | Some (_, Some raw) \<Rightarrow>
       if length raw \<noteq> 4 then Inl (WrongLength (length raw))
       else case u16_from_hex raw of
         None \<Rightarrow> Inl NotHex
       | Some v \<Rightarrow> if raw \<noteq> upper_hex4 v then Inl NotUppercase else Inr (Some v))"

definition extract_vid :: "(oid \<times> bytes option) list \<Rightarrow> matter_dn_error + u16 option" where
  "extract_vid name = extract_matter_u16 name MATTER_VID_OID"

definition extract_pid :: "(oid \<times> bytes option) list \<Rightarrow> matter_dn_error + u16 option" where
  "extract_pid name = extract_matter_u16 name MATTER_PID_OID"

section \<open>Certificate wrappers\<close>

record dac =
  dac_der :: bytes
  dac_subject_vid :: u16
  dac_subject_pid :: u16
  dac_public_key :: bytes

record pai =
  pai_der :: bytes
  pai_subject_vid :: u16
  pai_subject_pid :: "u16 option"
  pai_public_key :: bytes
  pai_issuer_raw :: bytes

record paa =
  paa_der :: bytes
  paa_subject_vid :: "u16 option"
  paa_public_key :: bytes

definition dac_from_der :: "pki \<Rightarrow> bytes \<Rightarrow> attestation_error + dac" where
  "dac_from_der L bs =
     try_bind (map_err (\<lambda>e. Parse (X509Error e)) (certificate_from_der L bs)) (\<lambda>cert.
     try_bind (map_err (\<lambda>e. Parse (MatterDnError e)) (extract_vid (x509_subject cert))) (\<lambda>vid_opt.
     try_bind (ok_or vid_opt (Parse (MissingRequired ''DAC subject VendorId''))) (\<lambda>vid.
     try_bind (map_err (\<lambda>e. Parse (MatterDnError e)) (extract_pid (x509_subject cert))) (\<lambda>pid_opt.
     try_bind (ok_or pid_opt (Parse (MissingRequired ''DAC subject ProductId''))) (\<lambda>pid.
       Inr \<lparr>dac_der = bs, dac_subject_vid = vid, dac_subject_pid = pid,
            dac_public_key = x509_public_key cert\<rparr>)))))"

definition pai_from_der :: "pki \<Rightarrow> bytes \<Rightarrow> attestation_error + pai" where
  "pai_from_der L bs =
     try_bind (map_err (\<lambda>e. Parse (X509Error e)) (certificate_from_der L bs)) (\<lambda>cert.
     try_bind (map_err (\<lambda>e. Parse (MatterDnError e)) (extract_vid (x509_subject cert))) (\<lambda>vid_opt.
     try_bind (ok_or vid_opt (Parse (MissingRequired ''PAI subject VendorId''))) (\<lambda>vid.
     try_bind (map_err (\<lambda>e. Parse (MatterDnError e)) (extract_pid (x509_subject cert))) (\<lambda>pid.
       Inr \<lparr>pai_der = bs, pai_subject_vid = vid, pai_subject_pid = pid,
            pai_public_key = x509_public_key cert, pai_issuer_raw = x509_issuer_raw cert\<rparr>))))"

definition paa_from_der :: "pki \<Rightarrow> bytes \<Rightarrow> attestation_error + paa" where
  "paa_from_der L bs =
     try_bind (map_err (\<lambda>e. Parse (X509Error e)) (certificate_from_der L bs)) (\<lambda>cert.
     try_bind (map_err (\<lambda>e. Parse (MatterDnError e)) (extract_vid (x509_subject cert))) (\<lambda>vid.
     try_bind (map_err (\<lambda>e. Parse (MatterDnError e)) (extract_pid (x509_subject cert))) (\<lambda>pid.
       if pid \<noteq> None then Inl (Parse (ForbiddenField ''PAA subject must not contain a ProductId''))
       else Inr \<lparr>paa_der = bs, paa_subject_vid = vid, paa_public_key = x509_public_key cert\<rparr>)))"

definition subject_key_identifier :: "pki \<Rightarrow> paa \<Rightarrow> bytes option" where
  "subject_key_identifier L p = (case certificate_from_der L (paa_der p) of
     Inl _ \<Rightarrow> None
   | Inr cert \<Rightarrow> (case find (\<lambda>x. case ext_parsed x of ExtSubjectKeyIdentifier _ \<Rightarrow> True | _ \<Rightarrow> False) (x509_extensions cert) of
       Some x \<Rightarrow> (case ext_parsed x of ExtSubjectKeyIdentifier kid \<Rightarrow> Some kid | _ \<Rightarrow> None)
     | None \<Rightarrow> None))"

section \<open>The certificate profile\<close>

datatype cert_role = Dac | Pai | Paa

definition OID_ECDSA_WITH_SHA256 :: oid where "OID_ECDSA_WITH_SHA256 = [1, 2, 840, 10045, 4, 3, 2]"
definition KEY_ID_LEN :: nat where "KEY_ID_LEN = 20"
definition KU_DIGITAL_SIGNATURE :: u16 where "KU_DIGITAL_SIGNATURE = 0x01"
definition KU_KEY_CERT_SIGN :: u16 where "KU_KEY_CERT_SIGN = 0x20"
definition KU_CRL_SIGN :: u16 where "KU_CRL_SIGN = 0x40"

definition X509_V3 :: nat where "X509_V3 = 2"

definition basic_constraints_ok :: "cert_role \<Rightarrow> bool \<Rightarrow> nat option \<Rightarrow> bool" where
  "basic_constraints_ok role ca path_len = (case role of
     Dac \<Rightarrow> \<not> ca \<and> path_len = None
   | Pai \<Rightarrow> ca \<and> path_len = Some 0
   | Paa \<Rightarrow> ca \<and> (path_len = None \<or> path_len = Some 1))"

definition key_usage_ok :: "cert_role \<Rightarrow> u16 \<Rightarrow> bool" where
  "key_usage_ok role flags = (case role of
     Dac \<Rightarrow> flags = KU_DIGITAL_SIGNATURE
   | _ \<Rightarrow> flags AND KU_KEY_CERT_SIGN \<noteq> 0 \<and> flags AND KU_CRL_SIGN \<noteq> 0 \<and>
          flags AND NOT (KU_DIGITAL_SIGNATURE OR KU_KEY_CERT_SIGN OR KU_CRL_SIGN) = 0)"

text \<open>The four flags of the loop: which extensions have been seen.\<close>

record seen =
  seen_basic :: bool
  seen_key_usage :: bool
  seen_skid :: bool
  seen_akid :: bool

definition check_extension :: "cert_role \<Rightarrow> x509_extension \<Rightarrow> seen \<Rightarrow> attestation_error + seen" where
  "check_extension role x s = (case ext_parsed x of
     ExtBasicConstraints ca path_len \<Rightarrow>
       if seen_basic s \<or> \<not> ext_critical x then Inl BasicConstraintsViolation
       else if \<not> basic_constraints_ok role ca path_len then Inl BasicConstraintsViolation
       else Inr (s\<lparr>seen_basic := True\<rparr>)
   | ExtKeyUsage flags \<Rightarrow>
       if seen_key_usage s \<or> \<not> ext_critical x
       then Inl (CertFormatViolation ''KeyUsage absent, non-critical, or duplicated'')
       else if \<not> key_usage_ok role flags
       then Inl (CertFormatViolation ''KeyUsage bits are wrong for the certificate role'')
       else Inr (s\<lparr>seen_key_usage := True\<rparr>)
   | ExtSubjectKeyIdentifier kid \<Rightarrow>
       if seen_skid s \<or> ext_critical x
       then Inl (CertFormatViolation ''SubjectKeyIdentifier duplicated or critical'')
       else if length kid \<noteq> KEY_ID_LEN
       then Inl (CertFormatViolation ''SubjectKeyIdentifier is not 20 bytes'')
       else Inr (s\<lparr>seen_skid := True\<rparr>)
   | ExtAuthorityKeyIdentifier key \<Rightarrow>
       if seen_akid s \<or> ext_critical x
       then Inl (CertFormatViolation ''AuthorityKeyIdentifier duplicated or critical'')
       else (case key of
           Some k \<Rightarrow> if length k = KEY_ID_LEN then Inr (s\<lparr>seen_akid := True\<rparr>)
             else Inl (CertFormatViolation ''AuthorityKeyIdentifier keyIdentifier absent or not 20 bytes'')
         | None \<Rightarrow> Inl (CertFormatViolation ''AuthorityKeyIdentifier keyIdentifier absent or not 20 bytes''))
   | ExtOther \<Rightarrow> Inr s)"

fun check_extensions :: "cert_role \<Rightarrow> x509_extension list \<Rightarrow> seen \<Rightarrow> attestation_error + seen" where
  "check_extensions role [] s = Inr s"
| "check_extensions role (x # xs) s = try_bind (check_extension role x s) (check_extensions role xs)"

definition verify_attestation_cert_format :: "pki \<Rightarrow> bytes \<Rightarrow> cert_role \<Rightarrow> attestation_error + unit" where
  "verify_attestation_cert_format L der role =
     try_bind (map_err (\<lambda>e. Parse (X509Error e)) (certificate_from_der L der)) (\<lambda>cert.
       if x509_version cert \<noteq> X509_V3 then Inl (CertFormatViolation ''certificate is not X.509 v3'')
       else if x509_signature_algorithm cert \<noteq> OID_ECDSA_WITH_SHA256
       then Inl (CertFormatViolation ''signature algorithm is not ecdsa-with-SHA256'')
       else try_bind (check_extensions role (x509_extensions cert)
              \<lparr>seen_basic = False, seen_key_usage = False, seen_skid = False, seen_akid = False\<rparr>) (\<lambda>s.
         if \<not> (seen_basic s \<and> seen_key_usage s \<and> seen_skid s)
         then Inl (CertFormatViolation
           ''missing a mandatory extension (BasicConstraints / KeyUsage / SubjectKeyIdentifier)'')
         else if (role = Dac \<or> role = Pai) \<and> \<not> seen_akid s
         then Inl (CertFormatViolation ''DAC/PAI missing the mandatory AuthorityKeyIdentifier'')
         else Inr ()))"

section \<open>Time\<close>

text \<open>\<open>MatterTime\<close> of \<open>matter-cert/src/time.rs\<close>: seconds since the beginning of 2000.\<close>

type_synonym matter_time = u32

definition MATTER_EPOCH_UNIX_OFFSET :: u64 where "MATTER_EPOCH_UNIX_OFFSET = 946684800"

definition NO_EXPIRY :: matter_time where "NO_EXPIRY = 0"

definition from_unix_secs :: "u64 \<Rightarrow> matter_time" where
  "from_unix_secs unix =
     (let since = (if unix < MATTER_EPOCH_UNIX_OFFSET then 0 else unix - MATTER_EPOCH_UNIX_OFFSET)
      in case try_u32 since of Some t \<Rightarrow> t | None \<Rightarrow> 0xFFFFFFFF)"

definition to_unix_secs :: "matter_time \<Rightarrow> u64" where
  "to_unix_secs t = ucast t + MATTER_EPOCH_UNIX_OFFSET"

section \<open>Chain validation\<close>

type_synonym paa_trust_store = "paa list"

record chain_verification =
  cv_vendor_id :: u16
  cv_product_id :: u16
  cv_dac_public_key :: bytes
  cv_paa_subject :: bytes
  cv_paa_skid :: "bytes option"

definition paa_to_trust_anchor :: "pki \<Rightarrow> paa \<Rightarrow> attestation_error + trust_anchor" where
  "paa_to_trust_anchor L p = map_err (\<lambda>e. Parse (WebpkiError e)) (anchor_from_trusted_cert L (paa_der p))"

text \<open>\<open>collect::<Result<Vec<_>, _>>\<close> and \<open>find_map\<close>.\<close>

fun collect_results :: "('a \<Rightarrow> 'e + 'b) \<Rightarrow> 'a list \<Rightarrow> 'e + 'b list" where
  "collect_results f [] = Inr []"
| "collect_results f (x # xs) = try_bind (f x) (\<lambda>y. try_bind (collect_results f xs) (\<lambda>ys. Inr (y # ys)))"

fun find_map :: "('a \<Rightarrow> 'b option) \<Rightarrow> 'a list \<Rightarrow> 'b option" where
  "find_map f [] = None"
| "find_map f (x # xs) = (case f x of Some y \<Rightarrow> Some y | None \<Rightarrow> find_map f xs)"

definition get_range :: "bytes \<Rightarrow> nat \<Rightarrow> nat \<Rightarrow> bytes option" where
  "get_range bs i j = (if i \<le> j \<and> j \<le> length bs then Some (take (j - i) (drop i bs)) else None)"

definition strip_sequence_wrapper :: "bytes \<Rightarrow> bytes option" where
  "strip_sequence_wrapper bs = (case bs of
     [] \<Rightarrow> None
   | tag # rest \<Rightarrow>
     if tag \<noteq> 0x30 then None
     else (case rest of
       [] \<Rightarrow> None
     | n # after \<Rightarrow>
       Option.bind
         (if n < 0x80 then Some (unat n, 0)
          else if n = 0x81 then (case after of [] \<Rightarrow> None | len # _ \<Rightarrow> Some (unat len, 1))
          else if n = 0x82 then (case after of hi # lo # _ \<Rightarrow> Some (unat hi * 256 + unat lo, 2) | _ \<Rightarrow> None)
          else None)
         (\<lambda>(content_len, header_bytes).
            get_range bs (2 + header_bytes) (2 + header_bytes + content_len))))"

definition anchoring_paa :: "pki \<Rightarrow> bytes \<Rightarrow> paa \<Rightarrow> (paa \<times> bytes) option" where
  "anchoring_paa L issuer p = (case paa_to_trust_anchor L p of
     Inl _ \<Rightarrow> None
   | Inr anchor \<Rightarrow> if ta_subject anchor = issuer then Some (p, ta_subject anchor) else None)"

definition verify_chain :: "pki \<Rightarrow> dac \<Rightarrow> pai \<Rightarrow> paa_trust_store \<Rightarrow> matter_time \<Rightarrow> attestation_error + chain_verification" where
  "verify_chain L d p trust_store at_time =
     try_bind (collect_results (paa_to_trust_anchor L) trust_store) (\<lambda>anchors.
     try_bind (map_err map_webpki_error (end_entity_cert L (dac_der d))) (\<lambda>_.
     try_bind (map_err map_webpki_error
       (verify_for_usage L (dac_der d) anchors [pai_der p] (to_unix_secs at_time))) (\<lambda>_.
       if dac_subject_vid d \<noteq> pai_subject_vid p
       then Inl (VidMismatch (dac_subject_vid d) (pai_subject_vid p))
       else if (case pai_subject_pid p of Some pid \<Rightarrow> pid \<noteq> dac_subject_pid d | None \<Rightarrow> False)
       then Inl PaiVidNotAuthorized
       else
         try_bind (ok_or (strip_sequence_wrapper (pai_issuer_raw p)) UntrustedRoot) (\<lambda>issuer.
         try_bind (ok_or (find_map (anchoring_paa L issuer) trust_store) UntrustedRoot) (\<lambda>(anchoring, subject).
           case paa_subject_vid anchoring of
             Some vid \<Rightarrow> if vid \<noteq> dac_subject_vid d then Inl (PaaVidScopeMismatch vid (dac_subject_vid d))
               else Inr \<lparr>cv_vendor_id = dac_subject_vid d, cv_product_id = dac_subject_pid d,
                 cv_dac_public_key = dac_public_key d, cv_paa_subject = subject,
                 cv_paa_skid = subject_key_identifier L anchoring\<rparr>
           | None \<Rightarrow> Inr \<lparr>cv_vendor_id = dac_subject_vid d, cv_product_id = dac_subject_pid d,
               cv_dac_public_key = dac_public_key d, cv_paa_subject = subject,
               cv_paa_skid = subject_key_identifier L anchoring\<rparr>)))))"

section \<open>The attestation response\<close>

record attestation_response =
  ar_elements :: bytes
  ar_signature :: bytes

definition verify_dac_signed_elements :: "pki \<Rightarrow> bytes \<Rightarrow> bytes \<Rightarrow> bytes \<Rightarrow> bytes \<Rightarrow> attestation_error + unit" where
  "verify_dac_signed_elements L elements challenge key signature =
     (if ecdsa_fixed_verify L key (elements @ challenge) signature then Inr () else Inl BadResponseSignature)"

definition verify_attestation_response :: "pki \<Rightarrow> attestation_response \<Rightarrow> bytes \<Rightarrow> bytes \<Rightarrow> attestation_error + unit" where
  "verify_attestation_response L response challenge key =
     verify_dac_signed_elements L (ar_elements response) challenge key (ar_signature response)"

record attestation_fields =
  af_certification_declaration :: bytes
  af_attestation_nonce :: bytes
  af_timestamp :: u64

text \<open>More match arms: octet strings, and the context tag of a scalar or container.\<close>

definition bytes_at :: "u8 \<Rightarrow> tlv_element \<Rightarrow> bytes option" where
  "bytes_at c e = (case scalar_at c e of Some (VBytes b) \<Rightarrow> Some b | _ \<Rightarrow> None)"

definition utf8_at :: "u8 \<Rightarrow> tlv_element \<Rightarrow> bytes option" where
  "utf8_at c e = (case scalar_at c e of Some (VUtf8 s) \<Rightarrow> Some s | _ \<Rightarrow> None)"

definition context_in :: "u8 \<Rightarrow> u8 \<Rightarrow> tlv_element \<Rightarrow> bool" where
  "context_in lo hi e = (case e of
     Scalar (Context k) _ \<Rightarrow> lo \<le> k \<and> k \<le> hi
   | ContainerStart (Context k) _ \<Rightarrow> lo \<le> k \<and> k \<le> hi
   | _ \<Rightarrow> False)"

text \<open>\<open>try_into\<close> from a slice to an array of \<open>n\<close> bytes.\<close>

definition try_array :: "nat \<Rightarrow> bytes \<Rightarrow> bytes option" where
  "try_array n b = (if length b = n then Some b else None)"

text \<open>
  These parsers map every failure to one error of their own, so the reason a round fails for
  does not matter; \<open>rejected\<close> stands for all of them.
\<close>

abbreviation rejected :: im_error where "rejected \<equiv> UnexpectedValue []"

type_synonym elements_acc = "bytes option \<times> bytes option \<times> u64 option"

definition elements_step :: "tlv_element \<Rightarrow> elements_acc \<Rightarrow> (elements_acc, elements_acc) flow im" where
  "elements_step e acc = (case acc of (cd, nonce, ts) \<Rightarrow>
     if e = ContainerEnd then ok (Done acc)
     else (case bytes_at 1 e of
       Some b \<Rightarrow> if cd \<noteq> None then err rejected else ok (Again (Some b, nonce, ts))
     | None \<Rightarrow> (case bytes_at 2 e of
       Some b \<Rightarrow> if nonce \<noteq> None then err rejected
         else andthen (need rejected (try_array 32 b)) (\<lambda>a. ok (Again (cd, Some a, ts)))
     | None \<Rightarrow> (case uint_at 3 e of
       Some v \<Rightarrow> if ts \<noteq> None then err rejected
         else andthen (need rejected (try_u32 v)) (\<lambda>_. ok (Again (cd, nonce, Some v)))
     | None \<Rightarrow>
       if bytes_at 4 e \<noteq> None then ok (Again acc)
       else if context_in 1 4 e then err rejected
       else otherwise e acc))))"

definition elements_parser :: "attestation_fields im" where
  "elements_parser =
     andthen (scan rejected elements_step (None, None, None)) (\<lambda>(cd, nonce, ts).
     andthen (need rejected cd) (\<lambda>c.
     andthen (need rejected nonce) (\<lambda>n.
     andthen (need rejected ts) (\<lambda>t.
       ok \<lparr>af_certification_declaration = c, af_attestation_nonce = n, af_timestamp = t\<rparr>))))"

definition extract_attestation_elements_fields :: "bytes \<Rightarrow> attestation_error + attestation_fields" where
  "extract_attestation_elements_fields tlv =
     map_err (\<lambda>_. ResponseElementsMalformed) (parse_with elements_parser tlv)"

section \<open>The certification declaration\<close>

type_synonym cd_signing_roots = "bytes list"

record parsed_cd =
  cd_vendor_id :: u16
  cd_product_ids :: "u16 list"
  cd_dac_origin_vendor_id :: "u16 option"
  cd_dac_origin_product_id :: "u16 option"
  cd_authorized_paa_list :: "bytes list option"

definition product_id_step :: "tlv_element \<Rightarrow> u16 list \<Rightarrow> (u16 list, u16 list) flow im" where
  "product_id_step e pids = (case e of
     ContainerEnd \<Rightarrow> ok (Done pids)
   | Scalar Anonymous (VUint p) \<Rightarrow> andthen (need rejected (try_u16 p)) (\<lambda>x. ok (Again (pids @ [x])))
   | _ \<Rightarrow> err rejected)"

definition paa_entry_step :: "tlv_element \<Rightarrow> bytes list \<Rightarrow> (bytes list, bytes list) flow im" where
  "paa_entry_step e skids = (case e of
     ContainerEnd \<Rightarrow> ok (Done skids)
   | Scalar Anonymous (VBytes b) \<Rightarrow> andthen (need rejected (try_array 20 b)) (\<lambda>x. ok (Again (skids @ [x])))
   | _ \<Rightarrow> err rejected)"

type_synonym cd_acc = "u16 option \<times> u16 list \<times> u16 option \<times> u16 option \<times> bytes list option"

definition cd_step :: "tlv_element \<Rightarrow> cd_acc \<Rightarrow> (cd_acc, cd_acc) flow im" where
  "cd_step e acc = (case acc of (vid, pids, origin_vendor, origin_product, paas) \<Rightarrow>
     if e = ContainerEnd then ok (Done acc)
     else (case uint_at 1 e of
       Some v \<Rightarrow> if vid \<noteq> None then err rejected
         else andthen (need rejected (try_u16 v)) (\<lambda>x. ok (Again (Some x, pids, origin_vendor, origin_product, paas)))
     | None \<Rightarrow>
       if starts_at 2 e = Some KArray
       then (if pids \<noteq> [] then err rejected
             else andthen (scan rejected product_id_step pids) (\<lambda>xs. ok (Again (vid, xs, origin_vendor, origin_product, paas))))
       else (case uint_at 9 e of
       Some v \<Rightarrow> if origin_vendor \<noteq> None then err rejected
         else andthen (need rejected (try_u16 v)) (\<lambda>x. ok (Again (vid, pids, Some x, origin_product, paas)))
     | None \<Rightarrow> (case uint_at 10 e of
       Some v \<Rightarrow> if origin_product \<noteq> None then err rejected
         else andthen (need rejected (try_u16 v)) (\<lambda>x. ok (Again (vid, pids, origin_vendor, Some x, paas)))
     | None \<Rightarrow>
       if starts_at 11 e = Some KArray
       then (if paas \<noteq> None then err rejected
             else andthen (scan rejected paa_entry_step []) (\<lambda>xs. ok (Again (vid, pids, origin_vendor, origin_product, Some xs))))
       else if context_in 9 11 e then err rejected
       else otherwise e acc))))"

definition cd_parser :: "parsed_cd im" where
  "cd_parser =
     andthen (scan rejected cd_step (None, [], None, None, None)) (\<lambda>(vid, pids, origin_vendor, origin_product, paas).
     andthen finish_im (\<lambda>_.
     andthen (need rejected vid) (\<lambda>v.
       if pids = [] then err rejected
       else ok \<lparr>cd_vendor_id = v, cd_product_ids = pids, cd_dac_origin_vendor_id = origin_vendor,
                cd_dac_origin_product_id = origin_product, cd_authorized_paa_list = paas\<rparr>)))"

definition parse_inner_cd_tlv :: "bytes \<Rightarrow> attestation_error + parsed_cd" where
  "parse_inner_cd_tlv tlv = map_err (\<lambda>_. CertificationDeclarationTlvMalformed) (parse_with cd_parser tlv)"

definition paa_is_authorized :: "bytes list option \<Rightarrow> bytes option \<Rightarrow> bool" where
  "paa_is_authorized entries device_paa_skid = (case entries of
     None \<Rightarrow> True
   | Some list \<Rightarrow> (case device_paa_skid of Some skid \<Rightarrow> skid \<in> set list | None \<Rightarrow> False))"

definition verify_ecdsa_p256_sha256 :: "pki \<Rightarrow> bytes \<Rightarrow> bytes \<Rightarrow> bytes \<Rightarrow> attestation_error + unit" where
  "verify_ecdsa_p256_sha256 L key msg sig =
     (if ecdsa_asn1_verify L key msg sig then Inr ()
      else if length sig = 64 \<and> ecdsa_fixed_verify L key msg sig then Inr ()
      else Inl CertificationDeclarationSignatureInvalid)"

definition check_cd_ids :: "parsed_cd \<Rightarrow> u16 \<Rightarrow> u16 \<Rightarrow> attestation_error + unit" where
  "check_cd_ids cd vid pid = (case (cd_dac_origin_vendor_id cd, cd_dac_origin_product_id cd) of
     (Some origin_vid, Some origin_pid) \<Rightarrow>
       if origin_vid \<noteq> vid then Inl (CertificationDeclarationVidMismatch origin_vid vid)
       else if origin_pid \<noteq> pid then Inl (CertificationDeclarationPidMismatch pid)
       else Inr ()
   | _ \<Rightarrow>
       if cd_vendor_id cd \<noteq> vid then Inl (CertificationDeclarationVidMismatch (cd_vendor_id cd) vid)
       else if pid \<notin> set (cd_product_ids cd) then Inl (CertificationDeclarationPidMismatch pid)
       else Inr ())"

definition verify_certification_declaration_with_paa ::
    "pki \<Rightarrow> bytes \<Rightarrow> u16 \<Rightarrow> u16 \<Rightarrow> cd_signing_roots \<Rightarrow> bytes option \<Rightarrow> attestation_error + unit" where
  "verify_certification_declaration_with_paa L cd_bytes vid pid trust skid =
     try_bind (map_err (\<lambda>_. CertificationDeclarationMalformed) (signed_data_from_der L cd_bytes)) (\<lambda>sd.
       case (sd_signatures sd, sd_econtent sd) of
         ([sig], Some (OctetString content)) \<Rightarrow>
           if \<not> (\<exists>key\<in>set trust. verify_ecdsa_p256_sha256 L key content sig = Inr ())
           then Inl CertificationDeclarationSignatureInvalid
           else try_bind (parse_inner_cd_tlv content) (\<lambda>cd.
                try_bind (check_cd_ids cd vid pid) (\<lambda>_.
                  if \<not> paa_is_authorized (cd_authorized_paa_list cd) skid
                  then Inl CertificationDeclarationPaaNotAuthorized else Inr ()))
       | _ \<Rightarrow> Inl CertificationDeclarationMalformed)"

definition verify_certification_declaration ::
    "pki \<Rightarrow> bytes \<Rightarrow> u16 \<Rightarrow> u16 \<Rightarrow> cd_signing_roots \<Rightarrow> attestation_error + unit" where
  "verify_certification_declaration L cd_bytes vid pid trust =
     verify_certification_declaration_with_paa L cd_bytes vid pid trust None"

definition cert_der_public_key :: "pki \<Rightarrow> bytes \<Rightarrow> bytes option" where
  "cert_der_public_key L der = (case certificate_from_der L der of
     Inl _ \<Rightarrow> None
   | Inr cert \<Rightarrow> (let pk = x509_public_key cert in if length pk = 65 \<and> hd pk = 0x04 then Some pk else None))"

definition roots_from_cert_der :: "pki \<Rightarrow> bytes list \<Rightarrow> attestation_error + cd_signing_roots" where
  "roots_from_cert_der L certs =
     collect_results (\<lambda>der. ok_or (cert_der_public_key L der) CertificationDeclarationMalformed) certs"

end
