(* ===== verification/Attestation_Properties.thy ===== *)
theory Attestation_Properties
  imports Attestation
begin

text \<open>
  What the attestation checks accept. Identifiers in names are read exactly from their
  canonical form; the loop over a certificate's extensions accepts exactly the profile of
  its role; a chain is accepted exactly when the path validates and the identifiers agree; a
  certification declaration exactly when a trusted key signed it and it covers the product.
\<close>

section \<open>Identifiers\<close>

lemma hex_digit_upper: "d < 16 \<Longrightarrow> hex_digit (upper_hex_digit d) = Some d"
proof -
  assume "d < 16"
  then have "d \<in> set [0..<16]" by simp
  moreover have "\<forall>d\<in>set [0..<16]. hex_digit (upper_hex_digit d) = Some d"
    by (simp add: upt_rec hex_digit_def upper_hex_digit_def)
  ultimately show ?thesis by blast
qed

lemma upper_hex4_digits:
  "upper_hex4 v = [upper_hex_digit (unat v div 4096 mod 16), upper_hex_digit (unat v div 256 mod 16),
     upper_hex_digit (unat v div 16 mod 16), upper_hex_digit (unat v mod 16)]"
  by (simp add: upper_hex4_def)

lemma upper_hex_digit_not_sign: "d < 16 \<Longrightarrow> upper_hex_digit d \<noteq> 0x2B"
proof -
  assume "d < 16"
  then have "d \<in> set [0..<16]" by simp
  moreover have "\<forall>d\<in>set [0..<16]. upper_hex_digit d \<noteq> 0x2B" by (simp add: upt_rec upper_hex_digit_def)
  ultimately show ?thesis by blast
qed

lemma digits_value:
  fixes n :: nat
  assumes "n < 2 ^ 16"
  shows "((n div 4096 mod 16 * 16 + n div 256 mod 16) * 16 + n div 16 mod 16) * 16 + n mod 16 = n"
proof -
  define a where "a = n div 16"
  define b where "b = a div 16"
  define c where "c = b div 16"
  have d: "n div 256 = b" "n div 4096 = c" "n div 16 = a" by (simp_all add: a_def b_def c_def div_mult2_eq [symmetric])
  have "c < 16" using assms by (simp add: d(2) [symmetric])
  then have c: "c mod 16 = c" by simp
  have "c * 16 + b mod 16 = b" "b * 16 + a mod 16 = a" "a * 16 + n mod 16 = n"
    by (simp_all add: a_def b_def c_def)
  then show ?thesis unfolding d c by (simp only:)
qed

lemma hex_value_digits:
  assumes "a < 16" "b < 16" "c < 16" "d < 16"
  shows "hex_value 0 (map upper_hex_digit [a, b, c, d]) = Some (((a * 16 + b) * 16 + c) * 16 + d)"
  using assms by (simp add: hex_digit_upper)

lemma u16_from_upper_hex: "u16_from_hex (upper_hex4 v) = Some v"
proof -
  have n: "unat v < 2 ^ 16" using unat_bound [of v] by simp
  have "hex_value 0 (upper_hex4 v) = Some (unat v)"
    using hex_value_digits [of "unat v div 4096 mod 16" "unat v div 256 mod 16" "unat v div 16 mod 16" "unat v mod 16"]
      digits_value [OF n] by (simp only: upper_hex4_digits list.map)
  then show ?thesis
    using upper_hex_digit_not_sign by (simp add: u16_from_hex_def upper_hex4_digits)
qed

lemma length_upper_hex4 [simp]: "length (upper_hex4 v) = 4"
  by (simp add: upper_hex4_def)

lemma upper_hex4_inject [simp]: "upper_hex4 v = upper_hex4 w \<longleftrightarrow> v = w"
  by (metis u16_from_upper_hex option.inject)

lemma find_key: "find (\<lambda>a. fst a = k) xs = Some a \<Longrightarrow> fst a = k"
  by (induction xs) (auto split: if_splits)

lemma extract_matter_u16_exact:
  "extract_matter_u16 name oid = Inr (Some v) \<longleftrightarrow> find (\<lambda>a. fst a = oid) name = Some (oid, Some (upper_hex4 v))"
proof (cases "find (\<lambda>a. fst a = oid) name")
  case (Some a)
  moreover obtain s where "a = (oid, s)" using find_key [OF Some] by (cases a) simp
  ultimately show ?thesis
    by (auto simp: extract_matter_u16_def u16_from_upper_hex split: option.splits if_splits)
qed (simp add: extract_matter_u16_def)

section \<open>The certificate profile\<close>

definition is_basic :: "x509_extension \<Rightarrow> bool" where
  "is_basic x = (case ext_parsed x of ExtBasicConstraints _ _ \<Rightarrow> True | _ \<Rightarrow> False)"

definition is_key_usage :: "x509_extension \<Rightarrow> bool" where
  "is_key_usage x = (case ext_parsed x of ExtKeyUsage _ \<Rightarrow> True | _ \<Rightarrow> False)"

definition is_skid :: "x509_extension \<Rightarrow> bool" where
  "is_skid x = (case ext_parsed x of ExtSubjectKeyIdentifier _ \<Rightarrow> True | _ \<Rightarrow> False)"

definition is_akid :: "x509_extension \<Rightarrow> bool" where
  "is_akid x = (case ext_parsed x of ExtAuthorityKeyIdentifier _ \<Rightarrow> True | _ \<Rightarrow> False)"

definition good_basic :: "cert_role \<Rightarrow> x509_extension \<Rightarrow> bool" where
  "good_basic role x = (ext_critical x \<and>
     (case ext_parsed x of ExtBasicConstraints ca len \<Rightarrow> basic_constraints_ok role ca len | _ \<Rightarrow> False))"

definition good_key_usage :: "cert_role \<Rightarrow> x509_extension \<Rightarrow> bool" where
  "good_key_usage role x = (ext_critical x \<and>
     (case ext_parsed x of ExtKeyUsage flags \<Rightarrow> key_usage_ok role flags | _ \<Rightarrow> False))"

definition good_skid :: "x509_extension \<Rightarrow> bool" where
  "good_skid x = (\<not> ext_critical x \<and>
     (case ext_parsed x of ExtSubjectKeyIdentifier kid \<Rightarrow> length kid = 20 | _ \<Rightarrow> False))"

definition good_akid :: "x509_extension \<Rightarrow> bool" where
  "good_akid x = (\<not> ext_critical x \<and>
     (case ext_parsed x of ExtAuthorityKeyIdentifier (Some kid) \<Rightarrow> length kid = 20 | _ \<Rightarrow> False))"

text \<open>One extension of a kind, and a good one; after one has been seen, none.\<close>

definition at_most_one :: "bool \<Rightarrow> ('a \<Rightarrow> bool) \<Rightarrow> 'a list \<Rightarrow> bool" where
  "at_most_one seen good xs \<longleftrightarrow> xs = [] \<or> \<not> seen \<and> (\<exists>x. xs = [x] \<and> good x)"

lemma at_most_one_simps [simp]:
  "at_most_one s good []"
  "at_most_one s good (x # xs) \<longleftrightarrow> \<not> s \<and> good x \<and> xs = []"
  "at_most_one True good xs \<longleftrightarrow> xs = []"
  by (auto simp: at_most_one_def)

lemma check_extensions_exact:
  "check_extensions role xs s = Inr s' \<longleftrightarrow>
     at_most_one (seen_basic s) (good_basic role) (filter is_basic xs) \<and>
     at_most_one (seen_key_usage s) (good_key_usage role) (filter is_key_usage xs) \<and>
     at_most_one (seen_skid s) good_skid (filter is_skid xs) \<and>
     at_most_one (seen_akid s) good_akid (filter is_akid xs) \<and>
     s' = \<lparr>seen_basic = seen_basic s \<or> filter is_basic xs \<noteq> [],
           seen_key_usage = seen_key_usage s \<or> filter is_key_usage xs \<noteq> [],
           seen_skid = seen_skid s \<or> filter is_skid xs \<noteq> [],
           seen_akid = seen_akid s \<or> filter is_akid xs \<noteq> []\<rparr>"
proof (induction xs arbitrary: s)
  case Nil
  show ?case by auto
next
  case (Cons x xs)
  note kinds = is_basic_def is_key_usage_def is_skid_def is_akid_def
    good_basic_def good_key_usage_def good_skid_def good_akid_def
  show ?case
    by (cases "ext_parsed x") (auto simp: check_extension_def kinds KEY_ID_LEN_def Cons.IH split: option.splits)
qed

definition profile :: "cert_role \<Rightarrow> x509_certificate \<Rightarrow> bool" where
  "profile role cert \<longleftrightarrow> x509_version cert = 2 \<and> x509_signature_algorithm cert = OID_ECDSA_WITH_SHA256 \<and>
     (let xs = x509_extensions cert in
      (\<exists>x. filter is_basic xs = [x] \<and> good_basic role x) \<and>
      (\<exists>x. filter is_key_usage xs = [x] \<and> good_key_usage role x) \<and>
      (\<exists>x. filter is_skid xs = [x] \<and> good_skid x) \<and>
      ((\<exists>x. filter is_akid xs = [x] \<and> good_akid x) \<or> role = Paa \<and> filter is_akid xs = []))"

text \<open>
  C19. The certificate check accepts exactly the certificates of the profile: X.509 version 3,
  signed with ECDSA and SHA-256, with exactly one critical BasicConstraints and one critical
  KeyUsage extension that fit the role, exactly one SubjectKeyIdentifier of 20 bytes, and an
  AuthorityKeyIdentifier of 20 bytes that only a root may lack.
\<close>

theorem cert_format_exact:
  "verify_attestation_cert_format L der role = Inr () \<longleftrightarrow>
     (\<exists>cert. certificate_from_der L der = Inr cert \<and> profile role cert)"
proof (cases "certificate_from_der L der")
  case (Inr cert)
  let ?s = "\<lparr>seen_basic = False, seen_key_usage = False, seen_skid = False, seen_akid = False\<rparr>"
  have "verify_attestation_cert_format L der role = Inr () \<longleftrightarrow>
      x509_version cert = 2 \<and> x509_signature_algorithm cert = OID_ECDSA_WITH_SHA256 \<and>
      (\<exists>s. check_extensions role (x509_extensions cert) ?s = Inr s \<and>
         seen_basic s \<and> seen_key_usage s \<and> seen_skid s \<and> (seen_akid s \<or> role = Paa))"
    using Inr by (cases role; cases "check_extensions role (x509_extensions cert) ?s")
      (auto simp: verify_attestation_cert_format_def X509_V3_def)
  also have "\<dots> \<longleftrightarrow> profile role cert"
    unfolding check_extensions_exact profile_def Let_def at_most_one_def by (rule iffI) (clarsimp, fastforce)+
  finally show ?thesis using Inr by simp
qed (simp add: verify_attestation_cert_format_def)

section \<open>Chains\<close>

lemma find_map_append: "find_map f (xs @ ys) = (case find_map f xs of None \<Rightarrow> find_map f ys | r \<Rightarrow> r)"
  by (induction xs) (auto split: option.splits)

lemma find_map_None: "find_map f xs = None \<longleftrightarrow> (\<forall>x\<in>set xs. f x = None)"
  by (induction xs) (auto split: option.splits)

lemma find_map_split:
  "find_map f xs = Some y \<Longrightarrow> \<exists>ys x zs. xs = ys @ x # zs \<and> f x = Some y \<and> (\<forall>u\<in>set ys. f u = None)"
proof (induction xs)
  case (Cons a xs)
  show ?case
  proof (cases "f a")
    case None
    with Cons obtain ys x zs where "xs = ys @ x # zs" "f x = Some y" "\<forall>u\<in>set ys. f u = None" by auto
    with None have "a # xs = (a # ys) @ x # zs" "\<forall>u\<in>set (a # ys). f u = None" by simp_all
    with \<open>f x = Some y\<close> show ?thesis by blast
  next
    case (Some b)
    with Cons.prems have "a # xs = [] @ a # xs" "f a = Some y" by simp_all
    then show ?thesis by fastforce
  qed
qed simp

lemma find_map_Some:
  "find_map f xs = Some y \<longleftrightarrow> (\<exists>ys x zs. xs = ys @ x # zs \<and> f x = Some y \<and> (\<forall>u\<in>set ys. f u = None))"
proof
  assume "\<exists>ys x zs. xs = ys @ x # zs \<and> f x = Some y \<and> (\<forall>u\<in>set ys. f u = None)"
  then obtain ys x zs where "xs = ys @ x # zs" "f x = Some y" "find_map f ys = None"
    by (auto simp: find_map_None)
  then show "find_map f xs = Some y" by (simp add: find_map_append)
qed (rule find_map_split)

text \<open>The first root of the store whose subject is the issuer of the intermediate.\<close>

definition anchors_at :: "pki \<Rightarrow> pai \<Rightarrow> paa list \<Rightarrow> paa \<Rightarrow> bool" where
  "anchors_at L p store root \<longleftrightarrow> (\<exists>issuer before after.
     strip_sequence_wrapper (pai_issuer_raw p) = Some issuer \<and> store = before @ root # after \<and>
     (\<exists>anchor. paa_to_trust_anchor L root = Inr anchor \<and> ta_subject anchor = issuer) \<and>
     (\<forall>q\<in>set before. \<forall>anchor. paa_to_trust_anchor L q = Inr anchor \<longrightarrow> ta_subject anchor \<noteq> issuer))"

lemma anchoring_paa_eq:
  "anchoring_paa L issuer q = Some (r, subject) \<longleftrightarrow>
     r = q \<and> subject = issuer \<and> (\<exists>anchor. paa_to_trust_anchor L q = Inr anchor \<and> ta_subject anchor = issuer)"
  "anchoring_paa L issuer q = None \<longleftrightarrow>
     (\<forall>anchor. paa_to_trust_anchor L q = Inr anchor \<longrightarrow> ta_subject anchor \<noteq> issuer)"
  by (auto simp: anchoring_paa_def split: sum.splits)

lemma find_anchoring:
  "(\<exists>issuer. strip_sequence_wrapper (pai_issuer_raw p) = Some issuer \<and>
      find_map (anchoring_paa L issuer) store = Some (root, subject)) \<longleftrightarrow>
   anchors_at L p store root \<and> strip_sequence_wrapper (pai_issuer_raw p) = Some subject"
  (is "?l \<longleftrightarrow> ?r")
proof
  assume ?l
  then obtain issuer ys x zs where i: "strip_sequence_wrapper (pai_issuer_raw p) = Some issuer"
    "store = ys @ x # zs" "anchoring_paa L issuer x = Some (root, subject)" "\<forall>u\<in>set ys. anchoring_paa L issuer u = None"
    unfolding find_map_Some by blast
  then have "root = x" "subject = issuer" unfolding anchoring_paa_eq by simp_all
  with i show ?r unfolding anchoring_paa_eq anchors_at_def by blast
next
  assume ?r
  then obtain before after where "store = before @ root # after"
    "anchoring_paa L subject root = Some (root, subject)" "\<forall>u\<in>set before. anchoring_paa L subject u = None"
    "strip_sequence_wrapper (pai_issuer_raw p) = Some subject"
    unfolding anchors_at_def anchoring_paa_eq by auto
  then show ?l unfolding find_map_Some by blast
qed

text \<open>
  C15. A chain is accepted exactly when the path from the device certificate over the intermediate
  to the roots of the store validates at the given time, both certificates name the same
  vendor, an intermediate bound to a product is bound to that of the device, and the first
  root whose subject issued the intermediate is bound to no other vendor. The result names
  the vendor and product of the device and the key identifier of that root.
\<close>

theorem chain_accepted_exact:
  "verify_chain L d p store t = Inr cv \<longleftrightarrow>
     (\<exists>anchors root. collect_results (paa_to_trust_anchor L) store = Inr anchors \<and>
        end_entity_cert L (dac_der d) = Inr () \<and>
        verify_for_usage L (dac_der d) anchors [pai_der p] (to_unix_secs t) = Inr () \<and>
        dac_subject_vid d = pai_subject_vid p \<and>
        pai_subject_pid p \<in> {None, Some (dac_subject_pid d)} \<and>
        anchors_at L p store root \<and>
        paa_subject_vid root \<in> {None, Some (dac_subject_vid d)} \<and>
        cv = \<lparr>cv_vendor_id = dac_subject_vid d, cv_product_id = dac_subject_pid d,
              cv_dac_public_key = dac_public_key d,
              cv_paa_subject = the (strip_sequence_wrapper (pai_issuer_raw p)),
              cv_paa_skid = subject_key_identifier L root\<rparr>)"
proof -
  let ?cv = "\<lambda>root subject. \<lparr>cv_vendor_id = dac_subject_vid d, cv_product_id = dac_subject_pid d,
    cv_dac_public_key = dac_public_key d, cv_paa_subject = subject, cv_paa_skid = subject_key_identifier L root\<rparr>"
  let ?path = "\<exists>anchors. collect_results (paa_to_trust_anchor L) store = Inr anchors \<and>
    end_entity_cert L (dac_der d) = Inr () \<and>
    verify_for_usage L (dac_der d) anchors [pai_der p] (to_unix_secs t) = Inr ()"
  have "verify_chain L d p store t = Inr cv \<longleftrightarrow> ?path \<and> dac_subject_vid d = pai_subject_vid p \<and>
      pai_subject_pid p \<in> {None, Some (dac_subject_pid d)} \<and>
      (\<exists>root subject. (\<exists>issuer. strip_sequence_wrapper (pai_issuer_raw p) = Some issuer \<and>
           find_map (anchoring_paa L issuer) store = Some (root, subject)) \<and>
         paa_subject_vid root \<in> {None, Some (dac_subject_vid d)} \<and> cv = ?cv root subject)"
    by (auto simp: verify_chain_def try_bind_eq_Inr ok_or_def split: option.splits if_splits)
  moreover have "anchors_at L p store root \<and> strip_sequence_wrapper (pai_issuer_raw p) = Some subject \<longleftrightarrow>
      anchors_at L p store root \<and> subject = the (strip_sequence_wrapper (pai_issuer_raw p))" for root subject
    by (auto simp: anchors_at_def)
  ultimately show ?thesis unfolding find_anchoring by (simp only:) blast
qed

section \<open>Certification declarations\<close>

definition covers :: "parsed_cd \<Rightarrow> u16 \<Rightarrow> u16 \<Rightarrow> bool" where
  "covers cd vid pid = (case (cd_dac_origin_vendor_id cd, cd_dac_origin_product_id cd) of
     (Some origin_vid, Some origin_pid) \<Rightarrow> origin_vid = vid \<and> origin_pid = pid
   | _ \<Rightarrow> cd_vendor_id cd = vid \<and> pid \<in> set (cd_product_ids cd))"

lemma check_cd_ids_exact: "check_cd_ids cd vid pid = Inr () \<longleftrightarrow> covers cd vid pid"
  by (auto simp: check_cd_ids_def covers_def split: option.splits)

lemma ecdsa_exact:
  "verify_ecdsa_p256_sha256 L key msg sig = Inr () \<longleftrightarrow>
     ecdsa_asn1_verify L key msg sig \<or> length sig = 64 \<and> ecdsa_fixed_verify L key msg sig"
  by (simp add: verify_ecdsa_p256_sha256_def)

text \<open>
  C16. A certification declaration is accepted exactly when it is a signed message with one
  signature, by a trusted key, over attached content that decodes, and the content covers the
  vendor and product of the device and, where it lists roots, the root the device was
  attested by.
\<close>

theorem declaration_accepted_exact:
  "verify_certification_declaration_with_paa L bs vid pid trust skid = Inr () \<longleftrightarrow>
     (\<exists>sd sig content cd key. signed_data_from_der L bs = Inr sd \<and> sd_signatures sd = [sig] \<and>
        sd_econtent sd = Some (OctetString content) \<and> key \<in> set trust \<and>
        (ecdsa_asn1_verify L key content sig \<or> length sig = 64 \<and> ecdsa_fixed_verify L key content sig) \<and>
        parse_inner_cd_tlv content = Inr cd \<and> covers cd vid pid \<and>
        (case cd_authorized_paa_list cd of None \<Rightarrow> True | Some roots \<Rightarrow> \<exists>k. skid = Some k \<and> k \<in> set roots))"
proof -
  have auth: "paa_is_authorized l skid \<longleftrightarrow> (case l of None \<Rightarrow> True | Some roots \<Rightarrow> \<exists>k. skid = Some k \<and> k \<in> set roots)" for l
    by (auto simp: paa_is_authorized_def split: option.splits)
  show ?thesis
  proof (cases "signed_data_from_der L bs")
    case (Inr sd)
    show ?thesis
    proof (cases "\<exists>sig content. sd_signatures sd = [sig] \<and> sd_econtent sd = Some (OctetString content)")
      case True
      then obtain sig content where c: "sd_signatures sd = [sig]" "sd_econtent sd = Some (OctetString content)" by blast
      show ?thesis
        using Inr c auth by (cases "parse_inner_cd_tlv content")
          (auto simp: verify_certification_declaration_with_paa_def try_bind_eq_Inr check_cd_ids_exact ecdsa_exact)
    next
      case False
      then show ?thesis
        using Inr by (auto simp: verify_certification_declaration_with_paa_def
            split: list.splits option.splits econtent.splits)
    qed
  qed (simp add: verify_certification_declaration_with_paa_def)
qed

text \<open>A declaration that lists roots is refused when the caller names none.\<close>

lemma listed_roots_need_skid:
  "verify_certification_declaration L bs vid pid trust = Inr () \<Longrightarrow>
   signed_data_from_der L bs = Inr sd \<Longrightarrow> sd_econtent sd = Some (OctetString content) \<Longrightarrow>
   parse_inner_cd_tlv content = Inr cd \<Longrightarrow> cd_authorized_paa_list cd = None"
  by (auto simp: verify_certification_declaration_def verify_certification_declaration_with_paa_def
      paa_is_authorized_def try_bind_eq_Inr split: list.splits option.splits if_splits)

end
