(* ===== verification/Certificates.thy ===== *)
theory Certificates
  imports Attestation
begin

text \<open>
  Operational certificates in their TLV form, \<open>crates/matter-cert/src\<close>: errors (\<open>error.rs\<close>), names
  (\<open>name.rs\<close>), extensions (\<open>extensions.rs\<close>), keys and signatures (\<open>public_key.rs\<close>, \<open>signature.rs\<close>)
  and the certificate itself (\<open>certificate.rs\<close>). Context tags are the numbers of \<open>tlv_tags.rs\<close>.
  Strings are their UTF-8 bytes; fixed-size arrays are byte lists whose length the constructors
  check.
\<close>

datatype cert_error =
    CertCodec tlv_error
  | CertMissingField u8
  | DuplicateField u8
  | WrongFieldType u8
  | FieldValueOutOfRange u8
  | InvalidSerialLength nat
  | UnsupportedSignatureAlgorithm u8
  | UnsupportedPublicKeyAlgorithm u8
  | UnsupportedEcCurve u8
  | WrongPublicKeyLength nat
  | BadPublicKeyPrefix
  | MissingBuilderField string
  | WrongSignatureLength nat
  | InvalidDnAttribute u8
  | InvalidDnAttributeType u8
  | WrongKeyIdentifierLength nat
  | DnAttributeHasNoX509Oid u8
  | DnAttributeNotTlvEncodable string
  | InvalidDnAttributeForX509 string string
  | SignatureVerificationFailed
  | CertSigningFailed string
  | NotYetValid u8 matter_time matter_time
  | CertificateExpired u8 matter_time matter_time
  | CertUntrustedRoot
  | IssuerSubjectMismatch u8
  | NotACa u8
  | PathLengthExceeded u8
  | MissingKeyCertSign u8
  | LeafIsCa

type_synonym 'a cert_parser = "(cert_error, 'a) parser"
type_synonym cert_writer = "(bytes, cert_error, unit) comp"

text \<open>A result that does not depend on the receiver.\<close>

definition lift_result :: "'e + 'a \<Rightarrow> ('s, 'e, 'a) comp" where
  "lift_result r s = (r, s)"

section \<open>Names\<close>

datatype dn_value = DnUtf8 bytes | DnUint u64 | DnBytes bytes

datatype dn_attribute =
    CommonName bytes
  | Surname bytes
  | SerialNumber bytes
  | CountryName bytes
  | LocalityName bytes
  | StateOrProvinceName bytes
  | OrganizationName bytes
  | OrganizationalUnitName bytes
  | Title bytes
  | Name bytes
  | GivenName bytes
  | Initials bytes
  | GenerationQualifier bytes
  | DnQualifier bytes
  | Pseudonym bytes
  | DomainComponent bytes
  | NodeId u64
  | IcacId u64
  | RcacId u64
  | FabricId u64
  | CaseAuthenticatedTag u32
  | VendorId u16
  | ProductId u16
  | OtherAttribute u8 dn_value

type_synonym distinguished_name = "dn_attribute list"

definition node_id :: "distinguished_name \<Rightarrow> u64 option" where
  "node_id = find_map (\<lambda>a. case a of NodeId v \<Rightarrow> Some v | _ \<Rightarrow> None)"

definition fabric_id :: "distinguished_name \<Rightarrow> u64 option" where
  "fabric_id = find_map (\<lambda>a. case a of FabricId v \<Rightarrow> Some v | _ \<Rightarrow> None)"

definition rcac_id :: "distinguished_name \<Rightarrow> u64 option" where
  "rcac_id = find_map (\<lambda>a. case a of RcacId v \<Rightarrow> Some v | _ \<Rightarrow> None)"

definition icac_id :: "distinguished_name \<Rightarrow> u64 option" where
  "icac_id = find_map (\<lambda>a. case a of IcacId v \<Rightarrow> Some v | _ \<Rightarrow> None)"

definition is_dn_tag :: "u8 \<Rightarrow> bool" where
  "is_dn_tag t \<longleftrightarrow> 1 \<le> t \<and> t \<le> 26"

definition is_untyped_dn_tag :: "u8 \<Rightarrow> bool" where
  "is_untyped_dn_tag t \<longleftrightarrow> t = 18 \<or> 23 \<le> t \<and> t \<le> 26"

text \<open>The last two arms of the decoder: an unknown tag, and a known one with a value of another type.\<close>

definition undecodable :: "u8 \<Rightarrow> cert_error + dn_attribute" where
  "undecodable t = (if \<not> is_dn_tag t then Inl (InvalidDnAttribute t) else Inl (InvalidDnAttributeType t))"

definition decode_attribute :: "u8 \<Rightarrow> tlv_value \<Rightarrow> cert_error + dn_attribute" where
  "decode_attribute t value = (case value of
     VUtf8 s \<Rightarrow>
       (if t = 1 then Inr (CommonName s)
        else if t = 2 then Inr (Surname s)
        else if t = 3 then Inr (SerialNumber s)
        else if t = 4 then Inr (CountryName s)
        else if t = 5 then Inr (LocalityName s)
        else if t = 6 then Inr (StateOrProvinceName s)
        else if t = 7 then Inr (OrganizationName s)
        else if t = 8 then Inr (OrganizationalUnitName s)
        else if t = 9 then Inr (Title s)
        else if t = 10 then Inr (Name s)
        else if t = 11 then Inr (GivenName s)
        else if t = 12 then Inr (Initials s)
        else if t = 13 then Inr (GenerationQualifier s)
        else if t = 14 then Inr (DnQualifier s)
        else if t = 15 then Inr (Pseudonym s)
        else if t = 16 then Inr (DomainComponent s)
        else if is_untyped_dn_tag t then Inr (OtherAttribute t (DnUtf8 s))
        else undecodable t)
   | VUint v \<Rightarrow>
       (if t = 17 then Inr (NodeId v)
        else if t = 19 then Inr (IcacId v)
        else if t = 20 then Inr (RcacId v)
        else if t = 21 then Inr (FabricId v)
        else if t = 22 then (case try_u32 v of Some v32 \<Rightarrow> Inr (CaseAuthenticatedTag v32) | None \<Rightarrow> Inl (FieldValueOutOfRange t))
        else if is_untyped_dn_tag t then Inr (OtherAttribute t (DnUint v))
        else undecodable t)
   | VBytes b \<Rightarrow>
       (if is_untyped_dn_tag t then Inr (OtherAttribute t (DnBytes b)) else undecodable t)
   | _ \<Rightarrow> undecodable t)"

definition read_dn_step :: "tlv_element \<Rightarrow> distinguished_name \<Rightarrow> (distinguished_name, distinguished_name) flow cert_parser" where
  "read_dn_step e attrs = (case e of
     ContainerEnd \<Rightarrow> ok (Done attrs)
   | Scalar (Context t) v \<Rightarrow> andthen (lift_result (decode_attribute t v)) (\<lambda>a. ok (Again (attrs @ [a])))
   | Scalar _ _ \<Rightarrow> err (InvalidDnAttribute 0)
   | ContainerStart _ _ \<Rightarrow> err (WrongFieldType 0))"

definition read_dn :: "distinguished_name cert_parser" where
  "read_dn = scan_as (CertCodec UnclosedContainer) CertCodec read_dn_step []"

abbreviation cert_put :: "unit writer \<Rightarrow> cert_writer" where
  "cert_put \<equiv> codec_as CertCodec"

fun encode_attribute :: "dn_attribute \<Rightarrow> cert_writer" where
  "encode_attribute (CommonName s) = cert_put (put_utf8 (Context 1) s)"
| "encode_attribute (Surname s) = cert_put (put_utf8 (Context 2) s)"
| "encode_attribute (SerialNumber s) = cert_put (put_utf8 (Context 3) s)"
| "encode_attribute (CountryName s) = cert_put (put_utf8 (Context 4) s)"
| "encode_attribute (LocalityName s) = cert_put (put_utf8 (Context 5) s)"
| "encode_attribute (StateOrProvinceName s) = cert_put (put_utf8 (Context 6) s)"
| "encode_attribute (OrganizationName s) = cert_put (put_utf8 (Context 7) s)"
| "encode_attribute (OrganizationalUnitName s) = cert_put (put_utf8 (Context 8) s)"
| "encode_attribute (Title s) = cert_put (put_utf8 (Context 9) s)"
| "encode_attribute (Name s) = cert_put (put_utf8 (Context 10) s)"
| "encode_attribute (GivenName s) = cert_put (put_utf8 (Context 11) s)"
| "encode_attribute (Initials s) = cert_put (put_utf8 (Context 12) s)"
| "encode_attribute (GenerationQualifier s) = cert_put (put_utf8 (Context 13) s)"
| "encode_attribute (DnQualifier s) = cert_put (put_utf8 (Context 14) s)"
| "encode_attribute (Pseudonym s) = cert_put (put_utf8 (Context 15) s)"
| "encode_attribute (DomainComponent s) = cert_put (put_utf8 (Context 16) s)"
| "encode_attribute (NodeId v) = cert_put (put_uint (Context 17) v)"
| "encode_attribute (IcacId v) = cert_put (put_uint (Context 19) v)"
| "encode_attribute (RcacId v) = cert_put (put_uint (Context 20) v)"
| "encode_attribute (FabricId v) = cert_put (put_uint (Context 21) v)"
| "encode_attribute (CaseAuthenticatedTag v) = cert_put (put_uint (Context 22) (ucast v))"
| "encode_attribute (VendorId v) = err (DnAttributeNotTlvEncodable ''VendorId'')"
| "encode_attribute (ProductId v) = err (DnAttributeNotTlvEncodable ''ProductId'')"
| "encode_attribute (OtherAttribute t (DnUtf8 s)) = cert_put (put_utf8 (Context t) s)"
| "encode_attribute (OtherAttribute t (DnUint v)) = cert_put (put_uint (Context t) v)"
| "encode_attribute (OtherAttribute t (DnBytes b)) = cert_put (put_bytes (Context t) b)"

fun encode_attributes :: "distinguished_name \<Rightarrow> cert_writer" where
  "encode_attributes [] = ok ()"
| "encode_attributes (a # attrs) = andthen (encode_attribute a) (\<lambda>_. encode_attributes attrs)"

definition write_dn :: "distinguished_name \<Rightarrow> tag \<Rightarrow> cert_writer" where
  "write_dn dn outer_tag =
     andthen (cert_put (start_list outer_tag)) (\<lambda>_.
     andthen (encode_attributes dn) (\<lambda>_. cert_put end_container))"

section \<open>Keys and signatures\<close>

definition public_key_new :: "bytes \<Rightarrow> cert_error + bytes" where
  "public_key_new bs = (if bs ! 0 \<noteq> 0x04 then Inl BadPublicKeyPrefix else Inr bs)"

definition public_key_from_slice :: "bytes \<Rightarrow> cert_error + bytes" where
  "public_key_from_slice raw = (case try_array 65 raw of
     None \<Rightarrow> Inl (WrongPublicKeyLength (length raw))
   | Some bs \<Rightarrow> public_key_new bs)"

definition signature_from_slice :: "bytes \<Rightarrow> cert_error + bytes" where
  "signature_from_slice raw = (case try_array 64 raw of
     None \<Rightarrow> Inl (WrongSignatureLength (length raw))
   | Some bs \<Rightarrow> Inr bs)"

text \<open>\<open>PublicKey::verify\<close>; the elliptic-curve check is \<open>ring\<close>'s.\<close>

definition public_key_verify :: "(bytes \<Rightarrow> bytes \<Rightarrow> bytes \<Rightarrow> bool) \<Rightarrow> bytes \<Rightarrow> bytes \<Rightarrow> bytes \<Rightarrow> cert_error + unit" where
  "public_key_verify ecdsa key message signature =
     (if ecdsa key message signature then Inr () else Inl SignatureVerificationFailed)"

section \<open>Extensions\<close>

record basic_constraints =
  bc_is_ca :: bool
  bc_path_len :: "u8 option"

record cert_extensions =
  ex_basic_constraints :: "basic_constraints option"
  ex_key_usage :: "u16 option"
  ex_extended_key_usage :: "u32 list option"
  ex_subject_key_identifier :: "bytes option"
  ex_authority_key_identifier :: "bytes option"

definition extensions_default :: cert_extensions where
  "extensions_default = \<lparr>ex_basic_constraints = None, ex_key_usage = None, ex_extended_key_usage = None,
     ex_subject_key_identifier = None, ex_authority_key_identifier = None\<rparr>"

definition DIGITAL_SIGNATURE :: u16 where "DIGITAL_SIGNATURE = 0x0001"
definition KEY_CERT_SIGN :: u16 where "KEY_CERT_SIGN = 0x0020"
definition CRL_SIGN :: u16 where "CRL_SIGN = 0x0040"

text \<open>The nine flags of the \<open>KeyUsage\<close> bit set.\<close>

definition KEY_USAGE_ALL :: u16 where "KEY_USAGE_ALL = 0x01FF"

definition key_usage_truncate :: "u16 \<Rightarrow> u16" where
  "key_usage_truncate bits = bits AND KEY_USAGE_ALL"

definition key_identifier_from_slice :: "bytes \<Rightarrow> cert_error + bytes" where
  "key_identifier_from_slice raw = (case try_array 20 raw of
     None \<Rightarrow> Inl (WrongKeyIdentifierLength (length raw))
   | Some bs \<Rightarrow> Inr bs)"

definition read_bc_step :: "tlv_element \<Rightarrow> basic_constraints \<Rightarrow> (basic_constraints, basic_constraints) flow cert_parser" where
  "read_bc_step e bc =
     (if e = ContainerEnd then ok (Done bc)
      else (case bool_at 1 e of
        Some b \<Rightarrow> ok (Again (bc\<lparr>bc_is_ca := b\<rparr>))
      | None \<Rightarrow> (case uint_at 2 e of
          Some v \<Rightarrow> andthen (need (FieldValueOutOfRange 2) (try_u8 v)) (\<lambda>v8. ok (Again (bc\<lparr>bc_path_len := Some v8\<rparr>)))
        | None \<Rightarrow> err (WrongFieldType 1))))"

definition read_bc :: "basic_constraints cert_parser" where
  "read_bc = scan_as (CertCodec UnclosedContainer) CertCodec read_bc_step \<lparr>bc_is_ca = False, bc_path_len = None\<rparr>"

definition read_uint_array_step :: "tlv_element \<Rightarrow> u32 list \<Rightarrow> (u32 list, u32 list) flow cert_parser" where
  "read_uint_array_step e out = (case e of
     ContainerEnd \<Rightarrow> ok (Done out)
   | Scalar _ (VUint v) \<Rightarrow> andthen (need (FieldValueOutOfRange 3) (try_u32 v)) (\<lambda>v32. ok (Again (out @ [v32])))
   | _ \<Rightarrow> err (WrongFieldType 3))"

definition read_uint_array :: "u32 list cert_parser" where
  "read_uint_array = scan_as (CertCodec UnclosedContainer) CertCodec read_uint_array_step []"

definition element_tag_number :: "tlv_element \<Rightarrow> u8" where
  "element_tag_number e = (case e of
     Scalar (Context n) _ \<Rightarrow> n
   | ContainerStart (Context n) _ \<Rightarrow> n
   | _ \<Rightarrow> 0)"

definition ensure_first_seen :: "u8 \<Rightarrow> 'a option \<Rightarrow> unit cert_parser" where
  "ensure_first_seen t slot = (if slot \<noteq> None then err (DuplicateField t) else ok ())"

definition read_extensions_step :: "tlv_element \<Rightarrow> cert_extensions \<Rightarrow> (cert_extensions, cert_extensions) flow cert_parser" where
  "read_extensions_step e out =
     (if e = ContainerEnd then ok (Done out)
      else if starts_at 1 e = Some KStructure then
        andthen (ensure_first_seen 1 (ex_basic_constraints out)) (\<lambda>_.
        andthen read_bc (\<lambda>bc. ok (Again (out\<lparr>ex_basic_constraints := Some bc\<rparr>))))
      else if starts_at 3 e = Some KArray then
        andthen (ensure_first_seen 3 (ex_extended_key_usage out)) (\<lambda>_.
        andthen read_uint_array (\<lambda>eku. ok (Again (out\<lparr>ex_extended_key_usage := Some eku\<rparr>))))
      else (case uint_at 2 e of
        Some v \<Rightarrow>
          andthen (ensure_first_seen 2 (ex_key_usage out)) (\<lambda>_.
          andthen (need (FieldValueOutOfRange 2) (try_u16 v)) (\<lambda>bits16.
            ok (Again (out\<lparr>ex_key_usage := Some (key_usage_truncate bits16)\<rparr>))))
      | None \<Rightarrow> (case bytes_at 4 e of
        Some b \<Rightarrow>
          andthen (ensure_first_seen 4 (ex_subject_key_identifier out)) (\<lambda>_.
          andthen (lift_result (key_identifier_from_slice b)) (\<lambda>kid.
            ok (Again (out\<lparr>ex_subject_key_identifier := Some kid\<rparr>))))
      | None \<Rightarrow> (case bytes_at 5 e of
        Some b \<Rightarrow>
          andthen (ensure_first_seen 5 (ex_authority_key_identifier out)) (\<lambda>_.
          andthen (lift_result (key_identifier_from_slice b)) (\<lambda>kid.
            ok (Again (out\<lparr>ex_authority_key_identifier := Some kid\<rparr>))))
      | None \<Rightarrow> err (WrongFieldType (element_tag_number e))))))"

definition read_extensions :: "cert_extensions cert_parser" where
  "read_extensions = scan_as (CertCodec UnclosedContainer) CertCodec read_extensions_step extensions_default"

text \<open>\<open>if let Some(x) = slot { .. }\<close>\<close>

definition when_some :: "'a option \<Rightarrow> ('a \<Rightarrow> cert_writer) \<Rightarrow> cert_writer" where
  "when_some slot f = (case slot of None \<Rightarrow> ok () | Some x \<Rightarrow> f x)"

definition write_bc :: "basic_constraints \<Rightarrow> tag \<Rightarrow> cert_writer" where
  "write_bc bc outer_tag =
     andthen (cert_put (start_structure outer_tag)) (\<lambda>_.
     andthen (cert_put (put_bool (Context 1) (bc_is_ca bc))) (\<lambda>_.
     andthen (when_some (bc_path_len bc) (\<lambda>plc. cert_put (put_uint (Context 2) (ucast plc)))) (\<lambda>_.
       cert_put end_container)))"

fun write_uints :: "u32 list \<Rightarrow> cert_writer" where
  "write_uints [] = ok ()"
| "write_uints (v # vs) = andthen (cert_put (put_uint Anonymous (ucast v))) (\<lambda>_. write_uints vs)"

definition write_extensions :: "cert_extensions \<Rightarrow> tag \<Rightarrow> cert_writer" where
  "write_extensions ext outer_tag =
     andthen (cert_put (start_list outer_tag)) (\<lambda>_.
     andthen (when_some (ex_basic_constraints ext) (\<lambda>bc. write_bc bc (Context 1))) (\<lambda>_.
     andthen (when_some (ex_key_usage ext) (\<lambda>ku. cert_put (put_uint (Context 2) (ucast ku)))) (\<lambda>_.
     andthen (when_some (ex_extended_key_usage ext) (\<lambda>eku.
       andthen (cert_put (start_array (Context 3))) (\<lambda>_.
       andthen (write_uints eku) (\<lambda>_. cert_put end_container)))) (\<lambda>_.
     andthen (when_some (ex_subject_key_identifier ext) (\<lambda>ski. cert_put (put_bytes (Context 4) ski))) (\<lambda>_.
     andthen (when_some (ex_authority_key_identifier ext) (\<lambda>aki. cert_put (put_bytes (Context 5) aki))) (\<lambda>_.
       cert_put end_container))))))"

section \<open>Certificates\<close>

record matter_certificate =
  crt_serial :: bytes
  crt_issuer :: distinguished_name
  crt_not_before :: matter_time
  crt_not_after :: matter_time
  crt_subject :: distinguished_name
  crt_public_key :: bytes
  crt_extensions :: cert_extensions
  crt_signature :: bytes

definition MAX_SERIAL_LEN :: nat where "MAX_SERIAL_LEN = 20"

definition validate_serial_len :: "nat \<Rightarrow> cert_error + unit" where
  "validate_serial_len n = (if n = 0 \<or> n > MAX_SERIAL_LEN then Inl (InvalidSerialLength n) else Inr ())"

definition context_tag :: "tag \<Rightarrow> cert_error + u8" where
  "context_tag t = (case t of Context n \<Rightarrow> Inr n | _ \<Rightarrow> Inl (WrongFieldType 0))"

text \<open>The locals of \<open>from_tlv\<close>.\<close>

record cert_slots =
  sl_serial :: "bytes option"
  sl_sig_alg_seen :: bool
  sl_issuer :: "distinguished_name option"
  sl_not_before :: "matter_time option"
  sl_not_after :: "matter_time option"
  sl_subject :: "distinguished_name option"
  sl_pubkey_alg_seen :: bool
  sl_ec_curve_seen :: bool
  sl_public_key :: "bytes option"
  sl_extensions :: "cert_extensions option"
  sl_signature :: "bytes option"

definition cert_slots_init :: cert_slots where
  "cert_slots_init = \<lparr>sl_serial = None, sl_sig_alg_seen = False, sl_issuer = None, sl_not_before = None,
     sl_not_after = None, sl_subject = None, sl_pubkey_alg_seen = False, sl_ec_curve_seen = False,
     sl_public_key = None, sl_extensions = None, sl_signature = None\<rparr>"

text \<open>An algorithm identifier, of which one value is allowed.\<close>

definition check_algorithm :: "u8 \<Rightarrow> bool \<Rightarrow> (u8 \<Rightarrow> cert_error) \<Rightarrow> u64 \<Rightarrow> unit cert_parser" where
  "check_algorithm t already unsupported v =
     (if already then err (DuplicateField t)
      else andthen (need (FieldValueOutOfRange t) (try_u8 v)) (\<lambda>v8. if v8 \<noteq> 1 then err (unsupported v8) else ok ()))"

definition cert_scalar :: "u8 \<Rightarrow> tlv_value \<Rightarrow> cert_slots \<Rightarrow> cert_slots cert_parser" where
  "cert_scalar t value s = (case value of
     VBytes b \<Rightarrow>
       (if t = 1 then
          andthen (ensure_first_seen t (sl_serial s)) (\<lambda>_.
          andthen (lift_result (validate_serial_len (length b))) (\<lambda>_. ok (s\<lparr>sl_serial := Some b\<rparr>)))
        else if t = 9 then
          andthen (ensure_first_seen t (sl_public_key s)) (\<lambda>_.
          andthen (lift_result (public_key_from_slice b)) (\<lambda>k. ok (s\<lparr>sl_public_key := Some k\<rparr>)))
        else if t = 11 then
          andthen (ensure_first_seen t (sl_signature s)) (\<lambda>_.
          andthen (lift_result (signature_from_slice b)) (\<lambda>sig. ok (s\<lparr>sl_signature := Some sig\<rparr>)))
        else err (WrongFieldType t))
   | VUint v \<Rightarrow>
       (if t = 2 then
          andthen (check_algorithm t (sl_sig_alg_seen s) UnsupportedSignatureAlgorithm v) (\<lambda>_. ok (s\<lparr>sl_sig_alg_seen := True\<rparr>))
        else if t = 4 then
          andthen (ensure_first_seen t (sl_not_before s)) (\<lambda>_.
          andthen (need (FieldValueOutOfRange t) (try_u32 v)) (\<lambda>v32. ok (s\<lparr>sl_not_before := Some v32\<rparr>)))
        else if t = 5 then
          andthen (ensure_first_seen t (sl_not_after s)) (\<lambda>_.
          andthen (need (FieldValueOutOfRange t) (try_u32 v)) (\<lambda>v32. ok (s\<lparr>sl_not_after := Some v32\<rparr>)))
        else if t = 7 then
          andthen (check_algorithm t (sl_pubkey_alg_seen s) UnsupportedPublicKeyAlgorithm v) (\<lambda>_. ok (s\<lparr>sl_pubkey_alg_seen := True\<rparr>))
        else if t = 8 then
          andthen (check_algorithm t (sl_ec_curve_seen s) UnsupportedEcCurve v) (\<lambda>_. ok (s\<lparr>sl_ec_curve_seen := True\<rparr>))
        else err (WrongFieldType t))
   | _ \<Rightarrow> err (WrongFieldType t))"

definition cert_container :: "u8 \<Rightarrow> container_kind \<Rightarrow> cert_slots \<Rightarrow> cert_slots cert_parser" where
  "cert_container t kind s =
     (if t = 3 then
        (if kind \<noteq> KList then err (WrongFieldType t)
         else andthen (ensure_first_seen t (sl_issuer s)) (\<lambda>_. andthen read_dn (\<lambda>dn. ok (s\<lparr>sl_issuer := Some dn\<rparr>))))
      else if t = 6 then
        (if kind \<noteq> KList then err (WrongFieldType t)
         else andthen (ensure_first_seen t (sl_subject s)) (\<lambda>_. andthen read_dn (\<lambda>dn. ok (s\<lparr>sl_subject := Some dn\<rparr>))))
      else if t = 10 then
        (if kind \<noteq> KList then err (WrongFieldType t)
         else andthen (ensure_first_seen t (sl_extensions s)) (\<lambda>_. andthen read_extensions (\<lambda>x. ok (s\<lparr>sl_extensions := Some x\<rparr>))))
      else err (WrongFieldType t))"

definition cert_step :: "tlv_element \<Rightarrow> cert_slots \<Rightarrow> (cert_slots, cert_slots) flow cert_parser" where
  "cert_step e s = (case e of
     ContainerEnd \<Rightarrow> ok (Done s)
   | Scalar tag value \<Rightarrow>
       andthen (lift_result (context_tag tag)) (\<lambda>t. andthen (cert_scalar t value s) (\<lambda>s'. ok (Again s')))
   | ContainerStart tag kind \<Rightarrow>
       andthen (lift_result (context_tag tag)) (\<lambda>t. andthen (cert_container t kind s) (\<lambda>s'. ok (Again s'))))"

definition cert_of_slots :: "cert_slots \<Rightarrow> matter_certificate cert_parser" where
  "cert_of_slots s =
     (if \<not> sl_sig_alg_seen s then err (CertMissingField 2)
      else if \<not> sl_pubkey_alg_seen s then err (CertMissingField 7)
      else if \<not> sl_ec_curve_seen s then err (CertMissingField 8)
      else
        andthen (need (CertMissingField 1) (sl_serial s)) (\<lambda>serial.
        andthen (need (CertMissingField 3) (sl_issuer s)) (\<lambda>issuer.
        andthen (need (CertMissingField 4) (sl_not_before s)) (\<lambda>not_before.
        andthen (need (CertMissingField 5) (sl_not_after s)) (\<lambda>not_after.
        andthen (need (CertMissingField 6) (sl_subject s)) (\<lambda>subject.
        andthen (need (CertMissingField 9) (sl_public_key s)) (\<lambda>public_key.
        andthen (need (CertMissingField 10) (sl_extensions s)) (\<lambda>extensions.
        andthen (need (CertMissingField 11) (sl_signature s)) (\<lambda>signature.
          ok \<lparr>crt_serial = serial, crt_issuer = issuer, crt_not_before = not_before, crt_not_after = not_after,
            crt_subject = subject, crt_public_key = public_key, crt_extensions = extensions,
            crt_signature = signature\<rparr>)))))))))"

text \<open>Nothing is read behind the end of the outer structure.\<close>

definition from_tlv :: "bytes \<Rightarrow> cert_error + matter_certificate" where
  "from_tlv bs = parse_as CertCodec (WrongFieldType 0)
     (andthen (scan_as (CertCodec UnclosedContainer) CertCodec cert_step cert_slots_init) cert_of_slots) bs"

definition write_certificate :: "matter_certificate \<Rightarrow> cert_writer" where
  "write_certificate c =
     andthen (cert_put (start_structure Anonymous)) (\<lambda>_.
     andthen (cert_put (put_bytes (Context 1) (crt_serial c))) (\<lambda>_.
     andthen (cert_put (put_uint (Context 2) 1)) (\<lambda>_.
     andthen (write_dn (crt_issuer c) (Context 3)) (\<lambda>_.
     andthen (cert_put (put_uint (Context 4) (ucast (crt_not_before c)))) (\<lambda>_.
     andthen (cert_put (put_uint (Context 5) (ucast (crt_not_after c)))) (\<lambda>_.
     andthen (write_dn (crt_subject c) (Context 6)) (\<lambda>_.
     andthen (cert_put (put_uint (Context 7) 1)) (\<lambda>_.
     andthen (cert_put (put_uint (Context 8) 1)) (\<lambda>_.
     andthen (cert_put (put_bytes (Context 9) (crt_public_key c))) (\<lambda>_.
     andthen (write_extensions (crt_extensions c) (Context 10)) (\<lambda>_.
     andthen (cert_put (put_bytes (Context 11) (crt_signature c))) (\<lambda>_.
       cert_put end_container))))))))))))"

definition to_tlv :: "matter_certificate \<Rightarrow> cert_error + bytes" where
  "to_tlv c = (case write_certificate c [] of (Inl e, out) \<Rightarrow> Inl e | (Inr _, out) \<Rightarrow> Inr out)"

end
