(* ===== verification/Certificate_DER.thy ===== *)
theory Certificate_DER
  imports Certificates
begin

text \<open>
  The X.509 form of operational certificates, over which they are signed: the DER encoder
  (\<open>x509.rs\<close>), certificate chains (\<open>chain.rs\<close>), the builder (\<open>builder.rs\<close>) and the certificate
  profiles (\<open>operational.rs\<close>) of \<open>crates/matter-cert/src\<close>.

  An encoder is a computation on the output buffer. Three libraries are parameters: \<open>oid_der\<close> is
  the encoding of an object identifier by \<open>der\<close>, \<open>ecdsa\<close> the signature check and \<open>sha1\<close> the
  digest of \<open>ring\<close>.
\<close>

section \<open>Lengths and tags\<close>

definition append_bytes :: "bytes \<Rightarrow> cert_writer" where
  "append_bytes bs out = (Inr (), out @ bs)"

text \<open>\<open>len.to_be_bytes()\<close> without its leading zeros.\<close>

definition be_used :: "nat \<Rightarrow> bytes" where
  "be_used len = dropWhile (\<lambda>b. b = 0) (rev (to_le 8 (word_of_nat len :: u64)))"

definition definite_length_prefix :: "nat \<Rightarrow> bytes" where
  "definite_length_prefix len =
     (if len < 0x80 then [word_of_nat len]
      else (0x80 OR word_of_nat (length (be_used len))) # be_used len)"

definition encode_definite_length :: "nat \<Rightarrow> cert_writer" where
  "encode_definite_length len =
     (if len < 0x80 then append_bytes [word_of_nat len]
      else andthen (append_bytes [0x80 OR word_of_nat (length (be_used len))]) (\<lambda>_. append_bytes (be_used len)))"

text \<open>The content is written first; tag and length are then spliced in before it.\<close>

definition wrap_tagged_into :: "u8 \<Rightarrow> cert_writer \<Rightarrow> cert_writer" where
  "wrap_tagged_into tag build out =
     (case build out of (res, out1) \<Rightarrow>
        let content_start = length out;
            content_len = length out1 - content_start
        in (res, take content_start out1 @ tag # definite_length_prefix content_len @ drop content_start out1))"

definition wrap_sequence_into :: "cert_writer \<Rightarrow> cert_writer" where
  "wrap_sequence_into = wrap_tagged_into 0x30"

definition wrap_set_into :: "cert_writer \<Rightarrow> cert_writer" where
  "wrap_set_into = wrap_tagged_into 0x31"

definition wrap_primitive_into :: "u8 \<Rightarrow> bytes \<Rightarrow> cert_writer" where
  "wrap_primitive_into tag value =
     andthen (append_bytes [tag]) (\<lambda>_.
     andthen (encode_definite_length (length value)) (\<lambda>_. append_bytes value))"

section \<open>Times\<close>

text \<open>
  The civil date of a count of seconds. The argument comes from a 32-bit time, so none of the
  64- and 32-bit operations of the code wraps and no subtraction goes below zero.
\<close>

definition civil_from_days :: "nat \<Rightarrow> nat \<times> nat \<times> nat" where
  "civil_from_days day =
     (let z = day + 719468;
          era = z div 146097;
          doe = z - era * 146097;
          yoe = (doe - doe div 1460 + doe div 36524 - doe div 146096) div 365;
          y = yoe + era * 400;
          doy = doe - (365 * yoe + yoe div 4 - yoe div 100);
          mp = (5 * doy + 2) div 153;
          d = doy - (153 * mp + 2) div 5 + 1;
          m = (if mp < 10 then mp + 3 else mp - 9);
          year = (if m \<le> 2 then y + 1 else y)
      in (year, m, d))"

definition unix_to_ymdhms :: "nat \<Rightarrow> nat \<times> nat \<times> nat \<times> nat \<times> nat \<times> nat" where
  "unix_to_ymdhms unix_secs =
     (let day = unix_secs div 86400;
          seconds_in_day = unix_secs mod 86400;
          hour = seconds_in_day div 3600;
          minute = (seconds_in_day div 60) mod 60;
          second = seconds_in_day mod 60
      in case civil_from_days day of (year, m, d) \<Rightarrow> (year, m, d, hour, minute, second))"

fun decimal_digits :: "nat \<Rightarrow> bytes" where
  "decimal_digits n = (if n < 10 then [0x30 + word_of_nat n] else decimal_digits (n div 10) @ [0x30 + word_of_nat (n mod 10)])"

declare decimal_digits.simps [simp del]

text \<open>\<open>format!("{n:0w}")\<close>\<close>

definition padded :: "nat \<Rightarrow> nat \<Rightarrow> bytes" where
  "padded w n = replicate (w - length (decimal_digits n)) 0x30 @ decimal_digits n"

definition X509_UTCTIME_CUTOFF_UNIX_SECS :: nat where "X509_UTCTIME_CUTOFF_UNIX_SECS = 2524608000"

text \<open>\<open>99991231235959Z\<close>\<close>

definition NO_EXPIRY_LITERAL :: bytes where
  "NO_EXPIRY_LITERAL = [0x39, 0x39, 0x39, 0x39, 0x31, 0x32, 0x33, 0x31, 0x32, 0x33, 0x35, 0x39, 0x35, 0x39, 0x5A]"

definition encode_utc_time_literal_into :: "bytes \<Rightarrow> cert_writer" where
  "encode_utc_time_literal_into s = append_bytes (0x17 # word_of_nat (length s) # s)"

definition encode_generalized_time_literal_into :: "bytes \<Rightarrow> cert_writer" where
  "encode_generalized_time_literal_into s = append_bytes (0x18 # word_of_nat (length s) # s)"

definition encode_one_time_into :: "matter_time \<Rightarrow> bool \<Rightarrow> cert_writer" where
  "encode_one_time_into t is_not_after =
     (if t = NO_EXPIRY \<and> is_not_after then encode_generalized_time_literal_into NO_EXPIRY_LITERAL
      else let unix = unat (to_unix_secs t) in
        case unix_to_ymdhms unix of (year, month, day, hour, minute, second) \<Rightarrow>
          let rest = padded 2 month @ padded 2 day @ padded 2 hour @ padded 2 minute @ padded 2 second @ [0x5A] in
          if unix < X509_UTCTIME_CUTOFF_UNIX_SECS
          then encode_utc_time_literal_into (padded 2 (year mod 100) @ rest)
          else encode_generalized_time_literal_into (padded 4 year @ rest))"

definition encode_validity_into :: "matter_time \<Rightarrow> matter_time \<Rightarrow> cert_writer" where
  "encode_validity_into not_before not_after = wrap_sequence_into
     (andthen (encode_one_time_into not_before False) (\<lambda>_. encode_one_time_into not_after True))"

section \<open>Serial number, algorithms and key\<close>

definition encode_serial_number_into :: "bytes \<Rightarrow> cert_writer" where
  "encode_serial_number_into serial =
     (if serial = [] then err (FieldValueOutOfRange 1)
      else let needs_leading_zero = (serial ! 0 AND 0x80 \<noteq> 0) in
        andthen (append_bytes [0x02]) (\<lambda>_.
        andthen (encode_definite_length (length serial + (if needs_leading_zero then 1 else 0))) (\<lambda>_.
        andthen (if needs_leading_zero then append_bytes [0] else ok ()) (\<lambda>_.
          append_bytes serial))))"

definition OID_EC_PUBLIC_KEY :: oid where "OID_EC_PUBLIC_KEY = [1, 2, 840, 10045, 2, 1]"
definition OID_EC_CURVE_P256 :: oid where "OID_EC_CURVE_P256 = [1, 2, 840, 10045, 3, 1, 7]"
definition OID_SIGNATURE :: oid where "OID_SIGNATURE = [1, 2, 840, 10045, 4, 3, 2]"

definition encode_oid_into :: "(oid \<Rightarrow> bytes) \<Rightarrow> oid \<Rightarrow> cert_writer" where
  "encode_oid_into oid_der oid = append_bytes (oid_der oid)"

definition encode_algorithm_identifier_into :: "(oid \<Rightarrow> bytes) \<Rightarrow> cert_writer" where
  "encode_algorithm_identifier_into oid_der = wrap_sequence_into (encode_oid_into oid_der OID_SIGNATURE)"

definition encode_subject_public_key_info_into :: "(oid \<Rightarrow> bytes) \<Rightarrow> bytes \<Rightarrow> cert_writer" where
  "encode_subject_public_key_info_into oid_der point = wrap_sequence_into (
     andthen (wrap_sequence_into (andthen (encode_oid_into oid_der OID_EC_PUBLIC_KEY) (\<lambda>_.
       encode_oid_into oid_der OID_EC_CURVE_P256))) (\<lambda>_.
     andthen (append_bytes [0x03]) (\<lambda>_.
     andthen (encode_definite_length (length point + 1)) (\<lambda>_.
     andthen (append_bytes [0]) (\<lambda>_. append_bytes point)))))"

section \<open>Names\<close>

definition TAG_UTF8_STRING :: u8 where "TAG_UTF8_STRING = 0x0C"
definition TAG_PRINTABLE_STRING :: u8 where "TAG_PRINTABLE_STRING = 0x13"
definition TAG_IA5_STRING :: u8 where "TAG_IA5_STRING = 0x16"

text \<open>\<open>format!("{v:0wX}")\<close>; the values have at most \<open>w\<close> digits.\<close>

definition upper_hex :: "nat \<Rightarrow> nat \<Rightarrow> bytes" where
  "upper_hex w n = map (\<lambda>i. upper_hex_digit (n div 16 ^ i mod 16)) (rev [0..<w])"

definition printable :: "byte \<Rightarrow> bool" where
  "printable b \<longleftrightarrow> 0x41 \<le> b \<and> b \<le> 0x5A \<or> 0x61 \<le> b \<and> b \<le> 0x7A \<or> 0x30 \<le> b \<and> b \<le> 0x39 \<or>
     b \<in> {0x20, 0x27, 0x28, 0x29, 0x2B, 0x2C, 0x2D, 0x2E, 0x2F, 0x3A, 0x3D, 0x3F}"

definition verify_printable :: "bytes \<Rightarrow> string \<Rightarrow> cert_error + unit" where
  "verify_printable s asn1_type =
     (if list_all printable s then Inr ()
      else Inl (InvalidDnAttributeForX509 asn1_type ''value contains a non-PrintableString character''))"

definition verify_ia5 :: "bytes \<Rightarrow> string \<Rightarrow> cert_error + unit" where
  "verify_ia5 s asn1_type =
     (if list_ex (\<lambda>b. b > 0x7F) s then Inl (InvalidDnAttributeForX509 asn1_type ''value contains a non-ASCII character'')
      else Inr ())"

definition matter_oid :: "nat \<Rightarrow> nat \<Rightarrow> oid" where
  "matter_oid a b = [1, 3, 6, 1, 4, 1, 37244, a, b]"

definition x520_oid :: "nat \<Rightarrow> oid" where
  "x520_oid a = [2, 5, 4, a]"

definition OID_DOMAIN_COMPONENT :: oid where
  "OID_DOMAIN_COMPONENT = [0, 9, 2342, 19200300, 100, 1, 25]"

fun dn_attribute_parts :: "dn_attribute \<Rightarrow> cert_error + oid \<times> u8 \<times> bytes" where
  "dn_attribute_parts (NodeId v) = Inr (matter_oid 1 1, TAG_UTF8_STRING, upper_hex 16 (unat v))"
| "dn_attribute_parts (FabricId v) = Inr (matter_oid 1 5, TAG_UTF8_STRING, upper_hex 16 (unat v))"
| "dn_attribute_parts (RcacId v) = Inr (matter_oid 1 4, TAG_UTF8_STRING, upper_hex 16 (unat v))"
| "dn_attribute_parts (IcacId v) = Inr (matter_oid 1 3, TAG_UTF8_STRING, upper_hex 16 (unat v))"
| "dn_attribute_parts (CaseAuthenticatedTag v) = Inr (matter_oid 1 6, TAG_UTF8_STRING, upper_hex 8 (unat v))"
| "dn_attribute_parts (VendorId v) = Inr (matter_oid 2 1, TAG_PRINTABLE_STRING, upper_hex 4 (unat v))"
| "dn_attribute_parts (ProductId v) = Inr (matter_oid 2 2, TAG_PRINTABLE_STRING, upper_hex 4 (unat v))"
| "dn_attribute_parts (CommonName s) = Inr (x520_oid 3, TAG_UTF8_STRING, s)"
| "dn_attribute_parts (Surname s) = Inr (x520_oid 4, TAG_UTF8_STRING, s)"
| "dn_attribute_parts (SerialNumber s) = try_bind (verify_printable s ''SerialNumber'') (\<lambda>_.
     Inr (x520_oid 5, TAG_PRINTABLE_STRING, s))"
| "dn_attribute_parts (CountryName s) = try_bind (verify_printable s ''CountryName'') (\<lambda>_.
     if length s \<noteq> 2 then Inl (InvalidDnAttributeForX509 ''PrintableString'' ''CountryName must be exactly 2 characters'')
     else Inr (x520_oid 6, TAG_PRINTABLE_STRING, s))"
| "dn_attribute_parts (LocalityName s) = Inr (x520_oid 7, TAG_UTF8_STRING, s)"
| "dn_attribute_parts (StateOrProvinceName s) = Inr (x520_oid 8, TAG_UTF8_STRING, s)"
| "dn_attribute_parts (OrganizationName s) = Inr (x520_oid 10, TAG_UTF8_STRING, s)"
| "dn_attribute_parts (OrganizationalUnitName s) = Inr (x520_oid 11, TAG_UTF8_STRING, s)"
| "dn_attribute_parts (Title s) = Inr (x520_oid 12, TAG_UTF8_STRING, s)"
| "dn_attribute_parts (Name s) = Inr (x520_oid 41, TAG_UTF8_STRING, s)"
| "dn_attribute_parts (GivenName s) = Inr (x520_oid 42, TAG_UTF8_STRING, s)"
| "dn_attribute_parts (Initials s) = Inr (x520_oid 43, TAG_UTF8_STRING, s)"
| "dn_attribute_parts (GenerationQualifier s) = Inr (x520_oid 44, TAG_UTF8_STRING, s)"
| "dn_attribute_parts (DnQualifier s) = try_bind (verify_printable s ''DnQualifier'') (\<lambda>_.
     Inr (x520_oid 46, TAG_PRINTABLE_STRING, s))"
| "dn_attribute_parts (Pseudonym s) = Inr (x520_oid 65, TAG_UTF8_STRING, s)"
| "dn_attribute_parts (DomainComponent s) = try_bind (verify_ia5 s ''DomainComponent'') (\<lambda>_.
     Inr (OID_DOMAIN_COMPONENT, TAG_IA5_STRING, s))"
| "dn_attribute_parts (OtherAttribute t v) = Inl (DnAttributeHasNoX509Oid t)"

definition encode_dn_attribute_into :: "(oid \<Rightarrow> bytes) \<Rightarrow> dn_attribute \<Rightarrow> cert_writer" where
  "encode_dn_attribute_into oid_der attr =
     andthen (lift_result (dn_attribute_parts attr)) (\<lambda>(oid, string_tag, value).
     wrap_sequence_into (andthen (encode_oid_into oid_der oid) (\<lambda>_. wrap_primitive_into string_tag value)))"

fun encode_rdns_into :: "(oid \<Rightarrow> bytes) \<Rightarrow> distinguished_name \<Rightarrow> cert_writer" where
  "encode_rdns_into oid_der [] = ok ()"
| "encode_rdns_into oid_der (attr # attrs) =
     andthen (wrap_set_into (encode_dn_attribute_into oid_der attr)) (\<lambda>_. encode_rdns_into oid_der attrs)"

definition encode_dn_into :: "(oid \<Rightarrow> bytes) \<Rightarrow> distinguished_name \<Rightarrow> cert_writer" where
  "encode_dn_into oid_der dn = wrap_sequence_into (encode_rdns_into oid_der dn)"

section \<open>Extensions\<close>

definition ext_oid :: "nat \<Rightarrow> oid" where
  "ext_oid a = [2, 5, 29, a]"

definition encode_extension_into :: "(oid \<Rightarrow> bytes) \<Rightarrow> oid \<Rightarrow> bool \<Rightarrow> bytes \<Rightarrow> cert_writer" where
  "encode_extension_into oid_der oid critical extn_value = wrap_sequence_into (
     andthen (encode_oid_into oid_der oid) (\<lambda>_.
     andthen (if critical then append_bytes [0x01, 0x01, 0xFF] else ok ()) (\<lambda>_.
       wrap_primitive_into 0x04 extn_value)))"

text \<open>What an infallible encoder writes into a buffer of its own.\<close>

definition standalone :: "cert_writer \<Rightarrow> bytes" where
  "standalone m = snd (m [])"

definition encode_basic_constraints_into :: "(oid \<Rightarrow> bytes) \<Rightarrow> basic_constraints \<Rightarrow> cert_writer" where
  "encode_basic_constraints_into oid_der bc =
     encode_extension_into oid_der (ext_oid 19) True (standalone (wrap_sequence_into (
       if bc_is_ca bc then
         andthen (append_bytes [0x01, 0x01, 0xFF]) (\<lambda>_.
         case bc_path_len bc of
           None \<Rightarrow> ok ()
         | Some path_len \<Rightarrow> append_bytes [0x02, 0x01, path_len])
       else ok ())))"

definition reverse_bits :: "u8 \<Rightarrow> u8" where
  "reverse_bits b = horner_sum of_bool 2 (map (\<lambda>i. bit b (7 - i)) [0..<8])"

definition trailing_zeros :: "u8 \<Rightarrow> nat" where
  "trailing_zeros b = length (takeWhile (\<lambda>i. \<not> bit b i) [0..<8])"

definition key_usage_bits :: "u16 \<Rightarrow> bytes" where
  "key_usage_bits raw =
     (let byte0_rev = reverse_bits (ucast raw);
          byte1_rev = reverse_bits (ucast (drop_bit 8 raw))
      in if byte1_rev \<noteq> 0 then [word_of_nat (trailing_zeros byte1_rev), byte0_rev, byte1_rev]
         else if byte0_rev \<noteq> 0 then [word_of_nat (trailing_zeros byte0_rev), byte0_rev]
         else [0, 0])"

definition encode_key_usage_into :: "(oid \<Rightarrow> bytes) \<Rightarrow> u16 \<Rightarrow> cert_writer" where
  "encode_key_usage_into oid_der ku =
     encode_extension_into oid_der (ext_oid 15) True (standalone (
       andthen (append_bytes [0x03]) (\<lambda>_.
       andthen (encode_definite_length (length (key_usage_bits ku))) (\<lambda>_.
         append_bytes (key_usage_bits ku)))))"

definition kp_oid :: "u32 \<Rightarrow> oid option" where
  "kp_oid v = (if v = 1 then Some [1, 3, 6, 1, 5, 5, 7, 3, 1]
     else if v = 2 then Some [1, 3, 6, 1, 5, 5, 7, 3, 2]
     else if v = 3 then Some [1, 3, 6, 1, 5, 5, 7, 3, 3]
     else if v = 4 then Some [1, 3, 6, 1, 5, 5, 7, 3, 4]
     else if v = 5 then Some [1, 3, 6, 1, 5, 5, 7, 3, 8]
     else if v = 6 then Some [1, 3, 6, 1, 5, 5, 7, 3, 9]
     else None)"

fun encode_kp_oids_into :: "(oid \<Rightarrow> bytes) \<Rightarrow> u32 list \<Rightarrow> cert_writer" where
  "encode_kp_oids_into oid_der [] = ok ()"
| "encode_kp_oids_into oid_der (v # vs) = (case kp_oid v of
     None \<Rightarrow> encode_kp_oids_into oid_der vs
   | Some oid \<Rightarrow> andthen (encode_oid_into oid_der oid) (\<lambda>_. encode_kp_oids_into oid_der vs))"

definition encode_extended_key_usage_into :: "(oid \<Rightarrow> bytes) \<Rightarrow> u32 list \<Rightarrow> bool \<Rightarrow> cert_writer" where
  "encode_extended_key_usage_into oid_der eku critical =
     encode_extension_into oid_der (ext_oid 37) critical (standalone (wrap_sequence_into (encode_kp_oids_into oid_der eku)))"

definition encode_subject_key_identifier_into :: "(oid \<Rightarrow> bytes) \<Rightarrow> bytes \<Rightarrow> cert_writer" where
  "encode_subject_key_identifier_into oid_der ski =
     encode_extension_into oid_der (ext_oid 14) False (standalone (wrap_primitive_into 0x04 ski))"

definition encode_authority_key_identifier_into :: "(oid \<Rightarrow> bytes) \<Rightarrow> bytes \<Rightarrow> cert_writer" where
  "encode_authority_key_identifier_into oid_der aki =
     encode_extension_into oid_der (ext_oid 35) False (standalone (wrap_sequence_into (
       andthen (append_bytes [0x80]) (\<lambda>_.
       andthen (encode_definite_length 20) (\<lambda>_. append_bytes aki)))))"

definition encode_extensions_block_into :: "(oid \<Rightarrow> bytes) \<Rightarrow> cert_extensions \<Rightarrow> cert_writer" where
  "encode_extensions_block_into oid_der ext = wrap_tagged_into 0xA3 (wrap_sequence_into (
     andthen (when_some (ex_basic_constraints ext) (encode_basic_constraints_into oid_der)) (\<lambda>_.
     andthen (when_some (ex_key_usage ext) (encode_key_usage_into oid_der)) (\<lambda>_.
     andthen (when_some (ex_extended_key_usage ext) (\<lambda>eku. encode_extended_key_usage_into oid_der eku True)) (\<lambda>_.
     andthen (when_some (ex_subject_key_identifier ext) (encode_subject_key_identifier_into oid_der)) (\<lambda>_.
       when_some (ex_authority_key_identifier ext) (encode_authority_key_identifier_into oid_der)))))))"

section \<open>The certificate to be signed\<close>

definition encode_tbs_into :: "(oid \<Rightarrow> bytes) \<Rightarrow> matter_certificate \<Rightarrow> cert_writer" where
  "encode_tbs_into oid_der cert = wrap_sequence_into (
     andthen (append_bytes [0xA0, 0x03, 0x02, 0x01, 0x02]) (\<lambda>_.
     andthen (encode_serial_number_into (crt_serial cert)) (\<lambda>_.
     andthen (encode_algorithm_identifier_into oid_der) (\<lambda>_.
     andthen (encode_dn_into oid_der (crt_issuer cert)) (\<lambda>_.
     andthen (encode_validity_into (crt_not_before cert) (crt_not_after cert)) (\<lambda>_.
     andthen (encode_dn_into oid_der (crt_subject cert)) (\<lambda>_.
     andthen (encode_subject_public_key_info_into oid_der (crt_public_key cert)) (\<lambda>_.
       encode_extensions_block_into oid_der (crt_extensions cert)))))))))"

definition to_x509_tbs_der :: "(oid \<Rightarrow> bytes) \<Rightarrow> matter_certificate \<Rightarrow> cert_error + bytes" where
  "to_x509_tbs_der oid_der cert = (case encode_tbs_into oid_der cert [] of
     (Inl e, out) \<Rightarrow> Inl e
   | (Inr _, out) \<Rightarrow> Inr out)"

definition verify_signed_by :: "(oid \<Rightarrow> bytes) \<Rightarrow> (bytes \<Rightarrow> bytes \<Rightarrow> bytes \<Rightarrow> bool) \<Rightarrow> matter_certificate \<Rightarrow> bytes \<Rightarrow> cert_error + unit" where
  "verify_signed_by oid_der ecdsa cert issuer_key =
     try_bind (to_x509_tbs_der oid_der cert) (\<lambda>tbs. public_key_verify ecdsa issuer_key tbs (crt_signature cert))"

section \<open>Chains\<close>

record cert_anchor =
  anc_subject :: distinguished_name
  anc_public_key :: bytes
  anc_subject_key_identifier :: "bytes option"

type_synonym trusted_roots = "cert_anchor list"

definition from_root_cert :: "matter_certificate \<Rightarrow> cert_anchor" where
  "from_root_cert root = \<lparr>anc_subject = crt_subject root, anc_public_key = crt_public_key root,
     anc_subject_key_identifier = ex_subject_key_identifier (crt_extensions root)\<rparr>"

definition index_u8 :: "nat \<Rightarrow> u8" where
  "index_u8 i = (if i < 256 then word_of_nat i else 0xFF)"

definition asserts_ca :: "matter_certificate \<Rightarrow> bool" where
  "asserts_ca c = (case ex_basic_constraints (crt_extensions c) of None \<Rightarrow> False | Some bc \<Rightarrow> bc_is_ca bc)"

definition asserts_key_cert_sign :: "matter_certificate \<Rightarrow> bool" where
  "asserts_key_cert_sign c = (case ex_key_usage (crt_extensions c) of
     None \<Rightarrow> False | Some ku \<Rightarrow> ku AND KEY_CERT_SIGN = KEY_CERT_SIGN)"

definition path_len_of :: "matter_certificate \<Rightarrow> u8 option" where
  "path_len_of c = (case ex_basic_constraints (crt_extensions c) of None \<Rightarrow> None | Some bc \<Rightarrow> bc_path_len bc)"

text \<open>One round of the loop of \<open>validate\<close>.\<close>

definition validate_at :: "(oid \<Rightarrow> bytes) \<Rightarrow> (bytes \<Rightarrow> bytes \<Rightarrow> bytes \<Rightarrow> bool) \<Rightarrow> matter_certificate list \<Rightarrow> matter_time \<Rightarrow>
    nat \<Rightarrow> cert_error + unit" where
  "validate_at oid_der ecdsa certs at_time i =
     (let cert = certs ! i; i_u8 = index_u8 i in
      if crt_not_before cert > at_time then Inl (NotYetValid i_u8 (crt_not_before cert) at_time)
      else if crt_not_after cert \<noteq> NO_EXPIRY \<and> crt_not_after cert < at_time
        then Inl (CertificateExpired i_u8 (crt_not_after cert) at_time)
      else if i > 0 \<and> \<not> asserts_ca cert then Inl (NotACa i_u8)
      else if i > 0 \<and> \<not> asserts_key_cert_sign cert then Inl (MissingKeyCertSign i_u8)
      else if i = 0 \<and> asserts_ca cert then Inl LeafIsCa
      else if i > 0 \<and> (case path_len_of cert of None \<Rightarrow> False | Some plc \<Rightarrow> index_u8 (i - 1) > plc)
        then Inl (PathLengthExceeded i_u8)
      else if i + 1 < length certs then
        (if crt_issuer cert \<noteq> crt_subject (certs ! (i + 1)) then Inl (IssuerSubjectMismatch i_u8)
         else verify_signed_by oid_der ecdsa cert (crt_public_key (certs ! (i + 1))))
      else Inr ())"

fun each :: "(nat \<Rightarrow> 'e + unit) \<Rightarrow> nat list \<Rightarrow> 'e + unit" where
  "each f [] = Inr ()"
| "each f (i # is) = try_bind (f i) (\<lambda>_. each f is)"

definition anchored_by :: "(bytes \<Rightarrow> bytes \<Rightarrow> bytes \<Rightarrow> bool) \<Rightarrow> matter_certificate \<Rightarrow> bytes \<Rightarrow> cert_anchor \<Rightarrow> bool" where
  "anchored_by ecdsa top_cert tbs anchor \<longleftrightarrow>
     crt_issuer top_cert = anc_subject anchor \<and>
     (case anc_subject_key_identifier anchor of
        None \<Rightarrow> True
      | Some ski \<Rightarrow> ex_authority_key_identifier (crt_extensions top_cert) = Some ski) \<and>
     public_key_verify ecdsa (anc_public_key anchor) tbs (crt_signature top_cert) = Inr ()"

definition validate :: "(oid \<Rightarrow> bytes) \<Rightarrow> (bytes \<Rightarrow> bytes \<Rightarrow> bytes \<Rightarrow> bool) \<Rightarrow> matter_certificate list \<Rightarrow> trusted_roots \<Rightarrow>
    matter_time \<Rightarrow> cert_error + unit" where
  "validate oid_der ecdsa certs roots at_time =
     (if certs = [] then Inl CertUntrustedRoot
      else try_bind (each (validate_at oid_der ecdsa certs at_time) [0..<length certs]) (\<lambda>_.
        let top_cert = certs ! (length certs - 1) in
        try_bind (to_x509_tbs_der oid_der top_cert) (\<lambda>tbs.
          if list_ex (anchored_by ecdsa top_cert tbs) roots then Inr () else Inl CertUntrustedRoot)))"

section \<open>Building certificates\<close>

record cert_builder =
  bld_serial :: "bytes option"
  bld_issuer :: "distinguished_name option"
  bld_not_before :: "matter_time option"
  bld_not_after :: "matter_time option"
  bld_subject :: "distinguished_name option"
  bld_public_key :: "bytes option"
  bld_extensions :: "cert_extensions option"

record unsigned_certificate =
  uns_serial :: bytes
  uns_issuer :: distinguished_name
  uns_not_before :: matter_time
  uns_not_after :: matter_time
  uns_subject :: distinguished_name
  uns_public_key :: bytes
  uns_extensions :: cert_extensions

definition build_unsigned :: "cert_builder \<Rightarrow> cert_error + unsigned_certificate" where
  "build_unsigned b =
     try_bind (ok_or (bld_serial b) (MissingBuilderField ''serial'')) (\<lambda>serial.
     if serial = [] \<or> length serial > 20 then Inl (FieldValueOutOfRange 1)
     else
     try_bind (ok_or (bld_issuer b) (MissingBuilderField ''issuer'')) (\<lambda>issuer.
     try_bind (ok_or (bld_not_before b) (MissingBuilderField ''not_before'')) (\<lambda>not_before.
     try_bind (ok_or (bld_not_after b) (MissingBuilderField ''not_after'')) (\<lambda>not_after.
     try_bind (ok_or (bld_subject b) (MissingBuilderField ''subject'')) (\<lambda>subject.
     try_bind (ok_or (bld_public_key b) (MissingBuilderField ''public_key'')) (\<lambda>public_key.
     try_bind (ok_or (bld_extensions b) (MissingBuilderField ''extensions'')) (\<lambda>extensions.
       Inr \<lparr>uns_serial = serial, uns_issuer = issuer, uns_not_before = not_before, uns_not_after = not_after,
         uns_subject = subject, uns_public_key = public_key, uns_extensions = extensions\<rparr>)))))))"

definition assemble :: "unsigned_certificate \<Rightarrow> bytes \<Rightarrow> matter_certificate" where
  "assemble u signature = \<lparr>crt_serial = uns_serial u, crt_issuer = uns_issuer u, crt_not_before = uns_not_before u,
     crt_not_after = uns_not_after u, crt_subject = uns_subject u, crt_public_key = uns_public_key u,
     crt_extensions = uns_extensions u, crt_signature = signature\<rparr>"

definition tbs_der :: "(oid \<Rightarrow> bytes) \<Rightarrow> unsigned_certificate \<Rightarrow> cert_error + bytes" where
  "tbs_der oid_der u = to_x509_tbs_der oid_der (assemble u (replicate 64 0))"

section \<open>Profiles\<close>

record rcac_params =
  rp_rcac_id :: u64
  rp_public_key :: bytes
  rp_serial :: bytes
  rp_not_before :: matter_time
  rp_not_after :: matter_time
  rp_path_len :: "u8 option"

record icac_params =
  ip_icac_id :: u64
  ip_issuer :: distinguished_name
  ip_issuer_skid :: bytes
  ip_public_key :: bytes
  ip_serial :: bytes
  ip_not_before :: matter_time
  ip_not_after :: matter_time

record noc_params =
  np_fabric_id :: u64
  np_node_id :: u64
  np_case_authenticated_tags :: "u32 list"
  np_issuer :: distinguished_name
  np_issuer_skid :: bytes
  np_public_key :: bytes
  np_serial :: bytes
  np_not_before :: matter_time
  np_not_after :: matter_time

definition skid_from_spki :: "(bytes \<Rightarrow> bytes) \<Rightarrow> bytes \<Rightarrow> bytes" where
  "skid_from_spki sha1 pk = sha1 (drop 1 pk)"

definition rcac :: "(bytes \<Rightarrow> bytes) \<Rightarrow> rcac_params \<Rightarrow> cert_error + unsigned_certificate" where
  "rcac sha1 p =
     (let subject = [RcacId (rp_rcac_id p)];
          skid = skid_from_spki sha1 (rp_public_key p)
      in build_unsigned \<lparr>bld_serial = Some (rp_serial p), bld_issuer = Some subject,
        bld_not_before = Some (rp_not_before p), bld_not_after = Some (rp_not_after p), bld_subject = Some subject,
        bld_public_key = Some (rp_public_key p),
        bld_extensions = Some (extensions_default\<lparr>
          ex_basic_constraints := Some \<lparr>bc_is_ca = True, bc_path_len = rp_path_len p\<rparr>,
          ex_key_usage := Some (KEY_CERT_SIGN OR CRL_SIGN),
          ex_subject_key_identifier := Some skid,
          ex_authority_key_identifier := Some skid\<rparr>)\<rparr>)"

definition icac :: "(bytes \<Rightarrow> bytes) \<Rightarrow> icac_params \<Rightarrow> cert_error + unsigned_certificate" where
  "icac sha1 p =
     build_unsigned \<lparr>bld_serial = Some (ip_serial p), bld_issuer = Some (ip_issuer p),
        bld_not_before = Some (ip_not_before p), bld_not_after = Some (ip_not_after p),
        bld_subject = Some [IcacId (ip_icac_id p)],
        bld_public_key = Some (ip_public_key p),
        bld_extensions = Some (extensions_default\<lparr>
          ex_basic_constraints := Some \<lparr>bc_is_ca = True, bc_path_len = Some 0\<rparr>,
          ex_key_usage := Some (KEY_CERT_SIGN OR CRL_SIGN),
          ex_subject_key_identifier := Some (skid_from_spki sha1 (ip_public_key p)),
          ex_authority_key_identifier := Some (ip_issuer_skid p)\<rparr>)\<rparr>"

definition noc :: "(bytes \<Rightarrow> bytes) \<Rightarrow> noc_params \<Rightarrow> cert_error + unsigned_certificate" where
  "noc sha1 p =
     build_unsigned \<lparr>bld_serial = Some (np_serial p), bld_issuer = Some (np_issuer p),
        bld_not_before = Some (np_not_before p), bld_not_after = Some (np_not_after p),
        bld_subject = Some (FabricId (np_fabric_id p) # NodeId (np_node_id p) #
          map CaseAuthenticatedTag (np_case_authenticated_tags p)),
        bld_public_key = Some (np_public_key p),
        bld_extensions = Some (extensions_default\<lparr>
          ex_basic_constraints := Some \<lparr>bc_is_ca = False, bc_path_len = None\<rparr>,
          ex_key_usage := Some DIGITAL_SIGNATURE,
          ex_extended_key_usage := Some [2, 1],
          ex_subject_key_identifier := Some (skid_from_spki sha1 (np_public_key p)),
          ex_authority_key_identifier := Some (np_issuer_skid p)\<rparr>)\<rparr>"

text \<open>
  \<open>sign_with_ring\<close>; \<open>key_accepted\<close> and \<open>sign\<close> are \<open>ring\<close>'s reading of a private key and its signer.
\<close>

definition sign_with_ring :: "(oid \<Rightarrow> bytes) \<Rightarrow> (bytes \<Rightarrow> bool) \<Rightarrow> (bytes \<Rightarrow> bytes \<Rightarrow> bytes option) \<Rightarrow>
    unsigned_certificate \<Rightarrow> bytes \<Rightarrow> cert_error + matter_certificate" where
  "sign_with_ring oid_der key_accepted sign u issuer_pkcs8 =
     try_bind (tbs_der oid_der u) (\<lambda>tbs.
       if \<not> key_accepted issuer_pkcs8 then Inl (CertSigningFailed ''issuer PKCS#8 key rejected by ring'')
       else (case sign issuer_pkcs8 tbs of
         None \<Rightarrow> Inl (CertSigningFailed ''ring ECDSA signing failed'')
       | Some sig \<Rightarrow>
           if length sig \<noteq> 64 then Inl (WrongSignatureLength (length sig))
           else Inr (assemble u sig)))"

end
