(* ===== verification/Certificate_Calendar.thy ===== *)
theory Certificate_Calendar
  imports Certificate_DER
begin

text \<open>
  The civil dates in certificates. \<open>day_number\<close> counts days by the rules of the Gregorian
  calendar, year by year and month by month; the date computed from a count of days is shown to
  be a date of the calendar with that number.
\<close>

section \<open>The Gregorian calendar\<close>

definition leap :: "nat \<Rightarrow> bool" where
  "leap y \<longleftrightarrow> y mod 4 = 0 \<and> (y mod 100 \<noteq> 0 \<or> y mod 400 = 0)"

definition year_days :: "nat \<Rightarrow> nat" where
  "year_days y = (if leap y then 366 else 365)"

definition month_days :: "nat \<Rightarrow> nat \<Rightarrow> nat" where
  "month_days y m = (if m = 2 then (if leap y then 29 else 28) else if m \<in> {4, 6, 9, 11} then 30 else 31)"

definition valid_date :: "nat \<Rightarrow> nat \<Rightarrow> nat \<Rightarrow> bool" where
  "valid_date y m d \<longleftrightarrow> 1970 \<le> y \<and> 1 \<le> m \<and> m \<le> 12 \<and> 1 \<le> d \<and> d \<le> month_days y m"

text \<open>Days since the first of January 1970.\<close>

definition year_start :: "nat \<Rightarrow> nat" where
  "year_start y = (\<Sum>k = 1970..<y. year_days k)"

definition day_number :: "nat \<Rightarrow> nat \<Rightarrow> nat \<Rightarrow> nat" where
  "day_number y m d = year_start y + (\<Sum>k = 1..<m. month_days y k) + (d - 1)"

text \<open>Days from the first of March of year 0 to that of year \<open>y\<close>.\<close>

definition march_start :: "nat \<Rightarrow> nat" where
  "march_start y = 365 * y + y div 4 + y div 400 - y div 100"

lemma div_le_div: "y div 100 \<le> (y :: nat) div 4"
  by (simp add: div_le_mono2)

lemma march_start_Suc: "march_start (Suc y) = march_start y + year_days (Suc y)"
proof -
  define q r s where "q = y div 4" and "r = y div 100" and "s = y div 400"
  have d: "Suc y div 4 = q + (if Suc y mod 4 = 0 then 1 else 0)"
    "Suc y div 100 = r + (if Suc y mod 100 = 0 then 1 else 0)"
    "Suc y div 400 = s + (if Suc y mod 400 = 0 then 1 else 0)"
    unfolding q_def r_def s_def by (simp_all only: div_Suc) simp_all
  have m: "Suc y mod 400 = 0 \<longrightarrow> Suc y mod 100 = 0" "Suc y mod 100 = 0 \<longrightarrow> Suc y mod 4 = 0"
    using dvd_trans [of 100 400 "Suc y"] dvd_trans [of 4 100 "Suc y"] by (simp_all only: dvd_eq_mod_eq_0) simp_all
  have "r \<le> q" unfolding q_def r_def by (rule div_le_div)
  then show ?thesis
    unfolding march_start_def year_days_def leap_def d q_def [symmetric] r_def [symmetric] s_def [symmetric]
    using m by (cases "Suc y mod 4 = 0"; cases "Suc y mod 100 = 0"; cases "Suc y mod 400 = 0") (simp_all only: if_True if_False simp_thms, simp_all)
qed

lemma year_start_march: "1969 \<le> y \<Longrightarrow> year_start (Suc y) + 719162 = march_start y"
proof (induction y rule: nat_induct_at_least)
  case base
  show ?case by (simp add: year_start_def march_start_def)
next
  case (Suc y)
  then show ?case by (simp add: year_start_def march_start_Suc)
qed

section \<open>Years of a 400-year cycle\<close>

text \<open>
  The days of a cycle that begins in March: century, four-year period, year and day. The last
  year of a period, and the last century of a cycle, has one day more.
\<close>

lemma cycle_day:
  assumes "doe < (146097 :: nat)"
  obtains c q a b where "doe = 36524 * c + 1461 * q + 365 * a + b" "c \<le> 3" "q \<le> 24" "a \<le> 3"
    "b \<le> 364 \<or> b = 365 \<and> a = 3 \<and> (q = 24 \<longrightarrow> c = 3)"
proof -
  define c where "c = (if doe = 146096 then 3 else doe div 36524)"
  define r where "r = doe - 36524 * c"
  define q where "q = r div 1461"
  define s where "s = r mod 1461"
  define a where "a = (if s = 1460 then 3 else s div 365)"
  define b where "b = s - 365 * a"
  have c: "c \<le> 3" "doe = 36524 * c + r" "r \<le> 36524" "r = 36524 \<longrightarrow> c = 3"
    using assms unfolding c_def r_def by (auto split: if_splits)
  have q: "r = 1461 * q + s" "s \<le> 1460" unfolding q_def s_def by auto
  then have q24: "q \<le> 24" "q = 24 \<and> s = 1460 \<longrightarrow> r = 36524" using c(3) by auto
  have a: "s = 365 * a + b" "a \<le> 3" "b \<le> 364 \<or> b = 365 \<and> a = 3 \<and> s = 1460"
    using q(2) unfolding a_def b_def by auto
  show thesis
    by (rule that [of c q a b]) (use c q q24 a in auto)
qed

lemma cycle_year:
  assumes "(doe :: nat) = 36524 * c + 1461 * q + 365 * a + b" "c \<le> 3" "q \<le> 24" "a \<le> 3"
    "b \<le> 364 \<or> b = 365 \<and> a = 3 \<and> (q = 24 \<longrightarrow> c = 3)"
  shows "(doe - doe div 1460 + doe div 36524 - doe div 146096) div 365 = 100 * c + 4 * q + a"
proof -
  define s where "s = 365 * a + b"
  have s: "s \<le> 1460" "s = 1460 \<longrightarrow> a = 3 \<and> b = 365" using assms(4,5) unfolding s_def by auto
  define k where "k = (if 24 * c + q + s < 1460 then 0 else 1 :: nat)"
  have "doe = 1460 * (25 * c + q) + (24 * c + q + s)" using assms(1) unfolding s_def by simp
  moreover have "24 * c + q + s < 2920" using assms(2,3) s(1) by simp
  ultimately have d1: "doe div 1460 = 25 * c + q + k" unfolding k_def by auto
  define l where "l = (if doe = 146096 then 1 else 0 :: nat)"
  have d2: "doe div 36524 = c + l" "doe div 146096 = l"
    using assms(1-5) unfolding l_def by auto
  have "k \<le> s" using assms(2,3) unfolding k_def by auto
  then have "doe - doe div 1460 + doe div 36524 - doe div 146096 = 365 * (100 * c + 4 * q) + (s - k)"
    unfolding d1 d2 using assms(1) unfolding s_def by simp
  moreover have "(s - k) div 365 = a"
    using assms(2-5) unfolding s_def k_def by auto
  ultimately show ?thesis by simp
qed

lemma march_cycle:
  assumes "c \<le> 3" "q \<le> 24" "a \<le> 3"
  shows "march_start (100 * c + 4 * q + a + era * 400) = 36524 * c + 1461 * q + 365 * a + era * 146097"
    and "(100 * c + 4 * q + a) div 4 = 25 * c + q" "(100 * c + 4 * q + a) div 100 = c"
proof -
  have e: "100 * c + 4 * q + a + era * 400 = 4 * (25 * c + q + 100 * era) + a"
    "100 * c + 4 * q + a + era * 400 = 100 * (c + 4 * era) + (4 * q + a)"
    "100 * c + 4 * q + a + era * 400 = 400 * era + (100 * c + 4 * q + a)" by simp_all
  have "(100 * c + 4 * q + a + era * 400) div 4 = 25 * c + q + 100 * era" unfolding e(1) using assms by simp
  moreover have "(100 * c + 4 * q + a + era * 400) div 100 = c + 4 * era" unfolding e(2) using assms by simp
  moreover have "(100 * c + 4 * q + a + era * 400) div 400 = era" unfolding e(3) using assms by simp
  ultimately show "march_start (100 * c + 4 * q + a + era * 400) = 36524 * c + 1461 * q + 365 * a + era * 146097"
    unfolding march_start_def by simp
  have e: "100 * c + 4 * q + a = 4 * (25 * c + q) + a" "100 * c + 4 * q + a = 100 * c + (4 * q + a)" by simp_all
  show "(100 * c + 4 * q + a) div 4 = 25 * c + q" unfolding e(1) using assms by simp
  show "(100 * c + 4 * q + a) div 100 = c" unfolding e(2) using assms by simp
qed

text \<open>The year and the day of the year as the code computes them, with years beginning in March.\<close>

lemma march_date:
  fixes z :: nat
  defines "era \<equiv> z div 146097"
  defines "doe \<equiv> z - era * 146097"
  defines "yoe \<equiv> (doe - doe div 1460 + doe div 36524 - doe div 146096) div 365"
  defines "doy \<equiv> doe - (365 * yoe + yoe div 4 - yoe div 100)"
  shows "z = march_start (yoe + era * 400) + doy" "doy \<le> 364 \<or> doy = 365 \<and> leap (Suc (yoe + era * 400))"
proof -
  have z: "z = era * 146097 + doe" "doe < 146097" unfolding doe_def era_def by (simp_all add: minus_div_mult_eq_mod)
  obtain c q a b where p: "doe = 36524 * c + 1461 * q + 365 * a + b" "c \<le> 3" "q \<le> 24" "a \<le> 3"
    "b \<le> 364 \<or> b = 365 \<and> a = 3 \<and> (q = 24 \<longrightarrow> c = 3)"
    using cycle_day [OF z(2)] by blast
  have yoe: "yoe = 100 * c + 4 * q + a" unfolding yoe_def by (rule cycle_year [OF p])
  have doy: "doy = b" unfolding doy_def yoe march_cycle(2,3) [OF p(2-4)] p(1) by simp
  show "z = march_start (yoe + era * 400) + doy"
    unfolding doy yoe march_cycle(1) [OF p(2-4)] using z(1) p(1) by simp
  have "leap (Suc (yoe + era * 400))" if "a = 3" "q = 24 \<longrightarrow> c = 3"
  proof -
    have y: "Suc (yoe + era * 400) = 100 * (c + 4 * era) + 4 * (q + 1)"
      "Suc (yoe + era * 400) = 4 * (25 * c + 100 * era + q + 1)" unfolding yoe that(1) by simp_all
    have "Suc (yoe + era * 400) mod 4 = 0" unfolding y(2) by simp
    moreover have "Suc (yoe + era * 400) mod 100 = 4 * (q + 1) mod 100" unfolding y(1) by (rule mod_mult_self4)
    then have "Suc (yoe + era * 400) mod 100 \<noteq> 0" if "q < 24" using that by simp
    moreover have "Suc (yoe + era * 400) mod 400 = 0" if "q = 24"
    proof -
      have "Suc (yoe + era * 400) = 400 * (era + 1)" unfolding yoe using that \<open>a = 3\<close> \<open>q = 24 \<longrightarrow> c = 3\<close> by simp
      then show ?thesis by simp
    qed
    ultimately show ?thesis using p(3) unfolding leap_def by (cases "q = 24") auto
  qed
  with p(5) show "doy \<le> 364 \<or> doy = 365 \<and> leap (Suc (yoe + era * 400))" unfolding doy by blast
qed

section \<open>Months\<close>

lemma month_sums:
  "(\<Sum>k = 1..<m. month_days y k) + (if leap y then 0 else 1) * (if m \<le> 2 then 0 else 1) =
     [0, 31, 60, 91, 121, 152, 182, 213, 244, 274, 305, 335] ! (m - 1)" if "1 \<le> m" "m \<le> 12"
proof -
  have "m \<in> {1, 2, 3, 4, 5, 6, 7, 8, 9, 10, 11, 12}" using that unfolding insert_iff empty_iff by presburger
  then show ?thesis
    by (elim insertE) (simp_all add: month_days_def numeral_eq_Suc atLeastLessThanSuc)
qed

text \<open>The month, and the day in it, of a day of a year beginning in March.\<close>

definition march_offset :: "nat \<Rightarrow> nat" where
  "march_offset mp = [0, 31, 61, 92, 122, 153, 184, 214, 245, 275, 306, 337] ! mp"

lemma march_month:
  fixes doy :: nat
  defines "mp \<equiv> (5 * doy + 2) div 153"
  assumes "doy \<le> 365"
  shows "mp \<le> 11" "(153 * mp + 2) div 5 = march_offset mp" "march_offset mp \<le> doy"
    "mp < 11 \<Longrightarrow> doy < march_offset (Suc mp)"
proof -
  have mp: "153 * mp \<le> 5 * doy + 2" "5 * doy + 2 < 153 * mp + 153" unfolding mp_def by simp_all
  then show m11: "mp \<le> 11" using assms(2) by simp
  then have "mp \<in> {0, 1, 2, 3, 4, 5, 6, 7, 8, 9, 10, 11}" unfolding insert_iff empty_iff by presburger
  then have "(153 * mp + 2) div 5 = march_offset mp \<and> march_offset mp \<le> doy \<and> (mp < 11 \<longrightarrow> doy < march_offset (Suc mp))"
    using mp by (elim insertE) (simp_all add: march_offset_def)
  then show "(153 * mp + 2) div 5 = march_offset mp" "march_offset mp \<le> doy" "mp < 11 \<Longrightarrow> doy < march_offset (Suc mp)"
    by simp_all
qed

section \<open>The computed date\<close>

lemma march_start_mono: "y \<le> y' \<Longrightarrow> march_start y \<le> march_start y'"
  by (rule lift_Suc_mono_le) (simp_all add: march_start_Suc)

lemma spring_date:
  assumes "1969 < y" "n + 719468 = march_start y + doy" "mp \<le> 9" "march_offset mp \<le> doy" "doy < march_offset (Suc mp)"
  shows "valid_date y (mp + 3) (doy - march_offset mp + 1)" "day_number y (mp + 3) (doy - march_offset mp + 1) = n"
proof -
  have "year_start y + 719162 + year_days y = march_start y"
    using year_start_march [of "y - 1"] march_start_Suc [of "y - 1"] assms(1) by simp
  moreover have "(\<Sum>k = 1..<mp + 3. month_days y k) + (if leap y then 0 else 1) = 60 + march_offset mp"
  proof -
    have "mp \<in> {0, 1, 2, 3, 4, 5, 6, 7, 8, 9}" using assms(3) unfolding insert_iff empty_iff by presburger
    then have "[0, 31, 60, 91, 121, 152, 182, 213, 244, 274, 305, 335] ! (mp + 2) = 60 + march_offset mp"
      by (elim insertE) (simp_all add: march_offset_def)
    with month_sums [of "mp + 3" y] assms(3) show ?thesis by simp
  qed
  ultimately show "day_number y (mp + 3) (doy - march_offset mp + 1) = n"
    using assms(2,4) unfolding day_number_def year_days_def by (cases "leap y") simp_all
  have "mp \<in> {0, 1, 2, 3, 4, 5, 6, 7, 8, 9}" using assms(3) unfolding insert_iff empty_iff by presburger
  then have "march_offset (Suc mp) - march_offset mp = month_days y (mp + 3)"
    by (elim insertE) (simp_all add: march_offset_def month_days_def)
  with assms(1,3-5) show "valid_date y (mp + 3) (doy - march_offset mp + 1)"
    unfolding valid_date_def by simp
qed

lemma winter_date:
  assumes "1969 \<le> y" "n + 719468 = march_start y + doy" "mp = 10 \<and> 306 \<le> doy \<and> doy < 337 \<or> mp = 11 \<and> 337 \<le> doy"
    "doy \<le> 364 \<or> doy = 365 \<and> leap (Suc y)"
  shows "valid_date (Suc y) (mp - 9) (doy - march_offset mp + 1)" "day_number (Suc y) (mp - 9) (doy - march_offset mp + 1) = n"
proof -
  have y: "year_start (Suc y) + 719162 = march_start y" using year_start_march [OF assms(1)] .
  have "(\<Sum>k = 1..<2. month_days (Suc y) k) = 31" by (simp add: month_days_def numeral_eq_Suc)
  with y assms(2,3) show "day_number (Suc y) (mp - 9) (doy - march_offset mp + 1) = n"
    unfolding day_number_def by (auto simp: march_offset_def)
  show "valid_date (Suc y) (mp - 9) (doy - march_offset mp + 1)"
    using assms(1,3,4) unfolding valid_date_def by (auto simp: march_offset_def month_days_def)
qed

text \<open>The date of a day is a date of the calendar, and its number is that of the day.\<close>

theorem civil_date_exact:
  assumes "civil_from_days n = (y, m, d)"
  shows "valid_date y m d" "day_number y m d = n"
proof -
  define z where "z = n + 719468"
  define era where "era = z div 146097"
  define doe where "doe = z - era * 146097"
  define yoe where "yoe = (doe - doe div 1460 + doe div 36524 - doe div 146096) div 365"
  define doy where "doy = doe - (365 * yoe + yoe div 4 - yoe div 100)"
  define mp where "mp = (5 * doy + 2) div 153"
  define my where "my = yoe + era * 400"
  have z: "z = march_start my + doy" "doy \<le> 364 \<or> doy = 365 \<and> leap (Suc my)"
    unfolding my_def doy_def yoe_def doe_def era_def by (rule march_date)+
  have doy: "doy \<le> 365" using z(2) by auto
  note mon = march_month [OF doy, folded mp_def]
  have date: "y = (if mp < 10 then my else Suc my)" "m = (if mp < 10 then mp + 3 else mp - 9)"
    "d = doy - (153 * mp + 2) div 5 + 1"
    using assms mon(1) unfolding civil_from_days_def Let_def z_def [symmetric] era_def [symmetric] doe_def [symmetric]
      yoe_def [symmetric] doy_def [symmetric] mp_def [symmetric] my_def [symmetric]
    by (auto split: if_splits)
  have early: "march_start my \<le> 718797" if "my < 1969"
    using march_start_mono [of my 1968] that by (simp add: march_start_def)
  have my: "1969 \<le> my" using early z(1) doy unfolding z_def by (cases "my < 1969") auto
  have n: "n + 719468 = march_start my + doy" using z(1) unfolding z_def .
  consider "mp \<le> 9" | "mp = 10" | "mp = 11" using mon(1) by linarith
  then have "valid_date y m d \<and> day_number y m d = n"
  proof cases
    case 1
    have up: "doy < march_offset (Suc mp)" using mon(4) 1 by simp
    have "mp \<in> {0, 1, 2, 3, 4, 5, 6, 7, 8, 9}" using 1 unfolding insert_iff empty_iff by presburger
    then have "march_offset (Suc mp) \<le> 306" by (elim insertE) (simp_all add: march_offset_def)
    then have "my \<noteq> 1969" using n up by (auto simp: march_start_def)
    with my have "1969 < my" by simp
    from spring_date [OF this n 1 mon(3) up] show ?thesis unfolding date mon(2) using 1 by simp
  next
    case 2
    then have "mp = 10 \<and> 306 \<le> doy \<and> doy < 337 \<or> mp = 11 \<and> 337 \<le> doy"
      using mon(3,4) by (simp add: march_offset_def)
    from winter_date [OF my n this z(2)] show ?thesis unfolding date mon(2) using 2 by simp
  next
    case 3
    then have "mp = 10 \<and> 306 \<le> doy \<and> doy < 337 \<or> mp = 11 \<and> 337 \<le> doy"
      using mon(3) by (simp add: march_offset_def)
    from winter_date [OF my n this z(2)] show ?thesis unfolding date mon(2) using 3 by simp
  qed
  then show "valid_date y m d" "day_number y m d = n" by simp_all
qed

end
