(* ===== verification/Certificates_Properties.thy ===== *)
theory Certificates_Properties
  imports Certificates
begin

text \<open>
  The TLV form of certificates: what the writer writes, that the parser reads it back, and that
  every certificate the parser delivers can be written again and is read back unchanged.
\<close>

section \<open>The trees of names, extensions and certificates\<close>

fun attr_tree :: "dn_attribute \<Rightarrow> tag \<times> tlv_value" where
  "attr_tree (CommonName s) = (Context 1, VUtf8 s)"
| "attr_tree (Surname s) = (Context 2, VUtf8 s)"
| "attr_tree (SerialNumber s) = (Context 3, VUtf8 s)"
| "attr_tree (CountryName s) = (Context 4, VUtf8 s)"
| "attr_tree (LocalityName s) = (Context 5, VUtf8 s)"
| "attr_tree (StateOrProvinceName s) = (Context 6, VUtf8 s)"
| "attr_tree (OrganizationName s) = (Context 7, VUtf8 s)"
| "attr_tree (OrganizationalUnitName s) = (Context 8, VUtf8 s)"
| "attr_tree (Title s) = (Context 9, VUtf8 s)"
| "attr_tree (Name s) = (Context 10, VUtf8 s)"
| "attr_tree (GivenName s) = (Context 11, VUtf8 s)"
| "attr_tree (Initials s) = (Context 12, VUtf8 s)"
| "attr_tree (GenerationQualifier s) = (Context 13, VUtf8 s)"
| "attr_tree (DnQualifier s) = (Context 14, VUtf8 s)"
| "attr_tree (Pseudonym s) = (Context 15, VUtf8 s)"
| "attr_tree (DomainComponent s) = (Context 16, VUtf8 s)"
| "attr_tree (NodeId v) = (Context 17, VUint v)"
| "attr_tree (IcacId v) = (Context 19, VUint v)"
| "attr_tree (RcacId v) = (Context 20, VUint v)"
| "attr_tree (FabricId v) = (Context 21, VUint v)"
| "attr_tree (CaseAuthenticatedTag v) = (Context 22, VUint (ucast v))"
| "attr_tree (VendorId v) = (Anonymous, VNull)"
| "attr_tree (ProductId v) = (Anonymous, VNull)"
| "attr_tree (OtherAttribute t (DnUtf8 s)) = (Context t, VUtf8 s)"
| "attr_tree (OtherAttribute t (DnUint v)) = (Context t, VUint v)"
| "attr_tree (OtherAttribute t (DnBytes b)) = (Context t, VBytes b)"

definition dn_tree :: "distinguished_name \<Rightarrow> tlv_value" where
  "dn_tree dn = VList (map attr_tree dn)"

definition member_opt :: "'a option \<Rightarrow> tag \<Rightarrow> ('a \<Rightarrow> tlv_value) \<Rightarrow> (tag \<times> tlv_value) list" where
  "member_opt slot t f = (case slot of None \<Rightarrow> [] | Some x \<Rightarrow> [(t, f x)])"

definition bc_tree :: "basic_constraints \<Rightarrow> tlv_value" where
  "bc_tree bc = VStructure ((Context 1, VBool (bc_is_ca bc)) # member_opt (bc_path_len bc) (Context 2) (\<lambda>n. VUint (ucast n)))"

definition eku_tree :: "u32 list \<Rightarrow> tlv_value" where
  "eku_tree eku = VArray (map (\<lambda>v. VUint (ucast v)) eku)"

definition ext_tree :: "cert_extensions \<Rightarrow> tlv_value" where
  "ext_tree x = VList (member_opt (ex_basic_constraints x) (Context 1) bc_tree @
     member_opt (ex_key_usage x) (Context 2) (\<lambda>ku. VUint (ucast ku)) @
     member_opt (ex_extended_key_usage x) (Context 3) eku_tree @
     member_opt (ex_subject_key_identifier x) (Context 4) VBytes @
     member_opt (ex_authority_key_identifier x) (Context 5) VBytes)"

definition cert_members :: "matter_certificate \<Rightarrow> (tag \<times> tlv_value) list" where
  "cert_members c = [(Context 1, VBytes (crt_serial c)), (Context 2, VUint 1), (Context 3, dn_tree (crt_issuer c)),
     (Context 4, VUint (ucast (crt_not_before c))), (Context 5, VUint (ucast (crt_not_after c))),
     (Context 6, dn_tree (crt_subject c)), (Context 7, VUint 1), (Context 8, VUint 1),
     (Context 9, VBytes (crt_public_key c)), (Context 10, ext_tree (crt_extensions c)),
     (Context 11, VBytes (crt_signature c))]"

definition cert_tree :: "matter_certificate \<Rightarrow> tlv_value" where
  "cert_tree c = VStructure (cert_members c)"

text \<open>Well-formed names, extensions and certificates.\<close>

definition attr_wf :: "dn_attribute \<Rightarrow> bool" where
  "attr_wf a \<longleftrightarrow> sound (snd (attr_tree a)) \<and>
     (case a of VendorId _ \<Rightarrow> False | ProductId _ \<Rightarrow> False | OtherAttribute t _ \<Rightarrow> is_untyped_dn_tag t | _ \<Rightarrow> True)"

definition ext_wf :: "cert_extensions \<Rightarrow> bool" where
  "ext_wf x \<longleftrightarrow> (\<forall>ku. ex_key_usage x = Some ku \<longrightarrow> key_usage_truncate ku = ku) \<and>
     (\<forall>k. ex_subject_key_identifier x = Some k \<or> ex_authority_key_identifier x = Some k \<longrightarrow> length k = 20)"

definition cert_wf :: "matter_certificate \<Rightarrow> bool" where
  "cert_wf c \<longleftrightarrow> 1 \<le> length (crt_serial c) \<and> length (crt_serial c) \<le> 20 \<and>
     list_all attr_wf (crt_issuer c) \<and> list_all attr_wf (crt_subject c) \<and>
     length (crt_public_key c) = 65 \<and> crt_public_key c ! 0 = 4 \<and> ext_wf (crt_extensions c) \<and>
     length (crt_signature c) = 64"

section \<open>Writing\<close>

definition outputs :: "cert_writer \<Rightarrow> bytes \<Rightarrow> bool" where
  "outputs m bs \<longleftrightarrow> (\<forall>out. m out = (Inr (), out @ bs))"

named_theorems emit_rules

lemma emits_basic [emit_rules]:
  "outputs (ok ()) []"
  "length s < 2 ^ 64 \<Longrightarrow> outputs (cert_put (put_utf8 t s)) (enc t (VUtf8 s))"
  "length s < 2 ^ 64 \<Longrightarrow> outputs (cert_put (put_bytes t s)) (enc t (VBytes s))"
  "outputs (cert_put (put_uint t n)) (enc t (VUint n))"
  "outputs (cert_put (put_bool t b)) (enc t (VBool b))"
  "outputs (cert_put end_container) [ET_END_OF_CONTAINER]"
  "outputs (cert_put (start_list t)) (encode_tag t ET_LIST)"
  "outputs (cert_put (start_array t)) (encode_tag t ET_ARRAY)"
  "outputs (cert_put (start_structure t)) (encode_tag t ET_STRUCTURE)"
  by (simp_all add: outputs_def codec_as_def put_eqs writer_eqs)

lemma emits_andthen: "outputs m bs \<Longrightarrow> outputs m' bs' \<Longrightarrow> outputs (andthen m (\<lambda>_. m')) (bs @ bs')"
  by (simp add: outputs_def andthen_def)

lemma emits_when_some [emit_rules]:
  "(\<And>x. slot = Some x \<Longrightarrow> outputs (f x) (enc t (g x))) \<Longrightarrow> outputs (when_some slot f) (enc_members (member_opt slot t g))"
  by (auto simp: when_some_def member_opt_def emits_basic enc_members_Cons simp del: enc_members.simps(2) split: option.split)

lemma emits_attribute:
  assumes "attr_wf a"
  shows "outputs (encode_attribute a) (enc (fst (attr_tree a)) (snd (attr_tree a)))"
proof (cases a)
  case (OtherAttribute t v)
  with assms show ?thesis by (cases v) (auto simp: attr_wf_def sound_def intro!: emits_basic)
qed (use assms in \<open>auto simp: attr_wf_def sound_def intro!: emits_basic\<close>)

lemma emits_attributes: "list_all attr_wf dn \<Longrightarrow> outputs (encode_attributes dn) (enc_members (map attr_tree dn))"
proof (induction dn)
  case (Cons a dn)
  then show ?case
    using emits_andthen [OF emits_attribute [of a] Cons.IH]
    by (cases "attr_tree a") (simp add: enc_members_Cons del: enc_members.simps(2))
qed (simp add: emits_basic)

lemma emits_dn: "list_all attr_wf dn \<Longrightarrow> outputs (write_dn dn t) (enc t (dn_tree dn))"
  unfolding write_dn_def dn_tree_def enc_containers
  by (intro emits_andthen emits_attributes emits_basic)

lemma emits_bc: "outputs (write_bc bc t) (enc t (bc_tree bc))"
  unfolding write_bc_def bc_tree_def enc_containers enc_members_Cons append_assoc
  by (intro emits_andthen emits_when_some emits_basic)

lemma emits_uints: "outputs (write_uints vs) (enc_elements (map (\<lambda>v. VUint (ucast v)) vs))"
proof (induction vs)
  case (Cons v vs)
  show ?case
    using emits_andthen [OF emits_basic(4) Cons.IH, of Anonymous "ucast v"]
    by (simp add: enc_elements_members enc_members_Cons del: enc_members.simps(2))
qed (simp add: outputs_def)

lemma emits_extensions:
  assumes "ext_wf x"
  shows "outputs (write_extensions x t) (enc t (ext_tree x))"
proof -
  have len: "length k < 2 ^ 64" if "ex_subject_key_identifier x = Some k \<or> ex_authority_key_identifier x = Some k" for k
    using assms that by (auto simp: ext_wf_def)
  have eku: "outputs (andthen (cert_put (start_array (Context 3))) (\<lambda>_.
      andthen (write_uints eku) (\<lambda>_. cert_put end_container))) (enc (Context 3) (eku_tree eku))" for eku
    unfolding eku_tree_def enc_containers by (intro emits_andthen emits_uints emits_basic)
  show ?thesis
    unfolding write_extensions_def ext_tree_def enc_containers enc_members_append append_assoc
    by (intro emits_andthen emits_when_some emits_basic emits_bc eku) (use len in auto)
qed

lemma emits_certificate:
  assumes "cert_wf c"
  shows "outputs (write_certificate c) (enc Anonymous (cert_tree c))"
proof -
  have len: "length (crt_serial c) < 2 ^ 64" "length (crt_public_key c) < 2 ^ 64" "length (crt_signature c) < 2 ^ 64"
    using assms by (auto simp: cert_wf_def)
  have wf: "list_all attr_wf (crt_issuer c)" "list_all attr_wf (crt_subject c)" "ext_wf (crt_extensions c)"
    using assms by (auto simp: cert_wf_def)
  show ?thesis
    unfolding write_certificate_def cert_tree_def cert_members_def enc_containers enc_simps append_assoc append_Nil
    by (intro emits_andthen emits_basic emits_dn emits_extensions len wf)
qed

theorem to_tlv_written: "cert_wf c \<Longrightarrow> to_tlv c = Inr (enc Anonymous (cert_tree c))"
  using emits_certificate [of c] by (simp add: to_tlv_def outputs_def)

section \<open>Reading\<close>

lemma keeps_lift_result: "reflp R \<Longrightarrow> keeps R (lift_result x)"
  by (auto simp: keeps_def lift_result_def dest: reflpD)

lemma keeps_first_seen: "keeps forward (ensure_first_seen t slot)"
  by (simp add: ensure_first_seen_def forward_keeps)

lemmas cert_keeps = im_keeps keeps_lift_result [OF forward_refl] keeps_first_seen

lemma keeps_dn_step: "keeps forward (read_dn_step e acc)"
  unfolding read_dn_step_def by (cases e; cases "case e of Scalar t _ \<Rightarrow> t | _ \<Rightarrow> Anonymous") (auto intro!: cert_keeps)

lemma keeps_bc_step: "keeps forward (read_bc_step e acc)"
  unfolding read_bc_step_def by (intro keeps_cases cert_keeps)

lemma keeps_uint_array_step: "keeps forward (read_uint_array_step e acc)"
  unfolding read_uint_array_step_def by (auto intro!: cert_keeps split: tlv_element.split tlv_value.split)

lemma keeps_dn: "keeps forward read_dn"
  unfolding read_dn_def by (intro cert_keeps keeps_dn_step)

lemma keeps_bc: "keeps forward read_bc"
  unfolding read_bc_def by (intro cert_keeps keeps_bc_step)

lemma keeps_uint_array: "keeps forward read_uint_array"
  unfolding read_uint_array_def by (intro cert_keeps keeps_uint_array_step)

lemma keeps_extensions_step: "keeps forward (read_extensions_step e acc)"
  unfolding read_extensions_step_def by (intro keeps_cases cert_keeps keeps_bc keeps_uint_array)

lemma keeps_extensions: "keeps forward read_extensions"
  unfolding read_extensions_def by (intro cert_keeps keeps_extensions_step)

lemma keeps_cert_scalar: "keeps forward (cert_scalar t v s)"
  unfolding cert_scalar_def check_algorithm_def by (cases v) (auto intro!: keeps_cases cert_keeps)

lemma keeps_cert_container: "keeps forward (cert_container t k s)"
  unfolding cert_container_def by (intro keeps_cases cert_keeps keeps_dn keeps_extensions)

lemma keeps_cert_step: "keeps forward (cert_step e s)"
  unfolding cert_step_def by (cases e) (auto intro!: cert_keeps keeps_cert_scalar keeps_cert_container)

lemma lift_result_simps [simp]: "lift_result (Inr x) = ok x" "lift_result (Inl e) = err e"
  by (rule ext, simp add: lift_result_def)+

lemma decode_attr_tree:
  assumes "attr_wf a"
  shows "\<exists>t v. attr_tree a = (Context t, v) \<and> decode_attribute t v = Inr a \<and> kind_of_value v = None \<and> sound v"
proof (cases a)
  case (OtherAttribute t v)
  then have "is_untyped_dn_tag t" using assms by (simp add: attr_wf_def)
  then have "t \<notin> {1, 2, 3, 4, 5, 6, 7, 8, 9, 10, 11, 12, 13, 14, 15, 16, 17, 19, 20, 21, 22}"
    by (auto simp: is_untyped_dn_tag_def word_le_nat_alt)
  with assms OtherAttribute show ?thesis by (cases v) (auto simp: attr_wf_def decode_attribute_def)
qed (use assms in \<open>auto simp: attr_wf_def decode_attribute_def\<close>)

lemma sound_readable: "kind_of_value v = None \<Longrightarrow> sound v \<Longrightarrow> d \<le> MAX_DEPTH \<Longrightarrow> readable d v"
  by (simp add: sound_def readable_scalar)

lemma takes_attribute:
  assumes "attr_wf a" "d \<le> MAX_DEPTH" "attr_tree a = (t, v)"
  shows "takes read_dn_step d t v acc (acc @ [a])"
  using decode_attr_tree [OF assms(1)] assms(2,3)
  by (auto intro!: takes_scalar sound_readable simp: read_dn_step_def)

lemma takes_attributes:
  "list_all attr_wf dn \<Longrightarrow> d \<le> MAX_DEPTH \<Longrightarrow> takes_all read_dn_step d (map attr_tree dn) acc (acc @ dn)"
proof (induction dn arbitrary: acc)
  case (Cons a dn)
  obtain t v where "attr_tree a = (t, v)" by (cases "attr_tree a")
  with Cons takes_attribute [of a d t v acc] Cons.IH [of "acc @ [a]"] show ?case
    by (auto intro!: exI [of _ "acc @ [a]"])
qed simp

lemma runs_dn:
  assumes "list_all attr_wf dn" "Suc d \<le> MAX_DEPTH"
  shows "runs (at (Suc d) (enc_members (map attr_tree dn) @ ET_END_OF_CONTAINER # ys)) read_dn dn (at d ys)"
  unfolding read_dn_def
  by (rule runs_scan_container [OF keeps_dn_step takes_attributes [OF assms]]) (simp add: read_dn_step_def)

lemma takes_all_member_opt:
  "(\<And>x. slot = Some x \<Longrightarrow> takes body d t (g x) acc acc') \<Longrightarrow> (slot = None \<Longrightarrow> acc' = acc) \<Longrightarrow>
   takes_all body d (member_opt slot t g) acc acc'"
  by (auto simp: member_opt_def split: option.split)

lemma runs_bc:
  assumes "Suc d \<le> MAX_DEPTH"
  shows "runs (at (Suc d) (enc_members (children (bc_tree bc)) @ ET_END_OF_CONTAINER # ys)) read_bc bc (at d ys)"
proof -
  have "takes_all read_bc_step (Suc d) (children (bc_tree bc)) \<lparr>bc_is_ca = False, bc_path_len = None\<rparr> bc"
    unfolding bc_tree_def children.simps
    by (rule takes_all_Cons [where ?acc1.0 = "\<lparr>bc_is_ca = bc_is_ca bc, bc_path_len = None\<rparr>"], rule takes_scalar)
      (use assms in \<open>auto simp: readable_plain read_bc_step_def arms intro!: takes_all_member_opt takes_scalar\<close>)
  then show ?thesis
    unfolding read_bc_def by (rule runs_scan_container [OF keeps_bc_step]) (simp add: read_bc_step_def)
qed

lemma runs_uint_array:
  assumes "Suc d \<le> MAX_DEPTH"
  shows "runs (at (Suc d) (enc_members (children (eku_tree eku)) @ ET_END_OF_CONTAINER # ys)) read_uint_array eku (at d ys)"
proof -
  have "takes_all read_uint_array_step (Suc d) (map (Pair Anonymous) (map (\<lambda>v. VUint (ucast v)) vs)) acc (acc @ vs)" for vs acc
  proof (induction vs arbitrary: acc)
    case (Cons v vs)
    have "takes read_uint_array_step (Suc d) Anonymous (VUint (ucast v)) acc (acc @ [v])"
      using assms by (auto intro!: takes_scalar simp: readable_plain read_uint_array_step_def)
    with Cons.IH [of "acc @ [v]"] show ?case by (auto intro!: exI [of _ "acc @ [v]"])
  qed simp
  from this [of eku "[]"] show ?thesis
    unfolding read_uint_array_def eku_tree_def children.simps append_Nil
    by (rule runs_scan_container [OF keeps_uint_array_step]) (simp add: read_uint_array_step_def)
qed

lemma runs_extensions:
  assumes "ext_wf x" "Suc (Suc d) \<le> MAX_DEPTH"
  shows "runs (at (Suc d) (enc_members (children (ext_tree x)) @ ET_END_OF_CONTAINER # ys)) read_extensions x (at d ys)"
proof -
  let ?b = read_extensions_step
  let ?x1 = "extensions_default\<lparr>ex_basic_constraints := ex_basic_constraints x\<rparr>"
  let ?x2 = "?x1\<lparr>ex_key_usage := ex_key_usage x\<rparr>"
  let ?x3 = "?x2\<lparr>ex_extended_key_usage := ex_extended_key_usage x\<rparr>"
  let ?x4 = "?x3\<lparr>ex_subject_key_identifier := ex_subject_key_identifier x\<rparr>"
  let ?x5 = "?x4\<lparr>ex_authority_key_identifier := ex_authority_key_identifier x\<rparr>"
  note step = read_extensions_step_def arms bytes_at_def ensure_first_seen_def extensions_default_def
  have bc: "readable (Suc d) (bc_tree bc)" for bc
    using assms(2) by (auto simp: readable_container bc_tree_def member_opt_def readable_plain split: option.splits)
  have eku: "readable (Suc d) (eku_tree us)" for us
    using assms(2) by (auto simp: readable_container eku_tree_def readable_plain)
  have "takes_all ?b (Suc d) (member_opt (ex_basic_constraints x) (Context 1) bc_tree) extensions_default ?x1"
  proof (rule takes_all_member_opt)
    fix bc assume "ex_basic_constraints x = Some bc"
    with assms(2) show "takes ?b (Suc d) (Context 1) (bc_tree bc) extensions_default ?x1"
      by (intro takes_parsed [where k = KStructure, OF _ bc runs_opened [OF runs_bc]])
        (auto simp: step bc_tree_def)
  qed (simp add: extensions_default_def)
  moreover have "takes_all ?b (Suc d) (member_opt (ex_key_usage x) (Context 2) (\<lambda>ku. VUint (ucast ku))) ?x1 ?x2"
    using assms by (auto intro!: takes_all_member_opt takes_scalar simp: step readable_plain ext_wf_def)
  moreover have "takes_all ?b (Suc d) (member_opt (ex_extended_key_usage x) (Context 3) eku_tree) ?x2 ?x3"
  proof (rule takes_all_member_opt)
    fix us assume "ex_extended_key_usage x = Some us"
    with assms(2) show "takes ?b (Suc d) (Context 3) (eku_tree us) ?x2 ?x3"
      by (intro takes_parsed [where k = KArray, OF _ eku runs_opened [OF runs_uint_array]])
        (auto simp: step eku_tree_def)
  qed (simp add: extensions_default_def)
  moreover have "takes_all ?b (Suc d) (member_opt (ex_subject_key_identifier x) (Context 4) VBytes) ?x3 ?x4"
    using assms by (auto intro!: takes_all_member_opt takes_scalar readable_scalar
        simp: step ext_wf_def key_identifier_from_slice_def try_array_def)
  moreover have "takes_all ?b (Suc d) (member_opt (ex_authority_key_identifier x) (Context 5) VBytes) ?x4 ?x5"
    using assms by (auto intro!: takes_all_member_opt takes_scalar readable_scalar
        simp: step ext_wf_def key_identifier_from_slice_def try_array_def)
  ultimately have "takes_all ?b (Suc d) (children (ext_tree x)) extensions_default ?x5"
    unfolding ext_tree_def children.simps takes_all_append by blast
  moreover have "?x5 = x" by (simp add: extensions_default_def)
  ultimately have "takes_all ?b (Suc d) (children (ext_tree x)) extensions_default x" by simp
  then show ?thesis
    unfolding read_extensions_def
    by (rule runs_scan_container [OF keeps_extensions_step]) (simp add: read_extensions_step_def)
qed

lemma readable_dn:
  assumes "list_all attr_wf dn" "Suc d \<le> MAX_DEPTH"
  shows "readable d (dn_tree dn)"
proof -
  have "readable (Suc d) v" if "attr_tree a = (t, v)" "a \<in> set dn" for t v a
    using decode_attr_tree [of a] that assms by (auto simp: list_all_iff intro!: sound_readable)
  with assms(2) show ?thesis by (auto simp: readable_container dn_tree_def)
qed

lemma readable_ext:
  "ext_wf x \<Longrightarrow> Suc (Suc d) \<le> MAX_DEPTH \<Longrightarrow> readable d (ext_tree x)"
  by (auto simp: readable_container ext_tree_def bc_tree_def eku_tree_def member_opt_def ext_wf_def
      readable_plain readable_scalar split: option.splits)

lemma ok_Pair: "ok x = Pair (Inr x)"
  by (rule ext) simp

lemma takes_dn:
  assumes "list_all attr_wf dn" "Suc (Suc d) \<le> MAX_DEPTH"
    "cert_step (ContainerStart t KList) s = andthen read_dn (\<lambda>dn. ok (Again (g dn)))" "s' = g dn"
  shows "takes cert_step (Suc d) t (dn_tree dn) s s'"
proof (rule takes_parsed [where k = KList and m = read_dn and x = dn and g = g])
  show "runs (at_open (Suc (Suc d)) (enc_members (children (dn_tree dn)) @ ET_END_OF_CONTAINER # ys)) read_dn dn (at (Suc d) ys)" for ys
    using runs_opened [OF runs_dn [OF assms(1,2)]] by (simp add: dn_tree_def)
qed (simp_all add: assms readable_dn, simp add: dn_tree_def)

lemma takes_certificate:
  assumes wf: "cert_wf c"
  shows "\<exists>s. takes_all cert_step (Suc 0) (cert_members c) cert_slots_init s \<and> cert_of_slots s = ok c"
proof -
  note step = cert_step_def context_tag_def cert_scalar_def ensure_first_seen_def check_algorithm_def
  let ?T = "takes cert_step (Suc 0)"
  have serial: "sl_serial s = None \<Longrightarrow> ?T (Context 1) (VBytes (crt_serial c)) s (s\<lparr>sl_serial := Some (crt_serial c)\<rparr>)" for s
    using wf by (intro takes_scalar readable_scalar)
      (auto simp: cert_wf_def step validate_serial_len_def MAX_SERIAL_LEN_def MAX_DEPTH_def)
  have times:
    "sl_not_before s = None \<Longrightarrow> ?T (Context 4) (VUint (ucast (crt_not_before c))) s (s\<lparr>sl_not_before := Some (crt_not_before c)\<rparr>)"
    "sl_not_after s = None \<Longrightarrow> ?T (Context 5) (VUint (ucast (crt_not_after c))) s (s\<lparr>sl_not_after := Some (crt_not_after c)\<rparr>)" for s
    by (intro takes_scalar readable_plain; auto simp: step MAX_DEPTH_def)+
  have algs:
    "\<not> sl_sig_alg_seen s \<Longrightarrow> ?T (Context 2) (VUint 1) s (s\<lparr>sl_sig_alg_seen := True\<rparr>)"
    "\<not> sl_pubkey_alg_seen s \<Longrightarrow> ?T (Context 7) (VUint 1) s (s\<lparr>sl_pubkey_alg_seen := True\<rparr>)"
    "\<not> sl_ec_curve_seen s \<Longrightarrow> ?T (Context 8) (VUint 1) s (s\<lparr>sl_ec_curve_seen := True\<rparr>)" for s
    by (intro takes_scalar readable_plain; auto simp: step MAX_DEPTH_def try_u8_def)+
  have key: "sl_public_key s = None \<Longrightarrow> ?T (Context 9) (VBytes (crt_public_key c)) s (s\<lparr>sl_public_key := Some (crt_public_key c)\<rparr>)" for s
    using wf by (intro takes_scalar readable_scalar)
      (auto simp: cert_wf_def step public_key_from_slice_def public_key_new_def try_array_def MAX_DEPTH_def)
  have sig: "sl_signature s = None \<Longrightarrow> ?T (Context 11) (VBytes (crt_signature c)) s (s\<lparr>sl_signature := Some (crt_signature c)\<rparr>)" for s
    using wf by (intro takes_scalar readable_scalar)
      (auto simp: cert_wf_def step signature_from_slice_def try_array_def MAX_DEPTH_def)
  have names:
    "sl_issuer s = None \<Longrightarrow> ?T (Context 3) (dn_tree (crt_issuer c)) s (s\<lparr>sl_issuer := Some (crt_issuer c)\<rparr>)"
    "sl_subject s = None \<Longrightarrow> ?T (Context 6) (dn_tree (crt_subject c)) s (s\<lparr>sl_subject := Some (crt_subject c)\<rparr>)" for s
    using wf by (intro takes_dn; auto simp: cert_wf_def step cert_container_def andthen_assoc ok_Pair MAX_DEPTH_def)+
  have exts: "sl_extensions s = None \<Longrightarrow> ?T (Context 10) (ext_tree (crt_extensions c)) s (s\<lparr>sl_extensions := Some (crt_extensions c)\<rparr>)" for s
    using wf by (intro takes_parsed [where k = KList, OF _ readable_ext runs_opened [OF runs_extensions]])
      (auto simp: cert_wf_def step cert_container_def andthen_assoc ok_Pair MAX_DEPTH_def ext_tree_def)
  let ?s = "\<lparr>sl_serial = Some (crt_serial c), sl_sig_alg_seen = True, sl_issuer = Some (crt_issuer c),
       sl_not_before = Some (crt_not_before c), sl_not_after = Some (crt_not_after c), sl_subject = Some (crt_subject c),
       sl_pubkey_alg_seen = True, sl_ec_curve_seen = True, sl_public_key = Some (crt_public_key c),
       sl_extensions = Some (crt_extensions c), sl_signature = Some (crt_signature c)\<rparr>"
  have "\<exists>s. takes_all cert_step (Suc 0) (cert_members c) cert_slots_init s \<and> s = ?s"
    unfolding cert_members_def
    by (rule exI, rule conjI,
        (rule takes_all_Cons, rule serial times algs key sig names exts, simp add: cert_slots_init_def)+,
        rule takes_all_Nil) (simp add: cert_slots_init_def)
  moreover have "cert_of_slots ?s = ok c" by (cases c) (simp add: cert_of_slots_def ok_Pair)
  ultimately show ?thesis by blast
qed

lemma readable_certificate: "cert_wf c \<Longrightarrow> readable 0 (cert_tree c)"
  by (auto simp: readable_container cert_tree_def cert_members_def cert_wf_def MAX_DEPTH_def readable_plain
      intro!: readable_scalar readable_dn readable_ext)

text \<open>Whatever follows the certificate is not looked at.\<close>

lemma from_tlv_written:
  assumes "cert_wf c" "length (enc Anonymous (cert_tree c) @ zs) < 2 ^ 64"
  shows "from_tlv (enc Anonymous (cert_tree c) @ zs) = Inr c"
proof -
  let ?p = "scan_as (CertCodec UnclosedContainer) CertCodec cert_step cert_slots_init"
  obtain s where s: "takes_all cert_step (Suc 0) (cert_members c) cert_slots_init s" "cert_of_slots s = ok c"
    using takes_certificate [OF assms(1)] by blast
  have "runs (at (Suc 0) (enc_members (cert_members c) @ ET_END_OF_CONTAINER # zs)) ?p s (at 0 zs)"
    by (rule runs_scan_container [OF keeps_cert_step s(1)]) (simp add: cert_step_def)
  then have "runs (at 1 (enc_members (cert_members c) @ ET_END_OF_CONTAINER # zs)) (andthen ?p cert_of_slots) c (at 0 zs)"
    using s(2) by (auto intro: runs_andthen)
  with assms readable_certificate [OF assms(1)] show ?thesis
    unfolding from_tlv_def cert_tree_def by (intro parse_prefix_runs)
qed

section \<open>What the parser delivers\<close>

lemma returns_lift_result [result_rules]: "(\<And>x. res = Inr x \<Longrightarrow> P x) \<Longrightarrow> returns P (lift_result res)"
  by (auto simp: returns_def lift_result_def)

lemma returns_then: "(\<And>x. returns P (f x)) \<Longrightarrow> returns P (andthen m f)"
  by (rule returns_andthen [OF returns_any])

lemma decode_attribute_wf: "sound v \<Longrightarrow> decode_attribute t v = Inr a \<Longrightarrow> attr_wf a"
  by (cases v) (auto simp: decode_attribute_def undecodable_def attr_wf_def sound_def split: if_splits option.splits)

lemma returns_dn: "returns (list_all attr_wf) read_dn"
  unfolding read_dn_def
proof (rule returns_scan [where I = "list_all attr_wf"])
  fix e acc
  assume "sound_element e" "list_all attr_wf acc"
  then show "returns (flow_ok (list_all attr_wf) (list_all attr_wf)) (read_dn_step e acc)"
    unfolding read_dn_step_def
    by (auto intro!: returns_basic returns_andthen [OF returns_lift_result [where P = attr_wf]]
        dest: decode_attribute_wf split: tlv_element.split tag.split)
qed simp

lemma returns_extensions: "returns ext_wf read_extensions"
  unfolding read_extensions_def
proof (rule returns_scan [where I = ext_wf])
  fix e x
  assume x: "ext_wf x"
  have kid: "returns (\<lambda>k. length k = 20) (lift_result (key_identifier_from_slice b))" for b
    by (auto intro!: returns_lift_result returns_basic simp: key_identifier_from_slice_def try_array_def split: option.splits if_splits)
  from x show "returns (flow_ok ext_wf ext_wf) (read_extensions_step e x)"
    unfolding read_extensions_step_def
    by (auto intro!: result_rules returns_then returns_andthen [OF kid]
        simp: ext_wf_def key_usage_truncate_def ac_simps)
qed (simp add: ext_wf_def extensions_default_def)

definition slots_wf :: "cert_slots \<Rightarrow> bool" where
  "slots_wf s \<longleftrightarrow>
     (\<forall>b. sl_serial s = Some b \<longrightarrow> 1 \<le> length b \<and> length b \<le> 20) \<and>
     (\<forall>dn. sl_issuer s = Some dn \<or> sl_subject s = Some dn \<longrightarrow> list_all attr_wf dn) \<and>
     (\<forall>k. sl_public_key s = Some k \<longrightarrow> length k = 65 \<and> k ! 0 = 4) \<and>
     (\<forall>x. sl_extensions s = Some x \<longrightarrow> ext_wf x) \<and>
     (\<forall>sig. sl_signature s = Some sig \<longrightarrow> length sig = 64)"

lemma returns_cert_scalar:
  assumes "slots_wf s"
  shows "returns slots_wf (cert_scalar t v s)"
proof -
  have serial: "returns (\<lambda>_. 1 \<le> length b \<and> length b \<le> 20) (lift_result (validate_serial_len (length b)))" for b :: bytes
    by (auto intro!: returns_lift_result returns_basic simp: validate_serial_len_def MAX_SERIAL_LEN_def Suc_le_eq split: if_splits)
  have key: "returns (\<lambda>k. length k = 65 \<and> k ! 0 = 4) (lift_result (public_key_from_slice b))" for b
    by (auto intro!: returns_lift_result returns_basic simp: public_key_from_slice_def public_key_new_def try_array_def split: option.splits if_splits)
  have sig: "returns (\<lambda>s. length s = 64) (lift_result (signature_from_slice b))" for b
    by (auto intro!: returns_lift_result returns_basic simp: signature_from_slice_def try_array_def split: option.splits if_splits)
  show ?thesis
  proof (cases v)
    case (VBytes b)
    show ?thesis
      unfolding cert_scalar_def VBytes tlv_value.case
      using assms
      by (intro returns_if returns_basic(2) returns_then [where m = "ensure_first_seen _ _"]
          returns_andthen [OF serial] returns_andthen [OF key] returns_andthen [OF sig] returns_basic(1))
        (auto simp: slots_wf_def)
  qed (use assms in \<open>auto simp: cert_scalar_def slots_wf_def intro!: returns_if returns_then returns_basic\<close>)
qed

lemma returns_cert_container:
  assumes "slots_wf s"
  shows "returns slots_wf (cert_container t k s)"
  unfolding cert_container_def
  by (intro returns_if returns_basic(2) returns_then [where m = "ensure_first_seen _ _"]
      returns_andthen [OF returns_dn] returns_andthen [OF returns_extensions] returns_basic(1))
    (use assms in \<open>auto simp: slots_wf_def\<close>)

lemma need_eq_Inr: "need e x r = (Inr y, r') \<longleftrightarrow> x = Some y \<and> r' = r"
  by (auto simp: need_def split: option.split)

lemma returns_cert_of_slots: "slots_wf s \<Longrightarrow> returns cert_wf (cert_of_slots s)"
  by (auto simp: returns_def cert_of_slots_def andthen_eq_Inr need_eq_Inr slots_wf_def cert_wf_def split: if_splits)

lemma parse_as_returns:
  assumes "returns P p" "parse_as conv bad p bs = Inr x"
  shows "P x"
proof -
  obtain r where "andthen (expect_struct_as conv bad) (\<lambda>_. p) (reader_new bs) = (Inr x, r)"
    using assms(2) unfolding parse_as_def by (metis prod.collapse)
  with assms(1) show ?thesis by (auto simp: andthen_eq_Inr returns_def)
qed

theorem from_tlv_wf:
  assumes "from_tlv bs = Inr c"
  shows "cert_wf c"
proof -
  have "returns slots_wf (scan_as (CertCodec UnclosedContainer) CertCodec cert_step cert_slots_init)"
  proof (rule returns_scan [where I = slots_wf])
    fix e s
    assume "slots_wf s"
    then show "returns (flow_ok slots_wf slots_wf) (cert_step e s)"
      unfolding cert_step_def
      by (cases e) (auto intro!: returns_then [where m = "lift_result _"] returns_basic
          returns_andthen [OF returns_cert_scalar] returns_andthen [OF returns_cert_container])
  qed (simp add: slots_wf_def cert_slots_init_def)
  then have "returns cert_wf (andthen (scan_as (CertCodec UnclosedContainer) CertCodec cert_step cert_slots_init) cert_of_slots)"
    by (rule returns_andthen) (rule returns_cert_of_slots)
  with assms show ?thesis unfolding from_tlv_def by (blast intro: parse_as_returns)
qed

section \<open>Round trip\<close>

text \<open>
  C17. Every certificate the parser accepts can be serialised, and the bytes written are parsed to
  the same certificate: all fields of the name, validity, key, extension and signature survive.
\<close>

theorem certificate_roundtrip:
  assumes "from_tlv bs = Inr c"
  shows "\<exists>out. to_tlv c = Inr out \<and> (length out < 2 ^ 64 \<longrightarrow> from_tlv out = Inr c)"
  using to_tlv_written [OF from_tlv_wf [OF assms]] from_tlv_written [OF from_tlv_wf [OF assms], of "[]"] by simp

text \<open>
  The bytes need not be those parsed: the key usage bits beyond the nine of the profile are
  dropped, and bytes behind the certificate are ignored.
\<close>

lemma trailing_bytes_ignored:
  assumes "cert_wf c" "length (enc Anonymous (cert_tree c)) + length zs < 2 ^ 64" "zs \<noteq> []"
  shows "from_tlv (enc Anonymous (cert_tree c) @ zs) = Inr c" "to_tlv c \<noteq> Inr (enc Anonymous (cert_tree c) @ zs)"
  using from_tlv_written [OF assms(1), of zs] to_tlv_written [OF assms(1)] assms(2,3) by simp_all

definition sample_cert :: matter_certificate where
  "sample_cert = \<lparr>crt_serial = [1, 2, 3], crt_issuer = [RcacId 1], crt_not_before = 1000, crt_not_after = NO_EXPIRY,
     crt_subject = [FabricId 1, NodeId 42, CaseAuthenticatedTag 0x10001],
     crt_public_key = 4 # replicate 64 7,
     crt_extensions = \<lparr>ex_basic_constraints = Some \<lparr>bc_is_ca = False, bc_path_len = None\<rparr>, ex_key_usage = Some DIGITAL_SIGNATURE,
       ex_extended_key_usage = Some [2, 1], ex_subject_key_identifier = Some (replicate 20 1),
       ex_authority_key_identifier = Some (replicate 20 2)\<rparr>,
     crt_signature = replicate 64 9\<rparr>"

lemma sample_cert_wf: "cert_wf sample_cert"
  by (auto simp: cert_wf_def sample_cert_def attr_wf_def sound_def ext_wf_def key_usage_truncate_def
      DIGITAL_SIGNATURE_def KEY_USAGE_ALL_def)

lemma sample_cert_length: "length (enc Anonymous (cert_tree sample_cert)) < 2 ^ 64"
  by (simp add: cert_tree_def cert_members_def sample_cert_def dn_tree_def ext_tree_def bc_tree_def eku_tree_def
      member_opt_def enc_def encode_tag_def uint_body_def string_body_def DIGITAL_SIGNATURE_def NO_EXPIRY_def)

theorem certificate_roundtrip_witness:
  "\<exists>out. to_tlv sample_cert = Inr out \<and> (length out < 2 ^ 64 \<longrightarrow> from_tlv out = Inr sample_cert)"
  using from_tlv_written [OF sample_cert_wf, of "[]"] sample_cert_length by (intro certificate_roundtrip) simp

end
