(* ===== verification/Certificate_Encoding.thy ===== *)
theory Certificate_Encoding
  imports Certificate_Calendar Certificates_Properties
begin

text \<open>
  The X.509 form of a certificate as a nested DER encoding built by concatenation. The encoder,
  which writes into one buffer and splices tags and lengths in afterwards, is shown to produce it,
  and to refuse the certificates it refuses, with the same error.
\<close>

section \<open>The nested encoding\<close>

definition der :: "u8 \<Rightarrow> bytes \<Rightarrow> bytes" where
  "der t content = t # definite_length_prefix (length content) @ content"

definition serial_content :: "bytes \<Rightarrow> bytes" where
  "serial_content s = (if s \<noteq> [] \<and> s ! 0 AND 0x80 \<noteq> 0 then 0 # s else s)"

definition serial_ref :: "bytes \<Rightarrow> cert_error + bytes" where
  "serial_ref s = (if s = [] then Inl (FieldValueOutOfRange 1) else Inr (der 0x02 (serial_content s)))"

definition attr_ref :: "(oid \<Rightarrow> bytes) \<Rightarrow> dn_attribute \<Rightarrow> cert_error + bytes" where
  "attr_ref oid_der a = try_bind (dn_attribute_parts a) (\<lambda>(oid, t, v). Inr (der 0x31 (der 0x30 (oid_der oid @ der t v))))"

fun rdns_ref :: "(oid \<Rightarrow> bytes) \<Rightarrow> distinguished_name \<Rightarrow> cert_error + bytes" where
  "rdns_ref oid_der [] = Inr []"
| "rdns_ref oid_der (a # dn) = try_bind (attr_ref oid_der a) (\<lambda>x. try_bind (rdns_ref oid_der dn) (\<lambda>y. Inr (x @ y)))"

definition dn_ref :: "(oid \<Rightarrow> bytes) \<Rightarrow> distinguished_name \<Rightarrow> cert_error + bytes" where
  "dn_ref oid_der dn = try_bind (rdns_ref oid_der dn) (\<lambda>x. Inr (der 0x30 x))"

definition clock_ref :: "nat \<Rightarrow> bytes" where
  "clock_ref unix = (case unix_to_ymdhms unix of (year, month, day, hour, minute, second) \<Rightarrow>
     padded 2 month @ padded 2 day @ padded 2 hour @ padded 2 minute @ padded 2 second @ [0x5A])"

definition time_ref :: "matter_time \<Rightarrow> bool \<Rightarrow> bytes" where
  "time_ref t is_not_after =
     (if t = NO_EXPIRY \<and> is_not_after then der 0x18 NO_EXPIRY_LITERAL
      else let unix = unat (to_unix_secs t); year = fst (unix_to_ymdhms unix) in
        if unix < X509_UTCTIME_CUTOFF_UNIX_SECS then der 0x17 (padded 2 (year mod 100) @ clock_ref unix)
        else der 0x18 (padded 4 year @ clock_ref unix))"

definition validity_ref :: "matter_time \<Rightarrow> matter_time \<Rightarrow> bytes" where
  "validity_ref not_before not_after = der 0x30 (time_ref not_before False @ time_ref not_after True)"

definition spki_ref :: "(oid \<Rightarrow> bytes) \<Rightarrow> bytes \<Rightarrow> bytes" where
  "spki_ref oid_der key = der 0x30 (der 0x30 (oid_der OID_EC_PUBLIC_KEY @ oid_der OID_EC_CURVE_P256) @ der 0x03 (0 # key))"

definition bc_value :: "basic_constraints \<Rightarrow> bytes" where
  "bc_value bc = der 0x30 (if bc_is_ca bc
     then [0x01, 0x01, 0xFF] @ (case bc_path_len bc of None \<Rightarrow> [] | Some n \<Rightarrow> [0x02, 0x01, n]) else [])"

definition eku_value :: "(oid \<Rightarrow> bytes) \<Rightarrow> u32 list \<Rightarrow> bytes" where
  "eku_value oid_der eku = der 0x30 (concat (map oid_der (List.map_filter kp_oid eku)))"

type_synonym ext_item = "nat \<times> bool \<times> bytes"

definition item_opt :: "'a option \<Rightarrow> nat \<Rightarrow> bool \<Rightarrow> ('a \<Rightarrow> bytes) \<Rightarrow> ext_item list" where
  "item_opt slot arc critical f = (case slot of None \<Rightarrow> [] | Some x \<Rightarrow> [(arc, critical, f x)])"

definition ext_items :: "(oid \<Rightarrow> bytes) \<Rightarrow> cert_extensions \<Rightarrow> ext_item list" where
  "ext_items oid_der x =
     item_opt (ex_basic_constraints x) 19 True bc_value @
     item_opt (ex_key_usage x) 15 True (\<lambda>ku. der 0x03 (key_usage_bits ku)) @
     item_opt (ex_extended_key_usage x) 37 True (eku_value oid_der) @
     item_opt (ex_subject_key_identifier x) 14 False (der 0x04) @
     item_opt (ex_authority_key_identifier x) 35 False (\<lambda>k. der 0x30 (0x80 # definite_length_prefix 20 @ k))"

definition ext_ref :: "(oid \<Rightarrow> bytes) \<Rightarrow> ext_item \<Rightarrow> bytes" where
  "ext_ref oid_der item = (case item of (arc, critical, value) \<Rightarrow>
     der 0x30 (oid_der (ext_oid arc) @ (if critical then [0x01, 0x01, 0xFF] else []) @ der 0x04 value))"

definition exts_ref :: "(oid \<Rightarrow> bytes) \<Rightarrow> cert_extensions \<Rightarrow> bytes" where
  "exts_ref oid_der x = der 0xA3 (der 0x30 (concat (map (ext_ref oid_der) (ext_items oid_der x))))"

definition tbs_ref :: "(oid \<Rightarrow> bytes) \<Rightarrow> matter_certificate \<Rightarrow> cert_error + bytes" where
  "tbs_ref oid_der c =
     try_bind (serial_ref (crt_serial c)) (\<lambda>serial.
     try_bind (dn_ref oid_der (crt_issuer c)) (\<lambda>issuer.
     try_bind (dn_ref oid_der (crt_subject c)) (\<lambda>subject.
       Inr (der 0x30 ([0xA0, 0x03, 0x02, 0x01, 0x02] @ serial @ der 0x30 (oid_der OID_SIGNATURE) @ issuer @
         validity_ref (crt_not_before c) (crt_not_after c) @ subject @ spki_ref oid_der (crt_public_key c) @
         exts_ref oid_der (crt_extensions c))))))"

section \<open>Writing in place\<close>

definition agrees :: "cert_writer \<Rightarrow> cert_error + bytes \<Rightarrow> bool" where
  "agrees m res \<longleftrightarrow> (\<forall>out. case res of Inr bs \<Rightarrow> m out = (Inr (), out @ bs) | Inl e \<Rightarrow> fst (m out) = Inl e)"

lemma agrees_Inr: "agrees m (Inr bs) \<longleftrightarrow> outputs m bs"
  by (simp add: agrees_def outputs_def)

lemma agrees_andthen:
  assumes "agrees m res" "agrees m' res'"
  shows "agrees (andthen m (\<lambda>_. m')) (try_bind res (\<lambda>x. try_bind res' (\<lambda>y. Inr (x @ y))))"
  unfolding agrees_def
proof
  fix out
  show "case try_bind res (\<lambda>x. try_bind res' (\<lambda>y. Inr (x @ y))) of
      Inr bs \<Rightarrow> andthen m (\<lambda>_. m') out = (Inr (), out @ bs) | Inl e \<Rightarrow> fst (andthen m (\<lambda>_. m') out) = Inl e"
  proof (cases res)
    case (Inl e)
    with assms(1) show ?thesis by (simp add: agrees_def fst_andthen_Inl)
  next
    case (Inr x)
    with assms(1) have "m out = (Inr (), out @ x)" by (simp add: agrees_def)
    moreover have "case res' of Inr bs \<Rightarrow> m' (out @ x) = (Inr (), (out @ x) @ bs) | Inl e \<Rightarrow> fst (m' (out @ x)) = Inl e"
      using assms(2) unfolding agrees_def by blast
    ultimately show ?thesis using Inr by (cases res') (simp_all add: andthen_Inr)
  qed
qed

lemma agrees_wrap: "agrees build res \<Longrightarrow> agrees (wrap_tagged_into t build) (try_bind res (\<lambda>x. Inr (der t x)))"
  by (cases res) (simp_all add: agrees_def wrap_tagged_into_def der_def Let_def split_beta)

lemma emits_append [emit_rules]: "outputs (append_bytes bs) bs"
  by (simp add: outputs_def append_bytes_def)

lemma emits_wrap [emit_rules]: "outputs build bs \<Longrightarrow> outputs (wrap_tagged_into t build) (der t bs)"
  using agrees_wrap [of build "Inr bs" t] by (simp add: agrees_Inr)

lemma emits_length [emit_rules]: "outputs (encode_definite_length n) (definite_length_prefix n)"
  by (simp add: outputs_def encode_definite_length_def definite_length_prefix_def append_bytes_def andthen_def)

lemma emits_primitive [emit_rules]: "outputs (wrap_primitive_into t v) (der t v)"
  using emits_andthen [OF emits_append [of "[t]"] emits_andthen [OF emits_length [of "length v"] emits_append [of v]]]
  by (simp add: wrap_primitive_into_def der_def)

lemma standalone_emits: "outputs m bs \<Longrightarrow> standalone m = bs"
  by (simp add: standalone_def outputs_def)

lemma outputs_oid: "outputs (encode_oid_into oid_der oid) (oid_der oid)"
  by (simp add: encode_oid_into_def emits_append)

lemma outputs_ok: "outputs (ok ()) []" "outputs (Pair (Inr ())) []"
  by (simp_all add: outputs_def)

lemma outputs_if: "(b \<Longrightarrow> outputs m x) \<Longrightarrow> (\<not> b \<Longrightarrow> outputs m' y) \<Longrightarrow> outputs (if b then m else m') (if b then x else y)"
  by simp

lemmas der_rules = emits_andthen emits_append emits_wrap emits_length emits_primitive outputs_oid outputs_ok outputs_if

lemma outputs_content: "outputs m c \<Longrightarrow> c = c' \<Longrightarrow> outputs m c'"
  by simp

lemma outputs_serial:
  assumes "s \<noteq> []"
  shows "outputs (encode_serial_number_into s) (der 0x02 (serial_content s))"
proof -
  have "outputs (encode_serial_number_into s) ([0x02] @ definite_length_prefix (length s + (if s ! 0 AND 0x80 \<noteq> 0 then 1 else 0)) @
      (if s ! 0 AND 0x80 \<noteq> 0 then [0] else []) @ s)"
    unfolding encode_serial_number_into_def Let_def if_not_P [OF assms] by (intro der_rules)
  then show ?thesis using assms by (simp add: der_def serial_content_def split: if_splits)
qed

lemma agrees_serial: "agrees (encode_serial_number_into s) (serial_ref s)"
  using outputs_serial [of s]
  by (auto simp: serial_ref_def agrees_Inr encode_serial_number_into_def) (simp add: agrees_def err_def)

lemma agrees_rdn: "agrees (wrap_set_into (encode_dn_attribute_into oid_der a)) (attr_ref oid_der a)"
proof (cases "dn_attribute_parts a")
  case (Inl e)
  then show ?thesis
    by (simp add: agrees_def attr_ref_def wrap_set_into_def encode_dn_attribute_into_def wrap_tagged_into_def
      lift_result_def andthen_def err_def Let_def)
next
  case (Inr p)
  obtain oid t v where p: "p = (oid, t, v)" by (cases p)
  have e: "encode_dn_attribute_into oid_der a =
      wrap_sequence_into (andthen (encode_oid_into oid_der oid) (\<lambda>_. wrap_primitive_into t v))"
    using Inr p by (simp add: encode_dn_attribute_into_def lift_result_def andthen_def fun_eq_iff ok_def)
  have "outputs (wrap_set_into (encode_dn_attribute_into oid_der a)) (der 0x31 (der 0x30 (oid_der oid @ der t v)))"
    unfolding e wrap_set_into_def wrap_sequence_into_def by (intro der_rules)
  with Inr p show ?thesis by (simp add: attr_ref_def agrees_Inr)
qed

lemma agrees_rdns: "agrees (encode_rdns_into oid_der dn) (rdns_ref oid_der dn)"
proof (induction dn)
  case Nil
  show ?case by (simp add: agrees_Inr outputs_ok)
next
  case (Cons a dn)
  show ?case using agrees_andthen [OF agrees_rdn Cons.IH] by simp
qed

lemma agrees_dn: "agrees (encode_dn_into oid_der dn) (dn_ref oid_der dn)"
  unfolding encode_dn_into_def wrap_sequence_into_def dn_ref_def by (rule agrees_wrap [OF agrees_rdns])

lemma outputs_kp_oids: "outputs (encode_kp_oids_into oid_der eku) (concat (map oid_der (List.map_filter kp_oid eku)))"
proof (induction eku)
  case (Cons v eku)
  show ?case
    using Cons.IH emits_andthen [OF outputs_oid Cons.IH]
    by (cases "kp_oid v") (simp_all add: map_filter_simps)
qed (simp add: map_filter_simps outputs_ok)

lemma outputs_extension:
  "value = standalone m \<Longrightarrow> outputs m bs \<Longrightarrow>
     outputs (encode_extension_into oid_der (ext_oid arc) critical value) (ext_ref oid_der (arc, critical, bs))"
  unfolding encode_extension_into_def wrap_sequence_into_def ext_ref_def prod.case
  by (simp only: standalone_emits) (intro der_rules)

lemma outputs_item:
  "(\<And>x. outputs (f x) (ext_ref oid_der (arc, critical, g x))) \<Longrightarrow>
     outputs (when_some slot f) (concat (map (ext_ref oid_der) (item_opt slot arc critical g)))"
  by (simp add: when_some_def item_opt_def outputs_ok split: option.split)

lemma outputs_extension_values:
  "outputs (encode_basic_constraints_into oid_der bc) (ext_ref oid_der (19, True, bc_value bc))"
  "outputs (encode_key_usage_into oid_der ku) (ext_ref oid_der (15, True, der 0x03 (key_usage_bits ku)))"
  "outputs (encode_extended_key_usage_into oid_der eku critical) (ext_ref oid_der (37, critical, eku_value oid_der eku))"
  "outputs (encode_subject_key_identifier_into oid_der k) (ext_ref oid_der (14, False, der 0x04 k))"
  "outputs (encode_authority_key_identifier_into oid_der k) (ext_ref oid_der (35, False, der 0x30 (0x80 # definite_length_prefix 20 @ k)))"
proof -
  show "outputs (encode_basic_constraints_into oid_der bc) (ext_ref oid_der (19, True, bc_value bc))"
    unfolding encode_basic_constraints_into_def bc_value_def wrap_sequence_into_def
    by (intro outputs_extension [OF refl] emits_wrap outputs_if emits_andthen emits_append outputs_ok)
      (simp add: outputs_ok emits_append split: option.split)
  show "outputs (encode_key_usage_into oid_der ku) (ext_ref oid_der (15, True, der 0x03 (key_usage_bits ku)))"
    unfolding encode_key_usage_into_def
    by (rule outputs_extension [OF refl]) (rule emits_primitive [unfolded wrap_primitive_into_def])
  show "outputs (encode_extended_key_usage_into oid_der eku critical) (ext_ref oid_der (37, critical, eku_value oid_der eku))"
    unfolding encode_extended_key_usage_into_def eku_value_def wrap_sequence_into_def
    by (rule outputs_extension [OF refl]) (intro emits_wrap outputs_kp_oids)
  show "outputs (encode_subject_key_identifier_into oid_der k) (ext_ref oid_der (14, False, der 0x04 k))"
    unfolding encode_subject_key_identifier_into_def by (rule outputs_extension [OF refl]) (rule emits_primitive)
  have "outputs (andthen (append_bytes [0x80]) (\<lambda>_. andthen (encode_definite_length 20) (\<lambda>_. append_bytes k)))
      ([0x80] @ definite_length_prefix 20 @ k)"
    by (intro der_rules)
  then show "outputs (encode_authority_key_identifier_into oid_der k) (ext_ref oid_der (35, False, der 0x30 (0x80 # definite_length_prefix 20 @ k)))"
    unfolding encode_authority_key_identifier_into_def wrap_sequence_into_def
    by (intro outputs_extension [OF refl] emits_wrap) simp
qed

lemma outputs_extensions: "outputs (encode_extensions_block_into oid_der x) (exts_ref oid_der x)"
  unfolding encode_extensions_block_into_def exts_ref_def ext_items_def wrap_sequence_into_def map_append concat_append
  by (intro emits_wrap emits_andthen outputs_item outputs_extension_values)

lemma outputs_spki: "outputs (encode_subject_public_key_info_into oid_der key) (spki_ref oid_der key)"
proof -
  have e: "der 0x03 (0 # key) = [0x03] @ definite_length_prefix (length key + 1) @ [0] @ key" by (simp add: der_def)
  show ?thesis
    unfolding encode_subject_public_key_info_into_def spki_ref_def wrap_sequence_into_def e by (intro der_rules)
qed

subsection \<open>Times\<close>

lemma padded_one: "n < 10 \<Longrightarrow> padded 1 n = [0x30 + word_of_nat n]"
  by (simp add: padded_def decimal_digits.simps)

lemma padded_Suc:
  assumes "w > 0"
  shows "padded (Suc w) n = padded w (n div 10) @ [0x30 + word_of_nat (n mod 10)]"
proof (cases "n < 10")
  case True
  with assms show ?thesis
    by (simp add: padded_def decimal_digits.simps flip: replicate_append_same)
      (metis One_nat_def Suc_pred replicate_Suc replicate_append_same)
next
  case False
  then show ?thesis by (simp add: padded_def decimal_digits.simps [of n])
qed

lemma padded_length: "n < 10 ^ Suc w \<Longrightarrow> length (padded (Suc w) n) = Suc w"
proof (induction w arbitrary: n)
  case 0
  then show ?case using padded_one [of n] by simp
next
  case (Suc w)
  then show ?case by (simp add: padded_Suc less_mult_imp_div_less)
qed

lemma digit_inj: "i < 10 \<Longrightarrow> j < 10 \<Longrightarrow> (0x30 + word_of_nat i :: u8) = 0x30 + word_of_nat j \<Longrightarrow> i = j"
  by (simp add: word_of_nat_eq_iff take_bit_nat_eq_self)

lemma padded_inj: "n < 10 ^ Suc w \<Longrightarrow> m < 10 ^ Suc w \<Longrightarrow> padded (Suc w) n = padded (Suc w) m \<Longrightarrow> n = m"
proof (induction w arbitrary: n m)
  case 0
  then show ?case using padded_one [of n] padded_one [of m] digit_inj [of n m] by simp
next
  case (Suc w)
  then have "n div 10 = m div 10" "n mod 10 = m mod 10"
    using digit_inj [of "n mod 10" "m mod 10"] by (simp_all add: padded_Suc less_mult_imp_div_less)
  then show ?case by (metis div_mult_mod_eq)
qed

lemma padded_two:
  assumes "n < 100"
  shows "length (padded 2 n) = 2" "m < 100 \<Longrightarrow> padded 2 n = padded 2 m \<Longrightarrow> n = m"
  using assms padded_length [of n 1] padded_inj [of n 1 m] by (simp_all add: numeral_2_eq_2)

lemma padded_four:
  assumes "n < 10000"
  shows "length (padded 4 n) = 4" "m < 10000 \<Longrightarrow> padded 4 n = padded 4 m \<Longrightarrow> n = m"
proof -
  have four: "Suc 3 = 4" "(10 :: nat) ^ 4 = 10000" by simp_all
  show "length (padded 4 n) = 4" "m < 10000 \<Longrightarrow> padded 4 n = padded 4 m \<Longrightarrow> n = m"
    using assms padded_length [of n 3] padded_inj [of n 3 m] unfolding four by simp_all
qed

lemma year_start_mono: "y \<le> y' \<Longrightarrow> year_start y \<le> year_start y'"
  unfolding year_start_def by (rule sum_mono2) auto

lemma year_start_ge: "1970 \<le> y \<Longrightarrow> 365 * (y - 1970) \<le> year_start y"
proof (induction y rule: nat_induct_at_least)
  case (Suc y)
  then have "year_start (Suc y) = year_start y + year_days y" by (simp add: year_start_def)
  moreover have "365 \<le> year_days y" by (simp add: year_days_def)
  moreover have "Suc y - 1970 = Suc (y - 1970)" using Suc by simp
  ultimately show ?case using Suc.IH by simp
qed simp

lemma year_starts: "year_start 2000 = 10957" "year_start 2050 = 29220"
  using year_start_march [of 1999] year_start_march [of 2049] by (simp_all add: march_start_def)

lemma day_number_bounds:
  assumes "valid_date y m d"
  shows "year_start y \<le> day_number y m d" "day_number y m d < year_start (Suc y)"
proof -
  show "year_start y \<le> day_number y m d" by (simp add: day_number_def)
  have m: "1 \<le> m" "m \<le> 12" "1 \<le> d" "d \<le> month_days y m" "1970 \<le> y" using assms by (simp_all add: valid_date_def)
  have "(\<Sum>k = 1..<m. month_days y k) + month_days y m \<le> year_days y"
  proof -
    have "m \<in> {1, 2, 3, 4, 5, 6, 7, 8, 9, 10, 11, 12}" using m(1,2) unfolding insert_iff empty_iff by presburger
    then show ?thesis
      using month_sums [OF m(1,2), of y]
      by (elim insertE) (auto simp: month_days_def year_days_def split: if_splits)
  qed
  with m show "day_number y m d < year_start (Suc y)" by (simp add: day_number_def year_start_def)
qed

text \<open>The parts of a time: a date from 2000 on, and a time of the day, which determine the time.\<close>

lemma ymdhms_parts:
  assumes "unix_to_ymdhms u = (y, m, d, h, mi, s)"
  shows "valid_date y m d" "h < 24" "mi < 60" "s < 60" "u = 86400 * day_number y m d + 3600 * h + 60 * mi + s"
proof -
  have c: "civil_from_days (u div 86400) = (y, m, d)"
    and t: "h = u mod 86400 div 3600" "mi = u mod 86400 div 60 mod 60" "s = u mod 86400 mod 60"
    using assms by (auto simp: unix_to_ymdhms_def Let_def split: prod.splits)
  show "valid_date y m d" using civil_date_exact(1) [OF c] .
  define r where "r = u mod 86400"
  have r: "r < 86400" unfolding r_def by simp
  show "h < 24" "mi < 60" "s < 60" using r unfolding t r_def [symmetric] by simp_all
  have "r = 3600 * (r div 3600) + 60 * (r div 60 mod 60) + r mod 60"
  proof -
    have "r div 60 div 60 = r div 3600" by (simp flip: div_mult2_eq)
    moreover have "60 * (r div 60) + r mod 60 = r" "60 * (r div 60 div 60) + r div 60 mod 60 = r div 60"
      by (rule mult_div_mod_eq)+
    ultimately show ?thesis by linarith
  qed
  moreover have "u = 86400 * (u div 86400) + r" unfolding r_def by simp
  ultimately show "u = 86400 * day_number y m d + 3600 * h + 60 * mi + s"
    unfolding civil_date_exact(2) [OF c] t r_def [symmetric] by simp
qed

lemma ymdhms_year:
  assumes "unix_to_ymdhms u = (y, m, d, h, mi, s)" "946684800 \<le> u" "u < 946684800 + 2 ^ 32"
  shows "2000 \<le> y" "y < 9999" "u < X509_UTCTIME_CUTOFF_UNIX_SECS \<Longrightarrow> y < 2050"
proof -
  note p = ymdhms_parts [OF assms(1)]
  note b = day_number_bounds [OF p(1)]
  have n: "10957 \<le> day_number y m d" using p(2-5) assms(2) by simp
  have y: "1970 \<le> y" using p(1) by (simp add: valid_date_def)
  show "2000 \<le> y"
  proof (rule ccontr)
    assume "\<not> 2000 \<le> y"
    then have "year_start (Suc y) \<le> year_start 2000" by (intro year_start_mono) simp
    with b(2) n show False by (simp add: year_starts)
  qed
  have "day_number y m d < 60668" using p(5) assms(3) by simp
  then have "365 * (y - 1970) < 60668" using b(1) year_start_ge [OF y] by simp
  then show "y < 9999" by simp
  assume "u < X509_UTCTIME_CUTOFF_UNIX_SECS"
  then have "day_number y m d < 29220" using p(5) by (simp add: X509_UTCTIME_CUTOFF_UNIX_SECS_def)
  with b(1) have "year_start y < year_start 2050" by (simp add: year_starts)
  then show "y < 2050" using year_start_mono [of 2050 y] by (cases "y < 2050") simp_all
qed

lemma unix_bounds: "946684800 \<le> unat (to_unix_secs t)" "unat (to_unix_secs t) < 946684800 + 2 ^ 32"
  "unat (to_unix_secs t) = unat t + 946684800"
proof -
  have t: "unat t < 2 ^ 32" using unsigned_less [of t] by simp
  have e: "to_unix_secs t = word_of_nat (unat t + 946684800)"
    by (simp add: to_unix_secs_def MATTER_EPOCH_UNIX_OFFSET_def)
  show u: "unat (to_unix_secs t) = unat t + 946684800"
    unfolding e unsigned_of_nat of_nat_id by (rule take_bit_nat_eq_self) (use t in simp)
  show "946684800 \<le> unat (to_unix_secs t)" "unat (to_unix_secs t) < 946684800 + 2 ^ 32"
    unfolding u using t by simp_all
qed

lemma month_days_le: "month_days y m \<le> 31"
  by (simp add: month_days_def)

lemma clock_determines:
  assumes "unix_to_ymdhms u = (y, m, d, h, mi, s)" "unix_to_ymdhms u' = (y', m', d', h', mi', s')" "clock_ref u = clock_ref u'"
  shows "m = m' \<and> d = d' \<and> h = h' \<and> mi = mi' \<and> s = s'"
proof -
  note p = ymdhms_parts [OF assms(1)] and p' = ymdhms_parts [OF assms(2)]
  have small: "m < 100" "d < 100" "h < 100" "mi < 100" "s < 100" "m' < 100" "d' < 100" "h' < 100" "mi' < 100" "s' < 100"
    using p(1-4) p'(1-4) month_days_le [of y m] month_days_le [of y' m'] by (simp_all add: valid_date_def)
  with assms(3) show ?thesis
    by (simp add: clock_ref_def assms(1,2) padded_two)
qed

lemma clock_length: "length (clock_ref u) = 11"
proof -
  obtain y m d h mi s where u: "unix_to_ymdhms u = (y, m, d, h, mi, s)" by (cases "unix_to_ymdhms u")
  note p = ymdhms_parts [OF u]
  have "m < 100" "d < 100" "h < 100" "mi < 100" "s < 100"
    using p(1-4) month_days_le [of y m] by (simp_all add: valid_date_def)
  then show ?thesis by (simp add: clock_ref_def u padded_two)
qed

lemma der_short: "length c < 0x80 \<Longrightarrow> der t c = t # word_of_nat (length c) # c"
  by (simp add: der_def definite_length_prefix_def)

lemma NO_EXPIRY_LITERAL_parts: "NO_EXPIRY_LITERAL = padded 4 9999 @ drop 4 NO_EXPIRY_LITERAL"
  by (simp add: NO_EXPIRY_LITERAL_def padded_def decimal_digits.simps)

lemma year_of: "fst (unix_to_ymdhms (unat (to_unix_secs t))) < 9999"
    "2000 \<le> fst (unix_to_ymdhms (unat (to_unix_secs t)))"
    "unat (to_unix_secs t) < X509_UTCTIME_CUTOFF_UNIX_SECS \<Longrightarrow> fst (unix_to_ymdhms (unat (to_unix_secs t))) < 2050"
  using ymdhms_year [OF _ unix_bounds(1,2) [of t]]
  by (cases "unix_to_ymdhms (unat (to_unix_secs t))"; simp)+

lemma time_contents_length:
  "length (padded 2 (fst (unix_to_ymdhms u) mod 100) @ clock_ref u) = 13"
  "length (padded 4 (fst (unix_to_ymdhms (unat (to_unix_secs t)))) @ clock_ref u) = 15"
  "length NO_EXPIRY_LITERAL = 15"
  by (simp_all add: padded_two padded_four less_trans [OF year_of(1)] clock_length) (simp add: NO_EXPIRY_LITERAL_def)

lemma outputs_time: "outputs (encode_one_time_into t is_not_after) (time_ref t is_not_after)"
proof -
  obtain y m d h mi s where u: "unix_to_ymdhms (unat (to_unix_secs t)) = (y, m, d, h, mi, s)"
    by (cases "unix_to_ymdhms (unat (to_unix_secs t))")
  have c: "clock_ref (unat (to_unix_secs t)) = padded 2 m @ padded 2 d @ padded 2 h @ padded 2 mi @ padded 2 s @ [0x5A]"
    by (simp add: clock_ref_def u)
  show ?thesis
    unfolding encode_one_time_into_def time_ref_def Let_def u prod.case c [symmetric] encode_utc_time_literal_into_def
      encode_generalized_time_literal_into_def fst_conv
    using time_contents_length(1) [of "unat (to_unix_secs t)"] time_contents_length(2) [of t "unat (to_unix_secs t)"]
      time_contents_length(3)
    unfolding u fst_conv by (simp add: der_short emits_append)
qed

lemma outputs_validity: "outputs (encode_validity_into nb na) (validity_ref nb na)"
  unfolding encode_validity_into_def validity_ref_def wrap_sequence_into_def
  by (intro emits_wrap emits_andthen outputs_time)

subsection \<open>The whole certificate\<close>

lemma agrees_outputs: "outputs m bs \<Longrightarrow> agrees m' res \<Longrightarrow> agrees (andthen m (\<lambda>_. m')) (try_bind res (\<lambda>y. Inr (bs @ y)))"
  using agrees_andthen [of m "Inr bs" m' res] by (simp add: agrees_Inr)

lemma agrees_tbs: "agrees (encode_tbs_into oid_der c) (tbs_ref oid_der c)"
proof -
  let ?rest = "validity_ref (crt_not_before c) (crt_not_after c)"
  have tail: "agrees (andthen (encode_dn_into oid_der (crt_subject c)) (\<lambda>_.
      andthen (encode_subject_public_key_info_into oid_der (crt_public_key c)) (\<lambda>_.
        encode_extensions_block_into oid_der (crt_extensions c))))
    (try_bind (dn_ref oid_der (crt_subject c)) (\<lambda>subject. Inr (subject @ spki_ref oid_der (crt_public_key c) @ exts_ref oid_der (crt_extensions c))))"
    using agrees_andthen [OF agrees_dn iffD2 [OF agrees_Inr emits_andthen [OF outputs_spki outputs_extensions]]] by simp
  note inner = agrees_outputs [OF emits_append [of "[0xA0, 0x03, 0x02, 0x01, 0x02]"] agrees_andthen [OF agrees_serial
    agrees_outputs [OF emits_wrap [OF outputs_oid [of oid_der OID_SIGNATURE], of "0x30"]
      agrees_andthen [OF agrees_dn agrees_outputs [OF outputs_validity tail]]]]]
  show ?thesis
    unfolding encode_tbs_into_def wrap_sequence_into_def encode_algorithm_identifier_into_def
    using agrees_wrap [OF inner, of "0x30"]
    by (rule back_subst [where P = "agrees _"])
      (auto simp: tbs_ref_def try_bind_def split: sum.splits)
qed

lemma tbs_written: "to_x509_tbs_der oid_der c = tbs_ref oid_der c"
  using agrees_tbs [of oid_der c, unfolded agrees_def, THEN spec, of "[]"]
  by (cases "tbs_ref oid_der c"; cases "encode_tbs_into oid_der c []") (simp_all add: to_x509_tbs_der_def)

text \<open>
  C18. Writing the certificate in place, with tags and lengths spliced in before what is already
  written, gives the bytes of the nested encoding built by concatenation; it fails exactly where
  that encoding does not exist, with the error of the first field that has none.
\<close>

theorem tbs_in_place: "to_x509_tbs_der oid_der c = tbs_ref oid_der c"
  by (rule tbs_written)

end
