(* ===== verification/Certificate_Binding.thy ===== *)
theory Certificate_Binding
  imports Certificate_Encoding
begin

text \<open>
  What a signature on a certificate covers: the bytes that are signed determine the certificate up
  to the parts its X.509 form does not show.
\<close>

section \<open>Reading a nested encoding\<close>

lemma be_used_pad: "rev (to_le 8 (word_of_nat n :: u64)) = replicate (8 - length (be_used n)) 0 @ be_used n"
proof -
  let ?l = "rev (to_le 8 (word_of_nat n :: u64))"
  have "takeWhile (\<lambda>b. b = 0) ?l = replicate (length (takeWhile (\<lambda>b. b = 0) ?l)) 0"
    by (rule replicate_length_same [symmetric]) (meson set_takeWhileD)
  moreover have "length (takeWhile (\<lambda>b. b = 0) ?l) + length (be_used n) = 8"
    unfolding be_used_def length_append [symmetric] takeWhile_dropWhile_id by simp
  then have "length (takeWhile (\<lambda>b. b = 0) ?l) = 8 - length (be_used n)" by simp
  ultimately show ?thesis unfolding be_used_def using takeWhile_dropWhile_id [of "\<lambda>b. b = 0" ?l] by metis
qed

lemma be_used_le: "length (be_used n) \<le> 8"
  using arg_cong [OF be_used_pad [of n], of length] by simp

lemma be_used_inj:
  assumes "n < 2 ^ 64" "m < 2 ^ 64" "be_used n = be_used m"
  shows "n = m"
proof -
  have "rev (to_le 8 (word_of_nat n :: u64)) = rev (to_le 8 (word_of_nat m :: u64))"
    unfolding be_used_pad assms(3) ..
  then have "to_le 8 (word_of_nat n :: u64) = to_le 8 (word_of_nat m :: u64)" by simp
  then have "(word_of_nat n :: u64) = word_of_nat m" by (metis of_le_to_le_u64)
  with assms(1,2) show ?thesis by (simp add: word_of_nat_eq_iff take_bit_nat_eq_self)
qed

lemma long_form_byte:
  assumes "i \<le> 8"
  shows "(0x80 :: u8) OR word_of_nat i = word_of_nat (0x80 + i)"
proof -
  have "i \<in> {0, 1, 2, 3, 4, 5, 6, 7, 8}" using assms unfolding insert_iff empty_iff by presburger
  then show ?thesis by (elim insertE) simp_all
qed

lemma length_prefix_cancel:
  assumes "definite_length_prefix n @ x = definite_length_prefix m @ y" "n < 2 ^ 64" "m < 2 ^ 64"
  shows "n = m \<and> x = y"
proof (cases "n < 0x80 \<and> m < 0x80")
  case True
  with assms(1) show ?thesis by (simp add: definite_length_prefix_def word_of_nat_eq_iff take_bit_nat_eq_self)
next
  case False
  have b: "n < 0x80 \<or> m < 0x80 \<Longrightarrow> hd (definite_length_prefix n) \<noteq> hd (definite_length_prefix m)"
    using False be_used_le [of n] be_used_le [of m]
    by (auto simp: definite_length_prefix_def long_form_byte word_of_nat_eq_iff take_bit_nat_eq_self simp del: of_nat_add)
  have "hd (definite_length_prefix n) = hd (definite_length_prefix m)"
    using arg_cong [OF assms(1), of hd] by (simp add: definite_length_prefix_def split: if_splits)
  with b have l: "\<not> n < 0x80" "\<not> m < 0x80" by auto
  with assms(1) be_used_le [of n] be_used_le [of m] have "length (be_used n) = length (be_used m)" "be_used n @ x = be_used m @ y"
    by (auto simp: definite_length_prefix_def long_form_byte word_of_nat_eq_iff take_bit_nat_eq_self simp del: of_nat_add)
  then have "be_used n = be_used m" "x = y" by simp_all
  with be_used_inj assms(2,3) show ?thesis by blast
qed

lemma der_cancel:
  assumes "der t c @ x = der t' c' @ y" "length (der t c @ x) < 2 ^ 64"
  shows "t = t' \<and> c = c' \<and> x = y"
proof -
  have l: "length c < 2 ^ 64" "length c' < 2 ^ 64"
    using assms(2) arg_cong [OF assms(1), of length] by (simp_all add: der_def)
  have "definite_length_prefix (length c) @ (c @ x) = definite_length_prefix (length c') @ (c' @ y)"
    using assms(1) by (simp add: der_def)
  from length_prefix_cancel [OF this l] assms(1) show ?thesis by (auto simp: der_def)
qed

lemma length_der: "length c < length (der t c)"
  by (simp add: der_def)

lemma der_inj: "der t c = der t' c' \<Longrightarrow> length (der t c) < 2 ^ 64 \<Longrightarrow> t = t' \<and> c = c'"
  using der_cancel [of t c "[]" t' c' "[]"] by simp

section \<open>Object identifiers\<close>

text \<open>The object identifiers of the encoder, and what is asked of their encoding: a primitive element, one for each.\<close>

definition name_oids :: "oid list" where
  "name_oids = [matter_oid 1 1, matter_oid 1 5, matter_oid 1 4, matter_oid 1 3, matter_oid 1 6, matter_oid 2 1, matter_oid 2 2,
     OID_DOMAIN_COMPONENT] @ map x520_oid [3, 4, 5, 6, 7, 8, 10, 11, 12, 41, 42, 43, 44, 46, 65]"

definition purpose_oids :: "oid list" where
  "purpose_oids = map (\<lambda>a. [1, 3, 6, 1, 5, 5, 7, 3, a]) [1, 2, 3, 4, 8, 9]"

definition known_oids :: "oid list" where
  "known_oids = name_oids @ purpose_oids @ map ext_oid [19, 15, 37, 14, 35] @ [OID_EC_PUBLIC_KEY, OID_EC_CURVE_P256, OID_SIGNATURE]"

definition oid_encoding :: "(oid \<Rightarrow> bytes) \<Rightarrow> bool" where
  "oid_encoding oid_der \<longleftrightarrow> (\<exists>f. distinct (map f known_oids) \<and> map oid_der known_oids = map (\<lambda>oid. der 0x06 (f oid)) known_oids)"

lemma oid_cancel:
  assumes "oid_encoding oid_der" "oid \<in> set known_oids" "oid' \<in> set known_oids"
    "oid_der oid @ x = oid_der oid' @ y" "length (oid_der oid @ x) < 2 ^ 64"
  shows "oid = oid' \<and> x = y"
proof -
  obtain f where f: "inj_on f (set known_oids)" "\<forall>oid \<in> set known_oids. oid_der oid = der 0x06 (f oid)"
    using assms(1) by (auto simp: oid_encoding_def distinct_map)
  then have "der 0x06 (f oid) @ x = der 0x06 (f oid') @ y" "length (der 0x06 (f oid) @ x) < 2 ^ 64"
    using assms(2-5) by auto
  from der_cancel [OF this] f(1) assms(2,3) show ?thesis by (auto dest: inj_onD)
qed

section \<open>Names\<close>

lemma hex_digit_inj:
  assumes "i < 16" "j < 16" "upper_hex_digit i = upper_hex_digit j"
  shows "i = j"
proof -
  have d: "upper_hex_digit k = word_of_nat (if k < 10 then 0x30 + k else 0x37 + k)" for k
    by (simp add: upper_hex_digit_def)
  show ?thesis
    using assms unfolding d word_of_nat_eq_iff by (simp add: take_bit_nat_eq_self split: if_splits)
qed

lemma upper_hex_Suc: "upper_hex (Suc w) n = upper_hex w (n div 16) @ [upper_hex_digit (n mod 16)]"
proof -
  have "[0..<Suc w] = 0 # map Suc [0..<w]" by (simp add: map_Suc_upt upt_conv_Cons del: upt_Suc)
  then show ?thesis
    unfolding upper_hex_def by (simp add: rev_map div_mult2_eq comp_def del: upt_Suc)
qed

lemma upper_hex_inj: "n < 16 ^ w \<Longrightarrow> m < 16 ^ w \<Longrightarrow> upper_hex w n = upper_hex w m \<Longrightarrow> n = m"
proof (induction w arbitrary: n m)
  case (Suc w)
  then have "n div 16 = m div 16" "n mod 16 = m mod 16"
    using hex_digit_inj [of "n mod 16" "m mod 16"] by (simp_all add: upper_hex_Suc less_mult_imp_div_less)
  then show ?case by (metis div_mult_mod_eq)
qed simp

lemma hex_words:
  "upper_hex 16 (unat (v :: u64)) = upper_hex 16 (unat v') \<Longrightarrow> v = v'"
  "upper_hex 8 (unat (u :: u32)) = upper_hex 8 (unat u') \<Longrightarrow> u = u'"
  "upper_hex 4 (unat (s :: u16)) = upper_hex 4 (unat s') \<Longrightarrow> s = s'"
proof -
  have bound: "unat (x :: u64) < 16 ^ 16" "unat (y :: u32) < 16 ^ 8" "unat (z :: u16) < 16 ^ 4" for x y z
    by (rule order.strict_trans2 [OF unsigned_less], simp)+
  show "upper_hex 16 (unat (v :: u64)) = upper_hex 16 (unat v') \<Longrightarrow> v = v'"
    "upper_hex 8 (unat (u :: u32)) = upper_hex 8 (unat u') \<Longrightarrow> u = u'"
    "upper_hex 4 (unat (s :: u16)) = upper_hex 4 (unat s') \<Longrightarrow> s = s'"
    using upper_hex_inj [OF bound(1,1)] upper_hex_inj [OF bound(2,2)] upper_hex_inj [OF bound(3,3)] by (simp_all only: word_unat_eq_iff)
qed

lemma parts_known: "dn_attribute_parts a = Inr (oid, t, v) \<Longrightarrow> oid \<in> set name_oids"
  by (cases a) (auto simp: name_oids_def verify_printable_def verify_ia5_def split: if_splits)

lemma parts_inj: "dn_attribute_parts a = Inr (oid, t, v) \<Longrightarrow> dn_attribute_parts a' = Inr (oid, t, v) \<Longrightarrow> a = a'"
  by (cases a; cases a') (auto simp: matter_oid_def x520_oid_def OID_DOMAIN_COMPONENT_def verify_printable_def verify_ia5_def
    dest: hex_words split: if_splits)

lemma known_subsets: "set name_oids \<subseteq> set known_oids" "set purpose_oids \<subseteq> set known_oids"
  "a \<in> {19, 15, 37, 14, 35} \<Longrightarrow> ext_oid a \<in> set known_oids"
  by (auto simp: known_oids_def)

lemma attr_cancel:
  assumes law: "oid_encoding oid_der"
    and "attr_ref oid_der a = Inr p" "attr_ref oid_der a' = Inr p'" "p @ x = p' @ y" "length (p @ x) < 2 ^ 64"
  shows "a = a' \<and> x = y"
proof -
  obtain oid t v where a: "dn_attribute_parts a = Inr (oid, t, v)" "p = der 0x31 (der 0x30 (oid_der oid @ der t v))"
    using assms(2) by (auto simp: attr_ref_def try_bind_def split: sum.splits)
  obtain oid' t' v' where a': "dn_attribute_parts a' = Inr (oid', t', v')" "p' = der 0x31 (der 0x30 (oid_der oid' @ der t' v'))"
    using assms(3) by (auto simp: attr_ref_def try_bind_def split: sum.splits)
  have 1: "der 0x30 (oid_der oid @ der t v) = der 0x30 (oid_der oid' @ der t' v')" "x = y"
    using der_cancel [OF assms(4) [unfolded a(2) a'(2)]] assms(5) a(2) by simp_all
  have l: "length (der 0x30 (oid_der oid @ der t v)) < 2 ^ 64" "length (oid_der oid @ der t v) < 2 ^ 64" "length (der t v) < 2 ^ 64"
    using assms(5) unfolding a(2) by (simp_all add: der_def)
  have 2: "oid_der oid @ der t v = oid_der oid' @ der t' v'" using der_inj [OF 1(1) l(1)] by simp
  have "oid \<in> set known_oids" "oid' \<in> set known_oids" using parts_known a(1) a'(1) known_subsets(1) by blast+
  from oid_cancel [OF law this 2 l(2)] have 3: "oid = oid'" "der t v = der t' v'" by simp_all
  from der_inj [OF 3(2) l(3)] 3(1) a(1) a'(1) parts_inj [of a oid t v a'] 1(2) show ?thesis by simp
qed

lemma attr_ref_nonempty: "attr_ref oid_der a = Inr p \<Longrightarrow> p \<noteq> []"
  by (auto simp: attr_ref_def try_bind_def der_def split: sum.splits)

lemma rdns_inj:
  assumes law: "oid_encoding oid_der"
  shows "rdns_ref oid_der dn = Inr p \<Longrightarrow> rdns_ref oid_der dn' = Inr p \<Longrightarrow> length p < 2 ^ 64 \<Longrightarrow> dn = dn'"
proof (induction dn arbitrary: dn' p)
  case Nil
  then show ?case by (cases dn') (auto simp: try_bind_def dest: attr_ref_nonempty split: sum.splits)
next
  case (Cons a dn)
  then obtain x y where p: "attr_ref oid_der a = Inr x" "rdns_ref oid_der dn = Inr y" "p = x @ y"
    by (auto simp: try_bind_def split: sum.splits)
  with Cons.prems(2) obtain a' dn1 where dn': "dn' = a' # dn1" by (cases dn') (auto dest: attr_ref_nonempty)
  with Cons.prems(2) obtain x' y' where p': "attr_ref oid_der a' = Inr x'" "rdns_ref oid_der dn1 = Inr y'" "p = x' @ y'"
    by (auto simp: try_bind_def split: sum.splits)
  have "x @ y = x' @ y'" "length (x @ y) < 2 ^ 64" using p(3) p'(3) Cons.prems(3) by simp_all
  from attr_cancel [OF law p(1) p'(1) this] have "a = a'" "y = y'" by simp_all
  with Cons.IH [OF p(2), of dn1] p'(2) p(3) Cons.prems(3) dn' show ?case by simp
qed

lemma dn_cancel:
  assumes "oid_encoding oid_der" "dn_ref oid_der dn = Inr p" "dn_ref oid_der dn' = Inr p'" "p @ x = p' @ y" "length (p @ x) < 2 ^ 64"
  shows "dn = dn' \<and> x = y"
proof -
  obtain q q' where q: "rdns_ref oid_der dn = Inr q" "p = der 0x30 q" "rdns_ref oid_der dn' = Inr q'" "p' = der 0x30 q'"
    using assms(2,3) by (auto simp: dn_ref_def try_bind_def split: sum.splits)
  have "q = q'" "x = y" using der_cancel [OF assms(4,5) [unfolded q(2,4)]] by simp_all
  moreover have "length q < 2 ^ 64" using assms(5) q(2) by (simp add: der_def)
  ultimately show ?thesis using rdns_inj [OF assms(1) q(1), of dn'] q(3) by simp
qed

section \<open>Times\<close>

lemma ymdhms_inj: "unix_to_ymdhms u = unix_to_ymdhms u' \<Longrightarrow> u = u'"
  using ymdhms_parts(5) [of u] ymdhms_parts(5) [of u'] by (cases "unix_to_ymdhms u'") simp

lemma time_inj: "unix_to_ymdhms (unat (to_unix_secs t)) = unix_to_ymdhms (unat (to_unix_secs t')) \<Longrightarrow> t = t'"
  using ymdhms_inj [of "unat (to_unix_secs t)" "unat (to_unix_secs t')"] by (simp add: unix_bounds(3) word_unat_eq_iff)

lemma clock_and_year:
  assumes "clock_ref u = clock_ref u'" "fst (unix_to_ymdhms u) = fst (unix_to_ymdhms u')"
  shows "unix_to_ymdhms u = unix_to_ymdhms u'"
proof -
  obtain y m d h mi s y' m' d' h' mi' s' where e: "unix_to_ymdhms u = (y, m, d, h, mi, s)" "unix_to_ymdhms u' = (y', m', d', h', mi', s')"
    by (cases "unix_to_ymdhms u", cases "unix_to_ymdhms u'")
  from clock_determines [OF e assms(1)] assms(2) show ?thesis unfolding e by simp
qed

definition time_body :: "matter_time \<Rightarrow> bool \<Rightarrow> u8 \<times> bytes" where
  "time_body t is_not_after =
     (if t = NO_EXPIRY \<and> is_not_after then (0x18, NO_EXPIRY_LITERAL)
      else let u = unat (to_unix_secs t); year = fst (unix_to_ymdhms u) in
        if u < X509_UTCTIME_CUTOFF_UNIX_SECS then (0x17, padded 2 (year mod 100) @ clock_ref u)
        else (0x18, padded 4 year @ clock_ref u))"

lemma time_ref_body: "time_ref t b = der (fst (time_body t b)) (snd (time_body t b))"
  by (simp add: time_ref_def time_body_def Let_def)

lemma short_year: "2000 \<le> (y :: nat) \<Longrightarrow> y < 2050 \<Longrightarrow> y mod 100 = y - 2000"
  using mod_mult_self4 [of 100 20 "y - 2000"] by simp

lemma no_expiry_body: "time_body t True = time_body NO_EXPIRY True \<Longrightarrow> t = NO_EXPIRY"
proof (rule ccontr)
  let ?y = "fst (unix_to_ymdhms (unat (to_unix_secs t)))"
  assume e: "time_body t True = time_body NO_EXPIRY True" "t \<noteq> NO_EXPIRY"
  then have "padded 4 ?y @ clock_ref (unat (to_unix_secs t)) = padded 4 9999 @ drop 4 NO_EXPIRY_LITERAL"
    by (simp add: time_body_def Let_def NO_EXPIRY_LITERAL_parts [symmetric] split: if_splits)
  moreover have "?y < 10000" using year_of(1) [of t] by simp
  ultimately have "padded 4 ?y = padded 4 9999" by (simp add: padded_four(1))
  with padded_four(2) [of ?y 9999] year_of(1) [of t] show False by simp
qed

lemma dated_body_inj:
  assumes "time_body t False = time_body t' False"
  shows "t = t'"
proof -
  define u u' where "u = unat (to_unix_secs t)" and "u' = unat (to_unix_secs t')"
  define y y' where "y = fst (unix_to_ymdhms u)" and "y' = fst (unix_to_ymdhms u')"
  note years = year_of [of t, folded u_def y_def] year_of [of t', folded u'_def y'_def]
  have body: "time_body t False = (if u < X509_UTCTIME_CUTOFF_UNIX_SECS then (0x17, padded 2 (y mod 100) @ clock_ref u)
      else (0x18, padded 4 y @ clock_ref u))"
    "time_body t' False = (if u' < X509_UTCTIME_CUTOFF_UNIX_SECS then (0x17, padded 2 (y' mod 100) @ clock_ref u')
      else (0x18, padded 4 y' @ clock_ref u'))"
    by (simp_all add: time_body_def u_def u'_def y_def y'_def Let_def)
  have "clock_ref u = clock_ref u' \<and> y = y'"
  proof (cases "u < X509_UTCTIME_CUTOFF_UNIX_SECS")
    case True
    with assms body have u': "u' < X509_UTCTIME_CUTOFF_UNIX_SECS" by (simp split: if_splits)
    have "padded 2 (y mod 100) = padded 2 (y' mod 100) \<and> clock_ref u = clock_ref u'"
      using assms True u' unfolding body by (simp add: padded_two(1))
    moreover have "y mod 100 = y' mod 100 \<Longrightarrow> y = y'"
      using years(3) [OF True] years(6) [OF u'] years(2,5) by (simp add: short_year)
    ultimately show ?thesis using padded_two(2) [of "y mod 100" "y' mod 100"] by simp
  next
    case False
    with assms body have u': "\<not> u' < X509_UTCTIME_CUTOFF_UNIX_SECS" by (simp split: if_splits)
    have "y < 10000" "y' < 10000" using years(1,4) by simp_all
    moreover from this have "padded 4 y = padded 4 y' \<and> clock_ref u = clock_ref u'"
      using assms False u' unfolding body by (simp add: padded_four(1))
    ultimately show ?thesis using padded_four(2) [of y y'] by simp
  qed
  then show ?thesis unfolding u_def u'_def y_def y'_def by (intro time_inj clock_and_year) simp_all
qed

lemma time_body_inj:
  assumes "time_body t b = time_body t' b"
  shows "t = t'"
proof (cases "b \<and> (t = NO_EXPIRY \<or> t' = NO_EXPIRY)")
  case True
  with assms no_expiry_body [of t] no_expiry_body [of t'] show ?thesis by auto
next
  case False
  then have "time_body t b = time_body t False" "time_body t' b = time_body t' False" by (auto simp: time_body_def)
  with assms dated_body_inj show ?thesis by simp
qed

lemma time_cancel:
  assumes "time_ref t b @ x = time_ref t' b @ y" "length (time_ref t b @ x) < 2 ^ 64"
  shows "t = t' \<and> x = y"
  using der_cancel [OF assms [unfolded time_ref_body]] time_body_inj [of t b t'] by (simp add: prod_eq_iff)

section \<open>Extensions\<close>

lemma bc_value_inj:
  "bc_value bc = bc_value bc' \<Longrightarrow> bc_is_ca bc = bc_is_ca bc' \<and> (bc_is_ca bc \<longrightarrow> bc_path_len bc = bc_path_len bc')"
  by (auto simp: bc_value_def der_def definite_length_prefix_def split: if_splits option.splits)

lemma reverse_bits_bit: "bit (reverse_bits b) i \<longleftrightarrow> i < 8 \<and> bit b (7 - i)"
  unfolding reverse_bits_def by (auto simp: bit_horner_sum_bit_word_iff)

lemma reverse_bits_inj: "reverse_bits b = reverse_bits c \<Longrightarrow> b = c"
proof (rule bit_word_eqI)
  fix n assume e: "reverse_bits b = reverse_bits c" and n: "n < LENGTH(8)"
  have "bit (reverse_bits b) (7 - n) = bit (reverse_bits c) (7 - n)" by (simp only: e)
  moreover have "7 - n < 8" by simp
  ultimately show "bit b n = bit c n" using n by (simp add: reverse_bits_bit)
qed

lemma key_usage_bits_inj:
  assumes "key_usage_bits ku = key_usage_bits ku'"
  shows "ku = ku'"
proof -
  have z: "reverse_bits b = 0 \<longleftrightarrow> b = 0" for b
  proof -
    have "reverse_bits 0 = 0" by (rule bit_word_eqI) (simp add: reverse_bits_bit)
    then show ?thesis using reverse_bits_inj [of b 0] by auto
  qed
  have "reverse_bits (ucast ku) = reverse_bits (ucast ku')" "reverse_bits (ucast (drop_bit 8 ku)) = reverse_bits (ucast (drop_bit 8 ku'))"
    using assms by (auto simp: key_usage_bits_def Let_def split: if_splits)
  then have e: "(ucast ku :: u8) = ucast ku'" "(ucast (drop_bit 8 ku) :: u8) = ucast (drop_bit 8 ku')"
    using reverse_bits_inj by blast+
  show ?thesis
  proof (rule bit_word_eqI)
    fix n assume n: "n < LENGTH(16)"
    show "bit ku n = bit ku' n"
    proof (cases "n < 8")
      case True
      then show ?thesis using arg_cong [OF e(1), of "\<lambda>w. bit w n"] by (simp add: bit_ucast_iff)
    next
      case False
      moreover have "n - 8 < 8" using n by simp
      ultimately show ?thesis using arg_cong [OF e(2), of "\<lambda>w. bit w (n - 8)"] by (simp add: bit_ucast_iff bit_drop_bit_eq)
    qed
  qed
qed

lemma kp_oid_purpose: "kp_oid v = Some oid \<Longrightarrow> oid \<in> set purpose_oids"
  by (auto simp: kp_oid_def purpose_oids_def split: if_splits)

lemma kp_oid_inj: "kp_oid v = Some oid \<Longrightarrow> kp_oid v' = Some oid \<Longrightarrow> v = v'"
  by (auto simp: kp_oid_def split: if_splits)

lemma oids_nonempty: "oid_encoding oid_der \<Longrightarrow> oid \<in> set known_oids \<Longrightarrow> oid_der oid \<noteq> []"
  by (auto simp: oid_encoding_def der_def)

lemma oids_inj:
  assumes "oid_encoding oid_der"
  shows "set xs \<subseteq> set known_oids \<Longrightarrow> set ys \<subseteq> set known_oids \<Longrightarrow> concat (map oid_der xs) = concat (map oid_der ys) \<Longrightarrow>
    length (concat (map oid_der xs)) < 2 ^ 64 \<Longrightarrow> xs = ys"
proof (induction xs arbitrary: ys)
  case Nil
  then show ?case using oids_nonempty [OF assms] by (cases ys) auto
next
  case (Cons x xs)
  then obtain y ys' where ys: "ys = y # ys'" using oids_nonempty [OF assms, of x] by (cases ys) auto
  have "x \<in> set known_oids" "y \<in> set known_oids" "oid_der x @ concat (map oid_der xs) = oid_der y @ concat (map oid_der ys')"
    "length (oid_der x @ concat (map oid_der xs)) < 2 ^ 64" using Cons.prems ys by auto
  from oid_cancel [OF assms this] have "x = y" "concat (map oid_der xs) = concat (map oid_der ys')" by simp_all
  with Cons.IH [of ys'] Cons.prems ys show ?case by simp
qed

text \<open>The purposes that have an object identifier; the others are left out of the X.509 form.\<close>

definition known_purposes :: "u32 list \<Rightarrow> u32 list" where
  "known_purposes = filter (\<lambda>v. kp_oid v \<noteq> None)"

lemma purposes_inj: "List.map_filter kp_oid vs = List.map_filter kp_oid vs' \<Longrightarrow> known_purposes vs = known_purposes vs'"
proof -
  assume e: "List.map_filter kp_oid vs = List.map_filter kp_oid vs'"
  have "map (the \<circ> kp_oid) (known_purposes vs) = map (the \<circ> kp_oid) (known_purposes vs')"
    using e by (simp add: List.map_filter_def known_purposes_def comp_def)
  moreover have "inj_on (the \<circ> kp_oid) (set (known_purposes vs) \<union> set (known_purposes vs'))"
    by (auto simp: inj_on_def known_purposes_def dest: kp_oid_inj)
  ultimately show ?thesis by (rule map_inj_on)
qed

lemma eku_value_inj:
  assumes "oid_encoding oid_der" "eku_value oid_der vs = eku_value oid_der vs'" "length (eku_value oid_der vs) < 2 ^ 64"
  shows "known_purposes vs = known_purposes vs'"
proof -
  have sub: "set (List.map_filter kp_oid ws) \<subseteq> set known_oids" for ws
    using kp_oid_purpose known_subsets(2) by (fastforce simp: List.map_filter_def)
  have "concat (map oid_der (List.map_filter kp_oid vs)) = concat (map oid_der (List.map_filter kp_oid vs'))"
    using der_inj [OF assms(2,3) [unfolded eku_value_def]] by simp
  moreover have "length (concat (map oid_der (List.map_filter kp_oid vs))) < 2 ^ 64"
    using assms(3) by (simp add: eku_value_def der_def)
  ultimately show ?thesis by (intro purposes_inj oids_inj [OF assms(1) sub sub])
qed

lemma ext_cancel:
  assumes law: "oid_encoding oid_der" and "fst i \<in> {19, 15, 37, 14, 35}" "fst j \<in> {19, 15, 37, 14, 35}"
    and "ext_ref oid_der i @ x = ext_ref oid_der j @ y" "length (ext_ref oid_der i @ x) < 2 ^ 64"
  shows "i = j \<and> x = y"
proof -
  obtain a c v a' c' v' where ij: "i = (a, c, v)" "j = (a', c', v')" by (cases i, cases j)
  let ?f = "\<lambda>c v. (if c then [0x01, 0x01, 0xFF] else []) @ der 0x04 v"
  have e: "oid_der (ext_oid a) @ ?f c v = oid_der (ext_oid a') @ ?f c' v'" "x = y"
    using der_cancel [OF assms(4,5) [unfolded ij ext_ref_def prod.case]] by simp_all
  have l: "length (oid_der (ext_oid a) @ ?f c v) < 2 ^ 64" "length (der 0x04 v) < 2 ^ 64"
    using assms(5) by (simp_all add: ij ext_ref_def der_def [of "0x30"])
  have "ext_oid a \<in> set known_oids" "ext_oid a' \<in> set known_oids" using assms(2,3) known_subsets(3) ij by auto
  from oid_cancel [OF law this e(1) l(1)] have "ext_oid a = ext_oid a'" "?f c v = ?f c' v'" by simp_all
  moreover from this(2) have "c = c'" by (auto simp: der_def split: if_splits)
  ultimately have "a = a'" "c = c'" "der 0x04 v = der 0x04 v'" by (auto simp: ext_oid_def)
  with der_inj [of "0x04" v "0x04" v'] l(2) e(2) ij show ?thesis by simp
qed

lemma exts_inj:
  assumes "oid_encoding oid_der"
  shows "fst ` set xs \<subseteq> {19, 15, 37, 14, 35} \<Longrightarrow> fst ` set ys \<subseteq> {19, 15, 37, 14, 35} \<Longrightarrow>
    concat (map (ext_ref oid_der) xs) = concat (map (ext_ref oid_der) ys) \<Longrightarrow>
    length (concat (map (ext_ref oid_der) xs)) < 2 ^ 64 \<Longrightarrow> xs = ys"
proof (induction xs arbitrary: ys)
  case Nil
  then show ?case by (cases ys) (auto simp: ext_ref_def der_def split: prod.splits)
next
  case (Cons x xs)
  then obtain y ys' where ys: "ys = y # ys'" by (cases ys) (auto simp: ext_ref_def der_def split: prod.splits)
  have "fst x \<in> {19, 15, 37, 14, 35}" "fst y \<in> {19, 15, 37, 14, 35}"
    "ext_ref oid_der x @ concat (map (ext_ref oid_der) xs) = ext_ref oid_der y @ concat (map (ext_ref oid_der) ys')"
    "length (ext_ref oid_der x @ concat (map (ext_ref oid_der) xs)) < 2 ^ 64" using Cons.prems ys by auto
  from ext_cancel [OF assms this] have "x = y" "concat (map (ext_ref oid_der) xs) = concat (map (ext_ref oid_der) ys')" by simp_all
  with Cons.IH [of ys'] Cons.prems ys show ?case by simp
qed

section \<open>The part of a certificate that is signed\<close>

text \<open>
  The X.509 form leaves out the path length of a certificate that is no authority and the purposes
  without an object identifier, and has a zero before a serial number whose first bit is set.
\<close>

definition shown_constraints :: "basic_constraints \<Rightarrow> basic_constraints" where
  "shown_constraints bc = (if bc_is_ca bc then bc else bc\<lparr>bc_path_len := None\<rparr>)"

definition shown_extensions :: "cert_extensions \<Rightarrow> cert_extensions" where
  "shown_extensions x = x\<lparr>ex_basic_constraints := map_option shown_constraints (ex_basic_constraints x),
     ex_extended_key_usage := map_option known_purposes (ex_extended_key_usage x)\<rparr>"

definition signed_part :: "matter_certificate \<Rightarrow> matter_certificate" where
  "signed_part c = c\<lparr>crt_serial := serial_content (crt_serial c), crt_extensions := shown_extensions (crt_extensions c),
     crt_signature := []\<rparr>"

lemma ext_items_lookup:
  "map_of (ext_items oid_der x) 19 = map_option (\<lambda>bc. (True, bc_value bc)) (ex_basic_constraints x)"
  "map_of (ext_items oid_der x) 15 = map_option (\<lambda>ku. (True, der 0x03 (key_usage_bits ku))) (ex_key_usage x)"
  "map_of (ext_items oid_der x) 37 = map_option (\<lambda>eku. (True, eku_value oid_der eku)) (ex_extended_key_usage x)"
  "map_of (ext_items oid_der x) 14 = map_option (\<lambda>k. (False, der 0x04 k)) (ex_subject_key_identifier x)"
  "map_of (ext_items oid_der x) 35 = map_option (\<lambda>k. (False, der 0x30 (0x80 # definite_length_prefix 20 @ k))) (ex_authority_key_identifier x)"
  by (simp_all add: ext_items_def item_opt_def split: option.split)

lemma ext_items_arcs: "fst ` set (ext_items oid_der x) \<subseteq> {19, 15, 37, 14, 35}"
  by (auto simp: ext_items_def item_opt_def split: option.splits)

lemma item_length: "(a, c, v) \<in> set items \<Longrightarrow> length v \<le> length (concat (map (ext_ref oid_der) items))"
  by (induction items) (auto simp: ext_ref_def der_def)

lemma lookup_length:
  "map_of items a = Some (c, v) \<Longrightarrow> length (concat (map (ext_ref oid_der) items)) < 2 ^ 64 \<Longrightarrow> length v < 2 ^ 64"
  using item_length [OF map_of_SomeD] by (rule le_less_trans)

lemma slot_inj:
  assumes "map_option (\<lambda>x. (b, f x)) s = map_option (\<lambda>x. (b, f x)) s'"
    "\<And>x y. s = Some x \<Longrightarrow> f x = f y \<Longrightarrow> g x = g y"
  shows "map_option g s = map_option g s'"
  using assms(1) by (cases s; cases s') (auto intro: assms(2))

lemma ext_items_inj:
  assumes law: "oid_encoding oid_der" and e: "ext_items oid_der x = ext_items oid_der x'"
    and l: "length (concat (map (ext_ref oid_der) (ext_items oid_der x))) < 2 ^ 64"
  shows "shown_extensions x = shown_extensions x'"
proof -
  note same = arg_cong [OF e, of map_of, THEN fun_cong]
  note short = lookup_length [OF _ l]
  have der_short: "length (der t c) < 2 ^ 64 \<Longrightarrow> der t c = der t c' \<Longrightarrow> c = c'" for t c c' using der_inj by blast
  have 1: "map_option shown_constraints (ex_basic_constraints x) = map_option shown_constraints (ex_basic_constraints x')"
    by (rule slot_inj [OF same [of 19, unfolded ext_items_lookup]])
      (auto simp: shown_constraints_def dest!: bc_value_inj intro: basic_constraints.equality)
  have 2: "map_option (\<lambda>x. x) (ex_key_usage x) = map_option (\<lambda>x. x) (ex_key_usage x')"
    by (rule slot_inj [OF same [of 15, unfolded ext_items_lookup]], rule key_usage_bits_inj, erule der_short [rotated])
      (simp only: short [of 15, unfolded ext_items_lookup] option.map)
  have 3: "map_option known_purposes (ex_extended_key_usage x) = map_option known_purposes (ex_extended_key_usage x')"
    by (rule slot_inj [OF same [of 37, unfolded ext_items_lookup]], erule eku_value_inj [OF law])
      (simp only: short [of 37, unfolded ext_items_lookup] option.map)
  have 4: "map_option (\<lambda>x. x) (ex_subject_key_identifier x) = map_option (\<lambda>x. x) (ex_subject_key_identifier x')"
    by (rule slot_inj [OF same [of 14, unfolded ext_items_lookup]], erule der_short [rotated])
      (simp only: short [of 14, unfolded ext_items_lookup] option.map)
  have 5: "map_option (\<lambda>x. x) (ex_authority_key_identifier x) = map_option (\<lambda>x. x) (ex_authority_key_identifier x')"
  proof (rule slot_inj [OF same [of 35, unfolded ext_items_lookup]])
    fix k k'
    assume k: "ex_authority_key_identifier x = Some k"
      "der 0x30 (0x80 # definite_length_prefix 20 @ k) = der 0x30 (0x80 # definite_length_prefix 20 @ k')"
    have "length (der 0x30 (0x80 # definite_length_prefix 20 @ k)) < 2 ^ 64"
      by (rule short [of 35 False]) (simp add: ext_items_lookup k(1))
    from der_short [OF this k(2)] show "k = k'" by simp
  qed
  show ?thesis
    using 1 2 3 4 5 unfolding shown_extensions_def option.map_ident by (intro cert_extensions.equality) simp_all
qed

lemma serial_content_shown: "serial_ref (serial_content s) = serial_ref s"
  by (simp add: serial_ref_def serial_content_def)

lemma ext_items_shown: "ext_items oid_der (shown_extensions x) = ext_items oid_der x"
proof -
  have "bc_value (shown_constraints bc) = bc_value bc" for bc by (simp add: bc_value_def shown_constraints_def)
  moreover have "eku_value oid_der (known_purposes eku) = eku_value oid_der eku" for eku
    by (simp add: eku_value_def List.map_filter_def known_purposes_def)
  ultimately show ?thesis by (simp add: ext_items_def item_opt_def shown_extensions_def split: option.split)
qed

lemma tbs_signed_part: "tbs_ref oid_der (signed_part c) = tbs_ref oid_der c"
  by (simp add: tbs_ref_def signed_part_def serial_content_shown exts_ref_def ext_items_shown)

lemma validity_cancel:
  assumes "validity_ref nb na @ x = validity_ref nb' na' @ y" "length (validity_ref nb na @ x) < 2 ^ 64"
  shows "nb = nb' \<and> na = na' \<and> x = y"
proof -
  have e: "time_ref nb False @ time_ref na True = time_ref nb' False @ time_ref na' True" "x = y"
    using der_cancel [OF assms [unfolded validity_ref_def]] by simp_all
  have l: "length (time_ref nb False @ time_ref na True) < 2 ^ 64" using assms(2) by (simp add: validity_ref_def der_def)
  from time_cancel [OF e(1) l] have n: "nb = nb'" "time_ref na True = time_ref na' True" by simp_all
  with time_cancel [of na True "[]" na' "[]"] l e(2) show ?thesis by simp
qed

lemma spki_cancel:
  assumes "spki_ref oid_der k @ x = spki_ref oid_der k' @ y" "length (spki_ref oid_der k @ x) < 2 ^ 64"
  shows "k = k' \<and> x = y"
proof -
  have e: "der 0x03 (0 # k) = der 0x03 (0 # k')" "x = y" using der_cancel [OF assms [unfolded spki_ref_def]] by simp_all
  have "length (der 0x03 (0 # k)) < 2 ^ 64" using assms(2) by (simp add: spki_ref_def der_def [of "0x30"])
  from der_inj [OF e(1) this] e(2) show ?thesis by simp
qed

lemma exts_ref_inj:
  assumes "oid_encoding oid_der" "exts_ref oid_der x = exts_ref oid_der x'" "length (exts_ref oid_der x) < 2 ^ 64"
  shows "shown_extensions x = shown_extensions x'"
proof -
  let ?e = "\<lambda>x. concat (map (ext_ref oid_der) (ext_items oid_der x))"
  have l: "length (der 0x30 (?e x)) < 2 ^ 64" "length (?e x) < 2 ^ 64"
    using assms(3) by (simp_all add: exts_ref_def der_def)
  have "der 0x30 (?e x) = der 0x30 (?e x')" using der_inj [OF assms(2,3) [unfolded exts_ref_def]] by simp
  from der_inj [OF this l(1)] have "?e x = ?e x'" by simp
  from exts_inj [OF assms(1) ext_items_arcs ext_items_arcs this l(2)] show ?thesis
    by (rule ext_items_inj [OF assms(1) _ l(2)])
qed

lemma serial_cancel:
  assumes "serial_ref s = Inr p" "serial_ref s' = Inr p'" "p @ x = p' @ y" "length (p @ x) < 2 ^ 64"
  shows "serial_content s = serial_content s' \<and> x = y"
proof -
  have "p = der 0x02 (serial_content s)" "p' = der 0x02 (serial_content s')"
    using assms(1,2) by (simp_all add: serial_ref_def split: if_splits)
  with der_cancel assms(3,4) show ?thesis by blast
qed

lemma tbs_inj:
  assumes law: "oid_encoding oid_der" and "tbs_ref oid_der c = Inr bs" "tbs_ref oid_der c' = Inr bs" "length bs < 2 ^ 64"
  shows "signed_part c = signed_part c'"
proof -
  let ?alg = "der 0x30 (oid_der OID_SIGNATURE)" and ?v = "[0xA0, 0x03, 0x02, 0x01, 0x02] :: bytes"
  let ?tail = "\<lambda>c. spki_ref oid_der (crt_public_key c) @ exts_ref oid_der (crt_extensions c)"
  let ?val = "\<lambda>c. validity_ref (crt_not_before c) (crt_not_after c)"
  obtain s i u where c: "serial_ref (crt_serial c) = Inr s" "dn_ref oid_der (crt_issuer c) = Inr i"
    "dn_ref oid_der (crt_subject c) = Inr u" "bs = der 0x30 (?v @ s @ ?alg @ i @ ?val c @ u @ ?tail c)"
    using assms(2) by (auto simp: tbs_ref_def try_bind_def split: sum.splits)
  obtain s' i' u' where c': "serial_ref (crt_serial c') = Inr s'" "dn_ref oid_der (crt_issuer c') = Inr i'"
    "dn_ref oid_der (crt_subject c') = Inr u'" "bs = der 0x30 (?v @ s' @ ?alg @ i' @ ?val c' @ u' @ ?tail c')"
    using assms(3) by (auto simp: tbs_ref_def try_bind_def split: sum.splits)
  have l: "length (?v @ s @ ?alg @ i @ ?val c @ u @ ?tail c) < 2 ^ 64" using less_trans [OF length_der assms(4) [unfolded c(4)]] .
  have "?v @ s @ ?alg @ i @ ?val c @ u @ ?tail c = ?v @ s' @ ?alg @ i' @ ?val c' @ u' @ ?tail c'"
    using der_inj [of "0x30" _ "0x30"] c(4) c'(4) assms(4) by metis
  then have "s @ (?alg @ i @ ?val c @ u @ ?tail c) = s' @ (?alg @ i' @ ?val c' @ u' @ ?tail c')" by simp
  from serial_cancel [OF c(1) c'(1) this] l have 1: "serial_content (crt_serial c) = serial_content (crt_serial c')"
    "i @ (?val c @ u @ ?tail c) = i' @ (?val c' @ u' @ ?tail c')" by simp_all
  from dn_cancel [OF law c(2) c'(2) 1(2)] l have 2: "crt_issuer c = crt_issuer c'"
    "?val c @ (u @ ?tail c) = ?val c' @ (u' @ ?tail c')" by simp_all
  from validity_cancel [OF 2(2)] l have 3: "crt_not_before c = crt_not_before c'" "crt_not_after c = crt_not_after c'"
    "u @ ?tail c = u' @ ?tail c'" by simp_all
  from dn_cancel [OF law c(3) c'(3) 3(3)] l have 4: "crt_subject c = crt_subject c'" "?tail c = ?tail c'" by simp_all
  from spki_cancel [OF 4(2)] l have 5: "crt_public_key c = crt_public_key c'"
    "exts_ref oid_der (crt_extensions c) = exts_ref oid_der (crt_extensions c')" by simp_all
  from exts_ref_inj [OF law 5(2)] l have "shown_extensions (crt_extensions c) = shown_extensions (crt_extensions c')" by simp
  with 1 2 3 4 5 show ?thesis unfolding signed_part_def by (intro matter_certificate.equality) simp_all
qed

text \<open>
  C12. The signed bytes of a certificate determine it: another certificate has the same ones exactly
  when it agrees with it in the serial number (up to the zero that keeps it positive), issuer,
  validity, subject, public key, and extensions, path lengths of certificates that are no authority
  and unknown key purposes apart. Object identifiers are encoded as distinct primitive elements,
  and lengths are below 2 to the 64.
\<close>

theorem signature_covers_exactly:
  assumes "oid_encoding oid_der" "to_x509_tbs_der oid_der c = Inr bs" "length bs < 2 ^ 64"
  shows "to_x509_tbs_der oid_der c' = Inr bs \<longleftrightarrow> signed_part c' = signed_part c"
proof
  assume "to_x509_tbs_der oid_der c' = Inr bs"
  then show "signed_part c' = signed_part c"
    using tbs_inj [OF assms(1), of c' bs c] assms(2,3) by (simp add: tbs_written)
next
  assume "signed_part c' = signed_part c"
  then have "tbs_ref oid_der c' = tbs_ref oid_der c" using tbs_signed_part by metis
  with assms(2) show "to_x509_tbs_der oid_der c' = Inr bs" by (simp add: tbs_written)
qed

text \<open>The encoding of object identifiers: the first two arcs in one number, each number in base 128.\<close>

fun base128 :: "nat \<Rightarrow> bytes" where
  "base128 n = (if n < 128 then [word_of_nat n] else map (\<lambda>b. 0x80 OR b) (base128 (n div 128)) @ [word_of_nat (n mod 128)])"

declare base128.simps [simp del]

definition oid_body :: "oid \<Rightarrow> bytes" where
  "oid_body oid = (case oid of a # b # arcs \<Rightarrow> concat (map base128 ((40 * a + b) # arcs)) | _ \<Rightarrow> [])"

definition sample_oid_der :: "oid \<Rightarrow> bytes" where
  "sample_oid_der oid = der 0x06 (oid_body oid)"

lemma sample_oid_encoding: "oid_encoding sample_oid_der"
  unfolding oid_encoding_def
proof (intro exI conjI)
  show "distinct (map oid_body known_oids)"
    by (simp add: known_oids_def name_oids_def purpose_oids_def matter_oid_def x520_oid_def OID_DOMAIN_COMPONENT_def ext_oid_def
      OID_EC_PUBLIC_KEY_def OID_EC_CURVE_P256_def OID_SIGNATURE_def oid_body_def base128.simps)
  show "map sample_oid_der known_oids = map (\<lambda>oid. der 0x06 (oid_body oid)) known_oids" by (simp add: sample_oid_der_def)
qed

definition sample_signed :: matter_certificate where
  "sample_signed = sample_cert\<lparr>crt_extensions := (crt_extensions sample_cert)
     \<lparr>ex_extended_key_usage := None, ex_authority_key_identifier := None\<rparr>\<rparr>"

lemma length_der_short: "length c < 0x80 \<Longrightarrow> length (der t c) = length c + 2"
  by (simp add: der_short)

lemma length_der_le: "length (der t c) \<le> length c + 10"
  using be_used_le [of "length c"] by (simp add: der_def definite_length_prefix_def)

lemma sample_oids: "length (sample_oid_der OID_SIGNATURE) = 10" "length (sample_oid_der OID_EC_PUBLIC_KEY) = 9"
  "length (sample_oid_der OID_EC_CURVE_P256) = 10" "a < 128 \<Longrightarrow> length (sample_oid_der (ext_oid a)) = 5"
  "a < 128 \<Longrightarrow> b < 128 \<Longrightarrow> length (sample_oid_der (matter_oid a b)) = 12"
  by (simp_all add: sample_oid_der_def der_short oid_body_def base128.simps OID_SIGNATURE_def OID_EC_PUBLIC_KEY_def
    OID_EC_CURVE_P256_def ext_oid_def matter_oid_def)

text \<open>The sizes of the parts of a certificate, short enough for its bytes to fit any machine.\<close>

lemma sample_sizes:
  "length (validity_ref 1000 NO_EXPIRY) = 34" "length (upper_hex w n) = w"
  "length key = 65 \<Longrightarrow> length (spki_ref sample_oid_der key) = 91"
  by (simp_all add: validity_ref_def time_ref_def Let_def der_short padded_two(1) clock_length
      time_contents_length(3) NO_EXPIRY_def unix_bounds(3) X509_UTCTIME_CUTOFF_UNIX_SECS_def upper_hex_def spki_ref_def
      length_der_short sample_oids)

lemma sample_extension_sizes:
  assumes "length (key_usage_bits ku) = 2" "length skid = 20"
  shows "length (exts_ref sample_oid_der \<lparr>ex_basic_constraints = Some \<lparr>bc_is_ca = ca, bc_path_len = None\<rparr>,
      ex_key_usage = Some ku, ex_extended_key_usage = None, ex_subject_key_identifier = Some skid,
      ex_authority_key_identifier = None\<rparr>) \<le> 68"
  using assms
  by (simp add: exts_ref_def ext_items_def item_opt_def ext_ref_def bc_value_def length_der_short sample_oids)

lemma sample_tbs: "\<exists>bs. to_x509_tbs_der sample_oid_der sample_signed = Inr bs \<and> length bs < 2 ^ 64"
proof -
  have "length (key_usage_bits DIGITAL_SIGNATURE) = 2" by code_simp
  from sample_extension_sizes [OF this, of "replicate 20 1" False] show ?thesis
    unfolding tbs_written tbs_ref_def
    by (simp add: sample_signed_def sample_cert_def serial_ref_def serial_content_def dn_ref_def attr_ref_def
      le_less_trans [OF length_der_le] length_der_short sample_oids sample_sizes)
qed

theorem signature_covers_exactly_witness:
  "\<exists>bs. to_x509_tbs_der sample_oid_der sample_signed = Inr bs \<and>
     to_x509_tbs_der sample_oid_der (sample_signed\<lparr>crt_signature := []\<rparr>) = Inr bs \<and>
     to_x509_tbs_der sample_oid_der (sample_signed\<lparr>crt_subject := [NodeId 43]\<rparr>) \<noteq> Inr bs"
proof -
  obtain bs where bs: "to_x509_tbs_der sample_oid_der sample_signed = Inr bs" "length bs < 2 ^ 64"
    using sample_tbs by blast
  note covers = signature_covers_exactly [OF sample_oid_encoding bs]
  have "to_x509_tbs_der sample_oid_der (sample_signed\<lparr>crt_signature := []\<rparr>) = Inr bs"
    unfolding covers by (simp add: signed_part_def)
  moreover have "to_x509_tbs_der sample_oid_der (sample_signed\<lparr>crt_subject := [NodeId 43]\<rparr>) \<noteq> Inr bs"
    unfolding covers by (simp add: signed_part_def sample_signed_def sample_cert_def)
  ultimately show ?thesis using bs(1) by blast
qed

text \<open>Certificates that differ and have the same signed bytes.\<close>

lemma unsigned_fields:
  "to_x509_tbs_der oid_der (c\<lparr>crt_extensions := x\<lparr>ex_basic_constraints := Some \<lparr>bc_is_ca = False, bc_path_len = n\<rparr>\<rparr>\<rparr>) =
     to_x509_tbs_der oid_der (c\<lparr>crt_extensions := x\<lparr>ex_basic_constraints := Some \<lparr>bc_is_ca = False, bc_path_len = None\<rparr>\<rparr>\<rparr>)"
  "to_x509_tbs_der oid_der (c\<lparr>crt_extensions := x\<lparr>ex_extended_key_usage := Some (7 # eku)\<rparr>\<rparr>) =
     to_x509_tbs_der oid_der (c\<lparr>crt_extensions := x\<lparr>ex_extended_key_usage := Some eku\<rparr>\<rparr>)"
  "to_x509_tbs_der oid_der (c\<lparr>crt_serial := [0x80]\<rparr>) = to_x509_tbs_der oid_der (c\<lparr>crt_serial := [0, 0x80]\<rparr>)"
  unfolding tbs_written
  by (subst (1 2) tbs_signed_part [symmetric], simp add: signed_part_def shown_extensions_def shown_constraints_def
    known_purposes_def kp_oid_def serial_content_def)+

end
