(* ===== verification/Certificate_Chains.thy ===== *)
theory Certificate_Chains
  imports Certificate_Binding
begin

text \<open>
  Chains of operational certificates: when a chain is accepted, what that says of its
  certificates, and that the chains issued by the certificate profiles are accepted.
\<close>

section \<open>Accepted chains\<close>

definition signed_by :: "(oid \<Rightarrow> bytes) \<Rightarrow> (bytes \<Rightarrow> bytes \<Rightarrow> bytes \<Rightarrow> bool) \<Rightarrow> matter_certificate \<Rightarrow> bytes \<Rightarrow> bool" where
  "signed_by oid_der ecdsa c key \<longleftrightarrow> (\<exists>tbs. to_x509_tbs_der oid_der c = Inr tbs \<and> ecdsa key tbs (crt_signature c))"

lemma verify_signed_by_iff: "verify_signed_by oid_der ecdsa c key = Inr () \<longleftrightarrow> signed_by oid_der ecdsa c key"
  by (auto simp: verify_signed_by_def signed_by_def public_key_verify_def try_bind_eq_Inr split: if_splits)

definition current :: "matter_time \<Rightarrow> matter_certificate \<Rightarrow> bool" where
  "current t c \<longleftrightarrow> crt_not_before c \<le> t \<and> (crt_not_after c = NO_EXPIRY \<or> t \<le> crt_not_after c)"

text \<open>A certificate that may issue one with \<open>n\<close> authorities below it; a count above 255 is taken as 255.\<close>

definition authority :: "nat \<Rightarrow> matter_certificate \<Rightarrow> bool" where
  "authority n c \<longleftrightarrow> asserts_ca c \<and> asserts_key_cert_sign c \<and> (\<forall>k. path_len_of c = Some k \<longrightarrow> min n 255 \<le> unat k)"

lemma index_u8_le: "index_u8 n \<le> k \<longleftrightarrow> min n 255 \<le> unat k"
proof -
  have "unat (index_u8 n) = min n 255"
    by (simp add: index_u8_def unsigned_of_nat take_bit_nat_eq_self min_def)
  then show ?thesis by (simp add: word_le_nat_alt)
qed

lemma validate_at_iff:
  "validate_at oid_der ecdsa certs t i = Inr () \<longleftrightarrow> current t (certs ! i) \<and>
     (if i = 0 then \<not> asserts_ca (certs ! i) else authority (i - 1) (certs ! i)) \<and>
     (i + 1 < length certs \<longrightarrow> crt_issuer (certs ! i) = crt_subject (certs ! (i + 1)) \<and>
       signed_by oid_der ecdsa (certs ! i) (crt_public_key (certs ! (i + 1))))"
proof -
  have p: "(case path_len_of c of None \<Rightarrow> False | Some plc \<Rightarrow> index_u8 n > plc) \<longleftrightarrow>
      \<not> (\<forall>k. path_len_of c = Some k \<longrightarrow> min n 255 \<le> unat k)" for c n
    by (auto simp: index_u8_le [symmetric] not_le split: option.split)
  show ?thesis
    unfolding validate_at_def Let_def p current_def authority_def
    by (auto simp: verify_signed_by_iff not_le not_less)
qed

lemma each_iff: "each f is = Inr () \<longleftrightarrow> (\<forall>i \<in> set is. f i = Inr ())"
  by (induction "is") (auto simp: try_bind_eq_Inr)

definition anchors :: "(oid \<Rightarrow> bytes) \<Rightarrow> (bytes \<Rightarrow> bytes \<Rightarrow> bytes \<Rightarrow> bool) \<Rightarrow> cert_anchor \<Rightarrow> matter_certificate \<Rightarrow> bool" where
  "anchors oid_der ecdsa a c \<longleftrightarrow> crt_issuer c = anc_subject a \<and>
     (\<forall>ski. anc_subject_key_identifier a = Some ski \<longrightarrow> ex_authority_key_identifier (crt_extensions c) = Some ski) \<and>
     signed_by oid_der ecdsa c (anc_public_key a)"

lemma chain_accepted_iff:
  "validate oid_der ecdsa certs roots t = Inr () \<longleftrightarrow> certs \<noteq> [] \<and>
     (\<forall>i < length certs. current t (certs ! i) \<and>
        (if i = 0 then \<not> asserts_ca (certs ! i) else authority (i - 1) (certs ! i))) \<and>
     (\<forall>i. i + 1 < length certs \<longrightarrow> crt_issuer (certs ! i) = crt_subject (certs ! (i + 1)) \<and>
        signed_by oid_der ecdsa (certs ! i) (crt_public_key (certs ! (i + 1)))) \<and>
     (\<exists>a \<in> set roots. anchors oid_der ecdsa a (last certs))"
proof (cases "certs = []")
  case False
  have "(\<exists>a \<in> set roots. anchors oid_der ecdsa a (last certs)) \<longleftrightarrow>
      try_bind (to_x509_tbs_der oid_der (last certs)) (\<lambda>tbs.
        if list_ex (anchored_by ecdsa (last certs) tbs) roots then Inr () else Inl CertUntrustedRoot) = Inr ()"
    by (auto simp: try_bind_eq_Inr anchors_def signed_by_def anchored_by_def public_key_verify_def list_ex_iff
      split: option.splits if_splits)
  moreover have "certs ! (length certs - 1) = last certs" using False by (simp add: last_conv_nth)
  moreover have "each (validate_at oid_der ecdsa certs t) [0..<length certs] = Inr () \<longleftrightarrow>
      (\<forall>i < length certs. current t (certs ! i) \<and>
        (if i = 0 then \<not> asserts_ca (certs ! i) else authority (i - 1) (certs ! i))) \<and>
      (\<forall>i. i + 1 < length certs \<longrightarrow> crt_issuer (certs ! i) = crt_subject (certs ! (i + 1)) \<and>
        signed_by oid_der ecdsa (certs ! i) (crt_public_key (certs ! (i + 1))))"
    unfolding each_iff validate_at_iff by auto
  ultimately show ?thesis using False by (simp add: validate_def Let_def try_bind_eq_Inr)
qed (simp add: validate_def)

text \<open>
  A chain is accepted exactly when it is not empty, every certificate is current, the leaf is no
  authority and every other certificate is one with room for those below it, each is issued and
  signed by the next, and a trusted root issued and signed the last.
\<close>

theorem chain_valid_exact:
  "validate oid_der ecdsa certs roots t = Inr () \<longleftrightarrow> certs \<noteq> [] \<and>
     (\<forall>i < length certs. current t (certs ! i) \<and>
        (if i = 0 then \<not> asserts_ca (certs ! i) else authority (i - 1) (certs ! i))) \<and>
     (\<forall>i. i + 1 < length certs \<longrightarrow> crt_issuer (certs ! i) = crt_subject (certs ! (i + 1)) \<and>
        signed_by oid_der ecdsa (certs ! i) (crt_public_key (certs ! (i + 1)))) \<and>
     (\<exists>a \<in> set roots. anchors oid_der ecdsa a (last certs))"
  by (rule chain_accepted_iff)

section \<open>What an accepted chain says\<close>

text \<open>
  The holders of some keys, and the certificates each has issued with its key. No signature
  presented in a chain is a forgery under a held key: if it verifies over the bytes of its
  certificate, then the holder has signed these bytes, as those of a certificate it issued.
  Nothing is said of keys that are not held, nor of signatures that are not presented.
\<close>

definition unforged :: "(oid \<Rightarrow> bytes) \<Rightarrow> (bytes \<Rightarrow> bytes \<Rightarrow> bytes \<Rightarrow> bool) \<Rightarrow> bytes set \<Rightarrow> (bytes \<Rightarrow> matter_certificate set) \<Rightarrow>
    matter_certificate list \<Rightarrow> bool" where
  "unforged oid_der ecdsa held issued certs \<longleftrightarrow> (\<forall>c \<in> set certs. \<forall>key \<in> held. \<forall>m.
     to_x509_tbs_der oid_der c = Inr m \<longrightarrow> ecdsa key m (crt_signature c) \<longrightarrow>
       (\<exists>c' \<in> issued key. to_x509_tbs_der oid_der c' = Inr m))"

text \<open>The holders make authorities only of other holders.\<close>

definition delegates :: "bytes set \<Rightarrow> (bytes \<Rightarrow> matter_certificate set) \<Rightarrow> bool" where
  "delegates held issued \<longleftrightarrow> (\<forall>key \<in> held. \<forall>c \<in> issued key. asserts_ca c \<longrightarrow> crt_public_key c \<in> held)"

text \<open>The bytes of every certificate fit the memory of a 64-bit machine.\<close>

definition representable :: "(oid \<Rightarrow> bytes) \<Rightarrow> matter_certificate list \<Rightarrow> bool" where
  "representable oid_der certs \<longleftrightarrow> (\<forall>c \<in> set certs. \<forall>m. to_x509_tbs_der oid_der c = Inr m \<longrightarrow> length m < 2 ^ 64)"

lemma signed_by_issued:
  assumes "oid_encoding oid_der" "representable oid_der certs" "unforged oid_der ecdsa held issued certs"
    "c \<in> set certs" "key \<in> held" "signed_by oid_der ecdsa c key"
  shows "\<exists>c' \<in> issued key. signed_part c = signed_part c'"
proof -
  obtain m where m: "to_x509_tbs_der oid_der c = Inr m" "ecdsa key m (crt_signature c)"
    using assms(6) by (auto simp: signed_by_def)
  with assms(3-5) obtain c' where "c' \<in> issued key" "to_x509_tbs_der oid_der c' = Inr m"
    unfolding unforged_def by blast
  moreover have "length m < 2 ^ 64" using assms(2,4) m(1) by (simp add: representable_def)
  ultimately show ?thesis using tbs_inj [OF assms(1), of c m c'] m(1) by (auto simp: tbs_written)
qed

lemma signed_part_keeps:
  assumes "signed_part c = signed_part c'"
  shows "crt_public_key c = crt_public_key c'" "asserts_ca c = asserts_ca c'"
proof -
  have "crt_public_key (signed_part c) = crt_public_key c" "asserts_ca (signed_part c) = asserts_ca c" for c
    by (auto simp: signed_part_def asserts_ca_def shown_extensions_def shown_constraints_def split: option.split)
  with assms show "crt_public_key c = crt_public_key c'" "asserts_ca c = asserts_ca c'" by metis+
qed

lemma delegated:
  assumes "delegates held issued" "key \<in> held" "\<exists>c' \<in> issued key. signed_part c = signed_part c'" "asserts_ca c"
  shows "crt_public_key c \<in> held"
  using assms signed_part_keeps unfolding delegates_def by metis

text \<open>The keys of the authorities of an accepted chain are held, from the root downwards.\<close>

lemma chain_keys_held:
  assumes "oid_encoding oid_der" "representable oid_der certs" "unforged oid_der ecdsa held issued certs"
    "anc_public_key ` set roots \<subseteq> held" "delegates held issued" "validate oid_der ecdsa certs roots t = Inr ()"
    and "i < length certs" "0 < i"
  shows "crt_public_key (certs ! i) \<in> held"
proof -
  note acc = assms(6) [unfolded chain_accepted_iff]
  have held: "crt_public_key (certs ! k) \<in> held"
    if "k < length certs" "0 < k" "key \<in> held" "signed_by oid_der ecdsa (certs ! k) key" for k key
    using that acc signed_by_issued [OF assms(1-3) nth_mem]
    by (intro delegated [OF assms(5) that(3)]) (auto simp: authority_def)
  show ?thesis
    using assms(7,8)
  proof (induction rule: strict_inc_induct)
    case (base k)
    then have "last certs = certs ! k" by (simp add: last_conv_nth flip: length_greater_0_conv)
    with acc obtain a where "a \<in> set roots" "signed_by oid_der ecdsa (certs ! k) (anc_public_key a)"
      by (auto simp: anchors_def)
    with base assms(4) show ?case by (intro held [of k "anc_public_key a"]) auto
  next
    case (step k)
    with acc show ?case by (intro held [of k "crt_public_key (certs ! Suc k)"]) auto
  qed
qed

text \<open>
  C11. When no signature of the chain is a forgery, the trusted roots hold their keys and holders make authorities
  only of holders, an accepted chain was issued as it stands: the key of every authority in it is held, every
  certificate agrees, in all that is signed, with one that the holder of the next certificate's key issued, and the
  last one with one that a trusted root issued. No name, key, right or validity was made up on the way.
\<close>

theorem chain_certificates_issued:
  assumes "oid_encoding oid_der" "representable oid_der certs" "unforged oid_der ecdsa held issued certs"
    "anc_public_key ` set roots \<subseteq> held" "delegates held issued" "validate oid_der ecdsa certs roots t = Inr ()"
  shows "(\<forall>i. i + 1 < length certs \<longrightarrow> crt_public_key (certs ! (i + 1)) \<in> held \<and>
      (\<exists>c \<in> issued (crt_public_key (certs ! (i + 1))). signed_part (certs ! i) = signed_part c)) \<and>
    (\<exists>a \<in> set roots. \<exists>c \<in> issued (anc_public_key a). signed_part (last certs) = signed_part c)"
proof (intro conjI allI impI)
  note issued = signed_by_issued [OF assms(1-3)]
  note acc = assms(6) [unfolded chain_accepted_iff]
  fix i assume i: "i + 1 < length certs"
  show held: "crt_public_key (certs ! (i + 1)) \<in> held"
    using chain_keys_held [OF assms, of "i + 1"] i by simp
  show "\<exists>c \<in> issued (crt_public_key (certs ! (i + 1))). signed_part (certs ! i) = signed_part c"
    using i acc by (intro issued held) auto
next
  have "certs \<noteq> []" "\<exists>a \<in> set roots. signed_by oid_der ecdsa (last certs) (anc_public_key a)"
    using assms(6) unfolding chain_accepted_iff anchors_def by blast+
  with signed_by_issued [OF assms(1-3) last_in_set] assms(4)
  show "\<exists>a \<in> set roots. \<exists>c \<in> issued (anc_public_key a). signed_part (last certs) = signed_part c" by blast
qed

section \<open>Issuing\<close>

text \<open>A private key and its public key: it is accepted, signs every message, and the signatures verify.\<close>

definition key_pair :: "(bytes \<Rightarrow> bool) \<Rightarrow> (bytes \<Rightarrow> bytes \<Rightarrow> bytes option) \<Rightarrow> (bytes \<Rightarrow> bytes \<Rightarrow> bytes \<Rightarrow> bool) \<Rightarrow> bytes \<Rightarrow> bytes \<Rightarrow> bool" where
  "key_pair key_accepted sign ecdsa private public \<longleftrightarrow> key_accepted private \<and>
     (\<forall>m. \<exists>s. sign private m = Some s \<and> length s = 64 \<and> ecdsa public m s)"

definition encodable :: "dn_attribute \<Rightarrow> bool" where
  "encodable a \<longleftrightarrow> (case dn_attribute_parts a of Inl _ \<Rightarrow> False | Inr _ \<Rightarrow> True)"

lemma encodable_dn: "list_all encodable dn \<Longrightarrow> \<exists>bs. dn_ref oid_der dn = Inr bs"
proof -
  assume "list_all encodable dn"
  then have "\<exists>bs. rdns_ref oid_der dn = Inr bs"
    by (induction dn) (auto simp: encodable_def attr_ref_def split: sum.splits)
  then show ?thesis by (auto simp: dn_ref_def)
qed

lemma tbs_exists:
  "crt_serial c \<noteq> [] \<Longrightarrow> list_all encodable (crt_issuer c) \<Longrightarrow> list_all encodable (crt_subject c) \<Longrightarrow>
     \<exists>tbs. to_x509_tbs_der oid_der c = Inr tbs"
  using encodable_dn [of "crt_issuer c" oid_der] encodable_dn [of "crt_subject c" oid_der]
  by (auto simp: tbs_written tbs_ref_def serial_ref_def)

lemma tbs_der_assemble: "to_x509_tbs_der oid_der (assemble u s) = tbs_der oid_der u"
  unfolding tbs_der_def tbs_written by (subst (1 2) tbs_signed_part [symmetric]) (simp add: assemble_def signed_part_def)

lemma sign_signed:
  assumes "key_pair key_accepted sign ecdsa private public"
    "uns_serial u \<noteq> []" "list_all encodable (uns_issuer u)" "list_all encodable (uns_subject u)"
  shows "\<exists>c s. sign_with_ring oid_der key_accepted sign u private = Inr c \<and> c = assemble u s \<and>
    signed_by oid_der ecdsa c public"
proof -
  obtain tbs where tbs: "tbs_der oid_der u = Inr tbs"
    using tbs_exists [of "assemble u (replicate 64 0)"] assms(2-4) unfolding tbs_der_def by (auto simp: assemble_def)
  obtain s where s: "sign private tbs = Some s" "length s = 64" "ecdsa public tbs s"
    using assms(1) unfolding key_pair_def by blast
  have "sign_with_ring oid_der key_accepted sign u private = Inr (assemble u s)"
    using tbs s assms(1) by (simp add: sign_with_ring_def key_pair_def)
  moreover have "signed_by oid_der ecdsa (assemble u s) public"
    unfolding signed_by_def tbs_der_assemble using tbs s(3) by (simp add: assemble_def)
  ultimately show ?thesis by blast
qed

lemma build_unsigned_Some:
  "serial \<noteq> [] \<Longrightarrow> length serial \<le> 20 \<Longrightarrow>
    build_unsigned \<lparr>bld_serial = Some serial, bld_issuer = Some issuer, bld_not_before = Some nb, bld_not_after = Some na,
      bld_subject = Some subject, bld_public_key = Some pk, bld_extensions = Some x\<rparr> =
    Inr \<lparr>uns_serial = serial, uns_issuer = issuer, uns_not_before = nb, uns_not_after = na, uns_subject = subject,
      uns_public_key = pk, uns_extensions = x\<rparr>"
  by (auto simp: build_unsigned_def)

text \<open>A profile built and signed: the certificate has the fields of the profile and a signature of the key.\<close>

definition issues :: "(oid \<Rightarrow> bytes) \<Rightarrow> (bytes \<Rightarrow> bool) \<Rightarrow> (bytes \<Rightarrow> bytes \<Rightarrow> bytes option) \<Rightarrow>
    cert_error + unsigned_certificate \<Rightarrow> bytes \<Rightarrow> matter_certificate \<Rightarrow> bool" where
  "issues oid_der key_accepted sign profile private c \<longleftrightarrow>
     try_bind profile (\<lambda>u. sign_with_ring oid_der key_accepted sign u private) = Inr c"

lemma rcac_unsigned:
  assumes "rp_serial p \<noteq> []" "length (rp_serial p) \<le> 20"
  obtains u where "rcac sha1 p = Inr u" "uns_serial u \<noteq> []" "list_all encodable (uns_issuer u)" "list_all encodable (uns_subject u)"
    "uns_subject u = [RcacId (rp_rcac_id p)]" "uns_public_key u = rp_public_key p"
    "ex_subject_key_identifier (uns_extensions u) = Some (skid_from_spki sha1 (rp_public_key p))"
  using assms by (auto simp: rcac_def Let_def build_unsigned_Some encodable_def)

lemma icac_unsigned:
  assumes "ip_serial p \<noteq> []" "length (ip_serial p) \<le> 20" "list_all encodable (ip_issuer p)"
  obtains u where "icac sha1 p = Inr u" "uns_serial u \<noteq> []" "list_all encodable (uns_issuer u)" "list_all encodable (uns_subject u)"
    "uns_subject u = [IcacId (ip_icac_id p)]" "uns_issuer u = ip_issuer p" "uns_public_key u = ip_public_key p"
    "uns_not_before u = ip_not_before p" "uns_not_after u = ip_not_after p"
    "ex_subject_key_identifier (uns_extensions u) = Some (skid_from_spki sha1 (ip_public_key p))"
    "ex_authority_key_identifier (uns_extensions u) = Some (ip_issuer_skid p)" "\<And>s. authority 0 (assemble u s)"
proof -
  have k: "(KEY_CERT_SIGN OR CRL_SIGN) AND KEY_CERT_SIGN = KEY_CERT_SIGN" by (simp add: KEY_CERT_SIGN_def CRL_SIGN_def)
  show thesis
    by (rule that, simp add: icac_def build_unsigned_Some assms)
      (use assms in \<open>simp_all add: encodable_def authority_def assemble_def
      asserts_ca_def asserts_key_cert_sign_def path_len_of_def k\<close>)
qed

lemma noc_unsigned:
  assumes "np_serial p \<noteq> []" "length (np_serial p) \<le> 20" "list_all encodable (np_issuer p)"
  obtains u where "noc sha1 p = Inr u" "uns_serial u \<noteq> []" "list_all encodable (uns_issuer u)" "list_all encodable (uns_subject u)"
    "uns_issuer u = np_issuer p" "uns_public_key u = np_public_key p"
    "uns_subject u = FabricId (np_fabric_id p) # NodeId (np_node_id p) # map CaseAuthenticatedTag (np_case_authenticated_tags p)"
    "uns_not_before u = np_not_before p" "uns_not_after u = np_not_after p"
    "ex_authority_key_identifier (uns_extensions u) = Some (np_issuer_skid p)" "\<And>s. \<not> asserts_ca (assemble u s)"
proof -
  have tags: "list_all encodable (map CaseAuthenticatedTag ts)" for ts by (induction ts) (simp_all add: encodable_def)
  show thesis
    by (rule that, simp add: noc_def build_unsigned_Some assms)
      (use assms tags [of "np_case_authenticated_tags p"] in \<open>simp_all add: encodable_def [of "NodeId _"] encodable_def [of "FabricId _"] assemble_def asserts_ca_def\<close>)
qed

lemma two_certificates_accepted:
  assumes "current t leaf" "\<not> asserts_ca leaf" "current t ica" "authority 0 ica" "crt_issuer leaf = crt_subject ica"
    "signed_by oid_der ecdsa leaf (crt_public_key ica)" "a \<in> set roots" "anchors oid_der ecdsa a ica"
  shows "validate oid_der ecdsa [leaf, ica] roots t = Inr ()"
  unfolding chain_accepted_iff using assms by (auto simp: less_Suc_eq)

lemma one_certificate_accepted:
  assumes "current t leaf" "\<not> asserts_ca leaf" "a \<in> set roots" "anchors oid_der ecdsa a leaf"
  shows "validate oid_der ecdsa [leaf] roots t = Inr ()"
  unfolding chain_accepted_iff using assms by auto

definition within :: "matter_time \<Rightarrow> matter_time \<Rightarrow> matter_time \<Rightarrow> bool" where
  "within t not_before not_after \<longleftrightarrow> not_before \<le> t \<and> (not_after = NO_EXPIRY \<or> t \<le> not_after)"

text \<open>
  C13. The certificates a fabric issues are accepted: with serial numbers of 1 to 20 bytes and keys that
  sign, the root, intermediate and node certificates of the profiles can be built and signed, and
  the chain from the node certificate through the intermediate one is accepted under the root at
  every time within the validity of both.
\<close>

theorem issued_chain_accepted:
  assumes "key_pair key_accepted sign ecdsa root_key (rp_public_key rp)" "key_pair key_accepted sign ecdsa ica_key (ip_public_key ip)"
    and "length (rp_serial rp) \<in> {1..20}" "length (ip_serial ip) \<in> {1..20}" "length (np_serial np) \<in> {1..20}"
    and "ip_issuer ip = [RcacId (rp_rcac_id rp)]" "ip_issuer_skid ip = skid_from_spki sha1 (rp_public_key rp)"
    and "np_issuer np = [IcacId (ip_icac_id ip)]"
    and "within t (ip_not_before ip) (ip_not_after ip)" "within t (np_not_before np) (np_not_after np)"
  shows "\<exists>root ica leaf. issues oid_der key_accepted sign (rcac sha1 rp) root_key root \<and>
    issues oid_der key_accepted sign (icac sha1 ip) root_key ica \<and>
    issues oid_der key_accepted sign (noc sha1 np) ica_key leaf \<and>
    validate oid_der ecdsa [leaf, ica] [from_root_cert root] t = Inr ()"
proof -
  have len: "rp_serial rp \<noteq> []" "length (rp_serial rp) \<le> 20" "ip_serial ip \<noteq> []" "length (ip_serial ip) \<le> 20"
    "np_serial np \<noteq> []" "length (np_serial np) \<le> 20" using assms(3-5) by auto
  have enc: "list_all encodable (ip_issuer ip)" "list_all encodable (np_issuer np)" using assms(6,8) by (simp_all add: encodable_def)
  obtain u0 where u0: "rcac sha1 rp = Inr u0" "uns_serial u0 \<noteq> []" "list_all encodable (uns_issuer u0)" "list_all encodable (uns_subject u0)"
    "uns_subject u0 = [RcacId (rp_rcac_id rp)]" "uns_public_key u0 = rp_public_key rp"
    "ex_subject_key_identifier (uns_extensions u0) = Some (skid_from_spki sha1 (rp_public_key rp))"
    using rcac_unsigned [OF len(1,2)] by blast
  from icac_unsigned [OF len(3,4) enc(1)] obtain u1 where u1: "icac sha1 ip = Inr u1" "uns_serial u1 \<noteq> []"
    "list_all encodable (uns_issuer u1)" "list_all encodable (uns_subject u1)"
    "uns_subject u1 = [IcacId (ip_icac_id ip)]" "uns_issuer u1 = ip_issuer ip" "uns_public_key u1 = ip_public_key ip"
    "uns_not_before u1 = ip_not_before ip" "uns_not_after u1 = ip_not_after ip"
    "ex_authority_key_identifier (uns_extensions u1) = Some (ip_issuer_skid ip)" "\<And>s. authority 0 (assemble u1 s)" by metis
  from noc_unsigned [OF len(5,6) enc(2)] obtain u2 where u2: "noc sha1 np = Inr u2" "uns_serial u2 \<noteq> []"
    "list_all encodable (uns_issuer u2)" "list_all encodable (uns_subject u2)" "uns_issuer u2 = np_issuer np"
    "uns_not_before u2 = np_not_before np" "uns_not_after u2 = np_not_after np" "\<And>s. \<not> asserts_ca (assemble u2 s)" by metis
  obtain root s0 where root: "sign_with_ring oid_der key_accepted sign u0 root_key = Inr root" "root = assemble u0 s0"
    using sign_signed [OF assms(1) u0(2-4), of oid_der] by blast
  obtain ica s1 where ica: "sign_with_ring oid_der key_accepted sign u1 root_key = Inr ica" "ica = assemble u1 s1"
    "signed_by oid_der ecdsa ica (rp_public_key rp)" using sign_signed [OF assms(1) u1(2-4), of oid_der] by blast
  obtain leaf s2 where leaf: "sign_with_ring oid_der key_accepted sign u2 ica_key = Inr leaf" "leaf = assemble u2 s2"
    "signed_by oid_der ecdsa leaf (ip_public_key ip)" using sign_signed [OF assms(2) u2(2-4), of oid_der] by blast
  have "validate oid_der ecdsa [leaf, ica] [from_root_cert root] t = Inr ()"
    by (rule two_certificates_accepted [where a = "from_root_cert root"])
      (use u0(5-7) u1(5-11) u2(5-8) ica(2,3) leaf(2,3) root(2) assms(6-10) in
        \<open>simp_all add: current_def within_def anchors_def from_root_cert_def assemble_def\<close>)
  with root(1) ica(1) leaf(1) u0(1) u1(1) u2(1) show ?thesis unfolding issues_def by (metis try_bind_simps(2))
qed

section \<open>Examples\<close>

text \<open>
  A signer whose signature shows the key and the message, and a chain of a node certificate and an intermediate
  authority, each signed by the next key.
\<close>

definition stamp :: "bytes \<Rightarrow> bytes \<Rightarrow> bytes" where
  "stamp key m = take 64 (take 32 key @ m @ replicate 64 0)"

definition stamped :: "bytes \<Rightarrow> bytes \<Rightarrow> bytes \<Rightarrow> bool" where
  "stamped key m s \<longleftrightarrow> s = stamp key m"

definition sealed :: "bytes \<Rightarrow> matter_certificate \<Rightarrow> matter_certificate" where
  "sealed key c = c\<lparr>crt_signature := (case to_x509_tbs_der sample_oid_der c of Inl _ \<Rightarrow> [] | Inr m \<Rightarrow> stamp key m)\<rparr>"

definition sample_root_key :: bytes where "sample_root_key = 4 # replicate 64 3"

definition sample_ica_key :: bytes where "sample_ica_key = 4 # replicate 64 5"

definition sample_ica :: matter_certificate where
  "sample_ica = sealed sample_root_key (sample_signed\<lparr>crt_subject := [IcacId 2], crt_public_key := sample_ica_key,
     crt_extensions := (crt_extensions sample_signed)\<lparr>ex_basic_constraints := Some \<lparr>bc_is_ca = True, bc_path_len = None\<rparr>,
       ex_key_usage := Some KEY_CERT_SIGN\<rparr>\<rparr>)"

definition sample_leaf :: matter_certificate where
  "sample_leaf = sealed sample_ica_key (sample_signed\<lparr>crt_issuer := [IcacId 2]\<rparr>)"

definition sample_issued :: "bytes \<Rightarrow> matter_certificate set" where
  "sample_issued key = (if key = sample_root_key then {sample_ica} else if key = sample_ica_key then {sample_leaf} else {})"

definition sample_anchor :: cert_anchor where
  "sample_anchor = \<lparr>anc_subject = [RcacId 1], anc_public_key = sample_root_key, anc_subject_key_identifier = None\<rparr>"

lemmas sample_key_defs = sample_root_key_def sample_ica_key_def

lemma stamp_key: "length key = 65 \<Longrightarrow> take 32 (stamp key m) = take 32 key"
  by (simp add: stamp_def min_def)

lemma stamp_pair: "length key = 65 \<Longrightarrow> key_pair (\<lambda>_. True) (\<lambda>k m. Some (stamp k m)) stamped key key"
  by (auto simp: key_pair_def stamped_def stamp_def min_def)

lemma sealed_tbs: "to_x509_tbs_der sample_oid_der (sealed key c) = to_x509_tbs_der sample_oid_der c"
  unfolding tbs_written by (subst (1 2) tbs_signed_part [symmetric]) (simp add: sealed_def signed_part_def)

lemma sealed_signed:
  "\<exists>m. to_x509_tbs_der sample_oid_der c = Inr m \<Longrightarrow> signed_by sample_oid_der stamped (sealed key c) key"
  unfolding signed_by_def sealed_tbs by (auto simp: stamped_def sealed_def)

lemma sealed_stamped:
  assumes "length key = 65" "length key' = 65" "to_x509_tbs_der sample_oid_der (sealed key c) = Inr m"
    "stamped key' m (crt_signature (sealed key c))"
  shows "take 32 key' = take 32 key"
  using assms(3,4) stamp_key [OF assms(1), of m] stamp_key [OF assms(2), of m]
  unfolding sealed_tbs by (simp add: stamped_def sealed_def)

lemma sample_key_unique:
  assumes "to_x509_tbs_der sample_oid_der (sealed key c) = Inr m" "stamped key' m (crt_signature (sealed key c))"
    "key \<in> {sample_root_key, sample_ica_key}" "key' \<in> {sample_root_key, sample_ica_key}"
  shows "key' = key"
proof -
  have "take 32 key' = take 32 key"
    using assms(3,4) by (intro sealed_stamped [OF _ _ assms(1,2)]) (auto simp: sample_key_defs)
  with assms(3,4) show ?thesis by (auto simp: sample_key_defs)
qed

lemma sample_unforged:
  "unforged sample_oid_der stamped {sample_root_key, sample_ica_key} sample_issued [sample_leaf, sample_ica]"
  unfolding unforged_def
proof (intro ballI allI impI)
  fix c key m
  assume c: "c \<in> set [sample_leaf, sample_ica]" and key: "key \<in> {sample_root_key, sample_ica_key}"
    and m: "to_x509_tbs_der sample_oid_der c = Inr m" "stamped key m (crt_signature c)"
  from c consider "c = sample_leaf" | "c = sample_ica" by auto
  then have "c \<in> sample_issued key"
  proof cases
    case 1
    have "key = sample_ica_key" by (rule sample_key_unique [OF m [unfolded 1 sample_leaf_def] _ key]) simp
    then show ?thesis unfolding 1 by (simp add: sample_issued_def sample_key_defs)
  next
    case 2
    have "key = sample_root_key" by (rule sample_key_unique [OF m [unfolded 2 sample_ica_def] _ key]) simp
    then show ?thesis unfolding 2 by (simp add: sample_issued_def)
  qed
  with m(1) show "\<exists>c' \<in> sample_issued key. to_x509_tbs_der sample_oid_der c' = Inr m" by blast
qed

lemma sample_delegates: "delegates {sample_root_key, sample_ica_key} sample_issued"
proof -
  have "\<not> asserts_ca sample_leaf" "crt_public_key sample_ica = sample_ica_key"
    by (simp_all add: sample_leaf_def sample_ica_def sealed_def sample_signed_def sample_cert_def asserts_ca_def)
  then show ?thesis by (auto simp: delegates_def sample_issued_def split: if_splits)
qed

lemma sample_chain_tbs:
  "\<exists>m. to_x509_tbs_der sample_oid_der sample_leaf = Inr m \<and> length m < 2 ^ 64"
  "\<exists>m. to_x509_tbs_der sample_oid_der sample_ica = Inr m \<and> length m < 2 ^ 64"
proof -
  have ku: "length (key_usage_bits DIGITAL_SIGNATURE) = 2" "length (key_usage_bits KEY_CERT_SIGN) = 2" by code_simp+
  note sizes = serial_ref_def serial_content_def dn_ref_def attr_ref_def le_less_trans [OF length_der_le] length_der_short
    sample_oids sample_sizes sample_signed_def sample_cert_def
  show "\<exists>m. to_x509_tbs_der sample_oid_der sample_leaf = Inr m \<and> length m < 2 ^ 64"
    using sample_extension_sizes [OF ku(1), of "replicate 20 1" False]
    unfolding sample_leaf_def sealed_tbs unfolding tbs_written tbs_ref_def by (simp add: sizes)
  show "\<exists>m. to_x509_tbs_der sample_oid_der sample_ica = Inr m \<and> length m < 2 ^ 64"
    using sample_extension_sizes [OF ku(2), of "replicate 20 1" True]
    unfolding sample_ica_def sealed_tbs unfolding tbs_written tbs_ref_def by (simp add: sizes sample_ica_key_def)
qed

lemma sample_chain_representable: "representable sample_oid_der [sample_leaf, sample_ica]"
  using sample_chain_tbs by (force simp: representable_def)

lemma sample_chain_accepted: "validate sample_oid_der stamped [sample_leaf, sample_ica] [sample_anchor] 2000 = Inr ()"
proof (rule two_certificates_accepted)
  have "signed_by sample_oid_der stamped sample_leaf sample_ica_key" "signed_by sample_oid_der stamped sample_ica sample_root_key"
    using sample_chain_tbs unfolding sample_leaf_def sample_ica_def sealed_tbs by (auto intro!: sealed_signed)
  then show "signed_by sample_oid_der stamped sample_leaf (crt_public_key sample_ica)"
    "anchors sample_oid_der stamped sample_anchor sample_ica"
    by (simp_all add: anchors_def sample_anchor_def)
      (simp_all add: sample_ica_def sealed_def sample_signed_def sample_cert_def)
qed (simp_all add: sample_leaf_def sample_ica_def sealed_def sample_signed_def sample_cert_def sample_anchor_def current_def
    asserts_ca_def authority_def asserts_key_cert_sign_def path_len_of_def)

theorem chain_certificates_issued_witness:
  "key_pair (\<lambda>_. True) (\<lambda>k m. Some (stamp k m)) stamped sample_root_key sample_root_key \<and>
   key_pair (\<lambda>_. True) (\<lambda>k m. Some (stamp k m)) stamped sample_ica_key sample_ica_key \<and>
   unforged sample_oid_der stamped {sample_root_key, sample_ica_key} sample_issued [sample_leaf, sample_ica] \<and>
   validate sample_oid_der stamped [sample_leaf, sample_ica] [sample_anchor] 2000 = Inr () \<and>
   (\<exists>c \<in> sample_issued sample_ica_key. signed_part sample_leaf = signed_part c) \<and>
   (\<exists>c \<in> sample_issued sample_root_key. signed_part sample_ica = signed_part c)"
proof -
  have roots: "anc_public_key ` set [sample_anchor] \<subseteq> {sample_root_key, sample_ica_key}" by (simp add: sample_anchor_def)
  have "crt_public_key sample_ica = sample_ica_key" by (simp add: sample_ica_def sealed_def)
  moreover note chain_certificates_issued [OF sample_oid_encoding sample_chain_representable sample_unforged roots
      sample_delegates sample_chain_accepted]
  moreover have "length sample_root_key = 65" "length sample_ica_key = 65" by (simp_all add: sample_key_defs)
  ultimately show ?thesis
    using stamp_pair sample_unforged sample_chain_accepted by (auto simp: sample_anchor_def)
qed

definition sample_sign :: "bytes \<Rightarrow> bytes \<Rightarrow> bytes option" where
  "sample_sign private message = Some (take 64 (private @ replicate 64 0))"

definition sample_ecdsa :: "bytes \<Rightarrow> bytes \<Rightarrow> bytes \<Rightarrow> bool" where
  "sample_ecdsa public message signature \<longleftrightarrow> signature = take 64 (public @ replicate 64 0)"

definition sample_rcac :: rcac_params where
  "sample_rcac = \<lparr>rp_rcac_id = 1, rp_public_key = 4 # replicate 64 1, rp_serial = [1], rp_not_before = 0, rp_not_after = NO_EXPIRY,
     rp_path_len = None\<rparr>"

definition sample_icac :: icac_params where
  "sample_icac = \<lparr>ip_icac_id = 2, ip_issuer = [RcacId 1], ip_issuer_skid = replicate 20 5, ip_public_key = 4 # replicate 64 2,
     ip_serial = [2], ip_not_before = 1000, ip_not_after = 5000\<rparr>"

definition sample_noc :: noc_params where
  "sample_noc = \<lparr>np_fabric_id = 7, np_node_id = 42, np_case_authenticated_tags = [], np_issuer = [IcacId 2],
     np_issuer_skid = replicate 20 5, np_public_key = 4 # replicate 64 3, np_serial = [3], np_not_before = 1000, np_not_after = NO_EXPIRY\<rparr>"

theorem issued_chain_accepted_witness:
  "\<exists>root ica leaf.
    issues sample_oid_der (\<lambda>_. True) sample_sign (rcac (\<lambda>_. replicate 20 5) sample_rcac) (rp_public_key sample_rcac) root \<and>
    issues sample_oid_der (\<lambda>_. True) sample_sign (icac (\<lambda>_. replicate 20 5) sample_icac) (rp_public_key sample_rcac) ica \<and>
    issues sample_oid_der (\<lambda>_. True) sample_sign (noc (\<lambda>_. replicate 20 5) sample_noc) (ip_public_key sample_icac) leaf \<and>
    validate sample_oid_der sample_ecdsa [leaf, ica] [from_root_cert root] 2000 = Inr ()"
  by (rule issued_chain_accepted)
    (simp_all add: key_pair_def sample_sign_def sample_ecdsa_def sample_rcac_def sample_icac_def sample_noc_def within_def
      skid_from_spki_def NO_EXPIRY_def)

end
