(* ===== verification/Commissioning_Clusters.thy ===== *)
theory Commissioning_Clusters
  imports Certificates
begin

text \<open>
  The vocabulary of the commissioning state machine (\<open>state_machine/stage.rs\<close>, \<open>action.rs\<close>,
  \<open>error.rs\<close>, \<open>noc/error.rs\<close> of \<open>crates/matter-commissioning/src\<close>) and the codecs of the cluster
  commands it sends and receives: \<open>clusters/general_commissioning.rs\<close>,
  \<open>clusters/network_commissioning.rs\<close>, \<open>noc/commands.rs\<close>, the certificate signing request of
  \<open>noc/csr.rs\<close>, and Thread datasets (\<open>thread_dataset.rs\<close>).

  The decoders are loops over a reader like those of the interaction model and are written
  with the same \<open>scan\<close>; what a decoder reports on failure is the source's error of it.
\<close>

section \<open>Stages, expectations and errors\<close>

datatype stage =
    SecurePairing | ReadCommissioningInfo | ArmFailsafe | ConfigRegulatory
  | SendPaiCertRequest | SendDacCertRequest | SendAttestationRequest | AttestationVerification
  | SendOpCertSigningRequest | ValidateCsr | GenerateNocChain | SendTrustedRootCert | SendNoc
  | ReadNetworkCommissioningInfo | NetworkSetup | FailsafeBeforeNetworkEnable | NetworkEnable
  | EvictPreviousCaseSessions | FindOperationalForComplete | SendComplete | Cleanup | Failed

fun next_stage :: "stage \<Rightarrow> stage option" where
  "next_stage SecurePairing = Some ReadCommissioningInfo"
| "next_stage ReadCommissioningInfo = Some ArmFailsafe"
| "next_stage ArmFailsafe = Some ConfigRegulatory"
| "next_stage ConfigRegulatory = Some SendPaiCertRequest"
| "next_stage SendPaiCertRequest = Some SendDacCertRequest"
| "next_stage SendDacCertRequest = Some SendAttestationRequest"
| "next_stage SendAttestationRequest = Some AttestationVerification"
| "next_stage AttestationVerification = Some SendOpCertSigningRequest"
| "next_stage SendOpCertSigningRequest = Some ValidateCsr"
| "next_stage ValidateCsr = Some GenerateNocChain"
| "next_stage GenerateNocChain = Some SendTrustedRootCert"
| "next_stage SendTrustedRootCert = Some SendNoc"
| "next_stage SendNoc = Some ReadNetworkCommissioningInfo"
| "next_stage ReadNetworkCommissioningInfo = Some NetworkSetup"
| "next_stage NetworkSetup = Some FailsafeBeforeNetworkEnable"
| "next_stage FailsafeBeforeNetworkEnable = Some NetworkEnable"
| "next_stage NetworkEnable = Some EvictPreviousCaseSessions"
| "next_stage EvictPreviousCaseSessions = Some FindOperationalForComplete"
| "next_stage FindOperationalForComplete = Some SendComplete"
| "next_stage SendComplete = Some Cleanup"
| "next_stage Cleanup = None"
| "next_stage Failed = None"

datatype expectation =
    CommissioningInfo | ArmFailsafeResponse | SetRegulatoryConfigResponse
  | PaiCertChainResponse | DacCertChainResponse | AttestationResponse | CsrResponse
  | AddTrustedRootResponse | NocResponse | CommissioningCompleteResponse
  | NetworkCommissioningInfo | NetworkConfigResponse | ConnectNetworkResponse | CaseFailed

text \<open>The boxed cause of \<open>NocError::NocsrParse\<close> is a codec error or a message: an \<open>im_error\<close>.\<close>

datatype signer_error = SignerUnavailable | SignerRejected string | SignerInternal

datatype noc_error =
    NocsrParse im_error
  | CsrParse string
  | BadCsrSelfSignature
  | NonceMismatch
  | BadCsrAttestationSignature
  | InvalidCsrPublicKey
  | DnAttributeOverflow
  | CertBuild cert_error
  | SigningFailed signer_error
  | Rng
  | ClusterCodec tlv_error
  | NocMalformedResponse string

datatype network_kind = WiFi | Thread | Ethernet

datatype remediation_hint =
    CheckPassphrase | CheckSsid | CheckRegulatoryRegion | UpgradeSecurityMode
  | DeviceNetworkSlotsFull | DeviceIpStackFailure | NoHint

datatype commissioning_error =
    InvalidConfig string
  | UnexpectedResponseKind expectation expectation
  | OutOfOrderResponse stage
  | DeviceImStatus stage u16
  | MalformedResponse stage
  | Attestation attestation_error
  | Noc noc_error
  | CaseEstablishmentFailed
  | NetworkFeatureUnsupported network_kind
  | NetworkRejected stage u8 "bytes option" remediation_hint

section \<open>Shared helpers\<close>

text \<open>
  \<open>String::is_char_boundary\<close>: the ends, and every byte that does not continue a character. The
  loop of \<open>truncate_utf8\<close> moves down to the nearest one.
\<close>

definition is_char_boundary :: "bytes \<Rightarrow> nat \<Rightarrow> bool" where
  "is_char_boundary s i \<longleftrightarrow> i = 0 \<or> i = length s \<or> i < length s \<and> \<not> utf8_cont (s ! i)"

fun floor_boundary :: "bytes \<Rightarrow> nat \<Rightarrow> nat" where
  "floor_boundary s 0 = 0"
| "floor_boundary s (Suc n) = (if is_char_boundary s (Suc n) then Suc n else floor_boundary s n)"

definition truncate_utf8 :: "bytes \<Rightarrow> nat \<Rightarrow> bytes" where
  "truncate_utf8 s max_bytes =
     (if length s \<le> max_bytes then s else take (floor_boundary s max_bytes) s)"

definition DEBUG_TEXT_MAX :: nat where "DEBUG_TEXT_MAX = 512"

section \<open>General commissioning\<close>

definition GC_CLUSTER_ID :: u32 where "GC_CLUSTER_ID = 0x30"
definition ARM_FAIL_SAFE :: u32 where "ARM_FAIL_SAFE = 0x00"
definition SET_REGULATORY_CONFIG :: u32 where "SET_REGULATORY_CONFIG = 0x02"
definition COMMISSIONING_COMPLETE :: u32 where "COMMISSIONING_COMPLETE = 0x04"

datatype regulatory_location = Indoor | Outdoor | IndoorOutdoor

definition regulatory_code :: "regulatory_location \<Rightarrow> u8" where
  "regulatory_code l = (case l of Indoor \<Rightarrow> 0 | Outdoor \<Rightarrow> 1 | IndoorOutdoor \<Rightarrow> 2)"

text \<open>The encoders unwrap every write to a vector, which cannot fail; \<open>None\<close> would be the panic.\<close>

definition encode_arm_fail_safe :: "u16 \<Rightarrow> u64 \<Rightarrow> bytes option" where
  "encode_arm_fail_safe expiry_length_seconds breadcrumb = written
     [start_structure Anonymous,
      put_uint (Context 0) (ucast expiry_length_seconds),
      put_uint (Context 1) breadcrumb,
      end_container]"

definition encode_set_regulatory_config :: "regulatory_location \<Rightarrow> bytes \<Rightarrow> u64 \<Rightarrow> bytes option" where
  "encode_set_regulatory_config new_config country_code breadcrumb = written
     [start_structure Anonymous,
      put_uint (Context 0) (ucast (regulatory_code new_config)),
      put_utf8 (Context 1) country_code,
      put_uint (Context 2) breadcrumb,
      end_container]"

definition encode_commissioning_complete :: "bytes option" where
  "encode_commissioning_complete = written [start_structure Anonymous, end_container]"

type_synonym status_acc = "u8 option \<times> bytes option"

definition error_response_step :: "tlv_element \<Rightarrow> status_acc \<Rightarrow> (status_acc, status_acc) flow im" where
  "error_response_step e acc = (case acc of (error_code, debug_text) \<Rightarrow>
     if e = ContainerEnd then ok (Done acc)
     else (case uint_at 0 e of
       Some v \<Rightarrow> if error_code \<noteq> None then err rejected
         else andthen (need rejected (try_u8 v)) (\<lambda>n. ok (Again (Some n, debug_text)))
     | None \<Rightarrow> (case utf8_at 1 e of
       Some s \<Rightarrow> if debug_text \<noteq> None then err rejected
         else ok (Again (error_code, Some (truncate_utf8 s DEBUG_TEXT_MAX)))
     | None \<Rightarrow> otherwise e acc)))"

definition error_response_parser :: "(u8 \<times> bytes option) im" where
  "error_response_parser =
     andthen (scan rejected error_response_step (None, None)) (\<lambda>(error_code, debug_text).
     andthen finish_im (\<lambda>_.
     andthen (need rejected error_code) (\<lambda>n. ok (n, debug_text))))"

definition decode_commissioning_error_response :: "stage \<Rightarrow> bytes \<Rightarrow> commissioning_error + u8 \<times> bytes option" where
  "decode_commissioning_error_response st tlv =
     map_err (\<lambda>_. MalformedResponse st) (parse_with error_response_parser tlv)"

record arm_fail_safe_response =
  afr_error_code :: u8
  afr_debug_text :: "bytes option"

record set_regulatory_config_response =
  src_error_code :: u8
  src_debug_text :: "bytes option"

definition decode_arm_fail_safe_response :: "bytes \<Rightarrow> commissioning_error + arm_fail_safe_response" where
  "decode_arm_fail_safe_response tlv =
     try_bind (decode_commissioning_error_response ArmFailsafe tlv) (\<lambda>(error_code, debug_text).
       Inr \<lparr>afr_error_code = error_code, afr_debug_text = debug_text\<rparr>)"

definition decode_set_regulatory_config_response :: "bytes \<Rightarrow> commissioning_error + set_regulatory_config_response" where
  "decode_set_regulatory_config_response tlv =
     try_bind (decode_commissioning_error_response ConfigRegulatory tlv) (\<lambda>(error_code, debug_text).
       Inr \<lparr>src_error_code = error_code, src_debug_text = debug_text\<rparr>)"

record basic_commissioning_info =
  bci_failsafe_expiry_length_seconds :: u16
  bci_max_cumulative_failsafe_seconds :: u16

definition basic_info_step :: "tlv_element \<Rightarrow> u16 option \<times> u16 \<Rightarrow> (u16 option \<times> u16, u16 option \<times> u16) flow im" where
  "basic_info_step e acc = (case acc of (failsafe, max_cumulative) \<Rightarrow>
     if e = ContainerEnd then ok (Done acc)
     else (case uint_at 0 e of
       Some v \<Rightarrow> ok (Again (try_u16 v, max_cumulative))
     | None \<Rightarrow> (case uint_at 1 e of
       Some v \<Rightarrow> ok (Again (failsafe, case try_u16 v of Some n \<Rightarrow> n | None \<Rightarrow> max_cumulative))
     | None \<Rightarrow> otherwise e acc)))"

definition basic_info_parser :: "basic_commissioning_info im" where
  "basic_info_parser =
     andthen (scan rejected basic_info_step (None, 0)) (\<lambda>(failsafe, max_cumulative).
     andthen finish_im (\<lambda>_.
     andthen (need rejected failsafe) (\<lambda>fs.
       ok \<lparr>bci_failsafe_expiry_length_seconds = fs, bci_max_cumulative_failsafe_seconds = max_cumulative\<rparr>)))"

definition decode_basic_commissioning_info :: "bytes \<Rightarrow> basic_commissioning_info option" where
  "decode_basic_commissioning_info tlv =
     (case parse_with basic_info_parser tlv of Inr info \<Rightarrow> Some info | Inl _ \<Rightarrow> None)"

section \<open>Network commissioning\<close>

definition NC_CLUSTER_ID :: u32 where "NC_CLUSTER_ID = 0x31"
definition ADD_OR_UPDATE_WIFI_NETWORK :: u32 where "ADD_OR_UPDATE_WIFI_NETWORK = 0x02"
definition ADD_OR_UPDATE_THREAD_NETWORK :: u32 where "ADD_OR_UPDATE_THREAD_NETWORK = 0x03"
definition CONNECT_NETWORK :: u32 where "CONNECT_NETWORK = 0x06"
definition FEATURE_MAP :: u32 where "FEATURE_MAP = 0xFFFC"
definition CONNECT_MAX_TIME_SECONDS :: u32 where "CONNECT_MAX_TIME_SECONDS = 0x0003"

definition FEATURE_WIFI :: u32 where "FEATURE_WIFI = 1"
definition FEATURE_THREAD :: u32 where "FEATURE_THREAD = 2"
definition FEATURE_ETHERNET :: u32 where "FEATURE_ETHERNET = 4"

text \<open>\<open>from_bits_truncate\<close> and \<open>contains\<close> of the bitflags type.\<close>

definition features_truncate :: "u32 \<Rightarrow> u32" where
  "features_truncate bits = bits AND (FEATURE_WIFI OR FEATURE_THREAD OR FEATURE_ETHERNET)"

definition features_contain :: "u32 \<Rightarrow> u32 \<Rightarrow> bool" where
  "features_contain features flag \<longleftrightarrow> features AND flag = flag"

definition encode_add_or_update_wifi_network :: "bytes \<Rightarrow> bytes \<Rightarrow> u64 \<Rightarrow> bytes option" where
  "encode_add_or_update_wifi_network ssid credentials breadcrumb = written
     [start_structure Anonymous,
      put_bytes (Context 0) ssid,
      put_bytes (Context 1) credentials,
      put_uint (Context 2) breadcrumb,
      end_container]"

definition encode_add_or_update_thread_network :: "bytes \<Rightarrow> u64 \<Rightarrow> bytes option" where
  "encode_add_or_update_thread_network operational_dataset breadcrumb = written
     [start_structure Anonymous,
      put_bytes (Context 0) operational_dataset,
      put_uint (Context 1) breadcrumb,
      end_container]"

definition encode_connect_network :: "bytes \<Rightarrow> u64 \<Rightarrow> bytes option" where
  "encode_connect_network network_id breadcrumb = written
     [start_structure Anonymous,
      put_bytes (Context 0) network_id,
      put_uint (Context 1) breadcrumb,
      end_container]"

definition decode_feature_map :: "bytes \<Rightarrow> commissioning_error + u32" where
  "decode_feature_map tlv = (case fst (reader_next (reader_new tlv)) of
     Inr (Some (Scalar _ (VUint raw))) \<Rightarrow>
       (case try_u32 raw of
          Some bits \<Rightarrow> Inr (features_truncate bits)
        | None \<Rightarrow> Inl (MalformedResponse ReadNetworkCommissioningInfo))
   | _ \<Rightarrow> Inl (MalformedResponse ReadNetworkCommissioningInfo))"

definition decode_connect_max_time_seconds :: "bytes \<Rightarrow> commissioning_error + u16" where
  "decode_connect_max_time_seconds tlv = (case fst (reader_next (reader_new tlv)) of
     Inr (Some (Scalar _ (VUint raw))) \<Rightarrow> Inr (case try_u16 raw of Some n \<Rightarrow> n | None \<Rightarrow> 0xFFFF)
   | _ \<Rightarrow> Inl (MalformedResponse ReadNetworkCommissioningInfo))"

record network_config_response =
  ncr_networking_status :: u8
  ncr_debug_text :: "bytes option"

record connect_network_response =
  cnr_networking_status :: u8
  cnr_debug_text :: "bytes option"
  cnr_error_value :: "int option"

definition int_at :: "u8 \<Rightarrow> tlv_element \<Rightarrow> u64 option" where
  "int_at c e = (case scalar_at c e of Some (VInt v) \<Rightarrow> Some v | _ \<Rightarrow> None)"

text \<open>\<open>i32::try_from\<close> of a signed value.\<close>

definition try_i32 :: "u64 \<Rightarrow> int option" where
  "try_i32 v = (if - (2 ^ 31) \<le> sint v \<and> sint v < 2 ^ 31 then Some (sint v) else None)"

definition network_config_parser :: "network_config_response im" where
  "network_config_parser =
     andthen (scan rejected error_response_step (None, None)) (\<lambda>(networking_status, debug_text).
     andthen finish_im (\<lambda>_.
     andthen (need rejected networking_status) (\<lambda>n.
       ok \<lparr>ncr_networking_status = n, ncr_debug_text = debug_text\<rparr>)))"

definition decode_network_config_response :: "stage \<Rightarrow> bytes \<Rightarrow> commissioning_error + network_config_response" where
  "decode_network_config_response st tlv =
     map_err (\<lambda>_. MalformedResponse st) (parse_with network_config_parser tlv)"

type_synonym connect_acc = "u8 option \<times> bytes option \<times> int option"

definition connect_network_step :: "tlv_element \<Rightarrow> connect_acc \<Rightarrow> (connect_acc, connect_acc) flow im" where
  "connect_network_step e acc = (case acc of (networking_status, debug_text, error_value) \<Rightarrow>
     if e = ContainerEnd then ok (Done acc)
     else (case uint_at 0 e of
       Some v \<Rightarrow> if networking_status \<noteq> None then err rejected
         else andthen (need rejected (try_u8 v)) (\<lambda>n. ok (Again (Some n, debug_text, error_value)))
     | None \<Rightarrow> (case utf8_at 1 e of
       Some s \<Rightarrow> if debug_text \<noteq> None then err rejected
         else ok (Again (networking_status, Some (truncate_utf8 s DEBUG_TEXT_MAX), error_value))
     | None \<Rightarrow> (case int_at 2 e of
       Some v \<Rightarrow> if error_value \<noteq> None then err rejected
         else andthen (need rejected (try_i32 v)) (\<lambda>n. ok (Again (networking_status, debug_text, Some n)))
     | None \<Rightarrow> otherwise e acc))))"

definition connect_network_parser :: "connect_network_response im" where
  "connect_network_parser =
     andthen (scan rejected connect_network_step (None, None, None)) (\<lambda>(networking_status, debug_text, error_value).
     andthen finish_im (\<lambda>_.
     andthen (need rejected networking_status) (\<lambda>n.
       ok \<lparr>cnr_networking_status = n, cnr_debug_text = debug_text, cnr_error_value = error_value\<rparr>)))"

definition decode_connect_network_response :: "stage \<Rightarrow> bytes \<Rightarrow> commissioning_error + connect_network_response" where
  "decode_connect_network_response st tlv =
     map_err (\<lambda>_. MalformedResponse st) (parse_with connect_network_parser tlv)"

definition remediation_for :: "u8 \<Rightarrow> remediation_hint" where
  "remediation_for networking_status =
     (if networking_status = 2 then DeviceNetworkSlotsFull
      else if networking_status = 3 \<or> networking_status = 5 then CheckSsid
      else if networking_status = 6 then CheckRegulatoryRegion
      else if networking_status = 7 then CheckPassphrase
      else if networking_status = 8 then UpgradeSecurityMode
      else if networking_status = 10 \<or> networking_status = 11 then DeviceIpStackFailure
      else NoHint)"

section \<open>Thread datasets\<close>

definition MAX_DATASET_LEN :: nat where "MAX_DATASET_LEN = 254"
definition EXT_PAN_ID_TYPE :: u8 where "EXT_PAN_ID_TYPE = 0x02"
definition EXT_PAN_ID_LEN :: nat where "EXT_PAN_ID_LEN = 8"

datatype thread_dataset_error = DatasetEmpty | DatasetTooLarge nat | DatasetMalformed | NoExtPanId

record thread_dataset =
  td_bytes :: bytes
  td_ext_pan_id :: bytes

text \<open>The loop over the elements; \<open>rest\<close> is what lies behind the offset of the source.\<close>

function dataset_walk :: "bytes \<Rightarrow> bytes option \<Rightarrow> thread_dataset_error + bytes option" where
  "dataset_walk rest ext_pan_id = (case rest of
     [] \<Rightarrow> Inr ext_pan_id
   | [_] \<Rightarrow> Inl DatasetMalformed
   | tlv_type # tlv_len # body \<Rightarrow>
       if unat tlv_len > length body then Inl DatasetMalformed
       else dataset_walk (drop (unat tlv_len) body)
         (if tlv_type = EXT_PAN_ID_TYPE \<and> unat tlv_len = EXT_PAN_ID_LEN
          then Some (take (unat tlv_len) body) else ext_pan_id))"
  by pat_completeness auto

termination
  by (relation "measure (\<lambda>(rest, _). length rest)") auto

declare dataset_walk.simps [simp del]

definition thread_dataset_new :: "bytes \<Rightarrow> thread_dataset_error + thread_dataset" where
  "thread_dataset_new bs =
     (if bs = [] then Inl DatasetEmpty
      else if length bs > MAX_DATASET_LEN then Inl (DatasetTooLarge (length bs))
      else try_bind (dataset_walk bs None) (\<lambda>ext_pan_id. case ext_pan_id of
             Some x \<Rightarrow> Inr \<lparr>td_bytes = bs, td_ext_pan_id = x\<rparr>
           | None \<Rightarrow> Inl NoExtPanId))"

section \<open>Operational credentials\<close>

text \<open>\<open>NocError\<close> of a failed parse: a codec error, or the message of a structural one.\<close>

definition noc_codec_error :: "string \<Rightarrow> im_error \<Rightarrow> noc_error" where
  "noc_codec_error message e = (case e of
     Codec c \<Rightarrow> ClusterCodec c
   | UnexpectedValue s \<Rightarrow> NocMalformedResponse s
   | _ \<Rightarrow> NocMalformedResponse (message @ '': expected an anonymous structure''))"

definition encode_attestation_request :: "bytes \<Rightarrow> bytes option" where
  "encode_attestation_request nonce = written
     [start_structure Anonymous, put_bytes (Context 0) nonce, end_container]"

text \<open>Two octet strings, the second of 64 bytes: the attestation and the CSR response.\<close>

type_synonym signed_acc = "bytes option \<times> bytes option"

definition signed_elements_step :: "string \<Rightarrow> string \<Rightarrow> string \<Rightarrow> tlv_element \<Rightarrow> signed_acc \<Rightarrow> (signed_acc, signed_acc) flow im" where
  "signed_elements_step message elements_name signature_name e acc = (case acc of (elements, sig) \<Rightarrow>
     if e = ContainerEnd then ok (Done acc)
     else (case bytes_at 0 e of
       Some b \<Rightarrow> if elements \<noteq> None
         then err (UnexpectedValue (message @ '': duplicate '' @ elements_name @ '' field''))
         else ok (Again (Some b, sig))
     | None \<Rightarrow> (case bytes_at 1 e of
       Some b \<Rightarrow> if sig \<noteq> None
         then err (UnexpectedValue (message @ '': duplicate '' @ signature_name @ '' field''))
         else andthen (need (UnexpectedValue (message @ '': '' @ signature_name @ '' is not exactly 64 bytes'')) (try_array 64 b))
                (\<lambda>a. ok (Again (elements, Some a)))
     | None \<Rightarrow> otherwise e acc)))"

definition signed_elements_parser :: "string \<Rightarrow> string \<Rightarrow> string \<Rightarrow> (bytes \<times> bytes) im" where
  "signed_elements_parser message elements_name signature_name =
     andthen (scan unclosed (signed_elements_step message elements_name signature_name) (None, None)) (\<lambda>(elements, sig).
     andthen finish_im (\<lambda>_.
     andthen (need (UnexpectedValue (message @ '': missing '' @ elements_name @ '' field'')) elements) (\<lambda>x.
     andthen (need (UnexpectedValue (message @ '': missing '' @ signature_name @ '' field'')) sig) (\<lambda>s.
       ok (x, s)))))"

definition decode_attestation_response :: "bytes \<Rightarrow> noc_error + attestation_response" where
  "decode_attestation_response tlv =
     try_bind (map_err (noc_codec_error ''AttestationResponse'')
       (parse_with (signed_elements_parser ''AttestationResponse'' ''AttestationElements'' ''Signature'') tlv))
       (\<lambda>(x, s). Inr \<lparr>ar_elements = x, ar_signature = s\<rparr>)"

datatype cert_chain_type = ChainDac | ChainPai

definition cert_chain_code :: "cert_chain_type \<Rightarrow> u8" where
  "cert_chain_code t = (case t of ChainDac \<Rightarrow> 1 | ChainPai \<Rightarrow> 2)"

definition encode_certificate_chain_request :: "cert_chain_type \<Rightarrow> bytes option" where
  "encode_certificate_chain_request cert_type = written
     [start_structure Anonymous, put_uint (Context 0) (ucast (cert_chain_code cert_type)), end_container]"

definition certificate_step :: "tlv_element \<Rightarrow> bytes option \<Rightarrow> (bytes option, bytes option) flow im" where
  "certificate_step e cert =
     (if e = ContainerEnd then ok (Done cert)
      else (case bytes_at 0 e of
        Some b \<Rightarrow> if cert \<noteq> None
          then err (UnexpectedValue ''CertificateChainResponse: duplicate Certificate field'')
          else ok (Again (Some b))
      | None \<Rightarrow> otherwise e cert))"

definition certificate_parser :: "bytes im" where
  "certificate_parser =
     andthen (scan unclosed certificate_step None) (\<lambda>cert.
     andthen finish_im (\<lambda>_.
       need (UnexpectedValue ''CertificateChainResponse: missing Certificate field'') cert))"

definition decode_certificate_chain_response :: "bytes \<Rightarrow> noc_error + bytes" where
  "decode_certificate_chain_response tlv =
     map_err (noc_codec_error ''CertificateChainResponse'') (parse_with certificate_parser tlv)"

definition encode_csr_request :: "bytes \<Rightarrow> bool \<Rightarrow> bytes option" where
  "encode_csr_request nonce is_for_update_noc = written
     ([start_structure Anonymous, put_bytes (Context 0) nonce] @
      (if is_for_update_noc then [put_bool (Context 1) True] else []) @ [end_container])"

record csr_response =
  cr_nocsr_elements :: bytes
  cr_attestation_signature :: bytes

definition decode_csr_response :: "bytes \<Rightarrow> noc_error + csr_response" where
  "decode_csr_response tlv =
     try_bind (map_err (noc_codec_error ''CSRResponse'')
       (parse_with (signed_elements_parser ''CSRResponse'' ''NOCSRElements'' ''AttestationSignature'') tlv))
       (\<lambda>(x, s). Inr \<lparr>cr_nocsr_elements = x, cr_attestation_signature = s\<rparr>)"

definition encode_add_trusted_root :: "bytes \<Rightarrow> bytes option" where
  "encode_add_trusted_root rcac_tlv = written
     [start_structure Anonymous, put_bytes (Context 0) rcac_tlv, end_container]"

definition encode_add_noc :: "bytes \<Rightarrow> bytes option \<Rightarrow> bytes \<Rightarrow> u64 \<Rightarrow> u16 \<Rightarrow> bytes option" where
  "encode_add_noc noc_tlv icac_tlv ipk case_admin_subject admin_vendor_id = written
     ([start_structure Anonymous, put_bytes (Context 0) noc_tlv] @
      (case icac_tlv of Some icac \<Rightarrow> [put_bytes (Context 1) icac] | None \<Rightarrow> []) @
      [put_bytes (Context 2) ipk,
       put_uint (Context 3) case_admin_subject,
       put_uint (Context 4) (ucast admin_vendor_id),
       end_container])"

definition encode_update_noc :: "bytes \<Rightarrow> bytes option \<Rightarrow> bytes option" where
  "encode_update_noc noc_tlv icac_tlv = written
     ([start_structure Anonymous, put_bytes (Context 0) noc_tlv] @
      (case icac_tlv of Some icac \<Rightarrow> [put_bytes (Context 1) icac] | None \<Rightarrow> []) @ [end_container])"

record noc_response =
  nr_status :: u8
  nr_fabric_index :: "u8 option"
  nr_debug_text :: "bytes option"

type_synonym noc_acc = "u8 option \<times> u8 option \<times> bytes option"

definition noc_response_step :: "tlv_element \<Rightarrow> noc_acc \<Rightarrow> (noc_acc, noc_acc) flow im" where
  "noc_response_step e acc = (case acc of (status, fabric_index, debug_text) \<Rightarrow>
     if e = ContainerEnd then ok (Done acc)
     else (case uint_at 0 e of
       Some v \<Rightarrow> andthen (need (UnexpectedValue ''NOCResponse: StatusCode exceeds u8'') (try_u8 v))
         (\<lambda>n. ok (Again (Some n, fabric_index, debug_text)))
     | None \<Rightarrow> (case uint_at 1 e of
       Some v \<Rightarrow> andthen (need (UnexpectedValue ''NOCResponse: FabricIndex exceeds u8'') (try_u8 v))
         (\<lambda>n. ok (Again (status, Some n, debug_text)))
     | None \<Rightarrow> (case utf8_at 2 e of
       Some s \<Rightarrow> ok (Again (status, fabric_index, Some (truncate_utf8 s DEBUG_TEXT_MAX)))
     | None \<Rightarrow> otherwise e acc))))"

definition noc_response_parser :: "noc_response im" where
  "noc_response_parser =
     andthen (scan unclosed noc_response_step (None, None, None)) (\<lambda>(status, fabric_index, debug_text).
     andthen finish_im (\<lambda>_.
     andthen (need (UnexpectedValue ''NOCResponse: missing StatusCode field'') status) (\<lambda>n.
       ok \<lparr>nr_status = n, nr_fabric_index = fabric_index, nr_debug_text = debug_text\<rparr>)))"

definition decode_noc_response :: "bytes \<Rightarrow> noc_error + noc_response" where
  "decode_noc_response tlv = map_err (noc_codec_error ''NOCResponse'') (parse_with noc_response_parser tlv)"

section \<open>The certificate signing request\<close>

record nocsr_elements =
  ne_csr_der :: bytes
  ne_csr_nonce :: bytes
  ne_vendor_reserved_1 :: "bytes option"
  ne_vendor_reserved_2 :: "bytes option"
  ne_vendor_reserved_3 :: "bytes option"

type_synonym nocsr_acc = "bytes option \<times> bytes option \<times> bytes option \<times> bytes option \<times> bytes option"

text \<open>The message for an unknown tag also prints the tag.\<close>

definition nocsr_step :: "tlv_element \<Rightarrow> nocsr_acc \<Rightarrow> (nocsr_acc, nocsr_acc) flow im" where
  "nocsr_step e acc = (case acc of (csr_der, csr_nonce, vr1, vr2, vr3) \<Rightarrow>
     (case e of
       ContainerEnd \<Rightarrow> ok (Done acc)
     | Scalar (Context t) (VBytes b) \<Rightarrow>
         if t = 1 then (if csr_der \<noteq> None then err (UnexpectedValue ''duplicate csr field'')
           else ok (Again (Some b, csr_nonce, vr1, vr2, vr3)))
         else if t = 2 then (if csr_nonce \<noteq> None then err (UnexpectedValue ''duplicate csr_nonce field'')
           else andthen (need (UnexpectedValue ''csr_nonce must be exactly 32 bytes'') (try_array 32 b))
             (\<lambda>a. ok (Again (csr_der, Some a, vr1, vr2, vr3))))
         else if t = 3 then (if vr1 \<noteq> None then err (UnexpectedValue ''duplicate vendor_reserved_1'')
           else ok (Again (csr_der, csr_nonce, Some b, vr2, vr3)))
         else if t = 4 then (if vr2 \<noteq> None then err (UnexpectedValue ''duplicate vendor_reserved_2'')
           else ok (Again (csr_der, csr_nonce, vr1, Some b, vr3)))
         else if t = 5 then (if vr3 \<noteq> None then err (UnexpectedValue ''duplicate vendor_reserved_3'')
           else ok (Again (csr_der, csr_nonce, vr1, vr2, Some b)))
         else err (UnexpectedValue ''unknown NOCSR context tag'')
     | _ \<Rightarrow> err (UnexpectedValue ''unexpected element inside NOCSR'')))"

definition nocsr_parser :: "nocsr_elements im" where
  "nocsr_parser =
     andthen (scan (UnexpectedValue ''NOCSR TLV ended without container close'') nocsr_step (None, None, None, None, None))
       (\<lambda>(csr_der, csr_nonce, vr1, vr2, vr3).
     andthen (need (UnexpectedValue ''missing csr field'') csr_der) (\<lambda>c.
     andthen (need (UnexpectedValue ''missing csr_nonce field'') csr_nonce) (\<lambda>n.
       ok \<lparr>ne_csr_der = c, ne_csr_nonce = n, ne_vendor_reserved_1 = vr1, ne_vendor_reserved_2 = vr2,
           ne_vendor_reserved_3 = vr3\<rparr>)))"

definition parse_nocsr :: "bytes \<Rightarrow> noc_error + nocsr_elements" where
  "parse_nocsr tlv = map_err NocsrParse (parse_with nocsr_parser tlv)"

definition parse_and_verify_csr :: "pki \<Rightarrow> bytes \<Rightarrow> noc_error + bytes" where
  "parse_and_verify_csr L csr_der =
     try_bind (map_err CsrParse (request_from_der L csr_der)) (\<lambda>(csr, rest).
       if rest \<noteq> [] then Inl (CsrParse ''trailing bytes after PKCS#10 envelope'')
       else if length (csr_public_key csr) \<noteq> 65 \<or> hd (csr_public_key csr) \<noteq> 0x04 then Inl InvalidCsrPublicKey
       else if \<not> ecdsa_asn1_verify L (csr_public_key csr) (csr_tbs csr) (csr_signature csr)
       then Inl BadCsrSelfSignature
       else Inr (csr_public_key csr))"

text \<open>The constant-time comparison accumulates the differences of all 32 bytes.\<close>

definition ct_eq :: "bytes \<Rightarrow> bytes \<Rightarrow> bool" where
  "ct_eq a b \<longleftrightarrow> fold (\<lambda>(x, y) diff. diff OR (x XOR y)) (zip a b) 0 = 0"

definition verify_csr_response :: "pki \<Rightarrow> bytes \<Rightarrow> bytes \<Rightarrow> bytes \<Rightarrow> bytes \<Rightarrow> bytes \<Rightarrow> noc_error + bytes" where
  "verify_csr_response L elements_tlv attestation_signature expected_csr_nonce attestation_challenge dac_key =
     try_bind (parse_nocsr elements_tlv) (\<lambda>elements.
     try_bind (parse_and_verify_csr L (ne_csr_der elements)) (\<lambda>public_key.
       if \<not> ct_eq (ne_csr_nonce elements) expected_csr_nonce then Inl NonceMismatch
       else try_bind (map_err (\<lambda>_. BadCsrAttestationSignature)
              (verify_dac_signed_elements L elements_tlv attestation_challenge dac_key attestation_signature)) (\<lambda>_.
         Inr public_key)))"

end
