(* ===== verification/Fabric_Issuer.thy ===== *)
theory Fabric_Issuer
  imports Certificate_Chains Commissioning_Clusters
begin

text \<open>
  Fabrics and the certificates they issue, \<open>noc/fabric.rs\<close> and \<open>noc/issuer.rs\<close> of
  \<open>crates/matter-commissioning/src\<close>.

  A signer and the random generator are trait objects: a signer is its public key and its signing
  function; the generator is a function of the number of the draw and of the length asked for, and
  the number of draws is threaded through as state.
\<close>

section \<open>Signers, random bytes and fabrics\<close>

record signer =
  sg_public_key :: bytes
  sg_sign :: "bytes \<Rightarrow> signer_error + bytes"

type_synonym noc_rng = "nat \<Rightarrow> nat \<Rightarrow> noc_error + bytes"

definition rng_fill :: "noc_rng \<Rightarrow> nat \<Rightarrow> (nat, noc_error, bytes) comp" where
  "rng_fill rng len draws = (rng draws len, Suc draws)"

record fabric_record =
  fab_fabric_id :: u64
  fab_root_public_key :: bytes
  fab_root_signer :: signer
  fab_root_cert :: matter_certificate
  fab_icac_signer :: "signer option"
  fab_icac_cert :: "matter_certificate option"
  fab_identity_protection_key :: bytes

section \<open>Issuing\<close>

text \<open>A serial number: 19 random bytes, the first bit cleared.\<close>

definition random_serial :: "noc_rng \<Rightarrow> (nat, noc_error, bytes) comp" where
  "random_serial rng = andthen (rng_fill rng 19) (\<lambda>serial. ok (serial[0 := serial ! 0 AND 0x7F]))"

definition sign_certificate :: "(oid \<Rightarrow> bytes) \<Rightarrow> signer \<Rightarrow> cert_error + unsigned_certificate \<Rightarrow> noc_error + matter_certificate" where
  "sign_certificate oid_der sg profile =
     try_bind (map_err CertBuild profile) (\<lambda>unsigned.
     try_bind (map_err CertBuild (tbs_der oid_der unsigned)) (\<lambda>tbs.
     try_bind (map_err SigningFailed (sg_sign sg tbs)) (\<lambda>sig.
       Inr (assemble unsigned sig))))"

definition new_root_only :: "(oid \<Rightarrow> bytes) \<Rightarrow> (bytes \<Rightarrow> bytes) \<Rightarrow> (bytes \<Rightarrow> bytes \<Rightarrow> bytes \<Rightarrow> bool) \<Rightarrow>
    u64 \<Rightarrow> signer \<Rightarrow> matter_time \<Rightarrow> matter_time \<Rightarrow> u64 \<Rightarrow> noc_rng \<Rightarrow> (nat, noc_error, fabric_record) comp" where
  "new_root_only oid_der sha1 ecdsa f_id root_signer not_before not_after r_id rng =
     (let root_public_key = sg_public_key root_signer;
          ski_id = sha1 (drop 1 root_public_key);
          rcac_subject = [RcacId r_id];
          rcac_extensions = extensions_default\<lparr>
            ex_basic_constraints := Some \<lparr>bc_is_ca = True, bc_path_len = Some 1\<rparr>,
            ex_key_usage := Some (KEY_CERT_SIGN OR CRL_SIGN),
            ex_subject_key_identifier := Some ski_id,
            ex_authority_key_identifier := Some ski_id\<rparr>
      in andthen (random_serial rng) (\<lambda>serial.
         andthen (lift_result (sign_certificate oid_der root_signer (build_unsigned
           \<lparr>bld_serial = Some serial, bld_issuer = Some rcac_subject, bld_not_before = Some not_before,
            bld_not_after = Some not_after, bld_subject = Some rcac_subject, bld_public_key = Some root_public_key,
            bld_extensions = Some rcac_extensions\<rparr>))) (\<lambda>root_cert.
         andthen (lift_result (map_err CertBuild (verify_signed_by oid_der ecdsa root_cert root_public_key))) (\<lambda>_.
         andthen (rng_fill rng 16) (\<lambda>ipk.
           ok \<lparr>fab_fabric_id = f_id, fab_root_public_key = root_public_key, fab_root_signer = root_signer,
               fab_root_cert = root_cert, fab_icac_signer = None, fab_icac_cert = None,
               fab_identity_protection_key = ipk\<rparr>)))))"

text \<open>The identity a fabric signs with: that of the intermediate authority when signer and certificate are there.\<close>

definition identity_of :: "matter_certificate \<Rightarrow> signer \<Rightarrow> noc_error + distinguished_name \<times> bytes \<times> signer" where
  "identity_of cert sg = try_bind (ok_or (ex_subject_key_identifier (crt_extensions cert)) (CertBuild (CertMissingField 4)))
     (\<lambda>ski. Inr (crt_subject cert, ski, sg))"

definition noc_issuer :: "fabric_record \<Rightarrow> noc_error + distinguished_name \<times> bytes \<times> signer" where
  "noc_issuer fabric = (case (fab_icac_signer fabric, fab_icac_cert fabric) of
     (Some icac_signer, Some icac_cert) \<Rightarrow> identity_of icac_cert icac_signer
   | _ \<Rightarrow> identity_of (fab_root_cert fabric) (fab_root_signer fabric))"

definition issue_noc :: "(oid \<Rightarrow> bytes) \<Rightarrow> (bytes \<Rightarrow> bytes) \<Rightarrow> fabric_record \<Rightarrow> bytes \<Rightarrow> u64 \<Rightarrow> u32 list \<Rightarrow>
    matter_time \<times> matter_time \<Rightarrow> noc_rng \<Rightarrow> (nat, noc_error, matter_certificate) comp" where
  "issue_noc oid_der sha1 fabric csr_key n_id case_authenticated_tags validity rng =
     andthen (lift_result (noc_issuer fabric)) (\<lambda>(issuer_dn, issuer_ski, sg).
     andthen (random_serial rng) (\<lambda>serial.
       lift_result (sign_certificate oid_der sg (noc sha1
         \<lparr>np_fabric_id = fab_fabric_id fabric, np_node_id = n_id, np_case_authenticated_tags = case_authenticated_tags,
          np_issuer = issuer_dn, np_issuer_skid = issuer_ski, np_public_key = csr_key, np_serial = serial,
          np_not_before = fst validity, np_not_after = snd validity\<rparr>))))"

definition issue_icac :: "(oid \<Rightarrow> bytes) \<Rightarrow> (bytes \<Rightarrow> bytes) \<Rightarrow> fabric_record \<Rightarrow> u64 \<Rightarrow> bytes \<Rightarrow>
    matter_time \<times> matter_time \<Rightarrow> noc_rng \<Rightarrow> (nat, noc_error, matter_certificate) comp" where
  "issue_icac oid_der sha1 fabric i_id icac_public_key validity rng =
     andthen (lift_result (identity_of (fab_root_cert fabric) (fab_root_signer fabric))) (\<lambda>(issuer_dn, root_ski, sg).
     andthen (random_serial rng) (\<lambda>serial.
       lift_result (sign_certificate oid_der sg (icac sha1
         \<lparr>ip_icac_id = i_id, ip_issuer = issuer_dn, ip_issuer_skid = root_ski, ip_public_key = icac_public_key,
          ip_serial = serial, ip_not_before = fst validity, ip_not_after = snd validity\<rparr>))))"

section \<open>The certificates a fabric issues\<close>

definition signs :: "(bytes \<Rightarrow> bytes \<Rightarrow> bytes \<Rightarrow> bool) \<Rightarrow> signer \<Rightarrow> bool" where
  "signs ecdsa sg \<longleftrightarrow> (\<forall>m. \<exists>s. sg_sign sg m = Inr s \<and> ecdsa (sg_public_key sg) m s)"

definition delivers :: "noc_rng \<Rightarrow> bool" where
  "delivers rng \<longleftrightarrow> (\<forall>k n. \<exists>b. rng k n = Inr b \<and> length b = n)"

lemma fill_delivers: "delivers rng \<Longrightarrow> \<exists>b. rng_fill rng n k = (Inr b, Suc k) \<and> length b = n"
  unfolding delivers_def rng_fill_def by (metis (no_types))

lemma serial_delivers: "delivers rng \<Longrightarrow> \<exists>s. random_serial rng k = (Inr s, Suc k) \<and> length s = 19"
  using fill_delivers [of rng 19 k] by (auto simp: random_serial_def andthen_Inr)

lemma sign_certificate_signed:
  assumes "signs ecdsa sg" "uns_serial u \<noteq> []" "list_all encodable (uns_issuer u)" "list_all encodable (uns_subject u)"
  shows "\<exists>s. sign_certificate oid_der sg (Inr u) = Inr (assemble u s) \<and> signed_by oid_der ecdsa (assemble u s) (sg_public_key sg)"
proof -
  obtain tbs where tbs: "tbs_der oid_der u = Inr tbs"
    using tbs_exists [of "assemble u (replicate 64 0)"] assms(2-4) unfolding tbs_der_def by (auto simp: assemble_def)
  obtain s where s: "sg_sign sg tbs = Inr s" "ecdsa (sg_public_key sg) tbs s" using assms(1) unfolding signs_def by blast
  have "signed_by oid_der ecdsa (assemble u s) (sg_public_key sg)"
    unfolding signed_by_def tbs_der_assemble using tbs s(2) by (simp add: assemble_def)
  with tbs s(1) show ?thesis by (auto simp: sign_certificate_def)
qed

text \<open>What an authority of a fabric needs: a name that can be encoded, a key identifier, and a signer of its key.\<close>

definition issuer_cert :: "(bytes \<Rightarrow> bytes \<Rightarrow> bytes \<Rightarrow> bool) \<Rightarrow> matter_certificate \<Rightarrow> signer \<Rightarrow> bool" where
  "issuer_cert ecdsa c sg \<longleftrightarrow> signs ecdsa sg \<and> crt_public_key c = sg_public_key sg \<and> list_all encodable (crt_subject c) \<and>
     ex_subject_key_identifier (crt_extensions c) \<noteq> None"

lemma new_fabric:
  assumes "signs ecdsa sg" "delivers rng"
  shows "\<exists>fabric. new_root_only oid_der sha1 ecdsa f_id sg nb na r_id rng k = (Inr fabric, k + 2) \<and>
    fab_fabric_id fabric = f_id \<and> fab_root_signer fabric = sg \<and> fab_icac_signer fabric = None \<and>
    issuer_cert ecdsa (fab_root_cert fabric) sg \<and> signed_by oid_der ecdsa (fab_root_cert fabric) (fab_root_public_key fabric)"
proof -
  obtain serial ipk where serial: "random_serial rng k = (Inr serial, Suc k)" "length serial = 19"
    and ipk: "rng_fill rng 16 (Suc k) = (Inr ipk, Suc (Suc k))"
    using serial_delivers [OF assms(2)] fill_delivers [OF assms(2)] by blast
  define u where "u = \<lparr>uns_serial = serial, uns_issuer = [RcacId r_id], uns_not_before = nb, uns_not_after = na,
    uns_subject = [RcacId r_id], uns_public_key = sg_public_key sg, uns_extensions = extensions_default\<lparr>
      ex_basic_constraints := Some \<lparr>bc_is_ca = True, bc_path_len = Some 1\<rparr>,
      ex_key_usage := Some (KEY_CERT_SIGN OR CRL_SIGN),
      ex_subject_key_identifier := Some (sha1 (drop 1 (sg_public_key sg))),
      ex_authority_key_identifier := Some (sha1 (drop 1 (sg_public_key sg)))\<rparr>\<rparr>"
  have ne: "serial \<noteq> []" "length serial \<le> 20" using serial(2) by auto
  then obtain s where s: "sign_certificate oid_der sg (Inr u) = Inr (assemble u s)"
    "signed_by oid_der ecdsa (assemble u s) (sg_public_key sg)"
    using sign_certificate_signed [OF assms(1), of u oid_der] by (auto simp: u_def encodable_def)
  have "new_root_only oid_der sha1 ecdsa f_id sg nb na r_id rng k =
    (Inr \<lparr>fab_fabric_id = f_id, fab_root_public_key = sg_public_key sg, fab_root_signer = sg, fab_root_cert = assemble u s,
       fab_icac_signer = None, fab_icac_cert = None, fab_identity_protection_key = ipk\<rparr>, k + 2)"
    using ipk s(2) verify_signed_by_iff [of oid_der ecdsa "assemble u s" "sg_public_key sg"]
    unfolding new_root_only_def Let_def andthen_Inr [where m = "random_serial rng", OF serial(1)] build_unsigned_Some [OF ne] u_def [symmetric] s(1)
    by (simp add: andthen_Inr lift_result_def)
  then show ?thesis using s(2) assms(1) by (auto simp: issuer_cert_def assemble_def u_def encodable_def)
qed

lemma issued_noc:
  assumes "noc_issuer fabric = Inr (crt_subject c, ski, sg)" "issuer_cert ecdsa c sg" "delivers rng"
  shows "\<exists>leaf. issue_noc oid_der sha1 fabric key n_id cats (nb, na) rng k = (Inr leaf, Suc k) \<and>
    signed_by oid_der ecdsa leaf (crt_public_key c) \<and> crt_issuer leaf = crt_subject c \<and> \<not> asserts_ca leaf \<and>
    crt_not_before leaf = nb \<and> crt_not_after leaf = na \<and> crt_public_key leaf = key \<and>
    ex_authority_key_identifier (crt_extensions leaf) = Some ski \<and>
    fabric_id (crt_subject leaf) = Some (fab_fabric_id fabric) \<and> node_id (crt_subject leaf) = Some n_id"
proof -
  obtain serial where serial: "random_serial rng k = (Inr serial, Suc k)" "length serial = 19" using serial_delivers [OF assms(3)] by blast
  define p where "p = \<lparr>np_fabric_id = fab_fabric_id fabric, np_node_id = n_id, np_case_authenticated_tags = cats,
    np_issuer = crt_subject c, np_issuer_skid = ski, np_public_key = key, np_serial = serial, np_not_before = nb, np_not_after = na\<rparr>"
  have p: "np_serial p \<noteq> []" "length (np_serial p) \<le> 20" "list_all encodable (np_issuer p)"
    using serial(2) assms(2) by (auto simp: p_def issuer_cert_def)
  from noc_unsigned [OF this] obtain u where u: "noc sha1 p = Inr u" "uns_serial u \<noteq> []" "list_all encodable (uns_issuer u)"
    "list_all encodable (uns_subject u)" "uns_issuer u = np_issuer p" "uns_public_key u = np_public_key p"
    "uns_subject u = FabricId (np_fabric_id p) # NodeId (np_node_id p) # map CaseAuthenticatedTag (np_case_authenticated_tags p)"
    "uns_not_before u = np_not_before p" "uns_not_after u = np_not_after p"
    "ex_authority_key_identifier (uns_extensions u) = Some (np_issuer_skid p)" "\<And>s. \<not> asserts_ca (assemble u s)" by metis
  have sg: "signs ecdsa sg" using assms(2) by (simp add: issuer_cert_def)
  from sign_certificate_signed [OF sg u(2-4), of oid_der] obtain s where
    s: "sign_certificate oid_der sg (Inr u) = Inr (assemble u s)" "signed_by oid_der ecdsa (assemble u s) (sg_public_key sg)" by blast
  have "issue_noc oid_der sha1 fabric key n_id cats (nb, na) rng k = (Inr (assemble u s), Suc k)"
    unfolding issue_noc_def assms(1) fst_conv snd_conv
    using serial(1) s(1) u(1) by (simp add: andthen_Inr lift_result_def p_def)
  then show ?thesis
    using s(2) u(5-11) assms(2)
    by (intro exI [of _ "assemble u s"]) (simp add: issuer_cert_def assemble_def p_def fabric_id_def node_id_def)
qed

lemma issued_icac:
  assumes "fab_root_signer fabric = sg" "issuer_cert ecdsa (fab_root_cert fabric) sg" "delivers rng" "signs ecdsa isg"
  shows "\<exists>ica. issue_icac oid_der sha1 fabric i_id (sg_public_key isg) (nb, na) rng k = (Inr ica, Suc k) \<and>
    signed_by oid_der ecdsa ica (sg_public_key sg) \<and> crt_issuer ica = crt_subject (fab_root_cert fabric) \<and>
    authority 0 ica \<and> crt_not_before ica = nb \<and> crt_not_after ica = na \<and> issuer_cert ecdsa ica isg \<and>
    ex_authority_key_identifier (crt_extensions ica) = ex_subject_key_identifier (crt_extensions (fab_root_cert fabric))"
proof -
  obtain serial where serial: "random_serial rng k = (Inr serial, Suc k)" "length serial = 19" using serial_delivers [OF assms(3)] by blast
  obtain ski where ski: "ex_subject_key_identifier (crt_extensions (fab_root_cert fabric)) = Some ski"
    using assms(2) by (auto simp: issuer_cert_def)
  define p where "p = \<lparr>ip_icac_id = i_id, ip_issuer = crt_subject (fab_root_cert fabric), ip_issuer_skid = ski,
    ip_public_key = sg_public_key isg, ip_serial = serial, ip_not_before = nb, ip_not_after = na\<rparr>"
  have p: "ip_serial p \<noteq> []" "length (ip_serial p) \<le> 20" "list_all encodable (ip_issuer p)"
    using serial(2) assms(2) by (auto simp: p_def issuer_cert_def)
  from icac_unsigned [OF this] obtain u where u: "icac sha1 p = Inr u" "uns_serial u \<noteq> []" "list_all encodable (uns_issuer u)"
    "list_all encodable (uns_subject u)" "uns_subject u = [IcacId (ip_icac_id p)]" "uns_issuer u = ip_issuer p"
    "uns_public_key u = ip_public_key p" "uns_not_before u = ip_not_before p" "uns_not_after u = ip_not_after p"
    "ex_subject_key_identifier (uns_extensions u) = Some (skid_from_spki sha1 (ip_public_key p))"
    "ex_authority_key_identifier (uns_extensions u) = Some (ip_issuer_skid p)" "\<And>s. authority 0 (assemble u s)" by metis
  have sg: "signs ecdsa sg" using assms(2) by (simp add: issuer_cert_def)
  from sign_certificate_signed [OF sg u(2-4), of oid_der] obtain s where
    s: "sign_certificate oid_der sg (Inr u) = Inr (assemble u s)" "signed_by oid_der ecdsa (assemble u s) (sg_public_key sg)" by blast
  have "issue_icac oid_der sha1 fabric i_id (sg_public_key isg) (nb, na) rng k = (Inr (assemble u s), Suc k)"
    unfolding issue_icac_def identity_of_def ski assms(1) fst_conv snd_conv
    using serial(1) s(1) u(1) by (simp add: andthen_Inr lift_result_def p_def)
  then show ?thesis
    using s(2) u(4-12) ski assms(4)
    by (intro exI [of _ "assemble u s"]) (simp add: issuer_cert_def assemble_def p_def)
qed

lemma anchored_by_root:
  assumes "fab_root_signer fabric = sg" "issuer_cert ecdsa (fab_root_cert fabric) sg" "signed_by oid_der ecdsa c (sg_public_key sg)"
    "crt_issuer c = crt_subject (fab_root_cert fabric)"
    "ex_authority_key_identifier (crt_extensions c) = ex_subject_key_identifier (crt_extensions (fab_root_cert fabric))"
  shows "anchors oid_der ecdsa (from_root_cert (fab_root_cert fabric)) c"
  using assms by (simp add: anchors_def from_root_cert_def issuer_cert_def)

text \<open>
  C14. Signers that sign and a generator that delivers: a new fabric can be made; the node certificate it
  issues for a key, straight under its root or under an intermediate authority it issued, names
  the fabric, the node and the key, and is accepted under the fabric's root throughout its validity
  and that of the intermediate certificate.
\<close>

theorem fabric_certificates_accepted:
  assumes "signs ecdsa root_signer" "signs ecdsa icac_signer" "delivers rng" "within t nb na" "within t nb' na'"
  shows "\<exists>fabric flat ica leaf k1 k2 k3 k4.
    new_root_only oid_der sha1 ecdsa f_id root_signer root_nb root_na r_id rng k = (Inr fabric, k1) \<and>
    issue_noc oid_der sha1 fabric key n_id cats (nb, na) rng k1 = (Inr flat, k2) \<and>
    validate oid_der ecdsa [flat] [from_root_cert (fab_root_cert fabric)] t = Inr () \<and>
    issue_icac oid_der sha1 fabric i_id (sg_public_key icac_signer) (nb', na') rng k2 = (Inr ica, k3) \<and>
    issue_noc oid_der sha1 (fabric\<lparr>fab_icac_signer := Some icac_signer, fab_icac_cert := Some ica\<rparr>) key n_id cats (nb, na) rng k3 =
      (Inr leaf, k4) \<and>
    validate oid_der ecdsa [leaf, ica] [from_root_cert (fab_root_cert fabric)] t = Inr () \<and>
    list_all (\<lambda>c. fabric_id (crt_subject c) = Some f_id \<and> node_id (crt_subject c) = Some n_id \<and> crt_public_key c = key) [flat, leaf]"
proof -
  obtain fabric where f: "new_root_only oid_der sha1 ecdsa f_id root_signer root_nb root_na r_id rng k = (Inr fabric, k + 2)"
    "fab_fabric_id fabric = f_id" "fab_root_signer fabric = root_signer" "fab_icac_signer fabric = None"
    "issuer_cert ecdsa (fab_root_cert fabric) root_signer" using new_fabric [OF assms(1,3)] by blast
  obtain ski where ski: "ex_subject_key_identifier (crt_extensions (fab_root_cert fabric)) = Some ski"
    using f(5) by (auto simp: issuer_cert_def)
  have "noc_issuer fabric = Inr (crt_subject (fab_root_cert fabric), ski, root_signer)"
    using f(3,4) ski by (simp add: noc_issuer_def identity_of_def)
  from issued_noc [OF this f(5) assms(3), where oid_der = oid_der and ?sha1.0 = sha1 and key = key and n_id = n_id and cats = cats
      and nb = nb and na = na and k = "k + 2"]
  obtain flat where flat: "issue_noc oid_der sha1 fabric key n_id cats (nb, na) rng (k + 2) = (Inr flat, k + 3)"
    "validate oid_der ecdsa [flat] [from_root_cert (fab_root_cert fabric)] t = Inr ()"
    "fabric_id (crt_subject flat) = Some f_id \<and> node_id (crt_subject flat) = Some n_id \<and> crt_public_key flat = key"
    using one_certificate_accepted [of t _ "from_root_cert (fab_root_cert fabric)"] anchored_by_root [OF f(3,5)] assms(4) ski f(2,5)
    by (auto simp: current_def within_def issuer_cert_def)
  from issued_icac [OF f(3,5) assms(3,2), where oid_der = oid_der and ?sha1.0 = sha1 and i_id = i_id and nb = nb' and na = na' and k = "k + 3"]
  obtain ica where ica: "issue_icac oid_der sha1 fabric i_id (sg_public_key icac_signer) (nb', na') rng (k + 3) = (Inr ica, k + 4)"
    "current t ica" "authority 0 ica" "issuer_cert ecdsa ica icac_signer" "anchors oid_der ecdsa (from_root_cert (fab_root_cert fabric)) ica"
    using anchored_by_root [OF f(3,5)] assms(5) by (auto simp: current_def within_def)
  obtain iski where iski: "ex_subject_key_identifier (crt_extensions ica) = Some iski" using ica(4) by (auto simp: issuer_cert_def)
  let ?fabric = "fabric\<lparr>fab_icac_signer := Some icac_signer, fab_icac_cert := Some ica\<rparr>"
  have "noc_issuer ?fabric = Inr (crt_subject ica, iski, icac_signer)" using iski by (simp add: noc_issuer_def identity_of_def)
  from issued_noc [OF this ica(4) assms(3), where oid_der = oid_der and ?sha1.0 = sha1 and key = key and n_id = n_id and cats = cats
      and nb = nb and na = na and k = "k + 4"]
  obtain leaf where leaf: "issue_noc oid_der sha1 ?fabric key n_id cats (nb, na) rng (k + 4) = (Inr leaf, k + 5)"
    "validate oid_der ecdsa [leaf, ica] [from_root_cert (fab_root_cert fabric)] t = Inr ()"
    "fabric_id (crt_subject leaf) = Some f_id \<and> node_id (crt_subject leaf) = Some n_id \<and> crt_public_key leaf = key"
    using two_certificates_accepted [of t _ ica oid_der ecdsa "from_root_cert (fab_root_cert fabric)"] ica(2,3,5) assms(4) f(2)
    by (auto simp: current_def within_def)
  from f(1) flat ica(1) leaf show ?thesis by - (intro exI conjI, assumption+, simp)
qed

definition sample_signer :: "bytes \<Rightarrow> signer" where
  "sample_signer key = \<lparr>sg_public_key = key, sg_sign = (\<lambda>m. Inr (take 64 (key @ replicate 64 0)))\<rparr>"

definition sample_rng :: noc_rng where
  "sample_rng draws len = Inr (replicate len (word_of_nat draws))"

lemma sample_signer_signs: "signs sample_ecdsa (sample_signer key)"
  by (simp add: signs_def sample_signer_def sample_ecdsa_def)

lemma sample_rng_delivers: "delivers sample_rng"
  by (simp add: delivers_def sample_rng_def)

theorem fabric_certificates_accepted_witness:
  "\<exists>fabric flat k1 k2. new_root_only sample_oid_der (\<lambda>_. replicate 20 5) sample_ecdsa 7 (sample_signer (4 # replicate 64 1)) 0 NO_EXPIRY 1
       sample_rng 0 = (Inr fabric, k1) \<and>
     issue_noc sample_oid_der (\<lambda>_. replicate 20 5) fabric (4 # replicate 64 3) 42 [] (1000, NO_EXPIRY) sample_rng k1 = (Inr flat, k2) \<and>
     validate sample_oid_der sample_ecdsa [flat] [from_root_cert (fab_root_cert fabric)] 2000 = Inr () \<and>
     node_id (crt_subject flat) = Some 42"
proof -
  have w: "within 2000 1000 NO_EXPIRY" by (simp add: within_def)
  show ?thesis
    using fabric_certificates_accepted [OF sample_signer_signs [of "4 # replicate 64 1"] sample_signer_signs [of "4 # replicate 64 2"] sample_rng_delivers w w,
      where oid_der = sample_oid_der and ?sha1.0 = "\<lambda>_. replicate 20 5" and f_id = 7 and key = "4 # replicate 64 3"
      and root_nb = 0 and root_na = NO_EXPIRY and r_id = 1 and k = 0 and i_id = 2 and n_id = 42 and cats = "[]"]
    by auto
qed

end
