(* ===== verification/Spec2Isabelle.thy ===== *)
theory Spec2Isabelle
  imports TLV_Properties Setup_Payload Session_Properties BDX_Transfer BTP_Link IM_Commands IM_Typing
    Attestation_Properties Fabric_Issuer
begin

text \<open>
  A verification library for matter-rust, a Matter controller stack in Rust (\<open>src/crates\<close>).

  \<^bold>\<open>The program.\<close> Application payloads are trees in Matter's tag-length-value format
  (\<open>matter-codec\<close>). On a secured session the transport (\<open>matter-transport\<close>) puts a protocol
  header before each payload, seals it with AES-CCM under a per-session message counter, and
  at the receiving end authenticates it, rejects counters already seen with a sliding window,
  and acknowledges and retransmits by the Message Reliability Protocol; the session manager
  owns the table of sessions and composes the three. A new device is found with the data of
  its QR or manual pairing code (\<open>matter-commissioning/src/setup\<close>) and may first be reached
  over Bluetooth, where a session engine segments messages into packets under a window
  (\<open>matter-ble\<close>). Before it joins a fabric it proves its make by an attestation chain, asks for a
  certificate, and is given a node certificate issued under the fabric's root
  (\<open>matter-commissioning\<close>, \<open>matter-cert\<close>). From then on it is read, written and commanded with the
  messages of the interaction model (\<open>matter-interaction\<close>). Firmware images travel by bulk data
  exchange (\<open>matter-bdx\<close>).

  \<^bold>\<open>How Rust is written here.\<close> A method that takes \<open>&mut self\<close> and may fail is a state-passing
  computation \<open>('s, 'e, 'a) comp\<close> that returns the error or the value and the state it leaves,
  also on failure. Structs are records, enums datatypes, \<open>u8\<close> to \<open>u64\<close> words of their width,
  vectors and strings lists of bytes, hash tables association lists with distinct keys,
  instants and durations whole milliseconds. A loop over input is a function with a measure.
  Code of other crates is an argument: AES-CCM (record \<open>ccm\<close> with the laws \<open>ccm_laws\<close>), HKDF,
  the binary32 operations of the retransmission delay (record \<open>float_ops\<close>), X.509 and CMS parsing
  and path validation (record \<open>pki\<close>), the encoding of object identifiers, digests, signatures and
  random draws. What is asked of them is a hypothesis of the property: \<open>oid_encoding\<close>, \<open>unforged\<close> (of the
  signatures presented in a chain, under keys that are held), \<open>key_pair\<close>, \<open>signs\<close>, \<open>delivers\<close>.

  \<^bold>\<open>Theories.\<close>
  \<^item> \<open>Matter_Prelude\<close>: machine integers, computations, little-endian encodings, and the
    interfaces \<open>byte_codec\<close> (encoding and decoding that invert each other, with any input
    following) and \<open>guarded_machine\<close> (an invariant kept by every step, hence along runs, and
    measures bounded by the number of operations that raise them).
  \<^item> \<open>TLV_Types\<close>, \<open>TLV_Writer\<close>, \<open>TLV_Reader\<close>: the whole TLV codec. \<open>TLV_Roundtrip\<close>,
    \<open>TLV_Safety\<close> and \<open>TLV_Properties\<close> prove that what is written is read back, that
    hostile input gives trees within the depth limit and the element budget, that the
    uncharged fast path of the tree reader agrees with the charged one, and that skipping a
    container ends where reading it would. The codec is an instance of \<open>byte_codec\<close>.
  \<^item> \<open>Setup_Base38\<close>, \<open>Setup_Verhoeff\<close>, \<open>Setup_Payload\<close>: onboarding codes. Base38 decoding accepts
    exactly the encodings; the check digit detects every single error and adjacent
    transposition (interface \<open>check_digit_scheme\<close>, instantiated by the source's tables); a QR
    code gives back the payload with a three-bit version and a long discriminator, and a manual
    code what it carries of it.
  \<^item> \<open>Protocol_Header\<close>: the application protocol header (\<open>protocol_header.rs\<close>), an instance of
    \<open>byte_codec\<close>.
  \<^item> \<open>Replay_Window\<close>: \<open>ReplayWindow\<close> of \<open>framing.rs\<close>, an instance of \<open>replay_filter\<close>, which refines
    a filter that remembers all accepted counters.
  \<^item> \<open>Framing\<close>, \<open>Framing_Security\<close>: headers, unicast and group messages of \<open>framing.rs\<close>. Round
    trips, and the behaviour on an arbitrary stream of datagrams: forgeries change nothing and
    no counter is delivered twice.
  \<^item> \<open>MRP\<close>, \<open>MRP_Invariant\<close>, \<open>MRP_Properties\<close>: the reliability protocol (\<open>mrp.rs\<close>). Its tables stay
    consistent, a peer alone cannot hold more than 256 exchanges, acknowledgements are neither lost nor sent twice, and the timer
    loop sends each message the configured number of times and then reports it.
  \<^item> \<open>Session\<close>, \<open>Session_Invariant\<close>, \<open>Session_Properties\<close>: the session manager (\<open>session.rs\<close>). No
    counter is used twice under a key, a message sent is delivered at the other end and at
    most once, refused sends change nothing, and the table is bounded and evicts idle
    sessions first.
  \<^item> \<open>BDX\<close>, \<open>BDX_Transfer\<close>: bulk data exchange (\<open>messages.rs\<close>, \<open>sender.rs\<close>). The blocks served are
    consecutive pieces of the image whatever the receiver sends, and a receiver that pulls
    gets all of it.
  \<^item> \<open>BTP\<close>, \<open>BTP_Link\<close>: advertisements, handshake and session engine of \<open>matter-ble\<close>. Two engines on
    a link that keeps order are a pair of reliable message queues, within the window.
  \<^item> \<open>IM\<close>, \<open>IM_Invoke\<close>, \<open>IM_Write\<close>, \<open>IM_Report\<close>, \<open>IM_Accumulator\<close>: the builders and parsers of
    \<open>matter-interaction\<close> and its report accumulator. \<open>IM\<close> holds the loop that all parsers are
    (\<open>scan_as\<close>), over any error type, and \<open>IM_Runs\<close> the rules for what a parser makes of an
    encoded tree and for what it can deliver at all; the parsers of the later theories use both.
    \<open>IM_Commands\<close>: requests, batches and responses arrive as they were built. \<open>IM_Write\<close>: so does a
    list written in chunks. \<open>IM_Reading\<close>, \<open>IM_Accumulator\<close>: chunked reads are put together
    exactly, within bounds. \<open>IM_Typing\<close>: every value delivered can be written again.
  \<^item> \<open>Attestation\<close>, \<open>Attestation_Properties\<close>: \<open>matter-commissioning/src/attestation\<close>. Exactly which
    certificates, chains and certification declarations are accepted.
  \<^item> \<open>Certificates\<close>, \<open>Certificates_Properties\<close>: names, extensions and the TLV form of operational
    certificates (\<open>name.rs\<close>, \<open>extensions.rs\<close>, \<open>certificate.rs\<close>); what is parsed can be written and is
    parsed back.
  \<^item> \<open>Certificate_DER\<close>: the X.509 form (\<open>x509.rs\<close>), chains (\<open>chain.rs\<close>), builder and profiles
    (\<open>builder.rs\<close>, \<open>operational.rs\<close>). \<open>Certificate_Calendar\<close>: dates are those of the Gregorian
    calendar. \<open>Certificate_Encoding\<close>: the encoder that splices lengths into one buffer gives the
    nested encoding. \<open>Certificate_Binding\<close>: that encoding, and so a signature, determines the
    certificate up to the parts it does not show. \<open>Certificate_Chains\<close>: which chains are
    accepted, that their certificates were issued by holders of the keys above them if no
    signature in them is forged and holders make authorities only of holders, and that the
    certificates of the profiles form accepted chains.
  \<^item> \<open>Commissioning_Clusters\<close>: stages and errors of commissioning, the codecs of the commands
    (\<open>clusters\<close>, \<open>noc/commands.rs\<close>), the check of a certificate signing request (\<open>noc/csr.rs\<close>) and
    Thread datasets (\<open>thread_dataset.rs\<close>).
  \<^item> \<open>Fabric_Issuer\<close>: fabrics and the certificates they issue (\<open>noc/fabric.rs\<close>, \<open>noc/issuer.rs\<close>), which
    are accepted under the fabric's root.

  \<^bold>\<open>Bounds.\<close> \<open>usize\<close> is 64 bits wide. The reader's element budget and \<open>MAX_DEPTH\<close> are the source's.
  The receiver loop \<open>pull\<close> of \<open>BDX_Transfer\<close> takes fuel, and \<open>transfer_completes\<close> shows one query
  per byte and one more to be enough. The search of \<open>allocate_id\<close> takes 65537 rounds, and
  \<open>allocate_id_total\<close> shows that it finds a free id whenever there is one. The timer loop of
  \<open>MRP_Properties\<close> takes the lateness of each wake-up, and \<open>reliable_send_schedule\<close> shows how many
  drain all work. The loop \<open>scan_as\<close> takes one round per byte left, and \<open>scan_fuel_eq\<close> shows
  that more rounds change nothing. Signed certificates are shorter than 2 to the 64.

  \<^bold>\<open>Not modelled.\<close> Sockets, discovery, the Bluetooth central and the commissioning drivers drive
  operating-system and third-party interfaces. The PASE and CASE handshakes rest on elliptic
  curves of third-party crates. The cursor of the commissioning state machine
  (\<open>state_machine/commissioner.rs\<close>) and the OTA provider are not translated. The controller is an
  actor of asynchronous tasks, of which the merging of chunked reads is here, and the cluster
  definitions are generated code. Of the modelled files, read-only accessors, debug formatting
  and log output are left out.
\<close>

end
